(* ===== verification/Prelude.thy ===== *)
theory Prelude
  imports Main "HOL-Library.Word"
begin

text \<open>
  Shared vocabulary of the development: names for Go's machine types, the result type of a
  Go function that returns an error, big-endian integers (encoding/binary), 64-bit signed
  arithmetic for \<^verbatim>\<open>time.Duration\<close>, decimal rendering (\<^verbatim>\<open>%d\<close>), and the list lemmas the
  components share. The collections \<open>wire_len\<close> and \<open>wire_rt\<close> gather, over the whole
  development, the lengths and the round trips of byte encodings.
\<close>

named_theorems wire_len "lengths of encoded values"
named_theorems wire_rt "round trips of encoded values"

type_synonym byte = "8 word"
type_synonym u16 = "16 word"
type_synonym u32 = "32 word"
type_synonym u64 = "64 word"
type_synonym bytes = "byte list"

text \<open>A Go function that returns (value, error) returns \<open>Inl err\<close> or \<open>Inr value\<close>.\<close>

type_synonym ('e, 'a) res = "'e + 'a"

section \<open>Big-endian integers\<close>

text \<open>
  \<open>be_bytes n x\<close> are the \<open>n\<close> low bytes of \<open>x\<close>, most significant first, as
  \<^verbatim>\<open>binary.BigEndian.PutUint32\<close> and \<^verbatim>\<open>PutUint64\<close> store them; \<open>be_val\<close> reads them back.
\<close>

fun be_bytes :: "nat \<Rightarrow> nat \<Rightarrow> bytes" where
  "be_bytes 0 x = []"
| "be_bytes (Suc n) x = be_bytes n (x div 256) @ [of_nat x]"

fun be_val :: "bytes \<Rightarrow> nat" where
  "be_val [] = 0"
| "be_val (b # bs) = unat b * 256 ^ length bs + be_val bs"

definition PutUint16 :: "u16 \<Rightarrow> bytes" where
  "PutUint16 v = be_bytes 2 (unat v)"

definition PutUint32 :: "u32 \<Rightarrow> bytes" where
  "PutUint32 v = be_bytes 4 (unat v)"

definition PutUint64 :: "u64 \<Rightarrow> bytes" where
  "PutUint64 v = be_bytes 8 (unat v)"

definition Uint16 :: "bytes \<Rightarrow> u16" where
  "Uint16 bs = of_nat (be_val bs)"

definition Uint32 :: "bytes \<Rightarrow> u32" where
  "Uint32 bs = of_nat (be_val bs)"

definition Uint64 :: "bytes \<Rightarrow> u64" where
  "Uint64 bs = of_nat (be_val bs)"

text \<open>The go_slice expression \<^verbatim>\<open>buf[i:j]\<close>, for \<open>i \<le> j \<le> length buf\<close>.\<close>

definition go_slice :: "nat \<Rightarrow> nat \<Rightarrow> 'a list \<Rightarrow> 'a list" where
  "go_slice i j xs = take (j - i) (drop i xs)"

section \<open>Signed 64-bit arithmetic\<close>

text \<open>\<open>wrap64 x\<close> is \<open>x\<close> as an int64: what Go keeps of a result that does not fit.\<close>

definition wrap64 :: "int \<Rightarrow> int" where
  "wrap64 x = (x + 2 ^ 63) mod 2 ^ 64 - 2 ^ 63"

definition int64_ok :: "int \<Rightarrow> bool" where
  "int64_ok x \<longleftrightarrow> - (2 ^ 63) \<le> x \<and> x < 2 ^ 63"

section \<open>Decimal rendering\<close>

fun show_nat :: "nat \<Rightarrow> string" where
  "show_nat n = (if n < 10 then [char_of (48 + n)]
                 else show_nat (n div 10) @ [char_of (48 + n mod 10)])"

declare show_nat.simps [simp del]

definition show_int :: "int \<Rightarrow> string" where
  "show_int i = (if i < 0 then ''-'' @ show_nat (nat (- i)) else show_nat (nat i))"

section \<open>Lemmas\<close>

lemma length_be_bytes [simp, wire_len]: "length (be_bytes n x) = n"
  by (induction n arbitrary: x) auto

lemma be_val_snoc: "be_val (bs @ [b]) = be_val bs * 256 + unat b"
  by (induction bs) (auto simp: algebra_simps)

lemma unat_byte_less: "unat (b :: byte) < 256"
  using unsigned_less [of b] by simp

lemma unat_u16_less: "unat (v :: u16) < 65536"
  using unsigned_less [of v] by simp

lemma unat_u32_less: "unat (v :: u32) < 4294967296"
  using unsigned_less [of v] by simp

lemma unat_u64_less: "unat (v :: u64) < 18446744073709551616"
  using unsigned_less [of v] by simp

lemma unat_byte_of_nat: "unat (of_nat x :: byte) = x mod 256"
  by (simp add: unat_of_nat)

lemma be_val_be_bytes: "be_val (be_bytes n x) = x mod 256 ^ n"
proof (induction n arbitrary: x)
  case 0
  show ?case by simp
next
  case (Suc n)
  have "x mod (256 * 256 ^ n) = 256 * (x div 256 mod 256 ^ n) + x mod 256"
    by (rule mod_mult2_eq)
  then show ?case
    by (simp add: be_val_snoc unat_byte_of_nat Suc)
qed

lemma be_val_bound: "be_val bs < 256 ^ length bs"
proof (induction bs)
  case Nil
  show ?case by simp
next
  case (Cons b bs)
  have "unat b * 256 ^ length bs \<le> 255 * 256 ^ length bs"
    using unat_byte_less [of b] by (intro mult_right_mono) auto
  moreover have "be_val (b # bs) < unat b * 256 ^ length bs + 256 ^ length bs"
    using Cons by simp
  ultimately have "be_val (b # bs) < 255 * 256 ^ length bs + 256 ^ length bs"
    by (rule less_le_trans [OF _ add_right_mono, rotated])
  then show ?case by simp
qed

lemma be_bytes_be_val: "be_bytes (length bs) (be_val bs) = bs"
proof (induction bs rule: rev_induct)
  case Nil
  show ?case by simp
next
  case (snoc b bs)
  have "(of_nat (be_val bs * 256 + unat b) :: byte) = b"
    using unat_byte_less [of b] by (simp add: word_unat_eq_iff unat_of_nat flip: of_nat_mult of_nat_add)
  moreover have "(be_val bs * 256 + unat b) div 256 = be_val bs"
    using unat_byte_less [of b] by simp
  ultimately show ?case
    by (simp add: be_val_snoc snoc)
qed

lemma length_PutUint [simp, wire_len]:
  "length (PutUint16 v) = 2" "length (PutUint32 w) = 4" "length (PutUint64 x) = 8"
  by (simp_all add: PutUint16_def PutUint32_def PutUint64_def)

lemma Uint16_Put [simp, wire_rt]: "Uint16 (PutUint16 v) = v"
  using unat_u16_less [of v] by (simp add: Uint16_def PutUint16_def be_val_be_bytes)

lemma Uint32_Put [simp, wire_rt]: "Uint32 (PutUint32 v) = v"
  using unat_u32_less [of v] by (simp add: Uint32_def PutUint32_def be_val_be_bytes)

lemma Uint64_Put [simp, wire_rt]: "Uint64 (PutUint64 v) = v"
  using unat_u64_less [of v] by (simp add: Uint64_def PutUint64_def be_val_be_bytes)

lemma Put_Uint32: "length bs = 4 \<Longrightarrow> PutUint32 (Uint32 bs) = bs"
  using be_val_bound [of bs] be_bytes_be_val [of bs]
  by (simp add: Uint32_def PutUint32_def unat_of_nat)

lemma Put_Uint64: "length bs = 8 \<Longrightarrow> PutUint64 (Uint64 bs) = bs"
  using be_val_bound [of bs] be_bytes_be_val [of bs]
  by (simp add: Uint64_def PutUint64_def unat_of_nat)

text \<open>The same encodings over \<open>int\<close>, which the simplifier evaluates in binary.\<close>

fun be_bytes_int :: "nat \<Rightarrow> int \<Rightarrow> bytes" where
  "be_bytes_int 0 x = []"
| "be_bytes_int (Suc n) x = be_bytes_int n (x div 256) @ [word_of_int x]"

fun be_val_int :: "int \<Rightarrow> bytes \<Rightarrow> int" where
  "be_val_int acc [] = acc"
| "be_val_int acc (b # bs) = be_val_int (acc * 256 + uint b) bs"

lemma be_bytes_int: "be_bytes n x = be_bytes_int n (int x)"
  by (induction n arbitrary: x) (simp_all add: zdiv_int)

lemma be_val_int: "be_val_int acc bs = acc * 256 ^ length bs + int (be_val bs)"
  by (induction bs arbitrary: acc) (simp_all add: algebra_simps)

lemma PutUint_code [code]:
  "PutUint16 v = be_bytes_int 2 (uint v)" "PutUint32 w = be_bytes_int 4 (uint w)"
  "PutUint64 x = be_bytes_int 8 (uint x)"
  by (simp_all add: PutUint16_def PutUint32_def PutUint64_def be_bytes_int)

lemma Uint_code [code]:
  "Uint16 bs = word_of_int (be_val_int 0 bs)" "Uint32 bs = word_of_int (be_val_int 0 bs)"
  "Uint64 bs = word_of_int (be_val_int 0 bs)"
  by (simp_all add: Uint16_def Uint32_def Uint64_def be_val_int)

lemma length_go_slice [simp]: "j \<le> length xs \<Longrightarrow> length (go_slice i j xs) = j - i"
  by (simp add: go_slice_def)

lemma go_slice_append [simp]:
  "length xs = i \<Longrightarrow> go_slice (i + n) (i + m) (xs @ ys) = go_slice n m ys"
  by (simp add: go_slice_def)

lemma go_slice_append_left [simp]:
  "j \<le> length xs \<Longrightarrow> go_slice i j (xs @ ys) = go_slice i j xs"
  by (cases "i \<le> j") (simp_all add: go_slice_def)

lemma go_slice_all: "length xs = n \<Longrightarrow> go_slice 0 n xs = xs"
  by (simp add: go_slice_def)

lemma wrap64_id: "int64_ok x \<Longrightarrow> wrap64 x = x"
  by (simp add: wrap64_def int64_ok_def)

lemma int64_ok_wrap64: "int64_ok (wrap64 x)"
  by (simp add: wrap64_def int64_ok_def)

lemma sorted_wrt_less_snoc:
  "sorted_wrt (<) (map f (xs @ [x])) \<longleftrightarrow>
     sorted_wrt (<) (map f xs) \<and> (\<forall>y\<in>set xs. f y < (f x :: 'b :: linorder))"
  by (auto simp: sorted_wrt_append)

section \<open>Runs that come to an end\<close>

text \<open>A step relation on whose good states every step makes a number smaller: a run has at most as many steps as that
  number, and can be continued to a state without a step.\<close>

locale draining =
  fixes step :: "'s \<Rightarrow> 's \<Rightarrow> bool" and good :: "'s \<Rightarrow> bool" and work :: "'s \<Rightarrow> nat"
  assumes keeps: "good s \<Longrightarrow> step s t \<Longrightarrow> good t"
    and shrinks: "good s \<Longrightarrow> step s t \<Longrightarrow> work t < work s"
begin

lemma run: "(step ^^ n) s t \<Longrightarrow> good s \<Longrightarrow> good t \<and> n + work t \<le> work s"
proof (induction n arbitrary: t)
  case (Suc n)
  then obtain u where u: "(step ^^ n) s u" "step u t" by auto
  from Suc.IH [OF u(1) Suc.prems(2)] keeps [OF _ u(2)] shrinks [OF _ u(2)] show ?case by fastforce
qed simp

lemma ends: "good s \<Longrightarrow> \<exists>n t. (step ^^ n) s t \<and> (\<nexists>u. step t u)"
proof (induction "work s" arbitrary: s rule: less_induct)
  case less
  show ?case
  proof (cases "\<exists>u. step s u")
    case True
    then obtain u where u: "step s u" by blast
    from less.hyps [OF shrinks [OF less.prems u] keeps [OF less.prems u]] obtain n t
      where t: "(step ^^ n) u t" "\<nexists>v. step t v" by blast
    have "(step ^^ Suc n) s t" using u t(1) by (rule relpowp_Suc_I2)
    with t(2) show ?thesis by blast
  next
    case False
    then show ?thesis by (intro exI [of _ 0] exI [of _ s]) simp
  qed
qed

end

end
