(* ===== verification/Errors.thy ===== *)
theory Errors
  imports Prelude
begin

text \<open>
  The errors of \<^verbatim>\<open>src/error.go\<close> as one datatype, with their messages, and the errors of Go's
  standard library that the code tests for: \<^verbatim>\<open>io.EOF\<close>, \<^verbatim>\<open>io.ErrUnexpectedEOF\<close>,
  \<^verbatim>\<open>io.ErrShortWrite\<close>, a \<^verbatim>\<open>*net.OpError\<close> (its operation, its text, whether it is a timeout and
  whether it wraps a \<^verbatim>\<open>*net.AddrError\<close>), two errors joined by \<^verbatim>\<open>fmt.Errorf("%w: %w")\<close>, and any
  other error by its text. \<open>ErrPanic\<close> is a run-time panic, so that no branch of a model is
  left unspecified.
\<close>

datatype go_error =
    ErrCodec string
  | ErrFrameTooLarge int
  | ErrUnsupportedFrameVersion byte
  | ErrUnsupportedCodec byte
  | ErrNoCommonCodec
  | ErrTooManyCodecs int
  | ErrBadHandshakeMagic
  | ErrUnknownMessage string
  | ErrCompactFieldCount int int
  | ErrConnectTimeout
  | ErrResumeRejected string
  | ErrRecvTimeout
  | ErrTypeMismatch string string
  | ErrClosed
  | ErrRemote string string
  | ErrHandlerTaskBusy
  | ErrConcurrentRecv
  | ErrInvalidMessage string
  | ErrServerClosed
  | ErrUnsupportedTransport string
  | EOF
  | ErrUnexpectedEOF
  | ErrShortWrite
  | NetOpError string string bool bool
  | JoinedError go_error go_error
  | OtherError string
  | ErrPanic string

type_synonym 'a result = "(go_error, 'a) res"

text \<open>\<open>Error e\<close> is the message \<^verbatim>\<open>e.Error()\<close>.\<close>

fun Error :: "go_error \<Rightarrow> string" where
  "Error (ErrCodec m) = ''codec error: '' @ m"
| "Error (ErrFrameTooLarge n) = ''frame too large: '' @ show_int n"
| "Error (ErrUnsupportedFrameVersion v) = ''unsupported frame version: '' @ show_nat (unat v)"
| "Error (ErrUnsupportedCodec v) = ''unsupported codec: '' @ show_nat (unat v)"
| "Error ErrNoCommonCodec = ''no common codec''"
| "Error (ErrTooManyCodecs n) = ''too many codecs: '' @ show_int n"
| "Error ErrBadHandshakeMagic = ''invalid handshake magic''"
| "Error (ErrUnknownMessage n) = ''unknown message type: '' @ n"
| "Error (ErrCompactFieldCount e g) =
     ''compact field count mismatch: expected '' @ show_int e @ '', got '' @ show_int g"
| "Error ErrConnectTimeout = ''connect timeout''"
| "Error (ErrResumeRejected r) =
     (if r = '''' then ''resume rejected'' else ''resume rejected: '' @ r)"
| "Error ErrRecvTimeout = ''recv timeout''"
| "Error (ErrTypeMismatch e g) = ''message type mismatch: expected '' @ e @ '', got '' @ g"
| "Error ErrClosed = ''connection closed''"
| "Error (ErrRemote c m) = ''remote error: '' @ c @ '': '' @ m"
| "Error ErrHandlerTaskBusy = ''only one handler task allowed per stream''"
| "Error ErrConcurrentRecv = ''concurrent recv on stream''"
| "Error (ErrInvalidMessage r) = r"
| "Error ErrServerClosed = ''server closed''"
| "Error (ErrUnsupportedTransport r) = r"
| "Error EOF = ''EOF''"
| "Error ErrUnexpectedEOF = ''unexpected EOF''"
| "Error ErrShortWrite = ''short write''"
| "Error (NetOpError oper txt tmo addr) = oper @ '': '' @ txt"
| "Error (JoinedError a b) = Error a @ '': '' @ Error b"
| "Error (OtherError m) = m"
| "Error (ErrPanic m) = m"

text \<open>\<^verbatim>\<open>errors.As(err, &target)\<close>: some error of the tree is of the target type.\<close>

fun errors_As :: "(go_error \<Rightarrow> bool) \<Rightarrow> go_error \<Rightarrow> bool" where
  "errors_As P (JoinedError a b) \<longleftrightarrow> P (JoinedError a b) \<or> errors_As P a \<or> errors_As P b"
| "errors_As P e \<longleftrightarrow> P e"

fun is_ErrResumeRejected :: "go_error \<Rightarrow> bool" where
  "is_ErrResumeRejected (ErrResumeRejected r) \<longleftrightarrow> True"
| "is_ErrResumeRejected e \<longleftrightarrow> False"

fun is_ErrUnsupportedFrameVersion :: "go_error \<Rightarrow> bool" where
  "is_ErrUnsupportedFrameVersion (ErrUnsupportedFrameVersion v) \<longleftrightarrow> True"
| "is_ErrUnsupportedFrameVersion e \<longleftrightarrow> False"

fun_cases is_ErrResumeRejectedE: "is_ErrResumeRejected e"
fun_cases is_ErrUnsupportedFrameVersionE: "is_ErrUnsupportedFrameVersion e"

end
