(* ===== verification/IO_Model.thy ===== *)
theory IO_Model
  imports Errors
begin

text \<open>
  Byte transports. A \<open>net_conn\<close> holds the bytes the peer has sent and this side has not read,
  the error that a read returns after them, the bytes written so far, and how many more bytes a
  write takes before it fails. \<open>ReadFull\<close> is \<^verbatim>\<open>io.ReadFull\<close>; \<open>bw_Write\<close> and \<open>bw_Flush\<close> are
  \<^verbatim>\<open>bufio.Writer\<close> with its default buffer of 4096 bytes. \<open>writeFull\<close> is the loop of
  \<^verbatim>\<open>src/frame.go\<close>, over any writer.

  The locale \<open>io_writer\<close> is the contract of \<^verbatim>\<open>io.Writer\<close>: what a write reports is what it took,
  and a short write comes with an error. It is interpreted on the connection and on the buffered
  writer.
\<close>

record net_conn =
  nc_in :: bytes
  nc_in_err :: go_error
  nc_out :: bytes
  nc_room :: "nat option"
  nc_out_err :: go_error

definition ReadFull :: "nat \<Rightarrow> net_conn \<Rightarrow> bytes result \<times> net_conn" where
  "ReadFull n c =
     (if n \<le> length (nc_in c) then (Inr (take n (nc_in c)), c\<lparr>nc_in := drop n (nc_in c)\<rparr>)
      else (Inl (if nc_in c \<noteq> [] \<and> nc_in_err c = EOF then ErrUnexpectedEOF else nc_in_err c),
            c\<lparr>nc_in := []\<rparr>))"

definition conn_Write :: "net_conn \<Rightarrow> bytes \<Rightarrow> nat \<times> go_error option \<times> net_conn" where
  "conn_Write c p =
     (case nc_room c of
        None \<Rightarrow> (length p, None, c\<lparr>nc_out := nc_out c @ p\<rparr>)
      | Some k \<Rightarrow>
          if length p \<le> k
          then (length p, None, c\<lparr>nc_out := nc_out c @ p, nc_room := Some (k - length p)\<rparr>)
          else (k, Some (nc_out_err c), c\<lparr>nc_out := nc_out c @ take k p, nc_room := Some 0\<rparr>))"

text \<open>The loop of \<^verbatim>\<open>writeFull\<close>. \<^verbatim>\<open>buf[n:]\<close> panics when a writer reports more than it was given.\<close>

function writeFull ::
    "('w \<Rightarrow> bytes \<Rightarrow> nat \<times> go_error option \<times> 'w) \<Rightarrow> 'w \<Rightarrow> bytes \<Rightarrow> go_error option \<times> 'w" where
  "writeFull Write w buf =
     (if buf = [] then (None, w)
      else
        let (n, err, w') = Write w buf
        in if length buf < n then (Some (ErrPanic ''slice bounds out of range''), w')
           else if err \<noteq> None then (err, w')
           else if n = 0 then (Some ErrShortWrite, w')
           else writeFull Write w' (drop n buf))"
  by pat_completeness auto
termination
  by (relation "measure (\<lambda>(Write, w, buf). length buf)") auto

declare writeFull.simps [simp del]

definition bufio_size :: nat where
  "bufio_size = 4096"

record bufio_writer =
  bw_conn :: net_conn
  bw_buf :: bytes
  bw_err :: "go_error option"

definition newBufioWriter :: "net_conn \<Rightarrow> bufio_writer" where
  "newBufioWriter c = \<lparr>bw_conn = c, bw_buf = [], bw_err = None\<rparr>"

definition bw_Flush :: "bufio_writer \<Rightarrow> go_error option \<times> bufio_writer" where
  "bw_Flush b =
     (if bw_err b \<noteq> None then (bw_err b, b)
      else if bw_buf b = [] then (None, b)
      else
        let (n, err, c) = conn_Write (bw_conn b) (bw_buf b);
            err' = (if n < length (bw_buf b) \<and> err = None then Some ErrShortWrite else err)
        in if err' \<noteq> None
           then (err', b\<lparr>bw_conn := c, bw_buf := drop n (bw_buf b), bw_err := err'\<rparr>)
           else (None, b\<lparr>bw_conn := c, bw_buf := []\<rparr>))"

text \<open>The loop of \<^verbatim>\<open>bufio.Writer.Write\<close>: \<open>nn\<close> counts the bytes taken so far.\<close>

function bw_Write_loop :: "bufio_writer \<Rightarrow> bytes \<Rightarrow> nat \<Rightarrow> nat \<times> go_error option \<times> bufio_writer" where
  "bw_Write_loop b p nn =
     (if bufio_size - length (bw_buf b) < length p \<and> bw_err b = None then
        if bw_buf b = [] then
          let (n, err, c) = conn_Write (bw_conn b) p
          in bw_Write_loop (b\<lparr>bw_conn := c, bw_err := err\<rparr>) (drop n p) (nn + n)
        else
          let n = bufio_size - length (bw_buf b)
          in bw_Write_loop (snd (bw_Flush (b\<lparr>bw_buf := bw_buf b @ take n p\<rparr>))) (drop n p) (nn + n)
      else if bw_err b \<noteq> None then (nn, bw_err b, b)
      else (nn + length p, None, b\<lparr>bw_buf := bw_buf b @ p\<rparr>))"
  by pat_completeness auto
termination
  by (relation "measures [\<lambda>(b, p, nn). if bw_err b = None then 1 else 0,
                          \<lambda>(b, p, nn). length p, \<lambda>(b, p, nn). length (bw_buf b)]")
     (auto simp: conn_Write_def bw_Flush_def Let_def bufio_size_def
           split: option.splits if_splits prod.splits)

declare bw_Write_loop.simps [simp del]

definition bw_Write :: "bufio_writer \<Rightarrow> bytes \<Rightarrow> nat \<times> go_error option \<times> bufio_writer" where
  "bw_Write b p = bw_Write_loop b p 0"

text \<open>An open connection with nothing on it, for examples.\<close>

definition sampleConn :: net_conn where
  "sampleConn = \<lparr>nc_in = [], nc_in_err = EOF, nc_out = [], nc_room = None, nc_out_err = OtherError ''''\<rparr>"

section \<open>The writer contract\<close>

locale io_writer =
  fixes Write :: "'w \<Rightarrow> bytes \<Rightarrow> nat \<times> go_error option \<times> 'w"
    and taken :: "'w \<Rightarrow> bytes"
  assumes Write_le: "Write w p = (n, e, w') \<Longrightarrow> n \<le> length p"
    and Write_taken: "Write w p = (n, e, w') \<Longrightarrow> taken w' = taken w @ take n p"
    and Write_full: "Write w p = (n, None, w') \<Longrightarrow> n = length p"
begin

lemma writeFull_once:
  assumes "buf \<noteq> []" and W: "Write w buf = (n, e, w')"
  shows "writeFull Write w buf = (e, w')"
proof (cases e)
  case None
  with W have "n = length buf" by (simp add: Write_full)
  with assms None show ?thesis
    by (subst writeFull.simps) (simp add: writeFull.simps)
next
  case (Some err)
  with assms Write_le [OF W] show ?thesis
    by (subst writeFull.simps) simp
qed

lemma writeFull_ok:
  "writeFull Write w buf = (None, w') \<Longrightarrow> taken w' = taken w @ buf"
proof (cases "buf = []")
  case True
  then show "writeFull Write w buf = (None, w') \<Longrightarrow> ?thesis"
    by (simp add: writeFull.simps [of Write w "[]"])
next
  case False
  obtain n err w'' where W: "Write w buf = (n, err, w'')" by (cases "Write w buf")
  assume "writeFull Write w buf = (None, w')"
  with writeFull_once [OF False W] have "Write w buf = (n, None, w')" by (simp add: W)
  then show ?thesis using Write_taken Write_full by fastforce
qed

lemma writeFull_prefix:
  "writeFull Write w buf = (e, w') \<Longrightarrow> \<exists>k \<le> length buf. taken w' = taken w @ take k buf"
proof (cases "buf = []")
  case True
  then show "writeFull Write w buf = (e, w') \<Longrightarrow> ?thesis"
    by (simp add: writeFull.simps [of Write w "[]"])
next
  case False
  obtain n err w'' where W: "Write w buf = (n, err, w'')" by (cases "Write w buf")
  assume "writeFull Write w buf = (e, w')"
  with writeFull_once [OF False W] have "w' = w''" by simp
  with Write_le [OF W] Write_taken [OF W] show ?thesis by auto
qed

lemma writeFull_two:
  assumes "writeFull Write w xs = (None, w1)" and "writeFull Write w1 ys = (None, w2)"
  shows "taken w2 = taken w @ xs @ ys"
  using assms by (simp add: writeFull_ok)

end

interpretation connw: io_writer conn_Write nc_out
  by unfold_locales (auto simp: conn_Write_def split: option.splits if_splits)

definition bw_taken :: "bufio_writer \<Rightarrow> bytes" where
  "bw_taken b = nc_out (bw_conn b) @ bw_buf b"

lemma bw_Flush_taken: "bw_taken (snd (bw_Flush b)) = bw_taken b"
  by (auto simp: bw_Flush_def bw_taken_def conn_Write_def Let_def
           split: option.splits if_splits prod.splits)

lemma bw_Flush_ok: "bw_Flush b = (None, b') \<Longrightarrow> nc_out (bw_conn b') = bw_taken b"
  by (auto simp: bw_Flush_def bw_taken_def conn_Write_def Let_def
           split: option.splits if_splits prod.splits)

lemma bw_Write_loop_spec:
  "bw_Write_loop b p nn = (n, e, b') \<Longrightarrow>
     nn \<le> n \<and> n - nn \<le> length p \<and> bw_taken b' = bw_taken b @ take (n - nn) p \<and>
     (e = None \<longrightarrow> n - nn = length p)"
proof (induction b p nn rule: bw_Write_loop.induct)
  case (1 b p nn)
  let ?more = "bufio_size - length (bw_buf b) < length p \<and> bw_err b = None"
  show ?case
  proof (cases ?more)
    case False
    with "1.prems" show ?thesis
      by (subst (asm) bw_Write_loop.simps) (auto simp: bw_taken_def split: if_splits)
  next
    case more: True
    show ?thesis
    proof (cases "bw_buf b = []")
      case True
      obtain k err c where W: "conn_Write (bw_conn b) p = (k, err, c)"
        by (cases "conn_Write (bw_conn b) p")
      let ?b = "b\<lparr>bw_conn := c, bw_err := err\<rparr>"
      have rec: "bw_Write_loop ?b (drop k p) (nn + k) = (n, e, b')"
        using "1.prems" more True W by (subst (asm) bw_Write_loop.simps) simp
      note IH = "1.IH"(1) [OF more True refl W [symmetric] refl rec]
      have "bw_taken ?b = bw_taken b @ take k p"
        using True connw.Write_taken [OF W] by (simp add: bw_taken_def)
      with IH connw.Write_le [OF W] show ?thesis
        by (auto simp flip: take_add)
    next
      case False
      let ?n = "bufio_size - length (bw_buf b)"
      let ?b = "snd (bw_Flush (b\<lparr>bw_buf := bw_buf b @ take ?n p\<rparr>))"
      have rec: "bw_Write_loop ?b (drop ?n p) (nn + ?n) = (n, e, b')"
        using "1.prems" more False by (subst (asm) bw_Write_loop.simps) (simp add: Let_def)
      note IH = "1.IH"(2) [OF more False refl rec]
      have "bw_taken ?b = bw_taken b @ take ?n p"
        by (simp add: bw_Flush_taken) (simp add: bw_taken_def)
      with IH more show ?thesis
        by (auto simp flip: take_add)
    qed
  qed
qed

interpretation bufw: io_writer bw_Write bw_taken
  by unfold_locales (auto simp: bw_Write_def dest: bw_Write_loop_spec)

lemma ReadFull_append:
  "length xs = n \<Longrightarrow> nc_in c = xs @ ys \<Longrightarrow> ReadFull n c = (Inr xs, c\<lparr>nc_in := ys\<rparr>)"
  by (simp add: ReadFull_def)

lemma ReadFull_ok:
  "ReadFull n c = (Inr bs, c') \<Longrightarrow>
     length bs = n \<and> nc_in c = bs @ nc_in c' \<and> c' = c\<lparr>nc_in := nc_in c'\<rparr>"
  by (auto simp: ReadFull_def split: if_splits)

text \<open>A read fails with \<open>EOF\<close> only at the start of what it wants to read.\<close>

lemma ReadFull_EOF:
  "ReadFull n c = (Inl EOF, c') \<Longrightarrow> nc_in c = []"
  by (auto simp: ReadFull_def split: if_splits)

lemma ReadFull_short:
  "length (nc_in c) < n \<Longrightarrow> \<exists>e c'. ReadFull n c = (Inl e, c')"
  by (simp add: ReadFull_def)

end
