(* ===== verification/Wire_Format.thy ===== *)
theory Wire_Format
  imports IO_Model
begin

text \<open>
  The contract of a fixed-length message on the wire: \<open>enc\<close> writes it, \<open>dec\<close> reads it back,
  and every valid value takes \<open>len\<close> bytes. The interpretations are the frame header, the
  attach request, the attach response and the ACK payload.
\<close>

text \<open>Read \<open>n\<close> bytes and decode them, as the read functions of the protocol do.\<close>

definition readWith :: "nat \<Rightarrow> (bytes \<Rightarrow> 'a result) \<Rightarrow> net_conn \<Rightarrow> 'a result \<times> net_conn" where
  "readWith n dec c =
     (case ReadFull n c of (Inl e, c') \<Rightarrow> (Inl e, c') | (Inr bs, c') \<Rightarrow> (dec bs, c'))"

locale wire_format =
  fixes enc :: "'a \<Rightarrow> bytes"
    and dec :: "bytes \<Rightarrow> 'a result"
    and len :: nat
    and valid :: "'a \<Rightarrow> bool"
  assumes enc_len: "valid a \<Longrightarrow> length (enc a) = len"
    and dec_enc: "valid a \<Longrightarrow> dec (enc a) = Inr a"
begin

lemma enc_inj: "valid a \<Longrightarrow> valid b \<Longrightarrow> enc a = enc b \<Longrightarrow> a = b"
  using dec_enc by (metis sum.inject(2))

text \<open>A valid message at the front of the input is read back whole, and nothing else is
  consumed.\<close>

lemma readWith_enc:
  assumes "valid a" and "nc_in c = enc a @ rest"
  shows "readWith len dec c = (Inr a, c\<lparr>nc_in := rest\<rparr>)"
  using assms ReadFull_append [OF enc_len [OF assms(1)] assms(2)]
  by (simp add: readWith_def dec_enc)

text \<open>Encodings are prefix free: two streams of bytes that start with encodings agree on the
  first message.\<close>

lemma enc_prefix_free:
  assumes "valid a" "valid b" and "enc a @ xs = enc b @ ys"
  shows "a = b \<and> xs = ys"
  using assms enc_inj by (auto simp: enc_len append_eq_append_conv)

text \<open>A short read is an error and decodes nothing.\<close>

lemma readWith_short:
  assumes "length (nc_in c) < len"
  shows "\<exists>e c'. readWith len dec c = (Inl e, c')"
  using ReadFull_short [OF assms] by (auto simp: readWith_def)

end

end
