(* ===== verification/Debug.thy ===== *)
theory Debug
  imports Errors
begin

text \<open>
  \<^verbatim>\<open>src/debug.go\<close>: the counters of a connection and of a stream and the last-failure record.
  The counters are \<^verbatim>\<open>atomic.Uint64\<close>, so an addition wraps around at 64 bits. The time of a
  failure is passed in as \<open>now\<close>, in nanoseconds.
\<close>

datatype DebugFailureCode =
    DebugFailureNone
  | DebugFailureStreamRecvTimeout
  | DebugFailureStreamEncode
  | DebugFailureStreamEnqueue
  | DebugFailureStreamProtocol
  | DebugFailureStreamProtocolReplySend
  | DebugFailureStreamDecode
  | DebugFailureHandler
  | DebugFailureWriterLoop
  | DebugFailureReaderLoop
  | DebugFailureReaderEnqueue
  | DebugFailureStreamIDsExhausted
  | DebugFailureReconnectResume
  | DebugFailureReconnectTerminal
  | DebugFailureRecoveryAckWrite
  | DebugFailureRecoveryResumeWrite
  | DebugFailureRecoveryLiveWrite
  | DebugFailureRecoveryPingWrite
  | DebugFailureRecoveryRead
  | DebugFailureRecoveryControl
  | DebugFailureRecoveryData

record failureRecord =
  fr_code :: DebugFailureCode
  fr_reason :: string
  fr_at :: int

type_synonym failureTracker = "failureRecord option"

text \<open>A failure with neither code nor reason is not noted; one without a code keeps the code of
  the failure before it.\<close>

definition noteFailure ::
    "int \<Rightarrow> DebugFailureCode \<Rightarrow> string \<Rightarrow> failureTracker \<Rightarrow> failureTracker" where
  "noteFailure now code reason f =
     (if code = DebugFailureNone \<and> reason = '''' then f
      else
        let code' = (if code = DebugFailureNone
                     then (case f of None \<Rightarrow> code | Some prev \<Rightarrow> fr_code prev)
                     else code)
        in Some \<lparr>fr_code = code', fr_reason = reason, fr_at = now\<rparr>)"

definition lastFailure :: "failureTracker \<Rightarrow> failureRecord" where
  "lastFailure f =
     (case f of None \<Rightarrow> \<lparr>fr_code = DebugFailureNone, fr_reason = '''', fr_at = 0\<rparr>
              | Some r \<Rightarrow> r)"

record connectionDebugCounters =
  framesWritten :: u64
  bytesWritten :: u64
  controlFramesWritten :: u64
  framesRead :: u64
  bytesRead :: u64
  controlFramesRead :: u64
  streamsOpened :: u64
  streamsClosed :: u64
  dataMessagesSent :: u64
  dataMessagesReceived :: u64
  protocolErrors :: u64
  protocolErrorReplySendFailure :: u64
  remoteErrors :: u64
  decodeErrors :: u64
  handlerCalls :: u64
  handlerErrors :: u64
  reconnectAttempts :: u64
  reconnectSuccesses :: u64
  reconnectFailures :: u64
  transportAttaches :: u64
  transportDetaches :: u64
  cd_failure :: failureTracker

record streamDebugCounters =
  s_dataMessagesSent :: u64
  s_dataMessagesReceived :: u64
  s_protocolErrors :: u64
  s_protocolErrorReplySendFailure :: u64
  s_remoteErrors :: u64
  s_decodeErrors :: u64
  s_handlerCalls :: u64
  s_handlerErrors :: u64
  sd_failure :: failureTracker

text \<open>The zero values, as a new connection or stream starts with them.\<close>

definition zeroConnectionCounters :: connectionDebugCounters where
  "zeroConnectionCounters = \<lparr>framesWritten = 0, bytesWritten = 0, controlFramesWritten = 0,
     framesRead = 0, bytesRead = 0, controlFramesRead = 0, streamsOpened = 0, streamsClosed = 0,
     dataMessagesSent = 0, dataMessagesReceived = 0, protocolErrors = 0,
     protocolErrorReplySendFailure = 0, remoteErrors = 0, decodeErrors = 0, handlerCalls = 0,
     handlerErrors = 0, reconnectAttempts = 0, reconnectSuccesses = 0, reconnectFailures = 0,
     transportAttaches = 0, transportDetaches = 0, cd_failure = None\<rparr>"

definition zeroStreamCounters :: streamDebugCounters where
  "zeroStreamCounters = \<lparr>s_dataMessagesSent = 0, s_dataMessagesReceived = 0, s_protocolErrors = 0,
     s_protocolErrorReplySendFailure = 0, s_remoteErrors = 0, s_decodeErrors = 0,
     s_handlerCalls = 0, s_handlerErrors = 0, sd_failure = None\<rparr>"

definition connNoteFailure ::
    "int \<Rightarrow> DebugFailureCode \<Rightarrow> string \<Rightarrow> connectionDebugCounters \<Rightarrow> connectionDebugCounters" where
  "connNoteFailure now code reason d = d\<lparr>cd_failure := noteFailure now code reason (cd_failure d)\<rparr>"

definition streamNoteFailure ::
    "int \<Rightarrow> DebugFailureCode \<Rightarrow> string \<Rightarrow> streamDebugCounters \<Rightarrow> streamDebugCounters" where
  "streamNoteFailure now code reason d = d\<lparr>sd_failure := noteFailure now code reason (sd_failure d)\<rparr>"

lemma noteFailure_code:
  assumes "code \<noteq> DebugFailureNone"
  shows "fr_code (lastFailure (noteFailure now code reason f)) = code"
    and "fr_reason (lastFailure (noteFailure now code reason f)) = reason"
    and "fr_at (lastFailure (noteFailure now code reason f)) = now"
  using assms by (simp_all add: noteFailure_def lastFailure_def Let_def)

text \<open>Once a failure with a code is noted, the tracker never falls back to "no failure".\<close>

lemma noteFailure_sticky:
  assumes "fr_code (lastFailure f) \<noteq> DebugFailureNone"
  shows "fr_code (lastFailure (noteFailure now code reason f)) \<noteq> DebugFailureNone"
  using assms by (auto simp: noteFailure_def lastFailure_def Let_def split: option.splits)

end
