(* ===== verification/Codec_Registry.thy ===== *)
theory Codec_Registry
  imports Errors
begin

text \<open>
  \<^verbatim>\<open>src/codec_registry.go\<close> and \<^verbatim>\<open>CodecID.String\<close> of \<^verbatim>\<open>src/codec.go\<close>. A codec is a value of any
  type \<open>'c\<close>; the interface methods \<^verbatim>\<open>ID\<close> and \<^verbatim>\<open>Name\<close> that the registry calls are arguments.
  The global registry is a map passed in and out.
\<close>

type_synonym CodecID = byte
type_synonym 'c codecRegistry = "CodecID \<rightharpoonup> 'c"

definition RegisterCodec ::
    "('c \<Rightarrow> CodecID) \<Rightarrow> ('c \<Rightarrow> string) \<Rightarrow> 'c option \<Rightarrow> 'c codecRegistry \<Rightarrow>
     go_error option \<times> 'c codecRegistry" where
  "RegisterCodec ID Name codec reg =
     (case codec of
        None \<Rightarrow> (Some (ErrInvalidMessage ''codec must be non-nil''), reg)
      | Some c \<Rightarrow>
          if ID c = 0 then (Some (ErrInvalidMessage ''codec ID must be non-zero''), reg)
          else if Name c = '''' then (Some (ErrInvalidMessage ''codec name must be non-empty''), reg)
          else if reg (ID c) \<noteq> None then (Some (ErrInvalidMessage ''codec already registered''), reg)
          else (None, reg(ID c \<mapsto> c)))"

definition MustRegisterCodec ::
    "('c \<Rightarrow> CodecID) \<Rightarrow> ('c \<Rightarrow> string) \<Rightarrow> 'c option \<Rightarrow> 'c codecRegistry \<Rightarrow>
     unit result \<times> 'c codecRegistry" where
  "MustRegisterCodec ID Name codec reg =
     (case RegisterCodec ID Name codec reg of
        (Some e, reg') \<Rightarrow> (Inl (ErrPanic (Error e)), reg')
      | (None, reg') \<Rightarrow> (Inr (), reg'))"

definition codecByID :: "'c codecRegistry \<Rightarrow> CodecID \<Rightarrow> 'c option" where
  "codecByID reg i = reg i"

definition CodecID_String :: "('c \<Rightarrow> string) \<Rightarrow> 'c codecRegistry \<Rightarrow> CodecID \<Rightarrow> string" where
  "CodecID_String Name reg i =
     (case codecByID reg i of
        Some c \<Rightarrow> if Name c \<noteq> '''' then Name c else ''unknown''
      | None \<Rightarrow> ''unknown'')"

text \<open>A sequence of registrations, as the \<^verbatim>\<open>init\<close> functions and user code make them.\<close>

fun RegisterCodecs ::
    "('c \<Rightarrow> CodecID) \<Rightarrow> ('c \<Rightarrow> string) \<Rightarrow> 'c option list \<Rightarrow> 'c codecRegistry \<Rightarrow> 'c codecRegistry" where
  "RegisterCodecs ID Name [] reg = reg"
| "RegisterCodecs ID Name (c # cs) reg =
     RegisterCodecs ID Name cs (snd (RegisterCodec ID Name c reg))"

section \<open>The registry invariant\<close>

text \<open>Every codec is stored under its own, non-zero ID and has a name.\<close>

definition codecs_ok :: "('c \<Rightarrow> CodecID) \<Rightarrow> ('c \<Rightarrow> string) \<Rightarrow> 'c codecRegistry \<Rightarrow> bool" where
  "codecs_ok ID Name reg \<longleftrightarrow> (\<forall>i c. reg i = Some c \<longrightarrow> ID c = i \<and> i \<noteq> 0 \<and> Name c \<noteq> '''')"

lemma codecs_ok_empty: "codecs_ok ID Name Map.empty"
  by (simp add: codecs_ok_def)

lemma RegisterCodec_ok:
  "codecs_ok ID Name reg \<Longrightarrow> codecs_ok ID Name (snd (RegisterCodec ID Name c reg))"
  by (auto simp: codecs_ok_def RegisterCodec_def split: option.splits)

lemma RegisterCodec_keeps:
  "reg i = Some c \<Longrightarrow> snd (RegisterCodec ID Name c' reg) i = Some c"
  by (auto simp: RegisterCodec_def split: option.splits)

lemma RegisterCodecs_ok:
  "codecs_ok ID Name reg \<Longrightarrow> codecs_ok ID Name (RegisterCodecs ID Name cs reg)"
  by (induction cs arbitrary: reg) (simp_all add: RegisterCodec_ok)

lemma RegisterCodecs_keeps:
  "reg i = Some c \<Longrightarrow> RegisterCodecs ID Name cs reg i = Some c"
  by (induction cs arbitrary: reg) (simp_all add: RegisterCodec_keeps)

end
