(* ===== verification/Frame.thy ===== *)
theory Frame
  imports Wire_Format Debug Codec_Registry
begin

text \<open>
  \<^verbatim>\<open>src/frame.go\<close>: the frame header of protocol versions 2 and 3, writing and reading frames, and
  the negotiated configuration (\<^verbatim>\<open>connConfig\<close> of \<^verbatim>\<open>src/connection.go\<close>) they depend on. The methods
  of \<^verbatim>\<open>Connection\<close> take the configuration and the debug counters, which is all they use of it.
\<close>

unbundle bit_operations_syntax

definition protocolVersionV2 :: byte where
  "protocolVersionV2 = 2"

definition protocolVersionV3 :: byte where
  "protocolVersionV3 = 3"

definition frameHeaderLen :: nat where
  "frameHeaderLen = 10"

definition frameHeaderLenV3 :: nat where
  "frameHeaderLenV3 = 18"

definition controlStreamID :: u32 where
  "controlStreamID = NOT 0"

definition defaultStreamID :: u32 where
  "defaultStreamID = 0"

type_synonym FrameFlags = byte

definition FrameFlagFIN :: FrameFlags where
  "FrameFlagFIN = push_bit 0 1"

definition FrameFlagMeta :: FrameFlags where
  "FrameFlagMeta = push_bit 1 1"

definition FrameFlagExt :: FrameFlags where
  "FrameFlagExt = push_bit 7 1"

definition supportedFrameFlags :: FrameFlags where
  "supportedFrameFlags = FrameFlagFIN"

record 'c connConfig =
  cfg_version :: byte
  cfg_codecID :: CodecID
  cfg_codec :: "'c option"
  cfg_maxFrame :: u32
  cfg_headerLen :: nat

definition frameHeaderLenForVersion :: "byte \<Rightarrow> nat result" where
  "frameHeaderLenForVersion version =
     (if version = protocolVersionV2 then Inr frameHeaderLen
      else if version = protocolVersionV3 then Inr frameHeaderLenV3
      else Inl (ErrUnsupportedFrameVersion version))"

definition headerLen :: "'c connConfig \<Rightarrow> nat result" where
  "headerLen cfg =
     (if cfg_headerLen cfg > 0 then Inr (cfg_headerLen cfg)
      else frameHeaderLenForVersion (cfg_version cfg))"

text \<open>The header is built in an array of 18 bytes, of which a version 2 frame sends the first 10.\<close>

definition buildHeader ::
    "'c connConfig \<Rightarrow> u32 \<Rightarrow> u64 \<Rightarrow> FrameFlags \<Rightarrow> int \<Rightarrow> (bytes \<times> nat) result" where
  "buildHeader cfg streamID seq flags payloadLen =
     (if payloadLen < 0 \<or> payloadLen > uint (NOT 0 :: u32) then Inl (ErrFrameTooLarge payloadLen)
      else if (word_of_int payloadLen :: u32) > cfg_maxFrame cfg then Inl (ErrFrameTooLarge payloadLen)
      else case headerLen cfg of
        Inl e \<Rightarrow> Inl e
      | Inr n \<Rightarrow>
          Inr ([cfg_version cfg, flags] @ PutUint32 streamID @ PutUint32 (word_of_int payloadLen) @
               (if cfg_version cfg = protocolVersionV3 then PutUint64 seq else replicate 8 0), n))"

text \<open>\<open>header\<close> is the backing array: the slice passed in Go has the 18-byte array behind it.\<close>

definition parseHeader ::
    "'c connConfig \<Rightarrow> bytes \<Rightarrow> (u32 \<times> u64 \<times> FrameFlags \<times> int) result" where
  "parseHeader cfg header =
     (let version = header ! 0; flags = header ! 1
      in if version \<noteq> cfg_version cfg then Inl (ErrUnsupportedFrameVersion version)
         else if flags AND NOT supportedFrameFlags \<noteq> 0
           then Inl (ErrInvalidMessage ''unsupported frame flags'')
         else
           let streamID = Uint32 (go_slice 2 6 header);
               payloadLen = Uint32 (go_slice 6 10 header);
               seq = (if version = protocolVersionV3 then Uint64 (go_slice 10 18 header) else 0)
           in Inr (streamID, seq, flags, uint payloadLen))"

text \<open>\<^verbatim>\<open>header[:headerLen]\<close> panics for a length above that of the array.\<close>

definition headerSlice :: "nat \<Rightarrow> bytes \<Rightarrow> bytes result" where
  "headerSlice n header =
     (if n \<le> frameHeaderLenV3 then Inr (take n header)
      else Inl (ErrPanic ''slice bounds out of range''))"

definition countWritten ::
    "u32 \<Rightarrow> nat \<Rightarrow> connectionDebugCounters \<Rightarrow> connectionDebugCounters" where
  "countWritten streamID n d =
     (let d' = d\<lparr>framesWritten := framesWritten d + 1, bytesWritten := bytesWritten d + of_nat n\<rparr>
      in if streamID = controlStreamID
         then d'\<lparr>controlFramesWritten := controlFramesWritten d' + 1\<rparr> else d')"

definition countRead :: "u32 \<Rightarrow> nat \<Rightarrow> connectionDebugCounters \<Rightarrow> connectionDebugCounters" where
  "countRead streamID n d =
     (let d' = d\<lparr>framesRead := framesRead d + 1, bytesRead := bytesRead d + of_nat n\<rparr>
      in if streamID = controlStreamID
         then d'\<lparr>controlFramesRead := controlFramesRead d' + 1\<rparr> else d')"

definition writeFrameNoFlush ::
    "('w \<Rightarrow> bytes \<Rightarrow> nat \<times> go_error option \<times> 'w) \<Rightarrow> 'c connConfig \<Rightarrow> connectionDebugCounters \<Rightarrow> 'w \<Rightarrow>
     u32 \<Rightarrow> u64 \<Rightarrow> FrameFlags \<Rightarrow> bytes \<Rightarrow> go_error option \<times> connectionDebugCounters \<times> 'w" where
  "writeFrameNoFlush Write cfg d w streamID seq flags payload =
     (case buildHeader cfg streamID seq flags (int (length payload)) of
        Inl e \<Rightarrow> (Some e, d, w)
      | Inr (header, n) \<Rightarrow>
          case headerSlice n header of
            Inl e \<Rightarrow> (Some e, d, w)
          | Inr hdr \<Rightarrow>
              case writeFull Write w hdr of
                (Some e, w1) \<Rightarrow> (Some e, d, w1)
              | (None, w1) \<Rightarrow>
                  case writeFull Write w1 payload of
                    (Some e, w2) \<Rightarrow> (Some e, d, w2)
                  | (None, w2) \<Rightarrow> (None, countWritten streamID (n + length payload) d, w2))"

text \<open>\<open>Flush\<close> is the flush of the writer when it is a \<^verbatim>\<open>*bufio.Writer\<close>, and absent otherwise.\<close>

definition writeFrameTo ::
    "('w \<Rightarrow> bytes \<Rightarrow> nat \<times> go_error option \<times> 'w) \<Rightarrow> ('w \<Rightarrow> go_error option \<times> 'w) option \<Rightarrow>
     'c connConfig \<Rightarrow> connectionDebugCounters \<Rightarrow> 'w \<Rightarrow>
     u32 \<Rightarrow> u64 \<Rightarrow> FrameFlags \<Rightarrow> bytes \<Rightarrow> go_error option \<times> connectionDebugCounters \<times> 'w" where
  "writeFrameTo Write Flush cfg d w streamID seq flags payload =
     (case writeFrameNoFlush Write cfg d w streamID seq flags payload of
        (Some e, d', w') \<Rightarrow> (Some e, d', w')
      | (None, d', w') \<Rightarrow>
          case Flush of
            None \<Rightarrow> (None, d', w')
          | Some flush \<Rightarrow> (case flush w' of (e, w'') \<Rightarrow> (e, d', w'')))"

fun isMalformedFrameError :: "go_error \<Rightarrow> bool" where
  "isMalformedFrameError (ErrInvalidMessage r) = True"
| "isMalformedFrameError (ErrUnsupportedFrameVersion v) = True"
| "isMalformedFrameError (ErrFrameTooLarge n) = True"
| "isMalformedFrameError e = False"

definition readFrameFrom ::
    "'c connConfig \<Rightarrow> connectionDebugCounters \<Rightarrow> net_conn \<Rightarrow>
     (u32 \<times> u64 \<times> FrameFlags \<times> bytes) result \<times> connectionDebugCounters \<times> net_conn" where
  "readFrameFrom cfg d c =
     (case headerLen cfg of
        Inl e \<Rightarrow> (Inl e, d, c)
      | Inr n \<Rightarrow>
          if frameHeaderLenV3 < n then (Inl (ErrPanic ''slice bounds out of range''), d, c)
          else case ReadFull n c of
            (Inl e, c1) \<Rightarrow> (Inl e, d, c1)
          | (Inr hdr, c1) \<Rightarrow>
              case parseHeader cfg (hdr @ replicate (frameHeaderLenV3 - n) 0) of
                Inl e \<Rightarrow> (Inl e, d, c1)
              | Inr (streamID, seq, flags, payloadLen) \<Rightarrow>
                  if (word_of_int payloadLen :: u32) > cfg_maxFrame cfg
                  then (Inl (ErrFrameTooLarge payloadLen), d, c1)
                  else case ReadFull (nat payloadLen) c1 of
                    (Inl e, c2) \<Rightarrow> (Inl e, d, c2)
                  | (Inr payload, c2) \<Rightarrow>
                      (Inr (streamID, seq, flags, payload),
                       countRead streamID (n + length payload) d, c2))"

section \<open>Well-formed configurations and the frame layout\<close>

text \<open>A configuration that the handshake makes: a supported version with its header length.\<close>

definition cfg_wf :: "'c connConfig \<Rightarrow> bool" where
  "cfg_wf cfg \<longleftrightarrow> frameHeaderLenForVersion (cfg_version cfg) = Inr (cfg_headerLen cfg)"

text \<open>The bytes of a frame as DEVELOP.md lays them out.\<close>

definition header_layout :: "byte \<Rightarrow> u32 \<times> u64 \<times> FrameFlags \<times> int \<Rightarrow> bytes" where
  "header_layout v h =
     (case h of (streamID, seq, flags, n) \<Rightarrow>
        [v, flags] @ PutUint32 streamID @ PutUint32 (word_of_int n) @
        (if v = protocolVersionV3 then PutUint64 seq else []))"

definition frame_layout :: "byte \<Rightarrow> u32 \<times> u64 \<times> FrameFlags \<times> bytes \<Rightarrow> bytes" where
  "frame_layout v f =
     (case f of (streamID, seq, flags, payload) \<Rightarrow>
        header_layout v (streamID, seq, flags, int (length payload)) @ payload)"

definition flags_ok :: "FrameFlags \<Rightarrow> bool" where
  "flags_ok flags \<longleftrightarrow> flags AND NOT supportedFrameFlags = 0"

definition header_ok :: "'c connConfig \<Rightarrow> u32 \<times> u64 \<times> FrameFlags \<times> int \<Rightarrow> bool" where
  "header_ok cfg h \<longleftrightarrow>
     (case h of (streamID, seq, flags, n) \<Rightarrow>
        cfg_wf cfg \<and> flags_ok flags \<and> 0 \<le> n \<and> n \<le> uint (cfg_maxFrame cfg) \<and>
        (cfg_version cfg \<noteq> protocolVersionV3 \<longrightarrow> seq = 0))"

definition frame_ok :: "'c connConfig \<Rightarrow> u32 \<times> u64 \<times> FrameFlags \<times> bytes \<Rightarrow> bool" where
  "frame_ok cfg f \<longleftrightarrow>
     (case f of (streamID, seq, flags, payload) \<Rightarrow>
        header_ok cfg (streamID, seq, flags, int (length payload)))"

lemma cfg_wf_cases:
  assumes "cfg_wf cfg"
  obtains "cfg_version cfg = protocolVersionV2" "cfg_headerLen cfg = 10"
  | "cfg_version cfg = protocolVersionV3" "cfg_headerLen cfg = 18"
  using assms
  by (auto simp: cfg_wf_def frameHeaderLenForVersion_def frameHeaderLen_def frameHeaderLenV3_def
           split: if_splits)

lemma V2_neq_V3 [simp]: "protocolVersionV2 \<noteq> protocolVersionV3" "protocolVersionV3 \<noteq> protocolVersionV2"
  by (simp_all add: protocolVersionV2_def protocolVersionV3_def)

lemma headerLen_wf: "cfg_wf cfg \<Longrightarrow> headerLen cfg = Inr (cfg_headerLen cfg)"
  by (auto simp: headerLen_def elim: cfg_wf_cases)

lemma uint_max_u32 [simp]: "uint (- 1 :: u32) = 4294967295"
  by (simp add: unsigned_minus_1_eq_mask mask_numeral)

lemma uint_u32_less: "uint (v :: u32) < 4294967296"
  using uint_bounded [of v] by simp

lemma word_of_int_u32_le:
  assumes "0 \<le> n" "n \<le> 4294967295"
  shows "(word_of_int n :: u32) \<le> m \<longleftrightarrow> n \<le> uint m"
  using assms by (simp add: word_le_def uint_word_of_int)

lemma length_header_layout [wire_len]:
  assumes "cfg_wf cfg"
  shows "length (header_layout (cfg_version cfg) h) = cfg_headerLen cfg"
  using assms by (cases h) (auto simp: header_layout_def elim: cfg_wf_cases)

lemma buildHeader_layout:
  assumes "header_ok cfg (streamID, seq, flags, n)"
  shows "\<exists>hdr. buildHeader cfg streamID seq flags n = Inr (hdr, cfg_headerLen cfg) \<and>
           take (cfg_headerLen cfg) hdr = header_layout (cfg_version cfg) (streamID, seq, flags, n)"
proof -
  have wf: "cfg_wf cfg" and n: "0 \<le> n" "n \<le> uint (cfg_maxFrame cfg)"
    using assms by (simp_all add: header_ok_def)
  from n have max: "n \<le> 4294967295" using uint_u32_less [of "cfg_maxFrame cfg"] by linarith
  then have small: "\<not> (word_of_int n :: u32) > cfg_maxFrame cfg"
    using n by (simp add: word_of_int_u32_le not_less)
  from wf show ?thesis
    by (rule cfg_wf_cases)
       (use n max small wf in \<open>simp_all add: buildHeader_def headerLen_wf header_layout_def\<close>)
qed

lemma buildHeader_too_large:
  assumes "uint (cfg_maxFrame cfg) < n"
  shows "buildHeader cfg streamID seq flags n = Inl (ErrFrameTooLarge n)"
proof (cases "n \<le> 4294967295")
  case True
  moreover have "0 \<le> n" using assms uint_ge_0 [of "cfg_maxFrame cfg"] by linarith
  ultimately show ?thesis
    using assms by (simp add: buildHeader_def not_le [symmetric] word_of_int_u32_le)
next
  case False
  then show ?thesis by (simp add: buildHeader_def)
qed

lemma parseHeader_layout:
  assumes "header_ok cfg (streamID, seq, flags, n)"
  shows "parseHeader cfg (header_layout (cfg_version cfg) (streamID, seq, flags, n) @ pad)
           = Inr (streamID, seq, flags, n)"
proof -
  have wf: "cfg_wf cfg" and flags: "flags_ok flags" and n: "0 \<le> n" "n < 4294967296"
    and seq: "cfg_version cfg \<noteq> protocolVersionV3 \<longrightarrow> seq = 0"
    using assms uint_u32_less [of "cfg_maxFrame cfg"] by (auto simp: header_ok_def)
  let ?v = "cfg_version cfg"
  let ?len = "PutUint32 (word_of_int n)"
  let ?h = "header_layout ?v (streamID, seq, flags, n) @ pad"
  have s: "go_slice 2 6 ?h = PutUint32 streamID"
    by (simp add: go_slice_def header_layout_def)
  have l: "go_slice 6 10 ?h = ?len"
    by (simp add: go_slice_def header_layout_def)
  have q: "go_slice 10 18 (header_layout protocolVersionV3 (streamID, seq, flags, n) @ pad) =
      PutUint64 seq"
    by (simp add: go_slice_def header_layout_def)
  have "?h ! 0 = ?v" "?h ! 1 = flags" by (simp_all add: header_layout_def)
  with flags n seq show ?thesis
    by (simp add: parseHeader_def flags_ok_def s l q uint_word_of_int Let_def)
qed

interpretation header: wire_format
    "header_layout (cfg_version cfg)"
    "\<lambda>bs. parseHeader cfg (bs @ replicate (frameHeaderLenV3 - cfg_headerLen cfg) 0)"
    "cfg_headerLen cfg"
    "header_ok cfg"
  for cfg :: "'c connConfig"
  by unfold_locales
     (auto simp: header_ok_def length_header_layout intro!: parseHeader_layout [simplified])

lemma length_frame_layout [wire_len]:
  assumes "cfg_wf cfg"
  shows "length (frame_layout (cfg_version cfg) (streamID, seq, flags, payload)) =
           cfg_headerLen cfg + length payload"
  using assms by (simp add: frame_layout_def length_header_layout)

section \<open>Writing and reading frames\<close>

lemma writeFrame_taken:
  assumes "io_writer Write taken"
    and ok: "frame_ok cfg (streamID, seq, flags, payload)"
    and W: "writeFrameNoFlush Write cfg d w streamID seq flags payload = (None, d', w')"
  shows "taken w' = taken w @ frame_layout (cfg_version cfg) (streamID, seq, flags, payload)"
proof -
  from ok have h: "header_ok cfg (streamID, seq, flags, int (length payload))"
    and wf: "cfg_wf cfg"
    by (simp_all add: frame_ok_def header_ok_def)
  from buildHeader_layout [OF h] obtain hdr where
    b: "buildHeader cfg streamID seq flags (int (length payload)) = Inr (hdr, cfg_headerLen cfg)"
    and t: "take (cfg_headerLen cfg) hdr =
      header_layout (cfg_version cfg) (streamID, seq, flags, int (length payload))" by blast
  have "cfg_headerLen cfg \<le> frameHeaderLenV3"
    using wf by (rule cfg_wf_cases) (simp_all add: frameHeaderLenV3_def)
  with W b t obtain w1 where
    "writeFull Write w (header_layout (cfg_version cfg)
       (streamID, seq, flags, int (length payload))) = (None, w1)"
    "writeFull Write w1 payload = (None, w')"
    by (auto simp: writeFrameNoFlush_def headerSlice_def split: prod.splits option.splits)
  then show ?thesis
    using io_writer.writeFull_two [OF assms(1)] by (simp add: frame_layout_def)
qed

text \<open>A write that fails leaves a beginning of the frame.\<close>

lemma writeFrame_prefix:
  assumes "io_writer Write taken"
    and ok: "frame_ok cfg (streamID, seq, flags, payload)"
    and W: "writeFrameNoFlush Write cfg d w streamID seq flags payload = (e, d', w')"
  shows "\<exists>k. taken w' = taken w @ take k (frame_layout (cfg_version cfg) (streamID, seq, flags, payload))"
proof -
  let ?hdr = "header_layout (cfg_version cfg) (streamID, seq, flags, int (length payload))"
  from ok have h: "header_ok cfg (streamID, seq, flags, int (length payload))" and wf: "cfg_wf cfg"
    by (simp_all add: frame_ok_def header_ok_def)
  from buildHeader_layout [OF h] obtain hdr where
    b: "buildHeader cfg streamID seq flags (int (length payload)) = Inr (hdr, cfg_headerLen cfg)"
    and t: "take (cfg_headerLen cfg) hdr = ?hdr" by blast
  have le: "cfg_headerLen cfg \<le> frameHeaderLenV3"
    using wf by (rule cfg_wf_cases) (simp_all add: frameHeaderLenV3_def)
  obtain e1 w1 where w1: "writeFull Write w ?hdr = (e1, w1)" by (metis prod.exhaust)
  obtain e2 w2 where w2: "writeFull Write w1 payload = (e2, w2)" by (metis prod.exhaust)
  show ?thesis
  proof (cases e1)
    case None
    have w': "w' = w2" using W b t le w1 w2 None
      by (auto simp: writeFrameNoFlush_def headerSlice_def split: option.split_asm)
    obtain k where "taken w2 = taken w1 @ take k payload"
      using io_writer.writeFull_prefix [OF assms(1) w2] by blast
    then have "taken w2 = taken w @ take (length ?hdr + k) (?hdr @ payload)"
      using io_writer.writeFull_ok [OF assms(1)] w1 None by simp
    then show ?thesis unfolding w' frame_layout_def prod.case by blast
  next
    case (Some x)
    have w': "w' = w1" using W b t le w1 Some
      by (auto simp: writeFrameNoFlush_def headerSlice_def split: option.split_asm)
    obtain k where k: "k \<le> length ?hdr" "taken w1 = taken w @ take k ?hdr"
      using io_writer.writeFull_prefix [OF assms(1) w1] by blast
    then have "taken w1 = taken w @ take k (?hdr @ payload)" by simp
    then show ?thesis unfolding w' frame_layout_def prod.case by blast
  qed
qed

text \<open>A frame above the limit is refused before anything is written.\<close>

lemma writeFrame_too_large:
  assumes "uint (cfg_maxFrame cfg) < int (length payload)"
  shows "writeFrameNoFlush Write cfg d w streamID seq flags payload =
           (Some (ErrFrameTooLarge (int (length payload))), d, w)"
  using buildHeader_too_large [OF assms] by (simp add: writeFrameNoFlush_def)

lemma readFrame_layout:
  assumes ok: "frame_ok cfg (streamID, seq, flags, payload)"
    and inp: "nc_in c = frame_layout (cfg_version cfg) (streamID, seq, flags, payload) @ rest"
  shows "readFrameFrom cfg d c =
           (Inr (streamID, seq, flags, payload),
            countRead streamID (cfg_headerLen cfg + length payload) d, c\<lparr>nc_in := rest\<rparr>)"
proof -
  let ?h = "(streamID, seq, flags, int (length payload))"
  have h: "header_ok cfg ?h" and wf: "cfg_wf cfg"
    and max: "int (length payload) \<le> uint (cfg_maxFrame cfg)"
    using ok by (simp_all add: frame_ok_def header_ok_def)
  have le: "\<not> frameHeaderLenV3 < cfg_headerLen cfg"
    using wf by (rule cfg_wf_cases) (simp_all add: frameHeaderLenV3_def)
  have fit: "\<not> (word_of_int (int (length payload)) :: u32) > cfg_maxFrame cfg"
    using max uint_u32_less [of "cfg_maxFrame cfg"]
    unfolding not_less by (subst word_of_int_u32_le) linarith+
  have "ReadFull (cfg_headerLen cfg) c =
          (Inr (header_layout (cfg_version cfg) ?h), c\<lparr>nc_in := payload @ rest\<rparr>)"
    using inp
    by (intro ReadFull_append) (simp_all add: frame_layout_def length_header_layout [OF wf])
  moreover have "ReadFull (length payload) (c\<lparr>nc_in := payload @ rest\<rparr>) =
      (Inr payload, c\<lparr>nc_in := rest\<rparr>)"
    by (simp add: ReadFull_append [where ys = rest])
  ultimately show ?thesis
    using le fit header.dec_enc [OF h] by (simp add: readFrameFrom_def headerLen_wf [OF wf])
qed

lemma readFrame_bounded:
  assumes "readFrameFrom cfg d c = (Inr (streamID, seq, flags, payload), d', c')"
  shows "int (length payload) \<le> uint (cfg_maxFrame cfg)"
  using assms
  by (auto simp: readFrameFrom_def parseHeader_def Let_def not_less word_le_def
           split: sum.splits prod.splits if_splits dest!: ReadFull_ok)

text \<open>On a connection that takes every byte, a buffered write and the flush succeed.\<close>

lemma bw_Write_room:
  assumes "nc_room (bw_conn b) = None" "bw_err b = None"
  shows "\<exists>n b'. bw_Write_loop b p nn = (n, None, b') \<and> nc_room (bw_conn b') = None \<and> bw_err b' = None"
  using assms
proof (induction b p nn rule: bw_Write_loop.induct)
  case (1 b p nn)
  show ?case
  proof (cases "bufio_size - length (bw_buf b) < length p")
    case False
    with "1.prems" show ?thesis by (subst bw_Write_loop.simps) auto
  next
    case more: True
    show ?thesis
    proof (cases "bw_buf b = []")
      case True
      let ?c = "(bw_conn b)\<lparr>nc_out := nc_out (bw_conn b) @ p\<rparr>"
      have W: "conn_Write (bw_conn b) p = (length p, None, ?c)"
        using "1.prems" by (simp add: conn_Write_def)
      then have "\<exists>n b'. bw_Write_loop (b\<lparr>bw_conn := ?c, bw_err := None\<rparr>) (drop (length p) p)
          (nn + length p) = (n, None, b') \<and> nc_room (bw_conn b') = None \<and> bw_err b' = None"
        using more "1.prems" by (intro "1.IH"(1) [OF _ True refl W [symmetric] refl]) simp_all
      with more True "1.prems" W show ?thesis by (subst bw_Write_loop.simps) simp
    next
      case False
      let ?n = "bufio_size - length (bw_buf b)"
      let ?b = "snd (bw_Flush (b\<lparr>bw_buf := bw_buf b @ take ?n p\<rparr>))"
      have "nc_room (bw_conn ?b) = None \<and> bw_err ?b = None"
        using "1.prems" by (simp add: bw_Flush_def conn_Write_def)
      then have "\<exists>n b'. bw_Write_loop ?b (drop ?n p) (nn + ?n) = (n, None, b') \<and>
          nc_room (bw_conn b') = None \<and> bw_err b' = None"
        using more "1.prems" by (intro "1.IH"(2) [OF _ False refl]) simp_all
      with more False "1.prems" show ?thesis by (subst bw_Write_loop.simps) (simp add: Let_def)
    qed
  qed
qed

lemma writeFull_room:
  assumes "nc_room (bw_conn b) = None" "bw_err b = None"
  shows "\<exists>b'. writeFull bw_Write b p = (None, b') \<and> nc_room (bw_conn b') = None \<and> bw_err b' = None"
proof (cases "p = []")
  case True
  with assms show ?thesis by (subst writeFull.simps) simp
next
  case False
  from bw_Write_room [OF assms, of p 0] obtain n b' where
    "bw_Write b p = (n, None, b')" and b': "nc_room (bw_conn b') = None" "bw_err b' = None"
    by (auto simp: bw_Write_def)
  with bufw.writeFull_once [OF False this(1)] show ?thesis by simp
qed

lemma bw_Flush_room:
  assumes "nc_room (bw_conn b) = None" "bw_err b = None"
  shows "fst (bw_Flush b) = None"
  using assms by (simp add: bw_Flush_def conn_Write_def)

lemma writeFrameTo_room:
  assumes ok: "frame_ok cfg (streamID, seq, flags, payload)"
    and room: "nc_room (bw_conn b) = None" "bw_err b = None"
  shows "\<exists>b'. writeFrameTo bw_Write (Some bw_Flush) cfg d b streamID seq flags payload =
           (None, countWritten streamID (cfg_headerLen cfg + length payload) d, b') \<and>
         nc_out (bw_conn b') =
           bw_taken b @ frame_layout (cfg_version cfg) (streamID, seq, flags, payload)"
proof -
  have h: "header_ok cfg (streamID, seq, flags, int (length payload))" and wf: "cfg_wf cfg"
    using ok by (simp_all add: frame_ok_def header_ok_def)
  from buildHeader_layout [OF h] obtain hdr where
    b: "buildHeader cfg streamID seq flags (int (length payload)) = Inr (hdr, cfg_headerLen cfg)"
    by blast
  have le: "cfg_headerLen cfg \<le> frameHeaderLenV3"
    using wf by (rule cfg_wf_cases) (simp_all add: frameHeaderLenV3_def)
  obtain b1 where w1: "writeFull bw_Write b (take (cfg_headerLen cfg) hdr) = (None, b1)"
    and r1: "nc_room (bw_conn b1) = None" "bw_err b1 = None"
    using writeFull_room [OF room] by blast
  obtain b2 where w2: "writeFull bw_Write b1 payload = (None, b2)"
    and r2: "nc_room (bw_conn b2) = None" "bw_err b2 = None"
    using writeFull_room [OF r1] by blast
  have W: "writeFrameNoFlush bw_Write cfg d b streamID seq flags payload =
      (None, countWritten streamID (cfg_headerLen cfg + length payload) d, b2)"
    using le by (simp add: writeFrameNoFlush_def b headerSlice_def w1 w2)
  obtain b3 where f: "bw_Flush b2 = (None, b3)"
    using bw_Flush_room [OF r2] by (cases "bw_Flush b2") simp
  show ?thesis
    using W f writeFrame_taken [OF bufw.io_writer_axioms ok W] bw_Flush_ok [OF f]
    by (simp add: writeFrameTo_def)
qed

text \<open>The headers that \<^verbatim>\<open>readFrameFrom\<close> refuses for what they contain.\<close>

definition header_rejected :: "'c connConfig \<Rightarrow> bytes \<Rightarrow> bool" where
  "header_rejected cfg bs \<longleftrightarrow>
     bs ! 0 \<noteq> cfg_version cfg \<or> \<not> flags_ok (bs ! 1) \<or> Uint32 (go_slice 6 10 bs) > cfg_maxFrame cfg"

lemma parseHeader_rejected:
  assumes "cfg_wf cfg" and "length hdr = cfg_headerLen cfg"
  shows "(case parseHeader cfg (hdr @ pad) of
            Inl e \<Rightarrow> isMalformedFrameError e \<and> header_rejected cfg hdr
          | Inr (streamID, seq, flags, n) \<Rightarrow>
              0 \<le> n \<and> header_rejected cfg hdr = ((word_of_int n :: u32) > cfg_maxFrame cfg))"
proof -
  have "10 \<le> length hdr" using assms by (auto elim: cfg_wf_cases)
  then show ?thesis
    by (auto simp: parseHeader_def header_rejected_def flags_ok_def Let_def nth_append)
qed

text \<open>A version 3 configuration with a limit of 100 bytes, for examples.\<close>

definition sampleConfig :: "unit connConfig" where
  "sampleConfig = \<lparr>cfg_version = 3, cfg_codecID = 1, cfg_codec = Some (), cfg_maxFrame = 100, cfg_headerLen = 18\<rparr>"

section \<open>Properties\<close>

text \<open>C24. A frame written through the buffered writer and flushed is read back by the peer as the
  same stream id, sequence number, flags and payload, and the read consumes exactly the bytes of
  that frame; on a connection that takes the bytes the write succeeds.\<close>

theorem frame_roundtrip:
  assumes "frame_ok cfg (streamID, seq, flags, payload)"
    and "nc_room c = None" and "nc_out c = []"
  shows "\<exists>d' b'. writeFrameTo bw_Write (Some bw_Flush) cfg d (newBufioWriter c)
                  streamID seq flags payload = (None, d', b') \<and>
           readFrameFrom cfg e (r\<lparr>nc_in := nc_out (bw_conn b') @ rest\<rparr>) =
             (Inr (streamID, seq, flags, payload),
              countRead streamID (cfg_headerLen cfg + length payload) e, r\<lparr>nc_in := rest\<rparr>)"
proof -
  from writeFrameTo_room [OF assms(1), of "newBufioWriter c" d] assms(2,3)
  obtain b' where
    W: "writeFrameTo bw_Write (Some bw_Flush) cfg d (newBufioWriter c) streamID seq flags payload =
      (None, countWritten streamID (cfg_headerLen cfg + length payload) d, b')"
    and out: "nc_out (bw_conn b') = frame_layout (cfg_version cfg) (streamID, seq, flags, payload)"
    by (auto simp: newBufioWriter_def bw_taken_def)
  have "readFrameFrom cfg e (r\<lparr>nc_in := nc_out (bw_conn b') @ rest\<rparr>) =
     (Inr (streamID, seq, flags, payload),
      countRead streamID (cfg_headerLen cfg + length payload) e, r\<lparr>nc_in := rest\<rparr>)"
    using readFrame_layout [OF assms(1), of "r\<lparr>nc_in := nc_out (bw_conn b') @ rest\<rparr>" rest e] out
    by simp
  with W show ?thesis by blast
qed

theorem frame_roundtrip_witness:
  "\<exists>d' b'. writeFrameTo bw_Write (Some bw_Flush) sampleConfig zeroConnectionCounters
       (newBufioWriter sampleConn) 7 8 1 [1, 2, 3] = (None, d', b') \<and>
     readFrameFrom sampleConfig zeroConnectionCounters (sampleConn\<lparr>nc_in := nc_out (bw_conn b') @ [9]\<rparr>) =
       (Inr (7, 8, 1, [1, 2, 3]),
        countRead 7 (cfg_headerLen sampleConfig + length [1, 2, 3 :: byte]) zeroConnectionCounters,
        sampleConn\<lparr>nc_in := [9]\<rparr>)"
proof -
  have "frame_ok sampleConfig (7, 8, 1, [1, 2, 3])" by code_simp
  moreover have "nc_room sampleConn = None" "nc_out sampleConn = []" by (simp_all add: sampleConn_def)
  ultimately show ?thesis by (rule frame_roundtrip)
qed

text \<open>C25. The reader tells content from transport: over a transport whose own error is not one of the
  frame errors, a failed read returns a frame error exactly when a whole header arrived and was
  refused for its version, its flags or its length, and it counts nothing.\<close>

theorem read_error_class:
  assumes wf: "cfg_wf cfg" and "\<not> isMalformedFrameError (nc_in_err c)"
    and R: "readFrameFrom cfg d c = (Inl err, d', c')"
  shows "d' = d \<and> (isMalformedFrameError err \<longleftrightarrow>
           cfg_headerLen cfg \<le> length (nc_in c) \<and>
           header_rejected cfg (take (cfg_headerLen cfg) (nc_in c)))"
proof (cases "cfg_headerLen cfg \<le> length (nc_in c)")
  case False
  with assms show ?thesis
    by (auto simp: readFrameFrom_def headerLen_wf ReadFull_def split: if_splits)
next
  case True
  let ?hdr = "take (cfg_headerLen cfg) (nc_in c)"
  have "\<not> frameHeaderLenV3 < cfg_headerLen cfg"
    using wf by (rule cfg_wf_cases) (simp_all add: frameHeaderLenV3_def)
  with R True parseHeader_rejected [OF wf, of ?hdr] assms(2) show ?thesis
    by (fastforce simp: readFrameFrom_def headerLen_wf [OF wf] ReadFull_def
                  split: sum.splits prod.splits if_splits)
qed

theorem read_error_class_witness:
  "header_rejected sampleConfig (9 # replicate 17 0) \<and>
   readFrameFrom sampleConfig zeroConnectionCounters (sampleConn\<lparr>nc_in := 9 # replicate 17 0\<rparr>) =
     (Inl (ErrUnsupportedFrameVersion 9), zeroConnectionCounters, sampleConn\<lparr>nc_in := []\<rparr>)"
proof -
  let ?c = "sampleConn\<lparr>nc_in := 9 # replicate 17 0\<rparr>"
  have wf: "cfg_wf sampleConfig" and e: "\<not> isMalformedFrameError (nc_in_err ?c)" by code_simp+
  have R: "readFrameFrom sampleConfig zeroConnectionCounters ?c =
      (Inl (ErrUnsupportedFrameVersion 9), zeroConnectionCounters, sampleConn\<lparr>nc_in := []\<rparr>)" by code_simp
  have m: "isMalformedFrameError (ErrUnsupportedFrameVersion 9)" by code_simp
  from read_error_class [OF wf e R] m R show ?thesis by (simp add: sampleConfig_def)
qed

text \<open>Whatever the peer sends, a frame that is accepted has a payload within the negotiated
  limit, carries no flag but FIN and, in version 2, the sequence number 0: the limit bounds what
  one header can make the receiver allocate.\<close>

theorem read_frame_safe:
  assumes "readFrameFrom cfg d c = (Inr (streamID, seq, flags, payload), d', c')"
  shows "int (length payload) \<le> uint (cfg_maxFrame cfg) \<and> flags_ok flags \<and>
         (cfg_version cfg \<noteq> protocolVersionV3 \<longrightarrow> seq = 0) \<and>
         framesRead d' = framesRead d + 1"
  using assms readFrame_bounded [OF assms]
  by (auto simp: readFrameFrom_def parseHeader_def flags_ok_def countRead_def Let_def
           split: sum.splits prod.splits if_splits)

theorem read_frame_safe_witness:
  "int (length [4 :: byte]) \<le> uint (cfg_maxFrame sampleConfig) \<and> flags_ok 1"
proof -
  let ?c = "sampleConn\<lparr>nc_in := frame_layout 3 (2, 6, 1, [4])\<rparr>"
  have R: "readFrameFrom sampleConfig zeroConnectionCounters ?c =
      (Inr (2, 6, 1, [4]), countRead 2 19 zeroConnectionCounters, sampleConn)" by code_simp
  from read_frame_safe [OF R] show ?thesis by simp
qed

end
