(* ===== verification/Handshake.thy ===== *)
theory Handshake
  imports Frame
begin

text \<open>
  \<^verbatim>\<open>src/protocol.go\<close>: the handshake that negotiates the protocol version, the codec and the frame
  limit. Each side is a function of its connection: the bytes the peer has sent are the input, the
  bytes written are the output. The registry of codecs is an argument. The client writes its whole
  request before it reads, so a run of the two sides is: the server on the client's request, then
  the client on the server's reply.
\<close>

definition handshakeHeaderLen :: nat where
  "handshakeHeaderLen = 12"

definition maxCodecCount :: nat where
  "maxCodecCount = 16"

definition handshakeMagic :: bytes where
  "handshakeMagic = [65, 77]"

definition defaultMaxFrame :: u32 where
  "defaultMaxFrame = push_bit 20 16"

definition isSupportedProtocolVersion :: "byte \<Rightarrow> bool" where
  "isSupportedProtocolVersion version \<longleftrightarrow> version = protocolVersionV2 \<or> version = protocolVersionV3"

definition supportedProtocolVersion :: "bool \<Rightarrow> byte" where
  "supportedProtocolVersion recoveryEnabled =
     (if recoveryEnabled then protocolVersionV3 else protocolVersionV2)"

fun checkCodecs :: "'c codecRegistry \<Rightarrow> CodecID list \<Rightarrow> go_error option" where
  "checkCodecs reg [] = None"
| "checkCodecs reg (codecID # cs) =
     (if codecID = 0 then Some (ErrInvalidMessage ''codec ID must be non-zero'')
      else case codecByID reg codecID of
        None \<Rightarrow> Some (ErrUnsupportedCodec codecID)
      | Some _ \<Rightarrow> checkCodecs reg cs)"

definition validateCodecList :: "'c codecRegistry \<Rightarrow> CodecID list \<Rightarrow> go_error option" where
  "validateCodecList reg codecs =
     (if codecs = [] then Some (ErrInvalidMessage ''codec list must be non-empty'')
      else if length codecs > maxCodecCount then Some (ErrTooManyCodecs (int (length codecs)))
      else checkCodecs reg codecs)"

definition negotiateMaxFrame :: "u32 \<Rightarrow> u32 \<Rightarrow> u32" where
  "negotiateMaxFrame clientMaxFrame serverMaxFrame =
     (if clientMaxFrame = 0 then 0
      else if clientMaxFrame < serverMaxFrame then clientMaxFrame
      else serverMaxFrame)"

fun containsCodec :: "CodecID list \<Rightarrow> CodecID \<Rightarrow> bool" where
  "containsCodec [] i = False"
| "containsCodec (codec # cs) i = (if codec = i then True else containsCodec cs i)"

fun selectSupported :: "byte \<Rightarrow> CodecID list \<Rightarrow> CodecID option" where
  "selectSupported raw [] = None"
| "selectSupported raw (s # ss) = (if raw = s then Some s else selectSupported raw ss)"

fun selectCodec :: "bytes \<Rightarrow> CodecID list \<Rightarrow> CodecID option" where
  "selectCodec [] supported = None"
| "selectCodec (raw # cs) supported =
     (case selectSupported raw supported of
        Some s \<Rightarrow> Some s
      | None \<Rightarrow> selectCodec cs supported)"

definition newConnConfig :: "'c codecRegistry \<Rightarrow> byte \<Rightarrow> CodecID \<Rightarrow> u32 \<Rightarrow> 'c connConfig result" where
  "newConnConfig reg version codecID maxFrame =
     (case codecByID reg codecID of
        None \<Rightarrow> Inl (ErrUnsupportedCodec codecID)
      | Some codec \<Rightarrow>
          case frameHeaderLenForVersion version of
            Inl e \<Rightarrow> Inl e
          | Inr n \<Rightarrow> Inr \<lparr>cfg_version = version, cfg_codecID = codecID, cfg_codec = Some codec,
                           cfg_maxFrame = maxFrame, cfg_headerLen = n\<rparr>)"

definition handshakeReply :: "byte \<Rightarrow> byte \<Rightarrow> CodecID \<Rightarrow> u32 \<Rightarrow> bytes" where
  "handshakeReply accept version codecID maxFrame =
     handshakeMagic @ [accept, version, codecID, 0, 0, 0] @ PutUint32 maxFrame"

definition writeHandshakeReply ::
    "net_conn \<Rightarrow> byte \<Rightarrow> byte \<Rightarrow> CodecID \<Rightarrow> u32 \<Rightarrow> go_error option \<times> net_conn" where
  "writeHandshakeReply conn accept version codecID maxFrame =
     writeFull conn_Write conn (handshakeReply accept version codecID maxFrame)"

definition discardHandshakeCodecs :: "net_conn \<Rightarrow> nat \<Rightarrow> go_error option \<times> net_conn" where
  "discardHandshakeCodecs conn codecCount =
     (if codecCount = 0 then (None, conn)
      else case ReadFull codecCount conn of
        (Inl e, c) \<Rightarrow> (Some e, c)
      | (Inr _, c) \<Rightarrow> (None, c))"

definition handshakeRequest :: "CodecID list \<Rightarrow> u32 \<Rightarrow> byte \<Rightarrow> bytes" where
  "handshakeRequest codecs maxFrame version =
     handshakeMagic @ [version, of_nat (length codecs), 0, 0, 0, 0] @ PutUint32 maxFrame @ codecs"

definition handshakeClient ::
    "'c codecRegistry \<Rightarrow> net_conn \<Rightarrow> CodecID list \<Rightarrow> u32 \<Rightarrow> byte \<Rightarrow> 'c connConfig result \<times> net_conn" where
  "handshakeClient reg conn codecs maxFrame version =
     (case validateCodecList reg codecs of
        Some e \<Rightarrow> (Inl e, conn)
      | None \<Rightarrow>
          if \<not> isSupportedProtocolVersion version
          then (Inl (ErrUnsupportedFrameVersion version), conn)
          else case writeFull conn_Write conn (handshakeRequest codecs maxFrame version) of
            (Some e, c1) \<Rightarrow> (Inl e, c1)
          | (None, c1) \<Rightarrow>
              case ReadFull handshakeHeaderLen c1 of
                (Inl e, c2) \<Rightarrow> (Inl e, c2)
              | (Inr response, c2) \<Rightarrow>
                  if response ! 0 \<noteq> handshakeMagic ! 0 \<or> response ! 1 \<noteq> handshakeMagic ! 1
                  then (Inl ErrBadHandshakeMagic, c2)
                  else
                    let accept = response ! 2; replyVersion = response ! 3; selected = response ! 4;
                        serverMax = Uint32 (go_slice 8 12 response)
                    in if replyVersion \<noteq> version
                       then (Inl (ErrUnsupportedFrameVersion replyVersion), c2)
                       else if accept = 0 then (Inl ErrNoCommonCodec, c2)
                       else if \<not> containsCodec codecs selected then (Inl ErrNoCommonCodec, c2)
                       else (newConnConfig reg replyVersion selected serverMax, c2))"

definition handshakeServer ::
    "'c codecRegistry \<Rightarrow> net_conn \<Rightarrow> CodecID list \<Rightarrow> u32 \<Rightarrow> bool \<Rightarrow> 'c connConfig result \<times> net_conn" where
  "handshakeServer reg conn codecs maxFrame recoveryEnabled =
     (case validateCodecList reg codecs of
        Some e \<Rightarrow> (Inl e, conn)
      | None \<Rightarrow>
          case ReadFull handshakeHeaderLen conn of
            (Inl e, c1) \<Rightarrow> (Inl e, c1)
          | (Inr request, c1) \<Rightarrow>
              if request ! 0 \<noteq> handshakeMagic ! 0 \<or> request ! 1 \<noteq> handshakeMagic ! 1
              then (Inl ErrBadHandshakeMagic, c1)
              else
                let version = request ! 2;
                    replyVersion = supportedProtocolVersion recoveryEnabled;
                    codecCount = unat (request ! 3);
                    clientMaxFrame = Uint32 (go_slice 8 12 request)
                in if \<not> isSupportedProtocolVersion version \<or>
                      (version = protocolVersionV3 \<and> \<not> recoveryEnabled)
                   then (case discardHandshakeCodecs c1 codecCount of
                           (Some e, c2) \<Rightarrow> (Inl e, c2)
                         | (None, c2) \<Rightarrow>
                             (Inl (ErrUnsupportedFrameVersion version),
                              snd (writeHandshakeReply c2 0 replyVersion 0 0)))
                   else if codecCount = 0
                   then (Inl ErrNoCommonCodec, snd (writeHandshakeReply c1 0 version 0 0))
                   else if codecCount > maxCodecCount
                   then (case discardHandshakeCodecs c1 codecCount of
                           (Some e, c2) \<Rightarrow> (Inl e, c2)
                         | (None, c2) \<Rightarrow>
                             (Inl (ErrTooManyCodecs (int codecCount)),
                              snd (writeHandshakeReply c2 0 version 0 0)))
                   else case ReadFull codecCount c1 of
                     (Inl e, c2) \<Rightarrow> (Inl e, c2)
                   | (Inr clientCodecs, c2) \<Rightarrow>
                       case selectCodec clientCodecs codecs of
                         None \<Rightarrow> (Inl ErrNoCommonCodec, snd (writeHandshakeReply c2 0 version 0 0))
                       | Some selected \<Rightarrow>
                           let negotiatedMax = negotiateMaxFrame clientMaxFrame maxFrame
                           in case writeHandshakeReply c2 1 version selected negotiatedMax of
                                (Some e, c3) \<Rightarrow> (Inl e, c3)
                              | (None, c3) \<Rightarrow> (newConnConfig reg version selected negotiatedMax, c3))"

section \<open>Lemmas\<close>

lemma containsCodec_iff: "containsCodec cs i \<longleftrightarrow> i \<in> set cs"
  by (induction cs) auto

lemma selectSupported_iff: "selectSupported raw ss = (if raw \<in> set ss then Some raw else None)"
  by (induction ss) auto

lemma selectCodec_find: "selectCodec cs ss = find (\<lambda>c. c \<in> set ss) cs"
  by (induction cs) (auto simp: selectSupported_iff)

lemma selectCodec_SomeD:
  "selectCodec cs ss = Some i \<Longrightarrow> i \<in> set cs \<and> i \<in> set ss"
  by (auto simp: selectCodec_find find_Some_iff)

lemma negotiateMaxFrame_min: "negotiateMaxFrame a b = min a b"
  by (auto simp: negotiateMaxFrame_def min_def)

lemma checkCodecs_ok:
  "checkCodecs reg cs = None \<Longrightarrow> i \<in> set cs \<Longrightarrow> i \<noteq> 0 \<and> (\<exists>c. reg i = Some c)"
  by (induction cs) (auto simp: codecByID_def split: if_splits option.splits)

lemma validateCodecList_ok:
  assumes "validateCodecList reg cs = None"
  shows "cs \<noteq> []" "length cs \<le> 16" "i \<in> set cs \<Longrightarrow> \<exists>c. reg i = Some c"
  using assms checkCodecs_ok
  by (auto simp: validateCodecList_def maxCodecCount_def split: if_splits)

lemma frameHeaderLenForVersion_supported:
  "isSupportedProtocolVersion v \<Longrightarrow> \<exists>n. frameHeaderLenForVersion v = Inr n"
  by (auto simp: isSupportedProtocolVersion_def frameHeaderLenForVersion_def)

lemma newConnConfig_ok:
  "newConnConfig reg v i m = Inr cfg \<Longrightarrow>
     cfg_wf cfg \<and> cfg_version cfg = v \<and> cfg_codecID cfg = i \<and> cfg_maxFrame cfg = m \<and>
     reg i \<noteq> None \<and> cfg_codec cfg = reg i"
  by (auto simp: newConnConfig_def cfg_wf_def codecByID_def split: option.splits sum.splits)

lemma newConnConfig_exists:
  assumes "reg i = Some c" and "isSupportedProtocolVersion v"
  shows "\<exists>cfg. newConnConfig reg v i m = Inr cfg \<and>
           cfg_wf cfg \<and> cfg_version cfg = v \<and> cfg_codecID cfg = i \<and> cfg_maxFrame cfg = m"
proof -
  from frameHeaderLenForVersion_supported [OF assms(2)] assms(1)
  have "\<exists>cfg. newConnConfig reg v i m = Inr cfg" by (auto simp: newConnConfig_def codecByID_def)
  with newConnConfig_ok show ?thesis by blast
qed

lemma writeFull_conn_room:
  assumes "nc_room c = None"
  shows "writeFull conn_Write c bs = (None, c\<lparr>nc_out := nc_out c @ bs\<rparr>)"
proof (cases "bs = []")
  case True
  then show ?thesis by (subst writeFull.simps) simp
next
  case False
  have "conn_Write c bs = (length bs, None, c\<lparr>nc_out := nc_out c @ bs\<rparr>)"
    using assms by (simp add: conn_Write_def)
  then show ?thesis by (rule connw.writeFull_once [OF False])
qed

lemma length_handshakeReply [simp, wire_len]: "length (handshakeReply a v i m) = 12"
  by (simp add: handshakeReply_def handshakeMagic_def)

lemma handshakeReply_fields [simp]:
  "handshakeReply a v i m ! 0 = handshakeMagic ! 0"
  "handshakeReply a v i m ! Suc 0 = handshakeMagic ! Suc 0"
  "handshakeReply a v i m ! 2 = a" "handshakeReply a v i m ! 3 = v"
  "handshakeReply a v i m ! 4 = i" "Uint32 (go_slice 8 12 (handshakeReply a v i m)) = m"
  by (simp_all add: handshakeReply_def handshakeMagic_def go_slice_def)

text \<open>The request without its codec list: the 12-byte header the server reads first.\<close>

definition requestHeader :: "CodecID list \<Rightarrow> u32 \<Rightarrow> byte \<Rightarrow> bytes" where
  "requestHeader codecs maxFrame version =
     handshakeMagic @ [version, of_nat (length codecs), 0, 0, 0, 0] @ PutUint32 maxFrame"

lemma handshakeRequest_split:
  "handshakeRequest codecs maxFrame version = requestHeader codecs maxFrame version @ codecs"
  by (simp add: handshakeRequest_def requestHeader_def)

lemma length_requestHeader [simp, wire_len]: "length (requestHeader cs m v) = 12"
  by (simp add: requestHeader_def handshakeMagic_def)

lemma requestHeader_fields [simp]:
  "requestHeader cs m v ! 0 = handshakeMagic ! 0"
  "requestHeader cs m v ! Suc 0 = handshakeMagic ! Suc 0"
  "requestHeader cs m v ! 2 = v" "requestHeader cs m v ! 3 = of_nat (length cs)"
  "Uint32 (go_slice 8 12 (requestHeader cs m v)) = m"
  by (simp_all add: requestHeader_def handshakeMagic_def go_slice_def)

lemma unat_codec_count: "length cs \<le> 16 \<Longrightarrow> unat (of_nat (length cs) :: byte) = length cs"
  by (simp add: unat_byte_of_nat)

text \<open>What the server answers to a well-formed request, by case.\<close>

definition serverAnswer ::
    "CodecID list \<Rightarrow> u32 \<Rightarrow> bool \<Rightarrow> CodecID list \<Rightarrow> u32 \<Rightarrow> byte \<Rightarrow> bytes" where
  "serverAnswer codecsS maxS recovery codecsC maxC version =
     (if version = protocolVersionV3 \<and> \<not> recovery
      then handshakeReply 0 protocolVersionV2 0 0
      else case selectCodec codecsC codecsS of
        None \<Rightarrow> handshakeReply 0 version 0 0
      | Some i \<Rightarrow> handshakeReply 1 version i (min maxC maxS))"

definition serverResult ::
    "'c codecRegistry \<Rightarrow> CodecID list \<Rightarrow> u32 \<Rightarrow> bool \<Rightarrow> CodecID list \<Rightarrow> u32 \<Rightarrow> byte \<Rightarrow>
     'c connConfig result" where
  "serverResult reg codecsS maxS recovery codecsC maxC version =
     (if version = protocolVersionV3 \<and> \<not> recovery
      then Inl (ErrUnsupportedFrameVersion version)
      else case selectCodec codecsC codecsS of
        None \<Rightarrow> Inl ErrNoCommonCodec
      | Some i \<Rightarrow> newConnConfig reg version i (min maxC maxS))"

lemma handshakeServer_request:
  assumes S: "validateCodecList regS codecsS = None"
    and C: "codecsC \<noteq> []" "length codecsC \<le> 16" and v: "isSupportedProtocolVersion version"
    and room: "nc_room s = None"
  shows "handshakeServer regS (s\<lparr>nc_in := handshakeRequest codecsC maxC version @ tailS\<rparr>)
           codecsS maxS recovery =
         (serverResult regS codecsS maxS recovery codecsC maxC version,
          s\<lparr>nc_in := tailS,
             nc_out := nc_out s @ serverAnswer codecsS maxS recovery codecsC maxC version\<rparr>)"
proof -
  let ?h = "requestHeader codecsC maxC version"
  have h: "ReadFull handshakeHeaderLen (s\<lparr>nc_in := handshakeRequest codecsC maxC version @ tailS\<rparr>)
      = (Inr ?h, s\<lparr>nc_in := codecsC @ tailS\<rparr>)"
    using ReadFull_append [of ?h 12 "s\<lparr>nc_in := ?h @ codecsC @ tailS\<rparr>" "codecsC @ tailS"]
    by (simp add: handshakeRequest_split handshakeHeaderLen_def)
  have codecs: "ReadFull (length codecsC) (s\<lparr>nc_in := codecsC @ tailS\<rparr>) =
      (Inr codecsC, s\<lparr>nc_in := tailS\<rparr>)"
    by (simp add: ReadFull_append [where ys = tailS])
  have w: "writeHandshakeReply (s\<lparr>nc_in := tailS\<rparr>) a b i m =
      (None, s\<lparr>nc_in := tailS, nc_out := nc_out s @ handshakeReply a b i m\<rparr>)" for a b i m
    using room by (simp add: writeHandshakeReply_def writeFull_conn_room)
  show ?thesis
    using C v
    by (simp add: handshakeServer_def S h codecs w Let_def unat_codec_count discardHandshakeCodecs_def
          maxCodecCount_def serverResult_def serverAnswer_def negotiateMaxFrame_min
          supportedProtocolVersion_def split: option.split)
qed

lemma handshakeClient_reply:
  assumes C: "validateCodecList regC codecsC = None" and v: "isSupportedProtocolVersion version"
    and room: "nc_room c = None"
    and reply: "nc_in c = handshakeReply a rv i m @ tailS"
  shows "handshakeClient regC c codecsC maxC version =
           (if rv \<noteq> version then Inl (ErrUnsupportedFrameVersion rv)
            else if a = 0 \<or> i \<notin> set codecsC then Inl ErrNoCommonCodec
            else newConnConfig regC rv i m,
            c\<lparr>nc_in := tailS, nc_out := nc_out c @ handshakeRequest codecsC maxC version\<rparr>)"
proof -
  let ?c = "c\<lparr>nc_out := nc_out c @ handshakeRequest codecsC maxC version\<rparr>"
  have "ReadFull 12 ?c = (Inr (handshakeReply a rv i m), ?c\<lparr>nc_in := tailS\<rparr>)"
    using reply by (simp add: ReadFull_append [where ys = tailS])
  then show ?thesis
    using v by (simp add: handshakeClient_def C writeFull_conn_room [OF room]
      handshakeHeaderLen_def containsCodec_iff Let_def)
qed

text \<open>A registry with codecs 1 and 2, for examples.\<close>

definition sampleCodecs :: "unit codecRegistry" where
  "sampleCodecs = [1 \<mapsto> (), 2 \<mapsto> ()]"

section \<open>Properties\<close>

text \<open>C22. The two ends agree. Let a server with a valid codec list read the request that a client
  with a valid codec list writes, and the client read what the server answers. Without recovery on
  the server a version 3 request fails on both sides, on the client with version 2, the case in
  which it falls back. Otherwise, with no codec in common both sides report that. Otherwise both
  sides succeed with the same version, codec and frame limit, the codec being the first of the
  client's list that the server supports and the limit the smaller of the two, and neither side
  has consumed a byte beyond the handshake.\<close>

theorem handshake_agreement:
  assumes C: "validateCodecList regC codecsC = None" and S: "validateCodecList regS codecsS = None"
    and v: "isSupportedProtocolVersion version"
    and roomC: "nc_room c = None" and roomS: "nc_room s = None" and out: "nc_out s = []"
    and runS: "handshakeServer regS (s\<lparr>nc_in := handshakeRequest codecsC maxC version @ tailS\<rparr>)
                 codecsS maxS recovery = (rs, s')"
    and runC: "handshakeClient regC (c\<lparr>nc_in := nc_out s' @ tailC\<rparr>) codecsC maxC version = (rc, c')"
  shows "nc_out c' = nc_out c @ handshakeRequest codecsC maxC version \<and>
         nc_in s' = tailS \<and> nc_in c' = tailC \<and>
         (if version = protocolVersionV3 \<and> \<not> recovery
          then rs = Inl (ErrUnsupportedFrameVersion protocolVersionV3) \<and>
               rc = Inl (ErrUnsupportedFrameVersion protocolVersionV2)
          else case find (\<lambda>i. i \<in> set codecsS) codecsC of
            None \<Rightarrow> rs = Inl ErrNoCommonCodec \<and> rc = Inl ErrNoCommonCodec
          | Some i \<Rightarrow>
              \<exists>cfgS cfgC. rs = Inr cfgS \<and> rc = Inr cfgC \<and> cfg_wf cfgS \<and> cfg_wf cfgC \<and>
                cfg_version cfgS = version \<and> cfg_version cfgC = version \<and>
                cfg_codecID cfgS = i \<and> cfg_codecID cfgC = i \<and>
                cfg_maxFrame cfgS = min maxC maxS \<and> cfg_maxFrame cfgC = min maxC maxS)"
proof -
  let ?ans = "serverAnswer codecsS maxS recovery codecsC maxC version"
  have rs: "rs = serverResult regS codecsS maxS recovery codecsC maxC version"
    and s': "nc_in s' = tailS" "nc_out s' = ?ans"
    using runS handshakeServer_request [OF S validateCodecList_ok(1,2) [OF C] v roomS, of maxC tailS maxS recovery] out
    by auto
  note client = handshakeClient_reply [OF C v, of "c\<lparr>nc_in := ?ans @ tailC\<rparr>" _ _ _ _ tailC maxC]
  show ?thesis
  proof (cases "version = protocolVersionV3 \<and> \<not> recovery")
    case True
    then show ?thesis
      using runC s' rs roomC client by (auto simp: serverAnswer_def serverResult_def)
  next
    case False
    show ?thesis
    proof (cases "selectCodec codecsC codecsS")
      case None
      then show ?thesis
        using False runC s' rs roomC client
        by (auto simp: serverAnswer_def serverResult_def selectCodec_find)
    next
      case (Some i)
      then have i: "i \<in> set codecsC" "i \<in> set codecsS" by (auto dest: selectCodec_SomeD)
      obtain kc ks where "regC i = Some kc" "regS i = Some ks"
        using i validateCodecList_ok(3) [OF C] validateCodecList_ok(3) [OF S] by blast
      note cfgs = newConnConfig_exists [of regC i, OF this(1) v, of "min maxC maxS"]
        newConnConfig_exists [of regS i, OF this(2) v, of "min maxC maxS"]
      from False Some have "?ans = handshakeReply 1 version i (min maxC maxS)"
        by (auto simp: serverAnswer_def)
      then have "rc = newConnConfig regC version i (min maxC maxS)" "nc_in c' = tailC"
          "nc_out c' = nc_out c @ handshakeRequest codecsC maxC version"
        using runC s' roomC i client by auto
      moreover have "rs = newConnConfig regS version i (min maxC maxS)"
        using False Some rs by (auto simp: serverResult_def)
      ultimately show ?thesis
        using cfgs False Some s' by (auto simp: selectCodec_find)
    qed
  qed
qed

theorem handshake_agreement_witness:
  "\<exists>cfgS cfgC. fst (handshakeServer sampleCodecs (sampleConn\<lparr>nc_in := handshakeRequest [2, 1] 50 3\<rparr>) [1] 80 True) = Inr cfgS \<and>
     fst (handshakeClient sampleCodecs (sampleConn\<lparr>nc_in := handshakeReply 1 3 1 50\<rparr>) [2, 1] 50 3) = Inr cfgC \<and>
     cfg_codecID cfgS = 1 \<and> cfg_codecID cfgC = 1 \<and> cfg_maxFrame cfgS = 50 \<and> cfg_maxFrame cfgC = 50"
proof -
  let ?s = "handshakeServer sampleCodecs (sampleConn\<lparr>nc_in := handshakeRequest [2, 1] 50 3 @ []\<rparr>) [1] 80 True"
  let ?c = "handshakeClient sampleCodecs (sampleConn\<lparr>nc_in := nc_out (snd ?s) @ []\<rparr>) [2, 1] 50 3"
  have C: "validateCodecList sampleCodecs [2, 1] = None" and S: "validateCodecList sampleCodecs [1] = None"
    and v: "isSupportedProtocolVersion 3" and room: "nc_room sampleConn = None" and out: "nc_out sampleConn = []"
    by code_simp+
  have reply: "nc_out (snd ?s) @ [] = handshakeReply 1 3 1 50" by code_simp
  have ne: "\<not> ((3 :: byte) = protocolVersionV3 \<and> \<not> True)" by simp
  have f: "find (\<lambda>i. i \<in> set [1]) [2, 1 :: byte] = Some 1" by simp
  have m: "min 50 80 = (50 :: u32)" by code_simp
  from handshake_agreement [OF C S v room room out prod.collapse [symmetric] prod.collapse [symmetric],
      of 50 "[]" 80 True "[]"]
  show ?thesis unfolding reply f m by simp blast
qed

text \<open>C23. The server is safe against any client: whatever bytes arrive and whatever the writes do, a
  configuration it returns is well formed, its codec is one of the server's and is registered, its
  frame limit is at most the server's, and it is version 3 only with recovery enabled.\<close>

theorem handshake_server_safe:
  assumes "handshakeServer reg conn codecs maxFrame recoveryEnabled = (Inr cfg, conn')"
  shows "cfg_wf cfg \<and> cfg_codecID cfg \<in> set codecs \<and> cfg_codec cfg = reg (cfg_codecID cfg) \<and>
         reg (cfg_codecID cfg) \<noteq> None \<and> cfg_maxFrame cfg \<le> maxFrame \<and>
         (cfg_version cfg = protocolVersionV3 \<longrightarrow> recoveryEnabled)"
  using assms
  by (auto simp: handshakeServer_def Let_def negotiateMaxFrame_min isSupportedProtocolVersion_def
           split: option.splits prod.splits sum.splits if_splits
           dest!: newConnConfig_ok selectCodec_SomeD)

theorem handshake_server_safe_witness:
  "\<exists>cfg. fst (handshakeServer sampleCodecs (sampleConn\<lparr>nc_in := handshakeRequest [2, 1] 500 2\<rparr>) [1] 80 False) = Inr cfg \<and>
     cfg_codecID cfg \<in> set [1] \<and> cfg_maxFrame cfg \<le> 80"
proof -
  let ?s = "handshakeServer sampleCodecs (sampleConn\<lparr>nc_in := handshakeRequest [2, 1] 500 2\<rparr>) [1] 80 False"
  have "isl (fst ?s) = False" by code_simp
  then obtain cfg where r: "fst ?s = Inr cfg" by (cases "fst ?s") auto
  then have "?s = (Inr cfg, snd ?s)" by (metis prod.collapse)
  from handshake_server_safe [OF this] r show ?thesis by blast
qed

text \<open>The client does not check the frame limit in the reply against its own: it accepts any
  limit the server names, also one above what it advertised.\<close>

theorem handshake_client_trusts_limit:
  assumes "validateCodecList reg codecs = None" and "isSupportedProtocolVersion version"
    and "nc_room c = None" and "i \<in> set codecs"
    and "nc_in c = handshakeReply 1 version i limit @ tailS"
  shows "\<exists>cfg c'. handshakeClient reg c codecs maxFrame version = (Inr cfg, c') \<and>
           cfg_maxFrame cfg = limit"
proof -
  obtain k where "reg i = Some k" using validateCodecList_ok(3) [OF assms(1,4)] by blast
  from newConnConfig_exists [of reg i, OF this assms(2), of limit] show ?thesis
    using handshakeClient_reply [OF assms(1,2,3,5), of maxFrame] assms(4) by auto
qed

theorem handshake_client_trusts_limit_witness:
  "\<exists>cfg c'. handshakeClient sampleCodecs (sampleConn\<lparr>nc_in := handshakeReply 1 2 1 4000000000\<rparr>) [1] 50 2 = (Inr cfg, c') \<and>
     cfg_maxFrame cfg = 4000000000"
proof -
  let ?c = "sampleConn\<lparr>nc_in := handshakeReply 1 2 1 4000000000 @ []\<rparr>"
  have "validateCodecList sampleCodecs [1] = None" "isSupportedProtocolVersion 2" "nc_room ?c = None"
    by code_simp+
  from handshake_client_trusts_limit [OF this, of 1 4000000000 "[]" 50] show ?thesis by simp
qed

end
