(* ===== verification/Replay.thy ===== *)
theory Replay
  imports Frame
begin

text \<open>
  \<^verbatim>\<open>src/replay.go\<close>: the buffer of frames awaiting acknowledgement. \<open>rb_frames\<close> is the Go slice of
  pointers, so an entry below \<open>rb_head\<close> is \<open>None\<close> (nil); the kept frames are \<^verbatim>\<open>frames[head:]\<close>.
  Byte counts are int64 and written with the wrap-around. The mutex makes each method atomic, so
  each is one function from buffer to buffer. A kept entry is never nil (\<open>replay_ok\<close>); where the
  Go code would dereference a nil pointer, \<open>stage\<close> returns a panic and the loops stop.

  The locale \<open>replay_queue\<close> is the contract that the recovery writer relies on, over the list of
  kept frames; the buffer is interpreted as one.
\<close>

record outboundFrame =
  of_streamID :: u32
  of_seq :: u64
  of_flags :: FrameFlags
  of_payload :: bytes
  of_queued :: "nat option"
  of_closing :: "nat option"

record frameRecord =
  f_streamID :: u32
  f_seq :: u64
  f_flags :: FrameFlags
  f_payload :: bytes
  f_size :: int

record replayBuffer =
  rb_headerLen :: nat
  rb_maxBytes :: int
  rb_usedBytes :: int
  rb_lastAcked :: u64
  rb_frames :: "frameRecord option list"
  rb_head :: nat

definition newReplayBuffer :: "byte \<Rightarrow> int \<Rightarrow> replayBuffer" where
  "newReplayBuffer version maxBytes =
     \<lparr>rb_headerLen = (case frameHeaderLenForVersion version of Inl _ \<Rightarrow> frameHeaderLenV3 | Inr n \<Rightarrow> n),
      rb_maxBytes = maxBytes, rb_usedBytes = 0, rb_lastAcked = 0, rb_frames = [], rb_head = 0\<rparr>"

definition stage ::
    "replayBuffer \<Rightarrow> outboundFrame \<Rightarrow> u64 \<Rightarrow>
     frameRecord option \<times> bool \<times> go_error option \<times> replayBuffer" where
  "stage b frame seq =
     (let size = wrap64 (int (rb_headerLen b + length (of_payload frame))); n = length (rb_frames b)
      in if rb_maxBytes b > 0 \<and> wrap64 (rb_usedBytes b + size) > rb_maxBytes b then
           (if size \<le> rb_maxBytes b then (None, True, None, b)
            else (None, False, Some (ErrFrameTooLarge (int (length (of_payload frame)))), b))
         else if seq \<le> rb_lastAcked b then
           (None, False, Some (ErrInvalidMessage ''replay frame seq already acknowledged''), b)
         else if n > rb_head b \<and> rb_frames b ! (n - 1) = None then
           (None, False, Some (ErrPanic ''nil pointer dereference''), b)
         else if n > rb_head b \<and> seq \<le> f_seq (the (rb_frames b ! (n - 1))) then
           (None, False, Some (ErrInvalidMessage ''replay frame seq must increase monotonically''), b)
         else
           let record = \<lparr>f_streamID = of_streamID frame, f_seq = seq, f_flags = of_flags frame,
                         f_payload = of_payload frame, f_size = size\<rparr>
           in (Some record, False, None,
               b\<lparr>rb_frames := rb_frames b @ [Some record],
                 rb_usedBytes := wrap64 (rb_usedBytes b + size)\<rparr>))"

text \<open>The loop of \<^verbatim>\<open>ack\<close>: it clears the entries up to \<open>lastSeq\<close> and advances the head.\<close>

function ackLoop ::
    "u64 \<Rightarrow> frameRecord option list \<Rightarrow> nat \<Rightarrow> int \<Rightarrow> frameRecord option list \<times> nat \<times> int" where
  "ackLoop lastSeq frames head dropped =
     (if head < length frames then
        (case frames ! head of
           None \<Rightarrow> (frames, head, dropped)
         | Some r \<Rightarrow>
             if f_seq r \<le> lastSeq
             then ackLoop lastSeq (frames[head := None]) (Suc head) (wrap64 (dropped + f_size r))
             else (frames, head, dropped))
      else (frames, head, dropped))"
  by pat_completeness auto
termination
  by (relation "measure (\<lambda>(lastSeq, frames, head, dropped). length frames - head)") auto

declare ackLoop.simps [simp del]

definition ack :: "replayBuffer \<Rightarrow> u64 \<Rightarrow> int \<times> replayBuffer" where
  "ack b lastSeq =
     (if lastSeq = 0 \<or> lastSeq \<le> rb_lastAcked b then (0, b)
      else
        let (frames, head, dropped) = ackLoop lastSeq (rb_frames b) (rb_head b) 0;
            b' = b\<lparr>rb_lastAcked := lastSeq, rb_usedBytes := wrap64 (rb_usedBytes b - dropped)\<rparr>
        in (dropped,
            if head = length frames then b'\<lparr>rb_frames := [], rb_head := 0\<rparr>
            else if head > length frames div 2 then b'\<lparr>rb_frames := drop head frames, rb_head := 0\<rparr>
            else b'\<lparr>rb_frames := frames, rb_head := head\<rparr>))"

text \<open>\<^verbatim>\<open>sort.Search\<close>: binary search for the least index where \<open>f\<close> holds.\<close>

function sortSearch :: "(nat \<Rightarrow> bool) \<Rightarrow> nat \<Rightarrow> nat \<Rightarrow> nat" where
  "sortSearch f i j =
     (if i < j then
        let h = (i + j) div 2
        in if \<not> f h then sortSearch f (Suc h) j else sortSearch f i h
      else i)"
  by pat_completeness auto
termination
  by (relation "measure (\<lambda>(f, i, j). j - i)") auto

declare sortSearch.simps [simp del]

definition snapshotFrom :: "replayBuffer \<Rightarrow> u64 \<Rightarrow> frameRecord list" where
  "snapshotFrom b lastSeq =
     (let kept = drop (rb_head b) (rb_frames b);
          start = sortSearch (\<lambda>i. case kept ! i of None \<Rightarrow> False | Some r \<Rightarrow> f_seq r > lastSeq)
                    0 (length kept)
      in if start = length kept then [] else List.map_filter id (drop start kept))"

definition bytesUsed :: "replayBuffer \<Rightarrow> int" where
  "bytesUsed b = rb_usedBytes b"

definition replayCount :: "replayBuffer \<Rightarrow> nat" where
  "replayCount b = length (rb_frames b) - rb_head b"

definition lastAckedSeq :: "replayBuffer \<Rightarrow> u64" where
  "lastAckedSeq b = rb_lastAcked b"

section \<open>The contract\<close>

locale replay_queue =
  fixes invar :: "'b \<Rightarrow> bool"
    and contents :: "'b \<Rightarrow> frameRecord list"
    and acked :: "'b \<Rightarrow> u64"
    and fits :: "outboundFrame \<Rightarrow> bool"
    and put :: "'b \<Rightarrow> outboundFrame \<Rightarrow> u64 \<Rightarrow> frameRecord option \<times> bool \<times> go_error option \<times> 'b"
    and confirm :: "'b \<Rightarrow> u64 \<Rightarrow> 'b"
    and after :: "'b \<Rightarrow> u64 \<Rightarrow> frameRecord list"
  assumes contents_sorted: "invar b \<Longrightarrow> sorted_wrt (<) (map f_seq (contents b))"
    and contents_above: "invar b \<Longrightarrow> r \<in> set (contents b) \<Longrightarrow> acked b < f_seq r"
    and put_kept: "invar b \<Longrightarrow> fits fr \<Longrightarrow> put b fr s = (Some r, held, e, b') \<Longrightarrow>
          invar b' \<and> contents b' = contents b @ [r] \<and> acked b' = acked b \<and> \<not> held \<and> e = None \<and>
          f_seq r = s \<and> f_streamID r = of_streamID fr \<and> f_flags r = of_flags fr \<and>
          f_payload r = of_payload fr"
    and put_refused: "put b fr s = (None, held, e, b') \<Longrightarrow> b' = b \<and> (held \<longleftrightarrow> e = None)"
    and confirm_contents: "invar b \<Longrightarrow> contents (confirm b n) = filter (\<lambda>r. n < f_seq r) (contents b)"
    and confirm_acked: "invar b \<Longrightarrow> acked (confirm b n) = max (acked b) n"
    and confirm_invar: "invar b \<Longrightarrow> invar (confirm b n)"
    and after_contents: "invar b \<Longrightarrow> after b n = filter (\<lambda>r. n < f_seq r) (contents b)"
begin

lemma put_invar: "invar b \<Longrightarrow> fits fr \<Longrightarrow> put b fr s = (r, held, e, b') \<Longrightarrow> invar b'"
  using put_kept put_refused by (cases r) blast+

text \<open>A frame is kept only under a number above every acknowledged and every kept one.\<close>

lemma put_increases:
  assumes "invar b" "fits fr" and "put b fr s = (Some r, held, e, b')"
  shows "acked b < s \<and> (\<forall>x \<in> set (contents b). f_seq x < s)"
proof -
  from put_kept [OF assms] have b': "invar b'" "contents b' = contents b @ [r]"
    "acked b' = acked b" "f_seq r = s" by auto
  from contents_sorted [OF b'(1)] contents_above [OF b'(1), of r] b' show ?thesis
    by (auto simp: sorted_wrt_append)
qed

text \<open>Acknowledging up to \<open>n\<close> and reading what comes after \<open>n\<close> gives all that is left.\<close>

lemma after_confirm: "invar b \<Longrightarrow> after (confirm b n) n = contents (confirm b n)"
  by (simp add: after_contents confirm_invar confirm_contents)

lemma confirm_confirm:
  "invar b \<Longrightarrow> contents (confirm (confirm b m) n) = contents (confirm b (max m n))"
  by (auto simp: confirm_contents confirm_invar intro: filter_cong)

lemma contents_distinct: "invar b \<Longrightarrow> distinct (map f_seq (contents b))"
  using contents_sorted strict_sorted_iff by blast

end

section \<open>Kept frames and the buffer invariant\<close>

definition kept :: "replayBuffer \<Rightarrow> frameRecord list" where
  "kept b = List.map_filter id (drop (rb_head b) (rb_frames b))"

text \<open>The kept entries are records in increasing sequence above the last acknowledged number, the
  byte count is their total size and within the limit, and the slice is never more than half
  empty.\<close>

definition replay_ok :: "replayBuffer \<Rightarrow> bool" where
  "replay_ok b \<longleftrightarrow>
     rb_head b \<le> length (rb_frames b) div 2 \<and>
     drop (rb_head b) (rb_frames b) = map Some (kept b) \<and>
     sorted_wrt (<) (map f_seq (kept b)) \<and>
     (\<forall>r \<in> set (kept b). rb_lastAcked b < f_seq r) \<and>
     (\<forall>r \<in> set (kept b). f_size r = int (rb_headerLen b + length (f_payload r))) \<and>
     rb_usedBytes b = (\<Sum>r\<leftarrow>kept b. f_size r) \<and>
     0 < rb_maxBytes b \<and> rb_maxBytes b < 2 ^ 62 \<and> rb_usedBytes b \<le> rb_maxBytes b \<and>
     int (rb_headerLen b) \<le> 18"

lemma map_filter_id_map_Some [simp]: "List.map_filter id (map Some xs) = xs"
  by (induction xs) (simp_all add: List.map_filter_def)

lemma newReplayBuffer_ok:
  assumes "0 < maxBytes" "maxBytes < 2 ^ 62"
  shows "replay_ok (newReplayBuffer version maxBytes)" "kept (newReplayBuffer version maxBytes) = []"
  using assms
  by (auto simp: newReplayBuffer_def replay_ok_def kept_def List.map_filter_def
        frameHeaderLenForVersion_def frameHeaderLen_def frameHeaderLenV3_def split: sum.split)

lemma sizes_nonneg:
  "replay_ok b \<Longrightarrow> 0 \<le> (\<Sum>r\<leftarrow>kept b. f_size r)"
  by (rule sum_list_nonneg) (auto simp: replay_ok_def)

lemma last_kept:
  assumes "replay_ok b" and "rb_head b < length (rb_frames b)"
  shows "rb_frames b ! (length (rb_frames b) - 1) = Some (last (kept b)) \<and> kept b \<noteq> []"
proof -
  let ?d = "drop (rb_head b) (rb_frames b)"
  have d: "?d = map Some (kept b)" using assms by (simp add: replay_ok_def)
  have ne: "kept b \<noteq> []" using assms(2) arg_cong [OF d, of length] by auto
  have "rb_frames b ! (length (rb_frames b) - 1) = last ?d"
    using assms(2) by (simp add: last_conv_nth)
  with d ne show ?thesis by (simp add: last_map)
qed

text \<open>A Go slice is never as long as \<open>2 ^ 62\<close> bytes, so the byte counts do not wrap.\<close>

lemma stage_size:
  assumes "replay_ok b" and "length (of_payload frame) < 2 ^ 61"
  shows "wrap64 (int (rb_headerLen b + length (of_payload frame))) =
           int (rb_headerLen b + length (of_payload frame))"
    and "wrap64 (rb_usedBytes b + int (rb_headerLen b + length (of_payload frame))) =
           rb_usedBytes b + int (rb_headerLen b + length (of_payload frame))"
  using assms sizes_nonneg [OF assms(1)]
  by (auto simp: replay_ok_def int64_ok_def intro!: wrap64_id)

lemma stage_kept_raw:
  assumes ok: "replay_ok b" and len: "length (of_payload frame) < 2 ^ 61"
    and S: "stage b frame seq = (Some r, held, e, b')"
  shows "replay_ok b' \<and> kept b' = kept b @ [r] \<and> rb_lastAcked b' = rb_lastAcked b \<and>
         \<not> held \<and> e = None \<and> f_seq r = seq \<and> f_streamID r = of_streamID frame \<and>
         f_flags r = of_flags frame \<and> f_payload r = of_payload frame"
proof -
  let ?size = "int (rb_headerLen b + length (of_payload frame))"
  have fits: "rb_usedBytes b + ?size \<le> rb_maxBytes b"
    and above: "rb_lastAcked b < seq"
    and last: "rb_head b < length (rb_frames b) \<Longrightarrow> f_seq (last (kept b)) < seq"
    and r: "r = \<lparr>f_streamID = of_streamID frame, f_seq = seq, f_flags = of_flags frame,
                 f_payload = of_payload frame, f_size = ?size\<rparr>" "\<not> held" "e = None"
    and b': "b' = b\<lparr>rb_frames := rb_frames b @ [Some r], rb_usedBytes := rb_usedBytes b + ?size\<rparr>"
    using S last_kept [OF ok] ok unfolding stage_def stage_size [OF ok len] Let_def
    by (auto simp: not_le not_less replay_ok_def split: if_splits)
  have head: "rb_head b \<le> length (rb_frames b)"
    using ok unfolding replay_ok_def by linarith
  have d: "drop (rb_head b) (rb_frames b) = map Some (kept b)"
    using ok by (simp add: replay_ok_def)
  have k: "kept b' = kept b @ [r]"
    unfolding kept_def [of b'] using head d b' map_filter_id_map_Some [of "kept b @ [r]"] by simp
  have top: "\<forall>x \<in> set (kept b). f_seq x < seq"
  proof
    fix x assume x: "x \<in> set (kept b)"
    then have "rb_head b < length (rb_frames b)"
      using arg_cong [OF d, of length] by (cases "kept b") auto
    moreover have "f_seq x \<le> f_seq (last (kept b))"
      using x ok by (cases "kept b" rule: rev_cases) (auto simp: replay_ok_def sorted_wrt_append)
    ultimately show "f_seq x < seq" using last by simp
  qed
  have "replay_ok b'"
    using ok k top above fits head d unfolding replay_ok_def
    by (auto simp: b' r sorted_wrt_append)
  with k b' r show ?thesis by simp
qed

lemma stage_refused:
  "stage b frame seq = (None, held, e, b') \<Longrightarrow> b' = b \<and> (held \<longleftrightarrow> e = None)"
  by (auto simp: stage_def Let_def split: if_splits)

section \<open>Acknowledgement\<close>

lemma ackLoop_spec:
  assumes "drop head frames = map Some ks" and "head \<le> length frames"
    and "sorted_wrt (<) (map f_seq ks)" and "\<forall>r \<in> set ks. 0 \<le> f_size r"
    and "0 \<le> dropped" "dropped + (\<Sum>r\<leftarrow>ks. f_size r) < 2 ^ 63"
  shows "\<exists>frames' head'. ackLoop lastSeq frames head dropped =
           (frames', head', dropped + (\<Sum>r\<leftarrow>takeWhile (\<lambda>r. f_seq r \<le> lastSeq) ks. f_size r)) \<and>
         length frames' = length frames \<and> head' \<le> length frames \<and>
         drop head' frames' = map Some (dropWhile (\<lambda>r. f_seq r \<le> lastSeq) ks)"
  using assms
proof (induction ks arbitrary: frames head dropped)
  case Nil
  then have "head = length frames" by simp
  then show ?case by (subst ackLoop.simps) simp
next
  case (Cons k ks)
  then have lt: "head < length frames" by (metis drop_all leI list.distinct(1) list.simps(9))
  with Cons.prems(1) have k: "frames ! head = Some k" and rest: "drop (Suc head) frames = map Some ks"
    by (simp_all add: Cons_nth_drop_Suc [symmetric])
  show ?case
  proof (cases "f_seq k \<le> lastSeq")
    case False
    with lt k Cons.prems show ?thesis by (subst ackLoop.simps) simp
  next
    case True
    have nn: "0 \<le> (\<Sum>r\<leftarrow>ks. f_size r)" using Cons.prems(4) by (intro sum_list_nonneg) auto
    then have w: "wrap64 (dropped + f_size k) = dropped + f_size k"
      using Cons.prems(4-6) by (intro wrap64_id) (simp add: int64_ok_def)
    have "drop (Suc head) (frames[head := None]) = map Some ks"
      using rest by simp
    from Cons.IH [OF this, of "dropped + f_size k"] Cons.prems lt True k w show ?thesis
      by (subst ackLoop.simps) (simp add: add.assoc)
  qed
qed

lemma dropWhile_sorted:
  assumes "sorted_wrt (<) (map f xs)"
  shows "dropWhile (\<lambda>r. f r \<le> (n :: 'a :: linorder)) xs = filter (\<lambda>r. n < f r) xs"
  using assms
proof (induction xs)
  case (Cons x xs)
  then show ?case by (force simp: filter_id_conv not_le intro!: filter_True [symmetric])
qed simp

lemma sum_take_drop_While:
  "(\<Sum>r\<leftarrow>xs. f r) = (\<Sum>r\<leftarrow>takeWhile P xs. f r) + (\<Sum>r\<leftarrow>dropWhile P xs. (f r :: int))"
  by (metis map_append sum_list_append takeWhile_dropWhile_id)

lemma ack_noop:
  assumes "replay_ok b" and "lastSeq = 0 \<or> lastSeq \<le> rb_lastAcked b"
  shows "ack b lastSeq = (0, b)" "filter (\<lambda>r. lastSeq < f_seq r) (kept b) = kept b"
    "max (rb_lastAcked b) lastSeq = rb_lastAcked b"
proof -
  have "lastSeq \<le> rb_lastAcked b" using assms(2) by auto
  then show "filter (\<lambda>r. lastSeq < f_seq r) (kept b) = kept b"
    using assms(1) by (auto simp: replay_ok_def filter_id_conv intro: le_less_trans)
  from assms(2) show "ack b lastSeq = (0, b)" by (simp add: ack_def)
  from \<open>lastSeq \<le> rb_lastAcked b\<close> show "max (rb_lastAcked b) lastSeq = rb_lastAcked b"
    by (simp add: max_def)
qed

lemma ack_spec:
  assumes ok: "replay_ok b"
  shows "replay_ok (snd (ack b lastSeq)) \<and>
         kept (snd (ack b lastSeq)) = filter (\<lambda>r. lastSeq < f_seq r) (kept b) \<and>
         rb_lastAcked (snd (ack b lastSeq)) = max (rb_lastAcked b) lastSeq \<and>
         fst (ack b lastSeq) = (\<Sum>r\<leftarrow>kept b. f_size r) - (\<Sum>r\<leftarrow>kept (snd (ack b lastSeq)). f_size r) \<and>
         rb_maxBytes (snd (ack b lastSeq)) = rb_maxBytes b \<and>
         rb_headerLen (snd (ack b lastSeq)) = rb_headerLen b"
proof (cases "lastSeq = 0 \<or> lastSeq \<le> rb_lastAcked b")
  case True
  with ack_noop [OF ok True] ok show ?thesis by simp
next
  case False
  let ?P = "\<lambda>r. f_seq r \<le> lastSeq"
  let ?b = "snd (ack b lastSeq)"
  have nn: "\<forall>r \<in> set (kept b). 0 \<le> f_size r" using ok by (auto simp: replay_ok_def)
  have sorted: "sorted_wrt (<) (map f_seq (kept b))" and head: "rb_head b \<le> length (rb_frames b)"
    and small: "(\<Sum>r\<leftarrow>kept b. f_size r) < 2 ^ 62"
    using ok by (auto simp: replay_ok_def)
  obtain frames head dropped where
    L: "ackLoop lastSeq (rb_frames b) (rb_head b) 0 = (frames, head, dropped)"
    and dropped: "dropped = (\<Sum>r\<leftarrow>takeWhile ?P (kept b). f_size r)"
    and h: "head \<le> length frames" and d: "drop head frames = map Some (dropWhile ?P (kept b))"
    using ackLoop_spec [of "rb_head b" "rb_frames b" "kept b" 0 lastSeq] ok sorted head nn small
    by (force simp: replay_ok_def)
  have "drop (rb_head ?b) (rb_frames ?b) = drop head frames"
    using False L h by (auto simp: ack_def Let_def)
  then have k: "kept ?b = dropWhile ?P (kept b)"
    unfolding kept_def [of ?b] d by simp
  have total: "(\<Sum>r\<leftarrow>kept b. f_size r) = dropped + (\<Sum>r\<leftarrow>kept ?b. f_size r)"
    using sum_take_drop_While [of f_size "kept b" ?P] dropped k by simp
  have nn': "0 \<le> dropped" "0 \<le> (\<Sum>r\<leftarrow>kept ?b. f_size r)"
    unfolding dropped k using nn
    by (auto intro!: sum_list_nonneg) (metis set_takeWhileD set_dropWhileD)+
  have "wrap64 (rb_usedBytes b - dropped) = rb_usedBytes b - dropped"
    using ok total nn' small by (intro wrap64_id) (simp add: int64_ok_def replay_ok_def)
  then have fields: "rb_usedBytes ?b = rb_usedBytes b - dropped" "rb_lastAcked ?b = lastSeq"
      "rb_maxBytes ?b = rb_maxBytes b" "rb_headerLen ?b = rb_headerLen b"
      "fst (ack b lastSeq) = dropped" "rb_head ?b \<le> length (rb_frames ?b) div 2"
      "drop (rb_head ?b) (rb_frames ?b) = map Some (kept ?b)"
    using False L d h k by (auto simp: ack_def Let_def)
  have filt: "kept ?b = filter (\<lambda>r. lastSeq < f_seq r) (kept b)"
    using dropWhile_sorted [OF sorted, of lastSeq] k by simp
  have "replay_ok ?b"
    using ok fields nn' total sorted filt unfolding replay_ok_def
    by (auto simp: sorted_wrt_map intro: sorted_wrt_filter)
  moreover have "max (rb_lastAcked b) lastSeq = lastSeq" using False by (auto simp: max_def)
  ultimately show ?thesis using filt fields total by simp
qed

section \<open>Binary search\<close>

lemma sortSearch_spec:
  assumes "i \<le> j" and "\<And>a b. a \<le> b \<Longrightarrow> b < n \<Longrightarrow> f a \<Longrightarrow> f b" and "j \<le> n"
    and "\<And>a. a < i \<Longrightarrow> \<not> f a" and "\<And>a. j \<le> a \<Longrightarrow> a < n \<Longrightarrow> f a"
  shows "sortSearch f i j \<le> n \<and> (\<forall>a < n. f a \<longleftrightarrow> sortSearch f i j \<le> a)"
  using assms
proof (induction f i j rule: sortSearch.induct)
  case (1 f i j)
  show ?case
  proof (cases "i < j")
    case False
    with "1.prems" show ?thesis
      by (subst (1 2) sortSearch.simps) (auto simp: not_less intro: leI)
  next
    case True
    let ?h = "(i + j) div 2"
    have h: "i \<le> ?h" "?h < j" using True by auto
    show ?thesis
    proof (cases "f ?h")
      case f: True
      have "sortSearch f i j = sortSearch f i ?h" using True f by (subst sortSearch.simps) (simp add: Let_def)
      moreover have "sortSearch f i ?h \<le> n \<and> (\<forall>a < n. f a \<longleftrightarrow> sortSearch f i ?h \<le> a)"
        using h f "1.prems" by (intro "1.IH"(2) [OF True refl]) (auto intro: "1.prems"(2))
      ultimately show ?thesis by simp
    next
      case f: False
      have "sortSearch f i j = sortSearch f (Suc ?h) j"
        using True f by (subst sortSearch.simps) (simp add: Let_def)
      moreover have "sortSearch f (Suc ?h) j \<le> n \<and> (\<forall>a < n. f a \<longleftrightarrow> sortSearch f (Suc ?h) j \<le> a)"
        using h f "1.prems" by (intro "1.IH"(1) [OF True refl]) (auto dest: "1.prems"(2) simp: less_Suc_eq_le)
      ultimately show ?thesis by simp
    qed
  qed
qed

lemma filter_drop_split:
  assumes "s \<le> length xs" and "\<forall>a < length xs. P (xs ! a) \<longleftrightarrow> s \<le> a"
  shows "filter P xs = drop s xs"
proof -
  have "filter P (take s xs) = []" and "filter P (drop s xs) = drop s xs"
    using assms by (auto simp: filter_empty_conv filter_id_conv in_set_conv_nth)
  then show ?thesis by (metis append_Nil append_take_drop_id filter_append)
qed

lemma snapshotFrom_spec:
  assumes ok: "replay_ok b"
  shows "snapshotFrom b lastSeq = filter (\<lambda>r. lastSeq < f_seq r) (kept b)"
proof -
  let ?k = "drop (rb_head b) (rb_frames b)"
  let ?f = "\<lambda>i. case ?k ! i of None \<Rightarrow> False | Some r \<Rightarrow> f_seq r > lastSeq"
  let ?s = "sortSearch ?f 0 (length ?k)"
  have k: "?k = map Some (kept b)" and sorted: "sorted_wrt (<) (map f_seq (kept b))"
    using ok by (simp_all add: replay_ok_def)
  have f: "?f i = (lastSeq < f_seq (kept b ! i))" if "i < length (kept b)" for i
    using that k by simp
  have mono: "a \<le> c \<Longrightarrow> c < length (kept b) \<Longrightarrow> f_seq (kept b ! a) \<le> f_seq (kept b ! c)" for a c
    using sorted by (cases "a = c") (auto simp: sorted_wrt_iff_nth_less less_imp_le)
  have "?s \<le> length ?k \<and> (\<forall>a < length ?k. ?f a \<longleftrightarrow> ?s \<le> a)"
    using k f mono by (intro sortSearch_spec) (auto intro: less_le_trans)
  then have "filter (\<lambda>r. lastSeq < f_seq r) (kept b) = drop ?s (kept b)"
    using k f by (intro filter_drop_split) auto
  moreover have "snapshotFrom b lastSeq = drop ?s (kept b)"
    using k by (simp add: snapshotFrom_def Let_def drop_map)
  ultimately show ?thesis by simp
qed

section \<open>The buffer is a replay queue\<close>

text \<open>A payload that a Go slice can hold.\<close>

definition payload_fits :: "outboundFrame \<Rightarrow> bool" where
  "payload_fits frame \<longleftrightarrow> length (of_payload frame) < 2 ^ 61"

interpretation rq: replay_queue
  replay_ok kept rb_lastAcked payload_fits stage "\<lambda>b n. snd (ack b n)" snapshotFrom
proof (unfold_locales, goal_cases)
  case (1 b)
  then show ?case by (simp add: replay_ok_def)
next
  case (2 b r)
  then show ?case by (simp add: replay_ok_def)
next
  case (3 b fr s r held e b')
  then show ?case using stage_kept_raw [of b fr s r held e b'] by (simp add: payload_fits_def)
next
  case (4 b fr s held e b')
  then show ?case by (rule stage_refused)
next
  case (5 b n)
  then show ?case by (simp add: ack_spec)
next
  case (6 b n)
  then show ?case by (simp add: ack_spec)
next
  case (7 b n)
  then show ?case by (simp add: ack_spec)
next
  case (8 b n)
  then show ?case by (rule snapshotFrom_spec)
qed

section \<open>Histories\<close>

text \<open>A run of the buffer: an arbitrary interleaving of \<^verbatim>\<open>stage\<close> and \<^verbatim>\<open>ack\<close> calls. The first
  component collects every record that \<^verbatim>\<open>stage\<close> kept, in order.\<close>

datatype replayOp = OpStage outboundFrame u64 | OpAck u64

fun replayRun :: "replayOp list \<Rightarrow> frameRecord list \<times> replayBuffer \<Rightarrow> frameRecord list \<times> replayBuffer" where
  "replayRun [] h = h"
| "replayRun (OpStage frame seq # ops) (hist, b) =
     (case stage b frame seq of
        (None, _, _, b') \<Rightarrow> replayRun ops (hist, b')
      | (Some r, _, _, b') \<Rightarrow> replayRun ops (hist @ [r], b'))"
| "replayRun (OpAck n # ops) (hist, b) = replayRun ops (hist, snd (ack b n))"

fun op_fits :: "replayOp \<Rightarrow> bool" where
  "op_fits (OpStage frame seq) \<longleftrightarrow> payload_fits frame"
| "op_fits (OpAck n) \<longleftrightarrow> True"

definition hist_ok :: "frameRecord list \<times> replayBuffer \<Rightarrow> bool" where
  "hist_ok h \<longleftrightarrow> replay_ok (snd h) \<and>
     kept (snd h) = filter (\<lambda>r. rb_lastAcked (snd h) < f_seq r) (fst h)"

lemma hist_ok_stage:
  assumes "hist_ok (hist, b)" "payload_fits frame" and S: "stage b frame seq = (Some r, held, e, b')"
  shows "hist_ok (hist @ [r], b')"
proof -
  have ok: "replay_ok b" using assms(1) by (simp add: hist_ok_def)
  from rq.put_kept [OF ok assms(2) S] rq.put_increases [OF ok assms(2) S] assms(1)
  show ?thesis by (simp add: hist_ok_def)
qed

lemma hist_ok_ack: "hist_ok (hist, b) \<Longrightarrow> hist_ok (hist, snd (ack b n))"
  by (auto simp: hist_ok_def rq.confirm_contents rq.confirm_invar rq.confirm_acked intro: filter_cong)

lemma replayRun_ok:
  "hist_ok h \<Longrightarrow> list_all op_fits ops \<Longrightarrow> hist_ok (replayRun ops h)"
proof (induction ops h rule: replayRun.induct)
  case (2 frame seq ops hist b)
  obtain r held e b' where S: "stage b frame seq = (r, held, e, b')" by (cases "stage b frame seq")
  show ?case
  proof (cases r)
    case None
    with S have "b' = b" using rq.put_refused [of b frame seq held e b'] by simp
    with "2.IH"(1) [OF S [symmetric] None refl refl] "2.prems" S None show ?thesis by simp
  next
    case (Some x)
    with hist_ok_stage [of hist b frame seq x held e b'] "2.IH"(2) [OF S [symmetric] Some refl refl]
      "2.prems" S show ?thesis by simp
  qed
qed (auto simp: hist_ok_ack)

lemma replayRun_maxBytes:
  "rb_maxBytes (snd (replayRun ops h)) = rb_maxBytes (snd h)"
proof (induction ops h rule: replayRun.induct)
  case (2 frame seq ops hist b)
  obtain r held e b' where S: "stage b frame seq = (r, held, e, b')" by (cases "stage b frame seq")
  then have "rb_maxBytes b' = rb_maxBytes b"
    by (auto simp: stage_def Let_def split: if_splits)
  with S "2.IH"(1) [OF S [symmetric] _ refl refl] "2.IH"(2) [OF S [symmetric] _ refl refl]
  show ?case by (cases r) simp_all
next
  case (3 n ops hist b)
  then show ?case by (simp add: ack_def Let_def split: prod.split)
qed simp

lemma newReplayBuffer_hist:
  assumes "0 < maxBytes" "maxBytes < 2 ^ 62"
  shows "hist_ok ([], newReplayBuffer version maxBytes)"
  using newReplayBuffer_ok [OF assms] by (simp add: hist_ok_def)

text \<open>A frame of two bytes and a run with two frames and an acknowledgement, for examples.\<close>

definition smallFrame :: outboundFrame where
  "smallFrame = \<lparr>of_streamID = 1, of_seq = 0, of_flags = 0, of_payload = [8, 9], of_queued = None, of_closing = None\<rparr>"

definition sampleOps :: "replayOp list" where
  "sampleOps = [OpStage smallFrame 1, OpStage smallFrame 2, OpAck 1, OpStage smallFrame 3]"

section \<open>Properties\<close>

text \<open>C20. Nothing that awaits acknowledgement is lost or invented: after any interleaving of stage and
  ack calls on a new buffer, a snapshot from any sequence number is exactly the frames ever kept,
  in the order they were kept, whose number is above both that number and the highest acknowledged
  one. The binary search, the nil entries and the compaction do not show.\<close>

theorem replay_snapshot_history:
  assumes "0 < maxBytes" "maxBytes < 2 ^ 62" and "list_all op_fits ops"
    and "replayRun ops ([], newReplayBuffer version maxBytes) = (hist, b)"
  shows "snapshotFrom b n = filter (\<lambda>r. max n (lastAckedSeq b) < f_seq r) hist"
proof -
  have "hist_ok (hist, b)"
    using replayRun_ok [OF newReplayBuffer_hist [OF assms(1,2)] assms(3)] assms(4) by metis
  then show ?thesis
    by (auto simp: hist_ok_def rq.after_contents lastAckedSeq_def intro: filter_cong)
qed

theorem replay_snapshot_history_witness:
  "map f_seq (snapshotFrom (snd (replayRun sampleOps ([], newReplayBuffer 3 1000))) 0) = [2, 3] \<and>
   snapshotFrom (snd (replayRun sampleOps ([], newReplayBuffer 3 1000))) 2 =
     filter (\<lambda>r. max 2 (lastAckedSeq (snd (replayRun sampleOps ([], newReplayBuffer 3 1000)))) < f_seq r)
       (fst (replayRun sampleOps ([], newReplayBuffer 3 1000)))"
proof -
  have ops: "list_all op_fits sampleOps" by (simp add: sampleOps_def payload_fits_def smallFrame_def)
  have "map f_seq (snapshotFrom (snd (replayRun sampleOps ([], newReplayBuffer 3 1000))) 0) = [2, 3]" by code_simp
  with replay_snapshot_history [OF _ _ ops prod.collapse [symmetric], of 1000 3 2] show ?thesis by simp
qed

text \<open>C21. The memory bound: after any interleaving of calls, the byte count is the total size of the
  frames kept and never above the limit, and the slice behind them is at most twice as long as
  there are frames.\<close>

theorem replay_memory_bound:
  assumes "0 < maxBytes" "maxBytes < 2 ^ 62" and "list_all op_fits ops"
    and "replayRun ops ([], newReplayBuffer version maxBytes) = (hist, b)"
  shows "bytesUsed b = (\<Sum>r\<leftarrow>snapshotFrom b 0. int (rb_headerLen b + length (f_payload r))) \<and>
         bytesUsed b \<le> maxBytes \<and> length (rb_frames b) \<le> 2 * replayCount b"
proof -
  have h: "hist_ok (hist, b)"
    using replayRun_ok [OF newReplayBuffer_hist [OF assms(1,2)] assms(3)] assms(4) by metis
  then have ok: "replay_ok b" by (simp add: hist_ok_def)
  have "rb_maxBytes b = maxBytes"
    using replayRun_maxBytes [of ops "([], newReplayBuffer version maxBytes)"] assms(4)
    by (simp add: newReplayBuffer_def)
  moreover have "snapshotFrom b 0 = kept b"
    using rq.contents_above [OF ok]
    by (auto simp: rq.after_contents [OF ok] filter_id_conv intro: le_less_trans [OF word_zero_le])
  moreover have "(\<Sum>r\<leftarrow>kept b. f_size r) = (\<Sum>r\<leftarrow>kept b. int (rb_headerLen b + length (f_payload r)))"
    using ok by (intro arg_cong [where f = sum_list] map_cong) (simp_all add: replay_ok_def)
  moreover have "length (rb_frames b) \<le> 2 * (length (rb_frames b) - rb_head b)"
    using ok by (simp add: replay_ok_def) linarith
  ultimately show ?thesis
    using ok by (simp add: replay_ok_def bytesUsed_def replayCount_def)
qed

theorem replay_memory_bound_witness:
  "bytesUsed (snd (replayRun sampleOps ([], newReplayBuffer 3 1000))) = 40 \<and>
   bytesUsed (snd (replayRun sampleOps ([], newReplayBuffer 3 1000))) \<le> 1000"
proof -
  have ops: "list_all op_fits sampleOps" by (simp add: sampleOps_def payload_fits_def smallFrame_def)
  have "bytesUsed (snd (replayRun sampleOps ([], newReplayBuffer 3 1000))) = 40" by code_simp
  with replay_memory_bound [OF _ _ ops prod.collapse [symmetric], of 1000 3] show ?thesis by simp
qed

text \<open>A frame is held back only for want of room that acknowledgements give back: once every kept
  frame is acknowledged, the frame that was held is kept under the next sequence number. A frame
  that can never fit is refused as too large instead.\<close>

theorem replay_held_then_kept:
  assumes ok: "replay_ok b" and fit: "payload_fits frame"
    and S: "stage b frame seq = (None, True, e, b')"
    and ack: "\<forall>r \<in> set (kept b). f_seq r \<le> n" and seq: "n < seq" "rb_lastAcked b < seq"
  shows "e = None \<and> b' = b \<and>
         (\<exists>r b''. stage (snd (ack b n)) frame seq = (Some r, False, None, b'') \<and>
            kept b'' = [r] \<and> f_seq r = seq \<and> f_payload r = of_payload frame)"
proof -
  let ?b = "snd (ack b n)"
  have k: "kept ?b = []" using ack by (simp add: rq.confirm_contents [OF ok] filter_empty_conv not_less)
  have ok': "replay_ok ?b" and acked: "rb_lastAcked ?b = max (rb_lastAcked b) n"
    and same: "rb_maxBytes ?b = rb_maxBytes b" "rb_headerLen ?b = rb_headerLen b"
    using ack_spec [OF ok, of n] by auto
  from S have eb: "e = None \<and> b' = b" using rq.put_refused by blast
  have fits: "int (rb_headerLen b + length (of_payload frame)) \<le> rb_maxBytes b"
    using S fit stage_size [OF ok, of frame]
    by (auto simp: stage_def payload_fits_def Let_def split: if_splits)
  have used: "rb_usedBytes ?b = 0" using ok' k by (simp add: replay_ok_def)
  have "\<not> rb_head ?b < length (rb_frames ?b)"
    using last_kept [OF ok'] k by blast
  moreover have "\<not> seq \<le> rb_lastAcked ?b" using acked seq by (simp add: not_le)
  ultimately obtain r b'' where S': "stage ?b frame seq = (Some r, False, None, b'')"
    using fits used same fit stage_size [OF ok', of frame]
    by (simp add: stage_def payload_fits_def Let_def)
  with rq.put_kept [OF ok' fit S'] k have "kept b'' = [r] \<and> f_seq r = seq \<and> f_payload r = of_payload frame"
    by simp
  with eb S' show ?thesis by blast
qed

theorem replay_held_then_kept_witness:
  "\<exists>r b''. stage (snd (ack (snd (replayRun [OpStage smallFrame 1] ([], newReplayBuffer 3 30))) 1)) smallFrame 2 =
       (Some r, False, None, b'') \<and> kept b'' = [r] \<and> f_seq r = 2"
proof -
  let ?b = "snd (replayRun [OpStage smallFrame 1] ([], newReplayBuffer 3 30))"
  have fit: "payload_fits smallFrame" by (simp add: payload_fits_def smallFrame_def)
  have "hist_ok (replayRun [OpStage smallFrame 1] ([], newReplayBuffer 3 30))"
    by (rule replayRun_ok) (simp_all add: newReplayBuffer_hist fit)
  then have ok: "replay_ok ?b" by (simp add: hist_ok_def)
  have S: "stage ?b smallFrame 2 = (None, True, None, ?b)" by code_simp
  have a: "\<forall>r \<in> set (kept ?b). f_seq r \<le> 1" and s: "(1 :: u64) < 2" "rb_lastAcked ?b < 2" by code_simp+
  from replay_held_then_kept [OF ok fit S a s] show ?thesis by blast
qed

end
