(* ===== verification/Recovery_Options.thy ===== *)
theory Recovery_Options
  imports Handshake
begin

text \<open>
  \<^verbatim>\<open>src/recovery.go\<close> and the conversion of the negotiated options of
  \<^verbatim>\<open>src/recovery_protocol.go\<close>. A \<^verbatim>\<open>time.Duration\<close> is an int64 number of nanoseconds: an \<open>int\<close>
  whose products are written with \<open>wrap64\<close>.
\<close>

type_synonym Duration = int

definition Millisecond :: Duration where
  "Millisecond = 1000000"

definition Second :: Duration where
  "Second = 1000000000"

record ClientRecoveryOptions =
  co_Enable :: bool
  co_ReconnectMinBackoff :: Duration
  co_ReconnectMaxBackoff :: Duration
  co_MaxReplayBytes :: int

record ServerRecoveryOptions =
  so_Enable :: bool
  so_DetachedTTL :: Duration
  so_MaxReplayBytes :: int
  so_AckEvery :: u32
  so_AckDelay :: Duration
  so_HeartbeatInterval :: Duration
  so_HeartbeatTimeout :: Duration

record negotiatedRecoveryOptions =
  no_AckEvery :: u32
  no_AckDelay :: Duration
  no_HeartbeatInterval :: Duration
  no_HeartbeatTimeout :: Duration

definition defaultClientRecoveryOptions :: ClientRecoveryOptions where
  "defaultClientRecoveryOptions =
     \<lparr>co_Enable = False, co_ReconnectMinBackoff = 100 * Millisecond,
      co_ReconnectMaxBackoff = 2 * Second, co_MaxReplayBytes = 2 * uint defaultMaxFrame\<rparr>"

definition defaultServerRecoveryOptions :: ServerRecoveryOptions where
  "defaultServerRecoveryOptions =
     \<lparr>so_Enable = False, so_DetachedTTL = 30 * Second, so_MaxReplayBytes = 2 * uint defaultMaxFrame,
      so_AckEvery = 64, so_AckDelay = 20 * Millisecond, so_HeartbeatInterval = 30 * Second,
      so_HeartbeatTimeout = 90 * Second\<rparr>"

text \<open>The idiom \<^verbatim>\<open>if x <= 0 { x = def }\<close> of the three \<^verbatim>\<open>normalized\<close> methods.\<close>

definition orDefault :: "int \<Rightarrow> int \<Rightarrow> int" where
  "orDefault x def = (if x \<le> 0 then def else x)"

definition normalizedClient :: "ClientRecoveryOptions \<Rightarrow> ClientRecoveryOptions" where
  "normalizedClient opts =
     (let def = defaultClientRecoveryOptions;
          o1 = opts\<lparr>co_ReconnectMinBackoff :=
                   orDefault (co_ReconnectMinBackoff opts) (co_ReconnectMinBackoff def)\<rparr>;
          o2 = o1\<lparr>co_ReconnectMaxBackoff :=
                   orDefault (co_ReconnectMaxBackoff o1) (co_ReconnectMaxBackoff def)\<rparr>;
          o3 = (if co_ReconnectMaxBackoff o2 < co_ReconnectMinBackoff o2
                then o2\<lparr>co_ReconnectMaxBackoff := co_ReconnectMinBackoff o2\<rparr> else o2)
      in o3\<lparr>co_MaxReplayBytes := orDefault (co_MaxReplayBytes o3) (co_MaxReplayBytes def)\<rparr>)"

definition normalizedServer :: "ServerRecoveryOptions \<Rightarrow> ServerRecoveryOptions" where
  "normalizedServer opts =
     (let def = defaultServerRecoveryOptions;
          o1 = opts\<lparr>
            so_DetachedTTL := orDefault (so_DetachedTTL opts) (so_DetachedTTL def),
            so_MaxReplayBytes := orDefault (so_MaxReplayBytes opts) (so_MaxReplayBytes def),
            so_AckEvery := (if so_AckEvery opts = 0 then so_AckEvery def else so_AckEvery opts),
            so_AckDelay := orDefault (so_AckDelay opts) (so_AckDelay def),
            so_HeartbeatInterval := orDefault (so_HeartbeatInterval opts) (so_HeartbeatInterval def),
            so_HeartbeatTimeout := orDefault (so_HeartbeatTimeout opts) (so_HeartbeatTimeout def)\<rparr>;
          minTimeout = wrap64 (2 * so_HeartbeatInterval o1)
      in if so_HeartbeatTimeout o1 < minTimeout then o1\<lparr>so_HeartbeatTimeout := minTimeout\<rparr> else o1)"

definition negotiated :: "ServerRecoveryOptions \<Rightarrow> negotiatedRecoveryOptions" where
  "negotiated opts =
     (let n = normalizedServer opts
      in \<lparr>no_AckEvery = so_AckEvery n, no_AckDelay = so_AckDelay n,
          no_HeartbeatInterval = so_HeartbeatInterval n, no_HeartbeatTimeout = so_HeartbeatTimeout n\<rparr>)"

definition normalizedNegotiated :: "negotiatedRecoveryOptions \<Rightarrow> negotiatedRecoveryOptions" where
  "normalizedNegotiated opts =
     (let def = negotiated defaultServerRecoveryOptions;
          o1 = opts\<lparr>
            no_AckEvery := (if no_AckEvery opts = 0 then no_AckEvery def else no_AckEvery opts),
            no_AckDelay := orDefault (no_AckDelay opts) (no_AckDelay def),
            no_HeartbeatInterval := orDefault (no_HeartbeatInterval opts) (no_HeartbeatInterval def),
            no_HeartbeatTimeout := orDefault (no_HeartbeatTimeout opts) (no_HeartbeatTimeout def)\<rparr>;
          minTimeout = wrap64 (2 * no_HeartbeatInterval o1)
      in if no_HeartbeatTimeout o1 < minTimeout then o1\<lparr>no_HeartbeatTimeout := minTimeout\<rparr> else o1)"

definition durationToMillis :: "Duration \<Rightarrow> u32 result" where
  "durationToMillis d =
     (if d \<le> 0 then Inl (ErrInvalidMessage ''recovery duration must be positive'')
      else
        let ms = d div Millisecond; ms' = (if ms \<le> 0 then 1 else ms)
        in if ms' > 4294967295 then Inl (ErrInvalidMessage ''recovery duration too large'')
           else Inr (word_of_int ms'))"

record encodedNegotiatedRecoveryOptions =
  en_ackEvery :: u32
  en_ackDelayMS :: u32
  en_heartbeatIntervalMS :: u32
  en_heartbeatTimeoutMS :: u32

definition encodeNegotiatedRecoveryOptions ::
    "negotiatedRecoveryOptions \<Rightarrow> encodedNegotiatedRecoveryOptions result" where
  "encodeNegotiatedRecoveryOptions opts0 =
     (let opts = normalizedNegotiated opts0
      in case durationToMillis (no_AckDelay opts) of
           Inl e \<Rightarrow> Inl e
         | Inr ackDelayMS \<Rightarrow>
         case durationToMillis (no_HeartbeatInterval opts) of
           Inl e \<Rightarrow> Inl e
         | Inr heartbeatIntervalMS \<Rightarrow>
         case durationToMillis (no_HeartbeatTimeout opts) of
           Inl e \<Rightarrow> Inl e
         | Inr heartbeatTimeoutMS \<Rightarrow>
         Inr \<lparr>en_ackEvery = no_AckEvery opts, en_ackDelayMS = ackDelayMS,
              en_heartbeatIntervalMS = heartbeatIntervalMS, en_heartbeatTimeoutMS = heartbeatTimeoutMS\<rparr>)"

definition decodeNegotiatedRecoveryOptions ::
    "u32 \<Rightarrow> u32 \<Rightarrow> u32 \<Rightarrow> u32 \<Rightarrow> negotiatedRecoveryOptions result" where
  "decodeNegotiatedRecoveryOptions ackEvery ackDelayMS heartbeatIntervalMS heartbeatTimeoutMS =
     (let opts = \<lparr>no_AckEvery = ackEvery,
                  no_AckDelay = wrap64 (uint ackDelayMS * Millisecond),
                  no_HeartbeatInterval = wrap64 (uint heartbeatIntervalMS * Millisecond),
                  no_HeartbeatTimeout = wrap64 (uint heartbeatTimeoutMS * Millisecond)\<rparr>
      in if no_AckEvery opts = 0
         then Inl (ErrInvalidMessage ''negotiated ack_every must be positive'')
         else if no_AckDelay opts \<le> 0
         then Inl (ErrInvalidMessage ''negotiated ack_delay must be positive'')
         else if no_HeartbeatInterval opts \<le> 0
         then Inl (ErrInvalidMessage ''negotiated heartbeat_interval must be positive'')
         else if no_HeartbeatTimeout opts < wrap64 (2 * no_HeartbeatInterval opts)
         then Inl (ErrInvalidMessage ''negotiated heartbeat_timeout too small'')
         else Inr opts)"

section \<open>Lemmas\<close>

definition duration_ok :: "Duration \<Rightarrow> bool" where
  "duration_ok d \<longleftrightarrow> 0 < d \<and> d < 2 ^ 63"

text \<open>Options that the connection runs on: every field positive and the timeout at least two
  intervals, without overflow.\<close>

definition negotiated_valid :: "negotiatedRecoveryOptions \<Rightarrow> bool" where
  "negotiated_valid n \<longleftrightarrow>
     no_AckEvery n \<noteq> 0 \<and> 0 < no_AckDelay n \<and> 0 < no_HeartbeatInterval n \<and>
     2 * no_HeartbeatInterval n \<le> no_HeartbeatTimeout n \<and> no_HeartbeatTimeout n < 2 ^ 63 \<and>
     no_AckDelay n < 2 ^ 63"

lemmas option_defaults = defaultServerRecoveryOptions_def defaultClientRecoveryOptions_def
  Millisecond_def Second_def defaultMaxFrame_def

lemma wrap64_double: "0 < d \<Longrightarrow> d < 2 ^ 62 \<Longrightarrow> wrap64 (2 * d) = 2 * d"
  by (intro wrap64_id) (simp add: int64_ok_def)

lemma negotiated_default:
  "negotiated defaultServerRecoveryOptions =
     \<lparr>no_AckEvery = 64, no_AckDelay = 20000000, no_HeartbeatInterval = 30000000000,
      no_HeartbeatTimeout = 90000000000\<rparr>"
  by (simp add: negotiated_def normalizedServer_def option_defaults orDefault_def wrap64_def)

lemma negotiated_valid_fixed: "negotiated_valid n \<Longrightarrow> normalizedNegotiated n = n"
  by (auto simp: negotiated_valid_def normalizedNegotiated_def orDefault_def Let_def wrap64_double)

lemma normalizedNegotiated_valid:
  assumes "no_HeartbeatInterval n < 2 ^ 62" "no_HeartbeatTimeout n < 2 ^ 63" "no_AckDelay n < 2 ^ 63"
  shows "negotiated_valid (normalizedNegotiated n)"
  using assms
  by (auto simp: negotiated_valid_def normalizedNegotiated_def orDefault_def Let_def
        negotiated_default wrap64_double)

lemma negotiated_server_valid:
  assumes "so_HeartbeatInterval s < 2 ^ 62" "so_HeartbeatTimeout s < 2 ^ 63" "so_AckDelay s < 2 ^ 63"
  shows "negotiated_valid (negotiated s)"
  using assms
  by (auto simp: negotiated_valid_def negotiated_def normalizedServer_def orDefault_def Let_def
        option_defaults wrap64_double)

text \<open>The fields of normalised server options, one by one.\<close>

lemma normalizedServer_fields:
  assumes "so_HeartbeatInterval s < 2 ^ 62"
  shows "0 < so_DetachedTTL (normalizedServer s)" "0 < so_MaxReplayBytes (normalizedServer s)"
    "so_AckEvery (normalizedServer s) \<noteq> 0" "0 < so_AckDelay (normalizedServer s)"
    "0 < so_HeartbeatInterval (normalizedServer s)" "0 < so_HeartbeatTimeout (normalizedServer s)"
    "\<not> so_HeartbeatTimeout (normalizedServer s) < wrap64 (2 * so_HeartbeatInterval (normalizedServer s))"
  using assms by (simp_all add: normalizedServer_def orDefault_def option_defaults Let_def)

lemma normalizedServer_fixed:
  assumes "0 < so_DetachedTTL s" "0 < so_MaxReplayBytes s" "so_AckEvery s \<noteq> 0" "0 < so_AckDelay s"
    "0 < so_HeartbeatInterval s" "0 < so_HeartbeatTimeout s"
    "\<not> so_HeartbeatTimeout s < wrap64 (2 * so_HeartbeatInterval s)"
  shows "normalizedServer s = s"
  using assms by (simp add: normalizedServer_def orDefault_def Let_def)

lemma normalizedServer_idem:
  "so_HeartbeatInterval s < 2 ^ 62 \<Longrightarrow> normalizedServer (normalizedServer s) = normalizedServer s"
  by (intro normalizedServer_fixed) (simp_all add: normalizedServer_fields)

lemma u32_millis:
  "wrap64 (uint (w :: u32) * 1000000) = uint w * 1000000"
  "wrap64 (2 * (uint (w :: u32) * 1000000)) = 2 * (uint w * 1000000)"
  using uint_u32_less [of w] uint_ge_0 [of w] by (intro wrap64_id; simp add: int64_ok_def; linarith)+

text \<open>The decoder without the wrap-around, which cannot happen on 32-bit millisecond counts.\<close>

lemma decode_cases:
  "decodeNegotiatedRecoveryOptions a d i t =
     (if a = 0 then Inl (ErrInvalidMessage ''negotiated ack_every must be positive'')
      else if uint d = 0 then Inl (ErrInvalidMessage ''negotiated ack_delay must be positive'')
      else if uint i = 0 then Inl (ErrInvalidMessage ''negotiated heartbeat_interval must be positive'')
      else if uint t < 2 * uint i then Inl (ErrInvalidMessage ''negotiated heartbeat_timeout too small'')
      else Inr \<lparr>no_AckEvery = a, no_AckDelay = uint d * Millisecond,
                no_HeartbeatInterval = uint i * Millisecond, no_HeartbeatTimeout = uint t * Millisecond\<rparr>)"
proof -
  have le: "uint (w :: u32) * 1000000 \<le> 0 \<longleftrightarrow> uint w = 0" for w
    using uint_ge_0 [of w] by linarith
  have lt: "uint t * 1000000 < 2 * (uint i * 1000000) \<longleftrightarrow> uint t < 2 * uint i" by linarith
  show ?thesis
    unfolding decodeNegotiatedRecoveryOptions_def Millisecond_def u32_millis Let_def
      negotiatedRecoveryOptions.simps le lt by (rule refl)
qed

lemma durationToMillis_ok:
  assumes "Millisecond \<le> d" "d < 4294967296 * Millisecond"
  shows "durationToMillis d = Inr (word_of_int (d div Millisecond))"
    and "uint (word_of_int (d div Millisecond) :: u32) = d div Millisecond"
    and "1 \<le> d div Millisecond" and "d div Millisecond < 4294967296"
proof -
  show q: "1 \<le> d div Millisecond" "d div Millisecond < 4294967296"
    using assms by (auto simp: Millisecond_def)
  then show "uint (word_of_int (d div Millisecond) :: u32) = d div Millisecond"
    by (simp add: uint_word_of_int)
  have "\<not> d \<le> 0" using assms by (simp add: Millisecond_def)
  with q show "durationToMillis d = Inr (word_of_int (d div Millisecond))"
    by (simp add: durationToMillis_def Let_def)
qed

lemma durationToMillis_small:
  assumes "0 < d" "d < 2 * Millisecond"
  shows "durationToMillis d = Inr 1"
proof -
  have "d div Millisecond = 0 \<or> d div Millisecond = 1" using assms by (auto simp: Millisecond_def)
  with assms show ?thesis by (auto simp: durationToMillis_def)
qed

lemma div_timeout: "2 * i \<le> (t :: int) \<Longrightarrow> 2 * (i div Millisecond) \<le> t div Millisecond"
proof -
  assume it: "2 * i \<le> t"
  have "i div Millisecond * Millisecond \<le> i"
    by (simp add: Millisecond_def minus_mod_eq_div_mult [symmetric])
  with it have "2 * (i div Millisecond) * Millisecond \<le> t" by simp
  from zdiv_mono1 [OF this, of Millisecond] show ?thesis by (simp add: Millisecond_def)
qed

lemma negotiated_wire:
  assumes v: "negotiated_valid n"
    and ms: "Millisecond \<le> no_AckDelay n" "Millisecond \<le> no_HeartbeatInterval n"
    and big: "no_AckDelay n < 4294967296 * Millisecond"
      "no_HeartbeatTimeout n < 4294967296 * Millisecond"
  shows "\<exists>e m. encodeNegotiatedRecoveryOptions n = Inr e \<and>
           decodeNegotiatedRecoveryOptions (en_ackEvery e) (en_ackDelayMS e)
             (en_heartbeatIntervalMS e) (en_heartbeatTimeoutMS e) = Inr m \<and>
           no_AckEvery m = no_AckEvery n \<and>
           no_AckDelay m = no_AckDelay n div Millisecond * Millisecond \<and>
           no_HeartbeatInterval m = no_HeartbeatInterval n div Millisecond * Millisecond \<and>
           no_HeartbeatTimeout m = no_HeartbeatTimeout n div Millisecond * Millisecond \<and>
           negotiated_valid m \<and> normalizedNegotiated m = m"
proof -
  let ?i = "no_HeartbeatInterval n" and ?t = "no_HeartbeatTimeout n" and ?a = "no_AckDelay n"
  have it: "2 * ?i \<le> ?t" and pos: "0 < ?i" "no_AckEvery n \<noteq> 0" using v by (auto simp: negotiated_valid_def)
  have bound: "?i < 4294967296 * Millisecond" "Millisecond \<le> ?t"
    using it pos big ms by (auto simp: Millisecond_def)
  note a = durationToMillis_ok [OF ms(1) big(1)]
  note i = durationToMillis_ok [OF ms(2) bound(1)]
  note t = durationToMillis_ok [OF bound(2) big(2)]
  let ?e = "\<lparr>en_ackEvery = no_AckEvery n, en_ackDelayMS = word_of_int (?a div Millisecond),
    en_heartbeatIntervalMS = word_of_int (?i div Millisecond),
    en_heartbeatTimeoutMS = word_of_int (?t div Millisecond)\<rparr>"
  let ?m = "\<lparr>no_AckEvery = no_AckEvery n, no_AckDelay = ?a div Millisecond * Millisecond,
    no_HeartbeatInterval = ?i div Millisecond * Millisecond,
    no_HeartbeatTimeout = ?t div Millisecond * Millisecond\<rparr>"
  have e: "encodeNegotiatedRecoveryOptions n = Inr ?e"
    using negotiated_valid_fixed [OF v] a(1) i(1) t(1)
    by (simp add: encodeNegotiatedRecoveryOptions_def)
  have valid: "negotiated_valid ?m"
    using a(3,4) i(3) t(4) div_timeout [OF it] pos by (simp add: negotiated_valid_def Millisecond_def)
  have "decodeNegotiatedRecoveryOptions (en_ackEvery ?e) (en_ackDelayMS ?e)
      (en_heartbeatIntervalMS ?e) (en_heartbeatTimeoutMS ?e) = Inr ?m"
    using a(2,3) i(2,3) t(2) div_timeout [OF it] pos by (simp add: decode_cases)
  with e valid negotiated_valid_fixed [OF valid] show ?thesis
    by (intro exI [of _ ?e] exI [of _ ?m]) simp
qed

text \<open>What the wire makes of valid options: every duration in whole milliseconds, and at least one. Options can be sent if the
  numbers fit and the peer accepts what it reads: not with an interval that is rounded up and a timeout that is not.\<close>

definition wireMillis :: "Duration \<Rightarrow> int" where
  "wireMillis d = max 1 (d div Millisecond)"

definition wireOptions :: "negotiatedRecoveryOptions \<Rightarrow> negotiatedRecoveryOptions" where
  "wireOptions n = \<lparr>no_AckEvery = no_AckEvery n, no_AckDelay = wireMillis (no_AckDelay n) * Millisecond,
     no_HeartbeatInterval = wireMillis (no_HeartbeatInterval n) * Millisecond,
     no_HeartbeatTimeout = wireMillis (no_HeartbeatTimeout n) * Millisecond\<rparr>"

definition tooFast :: "negotiatedRecoveryOptions \<Rightarrow> bool" where
  "tooFast n \<longleftrightarrow> no_HeartbeatInterval n < Millisecond \<and> no_HeartbeatTimeout n < 2 * Millisecond"

definition wire_range :: "negotiatedRecoveryOptions \<Rightarrow> bool" where
  "wire_range n \<longleftrightarrow> negotiated_valid n \<and> no_AckDelay n < 4294967296 * Millisecond \<and>
     no_HeartbeatTimeout n < 4294967296 * Millisecond"

lemma durationToMillis_wire:
  assumes "0 < d" "d < 4294967296 * Millisecond"
  shows "durationToMillis d = Inr (word_of_int (wireMillis d))" "uint (word_of_int (wireMillis d) :: u32) = wireMillis d"
    "1 \<le> wireMillis d" "wireMillis d < 4294967296"
proof -
  have "d div Millisecond < 4294967296" using assms by (auto simp: Millisecond_def)
  then show w: "1 \<le> wireMillis d" "wireMillis d < 4294967296" by (simp_all add: wireMillis_def)
  then show "uint (word_of_int (wireMillis d) :: u32) = wireMillis d" by (simp add: uint_word_of_int)
  have "(if d div Millisecond \<le> 0 then 1 else d div Millisecond) = wireMillis d" by (auto simp: wireMillis_def)
  then show "durationToMillis d = Inr (word_of_int (wireMillis d))"
    using assms(1) w(2) by (simp add: durationToMillis_def Let_def)
qed

lemma wire_timeout:
  assumes "0 < i" "2 * i \<le> t"
  shows "wireMillis t < 2 * wireMillis i \<longleftrightarrow> i < Millisecond \<and> t < 2 * Millisecond"
proof (cases "i < Millisecond")
  case True
  then have "wireMillis i = 1" using assms by (simp add: wireMillis_def)
  moreover have "wireMillis t < 2 \<longleftrightarrow> t < 2 * Millisecond" by (auto simp: wireMillis_def Millisecond_def)
  ultimately show ?thesis using True by simp
next
  case False
  then have "1 \<le> i div Millisecond" by (simp add: Millisecond_def)
  then show ?thesis using False div_timeout [OF assms(2)] by (simp add: wireMillis_def)
qed

lemma wire_exact:
  assumes "wire_range n"
  shows "\<exists>e. encodeNegotiatedRecoveryOptions n = Inr e \<and>
           decodeNegotiatedRecoveryOptions (en_ackEvery e) (en_ackDelayMS e)
             (en_heartbeatIntervalMS e) (en_heartbeatTimeoutMS e) =
           (if tooFast n then Inl (ErrInvalidMessage ''negotiated heartbeat_timeout too small'') else Inr (wireOptions n))"
proof -
  let ?a = "no_AckDelay n" and ?i = "no_HeartbeatInterval n" and ?t = "no_HeartbeatTimeout n"
  have v: "negotiated_valid n" and pos: "no_AckEvery n \<noteq> 0" "0 < ?a" "0 < ?i" "2 * ?i \<le> ?t"
    and big: "?a < 4294967296 * Millisecond" "?t < 4294967296 * Millisecond"
    using assms by (auto simp: wire_range_def negotiated_valid_def)
  have "0 < ?t" "?i < 4294967296 * Millisecond" using pos big by (auto simp: Millisecond_def)
  note d = durationToMillis_wire [OF pos(2) big(1)] durationToMillis_wire [OF pos(3) this(2)] durationToMillis_wire [OF this(1) big(2)]
  have "\<not> uint (word_of_int (wireMillis d) :: u32) = 0" if "d \<in> {?a, ?i}" for d using that d by auto
  then show ?thesis
    using d pos negotiated_valid_fixed [OF v] wire_timeout [OF pos(3,4)]
    by (simp add: encodeNegotiatedRecoveryOptions_def decode_cases wireOptions_def tooFast_def)
qed

lemma wireMillis_idem: "1 \<le> k \<Longrightarrow> wireMillis (k * Millisecond) = k"
  by (simp add: wireMillis_def Millisecond_def)

lemma wireOptions_idem: "wireOptions (wireOptions n) = wireOptions n"
proof -
  have "1 \<le> wireMillis d" for d by (simp add: wireMillis_def)
  then show ?thesis by (simp add: wireOptions_def wireMillis_idem)
qed

lemma wireOptions_valid:
  assumes "wire_range n" "\<not> tooFast n"
  shows "negotiated_valid (wireOptions n)" "wire_range (wireOptions n)"
proof -
  let ?a = "no_AckDelay n" and ?i = "no_HeartbeatInterval n" and ?t = "no_HeartbeatTimeout n"
  have pos: "no_AckEvery n \<noteq> 0" "0 < ?a" "0 < ?i" "2 * ?i \<le> ?t"
    and big: "?a < 4294967296 * Millisecond" "?t < 4294967296 * Millisecond"
    using assms by (auto simp: wire_range_def negotiated_valid_def)
  have "0 < ?t" using pos by linarith
  note d = durationToMillis_wire(3,4) [OF pos(2) big(1)] durationToMillis_wire(3,4) [OF this big(2)]
  have "2 * wireMillis ?i \<le> wireMillis ?t" using wire_timeout [OF pos(3,4)] assms(2) by (auto simp: tooFast_def)
  moreover have "1 \<le> wireMillis ?i" by (simp add: wireMillis_def)
  ultimately show "negotiated_valid (wireOptions n)" "wire_range (wireOptions n)"
    using d pos(1) by (simp_all add: negotiated_valid_def wire_range_def wireOptions_def Millisecond_def)
qed

lemma wireOptions_encode:
  assumes "wire_range n" "\<not> tooFast n"
  shows "encodeNegotiatedRecoveryOptions (wireOptions n) = encodeNegotiatedRecoveryOptions n"
proof -
  have w: "wire_range m \<Longrightarrow> encodeNegotiatedRecoveryOptions m =
      Inr \<lparr>en_ackEvery = no_AckEvery m, en_ackDelayMS = word_of_int (wireMillis (no_AckDelay m)),
        en_heartbeatIntervalMS = word_of_int (wireMillis (no_HeartbeatInterval m)),
        en_heartbeatTimeoutMS = word_of_int (wireMillis (no_HeartbeatTimeout m))\<rparr>" for m
  proof -
    assume m: "wire_range m"
    then have v: "negotiated_valid m" and pos: "0 < no_AckDelay m" "0 < no_HeartbeatInterval m"
      "2 * no_HeartbeatInterval m \<le> no_HeartbeatTimeout m"
      "no_AckDelay m < 4294967296 * Millisecond" "no_HeartbeatTimeout m < 4294967296 * Millisecond"
      by (auto simp: wire_range_def negotiated_valid_def)
    have "0 < no_HeartbeatTimeout m" "no_HeartbeatInterval m < 4294967296 * Millisecond" using pos by (auto simp: Millisecond_def)
    then show ?thesis
      using pos negotiated_valid_fixed [OF v] by (simp add: encodeNegotiatedRecoveryOptions_def durationToMillis_wire(1))
  qed
  have "1 \<le> wireMillis d" for d by (simp add: wireMillis_def)
  then show ?thesis using w [OF assms(1)] w [OF wireOptions_valid(2) [OF assms]] by (simp add: wireOptions_def wireMillis_idem)
qed

text \<open>Options of one frame per ACK, 5 ms ACK delay, and 10 ms and 25.5 ms heartbeats, for examples.\<close>

definition sampleNegotiated :: negotiatedRecoveryOptions where
  "sampleNegotiated = \<lparr>no_AckEvery = 1, no_AckDelay = 5000000, no_HeartbeatInterval = 10000000,
     no_HeartbeatTimeout = 25500000\<rparr>"

lemma sampleNegotiated_valid: "negotiated_valid sampleNegotiated"
  by (simp add: negotiated_valid_def sampleNegotiated_def)

section \<open>Properties\<close>

text \<open>What the server negotiates survives the wire: for valid options with every duration between
  one millisecond and 2^32 milliseconds, the encoded options are accepted by the peer's decoder,
  which gets the durations rounded down to whole milliseconds, and they are valid again, so that
  the peer's normalisation does not change them.\<close>

theorem negotiated_roundtrip:
  assumes v: "negotiated_valid n"
    and ms: "Millisecond \<le> no_AckDelay n" "Millisecond \<le> no_HeartbeatInterval n"
    and big: "no_AckDelay n < 4294967296 * Millisecond"
      "no_HeartbeatTimeout n < 4294967296 * Millisecond"
  shows "\<exists>e m. encodeNegotiatedRecoveryOptions n = Inr e \<and>
           decodeNegotiatedRecoveryOptions (en_ackEvery e) (en_ackDelayMS e)
             (en_heartbeatIntervalMS e) (en_heartbeatTimeoutMS e) = Inr m \<and>
           no_AckEvery m = no_AckEvery n \<and>
           no_AckDelay m = no_AckDelay n div Millisecond * Millisecond \<and>
           no_HeartbeatInterval m = no_HeartbeatInterval n div Millisecond * Millisecond \<and>
           no_HeartbeatTimeout m = no_HeartbeatTimeout n div Millisecond * Millisecond \<and>
           negotiated_valid m \<and> normalizedNegotiated m = m"
  by (rule negotiated_wire [OF assms])

theorem negotiated_roundtrip_witness:
  "\<exists>e m. encodeNegotiatedRecoveryOptions sampleNegotiated = Inr e \<and>
     decodeNegotiatedRecoveryOptions (en_ackEvery e) (en_ackDelayMS e)
       (en_heartbeatIntervalMS e) (en_heartbeatTimeoutMS e) = Inr m \<and>
     no_HeartbeatInterval m = 10000000 \<and> no_HeartbeatTimeout m = 25000000"
  using negotiated_roundtrip [OF sampleNegotiated_valid]
  by (simp add: sampleNegotiated_def Millisecond_def) blast

text \<open>Whatever the four numbers on the wire are, options that the decoder accepts are valid:
  positive, and with a heartbeat timeout of at least two intervals, so that the reader never times
  out between two pings of a live peer; and normalising them again is the identity.\<close>

theorem decode_negotiated_valid:
  assumes "decodeNegotiatedRecoveryOptions a d i t = Inr m"
  shows "negotiated_valid m \<and> normalizedNegotiated m = m"
proof -
  have "negotiated_valid m"
    using assms uint_u32_less [of d] uint_u32_less [of t] uint_ge_0 [of d] uint_ge_0 [of i]
    by (auto simp: decode_cases negotiated_valid_def Millisecond_def not_less order.strict_iff_order
          split: if_splits)
  then show ?thesis by (simp add: negotiated_valid_fixed)
qed

theorem decode_negotiated_valid_witness:
  "negotiated_valid \<lparr>no_AckEvery = 1, no_AckDelay = 5000000, no_HeartbeatInterval = 10000000,
     no_HeartbeatTimeout = 20000000\<rparr>"
proof -
  have "decodeNegotiatedRecoveryOptions 1 5 10 20 = Inr \<lparr>no_AckEvery = 1, no_AckDelay = 5000000,
      no_HeartbeatInterval = 10000000, no_HeartbeatTimeout = 20000000\<rparr>" by code_simp
  from decode_negotiated_valid [OF this] show ?thesis by blast
qed

text \<open>Server options are always completed to valid negotiated options, whatever is left unset,
  zero or negative, as long as the heartbeat interval is below 2^62 nanoseconds (above it, twice
  the interval overflows); options that are valid already are kept.\<close>

theorem server_options_valid:
  assumes "so_HeartbeatInterval s < 2 ^ 62" "so_HeartbeatTimeout s < 2 ^ 63" "so_AckDelay s < 2 ^ 63"
  shows "negotiated_valid (negotiated s) \<and> normalizedNegotiated (negotiated s) = negotiated s \<and>
         0 < so_MaxReplayBytes (normalizedServer s) \<and> 0 < so_DetachedTTL (normalizedServer s) \<and>
         normalizedServer (normalizedServer s) = normalizedServer s"
proof -
  have v: "negotiated_valid (negotiated s)" by (rule negotiated_server_valid [OF assms])
  have "0 < so_MaxReplayBytes (normalizedServer s) \<and> 0 < so_DetachedTTL (normalizedServer s)"
    by (auto simp: normalizedServer_def orDefault_def option_defaults Let_def)
  moreover have "normalizedServer (normalizedServer s) = normalizedServer s"
    by (rule normalizedServer_idem [OF assms(1)])
  ultimately show ?thesis using v negotiated_valid_fixed [OF v] by blast
qed

theorem server_options_valid_witness:
  "negotiated_valid (negotiated \<lparr>so_Enable = True, so_DetachedTTL = -1, so_MaxReplayBytes = 0,
     so_AckEvery = 0, so_AckDelay = 0, so_HeartbeatInterval = 7, so_HeartbeatTimeout = 5\<rparr>)"
  by (rule server_options_valid [THEN conjunct1]) simp_all

text \<open>C31. What the wire does to valid options whose ACK delay and timeout are below 2^32 milliseconds: the server can encode them, and
  the client reads them with every duration cut to whole milliseconds, and raised to one millisecond where it was shorter. There is
  exactly one exception: with a heartbeat interval below one millisecond and a timeout below two, both become one millisecond, and the
  client refuses the server's attach response.\<close>

theorem negotiated_on_wire:
  assumes "negotiated_valid n"
    and "no_AckDelay n < 4294967296 * Millisecond" "no_HeartbeatTimeout n < 4294967296 * Millisecond"
  shows "\<exists>e. encodeNegotiatedRecoveryOptions n = Inr e \<and>
           decodeNegotiatedRecoveryOptions (en_ackEvery e) (en_ackDelayMS e)
             (en_heartbeatIntervalMS e) (en_heartbeatTimeoutMS e) =
           (if no_HeartbeatInterval n < Millisecond \<and> no_HeartbeatTimeout n < 2 * Millisecond
            then Inl (ErrInvalidMessage ''negotiated heartbeat_timeout too small'')
            else Inr \<lparr>no_AckEvery = no_AckEvery n, no_AckDelay = max 1 (no_AckDelay n div Millisecond) * Millisecond,
                      no_HeartbeatInterval = max 1 (no_HeartbeatInterval n div Millisecond) * Millisecond,
                      no_HeartbeatTimeout = max 1 (no_HeartbeatTimeout n div Millisecond) * Millisecond\<rparr>)"
proof -
  have "wire_range n" using assms by (simp add: wire_range_def)
  from wire_exact [OF this] show ?thesis unfolding tooFast_def wireOptions_def wireMillis_def .
qed

theorem negotiated_on_wire_witness:
  "(\<exists>e. encodeNegotiatedRecoveryOptions \<lparr>no_AckEvery = 64, no_AckDelay = 20500000,
        no_HeartbeatInterval = 500000, no_HeartbeatTimeout = 1000000\<rparr> = Inr e \<and>
      decodeNegotiatedRecoveryOptions (en_ackEvery e) (en_ackDelayMS e) (en_heartbeatIntervalMS e) (en_heartbeatTimeoutMS e) =
        Inl (ErrInvalidMessage ''negotiated heartbeat_timeout too small'')) \<and>
   (\<exists>e. encodeNegotiatedRecoveryOptions \<lparr>no_AckEvery = 64, no_AckDelay = 20500000,
        no_HeartbeatInterval = 500000, no_HeartbeatTimeout = 90000000000\<rparr> = Inr e \<and>
      decodeNegotiatedRecoveryOptions (en_ackEvery e) (en_ackDelayMS e) (en_heartbeatIntervalMS e) (en_heartbeatTimeoutMS e) =
        Inr \<lparr>no_AckEvery = 64, no_AckDelay = 20000000, no_HeartbeatInterval = 1000000, no_HeartbeatTimeout = 90000000000\<rparr>)"
  using negotiated_on_wire [of "\<lparr>no_AckEvery = 64, no_AckDelay = 20500000, no_HeartbeatInterval = 500000, no_HeartbeatTimeout = 1000000\<rparr>"]
    negotiated_on_wire [of "\<lparr>no_AckEvery = 64, no_AckDelay = 20500000, no_HeartbeatInterval = 500000, no_HeartbeatTimeout = 90000000000\<rparr>"]
  by (simp add: negotiated_valid_def Millisecond_def)

end
