(* ===== verification/Recovery_Protocol.thy ===== *)
theory Recovery_Protocol
  imports Recovery_Options
begin

text \<open>
  The messages of \<^verbatim>\<open>src/recovery_protocol.go\<close>: the attach request and response that start or resume
  a recoverable connection, and the ACK, PING and CLOSE payloads of the control stream. A token is
  an array of 16 bytes: a list, of that length in \<open>token_ok\<close>. The random source of
  \<^verbatim>\<open>newRecoveryToken\<close> is outside the model; its result is an argument where it is used.
\<close>

definition controlTypeAck :: byte where
  "controlTypeAck = 1"

definition controlTypePing :: byte where
  "controlTypePing = 2"

definition controlTypeClose :: byte where
  "controlTypeClose = 3"

definition attachModeNew :: byte where
  "attachModeNew = 1"

definition attachModeResume :: byte where
  "attachModeResume = 2"

definition attachStatusOK :: byte where
  "attachStatusOK = 1"

definition attachStatusRejected :: byte where
  "attachStatusRejected = 2"

definition recoveryTokenLen :: nat where
  "recoveryTokenLen = 16"

definition attachRequestLen :: nat where
  "attachRequestLen = 44"

definition attachResponseLen :: nat where
  "attachResponseLen = 60"

definition controlAckFrameLen :: nat where
  "controlAckFrameLen = 9"

definition controlHeartbeatLen :: nat where
  "controlHeartbeatLen = 1"

definition controlCloseLen :: nat where
  "controlCloseLen = 1"

type_synonym recoveryToken = bytes

definition zeroToken :: recoveryToken where
  "zeroToken = replicate recoveryTokenLen 0"

record attachRequest =
  rq_mode :: byte
  rq_connectionID :: recoveryToken
  rq_resumeSecret :: recoveryToken
  rq_lastRecvSeq :: u64

record attachResponse =
  rs_status :: byte
  rs_connectionID :: recoveryToken
  rs_resumeSecret :: recoveryToken
  rs_lastRecvSeq :: u64
  rs_negotiated :: negotiatedRecoveryOptions

definition attachRequestBytes :: "attachRequest \<Rightarrow> bytes" where
  "attachRequestBytes req =
     [rq_mode req, 0, 0, 0] @ rq_connectionID req @ rq_resumeSecret req @ PutUint64 (rq_lastRecvSeq req)"

definition writeAttachRequest :: "net_conn \<Rightarrow> attachRequest \<Rightarrow> go_error option \<times> net_conn" where
  "writeAttachRequest conn req = writeFull conn_Write conn (attachRequestBytes req)"

definition parseAttachRequest :: "bytes \<Rightarrow> attachRequest result" where
  "parseAttachRequest buf =
     Inr \<lparr>rq_mode = buf ! 0, rq_connectionID = go_slice 4 20 buf, rq_resumeSecret = go_slice 20 36 buf,
          rq_lastRecvSeq = Uint64 (go_slice 36 44 buf)\<rparr>"

definition readAttachRequest :: "net_conn \<Rightarrow> attachRequest result \<times> net_conn" where
  "readAttachRequest conn = readWith attachRequestLen parseAttachRequest conn"

definition attachResponseBytes ::
    "attachResponse \<Rightarrow> encodedNegotiatedRecoveryOptions \<Rightarrow> bytes" where
  "attachResponseBytes resp n =
     [rs_status resp, 0, 0, 0] @ rs_connectionID resp @ rs_resumeSecret resp @
     PutUint64 (rs_lastRecvSeq resp) @ PutUint32 (en_ackEvery n) @ PutUint32 (en_ackDelayMS n) @
     PutUint32 (en_heartbeatIntervalMS n) @ PutUint32 (en_heartbeatTimeoutMS n)"

definition writeAttachResponse :: "net_conn \<Rightarrow> attachResponse \<Rightarrow> go_error option \<times> net_conn" where
  "writeAttachResponse conn resp =
     (case encodeNegotiatedRecoveryOptions (rs_negotiated resp) of
        Inl e \<Rightarrow> (Some e, conn)
      | Inr n \<Rightarrow> writeFull conn_Write conn (attachResponseBytes resp n))"

definition parseAttachResponse :: "bytes \<Rightarrow> attachResponse result" where
  "parseAttachResponse buf =
     (case decodeNegotiatedRecoveryOptions (Uint32 (go_slice 44 48 buf)) (Uint32 (go_slice 48 52 buf))
             (Uint32 (go_slice 52 56 buf)) (Uint32 (go_slice 56 60 buf)) of
        Inl e \<Rightarrow> Inl e
      | Inr n \<Rightarrow>
          Inr \<lparr>rs_status = buf ! 0, rs_connectionID = go_slice 4 20 buf,
               rs_resumeSecret = go_slice 20 36 buf, rs_lastRecvSeq = Uint64 (go_slice 36 44 buf),
               rs_negotiated = n\<rparr>)"

definition readAttachResponse :: "net_conn \<Rightarrow> attachResponse result \<times> net_conn" where
  "readAttachResponse conn = readWith attachResponseLen parseAttachResponse conn"

definition buildAckControlPayload :: "u64 \<Rightarrow> bytes" where
  "buildAckControlPayload lastRecvSeq = controlTypeAck # PutUint64 lastRecvSeq"

definition buildPingControlPayload :: bytes where
  "buildPingControlPayload = [controlTypePing]"

definition buildCloseControlPayload :: bytes where
  "buildCloseControlPayload = [controlTypeClose]"

definition parseControlPayload :: "bytes \<Rightarrow> (byte \<times> u64) result" where
  "parseControlPayload payload =
     (if length payload = 0 then Inl (ErrInvalidMessage ''empty control payload'')
      else if payload ! 0 = controlTypeAck then
        (if length payload \<noteq> controlAckFrameLen
         then Inl (ErrInvalidMessage ''invalid ack control payload length'')
         else Inr (payload ! 0, Uint64 (go_slice 1 9 payload)))
      else if payload ! 0 = controlTypePing then
        (if length payload \<noteq> controlHeartbeatLen
         then Inl (ErrInvalidMessage ''invalid heartbeat control payload length'')
         else Inr (payload ! 0, 0))
      else if payload ! 0 = controlTypeClose then
        (if length payload \<noteq> controlCloseLen
         then Inl (ErrInvalidMessage ''invalid close control payload length'')
         else Inr (payload ! 0, 0))
      else Inl (ErrInvalidMessage ''unknown control frame type''))"

section \<open>Lemmas\<close>

definition token_ok :: "recoveryToken \<Rightarrow> bool" where
  "token_ok t \<longleftrightarrow> length t = recoveryTokenLen"

definition request_ok :: "attachRequest \<Rightarrow> bool" where
  "request_ok req \<longleftrightarrow> token_ok (rq_connectionID req) \<and> token_ok (rq_resumeSecret req)"

text \<open>Options that the wire carries without loss: valid, and whole milliseconds.\<close>

definition whole_millis :: "negotiatedRecoveryOptions \<Rightarrow> bool" where
  "whole_millis n \<longleftrightarrow> negotiated_valid n \<and>
     Millisecond dvd no_AckDelay n \<and> Millisecond dvd no_HeartbeatInterval n \<and>
     Millisecond dvd no_HeartbeatTimeout n \<and>
     no_AckDelay n < 4294967296 * Millisecond \<and> no_HeartbeatTimeout n < 4294967296 * Millisecond"

definition response_ok :: "attachResponse \<Rightarrow> bool" where
  "response_ok resp \<longleftrightarrow> token_ok (rs_connectionID resp) \<and> token_ok (rs_resumeSecret resp) \<and>
     whole_millis (rs_negotiated resp)"

text \<open>The bytes of a response whose options can be encoded.\<close>

definition responseEnc :: "attachResponse \<Rightarrow> bytes" where
  "responseEnc resp =
     (case encodeNegotiatedRecoveryOptions (rs_negotiated resp) of
        Inl e \<Rightarrow> [] | Inr n \<Rightarrow> attachResponseBytes resp n)"

lemmas token_defs = token_ok_def recoveryTokenLen_def

text \<open>The layout of two tokens after a four-byte head.\<close>

lemma token_layout:
  assumes "token_ok a" "token_ok b"
  shows "([m, 0, 0, 0] @ a @ b @ r) ! 0 = m"
    and "go_slice 4 20 ([m, 0, 0, 0] @ a @ b @ r) = a"
    and "go_slice 20 36 ([m, 0, 0, 0] @ a @ b @ r) = b"
    and "go_slice (36 + i) (36 + j) ([m, 0, 0, 0] @ a @ b @ r) = go_slice i j r"
proof -
  have len: "length ([m, 0, 0, 0] @ a @ b) = 36" using assms by (simp add: token_defs)
  show "go_slice (36 + i) (36 + j) ([m, 0, 0, 0] @ a @ b @ r) = go_slice i j r"
    using go_slice_append [OF len, of i j r] by simp
qed (use assms in \<open>simp_all add: token_defs go_slice_def\<close>)

lemma parseAttachRequest_bytes:
  assumes "request_ok req"
  shows "parseAttachRequest (attachRequestBytes req) = Inr req"
proof -
  have t: "token_ok (rq_connectionID req)" "token_ok (rq_resumeSecret req)"
    using assms by (auto simp: request_ok_def)
  from token_layout(1-3) [OF t, of "rq_mode req" "PutUint64 (rq_lastRecvSeq req)"]
    token_layout(4) [OF t, of 0 8 "rq_mode req" "PutUint64 (rq_lastRecvSeq req)"]
  show ?thesis
    unfolding parseAttachRequest_def attachRequestBytes_def by (simp add: go_slice_all)
qed

interpretation attach_request: wire_format
    attachRequestBytes parseAttachRequest attachRequestLen request_ok
  by unfold_locales
     (auto simp: attachRequestBytes_def attachRequestLen_def request_ok_def token_defs
           intro: parseAttachRequest_bytes [unfolded attachRequestBytes_def, simplified])

lemma Millisecond_dvd_le:
  "Millisecond dvd d \<Longrightarrow> 0 < d \<Longrightarrow> Millisecond \<le> d"
  by (rule zdvd_imp_le)

lemma whole_millis_roundtrip:
  assumes "whole_millis n"
  shows "\<exists>e. encodeNegotiatedRecoveryOptions n = Inr e \<and>
           decodeNegotiatedRecoveryOptions (en_ackEvery e) (en_ackDelayMS e)
             (en_heartbeatIntervalMS e) (en_heartbeatTimeoutMS e) = Inr n"
proof -
  from assms have v: "negotiated_valid n" and d: "Millisecond dvd no_AckDelay n"
    "Millisecond dvd no_HeartbeatInterval n" "Millisecond dvd no_HeartbeatTimeout n"
    and b: "no_AckDelay n < 4294967296 * Millisecond" "no_HeartbeatTimeout n < 4294967296 * Millisecond"
    by (auto simp: whole_millis_def)
  have "Millisecond \<le> no_AckDelay n" "Millisecond \<le> no_HeartbeatInterval n"
    using v d Millisecond_dvd_le by (auto simp: negotiated_valid_def)
  from negotiated_wire [OF v this b] d show ?thesis by auto
qed

lemma parseAttachResponse_bytes:
  assumes t: "token_ok (rs_connectionID resp)" "token_ok (rs_resumeSecret resp)"
  shows "parseAttachResponse (attachResponseBytes resp n) =
     (case decodeNegotiatedRecoveryOptions (en_ackEvery n) (en_ackDelayMS n)
             (en_heartbeatIntervalMS n) (en_heartbeatTimeoutMS n) of
        Inl e \<Rightarrow> Inl e | Inr m \<Rightarrow> Inr (resp\<lparr>rs_negotiated := m\<rparr>))"
proof -
  let ?r = "PutUint64 (rs_lastRecvSeq resp) @ PutUint32 (en_ackEvery n) @ PutUint32 (en_ackDelayMS n) @
     PutUint32 (en_heartbeatIntervalMS n) @ PutUint32 (en_heartbeatTimeoutMS n)"
  note l = token_layout(1-3) [OF t, of "rs_status resp" ?r]
    token_layout(4) [OF t, of 0 8 "rs_status resp" ?r] token_layout(4) [OF t, of 8 12 "rs_status resp" ?r]
    token_layout(4) [OF t, of 12 16 "rs_status resp" ?r] token_layout(4) [OF t, of 16 20 "rs_status resp" ?r]
    token_layout(4) [OF t, of 20 24 "rs_status resp" ?r]
  have "go_slice 0 8 ?r = PutUint64 (rs_lastRecvSeq resp)" "go_slice 8 12 ?r = PutUint32 (en_ackEvery n)"
    "go_slice 12 16 ?r = PutUint32 (en_ackDelayMS n)" "go_slice 16 20 ?r = PutUint32 (en_heartbeatIntervalMS n)"
    "go_slice 20 24 ?r = PutUint32 (en_heartbeatTimeoutMS n)"
    by (simp_all add: go_slice_def)
  with l show ?thesis
    unfolding parseAttachResponse_def attachResponseBytes_def by (simp split: sum.split)
qed

lemma response_roundtrip:
  assumes "response_ok resp"
  shows "length (responseEnc resp) = attachResponseLen \<and> parseAttachResponse (responseEnc resp) = Inr resp"
proof -
  from assms have t: "token_ok (rs_connectionID resp)" "token_ok (rs_resumeSecret resp)"
    and w: "whole_millis (rs_negotiated resp)" by (auto simp: response_ok_def)
  from whole_millis_roundtrip [OF w] obtain e where
    "encodeNegotiatedRecoveryOptions (rs_negotiated resp) = Inr e"
    "decodeNegotiatedRecoveryOptions (en_ackEvery e) (en_ackDelayMS e)
             (en_heartbeatIntervalMS e) (en_heartbeatTimeoutMS e) = Inr (rs_negotiated resp)" by blast
  with parseAttachResponse_bytes [OF t, of e] t show ?thesis
    by (simp add: responseEnc_def) (simp add: attachResponseBytes_def token_defs attachResponseLen_def)
qed

interpretation attach_response: wire_format
    responseEnc parseAttachResponse attachResponseLen response_ok
  by unfold_locales (simp_all add: response_roundtrip)

text \<open>The control payloads as one format: an ACK with its number, a PING or a CLOSE.\<close>

interpretation control_ack: wire_format
    buildAckControlPayload
    "\<lambda>bs. case parseControlPayload bs of Inl e \<Rightarrow> Inl e | Inr (t, n) \<Rightarrow> Inr n"
    controlAckFrameLen "\<lambda>_. True"
  by unfold_locales
     (simp_all add: buildAckControlPayload_def controlAckFrameLen_def parseControlPayload_def go_slice_def)

text \<open>A resume request and a response, for examples.\<close>

definition sampleRequest :: attachRequest where
  "sampleRequest = \<lparr>rq_mode = attachModeResume, rq_connectionID = replicate 16 1, rq_resumeSecret = replicate 16 2,
     rq_lastRecvSeq = 300\<rparr>"

definition sampleResponse :: attachResponse where
  "sampleResponse = \<lparr>rs_status = attachStatusOK, rs_connectionID = replicate 16 1,
     rs_resumeSecret = replicate 16 2, rs_lastRecvSeq = 300, rs_negotiated = sampleNegotiated\<rparr>"

section \<open>Properties\<close>

text \<open>An attach request written by the client is read back by the server field for field, and the
  reader stops exactly at its end, so that the frames behind it are left for the frame reader; cut
  short anywhere, it is an error.\<close>

theorem attach_request_roundtrip:
  assumes ok: "request_ok req" and "nc_room c = None" and "nc_out c = []"
    and W: "writeAttachRequest c req = (e, c')"
  shows "e = None \<and>
         readAttachRequest (s\<lparr>nc_in := nc_out c' @ rest\<rparr>) = (Inr req, s\<lparr>nc_in := rest\<rparr>) \<and>
         (\<forall>k < length (nc_out c'). \<exists>err s'. readAttachRequest (s\<lparr>nc_in := take k (nc_out c')\<rparr>) = (Inl err, s'))"
proof -
  have out: "e = None" "nc_out c' = attachRequestBytes req"
    using W assms(2,3) by (auto simp: writeAttachRequest_def writeFull_conn_room)
  have "readAttachRequest (s\<lparr>nc_in := nc_out c' @ rest\<rparr>) = (Inr req, s\<lparr>nc_in := rest\<rparr>)"
    using attach_request.readWith_enc [OF ok, of "s\<lparr>nc_in := nc_out c' @ rest\<rparr>" rest] out
    by (simp add: readAttachRequest_def)
  moreover have "\<exists>err s'. readAttachRequest (s\<lparr>nc_in := take k (nc_out c')\<rparr>) = (Inl err, s')"
    if "k < length (nc_out c')" for k
    using that out attach_request.enc_len [OF ok] unfolding readAttachRequest_def
    by (intro attach_request.readWith_short) simp
  ultimately show ?thesis using out by blast
qed

theorem attach_request_roundtrip_witness:
  "readAttachRequest (sampleConn\<lparr>nc_in := nc_out (snd (writeAttachRequest sampleConn sampleRequest)) @ [7]\<rparr>) =
     (Inr sampleRequest, sampleConn\<lparr>nc_in := [7]\<rparr>)"
proof -
  have ok: "request_ok sampleRequest"
    by (simp add: request_ok_def token_defs sampleRequest_def)
  have c: "nc_room sampleConn = None" "nc_out sampleConn = []" by (simp_all add: sampleConn_def)
  from attach_request_roundtrip [OF ok c prod.collapse [symmetric]] show ?thesis by blast
qed

text \<open>An attach response that the server can write is read by the client as the same status,
  tokens and sequence number, with the options rounded to milliseconds when they are at least one
  millisecond; options that are whole milliseconds arrive unchanged.\<close>

theorem attach_response_roundtrip:
  assumes t: "token_ok (rs_connectionID resp)" "token_ok (rs_resumeSecret resp)"
    and n: "negotiated_valid (rs_negotiated resp)"
      "Millisecond \<le> no_AckDelay (rs_negotiated resp)"
      "Millisecond \<le> no_HeartbeatInterval (rs_negotiated resp)"
      "no_AckDelay (rs_negotiated resp) < 4294967296 * Millisecond"
      "no_HeartbeatTimeout (rs_negotiated resp) < 4294967296 * Millisecond"
    and room: "nc_room s = None" "nc_out s = []"
  shows "\<exists>s' m. writeAttachResponse s resp = (None, s') \<and>
           readAttachResponse (c\<lparr>nc_in := nc_out s' @ rest\<rparr>) =
             (Inr (resp\<lparr>rs_negotiated := m\<rparr>), c\<lparr>nc_in := rest\<rparr>) \<and> negotiated_valid m \<and>
           (whole_millis (rs_negotiated resp) \<longrightarrow> m = rs_negotiated resp)"
proof -
  from negotiated_wire [OF n] obtain e m where
    e: "encodeNegotiatedRecoveryOptions (rs_negotiated resp) = Inr e"
    and m: "decodeNegotiatedRecoveryOptions (en_ackEvery e) (en_ackDelayMS e)
             (en_heartbeatIntervalMS e) (en_heartbeatTimeoutMS e) = Inr m"
    and v: "negotiated_valid m" by blast
  let ?bs = "attachResponseBytes resp e"
  have W: "writeAttachResponse s resp = (None, s\<lparr>nc_out := ?bs\<rparr>)"
    using room e by (simp add: writeAttachResponse_def writeFull_conn_room)
  have "length ?bs = attachResponseLen"
    using t by (simp add: attachResponseBytes_def token_defs attachResponseLen_def)
  then have "ReadFull attachResponseLen (c\<lparr>nc_in := ?bs @ rest\<rparr>) = (Inr ?bs, c\<lparr>nc_in := rest\<rparr>)"
    by (simp add: ReadFull_append [where ys = rest])
  with m parseAttachResponse_bytes [OF t, of e]
  have R: "readAttachResponse (c\<lparr>nc_in := ?bs @ rest\<rparr>) =
      (Inr (resp\<lparr>rs_negotiated := m\<rparr>), c\<lparr>nc_in := rest\<rparr>)"
    by (simp add: readAttachResponse_def readWith_def)
  have "whole_millis (rs_negotiated resp) \<longrightarrow> m = rs_negotiated resp"
    using whole_millis_roundtrip e m by fastforce
  with W R v show ?thesis by (intro exI [of _ "s\<lparr>nc_out := ?bs\<rparr>"] exI [of _ m]) simp
qed

theorem attach_response_roundtrip_witness:
  "\<exists>s' m. writeAttachResponse sampleConn sampleResponse = (None, s') \<and>
     readAttachResponse (sampleConn\<lparr>nc_in := nc_out s' @ [7]\<rparr>) =
       (Inr (sampleResponse\<lparr>rs_negotiated := m\<rparr>), sampleConn\<lparr>nc_in := [7]\<rparr>) \<and> negotiated_valid m"
proof -
  have t: "token_ok (rs_connectionID sampleResponse)" "token_ok (rs_resumeSecret sampleResponse)"
    by (simp_all add: token_defs sampleResponse_def)
  have n: "negotiated_valid (rs_negotiated sampleResponse)"
    using sampleNegotiated_valid by (simp add: sampleResponse_def)
  have c: "nc_room sampleConn = None" "nc_out sampleConn = []" by (simp_all add: sampleConn_def)
  from attach_response_roundtrip [OF t n _ _ _ _ c] show ?thesis
    by (simp add: sampleResponse_def sampleNegotiated_def Millisecond_def) blast
qed

text \<open>The control payloads: the parser accepts exactly the three payloads the builders make, an
  ACK with its own number and the one-byte PING and CLOSE; any other payload is an error.\<close>

theorem control_payload_exact:
  "parseControlPayload p = Inr (t, n) \<longleftrightarrow>
     (t = controlTypeAck \<and> p = buildAckControlPayload n) \<or>
     (t = controlTypePing \<and> n = 0 \<and> p = buildPingControlPayload) \<or>
     (t = controlTypeClose \<and> n = 0 \<and> p = buildCloseControlPayload)"
proof (cases p)
  case Nil
  then show ?thesis
    by (simp add: parseControlPayload_def buildAckControlPayload_def buildPingControlPayload_def
          buildCloseControlPayload_def)
next
  case (Cons b bs)
  have "length bs = 8 \<Longrightarrow> bs = PutUint64 n \<longleftrightarrow> Uint64 bs = n"
    using Put_Uint64 [of bs] by auto
  moreover have "length bs \<noteq> 8 \<Longrightarrow> bs \<noteq> PutUint64 n" by auto
  ultimately show ?thesis using Cons
    by (auto simp: parseControlPayload_def buildAckControlPayload_def buildPingControlPayload_def
          buildCloseControlPayload_def controlTypeAck_def controlTypePing_def controlTypeClose_def
          controlAckFrameLen_def controlHeartbeatLen_def controlCloseLen_def go_slice_def)
qed

end
