(* ===== verification/Recovery_State.thy ===== *)
theory Recovery_State
  imports Replay Recovery_Protocol
begin

text \<open>
  The state that both goroutines of a recoverable connection share (\<^verbatim>\<open>recoveryState\<close> of
  \<^verbatim>\<open>src/recovery_runtime.go\<close>) and its operations that do not touch the connection. The mutex and the
  atomics make each operation one step; the clock is passed in as \<open>now\<close>, in Unix nanoseconds. The
  calls of \<^verbatim>\<open>c.signalSend()\<close> are the returned flag of \<open>noteReceived\<close>. The expiry timer is the
  time at which it fires. \<open>r_server\<close> says whether the server pointer is set; the effects on the
  server and on the connection are in the theories above this one.
\<close>

datatype recoveryRole = recoveryRoleClient | recoveryRoleServer

datatype pendingControl = pendingControlNone | pendingControlAck

record recoveryState =
  r_role :: recoveryRole
  r_server :: bool
  r_addr :: string
  r_timeout :: Duration
  r_reconnectMinBackoff :: Duration
  r_reconnectMaxBackoff :: Duration
  r_detachedTTL :: Duration
  r_connectionID :: recoveryToken
  r_resumeSecret :: recoveryToken
  r_replay :: replayBuffer
  r_reconnectActive :: bool
  r_resumeDepth :: int
  r_shared :: negotiatedRecoveryOptions
  r_ackEvery :: u32
  r_ackDelayNanos :: int
  r_heartbeatIntv :: int
  r_heartbeatTO :: int
  r_lastRecvSeq :: u64
  r_lastAckSent :: u64
  r_ackPending :: u32
  r_ackDue :: bool
  r_ackDueAt :: int
  r_expireTimer :: "int option"

definition setNegotiated :: "negotiatedRecoveryOptions \<Rightarrow> recoveryState \<Rightarrow> recoveryState" where
  "setNegotiated opts r =
     (let n = normalizedNegotiated opts
      in r\<lparr>r_shared := n, r_ackEvery := no_AckEvery n, r_ackDelayNanos := no_AckDelay n,
           r_heartbeatIntv := no_HeartbeatInterval n, r_heartbeatTO := no_HeartbeatTimeout n\<rparr>)"

text \<open>The zero value of the Go struct, with the given role, tokens and replay buffer.\<close>

definition zeroRecoveryState ::
    "recoveryRole \<Rightarrow> recoveryToken \<Rightarrow> recoveryToken \<Rightarrow> replayBuffer \<Rightarrow> recoveryState" where
  "zeroRecoveryState role connectionID resumeSecret replay =
     \<lparr>r_role = role, r_server = False, r_addr = '''', r_timeout = 0, r_reconnectMinBackoff = 0,
      r_reconnectMaxBackoff = 0, r_detachedTTL = 0, r_connectionID = connectionID,
      r_resumeSecret = resumeSecret, r_replay = replay, r_reconnectActive = False, r_resumeDepth = 0,
      r_shared = \<lparr>no_AckEvery = 0, no_AckDelay = 0, no_HeartbeatInterval = 0, no_HeartbeatTimeout = 0\<rparr>,
      r_ackEvery = 0, r_ackDelayNanos = 0, r_heartbeatIntv = 0, r_heartbeatTO = 0, r_lastRecvSeq = 0,
      r_lastAckSent = 0, r_ackPending = 0, r_ackDue = False, r_ackDueAt = 0, r_expireTimer = None\<rparr>"

definition newClientRecoveryState ::
    "ClientRecoveryOptions \<Rightarrow> negotiatedRecoveryOptions \<Rightarrow> string \<Rightarrow> Duration \<Rightarrow> recoveryToken \<Rightarrow>
     recoveryToken \<Rightarrow> recoveryState" where
  "newClientRecoveryState opts neg addr timeout connectionID resumeSecret =
     (let n = normalizedClient opts
      in setNegotiated neg
           ((zeroRecoveryState recoveryRoleClient connectionID resumeSecret
               (newReplayBuffer protocolVersionV3 (co_MaxReplayBytes n)))
            \<lparr>r_addr := addr, r_timeout := timeout,
             r_reconnectMinBackoff := co_ReconnectMinBackoff n,
             r_reconnectMaxBackoff := co_ReconnectMaxBackoff n\<rparr>))"

definition newServerRecoveryState ::
    "ServerRecoveryOptions \<Rightarrow> bool \<Rightarrow> recoveryToken \<Rightarrow> recoveryToken \<Rightarrow> recoveryState" where
  "newServerRecoveryState opts server connectionID resumeSecret =
     (let n = normalizedServer opts
      in setNegotiated (negotiated n)
           ((zeroRecoveryState recoveryRoleServer connectionID resumeSecret
               (newReplayBuffer protocolVersionV3 (so_MaxReplayBytes n)))
            \<lparr>r_server := server, r_detachedTTL := so_DetachedTTL n\<rparr>))"

definition lastReceived :: "recoveryState \<Rightarrow> u64" where
  "lastReceived r = r_lastRecvSeq r"

definition ackReceived :: "u64 \<Rightarrow> recoveryState \<Rightarrow> recoveryState" where
  "ackReceived lastSeq r = r\<lparr>r_replay := snd (ack (r_replay r) lastSeq)\<rparr>"

definition prepareResume :: "u64 \<Rightarrow> recoveryState \<Rightarrow> frameRecord list \<times> recoveryState" where
  "prepareResume lastSeq r =
     (let b = snd (ack (r_replay r) lastSeq); frames = snapshotFrom b lastSeq
      in (frames, r\<lparr>r_replay := b, r_resumeDepth := int (length frames)\<rparr>))"

definition noteReceived :: "int \<Rightarrow> u64 \<Rightarrow> recoveryState \<Rightarrow> bool \<times> recoveryState" where
  "noteReceived now seq r =
     (if seq \<le> r_lastRecvSeq r then
        (True, if r_lastAckSent r < r_lastRecvSeq r then r\<lparr>r_ackDue := True\<rparr> else r)
      else
        let r1 = r\<lparr>r_lastRecvSeq := seq, r_ackPending := r_ackPending r + 1\<rparr>;
            ackEvery = r_ackEvery r1
        in if ackEvery \<le> 1 \<or> r_ackPending r1 \<ge> ackEvery
           then (True, r1\<lparr>r_ackDue := True, r_ackDueAt := 0\<rparr>)
           else
             let ackDelay = r_ackDelayNanos r1
             in if ackDelay \<le> 0 then (True, r1\<lparr>r_ackDue := True, r_ackDueAt := 0\<rparr>)
                else if r_ackDueAt r1 = 0 then (True, r1\<lparr>r_ackDueAt := wrap64 (now + ackDelay)\<rparr>)
                else (False, r1))"

definition nextAckWait :: "int \<Rightarrow> recoveryState \<Rightarrow> Duration" where
  "nextAckWait now r =
     (if r_ackDue r then 0
      else if r_ackDueAt r = 0 then 0
      else max (wrap64 (r_ackDueAt r - now)) 0)"

text \<open>\<^verbatim>\<open>takePendingControl\<close> reads the clock before it takes the lock (\<open>now\<close>) and again under it
  (\<open>now'\<close>).\<close>

definition ackNotYetDue :: "int \<Rightarrow> recoveryState \<Rightarrow> bool" where
  "ackNotYetDue now r \<longleftrightarrow> \<not> r_ackDue r \<and> (r_ackDueAt r = 0 \<or> now < r_ackDueAt r)"

definition takePendingControl ::
    "int \<Rightarrow> int \<Rightarrow> recoveryState \<Rightarrow> (pendingControl \<times> u64 \<times> bool) \<times> recoveryState" where
  "takePendingControl now now' r =
     (if ackNotYetDue now r then ((pendingControlNone, 0, False), r)
      else if r_lastAckSent r \<ge> r_lastRecvSeq r
      then ((pendingControlNone, 0, False), r\<lparr>r_ackDue := False, r_ackDueAt := 0\<rparr>)
      else if ackNotYetDue now' r then ((pendingControlNone, 0, False), r)
      else
        let seq = r_lastRecvSeq r
        in ((pendingControlAck, seq, True),
            r\<lparr>r_lastAckSent := seq, r_ackPending := 0, r_ackDue := False, r_ackDueAt := 0\<rparr>))"

text \<open>\<^verbatim>\<open>onAttached\<close>, and the part of \<^verbatim>\<open>onClosed\<close> before the server is told, stop the expiry timer.\<close>

definition onAttached :: "recoveryState \<Rightarrow> recoveryState" where
  "onAttached r = r\<lparr>r_expireTimer := None\<rparr>"

section \<open>Acknowledgement invariant\<close>

text \<open>An ACK is never sent for a frame that was not received, and while a received frame has not been
  acknowledged an ACK is due or scheduled.\<close>

definition ack_inv :: "recoveryState \<Rightarrow> bool" where
  "ack_inv r \<longleftrightarrow> r_lastAckSent r \<le> r_lastRecvSeq r \<and>
     (r_lastAckSent r < r_lastRecvSeq r \<longrightarrow> r_ackDue r \<or> r_ackDueAt r \<noteq> 0)"

text \<open>A reading of the clock for which the deadlines stay within an int64.\<close>

definition clock_ok :: "recoveryState \<Rightarrow> int \<Rightarrow> bool" where
  "clock_ok r now \<longleftrightarrow> 0 \<le> now \<and> now + max 0 (r_ackDelayNanos r) < 2 ^ 63"

lemma ack_due_wrap:
  "clock_ok r now \<Longrightarrow> 0 < r_ackDelayNanos r \<Longrightarrow> wrap64 (now + r_ackDelayNanos r) = now + r_ackDelayNanos r"
  by (intro wrap64_id) (simp add: clock_ok_def int64_ok_def)

lemma noteReceived_inv:
  assumes "ack_inv r" "clock_ok r now"
  shows "ack_inv (snd (noteReceived now seq r))"
  using assms
  by (auto simp: ack_inv_def noteReceived_def Let_def ack_due_wrap clock_ok_def)

lemma noteReceived_recv:
  "r_lastRecvSeq (snd (noteReceived now seq r)) = max (r_lastRecvSeq r) seq"
  by (auto simp: noteReceived_def Let_def max_def)

lemma noteReceived_frame:
  "r_lastAckSent (snd (noteReceived now seq r)) = r_lastAckSent r"
  "r_replay (snd (noteReceived now seq r)) = r_replay r"
  "r_ackEvery (snd (noteReceived now seq r)) = r_ackEvery r"
  "r_ackDelayNanos (snd (noteReceived now seq r)) = r_ackDelayNanos r"
  by (auto simp: noteReceived_def Let_def)

lemma takePendingControl_inv:
  "ack_inv r \<Longrightarrow> ack_inv (snd (takePendingControl now now' r))"
  by (auto simp: ack_inv_def takePendingControl_def Let_def)

lemma takePendingControl_frame:
  "r_lastRecvSeq (snd (takePendingControl now now' r)) = r_lastRecvSeq r"
  "r_replay (snd (takePendingControl now now' r)) = r_replay r"
  "r_ackEvery (snd (takePendingControl now now' r)) = r_ackEvery r"
  "r_ackDelayNanos (snd (takePendingControl now now' r)) = r_ackDelayNanos r"
  by (auto simp: takePendingControl_def Let_def)

lemma takePendingControl_seq:
  "fst (takePendingControl now now' r) = (k, s, ok) \<Longrightarrow>
     (ok \<longleftrightarrow> k = pendingControlAck) \<and> (ok \<longrightarrow> s = r_lastRecvSeq r \<and> r_lastAckSent r < s)"
  by (auto simp: takePendingControl_def Let_def split: if_splits)

lemma zeroRecoveryState_ack: "ack_inv (setNegotiated n (zeroRecoveryState role i s b))"
  by (simp add: ack_inv_def setNegotiated_def zeroRecoveryState_def Let_def)

lemma new_state_ack:
  "ack_inv (newClientRecoveryState co n addr tmo i s)" "ack_inv (newServerRecoveryState so srv i s)"
  by (simp_all add: ack_inv_def newClientRecoveryState_def newServerRecoveryState_def setNegotiated_def
        zeroRecoveryState_def Let_def)

text \<open>Normalised options give a replay buffer with a positive limit.\<close>

lemma new_state_replay:
  assumes "co_MaxReplayBytes co < 2 ^ 62" "so_MaxReplayBytes so < 2 ^ 62"
  shows "replay_ok (r_replay (newClientRecoveryState co n addr tmo i s))"
    and "replay_ok (r_replay (newServerRecoveryState so srv i s))"
  using assms
  by (auto simp: newClientRecoveryState_def newServerRecoveryState_def setNegotiated_def
        zeroRecoveryState_def normalizedClient_def normalizedServer_def orDefault_def Let_def
        option_defaults intro!: newReplayBuffer_ok)

section \<open>The receiving side over time\<close>

text \<open>What happens to the acknowledgement state: a frame arrives, or the writer asks for an ACK.\<close>

datatype ackEvent = FrameIn int u64 | AckPoll int int

fun ackStep :: "ackEvent \<Rightarrow> recoveryState \<Rightarrow> u64 list \<times> recoveryState" where
  "ackStep (FrameIn now seq) r = ([], snd (noteReceived now seq r))"
| "ackStep (AckPoll now now') r =
     (case takePendingControl now now' r of
        ((_, s, True), r') \<Rightarrow> ([s], r')
      | (_, r') \<Rightarrow> ([], r'))"

fun ackRun :: "ackEvent list \<Rightarrow> recoveryState \<Rightarrow> u64 list \<times> recoveryState" where
  "ackRun [] r = ([], r)"
| "ackRun (e # es) r =
     (case ackStep e r of (out, r') \<Rightarrow> case ackRun es r' of (out', r'') \<Rightarrow> (out @ out', r''))"

fun event_clock :: "recoveryState \<Rightarrow> ackEvent \<Rightarrow> bool" where
  "event_clock r (FrameIn now seq) \<longleftrightarrow> clock_ok r now"
| "event_clock r (AckPoll now now') \<longleftrightarrow> True"

lemma ackStep_spec:
  assumes "ack_inv r" "event_clock r e" and S: "ackStep e r = (out, r')"
  shows "ack_inv r' \<and> r_lastRecvSeq r \<le> r_lastRecvSeq r' \<and> r_lastAckSent r \<le> r_lastAckSent r' \<and>
         r_ackDelayNanos r' = r_ackDelayNanos r \<and> r_ackEvery r' = r_ackEvery r \<and>
         (out = [] \<and> r_lastAckSent r' = r_lastAckSent r \<or>
          out = [r_lastAckSent r'] \<and> r_lastAckSent r < r_lastAckSent r' \<and>
          r_lastAckSent r' = r_lastRecvSeq r')"
proof (cases e)
  case (FrameIn now seq)
  with assms noteReceived_inv [of r now seq] show ?thesis
    by (auto simp: noteReceived_recv noteReceived_frame)
next
  case (AckPoll now now')
  with assms(3) takePendingControl_inv [OF assms(1), of now now']
  show ?thesis
    by (auto simp: takePendingControl_def Let_def split: if_splits)
qed

lemma event_clock_cong: "r_ackDelayNanos r' = r_ackDelayNanos r \<Longrightarrow> event_clock r' = event_clock r"
  by (rule ext) (case_tac x; simp add: clock_ok_def)

lemma ackRun_spec:
  assumes "ack_inv r" "list_all (event_clock r) es" and "ackRun es r = (out, r')"
  shows "ack_inv r' \<and> r_lastRecvSeq r \<le> r_lastRecvSeq r' \<and> r_ackDelayNanos r' = r_ackDelayNanos r \<and>
         r_ackEvery r' = r_ackEvery r \<and>
         sorted_wrt (<) (r_lastAckSent r # out) \<and> r_lastAckSent r' = last (r_lastAckSent r # out)"
  using assms
proof (induction es arbitrary: r out)
  case Nil
  then show ?case by simp
next
  case (Cons e es)
  obtain o1 r1 where S: "ackStep e r = (o1, r1)" by (cases "ackStep e r")
  obtain o2 where R: "ackRun es r1 = (o2, r')" and out: "out = o1 @ o2"
    using Cons.prems(3) S by (auto split: prod.splits)
  have step: "ack_inv r1" "r_lastRecvSeq r \<le> r_lastRecvSeq r1" "r_ackDelayNanos r1 = r_ackDelayNanos r"
      "r_ackEvery r1 = r_ackEvery r"
      "o1 = [] \<and> r_lastAckSent r1 = r_lastAckSent r \<or>
       o1 = [r_lastAckSent r1] \<and> r_lastAckSent r < r_lastAckSent r1"
    using ackStep_spec [OF Cons.prems(1) _ S] Cons.prems(2) by auto
  have clock: "list_all (event_clock r1) es"
    using Cons.prems(2) event_clock_cong [OF step(3)] by simp
  from Cons.IH [OF step(1) clock R] step out show ?case
    by (auto dest: less_trans)
qed

text \<open>The frame \<open>seq\<close> is received, and it is acknowledged or its ACK is due by time \<open>T\<close>.\<close>

definition acked_by :: "int \<Rightarrow> u64 \<Rightarrow> recoveryState \<Rightarrow> bool" where
  "acked_by T seq r \<longleftrightarrow> seq \<le> r_lastRecvSeq r \<and>
     (seq \<le> r_lastAckSent r \<or> r_ackDue r \<or> r_ackDueAt r \<noteq> 0 \<and> r_ackDueAt r \<le> T)"

lemma acked_by_step:
  assumes "acked_by T seq r" and "ackStep e r = (out, r')"
  shows "acked_by T seq r'"
proof (cases e)
  case (FrameIn now s)
  with assms show ?thesis by (auto simp: acked_by_def noteReceived_def Let_def split: if_splits)
next
  case (AckPoll now now')
  with assms show ?thesis
    by (auto simp: acked_by_def takePendingControl_def Let_def split: if_splits)
qed

lemma acked_by_run:
  "acked_by T seq r \<Longrightarrow> ackRun es r = (out, r') \<Longrightarrow> acked_by T seq r'"
  by (induction es arbitrary: r out) (auto split: prod.splits dest: acked_by_step)

lemma ackRun_append:
  "ackRun (es @ fs) r =
     (case ackRun es r of (o1, r1) \<Rightarrow> case ackRun fs r1 of (o2, r2) \<Rightarrow> (o1 @ o2, r2))"
  by (induction es arbitrary: r) (auto split: prod.splits)

text \<open>A server state with an ACK every 64 frames and a delay of 20 ms, for examples.\<close>

definition sampleState :: recoveryState where
  "sampleState = newServerRecoveryState defaultServerRecoveryOptions True zeroToken zeroToken"

section \<open>Properties\<close>

text \<open>C26. The acknowledgements that a connection sends are strictly increasing, none exceeds the last
  frame received at the time it is sent, and the last one sent is what the state records; and at
  any time a frame that is received and not yet acknowledged has an ACK due or scheduled, so no
  acknowledgement is forgotten.\<close>

theorem acks_increase:
  assumes "list_all (event_clock r) es" and "ack_inv r" and "ackRun es r = (out, r')"
  shows "sorted_wrt (<) out \<and> (\<forall>s \<in> set out. r_lastAckSent r < s \<and> s \<le> r_lastRecvSeq r') \<and>
         r_lastAckSent r' = last (r_lastAckSent r # out) \<and>
         (r_lastAckSent r' < r_lastRecvSeq r' \<longrightarrow> r_ackDue r' \<or> r_ackDueAt r' \<noteq> 0)"
proof -
  note spec = ackRun_spec [OF assms(2,1,3)]
  then have le: "r_lastAckSent r' \<le> r_lastRecvSeq r'" unfolding ack_inv_def by blast
  have "s \<le> last (r_lastAckSent r # out)" if "s \<in> set out" for s
  proof -
    from that obtain xs ys where "out = xs @ s # ys" by (auto dest: split_list)
    with spec show ?thesis by (cases ys rule: rev_cases) (auto simp: sorted_wrt_append intro: less_imp_le)
  qed
  with spec le have "\<forall>s \<in> set out. r_lastAckSent r < s \<and> s \<le> r_lastRecvSeq r'"
    by (metis order_trans sorted_wrt.simps(2))
  with spec show ?thesis by (simp add: ack_inv_def)
qed

theorem acks_increase_witness:
  "fst (ackRun [FrameIn 100 1, FrameIn 200 2, AckPoll 20000100 20000100, FrameIn 20000200 3] sampleState) = [2] \<and>
   r_ackDueAt (snd (ackRun [FrameIn 100 1, FrameIn 200 2, AckPoll 20000100 20000100, FrameIn 20000200 3] sampleState)) \<noteq> 0"
proof -
  let ?es = "[FrameIn 100 1, FrameIn 200 2, AckPoll 20000100 20000100, FrameIn 20000200 3]"
  have c: "list_all (event_clock sampleState) ?es" and "ack_inv sampleState" by code_simp+
  note A = acks_increase [OF this prod.collapse [symmetric]]
  have "fst (ackRun ?es sampleState) = [2]" "\<not> r_ackDue (snd (ackRun ?es sampleState))"
    "r_lastRecvSeq (snd (ackRun ?es sampleState)) = 3" "r_lastAckSent sampleState = 0" by code_simp+
  with A show ?thesis by simp
qed

text \<open>C33. An acknowledgement is prompt: when a new frame arrives at time \<open>t\<close>, and no ACK is scheduled
  later than \<open>t\<close> plus the ACK delay, then whatever else happens, once the writer has polled at or
  after \<open>t\<close> plus the ACK delay the frame is acknowledged.\<close>

theorem ack_within_delay:
  assumes clock: "clock_ok r t" and new: "r_lastRecvSeq r < seq"
    and sched: "r_ackDueAt r \<le> t + max 0 (r_ackDelayNanos r)"
    and due: "t + max 0 (r_ackDelayNanos r) \<le> p" "p \<le> p'"
    and run: "ackRun (FrameIn t seq # es @ [AckPoll p p']) r = (out, r')"
  shows "seq \<le> r_lastAckSent r'"
proof -
  let ?T = "t + max 0 (r_ackDelayNanos r)"
  let ?r = "snd (noteReceived t seq r)"
  have a: "acked_by ?T seq ?r"
    using clock new sched
    by (auto simp: acked_by_def noteReceived_def Let_def ack_due_wrap clock_ok_def)
  obtain o1 r1 where R: "ackRun es ?r = (o1, r1)" by (cases "ackRun es ?r")
  from acked_by_run [OF a R] have "acked_by ?T seq r1" .
  moreover have "\<exists>c. takePendingControl p p' r1 = (c, r')"
    using run R by (auto simp: ackRun_append split: prod.splits bool.splits)
  ultimately show ?thesis
    using due by (auto simp: acked_by_def takePendingControl_def ackNotYetDue_def Let_def split: if_splits)
qed

theorem ack_within_delay_witness:
  "(1 :: u64) \<le> r_lastAckSent (snd (ackRun (FrameIn 100 1 # [FrameIn 200 2] @ [AckPoll 20000100 20000100]) sampleState))"
proof -
  have "clock_ok sampleState 100" "r_lastRecvSeq sampleState < 1"
    "r_ackDueAt sampleState \<le> 100 + max 0 (r_ackDelayNanos sampleState)"
    "100 + max 0 (r_ackDelayNanos sampleState) \<le> 20000100" by code_simp+
  from ack_within_delay [OF this order_refl prod.collapse [symmetric]] show ?thesis .
qed

end
