(* ===== verification/Conn_State.thy ===== *)
theory Conn_State
  imports Recovery_State "HOL-Library.AList"
begin

text \<open>
  The data of \<^verbatim>\<open>src/connection.go\<close>, \<^verbatim>\<open>src/stream.go\<close>, \<^verbatim>\<open>src/raw_message.go\<close> and
  \<^verbatim>\<open>src/codec.go\<close>: channels, codecs as records of their methods, streams and the connection.

  Pointers to a stream outlive its entry in the \<^verbatim>\<open>streams\<close> map, so streams live in a store
  \<open>c_heap\<close>, a list indexed by address, and the map holds addresses; a \<^verbatim>\<open>*StreamContext\<close> is the
  address of its stream. A transport is known by a number; \<open>c_netClosed\<close> are the transports that
  were closed, \<open>c_netHalfClosed\<close> those whose sending half was. The channel of a sender that waits for the recovery writer's verdict is a number
  with its slot in \<open>c_verdicts\<close>; the channels that \<^verbatim>\<open>Close\<close> waits for are numbers, in
  \<open>c_finished\<close> once they are closed. \<open>c_callbacks\<close> records the calls of \<^verbatim>\<open>onNewStream\<close> and
  \<^verbatim>\<open>onCloseStream\<close>, \<open>c_spawned\<close> the goroutines started, in order. \<^verbatim>\<open>closeOnce\<close>, \<^verbatim>\<open>closeCh\<close> and
  \<^verbatim>\<open>closed\<close> change together, at the start of the one body that runs, so \<open>c_closed\<close> stands for
  all three.

  A map that Go iterates over is an association list; Go visits its entries in some order, the
  model in the order of the list.
\<close>

section \<open>Channels\<close>

record 'a chan =
  ch_buf :: "'a list"
  ch_cap :: nat
  ch_closed :: bool

definition make_chan :: "nat \<Rightarrow> 'a chan" where
  "make_chan n = \<lparr>ch_buf = [], ch_cap = n, ch_closed = False\<rparr>"

definition ch_room :: "'a chan \<Rightarrow> bool" where
  "ch_room ch \<longleftrightarrow> length (ch_buf ch) < ch_cap ch"

definition ch_send :: "'a \<Rightarrow> 'a chan \<Rightarrow> 'a chan" where
  "ch_send x ch = ch\<lparr>ch_buf := ch_buf ch @ [x]\<rparr>"

definition ch_close :: "'a chan \<Rightarrow> 'a chan" where
  "ch_close ch = ch\<lparr>ch_closed := True\<rparr>"

text \<open>The ways a blocking call can end, one entry per ready case of its \<^verbatim>\<open>select\<close>; none while it
  blocks.\<close>

type_synonym 'a outcomes = "'a list"

section \<open>Codecs, messages and the registry\<close>

record ('m, 'b) CodecImpl =
  codec_ID :: CodecID
  codec_Name :: string
  codec_Encode :: "'m \<Rightarrow> bytes result"
  codec_DecodeEnvelope :: "bytes \<Rightarrow> (string \<times> 'b) result"
  codec_DecodeInto :: "'b \<Rightarrow> 'm \<Rightarrow> 'm result"

record ('m, 'b) rawMessage =
  rm_Wire :: string
  rm_Codec :: "('m, 'b) CodecImpl"
  rm_Body :: 'b

record ('m, 'h) handlerJob =
  hj_handler :: 'h
  hj_msg :: 'm

text \<open>The maps of a registry: wire name to handler, and wire name to the zero message of its type.\<close>

record ('m, 'h) registryTypes =
  rt_handlers :: "(string \<times> 'h) list"
  rt_messages :: "(string \<times> 'm) list"

definition reg_handler :: "('m, 'h) registryTypes \<Rightarrow> string \<Rightarrow> 'h option" where
  "reg_handler reg wire = map_of (rt_handlers reg) wire"

definition reg_message :: "('m, 'h) registryTypes \<Rightarrow> string \<Rightarrow> 'm option" where
  "reg_message reg wire = map_of (rt_messages reg) wire"

definition hasHandlers :: "('m, 'h) registryTypes \<Rightarrow> bool" where
  "hasHandlers reg \<longleftrightarrow> length (rt_handlers reg) > 0"

definition newRawMessageFromPayload ::
    "('m, 'b) CodecImpl \<Rightarrow> bytes \<Rightarrow> ('m, 'b) rawMessage result" where
  "newRawMessageFromPayload codec payload =
     (case codec_DecodeEnvelope codec payload of
        Inl e \<Rightarrow> Inl e
      | Inr (wire, body) \<Rightarrow> Inr \<lparr>rm_Wire = wire, rm_Codec = codec, rm_Body = body\<rparr>)"

definition decodeRawWithRegistry ::
    "('m, 'b) rawMessage \<Rightarrow> ('m, 'h) registryTypes \<Rightarrow> 'm result" where
  "decodeRawWithRegistry raw reg =
     (case reg_message reg (rm_Wire raw) of
        None \<Rightarrow> Inl (ErrUnknownMessage (rm_Wire raw))
      | Some zero \<Rightarrow> codec_DecodeInto (rm_Codec raw) (rm_Body raw) zero)"

section \<open>Streams\<close>

record ('m, 'b, 'h) Stream =
  s_id :: u32
  s_debug :: streamDebugCounters
  s_inbox :: "('m, 'b) rawMessage chan"
  s_incoming :: "bytes option chan option"
  s_handlerCh :: "('m, 'h) handlerJob chan option"
  s_done :: "bool option"
  s_recvTimeoutNanos :: int
  s_recvActive :: bool
  s_peeked :: "('m, 'b) rawMessage option"
  s_staleReplies :: nat
  s_closed :: bool
  s_closeOnce :: bool
  s_queued :: "nat option"

type_synonym streamRef = nat

datatype callback = NewStreamCall streamRef | CloseStreamCall streamRef

datatype goroutine =
    HandlerLoop streamRef
  | DecodeLoop streamRef
  | ReconnectLoop
  | WriterLoop
  | ReaderLoop
  | RecoveryWriterLoop
  | RecoveryReaderLoop

section \<open>Connections\<close>

record ('m, 'b, 'h) Connection =
  c_conn :: "nat option"
  c_registry :: "('m, 'h) registryTypes"
  c_handlersEnabled :: bool
  c_recvTimeout :: Duration
  c_streamQueueSize :: int
  c_config :: "('m, 'b) CodecImpl connConfig"
  c_debug :: connectionDebugCounters
  c_outbound :: "outboundFrame chan"
  c_sendNotify :: bool
  c_streams :: "(u32 \<times> streamRef) list"
  c_closedPeerStreams :: "u32 list"
  c_nextStreamID :: u64
  c_defaultStreamView :: "streamRef option"
  c_onNewStream :: bool
  c_onCloseStream :: bool
  c_nextSendSeq :: u64
  c_transportGen :: u64
  c_transportResume :: u64
  c_recovery :: "recoveryState option"
  c_closing :: bool
  c_closed :: bool
  c_heap :: "('m, 'b, 'h) Stream list"
  c_netClosed :: "nat list"
  c_netHalfClosed :: "nat list"
  c_readDeadline :: "(nat \<times> int) list"
  c_verdicts :: "(nat \<times> go_error option) list"
  c_finished :: "nat list"
  c_callbacks :: "callback list"
  c_spawned :: "goroutine list"
  c_serverForgets :: bool

definition defaultStreamQueueSize :: nat where
  "defaultStreamQueueSize = 1024"

definition maxStreamID :: u32 where
  "maxStreamID = controlStreamID - 1"

text \<open>A configuration before the handshake: the zero value.\<close>

definition zeroConfig :: "('m, 'b) CodecImpl connConfig" where
  "zeroConfig = \<lparr>cfg_version = 0, cfg_codecID = 0, cfg_codec = None, cfg_maxFrame = 0, cfg_headerLen = 0\<rparr>"

definition newPendingConnection ::
    "nat \<Rightarrow> ('m, 'h) registryTypes \<Rightarrow> bool \<Rightarrow> bool \<Rightarrow> ('m, 'b, 'h) Connection" where
  "newPendingConnection conn registry onNewStream onCloseStream =
     \<lparr>c_conn = Some conn, c_registry = registry, c_handlersEnabled = hasHandlers registry,
      c_recvTimeout = 0, c_streamQueueSize = 0, c_config = zeroConfig,
      c_debug = zeroConnectionCounters, c_outbound = make_chan defaultStreamQueueSize,
      c_sendNotify = False, c_streams = [], c_closedPeerStreams = [], c_nextStreamID = 0,
      c_defaultStreamView = None, c_onNewStream = onNewStream, c_onCloseStream = onCloseStream,
      c_nextSendSeq = 0, c_transportGen = 0, c_transportResume = 0, c_recovery = None,
      c_closing = False, c_closed = False, c_heap = [], c_netClosed = [], c_netHalfClosed = [], c_readDeadline = [],
      c_verdicts = [], c_finished = [], c_callbacks = [], c_spawned = [], c_serverForgets = False\<rparr>"

definition isRecoveryEnabled :: "('m, 'b, 'h) Connection \<Rightarrow> bool" where
  "isRecoveryEnabled c \<longleftrightarrow> c_recovery c \<noteq> None \<and> cfg_version (c_config c) = protocolVersionV3"

definition signalSend :: "('m, 'b, 'h) Connection \<Rightarrow> ('m, 'b, 'h) Connection" where
  "signalSend c = c\<lparr>c_sendNotify := True\<rparr>"

definition start :: "('m, 'b, 'h) Connection \<Rightarrow> ('m, 'b, 'h) Connection" where
  "start c =
     (if isRecoveryEnabled c
      then c\<lparr>c_spawned := c_spawned c @ [RecoveryWriterLoop, RecoveryReaderLoop]\<rparr>
      else c\<lparr>c_debug := (c_debug c)\<lparr>transportAttaches := transportAttaches (c_debug c) + 1\<rparr>,
             c_spawned := c_spawned c @ [WriterLoop, ReaderLoop]\<rparr>)"

definition startWithConfig ::
    "('m, 'b) CodecImpl connConfig \<Rightarrow> ('m, 'b, 'h) Connection \<Rightarrow> ('m, 'b, 'h) Connection" where
  "startWithConfig config c = start (c\<lparr>c_config := config\<rparr>)"

definition conn_noteFailure ::
    "int \<Rightarrow> DebugFailureCode \<Rightarrow> string \<Rightarrow> ('m, 'b, 'h) Connection \<Rightarrow> ('m, 'b, 'h) Connection" where
  "conn_noteFailure now code reason c = c\<lparr>c_debug := connNoteFailure now code reason (c_debug c)\<rparr>"

definition updStream ::
    "streamRef \<Rightarrow> (('m, 'b, 'h) Stream \<Rightarrow> ('m, 'b, 'h) Stream) \<Rightarrow> ('m, 'b, 'h) Connection \<Rightarrow>
     ('m, 'b, 'h) Connection" where
  "updStream ref f c = c\<lparr>c_heap := (c_heap c)[ref := f (c_heap c ! ref)]\<rparr>"

text \<open>\<^verbatim>\<open>Stream.noteFailure\<close>: on the stream and on its connection.\<close>

definition s_noteFailure ::
    "int \<Rightarrow> DebugFailureCode \<Rightarrow> string \<Rightarrow> streamRef \<Rightarrow> ('m, 'b, 'h) Connection \<Rightarrow>
     ('m, 'b, 'h) Connection" where
  "s_noteFailure now code reason ref c =
     conn_noteFailure now code reason
       (updStream ref (\<lambda>s. s\<lparr>s_debug := streamNoteFailure now code reason (s_debug s)\<rparr>) c)"

text \<open>A codec of the empty message and a connection with it, for examples.\<close>

definition sampleCodec :: "(unit, unit) CodecImpl" where
  "sampleCodec = \<lparr>codec_ID = 1, codec_Name = ''sample'', codec_Encode = (\<lambda>_. Inr [1]),
     codec_DecodeEnvelope = (\<lambda>_. Inr (''am.message.OkReply'', ())), codec_DecodeInto = (\<lambda>_ m. Inr m)\<rparr>"

definition sampleConnection :: "(unit, unit, unit) Connection" where
  "sampleConnection =
     (newPendingConnection 1 \<lparr>rt_handlers = [], rt_messages = []\<rparr> True True)
       \<lparr>c_config := \<lparr>cfg_version = 3, cfg_codecID = 1, cfg_codec = Some sampleCodec, cfg_maxFrame = 100,
          cfg_headerLen = 18\<rparr>, c_streamQueueSize := 4, c_recovery := Some sampleState\<rparr>"

section \<open>Lemmas\<close>

lemma conn_noteFailure_more [simp]:
  "c_streams (conn_noteFailure t k m c) = c_streams c" "c_heap (conn_noteFailure t k m c) = c_heap c"
  "c_closed (conn_noteFailure t k m c) = c_closed c" "c_closing (conn_noteFailure t k m c) = c_closing c"
  "c_recovery (conn_noteFailure t k m c) = c_recovery c" "c_conn (conn_noteFailure t k m c) = c_conn c"
  "c_closedPeerStreams (conn_noteFailure t k m c) = c_closedPeerStreams c"
  "c_nextStreamID (conn_noteFailure t k m c) = c_nextStreamID c"
  "c_nextSendSeq (conn_noteFailure t k m c) = c_nextSendSeq c"
  "c_transportGen (conn_noteFailure t k m c) = c_transportGen c"
  "c_outbound (conn_noteFailure t k m c) = c_outbound c" "c_config (conn_noteFailure t k m c) = c_config c"
  "c_callbacks (conn_noteFailure t k m c) = c_callbacks c"
  "c_verdicts (conn_noteFailure t k m c) = c_verdicts c"
  "c_sendNotify (conn_noteFailure t k m c) = c_sendNotify c"
  "c_onCloseStream (conn_noteFailure t k m c) = c_onCloseStream c"
  "c_onNewStream (conn_noteFailure t k m c) = c_onNewStream c"
  "streamsOpened (c_debug (conn_noteFailure t k m c)) = streamsOpened (c_debug c)"
  "streamsClosed (c_debug (conn_noteFailure t k m c)) = streamsClosed (c_debug c)"
  by (simp_all add: conn_noteFailure_def connNoteFailure_def)

lemma signalSend_more [simp]:
  "c_streams (signalSend c) = c_streams c" "c_heap (signalSend c) = c_heap c"
  "c_closed (signalSend c) = c_closed c" "c_closing (signalSend c) = c_closing c"
  "c_recovery (signalSend c) = c_recovery c" "c_conn (signalSend c) = c_conn c"
  "c_nextSendSeq (signalSend c) = c_nextSendSeq c" "c_transportGen (signalSend c) = c_transportGen c"
  "c_closedPeerStreams (signalSend c) = c_closedPeerStreams c" "c_debug (signalSend c) = c_debug c"
  "c_nextStreamID (signalSend c) = c_nextStreamID c" "c_callbacks (signalSend c) = c_callbacks c"
  "c_config (signalSend c) = c_config c" "c_outbound (signalSend c) = c_outbound c"
  "c_onCloseStream (signalSend c) = c_onCloseStream c" "c_onNewStream (signalSend c) = c_onNewStream c"
  "c_transportResume (signalSend c) = c_transportResume c" "c_verdicts (signalSend c) = c_verdicts c"
  by (simp_all add: signalSend_def)

lemma updStream_more [simp]:
  "c_streams (updStream ref f c) = c_streams c" "c_closed (updStream ref f c) = c_closed c"
  "c_debug (updStream ref f c) = c_debug c" "c_callbacks (updStream ref f c) = c_callbacks c"
  "c_closedPeerStreams (updStream ref f c) = c_closedPeerStreams c"
  "c_nextStreamID (updStream ref f c) = c_nextStreamID c" "c_closing (updStream ref f c) = c_closing c"
  "c_recovery (updStream ref f c) = c_recovery c" "c_conn (updStream ref f c) = c_conn c"
  "c_onCloseStream (updStream ref f c) = c_onCloseStream c"
  "c_onNewStream (updStream ref f c) = c_onNewStream c" "c_config (updStream ref f c) = c_config c"
  "length (c_heap (updStream ref f c)) = length (c_heap c)"
  by (simp_all add: updStream_def)

lemma updStream_nth:
  "ref < length (c_heap c) \<Longrightarrow>
     c_heap (updStream ref f c) ! i = (if i = ref then f (c_heap c ! ref) else c_heap c ! i)"
  by (simp add: updStream_def nth_list_update)

end
