(* ===== verification/Streams.thy ===== *)
theory Streams
  imports Conn_State
begin

text \<open>
  The streams of a connection (\<^verbatim>\<open>src/connection.go\<close>: \<^verbatim>\<open>NewStream\<close>, \<^verbatim>\<open>getStreamCtx\<close>,
  \<^verbatim>\<open>removeStream\<close>, \<^verbatim>\<open>closePeerStream\<close>, \<^verbatim>\<open>closeAllStreams\<close>, \<^verbatim>\<open>acceptFrame\<close>; \<^verbatim>\<open>src/stream.go\<close>:
  \<^verbatim>\<open>incomingQ\<close>, \<^verbatim>\<open>queueFIN\<close>, \<^verbatim>\<open>close\<close>). Each critical section under \<^verbatim>\<open>streamsMu\<close> is one step;
  \<open>acceptFrame\<close> takes as \<open>env\<close> what other goroutines do to the connection between its lookup and
  its delivery.
\<close>

definition setRecvTimeout :: "Duration \<Rightarrow> ('m, 'b, 'h) Stream \<Rightarrow> ('m, 'b, 'h) Stream" where
  "setRecvTimeout timeout s = s\<lparr>s_recvTimeoutNanos := (if timeout \<le> 0 then 0 else timeout)\<rparr>"

definition newStreamCtx :: "('m, 'b, 'h) Connection \<Rightarrow> u32 \<Rightarrow> ('m, 'b, 'h) Stream" where
  "newStreamCtx c streamID =
     (let queueSize = (if c_streamQueueSize c \<le> 0 then defaultStreamQueueSize
                       else nat (c_streamQueueSize c))
      in setRecvTimeout (c_recvTimeout c)
           \<lparr>s_id = streamID, s_debug = zeroStreamCounters, s_inbox = make_chan queueSize,
            s_incoming = Some (make_chan queueSize),
            s_handlerCh = (if c_handlersEnabled c then Some (make_chan queueSize) else None),
            s_done = Some False, s_recvTimeoutNanos = 0, s_recvActive = False, s_peeked = None,
            s_staleReplies = 0, s_closed = False, s_closeOnce = False, s_queued = None\<rparr>)"

definition startStream :: "streamRef \<Rightarrow> ('m, 'b, 'h) Connection \<Rightarrow> ('m, 'b, 'h) Connection" where
  "startStream ref c =
     c\<lparr>c_spawned := c_spawned c @
         (if s_handlerCh (c_heap c ! ref) \<noteq> None then [HandlerLoop ref] else []) @ [DecodeLoop ref]\<rparr>"

text \<open>\<^verbatim>\<open>Stream.close\<close>: closing a nil \<^verbatim>\<open>done\<close> would panic; only streams of the map are closed, and
  those have one.\<close>

definition stream_close ::
    "streamRef \<Rightarrow> ('m, 'b, 'h) Connection \<Rightarrow> bool \<times> ('m, 'b, 'h) Connection" where
  "stream_close ref c =
     (if s_closeOnce (c_heap c ! ref) then (False, c)
      else (True, updStream ref (\<lambda>s. s\<lparr>s_closeOnce := True, s_closed := True, s_done := Some True\<rparr>) c))"

definition callCloseStream :: "streamRef \<Rightarrow> ('m, 'b, 'h) Connection \<Rightarrow> ('m, 'b, 'h) Connection" where
  "callCloseStream ref c =
     (if c_onCloseStream c then c\<lparr>c_callbacks := c_callbacks c @ [CloseStreamCall ref]\<rparr> else c)"

definition countStreamClosed :: "bool \<Rightarrow> ('m, 'b, 'h) Connection \<Rightarrow> ('m, 'b, 'h) Connection" where
  "countStreamClosed closed c =
     (if closed
      then c\<lparr>c_debug := (c_debug c)\<lparr>streamsClosed := streamsClosed (c_debug c) + 1\<rparr>\<rparr> else c)"

text \<open>The end of a stream that was taken out of the map: \<^verbatim>\<open>close\<close>, the counter, the callback.\<close>

definition releaseStream :: "streamRef \<Rightarrow> ('m, 'b, 'h) Connection \<Rightarrow> ('m, 'b, 'h) Connection" where
  "releaseStream ref c =
     (let (closed, c1) = stream_close ref c in callCloseStream ref (countStreamClosed closed c1))"

definition removeStream :: "int \<Rightarrow> u32 \<Rightarrow> ('m, 'b, 'h) Connection \<Rightarrow> ('m, 'b, 'h) Connection" where
  "removeStream now streamID c =
     (let c1 = c\<lparr>c_streams := AList.delete streamID (c_streams c)\<rparr>
      in case map_of (c_streams c) streamID of
           None \<Rightarrow> c1
         | Some ref \<Rightarrow>
             let failure = lastFailure (sd_failure (s_debug (c_heap c1 ! ref)));
                 c2 = (if fr_code failure \<noteq> DebugFailureNone
                       then conn_noteFailure now (fr_code failure) (fr_reason failure) c1 else c1)
             in releaseStream ref c2)"

definition closePeerStream :: "int \<Rightarrow> u32 \<Rightarrow> ('m, 'b, 'h) Connection \<Rightarrow> ('m, 'b, 'h) Connection" where
  "closePeerStream now streamID c =
     removeStream now streamID
       (if map_of (c_streams c) streamID \<noteq> None
        then c\<lparr>c_closedPeerStreams := List.insert streamID (c_closedPeerStreams c)\<rparr> else c)"

fun releaseStreams :: "(u32 \<times> streamRef) list \<Rightarrow> ('m, 'b, 'h) Connection \<Rightarrow> ('m, 'b, 'h) Connection" where
  "releaseStreams [] c = c"
| "releaseStreams ((_, ref) # rest) c = releaseStreams rest (releaseStream ref c)"

definition closeAllStreams :: "('m, 'b, 'h) Connection \<Rightarrow> ('m, 'b, 'h) Connection" where
  "closeAllStreams c = releaseStreams (c_streams c) (c\<lparr>c_streams := []\<rparr>)"

definition openedStream :: "('m, 'b, 'h) Connection \<Rightarrow> u32 \<Rightarrow> bool" where
  "openedStream c streamID \<longleftrightarrow>
     streamID \<noteq> defaultStreamID \<and> (ucast streamID :: u64) \<le> c_nextStreamID c"

definition getStreamCtx ::
    "u32 \<Rightarrow> bool \<Rightarrow> ('m, 'b, 'h) Connection \<Rightarrow> streamRef option \<times> ('m, 'b, 'h) Connection" where
  "getStreamCtx streamID inbound c =
     (if c_closed c then (None, c)
      else case map_of (c_streams c) streamID of
        Some ref \<Rightarrow> (Some ref, c)
      | None \<Rightarrow>
          if inbound \<and> (streamID \<in> set (c_closedPeerStreams c) \<or> openedStream c streamID)
          then (None, c)
          else
            let ref = length (c_heap c);
                c1 = c\<lparr>c_heap := c_heap c @ [newStreamCtx c streamID],
                       c_streams := (streamID, ref) # c_streams c,
                       c_debug := (c_debug c)\<lparr>streamsOpened := streamsOpened (c_debug c) + 1\<rparr>\<rparr>;
                c2 = startStream ref c1
            in (Some ref,
                if c_onNewStream c2 then c2\<lparr>c_callbacks := c_callbacks c2 @ [NewStreamCall ref]\<rparr>
                else c2))"

text \<open>\<^verbatim>\<open>closedStream\<close>: a stream outside the map, with a closed inbox and nil channels.\<close>

definition closedStream :: "('m, 'b, 'h) Connection \<Rightarrow> streamRef \<times> ('m, 'b, 'h) Connection" where
  "closedStream c =
     (length (c_heap c),
      c\<lparr>c_heap := c_heap c @
        [\<lparr>s_id = controlStreamID, s_debug = zeroStreamCounters, s_inbox = ch_close (make_chan 0),
          s_incoming = None, s_handlerCh = None, s_done = None, s_recvTimeoutNanos = 0,
          s_recvActive = False, s_peeked = None, s_staleReplies = 0, s_closed = True,
          s_closeOnce = False, s_queued = None\<rparr>]\<rparr>)"

definition streamForID :: "u32 \<Rightarrow> ('m, 'b, 'h) Connection \<Rightarrow> streamRef \<times> ('m, 'b, 'h) Connection" where
  "streamForID streamID c =
     (case getStreamCtx streamID False c of
        (Some ref, c') \<Rightarrow> (ref, c')
      | (None, c') \<Rightarrow> closedStream c')"

definition NewStream :: "int \<Rightarrow> ('m, 'b, 'h) Connection \<Rightarrow> streamRef \<times> ('m, 'b, 'h) Connection" where
  "NewStream now c =
     (let streamID = c_nextStreamID c + 1; c1 = c\<lparr>c_nextStreamID := streamID\<rparr>
      in if streamID > ucast maxStreamID
         then closedStream (conn_noteFailure now DebugFailureStreamIDsExhausted ''stream IDs exhausted'' c1)
         else streamForID (ucast streamID) c1)"

definition defaultStream :: "('m, 'b, 'h) Connection \<Rightarrow> streamRef \<times> ('m, 'b, 'h) Connection" where
  "defaultStream c =
     (case c_defaultStreamView c of
        Some ref \<Rightarrow> (ref, c)
      | None \<Rightarrow>
          let (ref, c1) = streamForID defaultStreamID c
          in (ref, c1\<lparr>c_defaultStreamView := Some ref\<rparr>))"

text \<open>\<^verbatim>\<open>incomingQ\<close>: the \<^verbatim>\<open>select\<close> over the queue, \<^verbatim>\<open>done\<close> and \<^verbatim>\<open>closeCh\<close>; \<open>payload = None\<close> is
  the FIN marker.\<close>

definition incomingQ ::
    "streamRef \<Rightarrow> bytes option \<Rightarrow> ('m, 'b, 'h) Connection \<Rightarrow>
     (go_error option \<times> ('m, 'b, 'h) Connection) outcomes" where
  "incomingQ ref payload c =
     (case s_incoming (c_heap c ! ref) of
        None \<Rightarrow> [(Some ErrClosed, c)]
      | Some ch \<Rightarrow>
          (if ch_room ch
           then [(None, updStream ref (\<lambda>s. s\<lparr>s_incoming := Some (ch_send payload ch)\<rparr>) c)] else []) @
          (if s_done (c_heap c ! ref) = Some True then [(Some ErrClosed, c)] else []) @
          (if c_closed c then [(Some ErrClosed, c)] else []))"

definition queueFIN ::
    "streamRef \<Rightarrow> ('m, 'b, 'h) Connection \<Rightarrow> ('m, 'b, 'h) Connection outcomes" where
  "queueFIN ref c = map snd (incomingQ ref None c)"

definition isFin :: "u32 \<Rightarrow> FrameFlags \<Rightarrow> bool" where
  "isFin streamID flags \<longleftrightarrow>
     flags AND FrameFlagFIN \<noteq> 0 \<and> streamID \<noteq> defaultStreamID \<and> streamID \<noteq> controlStreamID"

definition forgetPeerStream :: "u32 \<Rightarrow> ('m, 'b, 'h) Connection \<Rightarrow> ('m, 'b, 'h) Connection" where
  "forgetPeerStream streamID c = c\<lparr>c_closedPeerStreams := removeAll streamID (c_closedPeerStreams c)\<rparr>"

definition acceptFrame ::
    "(('m, 'b, 'h) Connection \<Rightarrow> ('m, 'b, 'h) Connection) \<Rightarrow> u32 \<Rightarrow> FrameFlags \<Rightarrow> bytes \<Rightarrow>
     ('m, 'b, 'h) Connection \<Rightarrow> (go_error option \<times> ('m, 'b, 'h) Connection) outcomes" where
  "acceptFrame env streamID flags payload c =
     (let fin = isFin streamID flags
      in if fin \<and> length payload = 0 then
           (case map_of (c_streams c) streamID of
              None \<Rightarrow> [(None, env (forgetPeerStream streamID c))]
            | Some ref \<Rightarrow>
                map (\<lambda>c'. (None, c')) (queueFIN ref (env (forgetPeerStream streamID c))))
         else
           case getStreamCtx streamID True c of
             (None, c1) \<Rightarrow>
               let c2 = env c1
               in if c_closed c2 then [(Some ErrClosed, c2)]
                  else [(None, if fin then forgetPeerStream streamID c2 else c2)]
           | (Some ref, c1) \<Rightarrow>
               let c2 = env c1;
                   queued = (if length payload > 0 then incomingQ ref (Some payload) c2 else [(None, c2)])
               in concat (map (\<lambda>(err, c3).
                    if err \<noteq> None then [(if c_closed c3 then err else None, c3)]
                    else if fin then map (\<lambda>c4. (None, c4)) (queueFIN ref c3)
                    else [(None, c3)]) queued))"

section \<open>The invariant\<close>

text \<open>Every entry of the map points at an open stream with that id and working channels, ids and
  addresses are distinct, the opened and closed counters differ by the number of entries, and a
  closed connection has no stream.\<close>

definition streams_ok :: "('m, 'b, 'h) Connection \<Rightarrow> bool" where
  "streams_ok c \<longleftrightarrow>
     distinct (map fst (c_streams c)) \<and> distinct (map snd (c_streams c)) \<and>
     (\<forall>(streamID, ref) \<in> set (c_streams c).
        ref < length (c_heap c) \<and> s_id (c_heap c ! ref) = streamID \<and>
        \<not> s_closeOnce (c_heap c ! ref) \<and> s_done (c_heap c ! ref) = Some False \<and>
        s_incoming (c_heap c ! ref) \<noteq> None) \<and>
     streamsOpened (c_debug c) - streamsClosed (c_debug c) = of_nat (length (c_streams c)) \<and>
     (c_closed c \<longrightarrow> c_streams c = [])"

lemma streams_ok_entry:
  assumes "streams_ok c" "map_of (c_streams c) i = Some ref"
  shows "ref < length (c_heap c)" "s_id (c_heap c ! ref) = i" "\<not> s_closeOnce (c_heap c ! ref)"
    "s_done (c_heap c ! ref) = Some False" "s_incoming (c_heap c ! ref) \<noteq> None"
  using assms(1) map_of_SomeD [OF assms(2)] by (auto simp: streams_ok_def)

lemma newPendingConnection_ok: "streams_ok (newPendingConnection conn reg n s)"
  by (simp add: streams_ok_def newPendingConnection_def zeroConnectionCounters_def)

lemma newStreamCtx_fields [simp]:
  "s_id (newStreamCtx c i) = i" "\<not> s_closeOnce (newStreamCtx c i)" "s_done (newStreamCtx c i) = Some False"
  "s_incoming (newStreamCtx c i) \<noteq> None" "\<not> s_closed (newStreamCtx c i)"
  by (simp_all add: newStreamCtx_def setRecvTimeout_def Let_def)

lemma getStreamCtx_ok:
  assumes "streams_ok c"
  shows "streams_ok (snd (getStreamCtx i inb c))"
  using assms
  by (auto simp: streams_ok_def getStreamCtx_def startStream_def Let_def nth_append map_of_eq_None_iff
           split: option.splits dest: bspec)

text \<open>The stream that \<^verbatim>\<open>getStreamCtx\<close> creates.\<close>

lemma getStreamCtx_new:
  assumes "\<not> c_closed c" "map_of (c_streams c) i = None"
    and "\<not> (inb \<and> (i \<in> set (c_closedPeerStreams c) \<or> openedStream c i))"
    and "getStreamCtx i inb c = (r, c')"
  shows "r = Some (length (c_heap c))" "c_heap c' = c_heap c @ [newStreamCtx c i]"
    "c_streams c' = (i, length (c_heap c)) # c_streams c" "c_closed c' = c_closed c"
    "c_nextStreamID c' = c_nextStreamID c" "c_closedPeerStreams c' = c_closedPeerStreams c"
    "c_callbacks c' = c_callbacks c @ (if c_onNewStream c then [NewStreamCall (length (c_heap c))] else [])"
  using assms by (auto simp: getStreamCtx_def startStream_def Let_def split: if_splits)

lemma closedStream_ok: "streams_ok c \<Longrightarrow> streams_ok (snd (closedStream c))"
  by (auto simp: streams_ok_def closedStream_def nth_append dest: bspec)

lemma streamForID_ok: "streams_ok c \<Longrightarrow> streams_ok (snd (streamForID i c))"
  using getStreamCtx_ok [of c i False] closedStream_ok
  by (auto simp: streamForID_def split: prod.splits option.splits)

lemma streams_ok_congI:
  assumes "streams_ok c" "c_streams c' = c_streams c" "c_heap c' = c_heap c" "c_closed c' = c_closed c"
    "streamsOpened (c_debug c') = streamsOpened (c_debug c)"
    "streamsClosed (c_debug c') = streamsClosed (c_debug c)"
  shows "streams_ok c'"
  using assms by (simp add: streams_ok_def)

lemma NewStream_ok: "streams_ok c \<Longrightarrow> streams_ok (snd (NewStream now c))"
proof -
  assume ok: "streams_ok c"
  let ?c1 = "c\<lparr>c_nextStreamID := c_nextStreamID c + 1\<rparr>"
  have "streams_ok ?c1" "streams_ok (conn_noteFailure now k m ?c1)" for k m
    by (rule streams_ok_congI [OF ok]; simp)+
  then show ?thesis by (simp add: NewStream_def Let_def closedStream_ok streamForID_ok)
qed

text \<open>Releasing a stream that is in the heap and open: it is closed, counted and reported once.\<close>

lemma releaseStream_spec:
  assumes "\<not> s_closeOnce (c_heap c ! ref)" "ref < length (c_heap c)"
  shows "c_heap (releaseStream ref c) =
           (c_heap c)[ref := (c_heap c ! ref)\<lparr>s_closeOnce := True, s_closed := True, s_done := Some True\<rparr>]"
    and "streamsClosed (c_debug (releaseStream ref c)) = streamsClosed (c_debug c) + 1"
    and "c_callbacks (releaseStream ref c) =
           c_callbacks c @ (if c_onCloseStream c then [CloseStreamCall ref] else [])"
  using assms
  by (simp_all add: releaseStream_def stream_close_def callCloseStream_def countStreamClosed_def
        updStream_def Let_def)

lemma releaseStream_more [simp]:
  "c_streams (releaseStream ref c) = c_streams c" "c_closed (releaseStream ref c) = c_closed c"
  "streamsOpened (c_debug (releaseStream ref c)) = streamsOpened (c_debug c)"
  "c_onCloseStream (releaseStream ref c) = c_onCloseStream c"
  "c_closedPeerStreams (releaseStream ref c) = c_closedPeerStreams c"
  "c_nextStreamID (releaseStream ref c) = c_nextStreamID c"
  "c_recovery (releaseStream ref c) = c_recovery c" "c_conn (releaseStream ref c) = c_conn c"
  "c_transportGen (releaseStream ref c) = c_transportGen c"
  "c_nextSendSeq (releaseStream ref c) = c_nextSendSeq c"
  "c_closing (releaseStream ref c) = c_closing c" "c_config (releaseStream ref c) = c_config c"
  by (simp_all add: releaseStream_def stream_close_def callCloseStream_def countStreamClosed_def
        updStream_def Let_def split: prod.splits)

lemma delete_fresh: "map_of xs i = None \<Longrightarrow> AList.delete i xs = xs"
  by (simp add: delete_id map_of_eq_None_iff)

lemma length_delete:
  "distinct (map fst xs) \<Longrightarrow> map_of xs i = Some r \<Longrightarrow> Suc (length (AList.delete i xs)) = length xs"
proof (induction xs)
  case (Cons x xs)
  obtain k v where x: "x = (k, v)" by (cases x)
  show ?case
  proof (cases "k = i")
    case True
    with Cons.prems(1) x have "map_of xs i = None" by (simp add: map_of_eq_None_iff)
    with True x show ?thesis by (simp add: delete_fresh)
  next
    case False
    with Cons x show ?thesis by simp
  qed
qed simp

lemma releaseStream_ok:
  assumes ok: "streams_ok c" and m: "map_of (c_streams c) i = Some ref"
    and c1: "c_streams c1 = AList.delete i (c_streams c)" "c_heap c1 = c_heap c" "c_closed c1 = c_closed c"
      "streamsOpened (c_debug c1) = streamsOpened (c_debug c)"
      "streamsClosed (c_debug c1) = streamsClosed (c_debug c)"
  shows "streams_ok (releaseStream ref c1)"
proof -
  note e = streams_ok_entry [OF ok m]
  have d: "distinct (map fst (c_streams c))" "distinct (map snd (c_streams c))"
    using ok by (auto simp: streams_ok_def)
  have other: "r \<noteq> ref" if "(j, r) \<in> set (AList.delete i (c_streams c))" for j r
    using that d m by (auto simp: AList.delete_eq dest!: map_of_SomeD)
      (metis distinct_map inj_onD prod.inject snd_conv)
  have "length (c_streams c) = Suc (length (AList.delete i (c_streams c)))"
    using length_delete [OF d(1) m] by simp
  then have "streamsOpened (c_debug c) - (streamsClosed (c_debug c) + 1) =
      of_nat (length (AList.delete i (c_streams c)))"
    using ok by (simp add: streams_ok_def algebra_simps)
  moreover have "\<forall>(j, r) \<in> set (AList.delete i (c_streams c)). (j, r) \<in> set (c_streams c)"
    by (auto simp: AList.delete_eq)
  ultimately show ?thesis
    using ok e d other c1 distinct_map_filter
    unfolding streams_ok_def
    by (auto simp: releaseStream_spec AList.delete_eq nth_list_update distinct_map_filter)
qed

lemma removeStream_ok: "streams_ok c \<Longrightarrow> streams_ok (removeStream now i c)"
proof (cases "map_of (c_streams c) i")
  case None
  assume ok: "streams_ok c"
  show ?thesis
    by (rule streams_ok_congI [OF ok]) (simp_all add: removeStream_def None Let_def delete_fresh)
next
  case (Some ref)
  assume "streams_ok c"
  from releaseStream_ok [OF this Some] show ?thesis by (simp add: removeStream_def Some Let_def)
qed

lemma closePeerStream_ok: "streams_ok c \<Longrightarrow> streams_ok (closePeerStream now i c)"
  unfolding closePeerStream_def by (rule removeStream_ok) (simp add: streams_ok_def)

lemma forgetPeerStream_ok: "streams_ok c \<Longrightarrow> streams_ok (forgetPeerStream i c)"
  by (rule streams_ok_congI) (simp_all add: forgetPeerStream_def)

text \<open>A change of a stream that keeps its id, its \<^verbatim>\<open>done\<close> and its queues in place.\<close>

lemma updStream_ok:
  assumes ok: "streams_ok c"
    and f: "\<And>s. s_id (f s) = s_id s" "\<And>s. s_closeOnce (f s) = s_closeOnce s" "\<And>s. s_done (f s) = s_done s"
      "\<And>s. s_incoming s \<noteq> None \<Longrightarrow> s_incoming (f s) \<noteq> None"
  shows "streams_ok (updStream ref f c)"
proof -
  have "s_id (c_heap (updStream ref f c) ! r) = s_id (c_heap c ! r) \<and>
      s_closeOnce (c_heap (updStream ref f c) ! r) = s_closeOnce (c_heap c ! r) \<and>
      s_done (c_heap (updStream ref f c) ! r) = s_done (c_heap c ! r) \<and>
      (s_incoming (c_heap c ! r) \<noteq> None \<longrightarrow> s_incoming (c_heap (updStream ref f c) ! r) \<noteq> None)"
    if "r < length (c_heap c)" for r
    using that f by (cases "r = ref") (simp_all add: updStream_def)
  with ok show ?thesis unfolding streams_ok_def by fastforce
qed

lemma incomingQ_ok:
  assumes "streams_ok c" and "(e, c') \<in> set (incomingQ ref p c)"
  shows "streams_ok c'"
  using assms updStream_ok [OF assms(1)]
  by (auto simp: incomingQ_def split: option.splits if_splits)

lemma queueFIN_ok: "streams_ok c \<Longrightarrow> c' \<in> set (queueFIN ref c) \<Longrightarrow> streams_ok c'"
  unfolding queueFIN_def using incomingQ_ok by fastforce

lemma acceptFrame_ok:
  assumes ok: "streams_ok c" and env: "\<And>c. streams_ok c \<Longrightarrow> streams_ok (env c)"
    and out: "(e, c') \<in> set (acceptFrame env i fl p c)"
  shows "streams_ok c'"
proof (cases "isFin i fl \<and> length p = 0")
  case True
  have f: "streams_ok (env (forgetPeerStream i c))" by (intro env forgetPeerStream_ok ok)
  with True out show ?thesis
    using queueFIN_ok [OF f] by (auto simp: acceptFrame_def split: option.splits)
next
  case False
  obtain r c1 where g: "getStreamCtx i True c = (r, c1)" by (cases "getStreamCtx i True c")
  with getStreamCtx_ok [OF ok, of i True] have c2: "streams_ok (env c1)" using env by simp
  show ?thesis
  proof (cases r)
    case None
    with False out g c2 forgetPeerStream_ok [OF c2] show ?thesis
      by (auto simp: acceptFrame_def Let_def split: if_splits)
  next
    case (Some ref)
    with False out g obtain err c3 where
      "(err, c3) = (None, env c1) \<or> (err, c3) \<in> set (incomingQ ref (Some p) (env c1))"
      and c': "c' = c3 \<or> c' \<in> set (queueFIN ref c3)"
      by (auto simp: acceptFrame_def Let_def split: if_splits)
    then have "streams_ok c3" using c2 incomingQ_ok by auto
    with c' show ?thesis using queueFIN_ok by auto
  qed
qed

section \<open>Opening streams\<close>

text \<open>No stream of the map has an id above the last one this side allocated.\<close>

definition only_own_streams :: "('m, 'b, 'h) Connection \<Rightarrow> bool" where
  "only_own_streams c \<longleftrightarrow> (\<forall>(i, r) \<in> set (c_streams c). unat i \<le> unat (c_nextStreamID c))"

lemma unat_ucast_u32: "unat (w :: u64) < 4294967296 \<Longrightarrow> unat (ucast w :: u32) = unat w"
  by (simp add: unsigned_ucast_eq take_bit_nat_eq_self)

lemma maxStreamID_val: "maxStreamID = 4294967294"
  by (simp add: maxStreamID_def controlStreamID_def)

lemma next_id:
  assumes "unat (n :: u64) < 4294967294"
  shows "unat (n + 1) = Suc (unat n)" "\<not> n + 1 > ucast maxStreamID"
    "unat (ucast (n + 1) :: u32) = Suc (unat n)"
proof -
  show 1: "unat (n + 1) = Suc (unat n)" using assms by (simp add: unat_word_ariths)
  then show "unat (ucast (n + 1) :: u32) = Suc (unat n)" using assms by (simp add: unat_ucast_u32)
  show "\<not> n + 1 > ucast maxStreamID"
    using assms 1 by (simp add: word_less_nat_alt maxStreamID_val)
qed

lemma NewStream_fresh:
  assumes ok: "streams_ok c" and own: "only_own_streams c" and "\<not> c_closed c"
    and n: "unat (c_nextStreamID c) < 4294967294" and N: "NewStream now c = (ref, c')"
  shows "ref = length (c_heap c)" "c_heap c' = c_heap c @ [newStreamCtx (c\<lparr>c_nextStreamID := c_nextStreamID c + 1\<rparr>) (ucast (c_nextStreamID c + 1))]"
    "only_own_streams c'" "\<not> c_closed c'" "c_nextStreamID c' = c_nextStreamID c + 1"
    "c_streams c' = (ucast (c_nextStreamID c + 1), ref) # c_streams c"
proof -
  let ?i = "ucast (c_nextStreamID c + 1) :: u32"
  have "map_of (c_streams c) ?i = None"
    using own next_id(3) [OF n] by (fastforce simp: only_own_streams_def map_of_eq_None_iff)
  then obtain r where g: "getStreamCtx ?i False (c\<lparr>c_nextStreamID := c_nextStreamID c + 1\<rparr>) = (r, c')"
      "r = Some ref"
    using assms(3) N next_id(2) [OF n]
    by (auto simp: NewStream_def streamForID_def getStreamCtx_def Let_def)
  from getStreamCtx_new [OF _ _ _ g(1)] g(2) assms(3) \<open>map_of (c_streams c) ?i = None\<close>
  show "ref = length (c_heap c)" "c_heap c' = c_heap c @ [newStreamCtx (c\<lparr>c_nextStreamID := c_nextStreamID c + 1\<rparr>) ?i]"
    and c': "\<not> c_closed c'" "c_nextStreamID c' = c_nextStreamID c + 1" "c_streams c' = (?i, ref) # c_streams c"
    by simp_all
  show "only_own_streams c'"
    using own next_id [OF n] unfolding only_own_streams_def c' by auto
qed

text \<open>\<open>n\<close> calls of \<^verbatim>\<open>NewStream\<close> in a row.\<close>

fun newStreams :: "int \<Rightarrow> nat \<Rightarrow> ('m, 'b, 'h) Connection \<Rightarrow> streamRef list \<times> ('m, 'b, 'h) Connection" where
  "newStreams now 0 c = ([], c)"
| "newStreams now (Suc n) c =
     (let (ref, c1) = NewStream now c; (refs, c2) = newStreams now n c1 in (ref # refs, c2))"

lemma newStreams_heap:
  assumes "streams_ok c" "only_own_streams c" "\<not> c_closed c"
    "unat (c_nextStreamID c) + n \<le> 4294967294" "newStreams now n c = (refs, c')"
  shows "refs = [length (c_heap c) ..< length (c_heap c) + n] \<and>
         (\<exists>new. c_heap c' = c_heap c @ new \<and>
            map (unat \<circ> s_id) new = [Suc (unat (c_nextStreamID c)) ..< Suc (unat (c_nextStreamID c) + n)] \<and>
            list_all (\<lambda>s. \<not> s_closed s) new)"
  using assms
proof (induction n arbitrary: c refs)
  case (Suc n)
  obtain ref c1 where N: "NewStream now c = (ref, c1)" by (cases "NewStream now c")
  obtain rs where R: "newStreams now n c1 = (rs, c')" and refs: "refs = ref # rs"
    using Suc.prems(5) N by (auto simp: Let_def split: prod.splits)
  have n: "unat (c_nextStreamID c) < 4294967294" using Suc.prems(4) by simp
  note f = NewStream_fresh [OF Suc.prems(1,2,3) n N]
  have ok: "streams_ok c1" using NewStream_ok [OF Suc.prems(1), of now] N by simp
  have le: "unat (c_nextStreamID c1) + n \<le> 4294967294" using f(5) next_id(1) [OF n] Suc.prems(4) by simp
  from Suc.IH [OF ok f(3,4) le R] f next_id [OF n] refs show ?case
    by (auto simp: upt_conv_Cons)
qed simp

text \<open>The sample connection after the peer opened stream 9.\<close>

definition peerConnection :: "(unit, unit, unit) Connection" where
  "peerConnection = snd (getStreamCtx 9 True sampleConnection)"

lemma sampleConnection_ok: "streams_ok sampleConnection"
  unfolding sampleConnection_def by (rule streams_ok_congI [OF newPendingConnection_ok]) simp_all

lemma peerConnection_ok: "streams_ok peerConnection"
  unfolding peerConnection_def by (rule getStreamCtx_ok [OF sampleConnection_ok])

lemma peerConnection_facts:
  "\<not> c_closed peerConnection" "map_of (c_streams peerConnection) 9 = Some 0"
  "s_incoming (c_heap peerConnection ! 0) = Some (make_chan 4)" "\<not> openedStream peerConnection 9"
  by code_simp+

section \<open>Properties\<close>

text \<open>The streams that one side opens have the ids 1, 2, 3 and so on, each used once: from a
  connection whose streams are all its own, \<open>n\<close> calls of NewStream return \<open>n\<close> new open streams
  with the next \<open>n\<close> ids, as long as those stay at most 0xFFFFFFFE, so none has id 0 or the
  control stream's id.\<close>

theorem new_stream_ids:
  assumes "streams_ok c" "only_own_streams c" "\<not> c_closed c"
    and "unat (c_nextStreamID c) + n \<le> 4294967294" and "newStreams now n c = (refs, c')"
  shows "map (\<lambda>r. unat (s_id (c_heap c' ! r))) refs =
           [Suc (unat (c_nextStreamID c)) ..< Suc (unat (c_nextStreamID c) + n)] \<and>
         (\<forall>r \<in> set refs. \<not> s_closed (c_heap c' ! r) \<and> s_id (c_heap c' ! r) \<noteq> defaultStreamID \<and>
                          s_id (c_heap c' ! r) \<noteq> controlStreamID)"
proof -
  from newStreams_heap [OF assms] obtain new where
    refs: "refs = [length (c_heap c) ..< length (c_heap c) + n]" and heap: "c_heap c' = c_heap c @ new"
    and ids: "map (unat \<circ> s_id) new = [Suc (unat (c_nextStreamID c)) ..< Suc (unat (c_nextStreamID c) + n)]"
    and opens: "list_all (\<lambda>s. \<not> s_closed s) new" by blast
  have len: "length new = n" using arg_cong [OF ids, of length] by simp
  have at: "map (\<lambda>r. g (c_heap c' ! r)) refs = map g new" for g :: "('a, 'b, 'c) Stream \<Rightarrow> 'd"
    using len by (intro nth_equalityI) (auto simp: refs heap nth_append)
  have bound: "0 < unat (s_id u) \<and> unat (s_id u) < 4294967295" if "u \<in> set new" for u
  proof -
    have "unat (s_id u) \<in> set [Suc (unat (c_nextStreamID c)) ..< Suc (unat (c_nextStreamID c) + n)]"
      unfolding ids [symmetric] using that by simp
    with assms(4) show ?thesis unfolding set_upt atLeastLessThan_iff by linarith
  qed
  have inew: "c_heap c' ! r \<in> set new" if "r \<in> set refs" for r
    using that len by (auto simp: refs heap nth_append)
  have zero: "unat defaultStreamID = 0" "unat controlStreamID = 4294967295"
    by (simp_all add: defaultStreamID_def controlStreamID_def unsigned_minus_1_eq_mask mask_eq_exp_minus_1)
  have "\<not> s_closed u \<and> s_id u \<noteq> defaultStreamID \<and> s_id u \<noteq> controlStreamID" if "u \<in> set new" for u
    using bound [OF that] zero opens that by (metis less_irrefl list_all_iff)
  with inew have "\<forall>r \<in> set refs. \<not> s_closed (c_heap c' ! r) \<and> s_id (c_heap c' ! r) \<noteq> defaultStreamID \<and>
                          s_id (c_heap c' ! r) \<noteq> controlStreamID" by blast
  with at [of "\<lambda>s. unat (s_id s)"] ids show ?thesis by (simp add: comp_def)
qed

theorem new_stream_ids_witness:
  "map (\<lambda>r. unat (s_id (c_heap (snd (newStreams 0 3 sampleConnection)) ! r)))
     (fst (newStreams 0 3 sampleConnection)) = [1, 2, 3]"
proof -
  have own: "only_own_streams sampleConnection" "\<not> c_closed sampleConnection" by code_simp+
  have n: "c_nextStreamID sampleConnection = 0" by code_simp
  from new_stream_ids [OF sampleConnection_ok own _ prod.collapse [symmetric], of 3 0] n
  show ?thesis by (simp add: numeral_3_eq_3)
qed

text \<open>Both sides number their streams from 1, and the id alone decides which stream a frame
  belongs to: if the peer has opened the stream that NewStream would number next, NewStream returns
  that stream of the peer instead of a new one.\<close>

theorem new_stream_joins_peer_stream:
  assumes "\<not> c_closed c" "unat (c_nextStreamID c) < 4294967294"
    and "map_of (c_streams c) (ucast (c_nextStreamID c + 1)) = Some ref"
  shows "NewStream now c = (ref, c\<lparr>c_nextStreamID := c_nextStreamID c + 1\<rparr>)"
  using assms next_id(2) [OF assms(2)]
  by (simp add: NewStream_def streamForID_def getStreamCtx_def Let_def)

theorem new_stream_joins_peer_stream_witness:
  "NewStream 0 (snd (getStreamCtx 1 True sampleConnection)) =
     (0, (snd (getStreamCtx 1 True sampleConnection))
           \<lparr>c_nextStreamID := c_nextStreamID (snd (getStreamCtx 1 True sampleConnection)) + 1\<rparr>)"
proof -
  let ?c = "snd (getStreamCtx 1 True sampleConnection)"
  have n: "c_nextStreamID ?c = 0" and o: "\<not> c_closed ?c"
    and m: "map_of (c_streams ?c) (ucast (c_nextStreamID ?c + 1)) = Some 0" by code_simp+
  from n have "unat (c_nextStreamID ?c) < 4294967294" by simp
  from new_stream_joins_peer_stream [OF o this m] show ?thesis .
qed

text \<open>A stream of the peer that this side has closed stays closed: every later frame on it that is
  not the peer's FIN is accepted and dropped, whatever the connection does in between, and changes
  nothing; the FIN frees the id, and only then the next frame opens the stream again.\<close>

theorem closed_peer_stream_drops:
  assumes ok: "streams_ok c" and open_: "\<not> c_closed c"
    and known: "map_of (c_streams c) i = Some ref" and c1: "c1 = closePeerStream now i c"
  shows "map_of (c_streams c1) i = None \<and>
         (\<not> isFin i flags \<longrightarrow> acceptFrame env i flags payload c1 =
            [(if c_closed (env c1) then Some ErrClosed else None, env c1)]) \<and>
         (isFin i flags \<longrightarrow> \<not> openedStream c i \<longrightarrow>
            (\<exists>c2. acceptFrame (\<lambda>c. c) i flags payload c1 = [(None, c2)] \<and>
               map_of (c_streams c2) i = None \<and>
               (\<exists>r c3. getStreamCtx i True c2 = (Some r, c3) \<and> r = length (c_heap c2))))"
proof -
  have m: "map_of (c_streams c1) i = None" and p: "i \<in> set (c_closedPeerStreams c1)"
    and cl: "c_closed c1 = c_closed c" and nx: "c_nextStreamID c1 = c_nextStreamID c"
    unfolding c1 using known
    by (auto simp: closePeerStream_def removeStream_def Let_def delete_conv)
  have g: "getStreamCtx i True c1 = (None, c1)"
    using m p cl open_ by (simp add: getStreamCtx_def)
  have drop: "\<not> isFin i flags \<longrightarrow> acceptFrame env i flags payload c1 =
            [(if c_closed (env c1) then Some ErrClosed else None, env c1)]"
    using g by (simp add: acceptFrame_def Let_def)
  let ?c2 = "forgetPeerStream i c1"
  have a: "isFin i flags \<Longrightarrow> acceptFrame (\<lambda>c. c) i flags payload c1 = [(None, ?c2)]"
    using g m cl open_ by (simp add: acceptFrame_def Let_def)
  have "map_of (c_streams ?c2) i = None" using m by (simp add: forgetPeerStream_def)
  moreover have "\<not> openedStream c i \<Longrightarrow> \<exists>c3. getStreamCtx i True ?c2 = (Some (length (c_heap ?c2)), c3)"
    using m cl open_ nx by (simp add: getStreamCtx_def forgetPeerStream_def openedStream_def Let_def)
  ultimately show ?thesis using m drop a by blast
qed

theorem closed_peer_stream_drops_witness:
  "acceptFrame (\<lambda>c. c) 9 0 [1] (closePeerStream 0 9 peerConnection) =
     [(if c_closed (closePeerStream 0 9 peerConnection) then Some ErrClosed else None,
       closePeerStream 0 9 peerConnection)] \<and>
   (\<exists>c2. acceptFrame (\<lambda>c. c) 9 FrameFlagFIN [] (closePeerStream 0 9 peerConnection) = [(None, c2)])"
proof -
  have f: "\<not> isFin 9 0" "isFin 9 FrameFlagFIN" by code_simp+
  note p = closed_peer_stream_drops [OF peerConnection_ok peerConnection_facts(1,2) refl]
  from p [of 0 0 "\<lambda>c. c" "[1]"] p [of 0 FrameFlagFIN "\<lambda>c. c" "[]"] f peerConnection_facts(4)
  show ?thesis by blast
qed

text \<open>A frame on an open stream is delivered in order: with room in the stream's queue the frame's
  payload is appended behind what is queued and its FIN behind the payload, so the stream is
  released only after everything sent before the FIN; the stream table does not change.\<close>

theorem accept_frame_delivers:
  assumes ok: "streams_ok c" and open_: "\<not> c_closed c"
    and known: "map_of (c_streams c) i = Some ref" and ch: "s_incoming (c_heap c ! ref) = Some ch"
    and room: "length (ch_buf ch) + 2 \<le> ch_cap ch"
    and out: "(e, c') \<in> set (acceptFrame (\<lambda>c. c) i flags payload c)"
  shows "e = None \<and> c_streams c' = c_streams c \<and>
         (\<exists>ch'. s_incoming (c_heap c' ! ref) = Some ch' \<and>
            ch_buf ch' = ch_buf ch @ (if payload \<noteq> [] then [Some payload] else []) @
                           (if isFin i flags then [None] else []))"
proof -
  note en = streams_ok_entry [OF ok known]
  have g: "getStreamCtx i True c = (Some ref, c)" using known open_ by (simp add: getStreamCtx_def)
  have q: "incomingQ ref p d =
      [(None, updStream ref (\<lambda>s. s\<lparr>s_incoming := Some (ch_send p x)\<rparr>) d)]"
    if "s_incoming (c_heap d ! ref) = Some x" "length (ch_buf x) < ch_cap x"
       "s_done (c_heap d ! ref) = Some False" "\<not> c_closed d" for p x d
    using that by (simp add: incomingQ_def ch_room_def)
  show ?thesis
    using out g known ch room en open_
    by (auto simp: acceptFrame_def Let_def queueFIN_def q updStream_nth ch_send_def forgetPeerStream_def
          split: if_splits)
qed

theorem accept_frame_delivers_witness:
  "\<exists>ch'. s_incoming (c_heap (snd (hd (acceptFrame (\<lambda>c. c) 9 FrameFlagFIN [5] peerConnection))) ! 0) = Some ch' \<and>
     ch_buf ch' = [Some [5], None]"
proof -
  let ?out = "acceptFrame (\<lambda>c. c) 9 FrameFlagFIN [5] peerConnection"
  have "length ?out = 1" by code_simp
  then have o: "(fst (hd ?out), snd (hd ?out)) \<in> set ?out" by (cases ?out) auto
  have r: "length (ch_buf (make_chan 4)) + 2 \<le> ch_cap (make_chan 4)" by (simp add: make_chan_def)
  have f: "isFin 9 FrameFlagFIN" by code_simp
  from accept_frame_delivers [OF peerConnection_ok peerConnection_facts(1-3) r o] f show ?thesis
    by (simp add: make_chan_def)
qed

end
