(* ===== verification/Transport.thy ===== *)
theory Transport
  imports Streams
begin

text \<open>
  The transport of a connection and its end: attaching, detaching and closing a transport and the
  generation counter (\<^verbatim>\<open>src/recovery_runtime.go\<close>), \<^verbatim>\<open>markClosed\<close>, \<^verbatim>\<open>Close\<close> and \<^verbatim>\<open>closeByPeer\<close>
  (\<^verbatim>\<open>src/connection.go\<close>), and the expiry of a detached server connection. Each critical section
  under \<^verbatim>\<open>transportMu\<close> is one step. Where a function waits, \<open>env\<close> is what the other goroutines do
  to the connection meanwhile, and the outcomes include the timer.
\<close>

definition closeNet :: "nat \<Rightarrow> ('m, 'b, 'h) Connection \<Rightarrow> ('m, 'b, 'h) Connection" where
  "closeNet conn c = c\<lparr>c_netClosed := List.insert conn (c_netClosed c)\<rparr>"

text \<open>\<^verbatim>\<open>attachedTransport\<close> and, with the wait, \<^verbatim>\<open>waitForTransport\<close>: the latter has no outcome while
  it waits.\<close>

definition attachedTransport ::
    "u64 \<Rightarrow> ('m, 'b, 'h) Connection \<Rightarrow> (nat \<times> u64 \<times> u64) option" where
  "attachedTransport lastGen c =
     (case c_conn c of
        Some conn \<Rightarrow>
          if c_transportGen c \<noteq> lastGen then Some (conn, c_transportGen c, c_transportResume c) else None
      | None \<Rightarrow> None)"

definition waitForTransport ::
    "u64 \<Rightarrow> ('m, 'b, 'h) Connection \<Rightarrow> (nat \<times> u64 \<times> u64) result outcomes" where
  "waitForTransport lastGen c =
     (if c_closed c then [Inl ErrClosed]
      else case attachedTransport lastGen c of Some t \<Rightarrow> [Inr t] | None \<Rightarrow> [])"

definition transportActive :: "u64 \<Rightarrow> ('m, 'b, 'h) Connection \<Rightarrow> bool" where
  "transportActive gen c \<longleftrightarrow> \<not> c_closed c \<and> c_transportGen c = gen"

definition currentTransport :: "('m, 'b, 'h) Connection \<Rightarrow> nat option" where
  "currentTransport c = c_conn c"

definition armReadDeadline :: "int \<Rightarrow> nat \<Rightarrow> ('m, 'b, 'h) Connection \<Rightarrow> ('m, 'b, 'h) Connection" where
  "armReadDeadline now conn c =
     (case c_recovery c of
        None \<Rightarrow> c
      | Some r \<Rightarrow>
          if r_heartbeatTO r \<le> 0 then c
          else c\<lparr>c_readDeadline := AList.update conn (wrap64 (now + r_heartbeatTO r)) (c_readDeadline c)\<rparr>)"

definition closeTransport :: "('m, 'b, 'h) Connection \<Rightarrow> ('m, 'b, 'h) Connection" where
  "closeTransport c =
     (let c1 = c\<lparr>c_conn := None, c_transportGen := c_transportGen c + 1, c_transportResume := 0\<rparr>
      in signalSend (case c_conn c of None \<Rightarrow> c1 | Some conn \<Rightarrow> closeNet conn c1))"

definition onClosed :: "('m, 'b, 'h) Connection \<Rightarrow> ('m, 'b, 'h) Connection" where
  "onClosed c =
     (case c_recovery c of
        None \<Rightarrow> c
      | Some r \<Rightarrow>
          let c1 = c\<lparr>c_recovery := Some (r\<lparr>r_expireTimer := None\<rparr>)\<rparr>
          in if r_role r = recoveryRoleServer \<and> r_server r then c1\<lparr>c_serverForgets := True\<rparr> else c1)"

definition markClosed :: "('m, 'b, 'h) Connection \<Rightarrow> ('m, 'b, 'h) Connection" where
  "markClosed c =
     (if c_closed c then c
      else closeAllStreams (onClosed (closeTransport (c\<lparr>c_closed := True\<rparr>))))"

definition attachTransport ::
    "int \<Rightarrow> nat \<Rightarrow> u64 \<Rightarrow> ('m, 'b, 'h) Connection \<Rightarrow> ('m, 'b, 'h) Connection" where
  "attachTransport now conn peerLastRecvSeq c =
     (if c_closed c then closeNet conn c
      else
        let c1 = c\<lparr>c_conn := Some conn, c_transportGen := c_transportGen c + 1,
                   c_transportResume := peerLastRecvSeq,
                   c_debug := (c_debug c)\<lparr>transportAttaches := transportAttaches (c_debug c) + 1\<rparr>\<rparr>;
            c2 = (case c_conn c of
                    Some old \<Rightarrow> if old \<noteq> conn then closeNet old c1 else c1
                  | None \<Rightarrow> c1);
            c3 = (case c_recovery c2 of
                    None \<Rightarrow> c2
                  | Some r \<Rightarrow> armReadDeadline now conn (c2\<lparr>c_recovery := Some (onAttached r)\<rparr>))
        in signalSend c3)"

definition scheduleExpiry ::
    "int \<Rightarrow> recoveryState \<Rightarrow> ('m, 'b, 'h) Connection \<Rightarrow> ('m, 'b, 'h) Connection" where
  "scheduleExpiry now r c =
     (if r_detachedTTL r \<le> 0 then markClosed c
      else c\<lparr>c_recovery := Some (r\<lparr>r_expireTimer := Some (now + r_detachedTTL r)\<rparr>)\<rparr>)"

definition onDetached :: "int \<Rightarrow> ('m, 'b, 'h) Connection \<Rightarrow> ('m, 'b, 'h) Connection" where
  "onDetached now c =
     (case c_recovery c of
        None \<Rightarrow> c
      | Some r \<Rightarrow>
          (case r_role r of
             recoveryRoleClient \<Rightarrow> c\<lparr>c_spawned := c_spawned c @ [ReconnectLoop]\<rparr>
           | recoveryRoleServer \<Rightarrow> scheduleExpiry now r c))"

definition detachTransport ::
    "int \<Rightarrow> nat \<Rightarrow> ('m, 'b, 'h) Connection \<Rightarrow> bool \<times> ('m, 'b, 'h) Connection" where
  "detachTransport now conn c =
     (if c_conn c \<noteq> Some conn then (False, c)
      else
        let c1 = c\<lparr>c_conn := None, c_transportGen := c_transportGen c + 1, c_transportResume := 0,
                   c_debug := (c_debug c)\<lparr>transportDetaches := transportDetaches (c_debug c) + 1\<rparr>\<rparr>
        in (True, signalSend (onDetached now (closeNet conn c1))))"

definition handleRecoveryTransportError ::
    "int \<Rightarrow> nat \<Rightarrow> ('m, 'b, 'h) Connection \<Rightarrow> ('m, 'b, 'h) Connection" where
  "handleRecoveryTransportError now conn c = snd (detachTransport now conn c)"

text \<open>The function of the expiry timer, run at time \<open>now\<close> if the timer is set and due.\<close>

definition expiryFires :: "int \<Rightarrow> ('m, 'b, 'h) Connection \<Rightarrow> ('m, 'b, 'h) Connection" where
  "expiryFires now c =
     (case c_recovery c of
        None \<Rightarrow> c
      | Some r \<Rightarrow>
          (case r_expireTimer r of
             None \<Rightarrow> c
           | Some at \<Rightarrow>
               if at \<le> now \<and> currentTransport c = None \<and> \<not> c_closed c then markClosed c else c))"

section \<open>Closing\<close>

text \<open>\<^verbatim>\<open>closeByPeer\<close>: the FIN marker is offered to every stream, until the timer; then the streams
  finish, until the timer; then the connection is released.\<close>

fun offerFINs ::
    "streamRef list \<Rightarrow> ('m, 'b, 'h) Connection \<Rightarrow> ('m, 'b, 'h) Connection outcomes" where
  "offerFINs [] c = [c]"
| "offerFINs (ref # refs) c =
     c # concat (map (offerFINs refs)
           ((case s_incoming (c_heap c ! ref) of
               Some ch \<Rightarrow>
                 if ch_room ch then [updStream ref (\<lambda>s. s\<lparr>s_incoming := Some (ch_send None ch)\<rparr>) c] else []
             | None \<Rightarrow> []) @
            (if s_done (c_heap c ! ref) = Some True then [c] else [])))"

definition closeByPeer ::
    "(('m, 'b, 'h) Connection \<Rightarrow> ('m, 'b, 'h) Connection) \<Rightarrow> ('m, 'b, 'h) Connection \<Rightarrow>
     ('m, 'b, 'h) Connection outcomes" where
  "closeByPeer env c =
     (if c_closing c then [markClosed c]
      else map (\<lambda>c'. markClosed (env c'))
             (offerFINs (map snd (c_streams c)) (c\<lparr>c_closing := True\<rparr>)))"

text \<open>\<^verbatim>\<open>closeGracefully\<close>: the marker is queued, until the timer or the close; the writer reaches it
  (\<open>env\<close>, or the timer or close first); the sending half of the transport is closed; the peer closes
  its side (\<open>env'\<close>, or the timer). \<open>canCloseWrite\<close> says that the transport supports half-closing
  and does it without an error.\<close>

definition closingMarker :: "nat \<Rightarrow> outboundFrame" where
  "closingMarker marker = \<lparr>of_streamID = 0, of_seq = 0, of_flags = 0, of_payload = [], of_queued = None,
     of_closing = Some marker\<rparr>"

definition closeGracefully ::
    "(('m, 'b, 'h) Connection \<Rightarrow> ('m, 'b, 'h) Connection) \<Rightarrow>
     (('m, 'b, 'h) Connection \<Rightarrow> ('m, 'b, 'h) Connection) \<Rightarrow> bool \<Rightarrow> nat \<Rightarrow>
     ('m, 'b, 'h) Connection \<Rightarrow> ('m, 'b, 'h) Connection outcomes" where
  "closeGracefully env env' canCloseWrite marker c =
     (if currentTransport c = None then [c]
      else
        c # (if ch_room (c_outbound c) then
          let c1 = env (signalSend (c\<lparr>c_outbound := ch_send (closingMarker marker) (c_outbound c)\<rparr>))
          in if marker \<notin> set (c_finished c1) then [c1]
             else case currentTransport c1 of
               None \<Rightarrow> [c1]
             | Some conn \<Rightarrow>
                 if canCloseWrite then [env' (c1\<lparr>c_netHalfClosed := List.insert conn (c_netHalfClosed c1)\<rparr>)]
                 else [c1]
         else []))"

definition Close ::
    "(('m, 'b, 'h) Connection \<Rightarrow> ('m, 'b, 'h) Connection) \<Rightarrow>
     (('m, 'b, 'h) Connection \<Rightarrow> ('m, 'b, 'h) Connection) \<Rightarrow> bool \<Rightarrow> nat \<Rightarrow>
     ('m, 'b, 'h) Connection \<Rightarrow> ('m, 'b, 'h) Connection outcomes" where
  "Close env env' canCloseWrite marker c =
     (if c_closing c then [markClosed c]
      else map markClosed (closeGracefully env env' canCloseWrite marker (c\<lparr>c_closing := True\<rparr>)))"

section \<open>Lemmas\<close>

lemma closeNet_more [simp]:
  "c_streams (closeNet n c) = c_streams c" "c_heap (closeNet n c) = c_heap c"
  "c_closed (closeNet n c) = c_closed c" "c_debug (closeNet n c) = c_debug c"
  "c_recovery (closeNet n c) = c_recovery c" "c_conn (closeNet n c) = c_conn c"
  "c_transportGen (closeNet n c) = c_transportGen c" "c_callbacks (closeNet n c) = c_callbacks c"
  "c_onCloseStream (closeNet n c) = c_onCloseStream c" "c_nextSendSeq (closeNet n c) = c_nextSendSeq c"
  "c_transportResume (closeNet n c) = c_transportResume c" "c_closing (closeNet n c) = c_closing c"
  "c_outbound (closeNet n c) = c_outbound c" "c_config (closeNet n c) = c_config c"
  by (simp_all add: closeNet_def)

lemma closeTransport_more [simp]:
  "c_streams (closeTransport c) = c_streams c" "c_heap (closeTransport c) = c_heap c"
  "c_closed (closeTransport c) = c_closed c" "c_debug (closeTransport c) = c_debug c"
  "c_recovery (closeTransport c) = c_recovery c" "c_conn (closeTransport c) = None"
  "c_transportGen (closeTransport c) = c_transportGen c + 1" "c_callbacks (closeTransport c) = c_callbacks c"
  "c_onCloseStream (closeTransport c) = c_onCloseStream c" "c_nextSendSeq (closeTransport c) = c_nextSendSeq c"
  "c_closing (closeTransport c) = c_closing c" "c_config (closeTransport c) = c_config c"
  by (simp_all add: closeTransport_def Let_def split: option.split)

lemma onClosed_more [simp]:
  "c_streams (onClosed c) = c_streams c" "c_heap (onClosed c) = c_heap c"
  "c_closed (onClosed c) = c_closed c" "c_debug (onClosed c) = c_debug c" "c_conn (onClosed c) = c_conn c"
  "c_transportGen (onClosed c) = c_transportGen c" "c_callbacks (onClosed c) = c_callbacks c"
  "c_onCloseStream (onClosed c) = c_onCloseStream c" "c_nextSendSeq (onClosed c) = c_nextSendSeq c"
  "c_closing (onClosed c) = c_closing c" "c_config (onClosed c) = c_config c"
  by (simp_all add: onClosed_def Let_def split: option.split)

lemma releaseStreams_more [simp]:
  "c_streams (releaseStreams xs c) = c_streams c" "c_closed (releaseStreams xs c) = c_closed c"
  "streamsOpened (c_debug (releaseStreams xs c)) = streamsOpened (c_debug c)"
  "c_onCloseStream (releaseStreams xs c) = c_onCloseStream c" "c_conn (releaseStreams xs c) = c_conn c"
  "c_recovery (releaseStreams xs c) = c_recovery c"
  "c_transportGen (releaseStreams xs c) = c_transportGen c"
  "c_nextSendSeq (releaseStreams xs c) = c_nextSendSeq c" "c_closing (releaseStreams xs c) = c_closing c"
  "c_config (releaseStreams xs c) = c_config c"
  by (induction xs c rule: releaseStreams.induct) simp_all

lemma releaseStream_net: "c_netClosed (releaseStream ref c) = c_netClosed c"
  by (simp add: releaseStream_def stream_close_def callCloseStream_def countStreamClosed_def
        updStream_def Let_def split: prod.splits)

lemma releaseStreams_net: "c_netClosed (releaseStreams xs c) = c_netClosed c"
  by (induction xs c rule: releaseStreams.induct) (simp_all add: releaseStream_net)

lemma onClosed_net: "c_netClosed (onClosed c) = c_netClosed c"
  by (simp add: onClosed_def Let_def split: option.split)

lemma markClosed_net: "set (c_netClosed c) \<subseteq> set (c_netClosed (markClosed c))"
  by (auto simp: markClosed_def closeAllStreams_def releaseStreams_net onClosed_net closeTransport_def
        closeNet_def signalSend_def Let_def split: option.splits)

text \<open>Releasing a list of distinct open streams closes each of them, counts each once and calls back
  once for each.\<close>

lemma releaseStreams_spec:
  assumes "distinct (map snd xs)"
    and "\<forall>r \<in> snd ` set xs. r < length (c_heap c) \<and> \<not> s_closeOnce (c_heap c ! r)"
  shows "length (c_heap (releaseStreams xs c)) = length (c_heap c)"
    and "\<And>r. c_heap (releaseStreams xs c) ! r =
           (if r \<in> snd ` set xs
            then (c_heap c ! r)\<lparr>s_closeOnce := True, s_closed := True, s_done := Some True\<rparr>
            else c_heap c ! r)"
    and "streamsClosed (c_debug (releaseStreams xs c)) = streamsClosed (c_debug c) + of_nat (length xs)"
    and "c_callbacks (releaseStreams xs c) =
           c_callbacks c @ (if c_onCloseStream c then map (CloseStreamCall \<circ> snd) xs else [])"
proof -
  have "length (c_heap (releaseStreams xs c)) = length (c_heap c) \<and>
    (\<forall>r. c_heap (releaseStreams xs c) ! r =
           (if r \<in> snd ` set xs
            then (c_heap c ! r)\<lparr>s_closeOnce := True, s_closed := True, s_done := Some True\<rparr>
            else c_heap c ! r)) \<and>
    streamsClosed (c_debug (releaseStreams xs c)) = streamsClosed (c_debug c) + of_nat (length xs) \<and>
    c_callbacks (releaseStreams xs c) =
           c_callbacks c @ (if c_onCloseStream c then map (CloseStreamCall \<circ> snd) xs else [])"
    using assms
  proof (induction xs c rule: releaseStreams.induct)
    case (2 i ref rest c)
    let ?c = "releaseStream ref c"
    have r: "ref < length (c_heap c)" "\<not> s_closeOnce (c_heap c ! ref)" "ref \<notin> snd ` set rest"
      "distinct (map snd rest)" using "2.prems" by auto
    have h: "c_heap ?c ! k = (if k = ref then (c_heap c ! ref)\<lparr>s_closeOnce := True, s_closed := True, s_done := Some True\<rparr>
        else c_heap c ! k)" for k
      using r by (simp add: releaseStream_spec nth_list_update)
    have len: "length (c_heap ?c) = length (c_heap c)" using r by (simp add: releaseStream_spec)
    have "k < length (c_heap ?c) \<and> \<not> s_closeOnce (c_heap ?c ! k)" if "k \<in> snd ` set rest" for k
      using that "2.prems"(2) r(3) unfolding len h by auto
    then have IH: "length (c_heap (releaseStreams rest ?c)) = length (c_heap ?c)"
      "c_heap (releaseStreams rest ?c) ! k = (if k \<in> snd ` set rest
            then (c_heap ?c ! k)\<lparr>s_closeOnce := True, s_closed := True, s_done := Some True\<rparr>
            else c_heap ?c ! k)"
      "streamsClosed (c_debug (releaseStreams rest ?c)) = streamsClosed (c_debug ?c) + of_nat (length rest)"
      "c_callbacks (releaseStreams rest ?c) =
           c_callbacks ?c @ (if c_onCloseStream ?c then map (CloseStreamCall \<circ> snd) rest else [])" for k
      using "2.IH" [OF r(4)] by blast+
    have "c_heap (releaseStreams rest ?c) ! k =
           (if k \<in> snd ` set ((i, ref) # rest)
            then (c_heap c ! k)\<lparr>s_closeOnce := True, s_closed := True, s_done := Some True\<rparr>
            else c_heap c ! k)" for k
      unfolding IH(2) h using r(3) by auto
    with IH(1,3,4) len show ?case
      by (simp add: releaseStream_spec(2,3) [OF r(2,1)])
  qed simp
  then show "length (c_heap (releaseStreams xs c)) = length (c_heap c)"
    and "\<And>r. c_heap (releaseStreams xs c) ! r =
           (if r \<in> snd ` set xs
            then (c_heap c ! r)\<lparr>s_closeOnce := True, s_closed := True, s_done := Some True\<rparr>
            else c_heap c ! r)"
    and "streamsClosed (c_debug (releaseStreams xs c)) = streamsClosed (c_debug c) + of_nat (length xs)"
    and "c_callbacks (releaseStreams xs c) =
           c_callbacks c @ (if c_onCloseStream c then map (CloseStreamCall \<circ> snd) xs else [])"
    by blast+
qed

lemma markClosed_ok:
  assumes "streams_ok c"
  shows "streams_ok (markClosed c)"
proof (cases "c_closed c")
  case False
  let ?c = "onClosed (closeTransport (c\<lparr>c_closed := True\<rparr>))"
  have "distinct (map snd (c_streams c))"
    "\<forall>r \<in> snd ` set (c_streams c). r < length (c_heap c) \<and> \<not> s_closeOnce (c_heap c ! r)"
    "streamsOpened (c_debug c) - streamsClosed (c_debug c) = of_nat (length (c_streams c))"
    using assms by (auto simp: streams_ok_def)
  with releaseStreams_spec(3) [of "c_streams c" "?c\<lparr>c_streams := []\<rparr>"] False
  have "streamsOpened (c_debug c) - streamsClosed (c_debug (markClosed c)) = 0"
    by (simp add: markClosed_def closeAllStreams_def algebra_simps)
  with False show ?thesis by (simp add: streams_ok_def markClosed_def closeAllStreams_def)
qed (simp add: markClosed_def assms)

lemma markClosed_closed [simp]: "c_closed (markClosed c)"
  by (simp add: markClosed_def closeAllStreams_def)

lemma markClosed_idem: "markClosed (markClosed c) = markClosed c"
  by (simp add: markClosed_def [of "markClosed c"])

lemma attachTransport_ok:
  assumes ok: "streams_ok c"
  shows "streams_ok (attachTransport now conn seq c)"
  by (rule streams_ok_congI [OF ok])
     (simp_all add: attachTransport_def armReadDeadline_def Let_def split: option.split)

lemma detachTransport_ok: "streams_ok c \<Longrightarrow> streams_ok (snd (detachTransport now conn c))"
proof -
  assume ok: "streams_ok c"
  let ?c1 = "closeNet conn (c\<lparr>c_conn := None, c_transportGen := c_transportGen c + 1, c_transportResume := 0,
      c_debug := (c_debug c)\<lparr>transportDetaches := transportDetaches (c_debug c) + 1\<rparr>\<rparr>)"
  have c1: "streams_ok ?c1" by (rule streams_ok_congI [OF ok]) simp_all
  have "streams_ok (onDetached now ?c1)"
    using c1 markClosed_ok [OF c1] streams_ok_congI [OF c1]
    by (auto simp: onDetached_def scheduleExpiry_def split: option.split recoveryRole.split)
  then have "streams_ok (signalSend (onDetached now ?c1))" by (rule streams_ok_congI) simp_all
  with ok show ?thesis by (simp add: detachTransport_def Let_def)
qed

lemma expiryFires_ok: "streams_ok c \<Longrightarrow> streams_ok (expiryFires now c)"
  by (simp add: expiryFires_def markClosed_ok split: option.split)

lemma offerFINs_ok: "streams_ok c \<Longrightarrow> c' \<in> set (offerFINs refs c) \<Longrightarrow> streams_ok c'"
proof (induction refs arbitrary: c)
  case (Cons ref refs)
  have "streams_ok (updStream ref (\<lambda>s. s\<lparr>s_incoming := Some x\<rparr>) c)" for x
    by (rule updStream_ok [OF Cons.prems(1)]) simp_all
  with Cons show ?case by (auto split: option.splits if_splits)
qed simp

section \<open>Runs of a connection\<close>

text \<open>The operations that change the streams or the transport of a connection, and the states they
  lead to.\<close>

inductive conn_step :: "('m, 'b, 'h) Connection \<Rightarrow> ('m, 'b, 'h) Connection \<Rightarrow> bool" where
  step_new: "conn_step c (snd (NewStream now c))"
| step_default: "conn_step c (snd (defaultStream c))"
| step_accept: "(e, c') \<in> set (acceptFrame (\<lambda>c. c) i flags payload c) \<Longrightarrow> conn_step c c'"
| step_remove: "conn_step c (removeStream now i c)"
| step_close_peer: "conn_step c (closePeerStream now i c)"
| step_attach: "conn_step c (attachTransport now conn seq c)"
| step_detach: "conn_step c (snd (detachTransport now conn c))"
| step_expire: "conn_step c (expiryFires now c)"
| step_closing: "conn_step c (c\<lparr>c_closing := True\<rparr>)"
| step_offer: "c' \<in> set (offerFINs (map snd (c_streams c)) c) \<Longrightarrow> conn_step c c'"
| step_mark_closed: "conn_step c (markClosed c)"

inductive_cases conn_stepE: "conn_step c c'"

lemma conn_step_ok: "conn_step c c' \<Longrightarrow> streams_ok c \<Longrightarrow> streams_ok c'"
proof (induction rule: conn_step.induct)
  case (step_new c now)
  then show ?case by (rule NewStream_ok)
next
  case (step_default c)
  then show ?case
    using streamForID_ok [OF step_default, of defaultStreamID]
    by (auto simp: defaultStream_def Let_def split: option.splits prod.splits intro: streams_ok_congI)
next
  case (step_accept e c' i flags payload c)
  then show ?case using acceptFrame_ok [of c "\<lambda>c. c"] by blast
next
  case (step_closing c)
  then show ?case by (rule streams_ok_congI) simp_all
qed (simp_all add: removeStream_ok closePeerStream_ok attachTransport_ok detachTransport_ok
       expiryFires_ok offerFINs_ok markClosed_ok)

text \<open>A transport is used under its generation only: a change of transport changes the generation.\<close>

lemma markClosed_gen:
  "\<not> c_closed c \<Longrightarrow> c_conn (markClosed c) = None \<and> c_transportGen (markClosed c) = c_transportGen c + 1"
  by (simp add: markClosed_def closeAllStreams_def)

text \<open>What follows a lost transport: the client starts to reconnect, the server keeps the connection
  for the time to live, or releases it if there is none.\<close>

lemma detach_effect:
  assumes "\<not> c_closed c" "c_conn c = Some conn" "c_recovery c = Some r"
    and c'_def: "c' = snd (detachTransport now conn c)"
  shows "conn \<in> set (c_netClosed c') \<and> c_conn c' = None \<and>
         (r_role r = recoveryRoleClient \<longrightarrow> \<not> c_closed c' \<and> ReconnectLoop \<in> set (c_spawned c')) \<and>
         (r_role r = recoveryRoleServer \<and> 0 < r_detachedTTL r \<longrightarrow> \<not> c_closed c' \<and>
            (\<exists>r'. c_recovery c' = Some r' \<and> r_expireTimer r' = Some (now + r_detachedTTL r))) \<and>
         (r_role r = recoveryRoleServer \<and> r_detachedTTL r \<le> 0 \<longrightarrow> c_closed c')"
proof -
  let ?c1 = "closeNet conn (c\<lparr>c_conn := None, c_transportGen := c_transportGen c + 1, c_transportResume := 0,
      c_debug := (c_debug c)\<lparr>transportDetaches := transportDetaches (c_debug c) + 1\<rparr>\<rparr>)"
  have c': "c' = signalSend (onDetached now ?c1)" using assms by (simp add: detachTransport_def Let_def)
  have c1: "conn \<in> set (c_netClosed ?c1)" "c_conn ?c1 = None" "\<not> c_closed ?c1" "c_recovery ?c1 = Some r"
    using assms(1,3) by (simp_all add: closeNet_def)
  have sig: "c_netClosed (signalSend x) = c_netClosed x" "c_spawned (signalSend x) = c_spawned x" for x
    by (simp_all add: signalSend_def)
  have m: "conn \<in> set (c_netClosed (markClosed ?c1))" "c_conn (markClosed ?c1) = None"
    using markClosed_net [of ?c1] markClosed_gen [of ?c1] c1 by auto
  show ?thesis
    unfolding c' sig signalSend_more onDetached_def scheduleExpiry_def c1(4) using c1 m
    by (cases "r_role r") (simp_all add: closeNet_def)
qed

section \<open>Properties\<close>

text \<open>The stream table stays consistent: from a new connection, after any sequence of opening,
  accepting, removing, closing, attaching, detaching, expiring and releasing, every entry points at
  a distinct open stream with its own id, the opened and closed counters differ by exactly the
  number of streams in the table, and once the connection is closed the table is empty.\<close>

theorem stream_table_consistent:
  assumes "conn_step\<^sup>*\<^sup>* (newPendingConnection conn reg onNew onClose) c"
  shows "distinct (map fst (c_streams c)) \<and>
         (\<forall>(i, ref) \<in> set (c_streams c). s_id (c_heap c ! ref) = i \<and> s_done (c_heap c ! ref) = Some False) \<and>
         streamsOpened (c_debug c) - streamsClosed (c_debug c) = of_nat (length (c_streams c)) \<and>
         (c_closed c \<longrightarrow> c_streams c = [] \<and> streamsOpened (c_debug c) = streamsClosed (c_debug c))"
proof -
  from assms have "streams_ok c"
    by (induction rule: rtranclp_induct) (auto simp: newPendingConnection_ok intro: conn_step_ok)
  then show ?thesis by (auto simp: streams_ok_def)
qed

theorem stream_table_consistent_witness:
  "c_closed (markClosed (snd (NewStream 0 (newPendingConnection 1 \<lparr>rt_handlers = [], rt_messages = []\<rparr> True True :: (unit, unit, unit) Connection)))) \<and>
   streamsOpened (c_debug (markClosed (snd (NewStream 0 (newPendingConnection 1 \<lparr>rt_handlers = [], rt_messages = []\<rparr> True True :: (unit, unit, unit) Connection))))) =
   streamsClosed (c_debug (markClosed (snd (NewStream 0 (newPendingConnection 1 \<lparr>rt_handlers = [], rt_messages = []\<rparr> True True :: (unit, unit, unit) Connection)))))"
proof -
  let ?c = "newPendingConnection 1 \<lparr>rt_handlers = [], rt_messages = []\<rparr> True True :: (unit, unit, unit) Connection"
  have "conn_step\<^sup>*\<^sup>* ?c (markClosed (snd (NewStream 0 ?c)))"
    by (rule rtranclp.rtrancl_into_rtrancl, rule r_into_rtranclp, rule step_new, rule step_mark_closed)
  from stream_table_consistent [OF this] show ?thesis by simp
qed

text \<open>Closing releases everything exactly once: markClosed closes the transport, empties the table,
  closes every stream that was in it, leaves all other streams as they were, and calls onCloseStream
  once for each, in addition to nothing else; a second markClosed does nothing.\<close>

theorem mark_closed_releases:
  assumes ok: "streams_ok c" and "\<not> c_closed c"
  shows "c_closed (markClosed c) \<and> c_conn (markClosed c) = None \<and> c_streams (markClosed c) = [] \<and>
         (\<forall>conn. c_conn c = Some conn \<longrightarrow> conn \<in> set (c_netClosed (markClosed c))) \<and>
         (\<forall>r. s_closed (c_heap (markClosed c) ! r) \<longleftrightarrow>
                r \<in> snd ` set (c_streams c) \<or> s_closed (c_heap c ! r)) \<and>
         c_callbacks (markClosed c) =
           c_callbacks c @ (if c_onCloseStream c then map (CloseStreamCall \<circ> snd) (c_streams c) else []) \<and>
         markClosed (markClosed c) = markClosed c"
proof -
  let ?c = "(onClosed (closeTransport (c\<lparr>c_closed := True\<rparr>)))\<lparr>c_streams := []\<rparr>"
  have M: "markClosed c = releaseStreams (c_streams c) ?c"
    using assms(2) by (simp add: markClosed_def closeAllStreams_def)
  have d: "distinct (map snd (c_streams c))"
    "\<forall>r \<in> snd ` set (c_streams c). r < length (c_heap c) \<and> \<not> s_closeOnce (c_heap c ! r)"
    using ok by (auto simp: streams_ok_def)
  then have d': "\<forall>r \<in> snd ` set (c_streams c). r < length (c_heap ?c) \<and> \<not> s_closeOnce (c_heap ?c ! r)"
    by simp
  note R = releaseStreams_spec [OF d(1) d']
  have "s_closed (c_heap (markClosed c) ! r) \<longleftrightarrow> r \<in> snd ` set (c_streams c) \<or> s_closed (c_heap c ! r)" for r
    unfolding M R(2) by simp
  moreover have "c_callbacks (markClosed c) =
      c_callbacks c @ (if c_onCloseStream c then map (CloseStreamCall \<circ> snd) (c_streams c) else [])"
    unfolding M R(4) by simp
  moreover have "\<forall>conn. c_conn c = Some conn \<longrightarrow> conn \<in> set (c_netClosed (markClosed c))"
    unfolding M by (auto simp: releaseStreams_net onClosed_net closeTransport_def closeNet_def signalSend_def)
  moreover have "c_conn (markClosed c) = None" "c_streams (markClosed c) = []"
    unfolding M by simp_all
  ultimately show ?thesis by (simp add: markClosed_idem)
qed

theorem mark_closed_releases_witness:
  "c_streams (markClosed peerConnection) = [] \<and> s_closed (c_heap (markClosed peerConnection) ! 0) \<and>
   c_callbacks (markClosed peerConnection) = [NewStreamCall 0, CloseStreamCall 0]"
proof -
  have "c_streams peerConnection = [(9, 0)]" "c_callbacks peerConnection = [NewStreamCall 0]"
    "c_onCloseStream peerConnection" by code_simp+
  with mark_closed_releases [OF peerConnection_ok peerConnection_facts(1)] show ?thesis by simp
qed

text \<open>Generations separate transports: attaching to an open connection, detaching the current
  transport and closing each move to a new generation and make every earlier one inactive, so a
  goroutine that still works on an old transport notices; a transport attached to a closed
  connection is closed and changes nothing else.\<close>

theorem transport_generations:
  assumes "\<not> c_closed c"
  shows "transportActive (c_transportGen c + 1) (attachTransport now conn seq c) \<and>
         \<not> transportActive (c_transportGen c) (attachTransport now conn seq c) \<and>
         attachedTransport (c_transportGen c) (attachTransport now conn seq c) =
           Some (conn, c_transportGen c + 1, seq) \<and>
         (c_conn c = Some old \<longrightarrow> \<not> transportActive (c_transportGen c) (snd (detachTransport now old c)) \<and>
            old \<in> set (c_netClosed (snd (detachTransport now old c)))) \<and>
         \<not> transportActive (c_transportGen c) (markClosed c) \<and>
         attachTransport now conn seq (markClosed c) = closeNet conn (markClosed c)"
proof -
  have a: "c_closed (attachTransport now conn seq c) = False"
    "c_transportGen (attachTransport now conn seq c) = c_transportGen c + 1"
    "c_conn (attachTransport now conn seq c) = Some conn"
    "c_transportResume (attachTransport now conn seq c) = seq"
    using assms by (simp_all add: attachTransport_def armReadDeadline_def Let_def split: option.split)
  have "c_transportGen (snd (detachTransport now old c)) \<noteq> c_transportGen c \<or>
      c_closed (snd (detachTransport now old c))" if "c_conn c = Some old"
    using that assms
    by (auto simp: detachTransport_def onDetached_def scheduleExpiry_def Let_def
        split: option.splits recoveryRole.splits)
  moreover have "old \<in> set (c_netClosed (snd (detachTransport now old c)))" if "c_conn c = Some old"
    using that assms
    by (auto simp: detachTransport_def onDetached_def scheduleExpiry_def closeNet_def
          signalSend_def Let_def intro: subsetD [OF markClosed_net]
          split: option.splits recoveryRole.splits)
  ultimately show ?thesis
    using a by (auto simp: transportActive_def attachedTransport_def attachTransport_def [of now conn seq "markClosed c"])
qed

theorem transport_generations_witness:
  "transportActive (c_transportGen peerConnection + 1) (attachTransport 5 2 7 peerConnection) \<and>
   \<not> transportActive (c_transportGen peerConnection) (attachTransport 5 2 7 peerConnection) \<and>
   1 \<in> set (c_netClosed (snd (detachTransport 5 1 peerConnection)))"
proof -
  have "c_conn peerConnection = Some 1" by code_simp
  with transport_generations [OF peerConnection_facts(1), of 5 2 7 1] show ?thesis by blast
qed

end
