(* ===== verification/Recovery_Writer.thy ===== *)
theory Recovery_Writer
  imports Transport
begin

text \<open>
  The writer goroutine of a recoverable connection (\<^verbatim>\<open>recoveryWriter\<close> of
  \<^verbatim>\<open>src/recovery_runtime.go\<close>). Its functions take the writer and the connection and return both; an
  error result is \<open>errTransportLost\<close> or \<open>errWriterDone\<close>, as in the code. The writer runs only on
  a connection with recovery state; without it the Go code would dereference a nil pointer, and the
  model stops the writer. A call that waits has one outcome per case of its \<^verbatim>\<open>select\<close> that is ready;
  the timer counts as ready whenever it is set. \<^verbatim>\<open>recoveryWriterLoop\<close> and the loop of
  \<^verbatim>\<open>writeTransport\<close> run without end: the body of the latter is \<open>writeTransportStep\<close>; the whole goroutine is in \<open>Writer_Loop\<close>.
\<close>

datatype writerErr = errTransportLost | errWriterDone

record recoveryWriter =
  w_held :: "outboundFrame option"
  w_conn :: nat
  w_bw :: bufio_writer
  w_lastSentSeq :: u64
  w_resume :: "frameRecord list"

type_synonym ('m, 'b, 'h) writerState = "recoveryWriter \<times> ('m, 'b, 'h) Connection"

text \<open>\<^verbatim>\<open>frame.queued <- err\<close>: the sender's verdict.\<close>

definition sendVerdict ::
    "nat option \<Rightarrow> go_error option \<Rightarrow> ('m, 'b, 'h) Connection \<Rightarrow> ('m, 'b, 'h) Connection" where
  "sendVerdict queued err c =
     (case queued of None \<Rightarrow> c | Some q \<Rightarrow> c\<lparr>c_verdicts := AList.update q err (c_verdicts c)\<rparr>)"

definition w_stage ::
    "int \<Rightarrow> outboundFrame \<Rightarrow> ('m, 'b, 'h) writerState \<Rightarrow> frameRecord option \<times> ('m, 'b, 'h) writerState" where
  "w_stage now frame ws =
     (case ws of (w, c) \<Rightarrow>
        case c_recovery c of
          None \<Rightarrow> (None, ws)
        | Some r \<Rightarrow>
            let seq = c_nextSendSeq c + 1
            in case stage (r_replay r) frame seq of
                 (record, held, err, b) \<Rightarrow>
                   let c1 = c\<lparr>c_recovery := Some (r\<lparr>r_replay := b\<rparr>)\<rparr>
                   in if held then (None, (w\<lparr>w_held := Some frame\<rparr>, c1))
                      else
                        let c2 = (if err = None then c1\<lparr>c_nextSendSeq := seq\<rparr> else c1);
                            c3 = sendVerdict (of_queued frame) err c2
                        in case err of
                             Some e \<Rightarrow>
                               (None, (w, conn_noteFailure now DebugFailureRecoveryLiveWrite
                                            (''recovery live queue failed: '' @ Error e) c3))
                           | None \<Rightarrow> (record, (w, c3)))"

text \<open>\<^verbatim>\<open>write\<close> buffers a frame; on failure it detaches the transport.\<close>

definition w_write ::
    "int \<Rightarrow> u32 \<Rightarrow> u64 \<Rightarrow> FrameFlags \<Rightarrow> bytes \<Rightarrow> string \<Rightarrow> DebugFailureCode \<Rightarrow>
     ('m, 'b, 'h) writerState \<Rightarrow> writerErr option \<times> ('m, 'b, 'h) writerState" where
  "w_write now streamID seq flags payload kind failure ws =
     (case ws of (w, c) \<Rightarrow>
        case writeFrameNoFlush bw_Write (c_config c) (c_debug c) (w_bw w) streamID seq flags payload of
          (None, d, bw) \<Rightarrow> (None, (w\<lparr>w_bw := bw\<rparr>, c\<lparr>c_debug := d\<rparr>))
        | (Some e, d, bw) \<Rightarrow>
            (Some errTransportLost,
             (w\<lparr>w_bw := bw\<rparr>,
              handleRecoveryTransportError now (w_conn w)
                (conn_noteFailure now failure (''recovery '' @ kind @ '' write failed: '' @ Error e)
                   (c\<lparr>c_debug := d\<rparr>)))))"

definition writeLive ::
    "int \<Rightarrow> outboundFrame \<Rightarrow> ('m, 'b, 'h) writerState \<Rightarrow> writerErr option \<times> ('m, 'b, 'h) writerState" where
  "writeLive now frame ws =
     (case w_stage now frame ws of
        (None, ws1) \<Rightarrow> (None, ws1)
      | (Some record, ws1) \<Rightarrow>
          if f_seq record \<le> w_lastSentSeq (fst ws1) then (None, ws1)
          else case w_write now (f_streamID record) (f_seq record) (f_flags record) (f_payload record)
                      ''live'' DebugFailureRecoveryLiveWrite ws1 of
                 (Some e, ws2) \<Rightarrow> (Some e, ws2)
               | (None, (w, c)) \<Rightarrow> (None, (w\<lparr>w_lastSentSeq := f_seq record\<rparr>, c)))"

definition writeResume ::
    "int \<Rightarrow> ('m, 'b, 'h) writerState \<Rightarrow> writerErr option \<times> ('m, 'b, 'h) writerState" where
  "writeResume now ws =
     (case ws of (w, c) \<Rightarrow>
        case (w_resume w, c_recovery c) of
          (frame # rest, Some r) \<Rightarrow>
            let w1 = w\<lparr>w_resume := rest\<rparr>;
                c1 = c\<lparr>c_recovery := Some (r\<lparr>r_resumeDepth := int (length rest)\<rparr>)\<rparr>
            in if f_seq frame \<le> w_lastSentSeq w1 \<or> f_seq frame \<le> lastAckedSeq (r_replay r)
               then (None, (w1, c1))
               else (case w_write now (f_streamID frame) (f_seq frame) (f_flags frame) (f_payload frame)
                            ''resume'' DebugFailureRecoveryResumeWrite (w1, c1) of
                       (Some e, ws2) \<Rightarrow> (Some e, ws2)
                     | (None, (w2, c2)) \<Rightarrow> (None, (w2\<lparr>w_lastSentSeq := f_seq frame\<rparr>, c2)))
        | _ \<Rightarrow> (Some errWriterDone, ws))"

definition takeFrame ::
    "('m, 'b, 'h) writerState \<Rightarrow> outboundFrame option \<times> ('m, 'b, 'h) writerState" where
  "takeFrame ws =
     (case ws of (w, c) \<Rightarrow>
        case w_held w of
          Some frame \<Rightarrow> (Some frame, (w\<lparr>w_held := None\<rparr>, c))
        | None \<Rightarrow>
            (case ch_buf (c_outbound c) of
               [] \<Rightarrow> (None, ws)
             | frame # rest \<Rightarrow>
                 (Some frame, (w, c\<lparr>c_outbound := (c_outbound c)\<lparr>ch_buf := rest\<rparr>\<rparr>))))"

definition finishRecoveryWriter ::
    "int \<Rightarrow> nat \<Rightarrow> ('m, 'b, 'h) writerState \<Rightarrow> ('m, 'b, 'h) writerState" where
  "finishRecoveryWriter now marker ws =
     (case ws of (w, c) \<Rightarrow>
        case writeFrameTo bw_Write (Some bw_Flush) (c_config c) (c_debug c) (w_bw w)
               controlStreamID 0 0 buildCloseControlPayload of
          (err, d, bw) \<Rightarrow>
            let c1 = c\<lparr>c_debug := d\<rparr>;
                c2 = (case err of
                        None \<Rightarrow> c1
                      | Some e \<Rightarrow> conn_noteFailure now DebugFailureRecoveryControl
                                    (''recovery close write failed: '' @ Error e) c1)
            in (w\<lparr>w_bw := bw\<rparr>, c2\<lparr>c_finished := List.insert marker (c_finished c2)\<rparr>))"

text \<open>\<^verbatim>\<open>writeNext\<close>; \<open>now\<close> and \<open>now'\<close> are the two clock readings of \<^verbatim>\<open>takePendingControl\<close>. The first
  component says whether there may be more to write.\<close>

definition writeNext ::
    "int \<Rightarrow> int \<Rightarrow> ('m, 'b, 'h) writerState \<Rightarrow> bool \<times> writerErr option \<times> ('m, 'b, 'h) writerState" where
  "writeNext now now' ws =
     (case ws of (w, c) \<Rightarrow>
        case c_recovery c of
          None \<Rightarrow> (False, Some errWriterDone, ws)
        | Some r \<Rightarrow>
            case takePendingControl now now' r of
              ((_, ackSeq, ok), r1) \<Rightarrow>
                let ws1 = (w, c\<lparr>c_recovery := Some r1\<rparr>)
                in if ok then
                     (True, w_write now controlStreamID 0 0 (buildAckControlPayload ackSeq) ''ack''
                              DebugFailureRecoveryAckWrite ws1)
                   else if w_resume w \<noteq> [] then (True, writeResume now ws1)
                   else
                     case takeFrame ws1 of
                       (None, ws2) \<Rightarrow> (False, None, ws2)
                     | (Some frame, ws2) \<Rightarrow>
                         (case of_closing frame of
                            Some marker \<Rightarrow>
                              (False, Some errWriterDone, finishRecoveryWriter now marker ws2)
                          | None \<Rightarrow>
                              (case writeLive now frame ws2 of
                                 (Some e, ws3) \<Rightarrow> (False, Some e, ws3)
                               | (None, ws3) \<Rightarrow> (w_held (fst ws3) = None, None, ws3))))"

text \<open>The wait of \<^verbatim>\<open>wait\<close>: the ACK delay or the heartbeat interval, whichever ends first; zero or
  less means no timer.\<close>

definition waitDuration :: "int \<Rightarrow> recoveryState \<Rightarrow> Duration" where
  "waitDuration now r =
     (let ackWait = nextAckWait now r; heartbeatWait = r_heartbeatIntv r
      in if heartbeatWait > 0 \<and> (ackWait \<le> 0 \<or> heartbeatWait < ackWait) then heartbeatWait else ackWait)"

text \<open>\<^verbatim>\<open>outbound()\<close>: the queue of new frames, none while a frame is held; a receive from it takes the
  first frame.\<close>

definition outboundQueue :: "('m, 'b, 'h) writerState \<Rightarrow> outboundFrame list" where
  "outboundQueue ws =
     (case ws of (w, c) \<Rightarrow> if w_held w \<noteq> None then [] else ch_buf (c_outbound c))"

definition popOutbound :: "('m, 'b, 'h) writerState \<Rightarrow> ('m, 'b, 'h) writerState" where
  "popOutbound ws =
     (case ws of (w, c) \<Rightarrow> (w, c\<lparr>c_outbound := (c_outbound c)\<lparr>ch_buf := tl (ch_buf (c_outbound c))\<rparr>\<rparr>))"

definition flushPending ::
    "int \<Rightarrow> ('m, 'b, 'h) writerState \<Rightarrow> writerErr option \<times> ('m, 'b, 'h) writerState" where
  "flushPending now ws =
     (case ws of (w, c) \<Rightarrow>
        if bw_buf (w_bw w) = [] then (None, ws)
        else case bw_Flush (w_bw w) of
          (None, bw) \<Rightarrow> (None, (w\<lparr>w_bw := bw\<rparr>, c))
        | (Some e, bw) \<Rightarrow>
            (Some errTransportLost,
             (w\<lparr>w_bw := bw\<rparr>,
              handleRecoveryTransportError now (w_conn w)
                (conn_noteFailure now DebugFailureRecoveryLiveWrite
                   (''recovery flush failed: '' @ Error e) c))))"

definition w_wait ::
    "int \<Rightarrow> ('m, 'b, 'h) writerState \<Rightarrow> (writerErr option \<times> ('m, 'b, 'h) writerState) outcomes" where
  "w_wait now ws =
     (case flushPending now ws of
        (Some e, ws1) \<Rightarrow> [(Some e, ws1)]
      | (None, ws1) \<Rightarrow>
          case c_recovery (snd ws1) of
            None \<Rightarrow> [(Some errWriterDone, ws1)]
          | Some r \<Rightarrow>
              let wait = waitDuration now r
              in (if c_closed (snd ws1) then [(Some errWriterDone, ws1)] else []) @
                 (if c_sendNotify (snd ws1)
                  then [(None, (fst ws1, (snd ws1)\<lparr>c_sendNotify := False\<rparr>))] else []) @
                 (case outboundQueue ws1 of
                    [] \<Rightarrow> []
                  | frame # _ \<Rightarrow>
                      (case of_closing frame of
                         Some marker \<Rightarrow>
                           [(Some errWriterDone, finishRecoveryWriter now marker (popOutbound ws1))]
                       | None \<Rightarrow> [writeLive now frame (popOutbound ws1)])) @
                 (if wait > 0 then
                    if wait = r_heartbeatIntv r
                    then [w_write now controlStreamID 0 0 buildPingControlPayload ''ping''
                            DebugFailureRecoveryPingWrite ws1]
                    else [(None, ws1)]
                  else []))"

definition stageWhileDetached ::
    "int \<Rightarrow> ('m, 'b, 'h) writerState \<Rightarrow> (writerErr option \<times> ('m, 'b, 'h) writerState) outcomes" where
  "stageWhileDetached now ws =
     (if c_closed (snd ws) then [(Some errWriterDone, ws)] else []) @
     (if c_sendNotify (snd ws) then [(None, (fst ws, (snd ws)\<lparr>c_sendNotify := False\<rparr>))] else []) @
     (case outboundQueue ws of
        [] \<Rightarrow> []
      | frame # _ \<Rightarrow>
          (case of_closing frame of
             Some marker \<Rightarrow>
               (let (w, c) = popOutbound ws
                in [(Some errWriterDone, (w, c\<lparr>c_finished := List.insert marker (c_finished c)\<rparr>))])
           | None \<Rightarrow> [(None, snd (w_stage now frame (popOutbound ws)))]))"

text \<open>The start of \<^verbatim>\<open>writeTransport\<close> on the transport \<open>net\<close>.\<close>

definition beginTransport ::
    "nat \<Rightarrow> net_conn \<Rightarrow> u64 \<Rightarrow> ('m, 'b, 'h) writerState \<Rightarrow> ('m, 'b, 'h) writerState" where
  "beginTransport conn net resumeSeq ws =
     (case ws of (w, c) \<Rightarrow>
        case c_recovery c of
          None \<Rightarrow> ws
        | Some r \<Rightarrow>
            let lastSent = min resumeSeq (c_nextSendSeq c);
                (frames, r1) = prepareResume lastSent r
            in (w\<lparr>w_conn := conn, w_bw := newBufioWriter net, w_lastSentSeq := lastSent,
                  w_resume := frames\<rparr>, c\<lparr>c_recovery := Some r1\<rparr>))"

text \<open>One round of the loop of \<^verbatim>\<open>writeTransport\<close> while the transport is active.\<close>

definition writeTransportStep ::
    "int \<Rightarrow> int \<Rightarrow> ('m, 'b, 'h) writerState \<Rightarrow> (writerErr option \<times> ('m, 'b, 'h) writerState) outcomes" where
  "writeTransportStep now now' ws =
     (case writeNext now now' ws of
        (wrote, err, ws1) \<Rightarrow>
          if err = None \<and> \<not> wrote then w_wait now ws1 else [(err, ws1)])"

section \<open>Lemmas\<close>

lemma sendVerdict_more [simp]:
  "c_recovery (sendVerdict q e c) = c_recovery c" "c_nextSendSeq (sendVerdict q e c) = c_nextSendSeq c"
  "c_closed (sendVerdict q e c) = c_closed c" "c_transportGen (sendVerdict q e c) = c_transportGen c"
  "c_conn (sendVerdict q e c) = c_conn c" "c_config (sendVerdict q e c) = c_config c"
  by (simp_all add: sendVerdict_def split: option.split)

lemma prepareResume_spec:
  assumes "replay_ok (r_replay r)" and "prepareResume n r = (frames, r')"
  shows "replay_ok (r_replay r') \<and> kept (r_replay r') = filter (\<lambda>x. n < f_seq x) (kept (r_replay r)) \<and>
         frames = kept (r_replay r') \<and> rb_lastAcked (r_replay r') = max (rb_lastAcked (r_replay r)) n"
  using assms rq.confirm_invar [OF assms(1), of n] rq.after_confirm [OF assms(1), of n]
    rq.confirm_contents [OF assms(1), of n] rq.confirm_acked [OF assms(1), of n]
  by (auto simp: prepareResume_def Let_def)

text \<open>Losing the transport does not touch what delivery rests on.\<close>

lemma markClosed_recovery:
  assumes "c_recovery c = Some r"
  shows "\<exists>t. c_recovery (markClosed c) = Some (r\<lparr>r_expireTimer := t\<rparr>)"
proof (cases "c_closed c")
  case True
  then have "c_recovery (markClosed c) = Some (r\<lparr>r_expireTimer := r_expireTimer r\<rparr>)"
    using assms by (simp add: markClosed_def)
  then show ?thesis by blast
next
  case False
  then have "c_recovery (markClosed c) = Some (r\<lparr>r_expireTimer := None\<rparr>)"
    using assms by (simp add: markClosed_def closeAllStreams_def onClosed_def Let_def)
  then show ?thesis by blast
qed

lemma markClosed_nextSendSeq [simp]: "c_nextSendSeq (markClosed c) = c_nextSendSeq c"
  by (simp add: markClosed_def closeAllStreams_def)

lemma onDetached_recovery:
  assumes "c_recovery c = Some r"
  shows "\<exists>t. c_recovery (onDetached now c) = Some (r\<lparr>r_expireTimer := t\<rparr>)"
proof (cases "r_role r")
  case recoveryRoleClient
  then have "c_recovery (onDetached now c) = Some (r\<lparr>r_expireTimer := r_expireTimer r\<rparr>)"
    using assms by (simp add: onDetached_def)
  then show ?thesis by blast
next
  case recoveryRoleServer
  with assms markClosed_recovery [OF assms] show ?thesis
    by (auto simp: onDetached_def scheduleExpiry_def)
qed

lemma handleRecoveryTransportError_recovery:
  assumes "c_recovery c = Some r"
  shows "\<exists>t. c_recovery (handleRecoveryTransportError now conn c) = Some (r\<lparr>r_expireTimer := t\<rparr>)"
proof (cases "c_conn c = Some conn")
  case True
  let ?c1 = "closeNet conn (c\<lparr>c_conn := None, c_transportGen := c_transportGen c + 1, c_transportResume := 0,
      c_debug := (c_debug c)\<lparr>transportDetaches := transportDetaches (c_debug c) + 1\<rparr>\<rparr>)"
  have "c_recovery ?c1 = Some r" using assms by simp
  from onDetached_recovery [OF this, of now] True show ?thesis
    by (simp add: handleRecoveryTransportError_def detachTransport_def Let_def)
next
  case False
  then have "c_recovery (handleRecoveryTransportError now conn c) = Some (r\<lparr>r_expireTimer := r_expireTimer r\<rparr>)"
    using assms by (simp add: handleRecoveryTransportError_def detachTransport_def)
  then show ?thesis by blast
qed

lemma handleRecoveryTransportError_next [simp]:
  "c_nextSendSeq (handleRecoveryTransportError now conn c) = c_nextSendSeq c"
  by (auto simp: handleRecoveryTransportError_def detachTransport_def onDetached_def scheduleExpiry_def
        Let_def split: option.split recoveryRole.split)

lemma markClosed_config [simp]: "c_config (markClosed c) = c_config c"
  by (simp add: markClosed_def closeAllStreams_def)

lemma handleRecoveryTransportError_config [simp]: "c_config (handleRecoveryTransportError now conn c) = c_config c"
  by (auto simp: handleRecoveryTransportError_def detachTransport_def onDetached_def scheduleExpiry_def
        Let_def split: option.split recoveryRole.split)

section \<open>The abstract sender\<close>

text \<open>What the peer can see of the writer: the replay buffer, the last number given out, and, on the
  current transport, the last number sent and the frames still to replay. Its operations return the
  data frames they put on the transport.\<close>

record sender =
  sn_replay :: replayBuffer
  sn_next :: u64
  sn_last :: u64
  sn_resume :: "frameRecord list"

definition sd_stage :: "outboundFrame \<Rightarrow> sender \<Rightarrow> frameRecord option \<times> sender" where
  "sd_stage frame s =
     (case stage (sn_replay s) frame (sn_next s + 1) of
        (None, _, _, b) \<Rightarrow> (None, s\<lparr>sn_replay := b\<rparr>)
      | (Some rec, _, _, b) \<Rightarrow> (Some rec, s\<lparr>sn_replay := b, sn_next := sn_next s + 1\<rparr>))"

definition sd_live :: "outboundFrame \<Rightarrow> sender \<Rightarrow> frameRecord list \<times> sender" where
  "sd_live frame s =
     (case sd_stage frame s of
        (None, s1) \<Rightarrow> ([], s1)
      | (Some rec, s1) \<Rightarrow>
          if f_seq rec \<le> sn_last s1 then ([], s1) else ([rec], s1\<lparr>sn_last := f_seq rec\<rparr>))"

definition sd_resume :: "sender \<Rightarrow> frameRecord list \<times> sender" where
  "sd_resume s =
     (case sn_resume s of
        [] \<Rightarrow> ([], s)
      | f # rest \<Rightarrow>
          let s1 = s\<lparr>sn_resume := rest\<rparr>
          in if f_seq f \<le> sn_last s \<or> f_seq f \<le> lastAckedSeq (sn_replay s) then ([], s1)
             else ([f], s1\<lparr>sn_last := f_seq f\<rparr>))"

definition sd_ack :: "u64 \<Rightarrow> sender \<Rightarrow> sender" where
  "sd_ack n s = s\<lparr>sn_replay := snd (ack (sn_replay s) n)\<rparr>"

definition sd_begin :: "u64 \<Rightarrow> sender \<Rightarrow> sender" where
  "sd_begin resumeSeq s =
     (let l = min resumeSeq (sn_next s); b = snd (ack (sn_replay s) l)
      in s\<lparr>sn_replay := b, sn_last := l, sn_resume := snapshotFrom b l\<rparr>)"

definition sender_of :: "('m, 'b, 'h) writerState \<Rightarrow> sender" where
  "sender_of ws =
     (case ws of (w, c) \<Rightarrow>
        \<lparr>sn_replay = r_replay (the (c_recovery c)), sn_next = c_nextSendSeq c,
         sn_last = w_lastSentSeq w, sn_resume = w_resume w\<rparr>)"

definition has_recovery :: "('m, 'b, 'h) writerState \<Rightarrow> bool" where
  "has_recovery ws \<longleftrightarrow> c_recovery (snd ws) \<noteq> None"

text \<open>The bytes of a data record on the wire, and the bytes the writer has given to its buffer.\<close>

definition record_bytes :: "('m, 'b, 'h) Connection \<Rightarrow> frameRecord \<Rightarrow> bytes" where
  "record_bytes c r = frame_layout (cfg_version (c_config c)) (f_streamID r, f_seq r, f_flags r, f_payload r)"

definition record_ok :: "('m, 'b, 'h) Connection \<Rightarrow> frameRecord \<Rightarrow> bool" where
  "record_ok c r \<longleftrightarrow> frame_ok (c_config c) (f_streamID r, f_seq r, f_flags r, f_payload r)"

lemma stage_none_iff:
  "stage b frame seq = (rec, held, e, b') \<Longrightarrow>
     (rec = None \<longleftrightarrow> held \<or> e \<noteq> None) \<and> \<not> (held \<and> e \<noteq> None)"
  by (auto simp: stage_def Let_def split: if_splits)

lemma w_stage_abs:
  assumes h: "c_recovery c = Some r" and W: "w_stage now frame (w, c) = (rec, (w', c'))"
  shows "sd_stage frame (sender_of (w, c)) = (rec, sender_of (w', c'))"
    and "w_bw w' = w_bw w" and "c_config c' = c_config c" and "c_recovery c' \<noteq> None"
proof -
  obtain rec1 held e b where S: "stage (r_replay r) frame (c_nextSendSeq c + 1) = (rec1, held, e, b)"
    by (cases "stage (r_replay r) frame (c_nextSendSeq c + 1)")
  note n = stage_none_iff [OF S]
  consider (held) "held" "e = None" "rec1 = None" | (err) x where "\<not> held" "e = Some x" "rec1 = None"
    | (kept) y where "\<not> held" "e = None" "rec1 = Some y"
    using n by (cases held; cases e; cases rec1) auto
  then have "sd_stage frame (sender_of (w, c)) = (rec, sender_of (w', c')) \<and>
      w_bw w' = w_bw w \<and> c_config c' = c_config c \<and> c_recovery c' \<noteq> None"
  proof cases
    case held
    with W h S have "rec = None" "w' = w\<lparr>w_held := Some frame\<rparr>" "c' = c\<lparr>c_recovery := Some (r\<lparr>r_replay := b\<rparr>)\<rparr>"
      by (simp_all add: w_stage_def Let_def)
    with held h S show ?thesis by (simp add: sd_stage_def sender_of_def)
  next
    case err
    with W h S have "rec = None" "w' = w" "c' = conn_noteFailure now DebugFailureRecoveryLiveWrite
        (''recovery live queue failed: '' @ Error x)
        (sendVerdict (of_queued frame) (Some x) (c\<lparr>c_recovery := Some (r\<lparr>r_replay := b\<rparr>)\<rparr>))"
      by (simp_all add: w_stage_def Let_def)
    with err h S show ?thesis by (simp add: sd_stage_def sender_of_def)
  next
    case kept
    with W h S have "rec = Some y" "w' = w" "c' = sendVerdict (of_queued frame) None
        (c\<lparr>c_recovery := Some (r\<lparr>r_replay := b\<rparr>), c_nextSendSeq := c_nextSendSeq c + 1\<rparr>)"
      by (simp_all add: w_stage_def Let_def)
    with kept h S show ?thesis by (simp add: sd_stage_def sender_of_def)
  qed
  then show "sd_stage frame (sender_of (w, c)) = (rec, sender_of (w', c'))"
    and "w_bw w' = w_bw w" and "c_config c' = c_config c" and "c_recovery c' \<noteq> None" by blast+
qed

lemma w_write_abs:
  assumes h: "c_recovery c = Some r"
    and W: "w_write now i q fl p kind failure (w, c) = (e, (w', c'))"
  shows "sender_of (w', c') = sender_of (w, c)" and "c_recovery c' \<noteq> None"
    and "e = None \<Longrightarrow> frame_ok (c_config c) (i, q, fl, p) \<Longrightarrow>
           bw_taken (w_bw w') = bw_taken (w_bw w) @ frame_layout (cfg_version (c_config c)) (i, q, fl, p)"
    and "e \<noteq> Some errWriterDone" and "c_config c' = c_config c"
    and "frame_ok (c_config c) (i, q, fl, p) \<Longrightarrow>
           \<exists>k. bw_taken (w_bw w') = bw_taken (w_bw w) @ take k (frame_layout (cfg_version (c_config c)) (i, q, fl, p))"
proof -
  obtain e1 d bw where F: "writeFrameNoFlush bw_Write (c_config c) (c_debug c) (w_bw w) i q fl p = (e1, d, bw)"
    by (cases "writeFrameNoFlush bw_Write (c_config c) (c_debug c) (w_bw w) i q fl p")
  have "sender_of (w', c') = sender_of (w, c) \<and> c_recovery c' \<noteq> None \<and> e \<noteq> Some errWriterDone \<and>
      (e = None \<longrightarrow> e1 = None) \<and> w_bw w' = bw \<and> c_config c' = c_config c"
  proof (cases e1)
    case None
    with W F h show ?thesis by (auto simp: w_write_def sender_of_def)
  next
    case (Some x)
    let ?c = "conn_noteFailure now failure (''recovery '' @ kind @ '' write failed: '' @ Error x) (c\<lparr>c_debug := d\<rparr>)"
    have "c_recovery ?c = Some r" using h by simp
    from handleRecoveryTransportError_recovery [OF this, of now "w_conn w"] W F h Some show ?thesis
      by (auto simp: w_write_def sender_of_def)
  qed
  with F show "sender_of (w', c') = sender_of (w, c)" and "c_recovery c' \<noteq> None" "e \<noteq> Some errWriterDone"
    and "c_config c' = c_config c"
    and "frame_ok (c_config c) (i, q, fl, p) \<Longrightarrow>
           \<exists>k. bw_taken (w_bw w') = bw_taken (w_bw w) @ take k (frame_layout (cfg_version (c_config c)) (i, q, fl, p))"
    and "e = None \<Longrightarrow> frame_ok (c_config c) (i, q, fl, p) \<Longrightarrow>
           bw_taken (w_bw w') = bw_taken (w_bw w) @ frame_layout (cfg_version (c_config c)) (i, q, fl, p)"
    using writeFrame_taken [OF bufw.io_writer_axioms] writeFrame_prefix [OF bufw.io_writer_axioms] by blast+
qed

text \<open>A writer on a fresh transport, before and after it has a frame to replay, for examples.\<close>

definition sampleWriter :: "(unit, unit, unit) writerState" where
  "sampleWriter =
     (\<lparr>w_held = None, w_conn = 1, w_bw = newBufioWriter sampleConn, w_lastSentSeq = 0, w_resume = []\<rparr>,
      sampleConnection)"

definition resumingWriter :: "(unit, unit, unit) writerState" where
  "resumingWriter = beginTransport 2 sampleConn 0 (snd (w_stage 0 smallFrame sampleWriter))"

section \<open>Properties\<close>

lemma writeLive_abs:
  assumes h: "c_recovery c = Some r" and L: "writeLive now frame (w, c) = (e, ws)"
  shows "(e = None \<longrightarrow> sender_of ws = snd (sd_live frame (sender_of (w, c))) \<and> c_config (snd ws) = c_config c \<and>
            ((\<forall>x \<in> set (fst (sd_live frame (sender_of (w, c)))). record_ok c x) \<longrightarrow>
            bw_taken (w_bw (fst ws)) = bw_taken (w_bw w) @
              concat (map (record_bytes c) (fst (sd_live frame (sender_of (w, c))))))) \<and>
         c_recovery (snd ws) \<noteq> None \<and>
         (e \<noteq> None \<longrightarrow> e = Some errTransportLost \<and> c_config (snd ws) = c_config c \<and>
            sender_of ws = snd (sd_stage frame (sender_of (w, c))) \<and>
            ((\<forall>x \<in> set (fst (sd_live frame (sender_of (w, c)))). record_ok c x) \<longrightarrow>
            (\<exists>k. bw_taken (w_bw (fst ws)) = bw_taken (w_bw w) @
              take k (concat (map (record_bytes c) (fst (sd_live frame (sender_of (w, c)))))))))"
proof -
  obtain rec w1 c1 where S: "w_stage now frame (w, c) = (rec, (w1, c1))"
    by (cases "w_stage now frame (w, c)") auto
  note a = w_stage_abs [OF h S]
  obtain r1 where r1: "c_recovery c1 = Some r1" using a(4) by blast
  show ?thesis
  proof (cases "rec = None \<or> f_seq (the rec) \<le> w_lastSentSeq w1")
    case True
    with L S have "e = None" "ws = (w1, c1)" by (auto simp: writeLive_def split: option.splits)
    with True a show ?thesis by (auto simp: sd_live_def sender_of_def split: option.splits)
  next
    case False
    then obtain x where x: "rec = Some x" "\<not> f_seq x \<le> w_lastSentSeq w1" by auto
    then have live: "sd_live frame (sender_of (w, c)) = ([x], (sender_of (w1, c1))\<lparr>sn_last := f_seq x\<rparr>)"
      using a(1) by (simp add: sd_live_def sender_of_def)
    obtain e2 w2 c2 where W: "w_write now (f_streamID x) (f_seq x) (f_flags x) (f_payload x) ''live''
        DebugFailureRecoveryLiveWrite (w1, c1) = (e2, (w2, c2))"
      by (cases "w_write now (f_streamID x) (f_seq x) (f_flags x) (f_payload x) ''live''
        DebugFailureRecoveryLiveWrite (w1, c1)") auto
    note b = w_write_abs [OF r1 W]
    show ?thesis
    proof (cases e2)
      case None
      with L S x W have "e = None" "ws = (w2\<lparr>w_lastSentSeq := f_seq x\<rparr>, c2)"
        by (simp_all add: writeLive_def)
      with None b a(2,3) live show ?thesis
        by (simp add: sender_of_def record_ok_def record_bytes_def)
    next
      case (Some y)
      with L S x W have "e = Some y" "ws = (w2, c2)" by (simp_all add: writeLive_def)
      with Some b(1,2,4,5,6) a live show ?thesis by (cases y) (simp_all add: record_ok_def record_bytes_def)
    qed
  qed
qed

text \<open>Writing a live frame implements the abstract sender: the frame is staged under the next
  number, and when the write succeeds the replay buffer, the counter and the position on the
  transport change as the sender's do and the writer's buffer grows by exactly the bytes of the
  frames the sender puts on the transport. When the write fails the transport is reported as lost
  and the frame stays in the replay buffer.\<close>

theorem write_live_refines:
  assumes h: "c_recovery c = Some r" and L: "writeLive now frame (w, c) = (e, ws)"
    and ok: "\<forall>x \<in> set (fst (sd_live frame (sender_of (w, c)))). record_ok c x"
  shows "(e = None \<longrightarrow> sender_of ws = snd (sd_live frame (sender_of (w, c))) \<and>
            bw_taken (w_bw (fst ws)) = bw_taken (w_bw w) @
              concat (map (record_bytes c) (fst (sd_live frame (sender_of (w, c)))))) \<and>
         (e \<noteq> None \<longrightarrow> e = Some errTransportLost \<and>
            sender_of ws = snd (sd_stage frame (sender_of (w, c))))"
  using writeLive_abs [OF h L] ok by auto

theorem write_live_refines_witness:
  "sender_of (snd (writeLive 0 smallFrame sampleWriter)) = snd (sd_live smallFrame (sender_of sampleWriter)) \<and>
   bw_taken (w_bw (fst (snd (writeLive 0 smallFrame sampleWriter)))) =
     frame_layout 3 (1, 1, 0, [8, 9])"
proof -
  let ?w = "fst sampleWriter" and ?c = "snd sampleWriter"
  have h: "c_recovery ?c = Some sampleState" by (simp add: sampleWriter_def sampleConnection_def)
  have out: "map (\<lambda>f. (f_streamID f, f_seq f, f_flags f, f_payload f)) (fst (sd_live smallFrame (sender_of (?w, ?c)))) =
      [(1, 1, 0, [8, 9])]" by code_simp
  have v: "cfg_version (c_config ?c) = 3" and fr: "frame_ok (c_config ?c) (1, 1, 0, [8, 9])"
    and e: "fst (writeLive 0 smallFrame (?w, ?c)) = None" and t: "bw_taken (w_bw ?w) = []" by code_simp+
  from out obtain f where f: "fst (sd_live smallFrame (sender_of (?w, ?c))) = [f]"
    "(f_streamID f, f_seq f, f_flags f, f_payload f) = (1, 1, 0, [8, 9])" by (auto simp: map_eq_Cons_conv)
  have ok: "\<forall>x \<in> set (fst (sd_live smallFrame (sender_of (?w, ?c)))). record_ok ?c x"
    unfolding f(1) using f(2) fr by (simp add: record_ok_def)
  from write_live_refines [OF h prod.collapse [symmetric] ok] e f v t show ?thesis
    by (simp add: record_bytes_def)
qed

lemma writeResume_abs:
  assumes h: "c_recovery c = Some r" and "w_resume w \<noteq> []"
    and R: "writeResume now (w, c) = (e, ws)"
  shows "sender_of (beginTransport conn net seq (w, c)) = sd_begin seq (sender_of (w, c)) \<and>
         (e = None \<longrightarrow> sender_of ws = snd (sd_resume (sender_of (w, c))) \<and> c_config (snd ws) = c_config c \<and>
            ((\<forall>x \<in> set (fst (sd_resume (sender_of (w, c)))). record_ok c x) \<longrightarrow>
            bw_taken (w_bw (fst ws)) = bw_taken (w_bw w) @
              concat (map (record_bytes c) (fst (sd_resume (sender_of (w, c))))))) \<and>
         c_recovery (snd ws) \<noteq> None \<and>
         (e \<noteq> None \<longrightarrow> e = Some errTransportLost \<and> c_config (snd ws) = c_config c \<and>
            sn_replay (sender_of ws) = r_replay r \<and> sn_next (sender_of ws) = c_nextSendSeq c \<and>
            ((\<forall>x \<in> set (fst (sd_resume (sender_of (w, c)))). record_ok c x) \<longrightarrow>
            (\<exists>k. bw_taken (w_bw (fst ws)) = bw_taken (w_bw w) @
              take k (concat (map (record_bytes c) (fst (sd_resume (sender_of (w, c)))))))))"
proof -
  have bg: "sender_of (beginTransport conn net seq (w, c)) = sd_begin seq (sender_of (w, c))"
    using h by (simp add: beginTransport_def sd_begin_def sender_of_def prepareResume_def Let_def)
  obtain f rest where f: "w_resume w = f # rest" using assms(2) by (cases "w_resume w") auto
  let ?w = "w\<lparr>w_resume := rest\<rparr>"
  let ?c = "c\<lparr>c_recovery := Some (r\<lparr>r_resumeDepth := int (length rest)\<rparr>)\<rparr>"
  let ?skip = "f_seq f \<le> w_lastSentSeq w \<or> f_seq f \<le> lastAckedSeq (r_replay r)"
  show ?thesis
  proof (cases ?skip)
    case True
    with R f h have "e = None" "ws = (?w, ?c)" by (auto simp: writeResume_def Let_def)
    with True f h bg show ?thesis by (auto simp: sd_resume_def sender_of_def Let_def)
  next
    case False
    have live: "sd_resume (sender_of (w, c)) = ([f], (sender_of (?w, ?c))\<lparr>sn_last := f_seq f\<rparr>)"
      using False f h by (simp add: sd_resume_def sender_of_def Let_def)
    obtain e2 w2 c2 where W: "w_write now (f_streamID f) (f_seq f) (f_flags f) (f_payload f) ''resume''
        DebugFailureRecoveryResumeWrite (?w, ?c) = (e2, (w2, c2))"
      by (cases "w_write now (f_streamID f) (f_seq f) (f_flags f) (f_payload f) ''resume''
        DebugFailureRecoveryResumeWrite (?w, ?c)") auto
    have "c_recovery ?c = Some (r\<lparr>r_resumeDepth := int (length rest)\<rparr>)" by simp
    note b = w_write_abs [OF this W]
    show ?thesis
    proof (cases e2)
      case None
      with R f h False W have "e = None" "ws = (w2\<lparr>w_lastSentSeq := f_seq f\<rparr>, c2)"
        by (simp_all add: writeResume_def Let_def)
      with None b live bg show ?thesis
        by (simp add: sender_of_def record_ok_def record_bytes_def)
    next
      case (Some y)
      with R f h False W have "e = Some y" "ws = (w2, c2)" by (simp_all add: writeResume_def Let_def)
      with Some b(1,2,4,5,6) bg h live show ?thesis
        by (cases y) (simp_all add: sender_of_def record_ok_def record_bytes_def)
    qed
  qed
qed

text \<open>Replaying implements the abstract sender: a new transport starts from the number the peer
  reported, bounded by what was ever sent, with every kept frame above it; writing the next frame
  of the replay skips it if the peer has it and otherwise adds exactly its bytes. A failed write
  leaves the replay buffer and the counter as they were.\<close>

theorem write_resume_refines:
  assumes h: "c_recovery c = Some r" and "w_resume w \<noteq> []"
    and R: "writeResume now (w, c) = (e, ws)"
    and ok: "\<forall>x \<in> set (fst (sd_resume (sender_of (w, c)))). record_ok c x"
  shows "sender_of (beginTransport conn net seq (w, c)) = sd_begin seq (sender_of (w, c)) \<and>
         (e = None \<longrightarrow> sender_of ws = snd (sd_resume (sender_of (w, c))) \<and>
            bw_taken (w_bw (fst ws)) = bw_taken (w_bw w) @
              concat (map (record_bytes c) (fst (sd_resume (sender_of (w, c)))))) \<and>
         (e \<noteq> None \<longrightarrow> e = Some errTransportLost \<and> sn_replay (sender_of ws) = r_replay r \<and>
            sn_next (sender_of ws) = c_nextSendSeq c)"
  using writeResume_abs [OF h assms(2) R] ok by auto

theorem write_resume_refines_witness:
  "sender_of (snd (writeResume 0 resumingWriter)) = snd (sd_resume (sender_of resumingWriter)) \<and>
   map f_seq (fst (sd_resume (sender_of resumingWriter))) = [1]"
proof -
  let ?w = "fst resumingWriter" and ?c = "snd resumingWriter"
  have "c_recovery ?c \<noteq> None" by code_simp
  then obtain r where h: "c_recovery ?c = Some r" by blast
  have q: "w_resume ?w \<noteq> []" and e: "fst (writeResume 0 (?w, ?c)) = None" by code_simp+
  have out: "map (\<lambda>f. (f_streamID f, f_seq f, f_flags f, f_payload f)) (fst (sd_resume (sender_of (?w, ?c)))) =
      [(1, 1, 0, [8, 9])]" and fr: "frame_ok (c_config ?c) (1, 1, 0, [8, 9])" by code_simp+
  from out obtain f where f: "fst (sd_resume (sender_of (?w, ?c))) = [f]"
    "(f_streamID f, f_seq f, f_flags f, f_payload f) = (1, 1, 0, [8, 9])" by (auto simp: map_eq_Cons_conv)
  have ok: "\<forall>x \<in> set (fst (sd_resume (sender_of (?w, ?c)))). record_ok ?c x"
    unfolding f(1) using f(2) fr by (simp add: record_ok_def)
  from write_resume_refines [OF h q prod.collapse [symmetric] ok] e f show ?thesis by simp
qed

end
