(* ===== verification/Stream_Queues.thy ===== *)
theory Stream_Queues
  imports Transport
begin

text \<open>
  What a frame does to the incoming queues of the streams (\<^verbatim>\<open>acceptFrame\<close>, \<^verbatim>\<open>incomingQ\<close> and \<^verbatim>\<open>queueFIN\<close> of
  \<^verbatim>\<open>src/connection.go\<close> and \<^verbatim>\<open>src/stream.go\<close>), observed on the connection itself: \<open>inq c r\<close> is what
  lies in the queue of the stream at address \<open>r\<close>, \<open>feeds\<close> says that a frame was put at the end of the queue of its own
  stream and nowhere else. The other operations of the transport put no payload into any queue.
\<close>

text \<open>The incoming queue of a stream: payloads, and \<open>None\<close> for a FIN marker.\<close>

definition inq :: "('m, 'b, 'h) Connection \<Rightarrow> streamRef \<Rightarrow> bytes option list" where
  "inq c r =
     (if r < length (c_heap c)
      then case s_incoming (c_heap c ! r) of None \<Rightarrow> [] | Some ch \<Rightarrow> ch_buf ch else [])"

text \<open>Where a frame for \<open>streamID\<close> goes: the stream of the table, or the next one created.\<close>

definition queueRef :: "('m, 'b, 'h) Connection \<Rightarrow> u32 \<Rightarrow> streamRef" where
  "queueRef c streamID =
     (case map_of (c_streams c) streamID of Some ref \<Rightarrow> ref | None \<Rightarrow> length (c_heap c))"

text \<open>What a frame puts there: its payload, and the marker if it ends the stream.\<close>

definition frameEntries :: "u32 \<Rightarrow> FrameFlags \<Rightarrow> bytes \<Rightarrow> bytes option list" where
  "frameEntries streamID flags payload =
     (if payload \<noteq> [] then [Some payload] else []) @ (if isFin streamID flags then [None] else [])"

text \<open>Why a frame may be dropped: the connection is closed, the stream is closed, or it is not in the table
  because it was closed before, or there is nothing to open it for but a FIN.\<close>

definition dropped ::
    "('m, 'b, 'h) Connection \<Rightarrow> ('m, 'b, 'h) Connection \<Rightarrow> u32 \<Rightarrow> bytes \<Rightarrow> bool" where
  "dropped c c' streamID payload \<longleftrightarrow>
     c_closed c' \<or> s_done (c_heap c' ! queueRef c streamID) = Some True \<or>
     map_of (c_streams c) streamID = None \<and>
       (streamID \<in> set (c_closedPeerStreams c) \<or> openedStream c streamID \<or> payload = [])"

definition feeds ::
    "(streamRef \<Rightarrow> nat) \<Rightarrow> ('m, 'b, 'h) Connection \<Rightarrow> ('m, 'b, 'h) Connection \<Rightarrow>
     u32 \<Rightarrow> FrameFlags \<Rightarrow> bytes \<Rightarrow> bool" where
  "feeds taken c c' streamID flags payload \<longleftrightarrow>
     (\<exists>ps qs. frameEntries streamID flags payload = ps @ qs \<and>
        (\<forall>r. inq c' r = drop (taken r) (inq c r) @ (if r = queueRef c streamID then ps else [])) \<and>
        (ps \<noteq> [] \<longrightarrow> s_id (c_heap c' ! queueRef c streamID) = streamID) \<and>
        (qs \<noteq> [] \<longrightarrow> dropped c c' streamID payload))"

text \<open>What other goroutines do meanwhile: \<open>taken r\<close> entries are received from the queue of \<open>r\<close>, streams may be
  opened and closed and the connection may be closed, and no stream changes its id or loses its queue.\<close>

definition others_take ::
    "(streamRef \<Rightarrow> nat) \<Rightarrow> (('m, 'b, 'h) Connection \<Rightarrow> ('m, 'b, 'h) Connection) \<Rightarrow> bool" where
  "others_take taken env \<longleftrightarrow>
     (\<forall>c. streams_ok c \<longrightarrow> streams_ok (env c) \<and> (c_closed c \<longrightarrow> c_closed (env c)) \<and>
        length (c_heap c) \<le> length (c_heap (env c)) \<and>
        (\<forall>r. inq (env c) r = drop (taken r) (inq c r)) \<and>
        (\<forall>r < length (c_heap c). s_id (c_heap (env c) ! r) = s_id (c_heap c ! r) \<and>
           (s_incoming (c_heap c ! r) \<noteq> None \<longrightarrow> s_incoming (c_heap (env c) ! r) \<noteq> None)))"

lemma others_takeD:
  assumes "others_take taken env" "streams_ok c"
  shows "streams_ok (env c)" "c_closed c \<Longrightarrow> c_closed (env c)" "length (c_heap c) \<le> length (c_heap (env c))"
    "inq (env c) r = drop (taken r) (inq c r)"
    "r < length (c_heap c) \<Longrightarrow> s_id (c_heap (env c) ! r) = s_id (c_heap c ! r)"
    "r < length (c_heap c) \<Longrightarrow> s_incoming (c_heap c ! r) \<noteq> None \<Longrightarrow> s_incoming (c_heap (env c) ! r) \<noteq> None"
  using assms by (auto simp: others_take_def)

lemma others_take_none: "others_take (\<lambda>_. 0) (\<lambda>c. c)"
  by (simp add: others_take_def)

section \<open>The queues under the operations\<close>

lemma inq_congI: "c_heap c' = c_heap c \<Longrightarrow> inq c' = inq c"
  by (simp add: inq_def fun_eq_iff)

lemma inq_same_incoming:
  assumes "length (c_heap c') = length (c_heap c)"
    and "\<And>r. r < length (c_heap c) \<Longrightarrow> s_incoming (c_heap c' ! r) = s_incoming (c_heap c ! r)"
  shows "inq c' = inq c"
  using assms by (simp add: inq_def fun_eq_iff)

lemma inq_small [simp]:
  "inq (conn_noteFailure t k m c) = inq c" "inq (signalSend c) = inq c" "inq (closeNet n c) = inq c"
  "inq (closeTransport c) = inq c" "inq (onClosed c) = inq c" "inq (armReadDeadline now n c) = inq c"
  "inq (forgetPeerStream i c) = inq c" "inq (c\<lparr>c_closing := b\<rparr>) = inq c" "inq (c\<lparr>c_recovery := rs\<rparr>) = inq c"
  "inq (c\<lparr>c_debug := d\<rparr>) = inq c" "inq (c\<lparr>c_closed := b\<rparr>) = inq c" "inq (c\<lparr>c_streams := ss\<rparr>) = inq c"
  by (rule inq_congI; simp add: armReadDeadline_def forgetPeerStream_def split: option.split)+

lemma inq_updStream:
  assumes "\<And>s. s_incoming (f s) = s_incoming s"
  shows "inq (updStream ref f c) = inq c"
proof (rule inq_same_incoming)
  show "s_incoming (c_heap (updStream ref f c) ! r) = s_incoming (c_heap c ! r)" if "r < length (c_heap c)" for r
    using that assms by (cases "r = ref") (simp_all add: updStream_def)
qed simp

lemma inq_releaseStream [simp]: "inq (releaseStream ref c) = inq c"
proof -
  have "inq (callCloseStream ref (countStreamClosed b c)) = inq c" for b and c :: "('a, 'b, 'c) Connection"
    by (rule inq_congI) (simp add: callCloseStream_def countStreamClosed_def)
  then show ?thesis
    by (auto simp: releaseStream_def stream_close_def Let_def inq_updStream split: prod.split)
qed

lemma inq_releaseStreams [simp]: "inq (releaseStreams xs c) = inq c"
  by (induction xs c rule: releaseStreams.induct) simp_all

lemma inq_markClosed [simp]: "inq (markClosed c) = inq c"
  by (simp add: markClosed_def closeAllStreams_def)

lemma inq_transportError [simp]: "inq (handleRecoveryTransportError now conn c) = inq c"
proof -
  have "inq (onDetached now c) = inq c" for c :: "('a, 'b, 'c) Connection"
    by (auto simp: onDetached_def scheduleExpiry_def intro: inq_congI split: option.split recoveryRole.split)
  then show ?thesis
    by (auto simp: handleRecoveryTransportError_def detachTransport_def Let_def intro: inq_congI)
qed

lemma inq_getStreamCtx:
  assumes "getStreamCtx i inb c = (r, c')"
  shows "inq c' = inq c" "length (c_heap c) \<le> length (c_heap c')" "c_closed c' = c_closed c"
    "r = Some ref \<Longrightarrow> ref = queueRef c i"
    "r = None \<Longrightarrow> c_closed c' \<or> map_of (c_streams c) i = None \<and> (i \<in> set (c_closedPeerStreams c) \<or> openedStream c i) \<and> inb"
proof -
  have "inq (c\<lparr>c_heap := c_heap c @ [newStreamCtx c i], c_streams := ss, c_debug := d\<rparr>) = inq c" for ss d
    by (auto simp: inq_def fun_eq_iff nth_append newStreamCtx_def setRecvTimeout_def make_chan_def Let_def
          not_less_eq less_Suc_eq split: option.split)
  moreover have "inq (startStream ref c) = inq c" "inq (c\<lparr>c_callbacks := x\<rparr>) = inq c" for ref x and c :: "('a, 'b, 'c) Connection"
    by (rule inq_congI; simp add: startStream_def)+
  ultimately show "inq c' = inq c"
    using assms by (auto simp: getStreamCtx_def Let_def split: if_splits option.splits)
qed (use assms in \<open>auto simp: getStreamCtx_def queueRef_def startStream_def Let_def split: if_splits option.splits\<close>)

text \<open>One \<^verbatim>\<open>select\<close> of \<^verbatim>\<open>incomingQ\<close>: the entry is put at the end of the queue, or the stream or the connection is
  closed.\<close>

lemma inq_incomingQ:
  assumes out: "(e, c') \<in> set (incomingQ ref p c)" and ref: "ref < length (c_heap c)" "s_incoming (c_heap c ! ref) \<noteq> None"
  shows "(e = None \<and> inq c' = (inq c)(ref := inq c ref @ [p]) \<and> c_closed c' = c_closed c \<and>
            (\<forall>r. s_id (c_heap c' ! r) = s_id (c_heap c ! r) \<and> s_done (c_heap c' ! r) = s_done (c_heap c ! r)) \<and>
            length (c_heap c') = length (c_heap c) \<and> s_incoming (c_heap c' ! ref) \<noteq> None) \<or>
         (e = Some ErrClosed \<and> c' = c \<and> (c_closed c \<or> s_done (c_heap c ! ref) = Some True))"
  using out ref
  by (auto simp: incomingQ_def inq_def ch_send_def updStream_nth fun_eq_iff split: option.splits if_splits)

text \<open>The marker is queued or given up.\<close>

lemma inq_queueFIN:
  assumes out: "c' \<in> set (queueFIN ref c)" and ref: "ref < length (c_heap c)" "s_incoming (c_heap c ! ref) \<noteq> None"
  obtains (queued) "inq c' = (inq c)(ref := inq c ref @ [None])" "s_id (c_heap c' ! ref) = s_id (c_heap c ! ref)" "c_closed c' = c_closed c"
      "s_done (c_heap c' ! ref) = s_done (c_heap c ! ref)"
    | (given_up) "c' = c" "c_closed c \<or> s_done (c_heap c ! ref) = Some True"
proof -
  obtain e where "(e, c') \<in> set (incomingQ ref None c)" using out by (auto simp: queueFIN_def)
  from inq_incomingQ [OF this ref] show thesis using queued given_up by blast
qed

text \<open>On a peer's CLOSE each stream of the table may get a marker.\<close>

lemma inq_offerFINs:
  assumes "c' \<in> set (offerFINs refs c)" "distinct refs"
  shows "inq c' r = inq c r \<or> inq c' r = inq c r @ [None] \<and> r \<in> set refs"
  using assms
proof (induction refs arbitrary: c)
  case (Cons ref refs)
  have d: "ref \<notin> set refs" "distinct refs" using Cons.prems(2) by simp_all
  have "c' = c \<or> c' \<in> set (offerFINs refs c) \<or>
      (\<exists>ch. s_incoming (c_heap c ! ref) = Some ch \<and>
         c' \<in> set (offerFINs refs (updStream ref (\<lambda>s. s\<lparr>s_incoming := Some (ch_send None ch)\<rparr>) c)))"
    using Cons.prems(1) by (auto split: option.splits if_splits)
  then consider "c' = c" | "c' \<in> set (offerFINs refs c)"
    | ch where "s_incoming (c_heap c ! ref) = Some ch"
        "c' \<in> set (offerFINs refs (updStream ref (\<lambda>s. s\<lparr>s_incoming := Some (ch_send None ch)\<rparr>) c))" by blast
  then show ?case
  proof cases
    case 2
    then show ?thesis using Cons.IH [OF _ d(2)] by auto
  next
    case 3
    have "inq (updStream ref (\<lambda>s. s\<lparr>s_incoming := Some (ch_send None ch)\<rparr>) c) r =
        (if r = ref \<and> r < length (c_heap c) then inq c r @ [None] else inq c r)"
      using 3(1) by (auto simp: inq_def updStream_def ch_send_def)
    then show ?thesis using Cons.IH [OF 3(2) d(2)] d(1) by (auto split: if_splits)
  qed simp
qed simp

lemma offerFINs_more:
  "c' \<in> set (offerFINs refs c) \<Longrightarrow> c_config c' = c_config c \<and> c_recovery c' = c_recovery c"
  by (induction refs arbitrary: c) (auto split: option.splits if_splits)

section \<open>A frame is put into the queue of its stream\<close>

lemma dropped_forget:
  "dropped c c' i p \<Longrightarrow> dropped c (forgetPeerStream i c') i p"
  by (simp add: dropped_def forgetPeerStream_def)

text \<open>The stream that \<^verbatim>\<open>getStreamCtx\<close> returns, after what other goroutines did.\<close>

lemma queueRef_ready:
  assumes ok: "streams_ok c" and env: "others_take taken env" and get: "getStreamCtx i True c = (Some ref, c1)"
  shows "ref = queueRef c i" "ref < length (c_heap (env c1))" "s_id (c_heap (env c1) ! ref) = i"
    "s_incoming (c_heap (env c1) ! ref) \<noteq> None" "inq (env c1) r = drop (taken r) (inq c r)"
proof -
  have ok1: "streams_ok c1" using getStreamCtx_ok [OF ok, of i True] get by simp
  have "map_of (c_streams c1) i = Some ref"
    using get by (auto simp: getStreamCtx_def startStream_def Let_def split: if_splits option.splits)
  note e = streams_ok_entry [OF ok1 this]
  note t = others_takeD [OF env ok1]
  show "ref = queueRef c i" by (rule inq_getStreamCtx(4) [OF get refl])
  show "ref < length (c_heap (env c1))" using e(1) t(3) by linarith
  show "s_id (c_heap (env c1) ! ref) = i" "s_incoming (c_heap (env c1) ! ref) \<noteq> None" using e t(5,6) [of ref] by auto
  show "inq (env c1) r = drop (taken r) (inq c r)" using t(4) inq_getStreamCtx(1) [OF get] by simp
qed

text \<open>The marker at the end of a stream, after the payload, if there was one.\<close>

lemma queueFIN_feeds:
  assumes out: "c' \<in> set (queueFIN ref c1)" and fin: "isFin i fl" and ref: "ref = queueRef c i"
    and c1: "ref < length (c_heap c1)" "s_incoming (c_heap c1 ! ref) \<noteq> None" "s_id (c_heap c1 ! ref) = i"
      "\<And>r. inq c1 r = drop (taken r) (inq c r) @ (if r = ref then if p = [] then [] else [Some p] else [])"
  shows "feeds taken c c' i fl p"
  using out c1(1,2)
proof (cases rule: inq_queueFIN)
  case queued
  have "\<forall>r. inq c' r = drop (taken r) (inq c r) @ (if r = queueRef c i then frameEntries i fl p else [])"
    using queued(1) c1(4) fin ref by (simp add: frameEntries_def)
  then show ?thesis using queued(2) c1(3) ref unfolding feeds_def
    by (intro exI [of _ "frameEntries i fl p"] exI [of _ "[]"]) simp
next
  case given_up
  have "dropped c c' i p" using given_up ref by (auto simp: dropped_def)
  then show ?thesis using given_up c1 fin ref unfolding feeds_def
    by (intro exI [of _ "if p = [] then [] else [Some p]"] exI [of _ "[None]"]) (simp add: frameEntries_def)
qed

text \<open>Every outcome of \<^verbatim>\<open>acceptFrame\<close>: the frame has been put into the queue of its stream, or it was dropped for one of
  the reasons; an error means that the connection is closed.\<close>

lemma acceptFrame_queues:
  assumes ok: "streams_ok c" and env: "others_take taken env" and out: "(err, c') \<in> set (acceptFrame env i fl p c)"
  shows "if err = None then feeds taken c c' i fl p
    else c_closed c' \<and> (\<forall>r. inq c' r = drop (taken r) (inq c r))"
proof (cases "isFin i fl \<and> p = []")
  case True
  let ?c1 = "env (forgetPeerStream i c)"
  note t = others_takeD [OF env forgetPeerStream_ok [OF ok, of i]]
  have heap: "c_heap (forgetPeerStream i c) = c_heap c" by (simp add: forgetPeerStream_def)
  show ?thesis
  proof (cases "map_of (c_streams c) i")
    case None
    then have "err = None" "c' = ?c1" using out True by (simp_all add: acceptFrame_def)
    moreover have "feeds taken c ?c1 i fl p" unfolding feeds_def
      using None True t(4) by (intro exI [of _ "[]"] exI [of _ "[None]"]) (simp add: frameEntries_def dropped_def)
    ultimately show ?thesis by simp
  next
    case (Some ref)
    note e = streams_ok_entry [OF ok Some]
    have "err = None" "c' \<in> set (queueFIN ref ?c1)" using out True Some by (auto simp: acceptFrame_def)
    moreover have "feeds taken c c' i fl p"
    proof (rule queueFIN_feeds [OF calculation(2)])
      show "ref < length (c_heap ?c1)" using e(1) t(3) heap by simp
      show "s_incoming (c_heap ?c1 ! ref) \<noteq> None" "s_id (c_heap ?c1 ! ref) = i"
        using e t(5,6) [of ref] heap by simp_all
    qed (use True Some t(4) in \<open>simp_all add: queueRef_def\<close>)
    ultimately show ?thesis by simp
  qed
next
  case False
  obtain r c1 where get: "getStreamCtx i True c = (r, c1)" by (cases "getStreamCtx i True c")
  have ok1: "streams_ok c1" using getStreamCtx_ok [OF ok, of i True] get by simp
  note t = others_takeD [OF env ok1]
  have q: "inq (env c1) r = drop (taken r) (inq c r)" for r using t(4) inq_getStreamCtx(1) [OF get] by simp
  show ?thesis
  proof (cases r)
    case None
    then have gone: "c_closed (env c1) \<or> map_of (c_streams c) i = None \<and> (i \<in> set (c_closedPeerStreams c) \<or> openedStream c i)"
      using inq_getStreamCtx(5) [OF get] t(2) by auto
    have "feeds taken c d i fl p" if "d = env c1 \<or> d = forgetPeerStream i (env c1)" for d
    proof -
      have "dropped c d i p" "inq d = inq (env c1)" using that gone by (auto simp: dropped_def forgetPeerStream_def intro: inq_congI)
      then show ?thesis unfolding feeds_def by (intro exI [of _ "[]"] exI [of _ "frameEntries i fl p"]) (simp add: q)
    qed
    then show ?thesis using None False out get q by (auto simp: acceptFrame_def Let_def split: if_splits)
  next
    case (Some ref)
    note rdy = queueRef_ready [OF ok env get [unfolded Some]]
    show ?thesis
    proof (cases "p = []")
      case True
      then have "err = None" "c' = env c1" using False out get Some by (auto simp: acceptFrame_def Let_def)
      moreover have "feeds taken c (env c1) i fl p" unfolding feeds_def
        using False True q by (intro exI [of _ "[]"]) (simp add: frameEntries_def)
      ultimately show ?thesis by simp
    next
      case pay: False
      then obtain e3 c3 where o3: "(e3, c3) \<in> set (incomingQ ref (Some p) (env c1))"
        and r3: "if e3 \<noteq> None then err = (if c_closed c3 then e3 else None) \<and> c' = c3
          else err = None \<and> (if isFin i fl then c' \<in> set (queueFIN ref c3) else c' = c3)"
        using out get Some by (auto simp: acceptFrame_def Let_def split: if_splits)
      show ?thesis
      proof (cases "e3 = None")
        case True
        then have c3: "e3 = None" "inq c3 = (inq (env c1))(ref := inq (env c1) ref @ [Some p])"
          "\<forall>r. s_id (c_heap c3 ! r) = s_id (c_heap (env c1) ! r) \<and> s_done (c_heap c3 ! r) = s_done (c_heap (env c1) ! r)"
          "length (c_heap c3) = length (c_heap (env c1))" "s_incoming (c_heap c3 ! ref) \<noteq> None"
          using inq_incomingQ [OF o3 rdy(2,4)] by auto
        then have q3: "inq c3 r = drop (taken r) (inq c r) @ (if r = ref then if p = [] then [] else [Some p] else [])" for r
          using q pay by simp
        show ?thesis
        proof (cases "isFin i fl")
          case True
          then have "c' \<in> set (queueFIN ref c3)" "err = None" using r3 c3(1) by simp_all
          then show ?thesis using queueFIN_feeds [OF _ True rdy(1) _ c3(5) _ q3] c3(3,4) rdy(2,3) by simp
        next
          case noFin: False
          then have "c' = c3" "err = None" using r3 c3(1) by simp_all
          then show ?thesis unfolding feeds_def
            using q3 c3(3) rdy(1,3) pay noFin by (auto simp: frameEntries_def intro!: exI [of _ "[Some p]"])
        qed
      next
        case False
        then have c3: "e3 = Some ErrClosed" "c3 = env c1" "c_closed (env c1) \<or> s_done (c_heap (env c1) ! ref) = Some True"
          using inq_incomingQ [OF o3 rdy(2,4)] by auto
        show ?thesis
        proof (cases "c_closed (env c1)")
          case True
          then show ?thesis using r3 c3(1,2) q by simp
        next
          case notClosed: False
          then have "dropped c c' i p" using r3 c3 rdy(1) by (simp add: dropped_def)
          then show ?thesis using r3 c3(1,2) notClosed q unfolding feeds_def
            by (auto intro!: exI [of _ "[]"] exI [of _ "frameEntries i fl p"])
        qed
      qed
    qed
  qed
qed

end
