(* ===== verification/Recovery_Reader.thy ===== *)
theory Recovery_Reader
  imports Recovery_Writer Stream_Queues
begin

text \<open>
  The reader goroutine of a recoverable connection (\<^verbatim>\<open>src/recovery_runtime.go\<close>): control frames,
  data frames in sequence, and one round of \<^verbatim>\<open>recoveryReaderLoop\<close>. The bytes that arrive are the
  input of a \<open>net_conn\<close>; the buffered reader in front of it does not change which bytes a frame
  consists of. \<open>env\<close> is what other goroutines do while a frame is delivered to its stream or, on
  CLOSE, while the streams finish.
\<close>

definition handleControlFrame ::
    "bytes \<Rightarrow> ('m, 'b, 'h) Connection \<Rightarrow> bool result \<times> ('m, 'b, 'h) Connection" where
  "handleControlFrame payload c =
     (case parseControlPayload payload of
        Inl e \<Rightarrow> (Inl e, c)
      | Inr (controlType, value) \<Rightarrow>
          if controlType = controlTypeAck then
            (Inr False, signalSend (c\<lparr>c_recovery := map_option (ackReceived value) (c_recovery c)\<rparr>))
          else if controlType = controlTypePing then (Inr False, c)
          else if controlType = controlTypeClose then (Inr True, c)
          else (Inl (ErrInvalidMessage ''unknown control frame type''), c))"

text \<open>\<^verbatim>\<open>c.recovery.noteReceived(c, seq)\<close> with its signal to the writer.\<close>

definition conn_noteReceived ::
    "int \<Rightarrow> u64 \<Rightarrow> ('m, 'b, 'h) Connection \<Rightarrow> ('m, 'b, 'h) Connection" where
  "conn_noteReceived now seq c =
     (case c_recovery c of
        None \<Rightarrow> c
      | Some r \<Rightarrow>
          let (notify, r') = noteReceived now seq r; c' = c\<lparr>c_recovery := Some r'\<rparr>
          in if notify then signalSend c' else c')"

definition handleRecoveryDataFrame ::
    "int \<Rightarrow> (('m, 'b, 'h) Connection \<Rightarrow> ('m, 'b, 'h) Connection) \<Rightarrow> u64 \<Rightarrow> u32 \<Rightarrow> u64 \<Rightarrow> FrameFlags \<Rightarrow>
     bytes \<Rightarrow> ('m, 'b, 'h) Connection \<Rightarrow> (u64 \<times> go_error option \<times> ('m, 'b, 'h) Connection) outcomes" where
  "handleRecoveryDataFrame now env lastRecvSeq streamID seq flags payload c =
     (if seq = 0 then [(lastRecvSeq, Some (ErrInvalidMessage ''recovery data frame missing seq''), c)]
      else if seq \<le> lastRecvSeq then [(lastRecvSeq, None, conn_noteReceived now seq c)]
      else if seq \<noteq> lastRecvSeq + 1
      then [(lastRecvSeq, Some (ErrInvalidMessage ''recovery frame sequence gap''), c)]
      else map (\<lambda>(err, c1).
             if err \<noteq> None then (lastRecvSeq, err, c1) else (seq, None, conn_noteReceived now seq c1))
             (acceptFrame env streamID flags payload c))"

text \<open>How a round of the reader ends: it goes on with a new last received number, waits for the next
  transport, or ends.\<close>

datatype readerNext = ReadOn u64 | NextTransport | ReaderEnds

definition recoveryReaderStep ::
    "int \<Rightarrow> (('m, 'b, 'h) Connection \<Rightarrow> ('m, 'b, 'h) Connection) \<Rightarrow> nat \<Rightarrow> u64 \<Rightarrow> u64 \<Rightarrow> net_conn \<Rightarrow>
     ('m, 'b, 'h) Connection \<Rightarrow> (readerNext \<times> net_conn \<times> ('m, 'b, 'h) Connection) outcomes" where
  "recoveryReaderStep now env conn gen lastRecvSeq net c =
     (if \<not> transportActive gen c then [(NextTransport, net, c)]
      else
        let c1 = armReadDeadline now conn c
        in case readFrameFrom (c_config c1) (c_debug c1) net of
             (Inl err, d, net') \<Rightarrow>
               let c2 = c1\<lparr>c_debug := d\<rparr>
               in if isMalformedFrameError err then
                    [(ReaderEnds, net', markClosed (conn_noteFailure now DebugFailureRecoveryData
                        (''recovery frame rejected: '' @ Error err) c2))]
                  else if c_closing c2 then [(ReaderEnds, net', markClosed c2)]
                  else
                    [(NextTransport, net', handleRecoveryTransportError now conn
                        (conn_noteFailure now DebugFailureRecoveryRead
                           (''recovery read failed: '' @ Error err) c2))]
           | (Inr (streamID, seq, flags, payload), d, net') \<Rightarrow>
               let c2 = c1\<lparr>c_debug := d\<rparr>
               in if streamID = controlStreamID then
                    (case handleControlFrame payload c2 of
                       (Inl err, c3) \<Rightarrow>
                         [(ReaderEnds, net', markClosed (conn_noteFailure now DebugFailureRecoveryControl
                             (''recovery control frame failed: '' @ Error err) c3))]
                     | (Inr True, c3) \<Rightarrow> map (\<lambda>c4. (ReaderEnds, net', c4)) (closeByPeer env c3)
                     | (Inr False, c3) \<Rightarrow> [(ReadOn lastRecvSeq, net', c3)])
                  else
                    map (\<lambda>(lastSeq, err, c3).
                        case err of
                          None \<Rightarrow> (ReadOn lastSeq, net', c3)
                        | Some e \<Rightarrow>
                            if c_closed c3 then (ReaderEnds, net', c3)
                            else (ReaderEnds, net', markClosed (conn_noteFailure now
                                    DebugFailureRecoveryData (''recovery data frame failed: '' @ Error e) c3)))
                      (handleRecoveryDataFrame now env lastRecvSeq streamID seq flags payload c2))"

section \<open>The abstract receiver\<close>

text \<open>The last number received and the frames accepted so far, in order: a frame without a number and one beyond the
  next are errors, one that was accepted before is passed over, the next one is added. \<open>data_frame_refines\<close> ties
  each of these to the connection: passing over leaves the streams as they are, adding puts the frame into the queue
  of its stream.\<close>

record receiver =
  rx_last :: u64
  rx_log :: "frameRecord list"

definition rx_data :: "frameRecord \<Rightarrow> receiver \<Rightarrow> receiver result" where
  "rx_data f x =
     (if f_seq f = 0 then Inl (ErrInvalidMessage ''recovery data frame missing seq'')
      else if f_seq f \<le> rx_last x then Inr x
      else if f_seq f \<noteq> rx_last x + 1 then Inl (ErrInvalidMessage ''recovery frame sequence gap'')
      else Inr \<lparr>rx_last = f_seq f, rx_log = rx_log x @ [f]\<rparr>)"

lemma conn_noteReceived_recv:
  assumes "c_recovery c = Some r"
  shows "\<exists>r'. c_recovery (conn_noteReceived now seq c) = Some r' \<and>
           r_lastRecvSeq r' = max (r_lastRecvSeq r) seq \<and> r_replay r' = r_replay r"
  using assms noteReceived_recv [of now seq r] noteReceived_frame(2) [of now seq r]
  by (cases "noteReceived now seq r") (simp add: conn_noteReceived_def Let_def)

lemma incomingQ_recovery:
  "(e, c') \<in> set (incomingQ ref p c) \<Longrightarrow> c_recovery c' = c_recovery c \<and> c_config c' = c_config c"
  by (auto simp: incomingQ_def split: option.splits if_splits)

lemma getStreamCtx_recovery:
  "getStreamCtx i inb c = (r, c') \<Longrightarrow> c_recovery c' = c_recovery c \<and> c_config c' = c_config c"
  by (auto simp: getStreamCtx_def startStream_def Let_def split: option.splits if_splits)

text \<open>What accepting a frame leaves alone: everything that its parts and the other goroutines do.\<close>

lemma acceptFrame_keeps_part:
  assumes env: "\<And>c. F (env c) = F c" and out: "(e, c') \<in> set (acceptFrame env i fl p c)"
    and q: "\<And>e c' ref p c. (e, c') \<in> set (incomingQ ref p c) \<Longrightarrow> F c' = F c"
    and g: "\<And>r c' c. getStreamCtx i True c = (r, c') \<Longrightarrow> F c' = F c"
    and fp: "\<And>c. F (forgetPeerStream i c) = F c"
  shows "F c' = F c"
proof (cases "isFin i fl \<and> length p = 0")
  case True
  with out show ?thesis
    by (auto simp: acceptFrame_def queueFIN_def env fp dest: q split: option.splits)
next
  case False
  obtain r c1 where get: "getStreamCtx i True c = (r, c1)" by (cases "getStreamCtx i True c")
  have c2: "F (env c1) = F c" using env g [OF get] by simp
  show ?thesis
  proof (cases r)
    case None
    with False out get c2 show ?thesis by (auto simp: acceptFrame_def Let_def fp split: if_splits)
  next
    case (Some ref)
    with False out get obtain err c3 where
      "(err, c3) = (None, env c1) \<or> (err, c3) \<in> set (incomingQ ref (Some p) (env c1))"
      and c': "c' = c3 \<or> c' \<in> set (queueFIN ref c3)"
      by (auto simp: acceptFrame_def Let_def split: if_splits)
    then have "F c3 = F c" using c2 q by fastforce
    with c' show ?thesis unfolding queueFIN_def using q by fastforce
  qed
qed

lemma acceptFrame_recovery:
  assumes "\<And>c. c_recovery (env c) = c_recovery c" and "(e, c') \<in> set (acceptFrame env i fl p c)"
  shows "c_recovery c' = c_recovery c"
  by (rule acceptFrame_keeps_part [of c_recovery, OF assms])
    (auto simp: forgetPeerStream_def dest: incomingQ_recovery getStreamCtx_recovery)

lemma acceptFrame_config:
  assumes "\<And>c. c_config (env c) = c_config c" and "(e, c') \<in> set (acceptFrame env i fl p c)"
  shows "c_config c' = c_config c"
  by (rule acceptFrame_keeps_part [of c_config, OF assms])
    (auto simp: forgetPeerStream_def dest: incomingQ_recovery getStreamCtx_recovery)

lemma conn_noteReceived_config [simp]: "c_config (conn_noteReceived now seq c) = c_config c"
  by (simp add: conn_noteReceived_def Let_def split: option.split prod.split)

lemma handleRecoveryDataFrame_config:
  assumes "\<And>c. c_config (env c) = c_config c" "(k, err, c') \<in> set (handleRecoveryDataFrame now env n i q fl p c)"
  shows "c_config c' = c_config c"
  using assms(2) acceptFrame_config [OF assms(1)]
  by (auto simp: handleRecoveryDataFrame_def split: if_splits)

text \<open>A data frame, for examples.\<close>

definition firstFrame :: frameRecord where
  "firstFrame = \<lparr>f_streamID = 9, f_seq = 1, f_flags = 0, f_payload = [5], f_size = 19\<rparr>"

text \<open>Handling a data frame as the abstract receiver \<open>x\<close> does: the number \<open>k\<close>, the verdict \<open>err\<close>, and
  what it means for the connection.\<close>

definition receives ::
    "(streamRef \<Rightarrow> nat) \<Rightarrow> frameRecord \<Rightarrow> receiver \<Rightarrow> ('m, 'b, 'h) Connection \<Rightarrow>
     u64 \<times> go_error option \<times> ('m, 'b, 'h) Connection \<Rightarrow> bool" where
  "receives taken f x c = (\<lambda>(k, err, c').
     case rx_data f x of
       Inl e \<Rightarrow> err = Some e \<and> k = rx_last x \<and> c' = c
     | Inr x' \<Rightarrow>
         if rx_log x' = rx_log x then err = None \<and> k = rx_last x \<and> c_heap c' = c_heap c \<and> c_streams c' = c_streams c
         else if err = None then k = rx_last x' \<and> feeds taken c c' (f_streamID f) (f_flags f) (f_payload f)
         else k = rx_last x \<and> c_closed c' \<and> (\<forall>r. inq c' r = drop (taken r) (inq c r)))"

lemma conn_noteReceived_more:
  "c_heap (conn_noteReceived now seq c) = c_heap c" "c_streams (conn_noteReceived now seq c) = c_streams c"
  "c_closed (conn_noteReceived now seq c) = c_closed c" "inq (conn_noteReceived now seq c) = inq c"
  "c_debug (conn_noteReceived now seq c) = c_debug c"
proof -
  show h: "c_heap (conn_noteReceived now seq c) = c_heap c" "c_streams (conn_noteReceived now seq c) = c_streams c"
    "c_closed (conn_noteReceived now seq c) = c_closed c" "c_debug (conn_noteReceived now seq c) = c_debug c"
    by (simp_all add: conn_noteReceived_def Let_def split: option.split prod.split)
  show "inq (conn_noteReceived now seq c) = inq c" by (rule inq_congI [OF h(1)])
qed

lemma feeds_noteReceived: "feeds taken c c' i fl p \<Longrightarrow> feeds taken c (conn_noteReceived now seq c') i fl p"
  by (simp add: feeds_def dropped_def conn_noteReceived_more)

text \<open>A data frame is handled as the abstract receiver handles it.\<close>

lemma data_frame_refines:
  assumes h: "c_recovery c = Some r" and eq: "r_lastRecvSeq r = rx_last x"
    and ok: "streams_ok c" and env: "others_take taken env" "\<And>c. c_recovery (env c) = c_recovery c"
    and out: "(k, err, c') \<in> set (handleRecoveryDataFrame now env (rx_last x)
                 (f_streamID f) (f_seq f) (f_flags f) (f_payload f) c)"
  shows "(\<exists>r'. c_recovery c' = Some r' \<and> r_lastRecvSeq r' = k \<and> r_replay r' = r_replay r) \<and>
    receives taken f x c (k, err, c') \<and> streams_ok c'"
proof -
  have noted: "streams_ok (conn_noteReceived now q d)" if "streams_ok d" for q and d :: "('a, 'b, 'c) Connection"
    using that by (rule streams_ok_congI) (simp_all add: conn_noteReceived_more)
  consider (zero) "f_seq f = 0" | (dup) "f_seq f \<noteq> 0" "f_seq f \<le> rx_last x"
    | (gap) "f_seq f \<noteq> 0" "\<not> f_seq f \<le> rx_last x" "f_seq f \<noteq> rx_last x + 1"
    | (nxt) "f_seq f \<noteq> 0" "\<not> f_seq f \<le> rx_last x" "f_seq f = rx_last x + 1" by blast
  then show ?thesis
  proof cases
    case zero
    with h eq out ok show ?thesis by (simp add: handleRecoveryDataFrame_def receives_def rx_data_def)
  next
    case dup
    with h eq out ok noted conn_noteReceived_recv [OF h, of now "f_seq f"] show ?thesis
      by (auto simp: handleRecoveryDataFrame_def receives_def rx_data_def max_def conn_noteReceived_more)
  next
    case gap
    with h eq out ok show ?thesis by (simp add: handleRecoveryDataFrame_def receives_def rx_data_def)
  next
    case nxt
    then have rx: "rx_data f x = Inr \<lparr>rx_last = f_seq f, rx_log = rx_log x @ [f]\<rparr>"
      by (simp add: rx_data_def)
    from nxt out obtain c1 where
      a: "(err, c1) \<in> set (acceptFrame env (f_streamID f) (f_flags f) (f_payload f) c)"
      and c': "(k, c') = (if err \<noteq> None then (rx_last x, c1) else (f_seq f, conn_noteReceived now (f_seq f) c1))"
      by (auto simp: handleRecoveryDataFrame_def split: if_splits)
    have r1: "c_recovery c1 = Some r" using acceptFrame_recovery [OF env(2) a] h by simp
    have lt: "rx_last x < f_seq f" using nxt by simp
    have ok1: "streams_ok c1" using acceptFrame_ok [OF ok _ a] others_takeD(1) [OF env(1)] by blast
    note q = acceptFrame_queues [OF ok env(1) a]
    show ?thesis
    proof (cases err)
      case None
      then show ?thesis
        using conn_noteReceived_recv [OF r1, of now "f_seq f"] c' eq lt q feeds_noteReceived rx noted [OF ok1]
        by (auto simp: receives_def max_def)
    next
      case (Some e)
      then show ?thesis using r1 c' eq q rx ok1 by (auto simp: receives_def)
    qed
  qed
qed

section \<open>Properties\<close>

text \<open>C7. The reader implements the abstract receiver. On a connection whose recovery state agrees with
  the reader's last received number, every outcome of handling a data frame keeps the two in agreement, and:
  a frame without a number or beyond the next one is an error that changes nothing; a frame that was accepted before
  changes no stream and no queue; the next one advances the number and has been put at the end of the incoming queue of its own
  stream and into no other, unless the stream or the connection is closed; and where it ends in an error instead, the connection is
  closed, the number stays and no queue was given anything. \<open>taken r\<close> is what the goroutine of stream \<open>r\<close> receives from its queue meanwhile.\<close>

theorem reader_refines_receiver:
  assumes h: "c_recovery c = Some r" and eq: "r_lastRecvSeq r = rx_last x"
    and ok: "streams_ok c" and env: "others_take taken env" "\<And>c. c_recovery (env c) = c_recovery c"
    and out: "(k, err, c') \<in> set (handleRecoveryDataFrame now env (rx_last x)
                 (f_streamID f) (f_seq f) (f_flags f) (f_payload f) c)"
  shows "(\<exists>r'. c_recovery c' = Some r' \<and> r_lastRecvSeq r' = k \<and> r_replay r' = r_replay r) \<and>
    (case rx_data f x of
       Inl e \<Rightarrow> err = Some e \<and> k = rx_last x \<and> c' = c
     | Inr x' \<Rightarrow>
         if rx_log x' = rx_log x then err = None \<and> k = rx_last x \<and> c_heap c' = c_heap c \<and> c_streams c' = c_streams c
         else if err = None then k = rx_last x' \<and> feeds taken c c' (f_streamID f) (f_flags f) (f_payload f)
         else k = rx_last x \<and> c_closed c' \<and> (\<forall>r. inq c' r = drop (taken r) (inq c r)))"
  using data_frame_refines [OF h eq ok env out] unfolding receives_def by simp

theorem reader_refines_receiver_witness:
  "\<exists>k err c'. (k, err, c') \<in> set (handleRecoveryDataFrame 7 (\<lambda>c. c) 0 9 1 0 [5] sampleConnection) \<and>
     err = None \<and> k = 1 \<and> (\<exists>r'. c_recovery c' = Some r' \<and> r_lastRecvSeq r' = 1) \<and> inq c' 0 = [Some [5]]"
proof -
  let ?x = "\<lparr>rx_last = 0, rx_log = []\<rparr>"
  let ?out = "handleRecoveryDataFrame 7 (\<lambda>c. c) (rx_last ?x) (f_streamID firstFrame) (f_seq firstFrame)
      (f_flags firstFrame) (f_payload firstFrame) sampleConnection"
  have "map (\<lambda>(k, err, c'). (k, err, c_closed c', s_done (c_heap c' ! 0))) ?out = [(1, None, False, Some False)]" by code_simp
  then obtain c' where o: "(1, None, c') \<in> set ?out" and open_: "\<not> c_closed c'" "s_done (c_heap c' ! 0) = Some False"
    by (auto simp: map_eq_Cons_conv)
  have h: "c_recovery sampleConnection = Some sampleState" "r_lastRecvSeq sampleState = rx_last ?x"
    by (simp add: sampleConnection_def) code_simp
  have new: "queueRef sampleConnection 9 = 0" "inq sampleConnection 0 = []" "\<not> openedStream sampleConnection 9"
    "c_closedPeerStreams sampleConnection = []" "frameEntries 9 0 [5] = [Some [5]]" by code_simp+
  from reader_refines_receiver [OF h sampleConnection_ok others_take_none refl o]
  have "\<exists>r'. c_recovery c' = Some r' \<and> r_lastRecvSeq r' = 1" "feeds (\<lambda>_. 0) sampleConnection c' 9 0 [5]"
    by (auto simp: rx_data_def firstFrame_def)
  with o open_ new show ?thesis by (auto simp: firstFrame_def feeds_def dropped_def)
qed

text \<open>C9. The reader survives exactly what it should: a malformed frame, a malformed control frame and a
  sequence gap close the connection, since a resume would bring the same frame again, while any
  other read error only detaches the transport unless Close is under way.\<close>

theorem reader_error_policy:
  assumes act: "transportActive gen c" and conn: "c_conn c = Some conn" and rec: "c_recovery c = Some r"
    and R: "readFrameFrom (c_config c) (c_debug c) net = (Inl err, d, net')"
    and out: "(nxt, n, c') \<in> set (recoveryReaderStep now env conn gen lastRecvSeq net c)"
  shows "if isMalformedFrameError err \<or> c_closing c then nxt = ReaderEnds \<and> c_closed c'
         else nxt = NextTransport \<and> conn \<in> set (c_netClosed c') \<and> c_conn c' = None \<and>
              (r_role r = recoveryRoleClient \<longrightarrow> \<not> c_closed c' \<and> ReconnectLoop \<in> set (c_spawned c')) \<and>
              (r_role r = recoveryRoleServer \<and> 0 < r_detachedTTL r \<longrightarrow> \<not> c_closed c' \<and>
                 (\<exists>r'. c_recovery c' = Some r' \<and> r_expireTimer r' = Some (now + r_detachedTTL r)))"
proof -
  let ?c1 = "armReadDeadline now conn c"
  have c1: "c_config ?c1 = c_config c" "c_debug ?c1 = c_debug c" "c_closing ?c1 = c_closing c"
    "c_conn ?c1 = c_conn c" "c_recovery ?c1 = c_recovery c" "c_closed ?c1 = c_closed c"
    by (simp_all add: armReadDeadline_def split: option.split)
  let ?c2 = "conn_noteFailure now DebugFailureRecoveryRead (''recovery read failed: '' @ Error err) (?c1\<lparr>c_debug := d\<rparr>)"
  show ?thesis
  proof (cases "isMalformedFrameError err \<or> c_closing c")
    case True
    with act R c1 out show ?thesis by (auto simp: recoveryReaderStep_def Let_def split: if_splits)
  next
    case False
    with act R c1 out have n: "nxt = NextTransport" "c' = handleRecoveryTransportError now conn ?c2"
      by (auto simp: recoveryReaderStep_def Let_def split: if_splits)
    have cl: "\<not> c_closed ?c2" "c_conn ?c2 = Some conn" "c_recovery ?c2 = Some r"
      using act c1 conn rec by (simp_all add: transportActive_def)
    show ?thesis
      using n False detach_effect [OF cl refl, of now] by (simp add: handleRecoveryTransportError_def)
  qed
qed

theorem reader_error_policy_witness:
  "\<exists>n c'. recoveryReaderStep 7 (\<lambda>c. c) 1 0 0 sampleConn sampleConnection = [(NextTransport, n, c')] \<and>
     c_conn c' = None \<and> \<not> c_closed c'"
proof -
  let ?out = "recoveryReaderStep 7 (\<lambda>c. c) 1 0 0 sampleConn sampleConnection"
  have "map fst ?out = [NextTransport]" by code_simp
  then obtain n c' where o: "?out = [(NextTransport, n, c')]" by (auto simp: map_eq_Cons_conv)
  then have o': "(NextTransport, n, c') \<in> set ?out" by simp
  have act: "transportActive 0 sampleConnection" and conn: "c_conn sampleConnection = Some 1"
    and role: "r_role sampleState = recoveryRoleServer" "0 < r_detachedTTL sampleState"
    and cl: "\<not> c_closing sampleConnection" and m: "\<not> isMalformedFrameError EOF" by code_simp+
  have rec: "c_recovery sampleConnection = Some sampleState" by (simp add: sampleConnection_def)
  have e: "fst (readFrameFrom (c_config sampleConnection) (c_debug sampleConnection) sampleConn) = Inl EOF"
    by code_simp
  then obtain d n' where R: "readFrameFrom (c_config sampleConnection) (c_debug sampleConnection) sampleConn = (Inl EOF, d, n')"
    by (cases "readFrameFrom (c_config sampleConnection) (c_debug sampleConnection) sampleConn") auto
  from reader_error_policy [OF act conn rec R o'] o role cl m show ?thesis by simp
qed

end
