(* ===== verification/Delivery.thy ===== *)
theory Delivery
  imports Recovery_Reader
begin

text \<open>
  Delivery of one direction of a recoverable connection, end to end: the writer of one side (the
  abstract sender of \<open>Recovery_Writer\<close>, which the writer implements), its transports, and the reader
  of the other side (the abstract receiver of \<open>Recovery_Reader\<close>, which the reader implements). A
  transport delivers frames in order and can fail at any moment. The receiver may still read what is left on an
  older transport after the sender has gone over to the next one, and may give up an old transport at
  any point, which loses the rest of it. Acknowledgements travel the other way and can be late, lost or
  repeated. On a resume the receiver reports the last number it received, and may receive more
  before the new transport is used.

  \<open>session_step\<close> interleaves all of this without restriction. \<open>sx_wire\<close> is what is unread on the sender's
  current transport, \<open>sx_late\<close> what is unread on older ones, the one the receiver is on first; \<open>sx_acks\<close> and
  \<open>sx_reports\<close> are the numbers that the receiver ever acknowledged and reported.
\<close>

record session =
  sx_sender :: sender
  sx_up :: bool
  sx_late :: "frameRecord list list"
  sx_wire :: "frameRecord list"
  sx_acks :: "u64 list"
  sx_reports :: "u64 list"
  sx_receiver :: receiver
  sx_failed :: bool
  sx_staged :: "frameRecord list"

definition initSession :: "byte \<Rightarrow> int \<Rightarrow> session" where
  "initSession version maxBytes =
     \<lparr>sx_sender = \<lparr>sn_replay = newReplayBuffer version maxBytes, sn_next = 0, sn_last = 0, sn_resume = []\<rparr>,
      sx_up = False, sx_late = [], sx_wire = [], sx_acks = [], sx_reports = [0],
      sx_receiver = \<lparr>rx_last = 0, rx_log = []\<rparr>, sx_failed = False, sx_staged = []\<rparr>"

text \<open>The frame that a staging step kept, as a list of at most one.\<close>

definition newly :: "frameRecord option \<Rightarrow> frameRecord list" where
  "newly rec = (case rec of None \<Rightarrow> [] | Some r \<Rightarrow> [r])"

inductive session_step :: "session \<Rightarrow> session \<Rightarrow> bool" where
  st_stage: "\<not> sx_up st \<Longrightarrow> payload_fits frame \<Longrightarrow> sd_stage frame (sx_sender st) = (rec, s') \<Longrightarrow>
    session_step st (st\<lparr>sx_sender := s', sx_staged := sx_staged st @ newly rec\<rparr>)"
| st_live: "sx_up st \<Longrightarrow> sn_resume (sx_sender st) = [] \<Longrightarrow> payload_fits frame \<Longrightarrow>
    sd_stage frame (sx_sender st) = (rec, s') \<Longrightarrow> sd_live frame (sx_sender st) = (out, s'') \<Longrightarrow>
    session_step st (st\<lparr>sx_sender := s'', sx_wire := sx_wire st @ out,
                        sx_staged := sx_staged st @ newly rec\<rparr>)"
| st_resume: "sx_up st \<Longrightarrow> sd_resume (sx_sender st) = (out, s') \<Longrightarrow>
    session_step st (st\<lparr>sx_sender := s', sx_wire := sx_wire st @ out\<rparr>)"
| st_down: "session_step st (st\<lparr>sx_sender := (sx_sender st)\<lparr>sn_last := l, sn_resume := q\<rparr>, sx_up := False\<rparr>)"
| st_attach: "n \<in> set (sx_reports st) \<Longrightarrow>
    session_step st (st\<lparr>sx_sender := sd_begin n (sx_sender st), sx_up := True,
                        sx_late := sx_late st @ [sx_wire st], sx_wire := []\<rparr>)"
| st_recv: "sx_late st = [] \<Longrightarrow> sx_wire st = f # fs \<Longrightarrow> rx_data f (sx_receiver st) = Inr x \<Longrightarrow>
    session_step st (st\<lparr>sx_wire := fs, sx_receiver := x\<rparr>)"
| st_recv_late: "sx_late st = (f # fs) # rest \<Longrightarrow> rx_data f (sx_receiver st) = Inr x \<Longrightarrow>
    session_step st (st\<lparr>sx_late := fs # rest, sx_receiver := x\<rparr>)"
| st_fail: "hd (sx_late st @ [sx_wire st]) = f # fs \<Longrightarrow> rx_data f (sx_receiver st) = Inl e \<Longrightarrow>
    session_step st (st\<lparr>sx_failed := True\<rparr>)"
| st_skip: "sx_late st = old # rest \<Longrightarrow> session_step st (st\<lparr>sx_late := rest\<rparr>)"
| st_ack_send: "session_step st (st\<lparr>sx_acks := sx_acks st @ [rx_last (sx_receiver st)]\<rparr>)"
| st_ack_recv: "a \<in> set (sx_acks st) \<Longrightarrow> session_step st (st\<lparr>sx_sender := sd_ack a (sx_sender st)\<rparr>)"
| st_report: "session_step st (st\<lparr>sx_reports := sx_reports st @ [rx_last (sx_receiver st)]\<rparr>)"

section \<open>Sequences without gaps\<close>

text \<open>\<open>gapfree n fs\<close>: a receiver that has everything up to \<open>n\<close> finds no gap in \<open>fs\<close>; \<open>top n fs\<close> is
  the number it has after them.\<close>

fun gapfree :: "nat \<Rightarrow> frameRecord list \<Rightarrow> bool" where
  "gapfree n [] \<longleftrightarrow> True"
| "gapfree n (f # fs) \<longleftrightarrow> unat (f_seq f) \<le> Suc n \<and> gapfree (max n (unat (f_seq f))) fs"

fun top_seq :: "nat \<Rightarrow> frameRecord list \<Rightarrow> nat" where
  "top_seq n [] = n"
| "top_seq n (f # fs) = top_seq (max n (unat (f_seq f))) fs"

lemma gapfree_append: "gapfree n (fs @ gs) \<longleftrightarrow> gapfree n fs \<and> gapfree (top_seq n fs) gs"
  by (induction fs arbitrary: n) auto

lemma top_seq_append: "top_seq n (fs @ gs) = top_seq (top_seq n fs) gs"
  by (induction fs arbitrary: n) auto

lemma top_seq_ge: "n \<le> top_seq n fs"
proof (induction fs arbitrary: n)
  case (Cons f fs)
  show ?case using Cons [of "max n (unat (f_seq f))"] by simp
qed simp

text \<open>A receiver that has more finds no gap either, and does not end up with less.\<close>

lemma gapfree_mono: "gapfree n fs \<Longrightarrow> n \<le> m \<Longrightarrow> gapfree m fs"
proof (induction fs arbitrary: n m)
  case (Cons f fs)
  then show ?case using Cons.IH [of "max n (unat (f_seq f))" "max m (unat (f_seq f))"] by auto
qed simp

lemma top_seq_mono: "n \<le> m \<Longrightarrow> top_seq n fs \<le> top_seq m fs"
proof (induction fs arbitrary: n m)
  case (Cons f fs)
  then show ?case using Cons.IH [of "max n (unat (f_seq f))" "max m (unat (f_seq f))"] by auto
qed simp

text \<open>A history numbers its frames 1, 2, 3 and so on.\<close>

definition numbered :: "frameRecord list \<Rightarrow> bool" where
  "numbered h \<longleftrightarrow> map (unat \<circ> f_seq) h = [1 ..< Suc (length h)]"

lemma numbered_nth: "numbered h \<Longrightarrow> i < length h \<Longrightarrow> unat (f_seq (h ! i)) = Suc i"
proof -
  assume "numbered h" and i: "i < length h"
  then have "map (unat \<circ> f_seq) h ! i = [1 ..< Suc (length h)] ! i" by (simp add: numbered_def)
  with i show ?thesis by (simp del: upt_Suc)
qed

lemma numbered_snoc:
  "numbered h \<Longrightarrow> unat (f_seq r) = Suc (length h) \<Longrightarrow> numbered (h @ [r])"
  by (simp add: numbered_def)

lemma numbered_filter:
  assumes "numbered h"
  shows "filter (\<lambda>r. m < f_seq r) h = drop (unat m) h"
proof -
  have "filter (\<lambda>r. m < f_seq r) (take (unat m) h) = []"
    using numbered_nth [OF assms]
    by (auto simp: filter_empty_conv in_set_conv_nth word_less_nat_alt)
  moreover have "filter (\<lambda>r. m < f_seq r) (drop (unat m) h) = drop (unat m) h"
    using numbered_nth [OF assms]
    by (auto simp: filter_id_conv in_set_conv_nth word_less_nat_alt)
  ultimately show ?thesis by (metis append_Nil append_take_drop_id filter_append)
qed

lemma numbered_member: "numbered h \<Longrightarrow> f \<in> set h \<Longrightarrow> 0 < unat (f_seq f) \<and> h ! (unat (f_seq f) - 1) = f"
  using numbered_nth by (fastforce simp: in_set_conv_nth)

section \<open>The invariant\<close>

definition session_ok :: "session \<Rightarrow> bool" where
  "session_ok st \<longleftrightarrow>
     (let s = sx_sender st; h = sx_staged st; x = sx_receiver st; a = rb_lastAcked (sn_replay s)
      in replay_ok (sn_replay s) \<and> numbered h \<and> unat (sn_next s) = length h \<and>
         kept (sn_replay s) = drop (unat a) h \<and>
         a \<le> rx_last x \<and> rx_last x \<le> sn_next s \<and> rx_log x = take (unat (rx_last x)) h \<and>
         set (sx_wire st) \<subseteq> set h \<and> gapfree (unat (rx_last x)) (sx_wire st) \<and>
         (\<forall>fs \<in> set (sx_late st). set fs \<subseteq> set h \<and> gapfree (unat (rx_last x)) fs) \<and>
         (\<forall>n \<in> set (sx_reports st). n \<le> rx_last x) \<and> (\<forall>n \<in> set (sx_acks st). n \<le> rx_last x) \<and> \<not> sx_failed st \<and>
         (sx_up st \<longrightarrow>
            max (unat (sn_last s)) (unat a) \<le> top_seq (unat (rx_last x)) (sx_wire st) \<and>
            (\<exists>m. sn_resume s = drop m h \<and> m \<le> max (unat (sn_last s)) (unat a))))"

lemma initSession_ok:
  assumes "0 < maxBytes" "maxBytes < 2 ^ 62"
  shows "session_ok (initSession version maxBytes)"
  using newReplayBuffer_ok [OF assms, of version]
  by (simp add: session_ok_def initSession_def numbered_def newReplayBuffer_def)

text \<open>Staging: a kept frame takes the next number; a refused one changes nothing.\<close>

lemma sd_stage_cases:
  assumes ok: "replay_ok (sn_replay s)" and fit: "payload_fits frame"
    and S: "sd_stage frame s = (rec, s')"
  obtains "rec = None" "s' = s"
  | r b where "rec = Some r" "s' = s\<lparr>sn_replay := b, sn_next := sn_next s + 1\<rparr>" "f_seq r = sn_next s + 1"
      "unat (sn_next s + 1) = Suc (unat (sn_next s))" "replay_ok b" "kept b = kept (sn_replay s) @ [r]"
      "rb_lastAcked b = rb_lastAcked (sn_replay s)"
proof -
  obtain rec1 held e b where st: "stage (sn_replay s) frame (sn_next s + 1) = (rec1, held, e, b)"
    by (cases "stage (sn_replay s) frame (sn_next s + 1)")
  show thesis
  proof (cases rec1)
    case None
    with st S rq.put_refused [of "sn_replay s" frame "sn_next s + 1" held e b]
    show thesis by (intro that(1)) (simp_all add: sd_stage_def)
  next
    case (Some r)
    note k = rq.put_kept [OF ok fit, of "sn_next s + 1" r held e b]
      and i = rq.put_increases [OF ok fit, of "sn_next s + 1" r held e b]
    have "sn_next s + 1 \<noteq> 0" using i st Some by auto
    then have "unat (sn_next s + 1) = Suc (unat (sn_next s))" by (simp add: unatSuc add.commute)
    with k st Some S show thesis by (intro that(2) [of r b]) (simp_all add: sd_stage_def)
  qed
qed

text \<open>The invariant, taken apart.\<close>

lemma session_okD:
  assumes "session_ok st"
  shows "replay_ok (sn_replay (sx_sender st))" "numbered (sx_staged st)"
    "unat (sn_next (sx_sender st)) = length (sx_staged st)"
    "kept (sn_replay (sx_sender st)) = drop (unat (rb_lastAcked (sn_replay (sx_sender st)))) (sx_staged st)"
    "rb_lastAcked (sn_replay (sx_sender st)) \<le> rx_last (sx_receiver st)"
    "rx_last (sx_receiver st) \<le> sn_next (sx_sender st)"
    "rx_log (sx_receiver st) = take (unat (rx_last (sx_receiver st))) (sx_staged st)"
    "set (sx_wire st) \<subseteq> set (sx_staged st)" "gapfree (unat (rx_last (sx_receiver st))) (sx_wire st)"
    "\<forall>n \<in> set (sx_reports st). n \<le> rx_last (sx_receiver st)"
    "\<forall>n \<in> set (sx_acks st). n \<le> rx_last (sx_receiver st)" "\<not> sx_failed st"
    "sx_up st \<Longrightarrow> max (unat (sn_last (sx_sender st))) (unat (rb_lastAcked (sn_replay (sx_sender st))))
       \<le> top_seq (unat (rx_last (sx_receiver st))) (sx_wire st)"
    "sx_up st \<Longrightarrow> \<exists>m. sn_resume (sx_sender st) = drop m (sx_staged st) \<and>
       m \<le> max (unat (sn_last (sx_sender st))) (unat (rb_lastAcked (sn_replay (sx_sender st))))"
    "\<forall>fs \<in> set (sx_late st). set fs \<subseteq> set (sx_staged st) \<and> gapfree (unat (rx_last (sx_receiver st))) fs"
  using assms by (simp_all add: session_ok_def Let_def)

lemma kept_drop_snoc:
  "k = drop a h \<Longrightarrow> a \<le> length h \<Longrightarrow> k @ [r] = drop a (h @ [r])"
  by simp

lemma step_stage_ok:
  assumes ok: "session_ok st" and "\<not> sx_up st" and fit: "payload_fits frame"
    and S: "sd_stage frame (sx_sender st) = (rec, s')"
  shows "session_ok (st\<lparr>sx_sender := s', sx_staged := sx_staged st @ newly rec\<rparr>)"
  using sd_stage_cases [OF session_okD(1) [OF ok] fit S]
proof cases
  case 1
  with ok show ?thesis by (simp add: newly_def)
next
  case (2 r b)
  note d = session_okD [OF ok]
  have le: "unat (rx_last (sx_receiver st)) \<le> length (sx_staged st)"
    using d(3,6) by (simp add: word_le_nat_alt)
  have acked: "unat (rb_lastAcked b) \<le> length (sx_staged st)"
    using d(3,5,6) 2 by (simp add: word_le_nat_alt)
  have "rx_last (sx_receiver st) \<le> sn_next (sx_sender st) + 1"
    using d(6) 2 by (simp add: word_le_nat_alt)
  with d 2 assms(2) le acked numbered_snoc [OF d(2), of r] show ?thesis
    by (auto simp: session_ok_def newly_def Let_def)
qed

lemma step_live_ok:
  assumes ok: "session_ok st" and up: "sx_up st" and none: "sn_resume (sx_sender st) = []"
    and fit: "payload_fits frame"
    and S: "sd_stage frame (sx_sender st) = (rec, s')" and L: "sd_live frame (sx_sender st) = (out, s'')"
  shows "session_ok (st\<lparr>sx_sender := s'', sx_wire := sx_wire st @ out, sx_staged := sx_staged st @ newly rec\<rparr>)"
  using sd_stage_cases [OF session_okD(1) [OF ok] fit S]
proof cases
  case 1
  with ok S L show ?thesis by (auto simp: newly_def sd_live_def)
next
  case (2 r b)
  note d = session_okD [OF ok]
  let ?l = "unat (sn_last (sx_sender st))" and ?a = "unat (rb_lastAcked (sn_replay (sx_sender st)))"
  let ?t = "top_seq (unat (rx_last (sx_receiver st))) (sx_wire st)" and ?n = "length (sx_staged st)"
  obtain m where m: "drop m (sx_staged st) = []" "m \<le> max ?l ?a" using d(14) [OF up] none by auto
  then have n: "?n \<le> max ?l ?a" by simp
  have r: "unat (f_seq r) = Suc ?n" using 2 d(3) by simp
  have le: "unat (rx_last (sx_receiver st)) \<le> ?n" "?a \<le> ?n"
    using d(3,5,6) by (simp_all add: word_le_nat_alt)
  have rn: "rx_last (sx_receiver st) \<le> sn_next (sx_sender st) + 1"
    using d(6) 2 by (simp add: word_le_nat_alt)
  show ?thesis
  proof (cases "f_seq r \<le> sn_last (sx_sender st)")
    case True
    then have "Suc ?n \<le> ?l" using r by (simp add: word_le_nat_alt)
    with True S L d 2 le up rn none numbered_snoc [OF d(2) r] show ?thesis
      by (auto simp: session_ok_def newly_def sd_live_def Let_def intro!: exI [of _ "Suc ?n"])
  next
    case False
    have "gapfree (unat (rx_last (sx_receiver st))) (sx_wire st @ [r])"
      using d(9) order_trans [OF n d(13) [OF up]] r by (simp add: gapfree_append)
    with False S L d 2 le up rn none r numbered_snoc [OF d(2) r] d(13) [OF up] show ?thesis
      by (auto simp: session_ok_def newly_def sd_live_def top_seq_append Let_def intro!: exI [of _ "Suc ?n"])
  qed
qed

lemma step_resume_ok:
  assumes ok: "session_ok st" and up: "sx_up st" and R: "sd_resume (sx_sender st) = (out, s')"
  shows "session_ok (st\<lparr>sx_sender := s', sx_wire := sx_wire st @ out\<rparr>)"
proof (cases "sn_resume (sx_sender st)")
  case Nil
  with ok R show ?thesis by (auto simp: sd_resume_def)
next
  case (Cons f rest)
  note d = session_okD [OF ok]
  let ?l = "unat (sn_last (sx_sender st))" and ?a = "unat (rb_lastAcked (sn_replay (sx_sender st)))"
  obtain m where m: "f # rest = drop m (sx_staged st)" "m \<le> max ?l ?a" using d(14) [OF up] Cons by auto
  then have lt: "m < length (sx_staged st)" by (cases "m < length (sx_staged st)") auto
  have f: "f = sx_staged st ! m" "rest = drop (Suc m) (sx_staged st)"
    using m(1) Cons_nth_drop_Suc [OF lt] by (metis list.inject)+
  have q: "unat (f_seq f) = Suc m" using numbered_nth [OF d(2) lt] f by simp
  have fin: "f \<in> set (sx_staged st)" using f lt by simp
  show ?thesis
  proof (cases "f_seq f \<le> sn_last (sx_sender st) \<or> f_seq f \<le> lastAckedSeq (sn_replay (sx_sender st))")
    case True
    then have "Suc m \<le> max ?l ?a" using q by (auto simp: word_le_nat_alt lastAckedSeq_def)
    with True R Cons d f up show ?thesis
      by (auto simp: session_ok_def sd_resume_def Let_def intro!: exI [of _ "Suc m"])
  next
    case False
    have "gapfree (unat (rx_last (sx_receiver st))) (sx_wire st @ [f])"
      using d(9) order_trans [OF m(2) d(13) [OF up]] q by (simp add: gapfree_append)
    with False R Cons d f up q fin d(13) [OF up] show ?thesis
      by (auto simp: session_ok_def sd_resume_def top_seq_append Let_def intro!: exI [of _ "Suc m"])
  qed
qed

text \<open>The frame the receiver reads next is a repetition or the next one, and is accepted.\<close>

lemma rx_data_ok:
  assumes ok: "session_ok st" and fin: "f \<in> set (sx_staged st)"
    and le: "unat (f_seq f) \<le> Suc (unat (rx_last (sx_receiver st)))"
  obtains x where "rx_data f (sx_receiver st) = Inr x"
    "unat (rx_last x) = max (unat (rx_last (sx_receiver st))) (unat (f_seq f))"
    "rx_log x = take (unat (rx_last x)) (sx_staged st)" "rx_last x \<le> sn_next (sx_sender st)"
proof -
  note d = session_okD [OF ok]
  let ?x = "sx_receiver st"
  note pos = numbered_member [OF d(2) fin]
  have nz: "f_seq f \<noteq> 0" using pos by auto
  have bound: "unat (f_seq f) \<le> length (sx_staged st)"
    using fin numbered_nth [OF d(2)] by (fastforce simp: in_set_conv_nth)
  show thesis
  proof (cases "f_seq f \<le> rx_last ?x")
    case True
    then have "max (unat (rx_last ?x)) (unat (f_seq f)) = unat (rx_last ?x)" by (simp add: word_le_nat_alt)
    with True nz d show thesis by (intro that [of ?x]) (simp_all add: rx_data_def)
  next
    case False
    then have e: "unat (f_seq f) = Suc (unat (rx_last ?x))" using le by (simp add: word_le_nat_alt)
    have "unat (rx_last ?x + 1) = Suc (unat (rx_last ?x))"
      using e unat_u64_less [of "f_seq f"] by (simp add: unat_word_ariths)
    then have "f_seq f = rx_last ?x + 1" using e by (simp add: word_unat_eq_iff)
    then have rx: "rx_data f ?x = Inr \<lparr>rx_last = f_seq f, rx_log = rx_log ?x @ [f]\<rparr>"
      using False nz by (simp add: rx_data_def)
    have "unat (rx_last ?x) < length (sx_staged st)" using bound e by simp
    then have "rx_log ?x @ [f] = take (unat (f_seq f)) (sx_staged st)"
      using d(7) e pos by (simp add: take_Suc_conv_app_nth)
    with rx e bound d(3) show thesis by (intro that [OF rx]) (simp_all add: word_le_nat_alt)
  qed
qed

text \<open>A receiver that has more, with the log that goes with it.\<close>

lemma receiver_advances:
  assumes ok: "session_ok st" and le: "rx_last (sx_receiver st) \<le> rx_last x" "rx_last x \<le> sn_next (sx_sender st)"
    and log: "rx_log x = take (unat (rx_last x)) (sx_staged st)"
  shows "session_ok (st\<lparr>sx_receiver := x\<rparr>)"
proof -
  note d = session_okD [OF ok]
  have n: "unat (rx_last (sx_receiver st)) \<le> unat (rx_last x)" using le(1) by (simp add: word_le_nat_alt)
  have up: "max (unat (sn_last (sx_sender st))) (unat (rb_lastAcked (sn_replay (sx_sender st))))
      \<le> top_seq (unat (rx_last x)) (sx_wire st)" if "sx_up st"
    using d(13) [OF that] top_seq_mono [OF n] by (rule order_trans)
  have "rb_lastAcked (sn_replay (sx_sender st)) \<le> rx_last x"
    "\<forall>k \<in> set (sx_reports st). k \<le> rx_last x" "\<forall>k \<in> set (sx_acks st). k \<le> rx_last x"
    using d(5,10,11) le(1) by auto
  with d le(2) log up gapfree_mono [OF _ n] show ?thesis
    unfolding session_ok_def Let_def by (simp del: max.bounded_iff)
qed

lemma step_recv_ok:
  assumes ok: "session_ok st" and w: "sx_wire st = f # fs"
  shows "\<exists>x. rx_data f (sx_receiver st) = Inr x \<and> session_ok (st\<lparr>sx_wire := fs, sx_receiver := x\<rparr>) \<and>
     unat (rx_last x) = max (unat (rx_last (sx_receiver st))) (unat (f_seq f))"
proof -
  have "f \<in> set (sx_staged st)" "unat (f_seq f) \<le> Suc (unat (rx_last (sx_receiver st)))"
    using session_okD(8,9) [OF ok] w by auto
  then obtain x where x: "rx_data f (sx_receiver st) = Inr x"
    "unat (rx_last x) = max (unat (rx_last (sx_receiver st))) (unat (f_seq f))"
    "rx_log x = take (unat (rx_last x)) (sx_staged st)" "rx_last x \<le> sn_next (sx_sender st)"
    using rx_data_ok [OF ok] by metis
  then have "session_ok (st\<lparr>sx_receiver := x\<rparr>)"
    by (intro receiver_advances [OF ok]) (simp_all add: word_le_nat_alt)
  then have "session_ok (st\<lparr>sx_wire := fs, sx_receiver := x\<rparr>)"
    using x(2) by (simp add: session_ok_def Let_def w)
  with x show ?thesis by blast
qed

lemma step_recv_late_ok:
  assumes ok: "session_ok st" and w: "sx_late st = (f # fs) # rest"
  shows "\<exists>x. rx_data f (sx_receiver st) = Inr x \<and> session_ok (st\<lparr>sx_late := fs # rest, sx_receiver := x\<rparr>)"
proof -
  have "f \<in> set (sx_staged st)" "unat (f_seq f) \<le> Suc (unat (rx_last (sx_receiver st)))"
    using session_okD(15) [OF ok] w by auto
  then obtain x where x: "rx_data f (sx_receiver st) = Inr x"
    "unat (rx_last x) = max (unat (rx_last (sx_receiver st))) (unat (f_seq f))"
    "rx_log x = take (unat (rx_last x)) (sx_staged st)" "rx_last x \<le> sn_next (sx_sender st)"
    using rx_data_ok [OF ok] by metis
  then have "session_ok (st\<lparr>sx_receiver := x\<rparr>)"
    by (intro receiver_advances [OF ok]) (simp_all add: word_le_nat_alt)
  then have "session_ok (st\<lparr>sx_late := fs # rest, sx_receiver := x\<rparr>)"
    using x(2) by (simp add: session_ok_def Let_def w)
  with x show ?thesis by blast
qed

lemma replay_ack_spec:
  assumes "replay_ok b" "numbered h" "kept b = drop (unat (rb_lastAcked b)) h"
  shows "replay_ok (snd (ack b n))" "rb_lastAcked (snd (ack b n)) = max (rb_lastAcked b) n"
    "kept (snd (ack b n)) = drop (unat (max (rb_lastAcked b) n)) h"
proof -
  show "replay_ok (snd (ack b n))" "rb_lastAcked (snd (ack b n)) = max (rb_lastAcked b) n"
    using rq.confirm_invar [OF assms(1)] rq.confirm_acked [OF assms(1)] by blast+
  have "kept (snd (ack b n)) = filter (\<lambda>r. n < f_seq r) (filter (\<lambda>r. rb_lastAcked b < f_seq r) h)"
    using rq.confirm_contents [OF assms(1), of n] assms(3) numbered_filter [OF assms(2), of "rb_lastAcked b"]
    by simp
  also have "\<dots> = filter (\<lambda>r. max (rb_lastAcked b) n < f_seq r) h" by (auto intro: filter_cong)
  finally show "kept (snd (ack b n)) = drop (unat (max (rb_lastAcked b) n)) h"
    by (simp only: numbered_filter [OF assms(2)])
qed

lemma unat_max: "unat (max a b) = max (unat a) (unat (b :: u64))"
  by (simp add: max_def word_le_nat_alt)

lemma step_ack_recv_ok:
  assumes ok: "session_ok st" and a: "a \<in> set (sx_acks st)"
  shows "session_ok (st\<lparr>sx_sender := sd_ack a (sx_sender st)\<rparr>)"
proof -
  note d = session_okD [OF ok]
  note r = replay_ack_spec [OF d(1,2,4), of a]
  have le: "a \<le> rx_last (sx_receiver st)" using d(11) a by simp
  then have t: "unat a \<le> top_seq (unat (rx_last (sx_receiver st))) (sx_wire st)"
    using top_seq_ge [of "unat (rx_last (sx_receiver st))"] by (simp add: word_le_nat_alt order_trans)
  have up: "max (unat (sn_last (sx_sender st))) (unat (max (rb_lastAcked (sn_replay (sx_sender st))) a))
      \<le> top_seq (unat (rx_last (sx_receiver st))) (sx_wire st) \<and>
    (\<exists>m. sn_resume (sx_sender st) = drop m (sx_staged st) \<and>
       m \<le> max (unat (sn_last (sx_sender st))) (unat (max (rb_lastAcked (sn_replay (sx_sender st))) a)))"
    if "sx_up st"
    using d(13) [OF that] d(14) [OF that] t by (auto simp: unat_max intro: le_max_iff_disj [THEN iffD2])
  have "max (rb_lastAcked (sn_replay (sx_sender st))) a \<le> rx_last (sx_receiver st)" using d(5) le by simp
  with d r a up show ?thesis
    unfolding session_ok_def Let_def sd_ack_def by (simp del: max.bounded_iff)
qed

lemma step_attach_ok:
  assumes ok: "session_ok st" and n: "n \<in> set (sx_reports st)"
  shows "session_ok (st\<lparr>sx_sender := sd_begin n (sx_sender st), sx_up := True,
                        sx_late := sx_late st @ [sx_wire st], sx_wire := []\<rparr>)"
proof -
  note d = session_okD [OF ok]
  let ?l = "min n (sn_next (sx_sender st))" and ?x = "rx_last (sx_receiver st)"
  let ?b = "snd (ack (sn_replay (sx_sender st)) ?l)"
  note r = replay_ack_spec [OF d(1,2,4), of ?l]
  have l: "?l \<le> ?x" using d(10) n by (auto simp: min_def)
  have t: "unat (max (rb_lastAcked (sn_replay (sx_sender st))) ?l) \<le> unat ?x"
    using d(5) l by (auto simp: word_le_nat_alt unat_max)
  have "snapshotFrom ?b ?l = kept ?b"
    by (rule rq.after_confirm [OF d(1)])
  then have s: "sd_begin n (sx_sender st) = (sx_sender st)\<lparr>sn_replay := ?b, sn_last := ?l, sn_resume := kept ?b\<rparr>"
    by (simp add: sd_begin_def Let_def)
  show ?thesis
    unfolding s session_ok_def Let_def
    using d(2,3,5,6,7,8,9,10,11,12,15) l r t
    by (auto simp: unat_max intro!: exI [of _ "max (unat (rb_lastAcked (sn_replay (sx_sender st)))) (unat ?l)"])
qed

lemma session_step_ok: "session_step st st' \<Longrightarrow> session_ok st \<Longrightarrow> session_ok st'"
proof (induction rule: session_step.induct)
  case (st_recv st f fs x)
  then show ?case using step_recv_ok [OF st_recv(4,2)] by auto
next
  case (st_recv_late st f fs rest x)
  then show ?case using step_recv_late_ok [OF st_recv_late(3,1)] by auto
next
  case (st_fail st f fs e)
  then have "\<exists>x. rx_data f (sx_receiver st) = Inr x"
    using step_recv_ok [OF st_fail(3)] step_recv_late_ok [OF st_fail(3)] by (cases "sx_late st") auto
  with st_fail show ?case by simp
qed (simp_all add: step_stage_ok step_live_ok step_resume_ok step_ack_recv_ok step_attach_ok,
     simp_all add: session_ok_def Let_def)

lemma session_steps_ok: "session_step\<^sup>*\<^sup>* st st' \<Longrightarrow> session_ok st \<Longrightarrow> session_ok st'"
  by (induction rule: rtranclp_induct) (auto intro: session_step_ok)

section \<open>Catching up\<close>

text \<open>One reconnect: the receiver reports its number, the sender begins the new transport with it, and the receiver has
  given up the older transports.\<close>

definition reattached :: "session \<Rightarrow> session" where
  "reattached st =
     (let n = rx_last (sx_receiver st)
      in st\<lparr>sx_reports := sx_reports st @ [n], sx_sender := sd_begin n (sx_sender st), sx_up := True,
            sx_late := [], sx_wire := []\<rparr>)"

text \<open>What is left to do then: the sender replays a frame, or the receiver reads one.\<close>

inductive replay_step :: "session \<Rightarrow> session \<Rightarrow> bool" where
  rp_resume: "sn_resume (sx_sender st) \<noteq> [] \<Longrightarrow> sd_resume (sx_sender st) = (out, s') \<Longrightarrow>
    replay_step st (st\<lparr>sx_sender := s', sx_wire := sx_wire st @ out\<rparr>)"
| rp_recv: "sx_wire st = f # fs \<Longrightarrow> rx_data f (sx_receiver st) = Inr x \<Longrightarrow>
    replay_step st (st\<lparr>sx_wire := fs, sx_receiver := x\<rparr>)"

text \<open>The receiver acknowledges what it has, and the acknowledgement arrives.\<close>

definition acknowledged :: "session \<Rightarrow> session" where
  "acknowledged st =
     (let n = rx_last (sx_receiver st)
      in st\<lparr>sx_acks := sx_acks st @ [n], sx_sender := sd_ack n (sx_sender st)\<rparr>)"

lemma skip_late: "session_step\<^sup>*\<^sup>* st (st\<lparr>sx_late := []\<rparr>)"
proof (induction "sx_late st" arbitrary: st)
  case Nil
  then have "st\<lparr>sx_late := []\<rparr> = st" by (cases st) simp
  then show ?case by simp
next
  case (Cons old rest)
  have "session_step st (st\<lparr>sx_late := rest\<rparr>)" by (rule st_skip) (simp add: Cons.hyps(2) [symmetric])
  with Cons.hyps(1) [of "st\<lparr>sx_late := rest\<rparr>"] show ?case
    by (simp add: converse_rtranclp_into_rtranclp)
qed

lemma reattached_run: "session_step\<^sup>*\<^sup>* st (reattached st)"
proof -
  let ?st1 = "st\<lparr>sx_reports := sx_reports st @ [rx_last (sx_receiver st)]\<rparr>" and ?n = "rx_last (sx_receiver st)"
  let ?st2 = "?st1\<lparr>sx_sender := sd_begin ?n (sx_sender ?st1), sx_up := True,
      sx_late := sx_late ?st1 @ [sx_wire ?st1], sx_wire := []\<rparr>"
  have "session_step st ?st1" by (rule st_report)
  moreover have "session_step ?st1 ?st2" by (rule st_attach) simp
  ultimately have "session_step\<^sup>*\<^sup>* st (?st2\<lparr>sx_late := []\<rparr>)"
    using skip_late [of ?st2] by (meson converse_rtranclp_into_rtranclp)
  moreover have "?st2\<lparr>sx_late := []\<rparr> = reattached st" by (simp add: reattached_def Let_def)
  ultimately show ?thesis by metis
qed

lemma acknowledged_run: "session_step\<^sup>*\<^sup>* st (acknowledged st)"
proof -
  let ?n = "rx_last (sx_receiver st)"
  let ?st1 = "st\<lparr>sx_acks := sx_acks st @ [?n]\<rparr>"
  have "session_step st ?st1" by (rule st_ack_send)
  moreover have "session_step ?st1 (?st1\<lparr>sx_sender := sd_ack ?n (sx_sender ?st1)\<rparr>)" by (rule st_ack_recv) simp
  moreover have "?st1\<lparr>sx_sender := sd_ack ?n (sx_sender ?st1)\<rparr> = acknowledged st" by (simp add: acknowledged_def Let_def)
  ultimately show ?thesis by (metis converse_rtranclp_into_rtranclp r_into_rtranclp)
qed

text \<open>The replay: what it leaves alone, and that each frame takes at most two steps.\<close>

definition replaying :: "frameRecord list \<Rightarrow> session \<Rightarrow> bool" where
  "replaying h st \<longleftrightarrow> session_ok st \<and> sx_up st \<and> sx_late st = [] \<and> sx_staged st = h"

definition replayWork :: "session \<Rightarrow> nat" where
  "replayWork st = 2 * length (sn_resume (sx_sender st)) + length (sx_wire st)"

lemma replay_step_session: "replay_step st st' \<Longrightarrow> replaying h st \<Longrightarrow> session_step st st'"
  by (erule replay_step.cases) (auto simp: replaying_def intro: session_step.intros)

lemma replay_step_replaying: "replaying h st \<Longrightarrow> replay_step st st' \<Longrightarrow> replaying h st'"
  using session_step_ok [OF replay_step_session] by (auto simp: replaying_def elim!: replay_step.cases)

lemma sd_resume_shrinks:
  "sn_resume s \<noteq> [] \<Longrightarrow> sd_resume s = (out, s') \<Longrightarrow> length (sn_resume s) = Suc (length (sn_resume s')) \<and> length out \<le> 1"
  by (auto simp: sd_resume_def Let_def split: list.splits if_splits)

lemma replay_step_work: "replay_step st st' \<Longrightarrow> replayWork st' < replayWork st"
  by (induction rule: replay_step.induct) (auto simp: replayWork_def dest!: sd_resume_shrinks)

interpretation rp: draining replay_step "replaying h" replayWork for h
  by unfold_locales (auto intro: replay_step_replaying replay_step_work)

lemma replay_run_session: "(replay_step ^^ n) st st' \<Longrightarrow> replaying h st \<Longrightarrow> session_step\<^sup>*\<^sup>* st st'"
proof (induction n arbitrary: st')
  case (Suc n)
  then obtain u where u: "(replay_step ^^ n) st u" "replay_step u st'" by auto
  then show ?case using Suc.IH Suc.prems(2) rp.run replay_step_session by (meson rtranclp.rtrancl_into_rtrancl)
qed simp

text \<open>When nothing is left to do, everything has been delivered, and acknowledging it empties the buffer.\<close>

lemma replay_finished:
  assumes r: "replaying h st" and over: "\<nexists>st'. replay_step st st'"
  shows "rx_log (sx_receiver st) = h" "snapshotFrom (sn_replay (sx_sender (acknowledged st))) 0 = []"
proof -
  have ok: "session_ok st" and up: "sx_up st" and h: "sx_staged st = h" using r by (simp_all add: replaying_def)
  note d = session_okD [OF ok]
  have resume: "sn_resume (sx_sender st) = []"
    using over rp_resume [of st] by (metis prod.exhaust)
  have wire: "sx_wire st = []"
  proof (cases "sx_wire st")
    case (Cons f fs)
    then show ?thesis using over step_recv_ok [OF ok Cons] rp_recv [OF Cons] by blast
  qed
  let ?x = "rx_last (sx_receiver st)"
  have "length h \<le> max (unat (sn_last (sx_sender st))) (unat (rb_lastAcked (sn_replay (sx_sender st))))"
    using d(14) [OF up] resume h by force
  moreover have "max (unat (sn_last (sx_sender st))) (unat (rb_lastAcked (sn_replay (sx_sender st)))) \<le> unat ?x"
    using d(13) [OF up] unfolding wire top_seq.simps .
  ultimately have all: "length h \<le> unat ?x" by (rule order_trans)
  then show "rx_log (sx_receiver st) = h" using d(7) h by simp
  have "kept (sn_replay (sx_sender (acknowledged st))) = []"
    using replay_ack_spec(3) [OF d(1,2,4), of ?x] all h by (simp add: acknowledged_def sd_ack_def unat_max Let_def)
  with rq.after_contents [OF session_okD(1) [OF session_steps_ok [OF acknowledged_run ok]], of 0]
  show "snapshotFrom (sn_replay (sx_sender (acknowledged st))) 0 = []" by simp
qed

section \<open>A sample run\<close>

text \<open>Steps as functions, for concrete runs: attach with the last number reported, write a live frame,
  receive one frame of the current transport, and lose the transport.\<close>

definition do_attach :: "session \<Rightarrow> session" where
  "do_attach st = st\<lparr>sx_sender := sd_begin (last (sx_reports st)) (sx_sender st), sx_up := True,
     sx_late := sx_late st @ [sx_wire st], sx_wire := []\<rparr>"

definition do_skip :: "session \<Rightarrow> session" where
  "do_skip st = st\<lparr>sx_late := tl (sx_late st)\<rparr>"

definition do_live :: "outboundFrame \<Rightarrow> session \<Rightarrow> session" where
  "do_live frame st = st\<lparr>sx_sender := snd (sd_live frame (sx_sender st)),
     sx_wire := sx_wire st @ fst (sd_live frame (sx_sender st)),
     sx_staged := sx_staged st @ newly (fst (sd_stage frame (sx_sender st)))\<rparr>"

definition do_recv :: "session \<Rightarrow> session" where
  "do_recv st =
     (case sx_wire st of
        [] \<Rightarrow> st
      | f # fs \<Rightarrow> (case rx_data f (sx_receiver st) of Inr x \<Rightarrow> st\<lparr>sx_wire := fs, sx_receiver := x\<rparr> | Inl e \<Rightarrow> st))"

definition do_down :: "session \<Rightarrow> session" where
  "do_down st = st\<lparr>sx_sender := (sx_sender st)\<lparr>sn_last := 0, sn_resume := []\<rparr>, sx_up := False\<rparr>"

lemma do_attach_run: "session_step\<^sup>*\<^sup>* a st \<Longrightarrow> sx_reports st \<noteq> [] \<Longrightarrow> session_step\<^sup>*\<^sup>* a (do_attach st)"
  unfolding do_attach_def by (erule rtranclp.rtrancl_into_rtrancl) (rule st_attach, simp)

lemma do_skip_run: "session_step\<^sup>*\<^sup>* a st \<Longrightarrow> session_step\<^sup>*\<^sup>* a (do_skip st)"
proof (cases "sx_late st")
  case Nil
  then have "do_skip st = st" by (cases st) (simp add: do_skip_def)
  then show "session_step\<^sup>*\<^sup>* a st \<Longrightarrow> ?thesis" by simp
qed (auto simp: do_skip_def intro: rtranclp.rtrancl_into_rtrancl st_skip)

lemma do_live_run:
  assumes "session_step\<^sup>*\<^sup>* a st" "sx_up st" "sn_resume (sx_sender st) = []" "payload_fits frame"
  shows "session_step\<^sup>*\<^sup>* a (do_live frame st)"
  unfolding do_live_def
  by (rule rtranclp.rtrancl_into_rtrancl [OF assms(1)], rule st_live [OF assms(2-4)])
     (rule prod.collapse [symmetric])+

lemma do_recv_run: "session_step\<^sup>*\<^sup>* a st \<Longrightarrow> sx_late st = [] \<Longrightarrow> session_step\<^sup>*\<^sup>* a (do_recv st)"
proof (cases "sx_wire st")
  case (Cons f fs)
  assume "session_step\<^sup>*\<^sup>* a st" and l: "sx_late st = []"
  then show ?thesis
    by (cases "rx_data f (sx_receiver st)")
       (auto simp: do_recv_def Cons intro: rtranclp.rtrancl_into_rtrancl st_recv [OF l Cons])
qed (simp add: do_recv_def)

lemma do_down_run: "session_step\<^sup>*\<^sup>* a st \<Longrightarrow> session_step\<^sup>*\<^sup>* a (do_down st)"
  unfolding do_down_def by (erule rtranclp.rtrancl_into_rtrancl) (rule st_down)

lemmas do_steps = do_attach_run do_skip_run do_live_run do_recv_run do_down_run

definition sampleFrame :: "byte \<Rightarrow> outboundFrame" where
  "sampleFrame b = \<lparr>of_streamID = 1, of_seq = 0, of_flags = 0, of_payload = [b, b + 1], of_queued = None,
     of_closing = None\<rparr>"

text \<open>Two frames sent, the first received, the transport lost with the second in flight.\<close>

definition sampleUp :: session where
  "sampleUp = do_skip (do_attach (initSession protocolVersionV3 1000))"

definition sampleLost :: session where
  "sampleLost = do_down (do_recv (do_live (sampleFrame 7) (do_live (sampleFrame 5) sampleUp)))"

lemma sampleLost_run: "session_step\<^sup>*\<^sup>* (initSession protocolVersionV3 1000) sampleLost"
proof -
  have fit: "payload_fits (sampleFrame b)" for b by (simp add: payload_fits_def sampleFrame_def)
  have up: "session_step\<^sup>*\<^sup>* (initSession protocolVersionV3 1000) sampleUp"
    unfolding sampleUp_def by (intro do_steps) (simp_all add: initSession_def)
  have "sx_up sampleUp" "sn_resume (sx_sender sampleUp) = []" "sx_up (do_live (sampleFrame 5) sampleUp)"
    "sn_resume (sx_sender (do_live (sampleFrame 5) sampleUp)) = []"
    "sx_late (do_live (sampleFrame 7) (do_live (sampleFrame 5) sampleUp)) = []"
    by code_simp+
  then show ?thesis
    unfolding sampleLost_def by (intro do_steps fit up)
qed

section \<open>Properties\<close>

text \<open>C2. Exactly-once delivery in order. From a new session, whatever the interleaving of sends,
  replays, losses of the transport, reconnects, late frames of an old transport, duplicated frames
  and lost or late acknowledgements, the frames delivered to the receiver's streams are the first
  frames that were staged, in the order they were staged, each once; and the receiver never sees a
  sequence gap or a missing number, so it never closes the connection for one.\<close>

theorem exactly_once_in_order:
  assumes "0 < maxBytes" "maxBytes < 2 ^ 62"
    and "session_step\<^sup>*\<^sup>* (initSession version maxBytes) st"
  shows "(\<exists>rest. sx_staged st = rx_log (sx_receiver st) @ rest) \<and>
         distinct (rx_log (sx_receiver st)) \<and> \<not> sx_failed st"
proof -
  have ok: "session_ok st" by (rule session_steps_ok [OF assms(3) initSession_ok [OF assms(1,2)]])
  note d = session_okD [OF ok]
  have "sx_staged st = rx_log (sx_receiver st) @ drop (unat (rx_last (sx_receiver st))) (sx_staged st)"
    using d(7) by simp
  moreover have "distinct (sx_staged st)"
    using d(2) by (metis distinct_map distinct_upt numbered_def)
  then have "distinct (rx_log (sx_receiver st))" using d(7) by simp
  ultimately show ?thesis using d(12) by blast
qed

theorem exactly_once_in_order_witness:
  "(\<exists>rest. sx_staged sampleLost = rx_log (sx_receiver sampleLost) @ rest) \<and>
   distinct (rx_log (sx_receiver sampleLost)) \<and> \<not> sx_failed sampleLost \<and>
   map f_payload (rx_log (sx_receiver sampleLost)) = [[5, 6]] \<and> length (sx_staged sampleLost) = 2"
proof -
  have "map f_payload (rx_log (sx_receiver sampleLost)) = [[5, 6]]" "length (sx_staged sampleLost) = 2"
    by code_simp+
  with exactly_once_in_order [OF _ _ sampleLost_run] show ?thesis by simp
qed

text \<open>C3. Nothing is lost: in every reachable state each staged frame has been delivered or is still
  held by the sender, which replays it after an attach with any of the numbers that the receiver has reported; and what the
  sender has dropped as acknowledged was delivered.\<close>

theorem nothing_lost:
  assumes "0 < maxBytes" "maxBytes < 2 ^ 62"
    and "session_step\<^sup>*\<^sup>* (initSession version maxBytes) st" and "f \<in> set (sx_staged st)"
    and "n \<in> set (sx_reports st)"
  shows "(f \<in> set (rx_log (sx_receiver st)) \<or>
          f \<in> set (sn_resume (sd_begin n (sx_sender st)))) \<and>
         (f \<notin> set (kept (sn_replay (sx_sender st))) \<longrightarrow> f \<in> set (rx_log (sx_receiver st)))"
proof -
  have ok: "session_ok st" by (rule session_steps_ok [OF assms(3) initSession_ok [OF assms(1,2)]])
  note d = session_okD [OF ok]
  let ?s = "sx_sender st" and ?l = "min n (sn_next (sx_sender st))" and ?h = "sx_staged st"
  note r = replay_ack_spec [OF d(1,2,4), of ?l]
  have "sn_resume (sd_begin n ?s) = drop (unat (max (rb_lastAcked (sn_replay ?s)) ?l)) ?h"
    using rq.after_confirm [OF d(1), of ?l] r(3) by (simp add: sd_begin_def Let_def)
  moreover have "max (rb_lastAcked (sn_replay ?s)) ?l \<le> rx_last (sx_receiver st)"
    using d(5,10) assms(5) by (auto simp: min_def)
  ultimately have "set (drop (unat (rx_last (sx_receiver st))) ?h) \<subseteq>
      set (sn_resume (sd_begin n ?s))"
    by (simp add: word_le_nat_alt set_drop_subset_set_drop)
  moreover have "set (drop (unat (rx_last (sx_receiver st))) ?h) \<subseteq> set (kept (sn_replay ?s))"
    using d(4,5) by (simp add: word_le_nat_alt set_drop_subset_set_drop)
  moreover have "f \<in> set (rx_log (sx_receiver st)) \<or> f \<in> set (drop (unat (rx_last (sx_receiver st))) ?h)"
    using assms(4) d(7) by (metis Un_iff append_take_drop_id set_append)
  ultimately show ?thesis by blast
qed

theorem nothing_lost_witness:
  "map f_payload (sn_resume (sd_begin 0 (sx_sender sampleLost))) = [[5, 6], [7, 8]] \<and>
   sx_staged sampleLost ! 1 \<in> set (sn_resume (sd_begin 0 (sx_sender sampleLost)))"
proof -
  have "length (sx_staged sampleLost) = 2" "f_payload (sx_staged sampleLost ! 1) = [7, 8]"
    "map f_payload (rx_log (sx_receiver sampleLost)) = [[5, 6]]"
    "map f_payload (sn_resume (sd_begin 0 (sx_sender sampleLost))) = [[5, 6], [7, 8]]"
    by code_simp+
  moreover from this have "sx_staged sampleLost ! 1 \<notin> set (rx_log (sx_receiver sampleLost))" by auto
  moreover have "0 \<in> set (sx_reports sampleLost)" by code_simp
  ultimately show ?thesis
    using nothing_lost [OF _ _ sampleLost_run, of "sx_staged sampleLost ! 1" 0] by simp
qed

text \<open>C4. One reconnect completes the delivery. In every reachable state let the transport be replaced once, beginning with the number
  the receiver reports, and nothing new be sent. Then, however the replay of frames and the reading of frames interleave, it comes to an end
  after at most two steps for each frame replayed; where nothing is left to replay or to read, everything staged has been delivered; and one
  acknowledgement then empties the replay buffer. No second reconnect is needed.\<close>

theorem delivery_completes:
  assumes "0 < maxBytes" "maxBytes < 2 ^ 62"
    and "session_step\<^sup>*\<^sup>* (initSession version maxBytes) st"
  shows "session_step\<^sup>*\<^sup>* st (reattached st) \<and>
    (\<exists>n st'. (replay_step ^^ n) (reattached st) st' \<and> (\<nexists>st''. replay_step st' st'')) \<and>
    (\<forall>n st'. (replay_step ^^ n) (reattached st) st' \<longrightarrow>
       session_step\<^sup>*\<^sup>* (reattached st) st' \<and> n \<le> 2 * length (sn_resume (sx_sender (reattached st))) \<and>
       ((\<nexists>st''. replay_step st' st'') \<longrightarrow>
          rx_log (sx_receiver st') = sx_staged st \<and> session_step\<^sup>*\<^sup>* st' (acknowledged st') \<and>
          snapshotFrom (sn_replay (sx_sender (acknowledged st'))) 0 = []))"
proof -
  have "session_ok st" by (rule session_steps_ok [OF assms(3) initSession_ok [OF assms(1,2)]])
  then have "session_ok (reattached st)" by (rule session_steps_ok [OF reattached_run])
  then have r: "replaying (sx_staged st) (reattached st)" by (simp add: replaying_def reattached_def Let_def)
  have w: "replayWork (reattached st) = 2 * length (sn_resume (sx_sender (reattached st)))"
    by (simp add: replayWork_def reattached_def Let_def)
  have run: "session_step\<^sup>*\<^sup>* (reattached st) st'" "n \<le> replayWork (reattached st)" "replaying (sx_staged st) st'"
    if "(replay_step ^^ n) (reattached st) st'" for n st'
    using replay_run_session [OF that r] rp.run [OF that r] by simp_all
  show ?thesis
    using reattached_run rp.ends [OF r] run replay_finished acknowledged_run unfolding w by blast
qed

theorem delivery_completes_witness:
  "\<exists>n st'. n \<le> 4 \<and> (replay_step ^^ n) (reattached sampleLost) st' \<and> map f_payload (rx_log (sx_receiver st')) = [[5, 6], [7, 8]] \<and>
     snapshotFrom (sn_replay (sx_sender (acknowledged st'))) 0 = []"
proof -
  have p: "map f_payload (sx_staged sampleLost) = [[5, 6], [7, 8]]"
    "length (sn_resume (sx_sender (reattached sampleLost))) \<le> 2" by code_simp+
  have b: "(0 :: int) < 1000" "(1000 :: int) < 2 ^ 62" by simp_all
  note D = delivery_completes [OF b sampleLost_run]
  obtain n st' where st': "(replay_step ^^ n) (reattached sampleLost) st'" "\<nexists>st''. replay_step st' st''" using D by blast
  with D have "n \<le> 2 * length (sn_resume (sx_sender (reattached sampleLost)))"
    "rx_log (sx_receiver st') = sx_staged sampleLost" "snapshotFrom (sn_replay (sx_sender (acknowledged st'))) 0 = []" by blast+
  with p st'(1) show ?thesis by (intro exI [of _ n] exI [of _ st']) simp
qed

end
