(* ===== verification/Writer_Loop.thy ===== *)
theory Writer_Loop
  imports Delivery
begin

text \<open>
  The whole writer goroutine of a recoverable connection (\<^verbatim>\<open>recoveryWriterLoop\<close> of
  \<^verbatim>\<open>src/recovery_runtime.go\<close>) as one step function, and its simulation by the sending side of the session
  of \<open>Delivery\<close>: what is proved there of every session holds of the running writer.
\<close>

section \<open>The loop\<close>

text \<open>Where the goroutine is: at the head of \<^verbatim>\<open>recoveryWriterLoop\<close>, in the loop of \<^verbatim>\<open>writeTransport\<close> for a
  generation, or returned.\<close>

datatype writerPhase = LoopHead | Writing u64 | Returned

text \<open>One round; \<open>nets\<close> gives the byte connection of a transport. No outcome means that the goroutine waits.\<close>

definition recoveryWriterLoop ::
    "(nat \<Rightarrow> net_conn) \<Rightarrow> int \<Rightarrow> int \<Rightarrow> writerPhase \<times> u64 \<times> ('m, 'b, 'h) writerState \<Rightarrow>
     (writerPhase \<times> u64 \<times> ('m, 'b, 'h) writerState) outcomes" where
  "recoveryWriterLoop nets now now' s =
     (case s of (phase, lastGen, ws) \<Rightarrow>
        case phase of
          LoopHead \<Rightarrow>
            (case attachedTransport lastGen (snd ws) of
               Some (conn, gen, resumeSeq) \<Rightarrow> [(Writing gen, gen, beginTransport conn (nets conn) resumeSeq ws)]
             | None \<Rightarrow>
                 map (\<lambda>(err, ws'). (if err = Some errWriterDone then Returned else LoopHead, lastGen, ws'))
                   (stageWhileDetached now ws))
        | Writing gen \<Rightarrow>
            if \<not> transportActive gen (snd ws) then [(LoopHead, lastGen, ws)]
            else map (\<lambda>(err, ws').
                   (case err of None \<Rightarrow> Writing gen | Some errTransportLost \<Rightarrow> LoopHead | Some errWriterDone \<Rightarrow> Returned,
                    lastGen, ws'))
                 (writeTransportStep now now' ws)
        | Returned \<Rightarrow> [])"

fun isWriting :: "writerPhase \<Rightarrow> bool" where
  "isWriting (Writing gen) \<longleftrightarrow> True"
| "isWriting p \<longleftrightarrow> False"

section \<open>What the writer puts on a transport\<close>

datatype sent = Data frameRecord | Control bytes

fun sentBytes :: "('m, 'b, 'h) Connection \<Rightarrow> sent \<Rightarrow> bytes" where
  "sentBytes c (Data r) = record_bytes c r"
| "sentBytes c (Control p) = frame_layout (cfg_version (c_config c)) (controlStreamID, 0, 0, p)"

fun sent_ok :: "('m, 'b, 'h) Connection \<Rightarrow> sent \<Rightarrow> bool" where
  "sent_ok c (Data r) \<longleftrightarrow> record_ok c r"
| "sent_ok c (Control p) \<longleftrightarrow> frame_ok (c_config c) (controlStreamID, 0, 0, p)"

definition dataOf :: "sent list \<Rightarrow> frameRecord list" where
  "dataOf es = concat (map (\<lambda>e. case e of Data r \<Rightarrow> [r] | Control p \<Rightarrow> []) es)"

lemma dataOf_simps [simp]:
  "dataOf [] = []" "dataOf (Data r # es) = r # dataOf es" "dataOf (Control p # es) = dataOf es"
  "dataOf (es @ fs) = dataOf es @ dataOf fs" "dataOf (map Data rs) = rs"
  by (simp_all add: dataOf_def) (induction rs; simp)

text \<open>The payloads of control frames, and what makes a frame one that the writer can send: its payload is of a size
  that memory holds, it is not a control frame, and it is within the limits of the protocol.\<close>

definition known_control :: "bytes \<Rightarrow> bool" where
  "known_control p \<longleftrightarrow> (\<exists>n. p = buildAckControlPayload n) \<or> p = buildPingControlPayload \<or> p = buildCloseControlPayload"

definition frame_fits :: "'c connConfig \<Rightarrow> outboundFrame \<Rightarrow> bool" where
  "frame_fits cfg frame \<longleftrightarrow>
     payload_fits frame \<and> of_streamID frame \<noteq> controlStreamID \<and>
     frame_ok cfg (of_streamID frame, 0, of_flags frame, of_payload frame)"

definition record_fits :: "'c connConfig \<Rightarrow> frameRecord \<Rightarrow> bool" where
  "record_fits cfg r \<longleftrightarrow>
     f_streamID r \<noteq> controlStreamID \<and> frame_ok cfg (f_streamID r, 0, f_flags r, f_payload r)"

text \<open>The writer's buffer grew by exactly these frames, or by a beginning of them when a write failed.\<close>

definition emits :: "bool \<Rightarrow> ('m, 'b, 'h) writerState \<Rightarrow> sent list \<Rightarrow> ('m, 'b, 'h) writerState \<Rightarrow> bool" where
  "emits whole ws es ws' \<longleftrightarrow>
     c_config (snd ws') = c_config (snd ws) \<and> (\<forall>p. Control p \<in> set es \<longrightarrow> known_control p) \<and>
     ((\<forall>e \<in> set es. sent_ok (snd ws) e) \<longrightarrow>
        (\<exists>k. bw_taken (w_bw (fst ws')) = bw_taken (w_bw (fst ws)) @ take k (concat (map (sentBytes (snd ws)) es)) \<and>
             (whole \<longrightarrow> length (concat (map (sentBytes (snd ws)) es)) \<le> k)))"

lemma emits_whole:
  assumes "c_config (snd ws') = c_config (snd ws)" "\<And>p. Control p \<in> set es \<Longrightarrow> known_control p"
    "\<forall>e \<in> set es. sent_ok (snd ws) e \<Longrightarrow>
       bw_taken (w_bw (fst ws')) = bw_taken (w_bw (fst ws)) @ concat (map (sentBytes (snd ws)) es)"
  shows "emits whole ws es ws'"
  using assms unfolding emits_def by (metis order_refl take_all)

lemma emits_part:
  assumes "c_config (snd ws') = c_config (snd ws)" "\<And>p. Control p \<in> set es \<Longrightarrow> known_control p"
    "\<forall>e \<in> set es. sent_ok (snd ws) e \<Longrightarrow>
       \<exists>k. bw_taken (w_bw (fst ws')) = bw_taken (w_bw (fst ws)) @ take k (concat (map (sentBytes (snd ws)) es))"
  shows "emits False ws es ws'"
  using assms by (simp add: emits_def)

lemma sent_config:
  assumes "c_config c = c_config d"
  shows "sentBytes c = sentBytes d" "sent_ok c = sent_ok d"
proof -
  show "sentBytes c = sentBytes d"
  proof
    fix e show "sentBytes c e = sentBytes d e" using assms by (cases e) (simp_all add: record_bytes_def)
  qed
  show "sent_ok c = sent_ok d"
  proof
    fix e show "sent_ok c e = sent_ok d e" using assms by (cases e) (simp_all add: record_ok_def)
  qed
qed

lemma emits_trans:
  assumes "emits True ws es ws'" "emits whole ws' fs ws''"
  shows "emits whole ws (es @ fs) ws''"
proof -
  have c: "c_config (snd ws') = c_config (snd ws)" using assms(1) by (simp add: emits_def)
  let ?b = "\<lambda>es. concat (map (sentBytes (snd ws)) es)"
  have "\<exists>k. bw_taken (w_bw (fst ws'')) = bw_taken (w_bw (fst ws)) @ take k (?b (es @ fs)) \<and>
      (whole \<longrightarrow> length (?b (es @ fs)) \<le> k)" if ok: "\<forall>e \<in> set (es @ fs). sent_ok (snd ws) e"
  proof -
    have "bw_taken (w_bw (fst ws')) = bw_taken (w_bw (fst ws)) @ ?b es"
      using assms(1) ok unfolding emits_def by (metis Un_iff set_append take_all)
    moreover obtain k where "bw_taken (w_bw (fst ws'')) = bw_taken (w_bw (fst ws')) @ take k (?b fs)"
      "whole \<longrightarrow> length (?b fs) \<le> k"
      using assms(2) ok sent_config [OF c] by (auto simp: emits_def)
    ultimately show ?thesis by (intro exI [of _ "length (?b es) + k"]) simp
  qed
  with assms show ?thesis by (auto simp: emits_def)
qed

lemma emits_nothing:
  "c_config (snd ws') = c_config (snd ws) \<Longrightarrow> bw_taken (w_bw (fst ws')) = bw_taken (w_bw (fst ws)) \<Longrightarrow> emits whole ws [] ws'"
  by (simp add: emits_def)

section \<open>Simulation\<close>

text \<open>The frames that wait to be sent.\<close>

definition queue_fits :: "'c connConfig \<Rightarrow> ('m, 'b, 'h) writerState \<Rightarrow> bool" where
  "queue_fits cfg ws \<longleftrightarrow>
     list_all (frame_fits cfg) (ch_buf (c_outbound (snd ws))) \<and> pred_option (frame_fits cfg) (w_held (fst ws))"

text \<open>The session \<open>st\<close> goes on to \<open>st'\<close>, whose sender is that of the writer; the receiver does nothing, no
  acknowledgement is taken in, and the frames staged are such as can be sent.\<close>

definition follows :: "'c connConfig \<Rightarrow> session \<Rightarrow> session \<Rightarrow> ('m, 'b, 'h) writerState \<Rightarrow> bool" where
  "follows cfg st st' ws' \<longleftrightarrow>
     session_step\<^sup>*\<^sup>* st st' \<and> sx_sender st' = sender_of ws' \<and> sx_receiver st' = sx_receiver st \<and>
     sx_late st' = sx_late st \<and> sx_acks st' = sx_acks st \<and> sx_reports st' = sx_reports st \<and>
     rb_lastAcked (sn_replay (sx_sender st')) = rb_lastAcked (sn_replay (sx_sender st)) \<and>
     (\<exists>rs. sx_staged st' = sx_staged st @ rs \<and> (\<forall>r \<in> set rs. record_fits cfg r))"

text \<open>What one call of the writer on a transport may do: go on, and then the session sends the frames that were added to
  the buffer, or end with the transport or the goroutine, and then the transport of the session is down
  and a beginning of these frames was added.\<close>

definition call_ok :: "session \<Rightarrow> ('m, 'b, 'h) writerState \<Rightarrow> writerErr option \<times> ('m, 'b, 'h) writerState \<Rightarrow> bool" where
  "call_ok st ws res \<longleftrightarrow>
     (case res of (err, ws') \<Rightarrow>
        has_recovery ws' \<and> queue_fits (c_config (snd ws)) ws' \<and>
        (\<exists>st' es. follows (c_config (snd ws)) st st' ws' \<and> (sx_up st' \<longleftrightarrow> err = None) \<and>
           sx_wire st' = sx_wire st @ dataOf es \<and> emits (err = None) ws es ws'))"

lemma call_okI:
  assumes "has_recovery ws'" "queue_fits (c_config (snd ws)) ws'" "follows (c_config (snd ws)) st st' ws'"
    "sx_up st' \<longleftrightarrow> err = None" "sx_wire st' = sx_wire st @ dataOf es" "emits (err = None) ws es ws'"
  shows "call_ok st ws (err, ws')"
  using assms by (auto simp: call_ok_def)

lemma follows_trans: "follows cfg st st' ws' \<Longrightarrow> follows cfg st' st'' ws'' \<Longrightarrow> follows cfg st st'' ws''"
  by (fastforce simp: follows_def)

lemma follows_refl: "sx_sender st = sender_of ws' \<Longrightarrow> follows cfg st st ws'"
  by (simp add: follows_def)

text \<open>The transport can go down at any moment; the position on it is then meaningless.\<close>

lemma follows_down:
  assumes "sn_replay (sender_of ws') = sn_replay (sx_sender st)" and "sn_next (sender_of ws') = sn_next (sx_sender st)"
  shows "\<exists>st'. follows cfg st st' ws' \<and> \<not> sx_up st' \<and> sx_wire st' = sx_wire st"
proof -
  let ?s = "(sx_sender st)\<lparr>sn_last := sn_last (sender_of ws'), sn_resume := sn_resume (sender_of ws')\<rparr>"
  let ?st = "st\<lparr>sx_sender := ?s, sx_up := False\<rparr>"
  have "session_step st ?st" by (rule st_down)
  moreover have "?s = sender_of ws'" using assms by (cases "sender_of ws'") simp
  ultimately show ?thesis by (intro exI [of _ ?st]) (simp add: follows_def assms(1))
qed

text \<open>What staging does to the record and to the acknowledged number.\<close>

lemma sd_stage_record:
  assumes "sd_stage frame s = (rec, s')" and "frame_fits cfg frame"
  shows "rb_lastAcked (sn_replay s') = rb_lastAcked (sn_replay s)" "\<forall>r \<in> set (newly rec). record_fits cfg r"
  using assms
  by (auto simp: sd_stage_def stage_def Let_def newly_def record_fits_def frame_fits_def
      split: prod.split_asm option.split_asm if_split_asm)

lemma sd_live_stage:
  "sn_replay (snd (sd_live frame s)) = sn_replay (snd (sd_stage frame s))"
  "sn_next (snd (sd_live frame s)) = sn_next (snd (sd_stage frame s))"
  by (auto simp: sd_live_def split: prod.split option.split)

lemma releaseStream_outbound [simp]: "c_outbound (releaseStream ref c) = c_outbound c"
  by (simp add: releaseStream_def stream_close_def callCloseStream_def countStreamClosed_def updStream_def Let_def
      split: prod.splits)

lemma releaseStreams_outbound [simp]: "c_outbound (releaseStreams xs c) = c_outbound c"
  by (induction xs c rule: releaseStreams.induct) simp_all

lemma markClosed_outbound [simp]: "c_outbound (markClosed c) = c_outbound c"
  by (simp add: markClosed_def closeAllStreams_def onClosed_def closeTransport_def closeNet_def signalSend_def Let_def
      split: option.split)

lemma outbound_kept [simp]: "c_outbound (handleRecoveryTransportError now conn c) = c_outbound c"
  by (auto simp: handleRecoveryTransportError_def detachTransport_def onDetached_def scheduleExpiry_def closeNet_def
      signalSend_def Let_def split: option.split recoveryRole.split)

lemma sendVerdict_outbound [simp]: "c_outbound (sendVerdict q e c) = c_outbound c"
  by (simp add: sendVerdict_def split: option.split)

text \<open>The queue: only taking a frame and holding one change it.\<close>

lemma w_write_queue:
  "w_write now i q fl p kind failure ws = (e, ws') \<Longrightarrow>
     c_outbound (snd ws') = c_outbound (snd ws) \<and> w_held (fst ws') = w_held (fst ws)"
  by (cases ws) (auto simp: w_write_def split: prod.split_asm option.split_asm)

lemma w_stage_queue:
  "queue_fits cfg ws \<Longrightarrow> frame_fits cfg frame \<Longrightarrow> w_stage now frame ws = (rec, ws') \<Longrightarrow> queue_fits cfg ws'"
  by (cases ws) (auto simp: w_stage_def queue_fits_def Let_def split: option.split_asm prod.split_asm if_split_asm)

lemma writeLive_queue:
  assumes "queue_fits cfg ws" and "frame_fits cfg frame" and "writeLive now frame ws = (e, ws')"
  shows "queue_fits cfg ws'"
proof -
  obtain rec ws1 where s: "w_stage now frame ws = (rec, ws1)" by (cases "w_stage now frame ws")
  note q = w_stage_queue [OF assms(1,2) s]
  show ?thesis
  proof (cases "rec = None \<or> f_seq (the rec) \<le> w_lastSentSeq (fst ws1)")
    case True
    then show ?thesis using assms(3) s q by (auto simp: writeLive_def split: option.split_asm)
  next
    case False
    then obtain x where x: "rec = Some x" "\<not> f_seq x \<le> w_lastSentSeq (fst ws1)" by auto
    obtain e2 ws2 where W: "w_write now (f_streamID x) (f_seq x) (f_flags x) (f_payload x) ''live''
        DebugFailureRecoveryLiveWrite ws1 = (e2, ws2)" by (metis prod.exhaust)
    have "queue_fits cfg ws2" using w_write_queue [OF W] q by (simp add: queue_fits_def)
    then show ?thesis using assms(3) s x W
      by (cases ws2; cases e2) (auto simp: writeLive_def queue_fits_def)
  qed
qed

lemma writeResume_queue:
  assumes "writeResume now (w, c) = (e, ws')"
  shows "c_outbound (snd ws') = c_outbound c \<and> w_held (fst ws') = w_held w"
proof (cases "w_resume w = [] \<or> c_recovery c = None")
  case True
  then show ?thesis using assms by (auto simp: writeResume_def split: list.split_asm)
next
  case False
  then obtain f rest r where f: "w_resume w = f # rest" "c_recovery c = Some r" by (auto simp: neq_Nil_conv)
  obtain e2 ws2 where W: "w_write now (f_streamID f) (f_seq f) (f_flags f) (f_payload f) ''resume''
      DebugFailureRecoveryResumeWrite (w\<lparr>w_resume := rest\<rparr>, c\<lparr>c_recovery := Some (r\<lparr>r_resumeDepth := int (length rest)\<rparr>)\<rparr>) = (e2, ws2)"
    by (metis prod.exhaust)
  show ?thesis
    using assms f W w_write_queue [OF W]
    by (cases ws2; cases e2) (auto simp: writeResume_def Let_def split: if_split_asm)
qed

section \<open>The calls\<close>

text \<open>The session stands for the writer on a transport.\<close>

definition abs_up :: "session \<Rightarrow> ('m, 'b, 'h) writerState \<Rightarrow> bool" where
  "abs_up st ws \<longleftrightarrow> sx_up st \<and> sx_sender st = sender_of ws \<and> has_recovery ws \<and> queue_fits (c_config (snd ws)) ws"

lemma call_control:
  assumes "abs_up st ws" and "known_control p"
  shows "call_ok st ws (w_write now controlStreamID 0 0 p kind failure ws)"
proof -
  obtain w c r where ws: "ws = (w, c)" "c_recovery c = Some r" using assms by (cases ws) (auto simp: abs_up_def has_recovery_def)
  obtain e w' c' where W: "w_write now controlStreamID 0 0 p kind failure (w, c) = (e, (w', c'))" by (metis prod.exhaust)
  note a = w_write_abs [OF ws(2) W]
  have q: "queue_fits (c_config c) (w', c')" using w_write_queue [OF W] assms(1) by (simp add: ws abs_up_def queue_fits_def)
  have "\<exists>st'. follows (c_config c) st st' (w', c') \<and> (sx_up st' \<longleftrightarrow> e = None) \<and> sx_wire st' = sx_wire st"
  proof (cases e)
    case None
    then show ?thesis using assms(1) a(1) follows_refl [of st "(w', c')"] by (auto simp: abs_up_def ws)
  next
    case (Some x)
    then show ?thesis using follows_down [of "(w', c')" st] assms(1) a(1) by (auto simp: abs_up_def ws)
  qed
  then obtain st' where st': "follows (c_config c) st st' (w', c')" "sx_up st' \<longleftrightarrow> e = None" "sx_wire st' = sx_wire st" by blast
  have "emits (e = None) ws [Control p] (w', c')"
    using a(3,5,6) assms(2) by (cases e) (auto simp: ws intro!: emits_whole emits_part)
  then show ?thesis
    using W a(2) q st' by (auto simp: ws has_recovery_def intro!: call_okI [of _ _ _ st' _ "[Control p]"])
qed

lemma call_live:
  assumes "abs_up st ws" and "w_resume (fst ws) = []" and "frame_fits (c_config (snd ws)) frame"
  shows "call_ok st ws (writeLive now frame ws)"
proof -
  obtain w c r where ws: "ws = (w, c)" "c_recovery c = Some r" using assms(1) by (cases ws) (auto simp: abs_up_def has_recovery_def)
  obtain e ws' where L: "writeLive now frame (w, c) = (e, ws')" by (metis prod.exhaust)
  note a = writeLive_abs [OF ws(2) L]
  have q: "queue_fits (c_config c) ws'" using writeLive_queue [of "c_config c", OF _ _ L] assms(1,3) by (simp add: ws abs_up_def)
  have s: "sx_sender st = sender_of (w, c)" "sx_up st" using assms(1) by (simp_all add: abs_up_def ws)
  obtain rec s' out s'' where d: "sd_stage frame (sender_of (w, c)) = (rec, s')" "sd_live frame (sender_of (w, c)) = (out, s'')"
    by (metis prod.exhaust)
  note rec = sd_stage_record [OF d(1), of "c_config c"] and sl = sd_live_stage [of frame "sender_of (w, c)", unfolded d snd_conv]
  let ?st = "st\<lparr>sx_sender := s'', sx_wire := sx_wire st @ out, sx_staged := sx_staged st @ newly rec\<rparr>"
  have "session_step st ?st"
    by (rule st_live) (use s assms d in \<open>simp_all add: sender_of_def ws frame_fits_def\<close>)
  then have run: "follows (c_config c) st ?st wsx" if "s'' = sender_of wsx" for wsx :: "('a, 'b, 'c) writerState"
    using that rec sl(1) s(1) assms(3) by (auto simp: follows_def ws)
  have "\<exists>st'. follows (c_config c) st st' ws' \<and> (sx_up st' \<longleftrightarrow> e = None) \<and> sx_wire st' = sx_wire st @ out"
  proof (cases e)
    case None
    then show ?thesis using run [of ws'] a d s(2) by (intro exI [of _ ?st]) auto
  next
    case (Some x)
    then have "sender_of ws' = s'" using a d by simp
    then obtain st2 where st2: "follows (c_config c) ?st st2 ws'" "\<not> sx_up st2" "sx_wire st2 = sx_wire ?st"
      using follows_down [of ws' ?st "c_config c"] sl by auto
    have "follows (c_config c) st st2 ws'"
      using st2(1) run [of "(w\<lparr>w_lastSentSeq := sn_last s'', w_resume := sn_resume s''\<rparr>,
        c\<lparr>c_recovery := Some (r\<lparr>r_replay := sn_replay s''\<rparr>), c_nextSendSeq := sn_next s''\<rparr>)"]
      by (intro follows_trans [OF _ st2(1)]) (simp add: sender_of_def)
    with st2 Some show ?thesis by auto
  qed
  then obtain st' where st': "follows (c_config c) st st' ws'" "sx_up st' \<longleftrightarrow> e = None" "sx_wire st' = sx_wire st @ out" by blast
  have "emits (e = None) ws (map Data out) ws'"
    using a d by (cases e) (auto simp: ws comp_def intro!: emits_whole emits_part)
  then show ?thesis
    using a L q st' by (auto simp: ws has_recovery_def intro!: call_okI [of _ _ _ st' _ "map Data out"])
qed

lemma call_resume:
  assumes "abs_up st ws" and "w_resume (fst ws) \<noteq> []"
  shows "call_ok st ws (writeResume now ws)"
proof -
  obtain w c r where ws: "ws = (w, c)" "c_recovery c = Some r" using assms(1) by (cases ws) (auto simp: abs_up_def has_recovery_def)
  obtain e ws' where R: "writeResume now (w, c) = (e, ws')" by (metis prod.exhaust)
  have ne: "w_resume w \<noteq> []" using assms(2) by (simp add: ws)
  note a = writeResume_abs [OF ws(2) ne R]
  have q: "queue_fits (c_config c) ws'" using writeResume_queue [OF R] assms(1) by (simp add: ws abs_up_def queue_fits_def)
  have s: "sx_sender st = sender_of (w, c)" "sx_up st" using assms(1) by (simp_all add: abs_up_def ws)
  obtain out s' where d: "sd_resume (sender_of (w, c)) = (out, s')" by (metis prod.exhaust)
  have same: "sn_replay s' = sn_replay (sender_of (w, c))" "sn_next s' = sn_next (sender_of (w, c))"
    using d by (auto simp: sd_resume_def Let_def split: list.split_asm if_split_asm)
  let ?st = "st\<lparr>sx_sender := s', sx_wire := sx_wire st @ out\<rparr>"
  have step: "session_step st ?st" by (rule st_resume) (use s d in simp_all)
  have "\<exists>st'. follows (c_config c) st st' ws' \<and> (sx_up st' \<longleftrightarrow> e = None) \<and> sx_wire st' = sx_wire st @ out"
  proof (cases e)
    case None
    then show ?thesis using step same a d s by (intro exI [of _ ?st]) (auto simp: follows_def)
  next
    case (Some x)
    then have "sn_replay (sender_of ws') = sn_replay s'" "sn_next (sender_of ws') = sn_next s'"
      using a same ws by (auto simp: sender_of_def)
    then obtain st2 where st2: "follows (c_config c) ?st st2 ws'" "\<not> sx_up st2" "sx_wire st2 = sx_wire ?st"
      using follows_down [of ws' ?st "c_config c"] by auto
    then have "follows (c_config c) st st2 ws'"
      using step same s by (auto simp: follows_def intro: converse_rtranclp_into_rtranclp)
    with st2 Some show ?thesis by auto
  qed
  then obtain st' where st': "follows (c_config c) st st' ws'" "sx_up st' \<longleftrightarrow> e = None" "sx_wire st' = sx_wire st @ out" by blast
  have "emits (e = None) ws (map Data out) ws'"
    using a d by (cases e) (auto simp: ws comp_def intro!: emits_whole emits_part)
  then show ?thesis
    using a R q st' by (auto simp: ws has_recovery_def intro!: call_okI [of _ _ _ st' _ "map Data out"])
qed

text \<open>Calls one after the other.\<close>

lemma call_after:
  assumes "follows (c_config (snd ws)) st st1 ws1" and "sx_wire st1 = sx_wire st @ dataOf es" and "emits True ws es ws1"
    and "call_ok st1 ws1 res"
  shows "call_ok st ws res"
proof -
  obtain err ws' where res: "res = (err, ws')" by (cases res)
  have c: "c_config (snd ws1) = c_config (snd ws)" using assms(3) by (simp add: emits_def)
  obtain st' fs where "has_recovery ws'" "queue_fits (c_config (snd ws)) ws'" "follows (c_config (snd ws)) st1 st' ws'"
    "sx_up st' \<longleftrightarrow> err = None" "sx_wire st' = sx_wire st1 @ dataOf fs" "emits (err = None) ws1 fs ws'"
    using assms(4) by (auto simp: call_ok_def res c)
  then show ?thesis
    unfolding res using assms(2) follows_trans [OF assms(1), of st' ws'] emits_trans [OF assms(3), of _ fs ws']
    by (intro call_okI [of _ _ _ st' _ "es @ fs"]) auto
qed

lemma abs_upD: "abs_up st ws \<Longrightarrow> sx_sender st = sender_of ws"
  by (simp add: abs_up_def)

lemma call_same:
  assumes "abs_up st ws" and "sender_of ws1 = sender_of ws" and "emits True ws [] ws1"
  shows "call_ok st ws1 res \<Longrightarrow> call_ok st ws res"
  by (rule call_after [OF follows_refl _ assms(3)]) (use assms(1,2) in \<open>simp_all add: abs_up_def\<close>)

lemma call_none:
  assumes "abs_up st ws" and "abs_up st ws1" and "emits True ws [] ws1"
  shows "call_ok st ws (None, ws1)"
proof -
  have "c_config (snd ws1) = c_config (snd ws)" using assms(3) by (simp add: emits_def)
  then show ?thesis
    using assms follows_refl [of st ws1] by (intro call_okI [of _ _ _ st _ "[]"]) (simp_all add: abs_up_def)
qed

lemma call_down:
  assumes "abs_up st ws" and "sender_of ws1 = sender_of ws" and "has_recovery ws1" and "queue_fits (c_config (snd ws)) ws1"
    and "emits False ws es ws1" and "dataOf es = []"
  shows "call_ok st ws (Some e, ws1)"
proof -
  obtain st' where "follows (c_config (snd ws)) st st' ws1" "\<not> sx_up st'" "sx_wire st' = sx_wire st"
    using follows_down [of ws1 st] assms(1,2) by (auto simp: abs_up_def)
  with assms show ?thesis by (intro call_okI [of _ _ _ st' _ es]) simp_all
qed

lemma flush_cases:
  assumes "abs_up st ws" and "flushPending now ws = (e, ws1)"
  shows "if e = None then abs_up st ws1 \<and> emits True ws [] ws1 \<and> sender_of ws1 = sender_of ws \<and> outboundQueue ws1 = outboundQueue ws
    else call_ok st ws (e, ws1)"
proof -
  obtain w c r where ws: "ws = (w, c)" "c_recovery c = Some r" using assms(1) by (cases ws) (auto simp: abs_up_def has_recovery_def)
  obtain e2 bw where F: "bw_Flush (w_bw w) = (e2, bw)" by (metis prod.exhaust)
  show ?thesis
  proof (cases "bw_buf (w_bw w) = [] \<or> e2 = None")
    case True
    then have "e = None" "fst ws1 = w \<or> fst ws1 = w\<lparr>w_bw := bw\<rparr>" "snd ws1 = c" "bw_taken (w_bw (fst ws1)) = bw_taken (w_bw w)"
      using assms(2) F bw_Flush_taken [of "w_bw w"] by (auto simp: flushPending_def ws split: if_split_asm)
    then show ?thesis
      using assms(1) by (cases ws1) (auto simp: abs_up_def emits_def ws sender_of_def has_recovery_def queue_fits_def outboundQueue_def)
  next
    case False
    then obtain x where x: "e2 = Some x" "bw_buf (w_bw w) \<noteq> []" by auto
    let ?c = "conn_noteFailure now DebugFailureRecoveryLiveWrite (''recovery flush failed: '' @ Error x) c"
    have ws1: "e = Some errTransportLost" "ws1 = (w\<lparr>w_bw := bw\<rparr>, handleRecoveryTransportError now (w_conn w) ?c)"
      using assms(2) F x by (simp_all add: flushPending_def ws)
    obtain t where t: "c_recovery (snd ws1) = Some (r\<lparr>r_expireTimer := t\<rparr>)"
      using handleRecoveryTransportError_recovery [of ?c r now "w_conn w"] ws ws1 by auto
    have "emits False ws [] ws1" using ws ws1 F bw_Flush_taken [of "w_bw w"] by (intro emits_nothing) simp_all
    with t have "call_ok st ws (Some errTransportLost, ws1)"
      using assms(1) ws ws1 by (intro call_down [where es = "[]"]) (auto simp: sender_of_def has_recovery_def queue_fits_def abs_up_def)
    then show ?thesis using ws1 by simp
  qed
qed

lemma finish_same:
  assumes "has_recovery ws" and "queue_fits cfg ws"
  shows "sender_of (finishRecoveryWriter now marker ws) = sender_of ws" "has_recovery (finishRecoveryWriter now marker ws)"
    "queue_fits cfg (finishRecoveryWriter now marker ws)" "c_config (snd (finishRecoveryWriter now marker ws)) = c_config (snd ws)"
  using assms
  by (cases ws; auto simp: finishRecoveryWriter_def sender_of_def has_recovery_def queue_fits_def Let_def
      split: prod.split option.split)+

lemma finish_taken:
  assumes "frame_ok (c_config (snd ws)) (controlStreamID, 0, 0, buildCloseControlPayload)"
  shows "\<exists>k. bw_taken (w_bw (fst (finishRecoveryWriter now marker ws))) = bw_taken (w_bw (fst ws)) @
     take k (sentBytes (snd ws) (Control buildCloseControlPayload))"
proof -
  obtain w c where ws: "ws = (w, c)" by (cases ws)
  obtain e d bw where W: "writeFrameNoFlush bw_Write (c_config c) (c_debug c) (w_bw w) controlStreamID 0 0 buildCloseControlPayload = (e, d, bw)"
    by (metis prod.exhaust)
  have "w_bw (fst (finishRecoveryWriter now marker ws)) = (if e = None then snd (bw_Flush bw) else bw)"
    by (simp add: ws finishRecoveryWriter_def writeFrameTo_def W Let_def split: option.split prod.split)
  then have "bw_taken (w_bw (fst (finishRecoveryWriter now marker ws))) = bw_taken bw" by (simp add: bw_Flush_taken)
  with writeFrame_prefix [OF bufw.io_writer_axioms _ W] assms show ?thesis by (simp add: ws)
qed

lemma call_finish: "abs_up st ws \<Longrightarrow> call_ok st ws (Some errWriterDone, finishRecoveryWriter now marker ws)"
  using finish_same [of ws "c_config (snd ws)" now marker] finish_taken [of ws now marker]
  by (intro call_down [where es = "[Control buildCloseControlPayload]"] emits_part)
    (simp_all add: abs_up_def known_control_def)

lemma pop_same:
  assumes "abs_up st ws" and "outboundQueue ws = frame # rest"
  shows "abs_up st (popOutbound ws)" "emits True ws [] (popOutbound ws)" "sender_of (popOutbound ws) = sender_of ws" "frame_fits (c_config (snd ws)) frame"
    "c_config (snd (popOutbound ws)) = c_config (snd ws)"
    "w_resume (fst (popOutbound ws)) = w_resume (fst ws)" "w_bw (fst (popOutbound ws)) = w_bw (fst ws)"
  using assms
  by (cases ws; auto simp: popOutbound_def abs_up_def sender_of_def has_recovery_def queue_fits_def emits_def outboundQueue_def
      split: if_split_asm)+

lemma w_wait_cases:
  assumes "flushPending now ws = (None, ws1)" and "c_recovery (snd ws1) = Some r" and "res \<in> set (w_wait now ws)"
  obtains (closed) "res = (Some errWriterDone, ws1)" | (notify) "res = (None, (fst ws1, (snd ws1)\<lparr>c_sendNotify := False\<rparr>))"
      | (finish) frame rest marker where "outboundQueue ws1 = frame # rest" "res = (Some errWriterDone, finishRecoveryWriter now marker (popOutbound ws1))"
      | (live) frame rest where "outboundQueue ws1 = frame # rest" "res = writeLive now frame (popOutbound ws1)"
      | (ping) "res = w_write now controlStreamID 0 0 buildPingControlPayload ''ping'' DebugFailureRecoveryPingWrite ws1"
      | (timer) "res = (None, ws1)"
proof (cases "outboundQueue ws1")
  case Nil
  then show ?thesis using assms that by (auto simp: w_wait_def Let_def split: if_split_asm)
next
  case (Cons frame rest)
  then show ?thesis using assms that by (cases "of_closing frame") (auto simp: w_wait_def Let_def split: if_split_asm)
qed

lemma call_wait:
  assumes "abs_up st ws" and "w_resume (fst ws) = []" and "res \<in> set (w_wait now ws)"
  shows "call_ok st ws res"
proof -
  obtain e ws1 where f: "flushPending now ws = (e, ws1)" by (metis prod.exhaust)
  note fc = flush_cases [OF assms(1) f]
  show ?thesis
  proof (cases e)
    case (Some x)
    then show ?thesis using fc assms(3) f by (simp add: w_wait_def)
  next
    case None
    then have u: "abs_up st ws1" "emits True ws [] ws1" "sender_of ws1 = sender_of ws" using fc by simp_all
    obtain r where r: "c_recovery (snd ws1) = Some r" using u(1) by (auto simp: abs_up_def has_recovery_def)
    have rs: "w_resume (fst ws1) = []" using u(3) assms(2) by (cases ws; cases ws1) (simp add: sender_of_def)
    note after = call_same [OF assms(1) u(3,2)]
    have sn: "abs_up st (fst ws1, (snd ws1)\<lparr>c_sendNotify := False\<rparr>)" "emits True ws1 [] (fst ws1, (snd ws1)\<lparr>c_sendNotify := False\<rparr>)"
      using u(1) by (cases ws1; auto simp: abs_up_def sender_of_def has_recovery_def queue_fits_def emits_def)+
    have fn: "flushPending now ws = (None, ws1)" using f None by simp
    from fn r assms(3) show ?thesis
    proof (cases rule: w_wait_cases)
      case closed
      have "c_config (snd ws1) = c_config (snd ws)" "emits False ws [] ws1" using u(2) by (simp_all add: emits_def)
      then show ?thesis using closed call_down [OF assms(1) u(3)] u(1) by (simp add: abs_up_def)
    next
      case notify
      then show ?thesis using after [OF call_none [OF u(1) sn]] by simp
    next
      case finish
      note p = pop_same [OF u(1) finish(1)]
      have "call_ok st (popOutbound ws1) res"
        unfolding finish(2) by (rule call_finish [OF p(1)])
      then show ?thesis by (rule after [OF call_same [OF u(1) p(3,2)]])
    next
      case live
      note p = pop_same [OF u(1) live(1)]
      have "call_ok st (popOutbound ws1) res" unfolding live(2) by (rule call_live [OF p(1)]) (simp_all add: p rs)
      then show ?thesis by (rule after [OF call_same [OF u(1) p(3,2)]])
    next
      case ping
      then show ?thesis using after [OF call_control [OF u(1)]] by (simp add: known_control_def)
    next
      case timer
      then show ?thesis using call_none [OF assms(1) u(1,2)] by simp
    qed
  qed
qed

lemma sd_live_resume [simp]: "sn_resume (snd (sd_live frame s)) = sn_resume s"
  by (auto simp: sd_live_def sd_stage_def split: option.split prod.split)

lemma takePendingControl_replay: "takePendingControl now now' r = (x, r') \<Longrightarrow> r_replay r' = r_replay r"
  by (auto simp: takePendingControl_def Let_def split: if_split_asm prod.split_asm)

lemma takeFrame_same:
  assumes "abs_up st ws" and "takeFrame ws = (f, ws1)"
  shows "abs_up st ws1 \<and> emits True ws [] ws1 \<and> sender_of ws1 = sender_of ws \<and>
    (\<forall>frame. f = Some frame \<longrightarrow> frame_fits (c_config (snd ws1)) frame)"
  using assms
  by (cases ws) (auto simp: takeFrame_def abs_up_def sender_of_def has_recovery_def queue_fits_def emits_def
      split: option.split_asm list.split_asm)

lemma writeLive_resume:
  assumes "has_recovery ws" and "writeLive now frame ws = (None, ws')"
  shows "w_resume (fst ws') = w_resume (fst ws)"
proof -
  obtain r where r: "c_recovery (snd ws) = Some r" using assms(1) by (auto simp: has_recovery_def)
  have "sender_of ws' = snd (sd_live frame (sender_of ws))"
    using writeLive_abs [of "snd ws" r now frame "fst ws" None ws'] r assms(2) by simp
  then have "sn_resume (sender_of ws') = sn_resume (sender_of ws)" by simp
  then show ?thesis by (cases ws; cases ws') (simp add: sender_of_def)
qed

text \<open>With nothing to replay the writer takes a new frame.\<close>

lemma call_fresh:
  assumes "abs_up st ws" and "w_resume (fst ws) = []" and "takeFrame ws = (f, ws2)"
  shows "call_ok st ws (None, ws2) \<and> w_resume (fst ws2) = []"
    and "call_ok st ws (Some errWriterDone, finishRecoveryWriter now marker ws2)"
    and "f = Some frame \<Longrightarrow> writeLive now frame ws2 = (e, ws3) \<Longrightarrow>
      call_ok st ws (e, ws3) \<and> (e = None \<longrightarrow> w_resume (fst ws3) = [])"
proof -
  note k = takeFrame_same [OF assms(1,3)]
  have rs: "w_resume (fst ws2) = []" using k assms(2) by (cases ws; cases ws2) (auto simp: sender_of_def)
  have after: "call_ok st ws2 res \<Longrightarrow> call_ok st ws res" for res using call_same [OF assms(1)] k by blast
  show "call_ok st ws (None, ws2) \<and> w_resume (fst ws2) = []" using call_none [OF assms(1)] k rs by blast
  show "call_ok st ws (Some errWriterDone, finishRecoveryWriter now marker ws2)" using after call_finish k by blast
  assume f: "f = Some frame" and L: "writeLive now frame ws2 = (e, ws3)"
  have "call_ok st ws2 (e, ws3)" using call_live [of st ws2 frame now] k rs L f by simp
  then show "call_ok st ws (e, ws3) \<and> (e = None \<longrightarrow> w_resume (fst ws3) = [])"
    using after writeLive_resume [of ws2 now frame ws3] k rs L by (auto simp: abs_up_def)
qed

text \<open>The next frame: when nothing was written, nothing is left to replay.\<close>

lemma call_next:
  assumes "abs_up st ws" and "writeNext now now' ws = (wrote, err, ws')"
  shows "call_ok st ws (err, ws') \<and> (err = None \<longrightarrow> \<not> wrote \<longrightarrow> w_resume (fst ws') = [])"
proof -
  obtain w c r where ws: "ws = (w, c)" "c_recovery c = Some r" using assms(1) by (cases ws) (auto simp: abs_up_def has_recovery_def)
  obtain kind ackSeq ok r1 where t: "takePendingControl now now' r = ((kind, ackSeq, ok), r1)" by (metis prod.exhaust)
  let ?ws1 = "(w, c\<lparr>c_recovery := Some r1\<rparr>)"
  have u: "abs_up st ?ws1" "sender_of ?ws1 = sender_of ws" "emits True ws [] ?ws1"
    using assms(1) takePendingControl_replay [OF t] ws by (auto simp: abs_up_def sender_of_def has_recovery_def queue_fits_def emits_def)
  note after = call_same [OF assms(1) u(2,3)]
  consider (ack) "ok" | (resume) "\<not> ok" "w_resume w \<noteq> []" | (fresh) "\<not> ok" "w_resume w = []" by blast
  then show ?thesis
  proof cases
    case ack
    then have "wrote" "(err, ws') = w_write now controlStreamID 0 0 (buildAckControlPayload ackSeq) ''ack'' DebugFailureRecoveryAckWrite ?ws1"
      using assms(2) ws t by (simp_all add: writeNext_def Let_def)
    moreover have "known_control (buildAckControlPayload ackSeq)" by (auto simp: known_control_def)
    ultimately show ?thesis using after [OF call_control [OF u(1)]] by simp
  next
    case resume
    then have "wrote" "(err, ws') = writeResume now ?ws1" using assms(2) ws t by (simp_all add: writeNext_def Let_def)
    then show ?thesis using after [OF call_resume [OF u(1)]] resume(2) by simp
  next
    case fresh
    obtain f ws2 where tf: "takeFrame ?ws1 = (f, ws2)" by (metis prod.exhaust)
    have rs: "w_resume (fst ?ws1) = []" using fresh(2) by simp
    note k = call_fresh [OF u(1) rs tf]
    consider (none) "f = None" | (closing) frame marker where "f = Some frame" "of_closing frame = Some marker"
      | (live) frame where "f = Some frame" "of_closing frame = None" by (cases f; cases "of_closing (the f)") auto
    then show ?thesis
    proof cases
      case none
      then have "err = None" "ws' = ws2" using assms(2) ws t fresh tf by (simp_all add: writeNext_def Let_def)
      then show ?thesis using after k(1) by simp
    next
      case closing
      then have "err = Some errWriterDone" "ws' = finishRecoveryWriter now marker ws2"
        using assms(2) ws t fresh tf by (simp_all add: writeNext_def Let_def)
      then show ?thesis using after [OF k(2)] by simp
    next
      case live
      obtain e3 ws3 where L: "writeLive now frame ws2 = (e3, ws3)" by (metis prod.exhaust)
      then have "err = e3" "ws' = ws3"
        using assms(2) ws t fresh tf live by (auto simp: writeNext_def Let_def split: option.split_asm)
      then show ?thesis using after k(3) [OF live(1) L] by simp
    qed
  qed
qed

lemma call_ok_up: "call_ok st ws (None, ws') \<Longrightarrow> \<exists>st' es. abs_up st' ws' \<and> follows (c_config (snd ws)) st st' ws' \<and>
    sx_wire st' = sx_wire st @ dataOf es \<and> emits True ws es ws'"
proof -
  assume "call_ok st ws (None, ws')"
  then obtain st' es where k: "has_recovery ws'" "queue_fits (c_config (snd ws)) ws'" "follows (c_config (snd ws)) st st' ws'"
    "sx_up st'" "sx_wire st' = sx_wire st @ dataOf es" "emits True ws es ws'" by (auto simp: call_ok_def)
  then have "abs_up st' ws'" by (simp add: abs_up_def follows_def emits_def)
  with k show ?thesis by blast
qed

lemma call_transport:
  assumes "abs_up st ws" and "res \<in> set (writeTransportStep now now' ws)"
  shows "call_ok st ws res"
proof -
  obtain wrote err ws1 where n: "writeNext now now' ws = (wrote, err, ws1)" by (metis prod.exhaust)
  note c = call_next [OF assms(1) n]
  show ?thesis
  proof (cases "err = None \<and> \<not> wrote")
    case True
    then obtain st1 es where st1: "abs_up st1 ws1" "follows (c_config (snd ws)) st st1 ws1" "sx_wire st1 = sx_wire st @ dataOf es" "emits True ws es ws1"
      using c call_ok_up by metis
    have "call_ok st1 ws1 res" using call_wait [OF st1(1)] c True assms(2) n by (simp add: writeTransportStep_def)
    then show ?thesis by (rule call_after [OF st1(2-4)])
  next
    case False
    then show ?thesis using assms(2) n c by (auto simp: writeTransportStep_def)
  qed
qed

section \<open>The whole loop\<close>

lemma beginTransport_abs:
  assumes "has_recovery ws" and "queue_fits cfg ws"
  shows "sender_of (beginTransport conn net seq ws) = sd_begin seq (sender_of ws)"
    "has_recovery (beginTransport conn net seq ws)" "queue_fits cfg (beginTransport conn net seq ws)"
    "c_config (snd (beginTransport conn net seq ws)) = c_config (snd ws)"
    "w_bw (fst (beginTransport conn net seq ws)) = newBufioWriter net"
  using assms
  by (cases ws; auto simp: beginTransport_def sd_begin_def sender_of_def prepareResume_def has_recovery_def queue_fits_def Let_def)+

lemma staged_detached:
  assumes "sx_sender st = sender_of ws" and "\<not> sx_up st" and "has_recovery ws" and "queue_fits cfg ws"
    and "(err, ws') \<in> set (stageWhileDetached now ws)"
  shows "(\<exists>st'. follows cfg st st' ws' \<and> \<not> sx_up st' \<and> sx_wire st' = sx_wire st) \<and> has_recovery ws' \<and>
    queue_fits cfg ws' \<and> c_config (snd ws') = c_config (snd ws) \<and> w_bw (fst ws') = w_bw (fst ws)"
proof -
  have same: ?thesis if "sender_of ws' = sender_of ws" "has_recovery ws'" "queue_fits cfg ws'"
    "c_config (snd ws') = c_config (snd ws)" "w_bw (fst ws') = w_bw (fst ws)"
    using that follows_refl [of st ws'] assms(1,2) by auto
  show ?thesis
  proof (cases "\<exists>frame rest. outboundQueue ws = frame # rest \<and> of_closing frame = None \<and>
      ws' = snd (w_stage now frame (popOutbound ws))")
    case True
    then obtain frame rest where f: "outboundQueue ws = frame # rest" "ws' = snd (w_stage now frame (popOutbound ws))" by blast
    obtain w c where p: "popOutbound ws = (w, c)" by (metis prod.exhaust)
    have pop: "sender_of (w, c) = sender_of ws" "has_recovery (w, c)" "queue_fits cfg (w, c)" "frame_fits cfg frame"
      "c_config c = c_config (snd ws)" "w_bw w = w_bw (fst ws)"
      using assms(3,4) f(1) p
      by (cases ws; auto simp: popOutbound_def sender_of_def has_recovery_def queue_fits_def outboundQueue_def split: if_split_asm)+
    obtain rec w' c' where s: "w_stage now frame (w, c) = (rec, (w', c'))" by (metis prod.exhaust)
    obtain r where r: "c_recovery c = Some r" using pop(2) by (auto simp: has_recovery_def)
    let ?st = "st\<lparr>sx_sender := sender_of (w', c'), sx_staged := sx_staged st @ newly rec\<rparr>"
    have "session_step st ?st"
      by (rule st_stage) (use assms(1,2) pop w_stage_abs(1) [OF r s] in \<open>simp_all add: frame_fits_def\<close>)
    then have "follows cfg st ?st ws'"
      using f(2) p s sd_stage_record [OF w_stage_abs(1) [OF r s] pop(4)] pop(1) assms(1) by (auto simp: follows_def)
    moreover have "queue_fits cfg ws'" "has_recovery ws'" "c_config (snd ws') = c_config (snd ws)" "w_bw (fst ws') = w_bw (fst ws)"
      using w_stage_queue [OF pop(3,4) s] w_stage_abs [OF r s] f(2) p s pop by (simp_all add: has_recovery_def)
    ultimately show ?thesis using assms(2) by (auto intro!: exI [of _ ?st])
  next
    case False
    then have "sender_of ws' = sender_of ws \<and> has_recovery ws' \<and> queue_fits cfg ws' \<and>
        c_config (snd ws') = c_config (snd ws) \<and> w_bw (fst ws') = w_bw (fst ws)"
      using assms(3-5)
      by (cases ws; cases "outboundQueue ws"; cases "of_closing (hd (outboundQueue ws))")
        (auto simp: stageWhileDetached_def sender_of_def has_recovery_def queue_fits_def popOutbound_def outboundQueue_def Let_def
          split: if_split_asm)
    then show ?thesis using same by blast
  qed
qed

text \<open>A round of the goroutine that begins with the next transport, and one that does not.\<close>

lemma writer_round_attach:
  assumes "attachedTransport lastGen (snd ws) = Some (conn, gen, seq)"
    and "(phase', gen', ws') \<in> set (recoveryWriterLoop nets now now' (LoopHead, lastGen, ws))"
    and "sx_sender st = sender_of ws" and "has_recovery ws" and "queue_fits cfg ws" and "seq \<in> set (sx_reports st)"
  shows "\<exists>st'. session_step st st' \<and> st' = st\<lparr>sx_sender := sender_of ws', sx_up := True,
      sx_late := sx_late st @ [sx_wire st], sx_wire := []\<rparr> \<and> isWriting phase' \<and> has_recovery ws' \<and> queue_fits cfg ws' \<and>
      c_config (snd ws') = c_config (snd ws) \<and> w_bw (fst ws') = newBufioWriter (nets conn)"
proof -
  have ws': "ws' = beginTransport conn (nets conn) seq ws" "isWriting phase'"
    using assms(1,2) by (auto simp: recoveryWriterLoop_def)
  note b = beginTransport_abs [OF assms(4,5), of conn "nets conn" seq]
  from st_attach [OF assms(6)] show ?thesis using b ws' assms(3) by simp
qed

lemma writer_round_same:
  assumes out: "(phase', gen', ws') \<in> set (recoveryWriterLoop nets now now' (phase, lastGen, ws))"
    and "phase = LoopHead \<Longrightarrow> attachedTransport lastGen (snd ws) = None"
    and st: "sx_sender st = sender_of ws" "sx_up st \<longleftrightarrow> isWriting phase"
    and ws: "has_recovery ws" "queue_fits (c_config (snd ws)) ws"
  shows "\<exists>st' es. follows (c_config (snd ws)) st st' ws' \<and> (sx_up st' \<longleftrightarrow> isWriting phase') \<and>
    sx_wire st' = sx_wire st @ dataOf es \<and> emits (isWriting phase') ws es ws' \<and>
    has_recovery ws' \<and> queue_fits (c_config (snd ws)) ws' \<and> (\<not> isWriting phase \<longrightarrow> es = [] \<and> \<not> isWriting phase')"
proof (cases phase)
  case LoopHead
  then obtain err where "(err, ws') \<in> set (stageWhileDetached now ws)" "\<not> isWriting phase'"
    using out assms(2) by (auto simp: recoveryWriterLoop_def)
  then show ?thesis
    using staged_detached [of st ws "c_config (snd ws)" err ws' now] st ws LoopHead
    by (auto intro!: exI [of _ "[]"] emits_nothing)
next
  case (Writing gen)
  then have up: "abs_up st ws" using st ws by (simp add: abs_up_def)
  show ?thesis
  proof (cases "transportActive gen (snd ws)")
    case True
    then obtain err where e: "(err, ws') \<in> set (writeTransportStep now now' ws)" "isWriting phase' \<longleftrightarrow> err = None"
      using out Writing by (auto simp: recoveryWriterLoop_def split: option.split writerErr.split)
    show ?thesis using call_transport [OF up e(1)] e(2) Writing by (auto simp: call_ok_def)
  next
    case False
    then have same: "ws' = ws" "\<not> isWriting phase'" using out Writing by (auto simp: recoveryWriterLoop_def)
    then obtain st' where "follows (c_config (snd ws)) st st' ws'" "\<not> sx_up st'" "sx_wire st' = sx_wire st"
      using follows_down [of ws' st] st by auto
    then show ?thesis using same ws Writing by (intro exI [of _ st'] exI [of _ "[]"]) (simp add: emits_nothing)
  qed
qed (use out in \<open>simp add: recoveryWriterLoop_def\<close>)

text \<open>C5. The writer goroutine of a recoverable connection, in whatever state it is, is a sender of the session: every round of it,
  attached or not, with every outcome of its waits and whether writes succeed or fail, is a sequence of steps of the
  session on the sending side, and leads to a state that stands for the writer again. The frames that the session
  puts on the wire are the data frames among those whose bytes the round adds to the transport; a round that ends
  with the transport adds a beginning of these bytes.\<close>

theorem writer_loop_simulates:
  assumes "(phase', gen', ws') \<in> set (recoveryWriterLoop nets now now' (phase, lastGen, ws))"
    and "sx_sender st = sender_of ws" and "sx_up st \<longleftrightarrow> isWriting phase" and "has_recovery ws"
    and "queue_fits (c_config (snd ws)) ws"
    and "\<And>conn gen seq. attachedTransport lastGen (snd ws) = Some (conn, gen, seq) \<Longrightarrow> seq \<in> set (sx_reports st)"
  shows "\<exists>st'. session_step\<^sup>*\<^sup>* st st' \<and> sx_sender st' = sender_of ws' \<and> (sx_up st' \<longleftrightarrow> isWriting phase') \<and>
    sx_receiver st' = sx_receiver st \<and> sx_reports st' = sx_reports st \<and> has_recovery ws' \<and>
    queue_fits (c_config (snd ws')) ws' \<and>
    (if phase = LoopHead \<and> isWriting phase' then sx_wire st' = [] \<and> sx_late st' = sx_late st @ [sx_wire st]
     else \<exists>es. sx_late st' = sx_late st \<and> sx_wire st' = sx_wire st @ dataOf es \<and> emits (isWriting phase') ws es ws')"
proof (cases "phase = LoopHead \<and> attachedTransport lastGen (snd ws) \<noteq> None")
  case True
  then obtain conn gen seq where t: "attachedTransport lastGen (snd ws) = Some (conn, gen, seq)" by auto
  from True writer_round_attach [OF t _ assms(2,4,5) assms(6) [OF t]] assms(1)
  obtain st' where "session_step st st'" "st' = st\<lparr>sx_sender := sender_of ws', sx_up := True,
      sx_late := sx_late st @ [sx_wire st], sx_wire := []\<rparr>" "isWriting phase'" "has_recovery ws'"
      "queue_fits (c_config (snd ws)) ws'" "c_config (snd ws') = c_config (snd ws)" by blast
  with True show ?thesis by (intro exI [of _ st']) auto
next
  case False
  then have "phase = LoopHead \<Longrightarrow> attachedTransport lastGen (snd ws) = None" by blast
  then obtain st' es where k: "follows (c_config (snd ws)) st st' ws'" "sx_up st' \<longleftrightarrow> isWriting phase'"
    "sx_wire st' = sx_wire st @ dataOf es" "emits (isWriting phase') ws es ws'" "has_recovery ws'"
    "queue_fits (c_config (snd ws)) ws'" "\<not> isWriting phase \<longrightarrow> es = [] \<and> \<not> isWriting phase'"
    using writer_round_same [OF assms(1) _ assms(2-5)] by blast
  moreover have "c_config (snd ws') = c_config (snd ws)" using k(4) by (simp add: emits_def)
  ultimately show ?thesis by (intro exI [of _ st']) (auto simp: follows_def)
qed

text \<open>A writer that has a frame to replay.\<close>

definition resumingSession :: session where
  "resumingSession = (initSession protocolVersionV3 1000)\<lparr>sx_sender := sender_of resumingWriter, sx_up := True\<rparr>"

theorem writer_loop_simulates_witness:
  "\<exists>ws' st' es. (Writing 0, 0, ws') \<in> set (recoveryWriterLoop (\<lambda>_. sampleConn) 0 0 (Writing 0, 0, resumingWriter)) \<and>
     w_resume (fst resumingWriter) \<noteq> [] \<and> w_resume (fst ws') = [] \<and>
     session_step\<^sup>*\<^sup>* resumingSession st' \<and> sx_sender st' = sender_of ws' \<and> sx_wire st' = dataOf es \<and>
     emits True resumingWriter es ws'"
proof -
  let ?ws = "snd (writeResume 0 resumingWriter)"
  have "(Writing 0, 0, w_resume (fst ?ws)) \<in> set (map (\<lambda>(p, g, ws). (p, g, w_resume (fst ws)))
      (recoveryWriterLoop (\<lambda>_. sampleConn) 0 0 (Writing 0, 0, resumingWriter)))" by code_simp
  then obtain ws' where s: "(Writing 0, 0, ws') \<in> set (recoveryWriterLoop (\<lambda>_. sampleConn) 0 0 (Writing 0, 0, resumingWriter))"
    "w_resume (fst ws') = w_resume (fst ?ws)" by auto
  have "w_resume (fst ?ws) = []" "w_resume (fst resumingWriter) \<noteq> []" "has_recovery resumingWriter"
    "attachedTransport 0 (snd resumingWriter) = None" by code_simp+
  moreover have "ch_buf (c_outbound (snd resumingWriter)) = []" "w_held (fst resumingWriter) = None" by code_simp+
  then have "queue_fits (c_config (snd resumingWriter)) resumingWriter" by (simp add: queue_fits_def)
  ultimately show ?thesis
    using writer_loop_simulates [OF s(1), of resumingSession] s
    by (intro exI [of _ ws']) (auto simp: resumingSession_def initSession_def)
qed

end
