(* ===== verification/Writer_Progress.thy ===== *)
theory Writer_Progress
  imports Writer_Loop
begin

text \<open>
  The writer goroutine gets done with a replay (\<^verbatim>\<open>recoveryWriterLoop\<close>, \<^verbatim>\<open>writeTransport\<close>, \<^verbatim>\<open>writeNext\<close>, \<^verbatim>\<open>writeResume\<close> of
  \<^verbatim>\<open>src/recovery_runtime.go\<close>): on a transport that takes what is written it sends, without waiting, every frame
  above the number that the peer reported. \<open>writerRuns\<close> follows it over rounds that have a single outcome.
\<close>

section \<open>Writes that succeed\<close>

definition takesAll :: "bufio_writer \<Rightarrow> bool" where
  "takesAll b \<longleftrightarrow> nc_room (bw_conn b) = None \<and> bw_err b = None"

lemma writeFrameNoFlush_room:
  assumes ok: "frame_ok cfg (streamID, seq, flags, payload)" and room: "takesAll b"
  obtains b' where "writeFrameNoFlush bw_Write cfg d b streamID seq flags payload =
      (None, countWritten streamID (cfg_headerLen cfg + length payload) d, b')" "takesAll b'"
    "bw_taken b' = bw_taken b @ frame_layout (cfg_version cfg) (streamID, seq, flags, payload)"
proof -
  have h: "header_ok cfg (streamID, seq, flags, int (length payload))" and wf: "cfg_wf cfg"
    using ok by (simp_all add: frame_ok_def header_ok_def)
  from buildHeader_layout [OF h] obtain hdr where
    b: "buildHeader cfg streamID seq flags (int (length payload)) = Inr (hdr, cfg_headerLen cfg)" by blast
  have le: "cfg_headerLen cfg \<le> frameHeaderLenV3" using wf by (rule cfg_wf_cases) (simp_all add: frameHeaderLenV3_def)
  obtain b1 where w1: "writeFull bw_Write b (take (cfg_headerLen cfg) hdr) = (None, b1)" and r1: "takesAll b1"
    using writeFull_room [of b] room by (auto simp: takesAll_def)
  obtain b2 where w2: "writeFull bw_Write b1 payload = (None, b2)" and r2: "takesAll b2"
    using writeFull_room [of b1] r1 by (auto simp: takesAll_def)
  have W: "writeFrameNoFlush bw_Write cfg d b streamID seq flags payload =
      (None, countWritten streamID (cfg_headerLen cfg + length payload) d, b2)"
    using le by (simp add: writeFrameNoFlush_def b headerSlice_def w1 w2)
  show thesis by (rule that [OF W r2 writeFrame_taken [OF bufw.io_writer_axioms ok W]])
qed

lemma w_write_room:
  assumes "frame_ok (c_config c) (i, q, fl, p)" and "takesAll (w_bw w)"
  shows "\<exists>d b. w_write now i q fl p kind failure (w, c) = (None, (w\<lparr>w_bw := b\<rparr>, c\<lparr>c_debug := d\<rparr>)) \<and> takesAll b \<and>
    bw_taken b = bw_taken (w_bw w) @ frame_layout (cfg_version (c_config c)) (i, q, fl, p)"
proof -
  obtain b where "writeFrameNoFlush bw_Write (c_config c) (c_debug c) (w_bw w) i q fl p =
      (None, countWritten i (cfg_headerLen (c_config c) + length p) (c_debug c), b)" "takesAll b"
    "bw_taken b = bw_taken (w_bw w) @ frame_layout (cfg_version (c_config c)) (i, q, fl, p)"
    by (rule writeFrameNoFlush_room [OF assms])
  then show ?thesis by (intro exI [of _ "countWritten i (cfg_headerLen (c_config c) + length p) (c_debug c)"] exI [of _ b]) (simp add: w_write_def)
qed

section \<open>One round\<close>

text \<open>What a round needs: the transport is active and takes everything, and the frames still to replay are above what was
  sent and acknowledged, in increasing order.\<close>

definition replaying :: "u64 \<Rightarrow> frameRecord list \<Rightarrow> ('m, 'b, 'h) writerState \<Rightarrow> bool" where
  "replaying gen fs ws \<longleftrightarrow>
     (case ws of (w, c) \<Rightarrow>
        transportActive gen c \<and> takesAll (w_bw w) \<and> w_resume w = fs \<and> sorted_wrt (<) (map f_seq fs) \<and>
        (\<exists>r. c_recovery c = Some r \<and> (\<forall>f \<in> set fs. w_lastSentSeq w < f_seq f \<and> lastAckedSeq (r_replay r) < f_seq f \<and> record_ok c f)))"

definition ackDueNow :: "int \<Rightarrow> int \<Rightarrow> ('m, 'b, 'h) writerState \<Rightarrow> bool" where
  "ackDueNow now now' ws \<longleftrightarrow> (\<exists>r k a r'. c_recovery (snd ws) = Some r \<and> takePendingControl now now' r = ((k, a, True), r'))"

lemma takePendingControl_once:
  assumes "takePendingControl now now' r = ((k, a, ok), r')" "takePendingControl now now' r' = ((k', a', True), r'')"
  shows False
  using assms by (auto simp: takePendingControl_def ackNotYetDue_def Let_def split: if_split_asm)

text \<open>An acknowledgement that is due goes first, and after it none is due.\<close>

lemma round_ack:
  assumes "replaying gen fs ws" and "ackDueNow now now' ws" and "frame_ok (c_config (snd ws)) (controlStreamID, 0, 0, buildAckControlPayload 0)"
  obtains ws' a where "recoveryWriterLoop nets now now' (Writing gen, lastGen, ws) = [(Writing gen, lastGen, ws')]"
    "replaying gen fs ws'" "\<not> ackDueNow now now' ws'" "c_config (snd ws') = c_config (snd ws)"
    "bw_taken (w_bw (fst ws')) = bw_taken (w_bw (fst ws)) @ sentBytes (snd ws) (Control (buildAckControlPayload a))"
proof -
  obtain w c where ws: "ws = (w, c)" by (cases ws)
  from assms(2) ws obtain r k a r' where r: "c_recovery c = Some r" "takePendingControl now now' r = ((k, a, True), r')"
    by (auto simp: ackDueNow_def)
  let ?c = "c\<lparr>c_recovery := Some r'\<rparr>"
  have "frame_ok (c_config ?c) (controlStreamID, 0, 0, buildAckControlPayload a)"
    using assms(3) ws by (simp add: frame_ok_def buildAckControlPayload_def)
  then obtain d b where W: "w_write now controlStreamID 0 0 (buildAckControlPayload a) ''ack'' DebugFailureRecoveryAckWrite (w, ?c) =
      (None, (w\<lparr>w_bw := b\<rparr>, ?c\<lparr>c_debug := d\<rparr>))" "takesAll b"
    "bw_taken b = bw_taken (w_bw w) @ frame_layout (cfg_version (c_config ?c)) (controlStreamID, 0, 0, buildAckControlPayload a)"
    using w_write_room [of ?c _ _ _ _ w] assms(1) ws by (fastforce simp: replaying_def)
  let ?ws = "(w\<lparr>w_bw := b\<rparr>, ?c\<lparr>c_debug := d\<rparr>)"
  have "recoveryWriterLoop nets now now' (Writing gen, lastGen, ws) = [(Writing gen, lastGen, ?ws)]"
    using assms(1) ws r W(1) by (simp add: recoveryWriterLoop_def replaying_def writeTransportStep_def writeNext_def)
  moreover have "replaying gen fs ?ws"
    using assms(1) ws r W(2) takePendingControl_replay [OF r(2)]
    by (auto simp: replaying_def transportActive_def record_ok_def)
  moreover have "\<not> ackDueNow now now' ?ws" using takePendingControl_once [OF r(2)] by (auto simp: ackDueNow_def)
  ultimately show thesis using W(3) ws by (intro that [of ?ws a]) simp_all
qed

text \<open>Otherwise the next frame is replayed.\<close>

lemma round_replay:
  assumes "replaying gen (f # fs) ws" and "\<not> ackDueNow now now' ws"
  obtains ws' where "recoveryWriterLoop nets now now' (Writing gen, lastGen, ws) = [(Writing gen, lastGen, ws')]"
    "replaying gen fs ws'" "\<not> ackDueNow now now' ws'" "c_config (snd ws') = c_config (snd ws)"
    "bw_taken (w_bw (fst ws')) = bw_taken (w_bw (fst ws)) @ record_bytes (snd ws) f"
proof -
  obtain w c where ws: "ws = (w, c)" by (cases ws)
  from assms(1) ws obtain r where r: "c_recovery c = Some r" "w_lastSentSeq w < f_seq f" "lastAckedSeq (r_replay r) < f_seq f"
    "record_ok c f" "w_resume w = f # fs" by (auto simp: replaying_def)
  obtain k a ok r' where t: "takePendingControl now now' r = ((k, a, ok), r')" by (metis prod.exhaust)
  have no: "\<not> ok" using assms(2) ws r(1) t by (auto simp: ackDueNow_def)
  let ?w = "w\<lparr>w_resume := fs\<rparr>" and ?r = "r'\<lparr>r_resumeDepth := int (length fs)\<rparr>"
  let ?c = "c\<lparr>c_recovery := Some ?r\<rparr>"
  note rep = takePendingControl_replay [OF t]
  obtain d b where W: "w_write now (f_streamID f) (f_seq f) (f_flags f) (f_payload f) ''resume'' DebugFailureRecoveryResumeWrite (?w, ?c) =
      (None, (?w\<lparr>w_bw := b\<rparr>, ?c\<lparr>c_debug := d\<rparr>))" "takesAll b"
    "bw_taken b = bw_taken (w_bw ?w) @ frame_layout (cfg_version (c_config ?c)) (f_streamID f, f_seq f, f_flags f, f_payload f)"
    using w_write_room [of ?c "f_streamID f" "f_seq f" "f_flags f" "f_payload f" ?w] assms(1) ws r(4)
    by (fastforce simp: replaying_def record_ok_def)
  let ?ws = "(?w\<lparr>w_bw := b, w_lastSentSeq := f_seq f\<rparr>, ?c\<lparr>c_debug := d\<rparr>)"
  have "recoveryWriterLoop nets now now' (Writing gen, lastGen, ws) = [(Writing gen, lastGen, ?ws)]"
    using assms(1) ws r t no rep W(1)
    by (simp add: recoveryWriterLoop_def replaying_def writeTransportStep_def writeNext_def writeResume_def Let_def not_le)
  moreover have "replaying gen fs ?ws"
    using assms(1) ws r rep W(2) by (auto simp: replaying_def transportActive_def record_ok_def)
  moreover have "\<not> ackDueNow now now' ?ws"
    using takePendingControl_once [of now now' r k a ok r'] t by (auto simp: ackDueNow_def takePendingControl_def ackNotYetDue_def Let_def split: if_split_asm)
  ultimately show thesis using W(3) ws by (intro that [of ?ws]) (simp_all add: record_bytes_def)
qed

section \<open>The replay\<close>

text \<open>\<open>n\<close> rounds of the writer, none of which waits or has a choice.\<close>

fun writerRuns ::
    "(nat \<Rightarrow> net_conn) \<Rightarrow> int \<Rightarrow> int \<Rightarrow> nat \<Rightarrow> writerPhase \<times> u64 \<times> ('m, 'b, 'h) writerState \<Rightarrow>
     (writerPhase \<times> u64 \<times> ('m, 'b, 'h) writerState) option" where
  "writerRuns nets now now' 0 s = Some s"
| "writerRuns nets now now' (Suc n) s =
     (case recoveryWriterLoop nets now now' s of [s'] \<Rightarrow> writerRuns nets now now' n s' | _ \<Rightarrow> None)"

lemma replay_rounds:
  assumes "replaying gen fs ws" and "\<not> ackDueNow now now' ws"
  shows "\<exists>ws'. writerRuns nets now now' (length fs) (Writing gen, lastGen, ws) = Some (Writing gen, lastGen, ws') \<and>
    replaying gen [] ws' \<and> c_config (snd ws') = c_config (snd ws) \<and>
    bw_taken (w_bw (fst ws')) = bw_taken (w_bw (fst ws)) @ concat (map (record_bytes (snd ws)) fs)"
  using assms
proof (induction fs arbitrary: ws)
  case (Cons f fs)
  obtain ws1 where r: "recoveryWriterLoop nets now now' (Writing gen, lastGen, ws) = [(Writing gen, lastGen, ws1)]"
    "replaying gen fs ws1" "\<not> ackDueNow now now' ws1" "c_config (snd ws1) = c_config (snd ws)"
    "bw_taken (w_bw (fst ws1)) = bw_taken (w_bw (fst ws)) @ record_bytes (snd ws) f"
    by (rule round_replay [OF Cons.prems])
  have "record_bytes (snd ws1) = record_bytes (snd ws)" using r(4) by (simp add: record_bytes_def [abs_def])
  then show ?case using Cons.IH [OF r(2,3)] r(1,4,5) by auto
qed auto

text \<open>An acknowledgement that is due first takes one round more.\<close>

lemma replay_with_ack:
  assumes "replaying gen fs ws" and "frame_ok (c_config (snd ws)) (controlStreamID, 0, 0, buildAckControlPayload 0)"
  shows "\<exists>n acks ws'. n \<le> Suc (length fs) \<and>
    writerRuns nets now now' n (Writing gen, lastGen, ws) = Some (Writing gen, lastGen, ws') \<and> replaying gen [] ws' \<and>
    length acks \<le> 1 \<and> bw_taken (w_bw (fst ws')) = bw_taken (w_bw (fst ws)) @
      concat (map (\<lambda>a. sentBytes (snd ws) (Control (buildAckControlPayload a))) acks) @ concat (map (record_bytes (snd ws)) fs)"
proof (cases "ackDueNow now now' ws")
  case False
  from replay_rounds [OF assms(1) this, of nets lastGen] obtain ws' where
    "writerRuns nets now now' (length fs) (Writing gen, lastGen, ws) = Some (Writing gen, lastGen, ws')" "replaying gen [] ws'"
    "bw_taken (w_bw (fst ws')) = bw_taken (w_bw (fst ws)) @ concat (map (record_bytes (snd ws)) fs)" by blast
  then show ?thesis by (intro exI [of _ "length fs"] exI [of _ "[]"] exI [of _ ws']) simp
next
  case True
  obtain ws1 a where r: "recoveryWriterLoop nets now now' (Writing gen, lastGen, ws) = [(Writing gen, lastGen, ws1)]"
    "replaying gen fs ws1" "\<not> ackDueNow now now' ws1" "c_config (snd ws1) = c_config (snd ws)"
    "bw_taken (w_bw (fst ws1)) = bw_taken (w_bw (fst ws)) @ sentBytes (snd ws) (Control (buildAckControlPayload a))"
    by (rule round_ack [OF assms(1) True assms(2)])
  have "record_bytes (snd ws1) = record_bytes (snd ws)" using r(4) by (simp add: record_bytes_def [abs_def])
  with replay_rounds [OF r(2,3), of nets lastGen] obtain ws' where
    "writerRuns nets now now' (length fs) (Writing gen, lastGen, ws1) = Some (Writing gen, lastGen, ws')" "replaying gen [] ws'"
    "bw_taken (w_bw (fst ws')) = bw_taken (w_bw (fst ws1)) @ concat (map (record_bytes (snd ws)) fs)" by auto
  then show ?thesis using r(1,5) by (intro exI [of _ "Suc (length fs)"] exI [of _ "[a]"] exI [of _ ws']) simp
qed

lemma begin_replaying:
  assumes rec: "c_recovery (snd ws) = Some r" "replay_ok (r_replay r)" and att: "attachedTransport lastGen (snd ws) = Some (conn, gen, seq)"
    and open': "\<not> c_closed (snd ws)" and room: "nc_room net = None" and fits: "\<forall>f \<in> set (kept (r_replay r)). record_ok (snd ws) f"
  shows "replaying gen (filter (\<lambda>f. min seq (c_nextSendSeq (snd ws)) < f_seq f) (kept (r_replay r))) (beginTransport conn net seq ws)"
    "c_config (snd (beginTransport conn net seq ws)) = c_config (snd ws)" "w_bw (fst (beginTransport conn net seq ws)) = newBufioWriter net"
proof -
  obtain w c where ws: "ws = (w, c)" by (cases ws)
  let ?l = "min seq (c_nextSendSeq c)"
  obtain fs r1 where p: "prepareResume ?l r = (fs, r1)" by (metis prod.exhaust)
  note k = prepareResume_spec [OF rec(2) p]
  have "sorted_wrt (<) (map f_seq fs)" "\<forall>f \<in> set fs. lastAckedSeq (r_replay r1) < f_seq f"
    using rq.contents_sorted [of "r_replay r1"] rq.contents_above [of "r_replay r1"] k by (auto simp: lastAckedSeq_def)
  then show "replaying gen (filter (\<lambda>f. min seq (c_nextSendSeq (snd ws)) < f_seq f) (kept (r_replay r))) (beginTransport conn net seq ws)"
    using ws rec(1) p k att open' room fits
    by (auto simp: replaying_def beginTransport_def transportActive_def attachedTransport_def takesAll_def newBufioWriter_def
        record_ok_def Let_def split: option.splits if_split_asm)
  show "c_config (snd (beginTransport conn net seq ws)) = c_config (snd ws)" "w_bw (fst (beginTransport conn net seq ws)) = newBufioWriter net"
    using ws rec(1) p by (simp_all add: beginTransport_def Let_def)
qed

lemma flush_replayed:
  assumes "replaying gen [] ws"
  shows "\<exists>ws'. flushPending now ws = (None, ws') \<and> nc_out (bw_conn (w_bw (fst ws'))) = bw_taken (w_bw (fst ws))"
proof -
  obtain w c where ws: "ws = (w, c)" by (cases ws)
  obtain e b where f: "bw_Flush (w_bw w) = (e, b)" by (metis prod.exhaust)
  have "e = None" using bw_Flush_room [of "w_bw w"] assms ws f by (simp add: replaying_def takesAll_def)
  with f bw_Flush_ok [of "w_bw w" b] ws show ?thesis by (auto simp: flushPending_def bw_taken_def)
qed

section \<open>Property\<close>

text \<open>C6. The replay gets done. When a transport is attached that takes what is written, the writer goroutine gets to the end
  of the replay in at most two rounds more than there are frames, none of which waits; the flush that its next wait begins with
  then has put on the transport, after at most one acknowledgement, every frame of the replay buffer above the number
  that the peer reported, whole and in order.\<close>

theorem writer_replays:
  assumes "attachedTransport lastGen (snd ws) = Some (conn, gen, seq)" and "\<not> c_closed (snd ws)"
    and "c_recovery (snd ws) = Some r" and "replay_ok (r_replay r)" and "\<forall>f \<in> set (kept (r_replay r)). record_ok (snd ws) f"
    and "frame_ok (c_config (snd ws)) (controlStreamID, 0, 0, buildAckControlPayload 0)"
    and "nc_room (nets conn) = None" and "nc_out (nets conn) = []"
  shows "\<exists>n acks ws' ws''. let fs = filter (\<lambda>f. min seq (c_nextSendSeq (snd ws)) < f_seq f) (kept (r_replay r)) in
    n \<le> length fs + 2 \<and> writerRuns nets now now' n (LoopHead, lastGen, ws) = Some (Writing gen, gen, ws') \<and>
    w_resume (fst ws') = [] \<and> flushPending now ws' = (None, ws'') \<and> length acks \<le> 1 \<and>
    nc_out (bw_conn (w_bw (fst ws''))) =
      concat (map (\<lambda>a. sentBytes (snd ws) (Control (buildAckControlPayload a))) acks) @ concat (map (record_bytes (snd ws)) fs)"
proof -
  let ?fs = "filter (\<lambda>f. min seq (c_nextSendSeq (snd ws)) < f_seq f) (kept (r_replay r))"
  let ?b = "beginTransport conn (nets conn) seq ws"
  note b = begin_replaying [OF assms(3,4,1,2,7,5)]
  have same: "sentBytes (snd ?b) = sentBytes (snd ws)" "record_bytes (snd ?b) = record_bytes (snd ws)"
    using sent_config(1) [OF b(2)] b(2) by (simp_all add: record_bytes_def [abs_def])
  obtain n acks ws' where r: "n \<le> Suc (length ?fs)" "writerRuns nets now now' n (Writing gen, gen, ?b) = Some (Writing gen, gen, ws')"
    "replaying gen [] ws'" "length acks \<le> 1" "bw_taken (w_bw (fst ws')) = bw_taken (w_bw (fst ?b)) @
      concat (map (\<lambda>a. sentBytes (snd ws) (Control (buildAckControlPayload a))) acks) @ concat (map (record_bytes (snd ws)) ?fs)"
    using replay_with_ack [OF b(1), of nets now now' gen] assms(6) b(2) same by auto
  obtain ws'' where f: "flushPending now ws' = (None, ws'')" "nc_out (bw_conn (w_bw (fst ws''))) = bw_taken (w_bw (fst ws'))"
    using flush_replayed [OF r(3)] by blast
  have "writerRuns nets now now' (Suc n) (LoopHead, lastGen, ws) = Some (Writing gen, gen, ws')"
    using r(2) assms(1) by (simp add: recoveryWriterLoop_def)
  moreover have "w_resume (fst ws') = []" using r(3) by (cases ws') (simp add: replaying_def)
  moreover have "bw_taken (w_bw (fst ?b)) = []" using b(3) assms(8) by (simp add: newBufioWriter_def bw_taken_def)
  ultimately show ?thesis using r(1,4,5) f unfolding Let_def
    by (intro exI [of _ "Suc n"] exI [of _ acks] exI [of _ ws'] exI [of _ ws'']) simp
qed

text \<open>A writer with one frame in its replay buffer and a new transport.\<close>

definition reattachedWriter :: "(unit, unit, unit) writerState" where
  "reattachedWriter = (let ws = snd (w_stage 0 smallFrame sampleWriter) in (fst ws, (snd ws)\<lparr>c_conn := Some 2\<rparr>))"

theorem writer_replays_witness:
  "\<exists>n acks ws' ws''. n \<le> 3 \<and> writerRuns (\<lambda>_. sampleConn) 0 0 n (LoopHead, 7, reattachedWriter) = Some (Writing 0, 0, ws') \<and>
     flushPending 0 ws' = (None, ws'') \<and> nc_out (bw_conn (w_bw (fst ws''))) =
       concat (map (\<lambda>a. sentBytes (snd reattachedWriter) (Control (buildAckControlPayload a))) acks) @ frame_layout 3 (1, 1, 0, [8, 9])"
proof -
  let ?c = "snd reattachedWriter"
  have "attachedTransport 7 ?c = Some (2, 0, 0)" "\<not> c_closed ?c" "c_recovery ?c \<noteq> None"
    "frame_ok (c_config ?c) (controlStreamID, 0, 0, buildAckControlPayload 0)" by code_simp+
  then obtain r where h: "attachedTransport 7 ?c = Some (2, 0, 0)" "\<not> c_closed ?c" "c_recovery ?c = Some r"
    "frame_ok (c_config ?c) (controlStreamID, 0, 0, buildAckControlPayload 0)" by blast
  have "map (\<lambda>f. (f_seq f, record_bytes ?c f)) (kept (r_replay (the (c_recovery ?c)))) = [(1, frame_layout 3 (1, 1, 0, [8, 9]))]"
    "\<forall>f \<in> set (kept (r_replay (the (c_recovery ?c)))). record_ok ?c f" by code_simp+
  then obtain f where f: "kept (r_replay r) = [f]" "f_seq f = 1" "record_bytes ?c f = frame_layout 3 (1, 1, 0, [8, 9])"
    "\<forall>f \<in> set (kept (r_replay r)). record_ok ?c f" using h(3) by auto
  have ok: "replay_ok (r_replay (the (c_recovery ?c)))" by code_simp
  have room: "nc_room sampleConn = None" "nc_out sampleConn = []" by (simp_all add: sampleConn_def)
  from writer_replays [OF h(1-3) _ f(4) h(4), of "\<lambda>_. sampleConn" 0 0] room ok h(3) f show ?thesis
    by (simp add: Let_def numeral_3_eq_3) blast
qed

end
