(* ===== verification/End_To_End.thy ===== *)
theory End_To_End
  imports Writer_Loop
begin

text \<open>
  One direction of a recoverable connection with the code of both ends: the writer goroutine of one side
  (\<^verbatim>\<open>recoveryWriterLoop\<close>), the bytes it puts on one transport after the other, and the reader goroutine of the
  other side (\<^verbatim>\<open>recoveryReaderLoop\<close>), with the acknowledgements (\<^verbatim>\<open>takePendingControl\<close>, \<^verbatim>\<open>handleControlFrame\<close>) and
  reports that come back. \<open>link_run\<close> interleaves them without restriction; every run is simulated by the session
  of \<open>Delivery\<close>, so its exactly-once delivery holds of the code. That the number which comes with a transport is one that the
  peer reported is shown in \<open>Attach_Agreement\<close>.
\<close>

section \<open>Reading a part of a frame\<close>

text \<open>A transport that ends within a frame is no malformed frame.\<close>

lemma readFrame_partial:
  assumes ok: "frame_ok cfg (streamID, seq, flags, payload)"
    and inp: "nc_in c = take n (frame_layout (cfg_version cfg) (streamID, seq, flags, payload))"
    and short: "n < length (frame_layout (cfg_version cfg) (streamID, seq, flags, payload))"
    and err: "\<not> isMalformedFrameError (nc_in_err c)"
  shows "\<exists>e d' c'. readFrameFrom cfg d c = (Inl e, d', c') \<and> \<not> isMalformedFrameError e"
proof -
  let ?h = "(streamID, seq, flags, int (length payload))"
  let ?hdr = "header_layout (cfg_version cfg) ?h" and ?n = "cfg_headerLen cfg"
  have h: "header_ok cfg ?h" and wf: "cfg_wf cfg" and max: "int (length payload) \<le> uint (cfg_maxFrame cfg)"
    using ok by (simp_all add: frame_ok_def header_ok_def)
  have le: "\<not> frameHeaderLenV3 < ?n" using wf by (rule cfg_wf_cases) (simp_all add: frameHeaderLenV3_def)
  have fit: "\<not> (word_of_int (int (length payload)) :: u32) > cfg_maxFrame cfg"
    using max uint_u32_less [of "cfg_maxFrame cfg"] unfolding not_less by (subst word_of_int_u32_le) linarith+
  have len: "length ?hdr = ?n" by (simp add: length_header_layout [OF wf])
  have small: "n < ?n + length payload" using short by (simp add: length_frame_layout [OF wf])
  show ?thesis
  proof (cases "n < ?n")
    case True
    then have "length (nc_in c) < ?n" using inp by simp
    then show ?thesis using le err by (simp add: readFrameFrom_def headerLen_wf [OF wf] ReadFull_def)
  next
    case False
    let ?rest = "take (n - ?n) payload"
    have "nc_in c = ?hdr @ ?rest" using inp False len by (simp add: frame_layout_def)
    then have "ReadFull ?n c = (Inr ?hdr, c\<lparr>nc_in := ?rest\<rparr>)" by (intro ReadFull_append) (simp_all add: len)
    moreover have "n - ?n < length payload" using small False by linarith
    then have "ReadFull (length payload) (c\<lparr>nc_in := ?rest\<rparr>) =
        (Inl (if ?rest \<noteq> [] \<and> nc_in_err c = EOF then ErrUnexpectedEOF else nc_in_err c), c\<lparr>nc_in := []\<rparr>)"
      by (auto simp: ReadFull_def)
    ultimately show ?thesis
      using le fit err header.dec_enc [OF h] by (simp add: readFrameFrom_def headerLen_wf [OF wf])
  qed
qed

section \<open>The reader's side of the connection\<close>

text \<open>The connection of the reader: its configuration, the last number received, and its stream table in order.\<close>

definition peer_ok :: "('m, 'b) CodecImpl connConfig \<Rightarrow> u64 \<Rightarrow> ('m, 'b, 'h) Connection \<Rightarrow> bool" where
  "peer_ok cfg n c \<longleftrightarrow> c_config c = cfg \<and> (\<exists>r. c_recovery c = Some r \<and> r_lastRecvSeq r = n) \<and> streams_ok c"

named_theorems peer

lemma peer_markClosed [peer]: "peer_ok cfg n c \<Longrightarrow> peer_ok cfg n (markClosed c)"
  using markClosed_recovery [of c] by (fastforce simp: peer_ok_def markClosed_ok)

lemma peer_transportError [peer]: "peer_ok cfg n c \<Longrightarrow> peer_ok cfg n (handleRecoveryTransportError now conn c)"
proof -
  have "streams_ok c \<Longrightarrow> streams_ok (handleRecoveryTransportError now conn c)"
    by (simp add: handleRecoveryTransportError_def detachTransport_ok)
  then show "peer_ok cfg n c \<Longrightarrow> peer_ok cfg n (handleRecoveryTransportError now conn c)"
    using handleRecoveryTransportError_recovery [of c] by (fastforce simp: peer_ok_def)
qed

lemma peer_same:
  assumes "peer_ok cfg n c" "c_config c' = c_config c" "c_recovery c' = c_recovery c"
    "c_streams c' = c_streams c" "c_heap c' = c_heap c" "c_closed c' = c_closed c"
    "streamsOpened (c_debug c') = streamsOpened (c_debug c)" "streamsClosed (c_debug c') = streamsClosed (c_debug c)"
  shows "peer_ok cfg n c'"
  using assms streams_ok_congI [OF _ assms(4-8)] by (simp add: peer_ok_def)

lemma peer_small [peer]:
  "peer_ok cfg n c \<Longrightarrow> peer_ok cfg n (conn_noteFailure t k m c)" "peer_ok cfg n c \<Longrightarrow> peer_ok cfg n (armReadDeadline t i c)"
  "peer_ok cfg n c \<Longrightarrow> peer_ok cfg n (c\<lparr>c_closing := b\<rparr>)"
  by (erule peer_same; simp add: armReadDeadline_def split: option.split)+

text \<open>Reading a frame counts it; the counters of streams are others.\<close>

lemma readFrame_streamCounters:
  assumes "readFrameFrom cfg d net = (res, d', net')"
  shows "streamsOpened d' = streamsOpened d" "streamsClosed d' = streamsClosed d"
  using assms by (auto simp: readFrameFrom_def countRead_def Let_def split: sum.splits prod.splits if_splits)

lemma peer_closeByPeer:
  assumes "\<And>c. peer_ok cfg n c \<Longrightarrow> peer_ok cfg n (env c)" "peer_ok cfg n c" "c' \<in> set (closeByPeer env c)"
  shows "peer_ok cfg n c'"
proof -
  have "peer_ok cfg n d" if "d \<in> set (offerFINs refs e)" "peer_ok cfg n e" for d refs and e :: "('a, 'b, 'c) Connection"
    using that offerFINs_ok [OF _ that(1)] offerFINs_more [OF that(1)] by (simp add: peer_ok_def)
  then have "peer_ok cfg n (markClosed (env d))" if "d \<in> set (offerFINs refs (c\<lparr>c_closing := True\<rparr>))" for d refs
    by (intro peer_markClosed assms(1)) (use that assms(2) in \<open>blast intro: peer\<close>)
  then show ?thesis using assms(2,3) by (auto simp: closeByPeer_def intro: peer split: if_split_asm)
qed

lemma known_control_handled:
  assumes "known_control p" "peer_ok cfg n c"
  shows "\<exists>closes c'. handleControlFrame p c = (Inr closes, c') \<and> peer_ok cfg n c'"
proof -
  have ack: "peer_ok cfg n (signalSend (c\<lparr>c_recovery := map_option (ackReceived k) (c_recovery c)\<rparr>))" for k
    using assms(2) streams_ok_congI [of c "signalSend (c\<lparr>c_recovery := map_option (ackReceived k) (c_recovery c)\<rparr>)"]
    by (auto simp: peer_ok_def ackReceived_def)
  consider k where "parseControlPayload p = Inr (controlTypeAck, k)" | "parseControlPayload p = Inr (controlTypePing, 0)"
    | "parseControlPayload p = Inr (controlTypeClose, 0)"
    using assms(1) control_payload_exact [of p] unfolding known_control_def by blast
  then show ?thesis
    by cases (use ack assms(2) in \<open>auto simp: handleControlFrame_def controlTypeAck_def controlTypePing_def controlTypeClose_def\<close>)
qed

text \<open>A frame that the writer may have sent: a control frame, or a record that fits into a frame.\<close>

fun sent_valid :: "('m, 'b) CodecImpl connConfig \<Rightarrow> sent \<Rightarrow> bool" where
  "sent_valid cfg (Data r) \<longleftrightarrow> record_fits cfg r"
| "sent_valid cfg (Control p) \<longleftrightarrow> known_control p"

definition wire_cfg :: "('m, 'b) CodecImpl connConfig \<Rightarrow> bool" where
  "wire_cfg cfg \<longleftrightarrow> cfg_wf cfg \<and> cfg_version cfg = protocolVersionV3 \<and> 9 \<le> uint (cfg_maxFrame cfg)"

text \<open>Below 9 bytes no acknowledgement can be written: the attempt detaches the transport.\<close>

lemma small_limit_refuses_acks:
  assumes "uint (cfg_maxFrame cfg) < 9"
  shows "fst (writeFrameNoFlush W cfg d bw controlStreamID 0 0 (buildAckControlPayload n)) = Some (ErrFrameTooLarge 9)"
proof -
  have "cfg_maxFrame cfg < 9" using assms by (simp add: word_less_def)
  then show ?thesis by (simp add: writeFrameNoFlush_def buildHeader_def buildAckControlPayload_def)
qed

lemma sent_valid_ok:
  assumes "wire_cfg (c_config c)" "sent_valid (c_config c) e"
  shows "sent_ok c e"
proof (cases e)
  case (Data r)
  then show ?thesis using assms by (simp add: wire_cfg_def record_fits_def record_ok_def frame_ok_def header_ok_def)
next
  case (Control p)
  have "length p \<le> 9" using assms(2) Control
    by (auto simp: known_control_def buildAckControlPayload_def buildPingControlPayload_def buildCloseControlPayload_def)
  then show ?thesis using assms(1) Control
    by (simp add: wire_cfg_def frame_ok_def header_ok_def flags_ok_def)
qed

definition frameOf :: "sent \<Rightarrow> u32 \<times> u64 \<times> FrameFlags \<times> bytes" where
  "frameOf e = (case e of Data r \<Rightarrow> (f_streamID r, f_seq r, f_flags r, f_payload r) | Control p \<Rightarrow> (controlStreamID, 0, 0, p))"

lemma sent_frame:
  "sentBytes c e = frame_layout (cfg_version (c_config c)) (frameOf e)"
  "sent_ok c e \<longleftrightarrow> frame_ok (c_config c) (frameOf e)"
  by (cases e; simp add: frameOf_def record_bytes_def record_ok_def)+

text \<open>Reading what has arrived of the frames \<open>es\<close>: the first of them, or an error that is not one of content.\<close>

definition wireBytes :: "('m, 'b, 'h) Connection \<Rightarrow> sent list \<Rightarrow> bytes" where
  "wireBytes c es = concat (map (sentBytes c) es)"

lemma wireBytes_simps [simp]:
  "wireBytes c [] = []" "wireBytes c (e # es) = sentBytes c e @ wireBytes c es"
  "wireBytes c (es @ fs) = wireBytes c es @ wireBytes c fs"
  by (simp_all add: wireBytes_def)

lemma read_sent:
  assumes cfg: "wire_cfg (c_config c)" and ok: "\<forall>e \<in> set es. sent_valid (c_config c) e"
    and inp: "nc_in net = take k (wireBytes c es)" and err: "\<not> isMalformedFrameError (nc_in_err net)"
    and R: "readFrameFrom (c_config c) d net = (res, d', net')"
  shows "(\<exists>e. res = Inl e \<and> \<not> isMalformedFrameError e) \<or>
    (\<exists>e es'. es = e # es' \<and> res = Inr (frameOf e) \<and> nc_in net = sentBytes c e @ nc_in net')"
proof (cases es)
  case Nil
  have wf: "cfg_wf (c_config c)" using cfg by (simp add: wire_cfg_def)
  then have "\<not> frameHeaderLenV3 < cfg_headerLen (c_config c)" "0 < cfg_headerLen (c_config c)"
    by (rule cfg_wf_cases; simp add: frameHeaderLenV3_def)+
  then show ?thesis using R inp Nil err by (auto simp: readFrameFrom_def headerLen_wf [OF wf] ReadFull_def)
next
  case (Cons e es')
  obtain i q fl p where f: "frameOf e = (i, q, fl, p)" by (metis prod.exhaust)
  have fr: "frame_ok (c_config c) (i, q, fl, p)" "sentBytes c e = frame_layout (cfg_version (c_config c)) (i, q, fl, p)"
    using sent_valid_ok [OF cfg, of e] ok Cons by (simp_all add: sent_frame f)
  show ?thesis
  proof (cases "k < length (sentBytes c e)")
    case True
    then show ?thesis using readFrame_partial [OF fr(1) _ _ err, of k d] inp R Cons fr(2) by auto
  next
    case False
    then have "nc_in net = sentBytes c e @ take (k - length (sentBytes c e)) (wireBytes c es')" using inp Cons by simp
    then show ?thesis using readFrame_layout [OF fr(1), of net _ d] R Cons f fr(2) by auto
  qed
qed

text \<open>A round of the reader in which a data frame is read.\<close>

lemma readerStep_data:
  assumes "transportActive gen c" "i \<noteq> controlStreamID" "c1 = armReadDeadline now conn c"
    and R: "readFrameFrom (c_config c1) (c_debug c1) net = (Inr (i, q, fl, p), d, net1)"
    and out: "(nxt, net', c') \<in> set (recoveryReaderStep now env conn gen n net c)"
  shows "\<exists>k err c3. (k, err, c3) \<in> set (handleRecoveryDataFrame now env n i q fl p (c1\<lparr>c_debug := d\<rparr>)) \<and> net' = net1 \<and>
    (if err = None then nxt = ReadOn k \<and> c' = c3
     else nxt = ReaderEnds \<and> (c' = c3 \<or> (\<exists>t f m. c' = markClosed (conn_noteFailure t f m c3))))"
proof -
  let ?next = "\<lambda>(k, err, c3). case err of
       None \<Rightarrow> (ReadOn k, net1, c3)
     | Some e \<Rightarrow>
         if c_closed c3 then (ReaderEnds, net1, c3)
         else (ReaderEnds, net1, markClosed (conn_noteFailure now DebugFailureRecoveryData
                 (''recovery data frame failed: '' @ Error e) c3))"
  have "recoveryReaderStep now env conn gen n net c = map ?next (handleRecoveryDataFrame now env n i q fl p (c1\<lparr>c_debug := d\<rparr>))"
    using assms(1,2) R by (simp add: recoveryReaderStep_def Let_def flip: assms(3))
  then obtain k err c3 where "(k, err, c3) \<in> set (handleRecoveryDataFrame now env n i q fl p (c1\<lparr>c_debug := d\<rparr>))"
    "(nxt, net', c') = ?next (k, err, c3)" using out by auto
  then show ?thesis
    by (intro exI [of _ k] exI [of _ err] exI [of _ c3]) (auto split: option.splits if_splits)
qed

lemma rx_data_log:
  "rx_data f x = Inr x' \<Longrightarrow> rx_log x' = rx_log x @ (if rx_last x' = rx_last x then [] else [f])"
  by (auto simp: rx_data_def split: if_split_asm)

section \<open>What a round of the reader does to the queues of the streams\<close>

text \<open>A round is the connection before it and after it. It either advanced the last received number, or it put no payload
  into any queue; only on a CLOSE frame of the peer may a stream be given the FIN marker.\<close>

type_synonym ('m, 'b, 'h) readerRound = "('m, 'b, 'h) Connection \<times> ('m, 'b, 'h) Connection"

definition advanced :: "('m, 'b, 'h) readerRound \<Rightarrow> bool" where
  "advanced = (\<lambda>(c, c'). map_option lastReceived (c_recovery c') \<noteq> map_option lastReceived (c_recovery c))"

definition quietRound :: "('m, 'b, 'h) readerRound \<Rightarrow> bool" where
  "quietRound = (\<lambda>(c, c').
     \<forall>r. \<exists>k fin. inq c' r = drop k (inq c r @ fin) \<and> (fin = [] \<or> fin = [None] \<and> c_closed c'))"

definition feedsRecord :: "frameRecord \<Rightarrow> ('m, 'b, 'h) readerRound \<Rightarrow> bool" where
  "feedsRecord f = (\<lambda>(c, c'). \<exists>taken. feeds taken c c' (f_streamID f) (f_flags f) (f_payload f))"

text \<open>The rounds of a reader that accepted the frames \<open>fs\<close>: one round for each, and the others were quiet.\<close>

definition rounds_ok :: "frameRecord list \<Rightarrow> ('m, 'b, 'h) readerRound list \<Rightarrow> bool" where
  "rounds_ok fs rounds \<longleftrightarrow>
     list_all2 feedsRecord fs (filter advanced rounds) \<and> list_all quietRound (filter (Not \<circ> advanced) rounds)"

lemma quietRound_drop: "(\<And>r. inq c' r = drop (k r) (inq c r)) \<Longrightarrow> quietRound (c, c')"
  unfolding quietRound_def by (auto intro!: exI [of _ "[]"])

lemma quietRound_same: "inq c' = inq c \<Longrightarrow> quietRound (c, c')"
  by (rule quietRound_drop [where k = "\<lambda>_. 0"]) simp

lemma peer_advanced:
  "peer_ok cfg n c \<Longrightarrow> peer_ok cfg m c' \<Longrightarrow> advanced (c, c') \<longleftrightarrow> m \<noteq> n"
  by (auto simp: peer_ok_def advanced_def lastReceived_def)

lemma rounds_quiet:
  "rounds_ok fs rounds \<Longrightarrow> quietRound d \<Longrightarrow> \<not> advanced d \<Longrightarrow> rounds_ok fs (rounds @ [d])"
  by (simp add: rounds_ok_def)

lemma rounds_fed:
  "rounds_ok fs rounds \<Longrightarrow> feedsRecord f d \<Longrightarrow> advanced d \<Longrightarrow> rounds_ok (fs @ [f]) (rounds @ [d])"
  by (simp add: rounds_ok_def list_all2_appendI)

lemma closeByPeer_quiet:
  assumes ok: "streams_ok c" and env: "others_take taken env" and out: "c' \<in> set (closeByPeer env c)" and c: "inq c = inq c0"
  shows "quietRound (c0, c')"
proof (cases "c_closing c")
  case True
  then have "inq c' = inq c0" using out c by (simp add: closeByPeer_def)
  then show ?thesis by (rule quietRound_same)
next
  case False
  then obtain d where d: "d \<in> set (offerFINs (map snd (c_streams c)) (c\<lparr>c_closing := True\<rparr>))" "c' = markClosed (env d)"
    using out by (auto simp: closeByPeer_def)
  have "streams_ok (c\<lparr>c_closing := True\<rparr>)" by (rule streams_ok_congI [OF ok]) simp_all
  note t = others_takeD(4) [OF env offerFINs_ok [OF this d(1)]]
  have "distinct (map snd (c_streams c))" using ok by (simp add: streams_ok_def)
  note q = inq_offerFINs [OF d(1) this]
  have "\<exists>fin. inq c' r = drop (taken r) (inq c0 r @ fin) \<and> (fin = [] \<or> fin = [None] \<and> c_closed c')" for r
  proof (cases "inq d r = inq c r")
    case True
    then show ?thesis using t [of r] c unfolding d(2) by (intro exI [of _ "[]"]) simp
  next
    case False
    then show ?thesis using q [of r] t [of r] c unfolding d(2) by (intro exI [of _ "[None]"]) simp
  qed
  then show ?thesis unfolding quietRound_def by blast
qed

text \<open>A round of the reader, by what it reads: nothing, a control frame, or a data frame that the receiver accepts.\<close>

lemma armed_reads:
  assumes "peer_ok cfg n c" "readFrameFrom cfg (c_debug c) net = (res, d, net1)"
  shows "c_config (armReadDeadline now conn c) = cfg" "c_config c = cfg" "c_debug (armReadDeadline now conn c) = c_debug c"
    "peer_ok cfg n ((armReadDeadline now conn c)\<lparr>c_debug := d\<rparr>)"
proof -
  show "peer_ok cfg n ((armReadDeadline now conn c)\<lparr>c_debug := d\<rparr>)"
    by (rule peer_same [OF assms(1)]) (auto simp: readFrame_streamCounters [OF assms(2)] armReadDeadline_def split: option.split)
qed (use assms(1) in \<open>simp_all add: peer_ok_def armReadDeadline_def split: option.split\<close>)

lemma reader_failed:
  assumes pk: "peer_ok cfg n c" and active: "transportActive gen c"
    and R: "readFrameFrom cfg (c_debug c) net = (Inl e, d, net1)" and e: "\<not> isMalformedFrameError e"
    and out: "(nxt, net', c') \<in> set (recoveryReaderStep now env conn gen n net c)"
  shows "(\<forall>m. nxt \<noteq> ReadOn m) \<and> peer_ok cfg n c' \<and> quietRound (c, c')"
proof -
  let ?c2 = "(armReadDeadline now conn c)\<lparr>c_debug := d\<rparr>"
  note c1 = armed_reads(1,3) [OF pk R, of now conn] armed_reads(4) [OF pk R, where now = now and conn = conn]
  have o: "(\<forall>m. nxt \<noteq> ReadOn m) \<and> (c' = markClosed ?c2 \<or>
      (\<exists>t k m. c' = handleRecoveryTransportError now conn (conn_noteFailure t k m ?c2)))"
    using out active R e c1(1,2) by (auto simp: recoveryReaderStep_def Let_def split: if_split_asm)
  then have "inq c' = inq c" by auto
  then show ?thesis using o c1(3) by (auto intro: peer quietRound_same)
qed

lemma reader_control:
  assumes pk: "peer_ok cfg n c" and active: "transportActive gen c"
    and env: "\<And>c. c_recovery (env c) = c_recovery c" "\<And>c. c_config (env c) = c_config c" "others_take taken env"
    and R: "readFrameFrom cfg (c_debug c) net = (Inr (frameOf (Control p)), d, net1)" and p: "known_control p"
    and out: "(nxt, net', c') \<in> set (recoveryReaderStep now env conn gen n net c)"
  shows "peer_ok cfg n c' \<and> quietRound (c, c') \<and> ((\<forall>m. nxt \<noteq> ReadOn m) \<or> nxt = ReadOn n \<and> net' = net1)"
proof -
  let ?c2 = "(armReadDeadline now conn c)\<lparr>c_debug := d\<rparr>"
  note c1 = armed_reads(1,3) [OF pk R, of now conn] armed_reads(4) [OF pk R, where now = now and conn = conn]
  have penv: "peer_ok cfg n y \<Longrightarrow> peer_ok cfg n (env y)" for y using env others_takeD(1) [OF env(3)] by (simp add: peer_ok_def)
  obtain closes c3 where h: "handleControlFrame p ?c2 = (Inr closes, c3)" "peer_ok cfg n c3"
    using known_control_handled [OF p c1(3)] by blast
  have q3: "inq c3 = inq c"
  proof -
    have "inq c3 = inq ?c2" using h(1) by (auto simp: handleControlFrame_def split: sum.splits prod.splits if_splits)
    then show ?thesis by simp
  qed
  show ?thesis
  proof (cases closes)
    case True
    then have "nxt = ReaderEnds" "c' \<in> set (closeByPeer env c3)"
      using out active R c1 h(1) by (auto simp: recoveryReaderStep_def Let_def frameOf_def)
    moreover have "streams_ok c3" using h(2) by (simp add: peer_ok_def)
    ultimately show ?thesis using peer_closeByPeer [OF penv h(2)] closeByPeer_quiet [OF _ env(3) _ q3] by auto
  next
    case False
    then have "nxt = ReadOn n" "net' = net1" "c' = c3"
      using out active R c1 h(1) by (auto simp: recoveryReaderStep_def Let_def frameOf_def)
    then show ?thesis using h(2) quietRound_same [OF q3] by simp
  qed
qed

lemma feeds_cong:
  assumes "c_heap d = c_heap c" "c_streams d = c_streams c" "c_closedPeerStreams d = c_closedPeerStreams c" "c_nextStreamID d = c_nextStreamID c"
  shows "feeds taken d c' i fl p \<longleftrightarrow> feeds taken c c' i fl p"
proof -
  have "queueRef d i = queueRef c i" "openedStream d i = openedStream c i" "inq d = inq c"
    using assms by (simp_all add: queueRef_def openedStream_def inq_congI [OF assms(1)] cong: option.case_cong)
  then show ?thesis using assms by (simp add: feeds_def dropped_def)
qed

lemma reader_data:
  assumes pk: "peer_ok cfg (rx_last x) c" and active: "transportActive gen c"
    and env: "\<And>c. c_recovery (env c) = c_recovery c" "\<And>c. c_config (env c) = c_config c" "others_take taken env"
    and R: "readFrameFrom cfg (c_debug c) net = (Inr (frameOf (Data r)), d, net1)"
    and r: "f_streamID r \<noteq> controlStreamID" "rx_data r x = Inr x'"
    and out: "(nxt, net', c') \<in> set (recoveryReaderStep now env conn gen (rx_last x) net c)"
  shows "(\<forall>m. nxt \<noteq> ReadOn m) \<and> peer_ok cfg (rx_last x) c' \<and> quietRound (c, c') \<or>
    nxt = ReadOn (rx_last x') \<and> peer_ok cfg (rx_last x') c' \<and> net' = net1 \<and>
      (if rx_log x' = rx_log x then quietRound (c, c') else feedsRecord r (c, c'))"
proof -
  let ?c2 = "(armReadDeadline now conn c)\<lparr>c_debug := d\<rparr>"
  note c1 = armed_reads(1,3) [OF pk R, of now conn] armed_reads(4) [OF pk R, where now = now and conn = conn]
  obtain lastSeq e c3 where o3: "(lastSeq, e, c3) \<in> set (handleRecoveryDataFrame now env (rx_last x)
      (f_streamID r) (f_seq r) (f_flags r) (f_payload r) ?c2)"
    and n: "net' = net1" "if e = None then nxt = ReadOn lastSeq \<and> c' = c3
      else nxt = ReaderEnds \<and> (c' = c3 \<or> (\<exists>t k m. c' = markClosed (conn_noteFailure t k m c3)))"
    using readerStep_data [OF active r(1) refl _ out] R c1 by (simp add: frameOf_def) blast
  obtain rc where rc: "c_recovery ?c2 = Some rc" "r_lastRecvSeq rc = rx_last x" "streams_ok ?c2" using c1(3) by (auto simp: peer_ok_def)
  note D = data_frame_refines [OF rc env(3,1) o3]
  have last: "if e = None then lastSeq = rx_last x' else lastSeq = rx_last x"
    using D r(2) rx_data_log [OF r(2)] by (auto simp: receives_def split: if_splits)
  have p3: "peer_ok cfg lastSeq c3"
    using D handleRecoveryDataFrame_config [OF env(2) o3] c1(3) by (auto simp: peer_ok_def)
  have q: "inq ?c2 = inq c" by simp
  show ?thesis
  proof (cases e)
    case None
    have "if rx_log x' = rx_log x then quietRound (c, c3) else feedsRecord r (c, c3)"
    proof (cases "rx_log x' = rx_log x")
      case True
      then have "c_heap c3 = c_heap ?c2" using D r(2) None by (simp add: receives_def)
      then have "inq c3 = inq c" using inq_congI q by metis
      then show ?thesis using True by (simp add: quietRound_same)
    next
      case False
      then have "feeds taken ?c2 c3 (f_streamID r) (f_flags r) (f_payload r)" using D r(2) None by (simp add: receives_def)
      then have "feedsRecord r (c, c3)"
        by (subst (asm) feeds_cong [of _ c]) (auto simp: feedsRecord_def armReadDeadline_def split: option.split)
      then show ?thesis using False by simp
    qed
    then show ?thesis using None n last p3 by simp
  next
    case (Some y)
    have "\<exists>k. \<forall>r. inq c3 r = drop (k r) (inq c r)"
    proof (cases "rx_log x' = rx_log x")
      case True
      then show ?thesis using D r(2) Some by (simp add: receives_def)
    next
      case False
      then show ?thesis using D r(2) Some q by (auto simp: receives_def)
    qed
    moreover have "inq c' = inq c3" "peer_ok cfg (rx_last x) c'" using n(2) Some last p3 by (auto intro: peer)
    ultimately show ?thesis using n(2) Some by (auto intro: quietRound_drop)
  qed
qed

text \<open>A round of the reader on a transport that carries \<open>es\<close>: it takes in nothing, or a control frame, or a data
  frame as the abstract receiver does.\<close>

lemma reader_round:
  assumes pk: "peer_ok cfg (rx_last x) c" and cfg: "wire_cfg cfg" and ok: "\<forall>e \<in> set es. sent_valid cfg e"
    and env: "\<And>c. c_recovery (env c) = c_recovery c" "\<And>c. c_config (env c) = c_config c" "others_take taken env"
    and inp: "nc_in net = take k (wireBytes c es)" and err: "\<not> isMalformedFrameError (nc_in_err net)"
    and out: "(nxt, net', c') \<in> set (recoveryReaderStep now env conn gen (rx_last x) net c)"
    and acc: "\<forall>r es'. es = Data r # es' \<longrightarrow> (\<exists>x'. rx_data r x = Inr x')"
  obtains (quiet) "\<forall>m. nxt \<noteq> ReadOn m" "peer_ok cfg (rx_last x) c'" "quietRound (c, c')"
    | (control) p es' where "es = Control p # es'" "nxt = ReadOn (rx_last x)" "peer_ok cfg (rx_last x) c'"
        "nc_in net = sentBytes c (Control p) @ nc_in net'" "quietRound (c, c')"
    | (data) r es' x' where "es = Data r # es'" "rx_data r x = Inr x'" "nxt = ReadOn (rx_last x')" "peer_ok cfg (rx_last x') c'"
        "nc_in net = sentBytes c (Data r) @ nc_in net'" "if rx_log x' = rx_log x then quietRound (c, c') else feedsRecord r (c, c')"
proof (cases "transportActive gen c")
  case False
  then show thesis using out pk quiet quietRound_same [of c c] by (simp add: recoveryReaderStep_def)
next
  case active: True
  have c: "c_config c = cfg" using pk by (simp add: peer_ok_def)
  obtain res d net1 where R: "readFrameFrom cfg (c_debug c) net = (res, d, net1)" by (metis prod.exhaust)
  from read_sent [of c es net k "c_debug c" res d net1] cfg ok inp err R c
  consider (failed) e where "res = Inl e" "\<not> isMalformedFrameError e"
    | (frame) e es' where "es = e # es'" "res = Inr (frameOf e)" "nc_in net = sentBytes c e @ nc_in net1" by auto
  then show thesis
  proof cases
    case failed
    then show thesis using reader_failed [OF pk active _ _ out] R quiet by auto
  next
    case frame
    show thesis
    proof (cases e)
      case (Control p)
      then have "known_control p" using ok frame(1) by simp
      then show thesis using reader_control [OF pk active env _ _ out] R frame Control control quiet by metis
    next
      case (Data r)
      then obtain x' where x': "rx_data r x = Inr x'" using acc frame(1) by blast
      have "f_streamID r \<noteq> controlStreamID" using ok frame(1) Data by (simp add: record_fits_def)
      from reader_data [OF pk active env _ this x' out] R frame(2) Data
      consider "\<forall>m. nxt \<noteq> ReadOn m" "peer_ok cfg (rx_last x) c'" "quietRound (c, c')"
        | "nxt = ReadOn (rx_last x')" "peer_ok cfg (rx_last x') c'" "net' = net1"
          "if rx_log x' = rx_log x then quietRound (c, c') else feedsRecord r (c, c')" by blast
      then show thesis using quiet data [OF _ x'] frame Data R c by cases simp_all
    qed
  qed
qed

section \<open>The link\<close>

text \<open>Both ends and what is between them. \<open>lk_phase\<close>, \<open>lk_gen\<close> and \<open>lk_ws\<close> are the writer goroutine with its connection;
  \<open>lk_past\<close> are the bytes that each of its earlier transports took, to which its buffer adds those of the current one.
  \<open>lk_pos\<close> is the transport the reader is on and how many bytes of it it has read, \<open>lk_peer\<close> its connection. \<open>lk_acks\<close>
  and \<open>lk_reports\<close> are the numbers that it acknowledged and reported. Two histories are kept: \<open>lk_staged\<close>, the frames that the replay buffer took, and \<open>lk_rounds\<close>, for
  each round of the reader its connection before and after; what a round did to the streams is read off these two.\<close>

record ('m, 'b, 'h) link =
  lk_phase :: writerPhase
  lk_gen :: u64
  lk_ws :: "('m, 'b, 'h) writerState"
  lk_past :: "bytes list"
  lk_pos :: "nat \<times> nat"
  lk_peer :: "('m, 'b, 'h) Connection"
  lk_acks :: "u64 list"
  lk_reports :: "u64 list"
  lk_staged :: "frameRecord list"
  lk_rounds :: "('m, 'b, 'h) readerRound list"

definition transports :: "('m, 'b, 'h) link \<Rightarrow> bytes list" where
  "transports lk = lk_past lk @ [bw_taken (w_bw (fst (lk_ws lk)))]"

text \<open>The frames that a round added to the replay buffer.\<close>

definition newlyStaged :: "('m, 'b, 'h) writerState \<Rightarrow> ('m, 'b, 'h) writerState \<Rightarrow> frameRecord list" where
  "newlyStaged ws ws' =
     drop (length (kept (sn_replay (sender_of ws)))) (kept (sn_replay (sender_of ws')))"

text \<open>The stream, the flags and the payload of a record.\<close>

definition frameView :: "frameRecord \<Rightarrow> u32 \<times> FrameFlags \<times> bytes" where
  "frameView r = (f_streamID r, f_flags r, f_payload r)"

text \<open>A new connection at both ends.\<close>

definition link_start :: "('m, 'b) CodecImpl connConfig \<Rightarrow> ('m, 'b, 'h) link \<Rightarrow> bool" where
  "link_start cfg lk \<longleftrightarrow>
     wire_cfg cfg \<and> lk_phase lk = LoopHead \<and> c_config (snd (lk_ws lk)) = cfg \<and> has_recovery (lk_ws lk) \<and>
     queue_fits cfg (lk_ws lk) \<and> bw_taken (w_bw (fst (lk_ws lk))) = [] \<and>
     (\<exists>maxBytes. 0 < maxBytes \<and> maxBytes < 2 ^ 62 \<and> sender_of (lk_ws lk) = sx_sender (initSession (cfg_version cfg) maxBytes)) \<and>
     peer_ok cfg 0 (lk_peer lk) \<and> lk_past lk = [] \<and> lk_pos lk = (0, 0) \<and> lk_acks lk = [] \<and> lk_reports lk = [0] \<and>
     lk_staged lk = [] \<and> lk_rounds lk = []"

text \<open>The steps: a round of the writer, for which a transport is attached with a number that was reported and counts
  what is written from then on; what other goroutines of either side do, which leaves the parts alone that only writer and
  reader change, and of the queues of the streams receives only: in the code the reader is the only sender on them; an acknowledgement handled; a round of the reader on any beginning of what is unread, with
  any error of the transport after it; the reader going over to a later transport; an acknowledgement taken up for sending; a
  report for a resume.\<close>

inductive link_run :: "('m, 'b) CodecImpl connConfig \<Rightarrow> ('m, 'b, 'h) link \<Rightarrow> bool" for cfg where
  lr_start: "link_start cfg lk \<Longrightarrow> link_run cfg lk"
| lr_write: "link_run cfg lk \<Longrightarrow>
     (phase', gen', ws') \<in> set (recoveryWriterLoop nets now now' (lk_phase lk, lk_gen lk, lk_ws lk)) \<Longrightarrow>
     (\<And>conn. nc_out (nets conn) = []) \<Longrightarrow>
     (\<And>conn gen seq. attachedTransport (lk_gen lk) (snd (lk_ws lk)) = Some (conn, gen, seq) \<Longrightarrow> seq \<in> set (lk_reports lk)) \<Longrightarrow>
     link_run cfg (lk\<lparr>lk_phase := phase', lk_gen := gen', lk_ws := ws',
       lk_past := (if lk_phase lk = LoopHead \<and> isWriting phase' then transports lk else lk_past lk),
       lk_staged := lk_staged lk @ newlyStaged (lk_ws lk) ws'\<rparr>)"
| lr_writer_env: "link_run cfg lk \<Longrightarrow> fst ws' = fst (lk_ws lk) \<Longrightarrow> sender_of ws' = sender_of (lk_ws lk) \<Longrightarrow>
     c_config (snd ws') = cfg \<Longrightarrow> has_recovery ws' \<Longrightarrow> queue_fits cfg ws' \<Longrightarrow> link_run cfg (lk\<lparr>lk_ws := ws'\<rparr>)"
| lr_ack: "link_run cfg lk \<Longrightarrow> a \<in> set (lk_acks lk) \<Longrightarrow>
     handleControlFrame (buildAckControlPayload a) (snd (lk_ws lk)) = (res, c') \<Longrightarrow>
     link_run cfg (lk\<lparr>lk_ws := (fst (lk_ws lk), c')\<rparr>)"
| lr_read: "link_run cfg lk \<Longrightarrow> c_recovery (lk_peer lk) = Some r \<Longrightarrow>
     nc_in net = take k (drop (snd (lk_pos lk)) (transports lk ! fst (lk_pos lk))) \<Longrightarrow>
     \<not> isMalformedFrameError (nc_in_err net) \<Longrightarrow>
     (\<And>c. c_recovery (env c) = c_recovery c) \<Longrightarrow> (\<And>c. c_config (env c) = c_config c) \<Longrightarrow> others_take taken env \<Longrightarrow>
     (nxt, net', c') \<in> set (recoveryReaderStep now env conn gen (lastReceived r) net (lk_peer lk)) \<Longrightarrow>
     link_run cfg (lk\<lparr>lk_peer := c', lk_rounds := lk_rounds lk @ [(lk_peer lk, c')],
       lk_pos := (fst (lk_pos lk), snd (lk_pos lk) + (case nxt of ReadOn m \<Rightarrow> length (nc_in net) - length (nc_in net') | _ \<Rightarrow> 0))\<rparr>)"
| lr_next: "link_run cfg lk \<Longrightarrow> fst (lk_pos lk) < j \<Longrightarrow> j < length (transports lk) \<Longrightarrow> link_run cfg (lk\<lparr>lk_pos := (j, 0)\<rparr>)"
| lr_reader_env: "link_run cfg lk \<Longrightarrow> c_config c' = cfg \<Longrightarrow> c_recovery (lk_peer lk) = Some r \<Longrightarrow> c_recovery c' = Some r' \<Longrightarrow>
     r_lastRecvSeq r' = r_lastRecvSeq r \<Longrightarrow> streams_ok c' \<Longrightarrow> (\<And>ref. \<exists>k. inq c' ref = drop k (inq (lk_peer lk) ref)) \<Longrightarrow>
     link_run cfg (lk\<lparr>lk_peer := c'\<rparr>)"
| lr_ack_send: "link_run cfg lk \<Longrightarrow> c_recovery (lk_peer lk) = Some r \<Longrightarrow>
     takePendingControl now now' r = ((kind, a, True), r') \<Longrightarrow>
     link_run cfg (lk\<lparr>lk_peer := (lk_peer lk)\<lparr>c_recovery := Some r'\<rparr>, lk_acks := lk_acks lk @ [a]\<rparr>)"
| lr_report: "link_run cfg lk \<Longrightarrow> c_recovery (lk_peer lk) = Some r \<Longrightarrow>
     link_run cfg (lk\<lparr>lk_reports := lk_reports lk @ [lastReceived r]\<rparr>)"

section \<open>The simulation\<close>

text \<open>What is unread on each transport, for a reader that has read \<open>q\<close> frames of transport \<open>i\<close>.\<close>

definition unread :: "sent list list \<Rightarrow> nat \<Rightarrow> nat \<Rightarrow> frameRecord list list" where
  "unread ess i q = dataOf (drop q (ess ! i)) # map dataOf (drop (Suc i) ess)"

lemma unread_send:
  assumes "i \<le> length ess" "q \<le> length ((ess @ [es]) ! i)"
  shows "unread (ess @ [es @ fs]) i q = butlast (unread (ess @ [es]) i q) @ [last (unread (ess @ [es]) i q) @ dataOf fs]"
proof (cases "i = length ess")
  case True
  then show ?thesis using assms by (simp add: unread_def)
next
  case False
  then have "i < length ess" using assms by simp
  then show ?thesis by (simp add: unread_def nth_append butlast_append)
qed

lemma unread_attach:
  assumes "i < length ess"
  shows "unread (ess @ [[]]) i q = unread ess i q @ [[]]"
  using assms by (simp add: unread_def nth_append)

lemma unread_skip:
  assumes "i < j" "j < length ess"
  shows "unread ess j 0 = drop (j - i) (unread ess i q)"
proof -
  obtain d where d: "j = Suc i + d" using assms(1) less_imp_add_positive by (metis add_Suc_right add_Suc gr0_implies_Suc)
  have "drop (j - i) (unread ess i q) = map dataOf (drop j ess)" by (simp add: unread_def d drop_map add.commute)
  also have "\<dots> = unread ess j 0" using assms(2) by (simp add: unread_def Cons_nth_drop_Suc flip: list.map(2))
  finally show ?thesis by simp
qed

lemma length_unread: "i < length ess \<Longrightarrow> length (unread ess i q) = length ess - i"
  by (simp add: unread_def Suc_diff_Suc)

lemma list_all2_snoc: "list_all2 P (xs @ [x]) (ys @ [y]) \<longleftrightarrow> list_all2 P xs ys \<and> P x y"
  using list_all2_rev [of P "x # rev xs" "y # rev ys"] by auto

text \<open>The session behind a link: the transports carry the frames \<open>ess\<close>, of which the last ones may not have arrived whole.\<close>

definition carries :: "('m, 'b, 'h) link \<Rightarrow> session \<Rightarrow> sent list list \<Rightarrow> nat \<Rightarrow> bool" where
  "carries lk st ess q \<longleftrightarrow>
     (let c = lk_peer lk; i = fst (lk_pos lk)
      in list_all2 (\<lambda>bs es. \<exists>k. bs = take k (wireBytes c es)) (transports lk) ess \<and>
         (isWriting (lk_phase lk) \<longrightarrow> last (transports lk) = wireBytes c (last ess)) \<and>
         (\<forall>es \<in> set ess. \<forall>e \<in> set es. sent_valid (c_config c) e) \<and>
         i < length ess \<and> q \<le> length (ess ! i) \<and> snd (lk_pos lk) = length (wireBytes c (take q (ess ! i))) \<and>
         sx_late st @ [sx_wire st] = unread ess i q)"

definition link_sim :: "('m, 'b) CodecImpl connConfig \<Rightarrow> ('m, 'b, 'h) link \<Rightarrow> session \<Rightarrow> bool" where
  "link_sim cfg lk st \<longleftrightarrow>
     wire_cfg cfg \<and> session_ok st \<and> sx_sender st = sender_of (lk_ws lk) \<and> (sx_up st \<longleftrightarrow> isWriting (lk_phase lk)) \<and>
     has_recovery (lk_ws lk) \<and> queue_fits cfg (lk_ws lk) \<and> c_config (snd (lk_ws lk)) = cfg \<and>
     peer_ok cfg (rx_last (sx_receiver st)) (lk_peer lk) \<and> rounds_ok (rx_log (sx_receiver st)) (lk_rounds lk) \<and>
     sx_acks st = lk_acks lk \<and> sx_reports st = lk_reports lk \<and> sx_staged st = lk_staged lk \<and>
     (\<forall>r \<in> set (lk_staged lk). record_fits cfg r) \<and> (\<exists>ess q. carries lk st ess q)"

lemma wireBytes_config: "c_config c = c_config d \<Longrightarrow> wireBytes c = wireBytes d"
  using sent_config(1) [of c d] by (simp add: wireBytes_def [abs_def])

lemma wireBytes_emitted:
  assumes "emits whole ws es ws'" "\<forall>e \<in> set es. sent_valid (c_config (snd ws)) e" "wire_cfg (c_config (snd ws))"
  shows "\<exists>k. bw_taken (w_bw (fst ws')) = bw_taken (w_bw (fst ws)) @ take k (wireBytes (snd ws) es) \<and>
    (whole \<longrightarrow> length (wireBytes (snd ws) es) \<le> k)"
  using assms sent_valid_ok [OF assms(3)] by (simp add: emits_def wireBytes_def)

text \<open>The session under a reader that goes on: the next frame, or later transports.\<close>

lemma recv_next:
  assumes ok: "session_ok st" and nx: "sx_late st @ [sx_wire st] = (f # fs) # rest"
  obtains x late' wire' where "rx_data f (sx_receiver st) = Inr x" "late' @ [wire'] = fs # rest"
    "session_step st (st\<lparr>sx_late := late', sx_wire := wire', sx_receiver := x\<rparr>)"
proof (cases "sx_late st")
  case Nil
  then have w: "sx_wire st = f # fs" "rest = []" using nx by simp_all
  obtain x where x: "rx_data f (sx_receiver st) = Inr x" using step_recv_ok [OF ok w(1)] by blast
  have "st\<lparr>sx_late := [], sx_wire := fs, sx_receiver := x\<rparr> = st\<lparr>sx_wire := fs, sx_receiver := x\<rparr>" using Nil by (cases st) simp
  then show thesis using that [OF x, of "[]" fs] st_recv [OF Nil w(1) x] w(2) by simp
next
  case (Cons old more)
  then have w: "sx_late st = (f # fs) # more" "more @ [sx_wire st] = rest" using nx by simp_all
  obtain x where x: "rx_data f (sx_receiver st) = Inr x" using step_recv_late_ok [OF ok w(1)] by blast
  have "st\<lparr>sx_late := fs # more, sx_wire := sx_wire st, sx_receiver := x\<rparr> = st\<lparr>sx_late := fs # more, sx_receiver := x\<rparr>" by (cases st) simp
  then show thesis using that [OF x, of "fs # more" "sx_wire st"] st_recv_late [OF w(1) x] w(2) by simp
qed

lemma skip_some: "k \<le> length (sx_late st) \<Longrightarrow> session_step\<^sup>*\<^sup>* st (st\<lparr>sx_late := drop k (sx_late st)\<rparr>)"
proof (induction k arbitrary: st)
  case 0
  then show ?case by (cases st) simp
next
  case (Suc k)
  then obtain old rest where l: "sx_late st = old # rest" by (cases "sx_late st") auto
  have "session_step st (st\<lparr>sx_late := rest\<rparr>)" by (rule st_skip [OF l])
  moreover have "session_step\<^sup>*\<^sup>* (st\<lparr>sx_late := rest\<rparr>) (st\<lparr>sx_late := drop k rest\<rparr>)"
    using Suc.IH [of "st\<lparr>sx_late := rest\<rparr>"] Suc.prems l by simp
  ultimately show ?case by (simp add: l converse_rtranclp_into_rtranclp)
qed

text \<open>What the replay buffer took, read off the history.\<close>

lemma newlyStaged_history:
  assumes "session_ok st" "sx_sender st = sender_of ws" "session_ok st'" "sx_sender st' = sender_of ws'"
    and staged: "sx_staged st' = sx_staged st @ rs"
    and acked: "rb_lastAcked (sn_replay (sx_sender st')) = rb_lastAcked (sn_replay (sx_sender st))"
  shows "newlyStaged ws ws' = rs"
proof -
  note d = session_okD [OF assms(1)] and d' = session_okD [OF assms(3)]
  have "unat (rb_lastAcked (sn_replay (sx_sender st))) \<le> length (sx_staged st)"
    using d(3,5,6) by (simp add: word_le_nat_alt)
  then have "kept (sn_replay (sx_sender st')) = kept (sn_replay (sx_sender st)) @ rs"
    using d(4) d'(4) acked staged by simp
  then show ?thesis using assms(2,4) by (simp add: newlyStaged_def)
qed

lemma newlyStaged_begin:
  assumes "session_ok st" "sx_sender st = sender_of ws" "sender_of ws' = sd_begin n (sender_of ws)"
  shows "newlyStaged ws ws' = []"
proof -
  note d = session_okD [OF assms(1)]
  let ?l = "min n (sn_next (sx_sender st))"
  have "kept (sn_replay (sender_of ws')) = kept (snd (ack (sn_replay (sx_sender st)) ?l))"
    using assms(2,3) by (simp add: sd_begin_def Let_def)
  also have "\<dots> = drop (unat (max (rb_lastAcked (sn_replay (sx_sender st))) ?l)) (sx_staged st)"
    by (rule replay_ack_spec(3) [OF d(1,2,4)])
  finally have "length (kept (sn_replay (sender_of ws'))) \<le> length (kept (sn_replay (sx_sender st)))"
    using d(4) by (simp add: unat_max)
  then show ?thesis using assms(2) by (simp add: newlyStaged_def)
qed

section \<open>Every step of the link is one of the session\<close>

lemma link_simD:
  assumes "link_sim cfg lk st"
  shows "wire_cfg cfg" "session_ok st" "sx_sender st = sender_of (lk_ws lk)" "sx_up st \<longleftrightarrow> isWriting (lk_phase lk)"
    "has_recovery (lk_ws lk)" "queue_fits cfg (lk_ws lk)" "c_config (snd (lk_ws lk)) = cfg"
    "peer_ok cfg (rx_last (sx_receiver st)) (lk_peer lk)" "rounds_ok (rx_log (sx_receiver st)) (lk_rounds lk)"
    "sx_acks st = lk_acks lk" "sx_reports st = lk_reports lk" "sx_staged st = lk_staged lk"
    "\<forall>r \<in> set (lk_staged lk). record_fits cfg r" "\<exists>ess q. carries lk st ess q" "c_config (lk_peer lk) = cfg"
  using assms by (simp_all add: link_sim_def peer_ok_def)

text \<open>What is carried depends on the bytes, the phase, the position and the reader's configuration.\<close>

lemma carries_cong:
  assumes "carries lk st ess q" "transports lk' = transports lk" "lk_phase lk' = lk_phase lk" "lk_pos lk' = lk_pos lk"
    "c_config (lk_peer lk') = c_config (lk_peer lk)" "sx_late st' @ [sx_wire st'] = sx_late st @ [sx_wire st]"
  shows "carries lk' st' ess q"
  using assms wireBytes_config [OF assms(5)] by (simp add: carries_def Let_def)

lemma dataOf_member: "Data r \<in> set es \<Longrightarrow> r \<in> set (dataOf es)"
  by (induction es rule: list.induct) (auto simp: dataOf_def)

text \<open>The sending side. The writer goes on, and the frames of the round are added to the last transport.\<close>

lemma carries_send:
  assumes c: "carries lk st ess q"
    and st': "sx_late st' = sx_late st" "sx_wire st' = sx_wire st @ dataOf es"
    and valid: "\<forall>e \<in> set es. sent_valid (c_config (lk_peer lk)) e"
    and taken: "bw_taken (w_bw (fst ws')) = bw_taken (w_bw (fst (lk_ws lk))) @ take k (wireBytes (lk_peer lk) es)"
    and whole: "isWriting phase' \<longrightarrow> length (wireBytes (lk_peer lk) es) \<le> k"
    and idle: "\<not> isWriting (lk_phase lk) \<Longrightarrow> es = [] \<and> \<not> isWriting phase'"
  shows "\<exists>ess'. carries (lk\<lparr>lk_phase := phase', lk_gen := gen', lk_ws := ws', lk_staged := h\<rparr>) st' ess' q"
proof -
  let ?c = "lk_peer lk" and ?i = "fst (lk_pos lk)"
  let ?lk = "lk\<lparr>lk_phase := phase', lk_gen := gen', lk_ws := ws', lk_staged := h\<rparr>"
  have "ess \<noteq> []" using c by (auto simp: carries_def Let_def)
  then obtain old cur where ess: "ess = old @ [cur]" by (metis rev_exhaust)
  have c': "list_all2 (\<lambda>bs es. \<exists>k. bs = take k (wireBytes ?c es)) (lk_past lk) old"
    "\<exists>k. bw_taken (w_bw (fst (lk_ws lk))) = take k (wireBytes ?c cur)"
    "isWriting (lk_phase lk) \<longrightarrow> bw_taken (w_bw (fst (lk_ws lk))) = wireBytes ?c cur"
    "\<forall>es \<in> set (old @ [cur]). \<forall>e \<in> set es. sent_valid (c_config ?c) e"
    "?i \<le> length old" "q \<le> length ((old @ [cur]) ! ?i)" "snd (lk_pos lk) = length (wireBytes ?c (take q ((old @ [cur]) ! ?i)))"
    "sx_late st @ [sx_wire st] = unread (old @ [cur]) ?i q"
    using c by (simp_all add: carries_def Let_def transports_def ess list_all2_snoc)
  have at: "(old @ [cur @ es]) ! ?i = (if ?i = length old then cur @ es else (old @ [cur]) ! ?i)"
    using c'(5) by (auto simp: nth_append)
  have wire: "sx_wire st = last (unread (old @ [cur]) ?i q)" "sx_late st = butlast (unread (old @ [cur]) ?i q)"
    using c'(8) by (metis last_snoc, metis butlast_snoc)
  have "sx_late st' @ [sx_wire st'] = unread (old @ [cur @ es]) ?i q"
    unfolding unread_send [OF c'(5,6)] using st' wire by simp
  moreover have "\<exists>k. bw_taken (w_bw (fst ws')) = take k (wireBytes ?c (cur @ es))"
    "isWriting phase' \<longrightarrow> bw_taken (w_bw (fst ws')) = wireBytes ?c (cur @ es)"
  proof -
    show "\<exists>k. bw_taken (w_bw (fst ws')) = take k (wireBytes ?c (cur @ es))"
    proof (cases "isWriting (lk_phase lk)")
      case True
      then have "bw_taken (w_bw (fst ws')) = take (length (wireBytes ?c cur) + k) (wireBytes ?c (cur @ es))"
        using taken c'(3) by simp
      then show ?thesis by blast
    next
      case False
      then show ?thesis using taken c'(2) idle by simp
    qed
    show "isWriting phase' \<longrightarrow> bw_taken (w_bw (fst ws')) = wireBytes ?c (cur @ es)"
      using taken whole c'(3) idle by auto
  qed
  moreover have "take q ((old @ [cur @ es]) ! ?i) = take q ((old @ [cur]) ! ?i)" "q \<le> length ((old @ [cur @ es]) ! ?i)"
    using c'(6) at by auto
  ultimately have "carries ?lk st' (old @ [cur @ es]) q"
    using c' valid by (auto simp: carries_def Let_def transports_def list_all2_snoc)
  then show ?thesis by blast
qed

lemma sim_write_same:
  assumes sim: "link_sim cfg lk st"
    and out: "(phase', gen', ws') \<in> set (recoveryWriterLoop nets now now' (lk_phase lk, lk_gen lk, lk_ws lk))"
    and no: "lk_phase lk = LoopHead \<Longrightarrow> attachedTransport (lk_gen lk) (snd (lk_ws lk)) = None"
  shows "\<exists>st'. session_step\<^sup>*\<^sup>* st st' \<and> \<not> (lk_phase lk = LoopHead \<and> isWriting phase') \<and>
    link_sim cfg (lk\<lparr>lk_phase := phase', lk_gen := gen', lk_ws := ws', lk_staged := lk_staged lk @ newlyStaged (lk_ws lk) ws'\<rparr>) st'"
proof -
  note s = link_simD [OF sim]
  obtain ess q where c: "carries lk st ess q" using s(14) by blast
  obtain st' es where k: "follows cfg st st' ws'" "sx_up st' \<longleftrightarrow> isWriting phase'" "sx_wire st' = sx_wire st @ dataOf es"
    "emits (isWriting phase') (lk_ws lk) es ws'" "has_recovery ws'" "queue_fits cfg ws'"
    "\<not> isWriting (lk_phase lk) \<longrightarrow> es = [] \<and> \<not> isWriting phase'"
    using writer_round_same [OF out no s(3,4,5)] s(6,7) by auto
  obtain rs where rs: "sx_staged st' = sx_staged st @ rs" "\<forall>r \<in> set rs. record_fits cfg r" using k(1) by (auto simp: follows_def)
  have run: "session_step\<^sup>*\<^sup>* st st'" "sx_sender st' = sender_of ws'" "sx_receiver st' = sx_receiver st" "sx_late st' = sx_late st"
    "sx_acks st' = sx_acks st" "sx_reports st' = sx_reports st" using k(1) by (simp_all add: follows_def)
  have ok: "session_ok st'" by (rule session_steps_ok [OF run(1) s(2)])
  have new: "newlyStaged (lk_ws lk) ws' = rs"
    using k(1) by (intro newlyStaged_history [OF s(2,3) ok run(2) rs(1)]) (auto simp: follows_def)
  have fits: "\<forall>r \<in> set (sx_staged st'). record_fits cfg r" using rs s(12,13) by auto
  have valid: "\<forall>e \<in> set es. sent_valid cfg e"
  proof
    fix e assume e: "e \<in> set es"
    show "sent_valid cfg e"
    proof (cases e)
      case (Data r)
      then have "r \<in> set (sx_wire st')" using dataOf_member e k(3) by simp
      then show ?thesis using session_okD(8) [OF ok] fits Data by auto
    next
      case (Control p)
      then show ?thesis using e k(4) by (simp add: emits_def)
    qed
  qed
  have cc: "wireBytes (snd (lk_ws lk)) = wireBytes (lk_peer lk)" by (rule wireBytes_config) (simp add: s(7,15))
  obtain n where n: "bw_taken (w_bw (fst ws')) = bw_taken (w_bw (fst (lk_ws lk))) @ take n (wireBytes (lk_peer lk) es)"
    "isWriting phase' \<longrightarrow> length (wireBytes (lk_peer lk) es) \<le> n"
    using wireBytes_emitted [OF k(4)] valid s(1,7) cc by auto
  have "\<exists>ess'. carries (lk\<lparr>lk_phase := phase', lk_gen := gen', lk_ws := ws', lk_staged := lk_staged lk @ rs\<rparr>) st' ess' q"
    using valid k(7) s(15) by (intro carries_send [OF c run(4) k(3) _ n]) auto
  moreover have "c_config (snd ws') = cfg" using k(4) s(7) by (simp add: emits_def)
  ultimately have "link_sim cfg (lk\<lparr>lk_phase := phase', lk_gen := gen', lk_ws := ws', lk_staged := lk_staged lk @ rs\<rparr>) st'"
    using s k rs ok run fits unfolding link_sim_def by auto
  then show ?thesis using run(1) new k(7) by (intro exI [of _ st']) auto
qed

lemma sim_write_attach:
  assumes sim: "link_sim cfg lk st" and head: "lk_phase lk = LoopHead"
    and t: "attachedTransport (lk_gen lk) (snd (lk_ws lk)) = Some (conn, gen, seq)" "seq \<in> set (lk_reports lk)"
    and out: "(phase', gen', ws') \<in> set (recoveryWriterLoop nets now now' (lk_phase lk, lk_gen lk, lk_ws lk))"
    and net: "nc_out (nets conn) = []"
  shows "\<exists>st'. session_step\<^sup>*\<^sup>* st st' \<and> isWriting phase' \<and>
    link_sim cfg (lk\<lparr>lk_phase := phase', lk_gen := gen', lk_ws := ws', lk_past := transports lk,
      lk_staged := lk_staged lk @ newlyStaged (lk_ws lk) ws'\<rparr>) st'"
proof -
  note s = link_simD [OF sim]
  obtain ess q where c: "carries lk st ess q" using s(14) by blast
  let ?st = "st\<lparr>sx_sender := sender_of ws', sx_up := True, sx_late := sx_late st @ [sx_wire st], sx_wire := []\<rparr>"
  let ?lk = "lk\<lparr>lk_phase := phase', lk_gen := gen', lk_ws := ws', lk_past := transports lk, lk_staged := lk_staged lk @ []\<rparr>"
  have k: "session_step st ?st" "isWriting phase'" "has_recovery ws'" "queue_fits cfg ws'"
    "c_config (snd ws') = cfg" "w_bw (fst ws') = newBufioWriter (nets conn)"
    using writer_round_attach [OF t(1) out [unfolded head] s(3,5,6)] t(2) s(7,11) by auto
  have "sender_of ws' = sd_begin seq (sender_of (lk_ws lk))"
    using out t(1) beginTransport_abs(1) [OF s(5,6)] by (auto simp: head recoveryWriterLoop_def)
  then have new: "newlyStaged (lk_ws lk) ws' = []" by (rule newlyStaged_begin [OF s(2,3)])
  have bw: "bw_taken (w_bw (fst ws')) = []" using k(6) net by (simp add: newBufioWriter_def bw_taken_def)
  have "transports ?lk = transports lk @ [[]]" by (simp add: transports_def bw)
  moreover have "i < length ess \<Longrightarrow> (ess @ [[]]) ! i = ess ! i" for i by (simp add: nth_append)
  ultimately have "carries ?lk ?st (ess @ [[]]) q"
    using c unread_attach [of "fst (lk_pos lk)" ess q]
    by (auto simp: carries_def Let_def list_all2_snoc)
  then have "link_sim cfg ?lk ?st"
    using s k session_step_ok [OF k(1) s(2)] unfolding link_sim_def by auto
  then show ?thesis using k(1,2) new by (intro exI [of _ ?st]) auto
qed

text \<open>The reading side.\<close>

lemma carries_unread:
  assumes "carries lk st ess q"
  shows "\<exists>n. drop (snd (lk_pos lk)) (transports lk ! fst (lk_pos lk)) = take n (wireBytes (lk_peer lk) (drop q (ess ! fst (lk_pos lk))))"
proof -
  let ?es = "ess ! fst (lk_pos lk)" and ?c = "lk_peer lk"
  let ?r = "wireBytes ?c (take q ?es)" and ?u = "wireBytes ?c (drop q ?es)"
  obtain n where n: "transports lk ! fst (lk_pos lk) = take n (wireBytes ?c ?es)"
    using assms by (auto simp: carries_def Let_def list_all2_conv_all_nth)
  have "wireBytes ?c ?es = ?r @ ?u" by (simp flip: wireBytes_simps(3))
  moreover have "drop (length ?r) (take n (?r @ ?u)) = take (n - length ?r) ?u" by (subst drop_take) simp
  moreover have "snd (lk_pos lk) = length ?r" using assms by (simp add: carries_def Let_def)
  ultimately show ?thesis using n by metis
qed

text \<open>The reader has taken in one frame.\<close>

lemma carries_read:
  assumes c: "carries lk st ess q" and e: "drop q (ess ! fst (lk_pos lk)) = e # es"
    and len: "n = length (sentBytes (lk_peer lk) e)" and cfg: "c_config c' = c_config (lk_peer lk)"
    and st': "sx_late st' @ [sx_wire st'] = dataOf es # tl (sx_late st @ [sx_wire st])"
  shows "carries (lk\<lparr>lk_peer := c', lk_rounds := l, lk_pos := (fst (lk_pos lk), snd (lk_pos lk) + n)\<rparr>) st' ess (Suc q)"
proof -
  let ?es = "ess ! fst (lk_pos lk)"
  have lt: "q < length ?es" using e by (cases "q < length ?es") auto
  have "e = ?es ! q" "es = drop (Suc q) ?es" using e Cons_nth_drop_Suc [OF lt] by simp_all
  moreover have "take (Suc q) ?es = take q ?es @ [?es ! q]" using lt by (rule take_Suc_conv_app_nth)
  ultimately show ?thesis
    using c lt st' len wireBytes_config [OF cfg] sent_config(1) [OF cfg]
    by (simp add: carries_def Let_def unread_def transports_def cfg)
qed

lemma link_sim_reader:
  assumes "link_sim cfg lk st" "session_ok (st\<lparr>sx_late := late, sx_wire := wire, sx_receiver := x\<rparr>)"
    "peer_ok cfg (rx_last x) c'" "rounds_ok (rx_log x) l"
    "carries (lk\<lparr>lk_peer := c', lk_rounds := l, lk_pos := pos\<rparr>) (st\<lparr>sx_late := late, sx_wire := wire, sx_receiver := x\<rparr>) ess q"
  shows "link_sim cfg (lk\<lparr>lk_peer := c', lk_rounds := l, lk_pos := pos\<rparr>)
     (st\<lparr>sx_late := late, sx_wire := wire, sx_receiver := x\<rparr>)"
  unfolding link_sim_def using link_simD [OF assms(1)] assms(2-4) by (intro conjI exI, rule_tac [14] assms(5)) simp_all

lemma carries_valid:
  assumes "carries lk st ess q" "c_config (lk_peer lk) = cfg"
  shows "\<forall>e \<in> set (drop q (ess ! fst (lk_pos lk))). sent_valid cfg e"
proof -
  have "\<forall>es \<in> set ess. \<forall>e \<in> set es. sent_valid cfg e" "fst (lk_pos lk) < length ess"
    using assms by (simp_all add: carries_def Let_def)
  then show ?thesis by (meson in_set_dropD nth_mem)
qed

text \<open>What the reader has before it: the frames \<open>es\<close> of its transport, of which it can take in the first.\<close>

lemma link_sim_unread:
  assumes sim: "link_sim cfg lk st"
  obtains ess q es where "carries lk st ess q" "es = drop q (ess ! fst (lk_pos lk))" "\<forall>e \<in> set es. sent_valid cfg e"
    "sx_late st @ [sx_wire st] = dataOf es # map dataOf (drop (Suc (fst (lk_pos lk))) ess)"
    "\<forall>k. \<exists>n. take k (drop (snd (lk_pos lk)) (transports lk ! fst (lk_pos lk))) = take n (wireBytes (lk_peer lk) es)"
    "\<forall>f es'. es = Data f # es' \<longrightarrow> (\<exists>x. rx_data f (sx_receiver st) = Inr x)"
proof -
  note s = link_simD [OF sim]
  obtain ess q where c: "carries lk st ess q" using s(14) by blast
  let ?es = "drop q (ess ! fst (lk_pos lk))"
  have un: "sx_late st @ [sx_wire st] = dataOf ?es # map dataOf (drop (Suc (fst (lk_pos lk))) ess)"
    using c by (simp add: carries_def Let_def unread_def)
  have "\<exists>x. rx_data f (sx_receiver st) = Inr x" if "?es = Data f # es'" for f es'
  proof -
    have nx: "sx_late st @ [sx_wire st] = (f # dataOf es') # map dataOf (drop (Suc (fst (lk_pos lk))) ess)" using un that by simp
    show ?thesis by (rule recv_next [OF s(2) nx]) blast
  qed
  moreover have "\<exists>n. take k (drop (snd (lk_pos lk)) (transports lk ! fst (lk_pos lk))) = take n (wireBytes (lk_peer lk) ?es)" for k
    using carries_unread [OF c] by (metis take_take)
  ultimately show thesis using that [OF c refl carries_valid [OF c s(15)] un] by blast
qed

lemma sim_read:
  assumes sim: "link_sim cfg lk st" and r: "c_recovery (lk_peer lk) = Some r"
    and inp: "nc_in net = take k (drop (snd (lk_pos lk)) (transports lk ! fst (lk_pos lk)))"
    and err: "\<not> isMalformedFrameError (nc_in_err net)"
    and env: "\<And>c. c_recovery (env c) = c_recovery c" "\<And>c. c_config (env c) = c_config c" "others_take taken env"
    and out: "(nxt, net', c') \<in> set (recoveryReaderStep now env conn gen (lastReceived r) net (lk_peer lk))"
  shows "\<exists>st'. session_step\<^sup>*\<^sup>* st st' \<and>
    link_sim cfg (lk\<lparr>lk_peer := c', lk_rounds := lk_rounds lk @ [(lk_peer lk, c')],
      lk_pos := (fst (lk_pos lk), snd (lk_pos lk) + (case nxt of ReadOn m \<Rightarrow> length (nc_in net) - length (nc_in net') | _ \<Rightarrow> 0))\<rparr>) st'"
    (is "\<exists>st'. _ \<and> link_sim cfg ?lk st'")
proof -
  note s = link_simD [OF sim]
  let ?x = "sx_receiver st" and ?i = "fst (lk_pos lk)"
  obtain ess q es where c: "carries lk st ess q" and es: "es = drop q (ess ! ?i)" and valid: "\<forall>e \<in> set es. sent_valid cfg e"
    and un: "sx_late st @ [sx_wire st] = dataOf es # map dataOf (drop (Suc ?i) ess)"
    and bytes: "\<forall>k. \<exists>n. take k (drop (snd (lk_pos lk)) (transports lk ! ?i)) = take n (wireBytes (lk_peer lk) es)"
    and acc: "\<forall>f es'. es = Data f # es' \<longrightarrow> (\<exists>x. rx_data f ?x = Inr x)"
    by (rule link_sim_unread [OF sim]) blast
  have last: "lastReceived r = rx_last ?x" using s(8) r by (simp add: peer_ok_def lastReceived_def)
  obtain n where n: "nc_in net = take n (wireBytes (lk_peer lk) es)" using bytes inp by metis
  show ?thesis
  proof (cases rule: reader_round [OF s(8) s(1) valid env n err out [unfolded last] acc, case_names quiet control data])
    case quiet
    then have "(case nxt of ReadOn m \<Rightarrow> length (nc_in net) - length (nc_in net') | _ \<Rightarrow> 0) = 0"
      by (auto split: readerNext.split)
    then have lk: "?lk = lk\<lparr>lk_peer := c', lk_rounds := lk_rounds lk @ [(lk_peer lk, c')]\<rparr>" by simp
    have "carries ?lk st ess q"
      unfolding lk by (rule carries_cong [OF c]) (use quiet(2) s(15) in \<open>simp_all add: transports_def peer_ok_def\<close>)
    moreover have "rounds_ok (rx_log ?x) (lk_rounds lk @ [(lk_peer lk, c')])"
      using s(9) quiet(3) peer_advanced [OF s(8) quiet(2)] by (simp add: rounds_quiet)
    ultimately have "link_sim cfg ?lk st"
      using s quiet(2) unfolding link_sim_def lk by auto
    then show ?thesis by blast
  next
    case (control p es')
    have "carries ?lk st ess (Suc q)"
      unfolding control(2) readerNext.case
      by (rule carries_read [OF c control(1) [unfolded es]]) (use control s(15) un in \<open>simp_all add: peer_ok_def\<close>)
    moreover have "rounds_ok (rx_log ?x) (lk_rounds lk @ [(lk_peer lk, c')])"
      using s(9) control(5) peer_advanced [OF s(8) control(3)] by (simp add: rounds_quiet)
    ultimately have "link_sim cfg ?lk (st\<lparr>sx_late := sx_late st, sx_wire := sx_wire st, sx_receiver := sx_receiver st\<rparr>)"
      using s(2) control(3) by (intro link_sim_reader [OF sim]) simp_all
    then show ?thesis by auto
  next
    case (data f es' x')
    have nx: "sx_late st @ [sx_wire st] = (f # dataOf es') # map dataOf (drop (Suc ?i) ess)" using un data(1) by simp
    obtain late' wire' where st': "late' @ [wire'] = dataOf es' # map dataOf (drop (Suc ?i) ess)"
      "session_step st (st\<lparr>sx_late := late', sx_wire := wire', sx_receiver := x'\<rparr>)"
      by (rule recv_next [OF s(2) nx]) (use data(2) in simp)
    let ?st = "st\<lparr>sx_late := late', sx_wire := wire', sx_receiver := x'\<rparr>"
    have "carries ?lk ?st ess (Suc q)"
      unfolding data(3) readerNext.case
      by (rule carries_read [OF c data(1) [unfolded es]]) (use data st'(1) s(15) un in \<open>simp_all add: peer_ok_def\<close>)
    moreover have "rounds_ok (rx_log x') (lk_rounds lk @ [(lk_peer lk, c')])"
      using s(9) data(6) peer_advanced [OF s(8) data(4)] rx_data_log [OF data(2)]
      by (auto simp: rounds_quiet rounds_fed split: if_splits)
    ultimately have "link_sim cfg ?lk ?st"
      by (intro link_sim_reader [OF sim session_step_ok [OF st'(2) s(2)] data(4)]) simp_all
    with st'(2) show ?thesis by blast
  qed
qed

lemma sim_next:
  assumes sim: "link_sim cfg lk st" and j: "fst (lk_pos lk) < j" "j < length (transports lk)"
  shows "\<exists>st'. session_step\<^sup>*\<^sup>* st st' \<and> link_sim cfg (lk\<lparr>lk_pos := (j, 0)\<rparr>) st'"
proof -
  note s = link_simD [OF sim]
  obtain ess q where c: "carries lk st ess q" using s(14) by blast
  let ?d = "j - fst (lk_pos lk)"
  let ?st = "st\<lparr>sx_late := drop ?d (sx_late st)\<rparr>"
  have un: "sx_late st @ [sx_wire st] = unread ess (fst (lk_pos lk)) q" "fst (lk_pos lk) < length ess"
    "length (transports lk) = length ess"
    using c by (auto simp: carries_def Let_def dest: list_all2_lengthD)
  have "length (sx_late st @ [sx_wire st]) = length ess - fst (lk_pos lk)" using un length_unread by metis
  then have le: "?d \<le> length (sx_late st)" using j un(3) by simp
  have run: "session_step\<^sup>*\<^sup>* st ?st" by (rule skip_some [OF le])
  have "drop ?d (sx_late st) @ [sx_wire st] = drop ?d (sx_late st @ [sx_wire st])" using le by simp
  also have "\<dots> = unread ess j 0" using unread_skip [OF j(1), of ess q] un j(2) by simp
  finally have "carries (lk\<lparr>lk_pos := (j, 0)\<rparr>) ?st ess 0"
    using c j(2) un(3) by (simp add: carries_def Let_def transports_def)
  then have "link_sim cfg (lk\<lparr>lk_pos := (j, 0)\<rparr>) ?st"
    using s session_steps_ok [OF run s(2)] unfolding link_sim_def by auto
  with run show ?thesis by blast
qed

lemma link_sim_writer:
  assumes "link_sim cfg lk st" "session_ok (st\<lparr>sx_sender := sender_of ws'\<rparr>)" "fst ws' = fst (lk_ws lk)"
    "c_config (snd ws') = cfg" "has_recovery ws'" "queue_fits cfg ws'"
  shows "link_sim cfg (lk\<lparr>lk_ws := ws'\<rparr>) (st\<lparr>sx_sender := sender_of ws'\<rparr>)"
proof -
  note s = link_simD [OF assms(1)]
  obtain ess q where "carries lk st ess q" using s(14) by blast
  then have "carries (lk\<lparr>lk_ws := ws'\<rparr>) (st\<lparr>sx_sender := sender_of ws'\<rparr>) ess q"
    by (rule carries_cong) (simp_all add: transports_def assms(3))
  then show ?thesis unfolding link_sim_def using s assms(2,4-6) by auto
qed

lemma sim_ack:
  assumes sim: "link_sim cfg lk st" and a: "a \<in> set (lk_acks lk)"
    and out: "handleControlFrame (buildAckControlPayload a) (snd (lk_ws lk)) = (res, c')"
  shows "\<exists>st'. session_step\<^sup>*\<^sup>* st st' \<and> link_sim cfg (lk\<lparr>lk_ws := (fst (lk_ws lk), c')\<rparr>) st'"
proof -
  note s = link_simD [OF sim]
  let ?c = "snd (lk_ws lk)"
  have c': "c' = signalSend (?c\<lparr>c_recovery := map_option (ackReceived a) (c_recovery ?c)\<rparr>)"
    using out control_payload_exact [of "buildAckControlPayload a" controlTypeAck a] by (simp add: handleControlFrame_def)
  let ?ws = "(fst (lk_ws lk), c')"
  have "sd_ack a (sx_sender st) = sender_of ?ws"
    using s(3,5) by (cases "lk_ws lk") (auto simp: c' sd_ack_def sender_of_def ackReceived_def has_recovery_def)
  then have step: "session_step st (st\<lparr>sx_sender := sender_of ?ws\<rparr>)" using st_ack_recv [of a st] a s(10) by simp
  have "link_sim cfg (lk\<lparr>lk_ws := ?ws\<rparr>) (st\<lparr>sx_sender := sender_of ?ws\<rparr>)"
    using s(5-7) by (intro link_sim_writer [OF sim session_step_ok [OF step s(2)]])
      (auto simp: c' has_recovery_def queue_fits_def)
  with step show ?thesis by blast
qed

lemma link_sim_peer:
  assumes "link_sim cfg lk st" "session_ok (st\<lparr>sx_acks := as, sx_reports := ns\<rparr>)" "peer_ok cfg (rx_last (sx_receiver st)) c'"
  shows "link_sim cfg (lk\<lparr>lk_peer := c', lk_acks := as, lk_reports := ns\<rparr>) (st\<lparr>sx_acks := as, sx_reports := ns\<rparr>)"
proof -
  note s = link_simD [OF assms(1)]
  obtain ess q where "carries lk st ess q" using s(14) by blast
  then have "carries (lk\<lparr>lk_peer := c', lk_acks := as, lk_reports := ns\<rparr>) (st\<lparr>sx_acks := as, sx_reports := ns\<rparr>) ess q"
    by (rule carries_cong) (use assms(3) s(15) in \<open>simp_all add: transports_def peer_ok_def\<close>)
  then show ?thesis unfolding link_sim_def using s assms(2,3) by auto
qed

lemma sim_peer:
  assumes sim: "link_sim cfg lk st" and r: "c_recovery (lk_peer lk) = Some r"
    and c': "c_config c' = cfg" "c_recovery c' = Some r'" "r_lastRecvSeq r' = r_lastRecvSeq r" "streams_ok c'"
  shows "link_sim cfg (lk\<lparr>lk_peer := c'\<rparr>) st"
    and "\<exists>st'. session_step\<^sup>*\<^sup>* st st' \<and> link_sim cfg (lk\<lparr>lk_peer := c', lk_acks := lk_acks lk @ [r_lastRecvSeq r]\<rparr>) st'"
    and "\<exists>st'. session_step\<^sup>*\<^sup>* st st' \<and> link_sim cfg (lk\<lparr>lk_peer := c', lk_reports := lk_reports lk @ [r_lastRecvSeq r]\<rparr>) st'"
proof -
  note s = link_simD [OF sim]
  have n: "r_lastRecvSeq r = rx_last (sx_receiver st)" using s(8) r by (simp add: peer_ok_def)
  then have p: "peer_ok cfg (rx_last (sx_receiver st)) c'" using c' by (simp add: peer_ok_def)
  have same: "lk\<lparr>lk_peer := c', lk_acks := lk_acks lk, lk_reports := ns\<rparr> = lk\<lparr>lk_peer := c', lk_reports := ns\<rparr>"
    "lk\<lparr>lk_peer := c', lk_acks := as, lk_reports := lk_reports lk\<rparr> = lk\<lparr>lk_peer := c', lk_acks := as\<rparr>"
    "st\<lparr>sx_acks := sx_acks st, sx_reports := ns\<rparr> = st\<lparr>sx_reports := ns\<rparr>"
    "st\<lparr>sx_acks := as, sx_reports := sx_reports st\<rparr> = st\<lparr>sx_acks := as\<rparr>" "st\<lparr>sx_acks := sx_acks st\<rparr> = st" for as ns
    by simp_all
  have same0: "st\<lparr>sx_acks := lk_acks lk, sx_reports := lk_reports lk\<rparr> = st" using s(10,11) by (cases st) simp
  have st: "session_step st (st\<lparr>sx_acks := sx_acks st @ [r_lastRecvSeq r]\<rparr>)"
    "session_step st (st\<lparr>sx_reports := sx_reports st @ [r_lastRecvSeq r]\<rparr>)"
    unfolding n by (rule st_ack_send, rule st_report)
  note ok = session_step_ok [OF st(1) s(2)] session_step_ok [OF st(2) s(2)]
  show "link_sim cfg (lk\<lparr>lk_peer := c'\<rparr>) st"
    using link_sim_peer [OF sim, where as = "sx_acks st" and ns = "sx_reports st" and c' = c'] s(2,10,11) p same0 by simp
  have "link_sim cfg (lk\<lparr>lk_peer := c', lk_acks := lk_acks lk @ [r_lastRecvSeq r]\<rparr>) (st\<lparr>sx_acks := sx_acks st @ [r_lastRecvSeq r]\<rparr>)"
    using link_sim_peer [OF sim, where as = "sx_acks st @ [r_lastRecvSeq r]" and ns = "sx_reports st", unfolded same, OF ok(1) p]
    by (simp only: s(10,11) same)
  with st(1) show "\<exists>st'. session_step\<^sup>*\<^sup>* st st' \<and> link_sim cfg (lk\<lparr>lk_peer := c', lk_acks := lk_acks lk @ [r_lastRecvSeq r]\<rparr>) st'"
    by blast
  have "link_sim cfg (lk\<lparr>lk_peer := c', lk_reports := lk_reports lk @ [r_lastRecvSeq r]\<rparr>) (st\<lparr>sx_reports := sx_reports st @ [r_lastRecvSeq r]\<rparr>)"
    using link_sim_peer [OF sim, where as = "sx_acks st" and ns = "sx_reports st @ [r_lastRecvSeq r]", unfolded same, OF ok(2) p]
    by (simp only: s(10,11) same)
  with st(2) show "\<exists>st'. session_step\<^sup>*\<^sup>* st st' \<and> link_sim cfg (lk\<lparr>lk_peer := c', lk_reports := lk_reports lk @ [r_lastRecvSeq r]\<rparr>) st'"
    by blast
qed

lemma sim_start:
  assumes "link_start cfg lk"
  shows "\<exists>st. link_sim cfg lk st"
proof -
  obtain m where m: "0 < m" "m < 2 ^ 62" "sender_of (lk_ws lk) = sx_sender (initSession (cfg_version cfg) m)"
    using assms by (auto simp: link_start_def)
  let ?st = "initSession (cfg_version cfg) m"
  have "carries lk ?st [[]] 0"
    using assms by (simp add: carries_def transports_def unread_def link_start_def initSession_def Let_def)
  then have "link_sim cfg lk ?st"
    using assms m(3) initSession_ok [OF m(1,2)] unfolding link_sim_def
    by (auto simp: link_start_def initSession_def rounds_ok_def)
  then show ?thesis by blast
qed

text \<open>Every run of the link is a run of the session.\<close>

lemma link_run_sim: "link_run cfg lk \<Longrightarrow> \<exists>st. link_sim cfg lk st"
proof (induction rule: link_run.induct)
  case (lr_start lk)
  then show ?case by (rule sim_start)
next
  case (lr_write lk phase' gen' ws' nets now now')
  then obtain st where sim: "link_sim cfg lk st" by blast
  show ?case
  proof (cases "lk_phase lk = LoopHead \<and> attachedTransport (lk_gen lk) (snd (lk_ws lk)) \<noteq> None")
    case True
    then obtain conn gen seq where "attachedTransport (lk_gen lk) (snd (lk_ws lk)) = Some (conn, gen, seq)" by auto
    with True show ?thesis
      using sim_write_attach [OF sim _ _ _ lr_write(2)] lr_write(3,4) by fastforce
  next
    case False
    then show ?thesis using sim_write_same [OF sim lr_write(2)] by fastforce
  qed
next
  case (lr_writer_env lk ws')
  then obtain st where sim: "link_sim cfg lk st" by blast
  have "st\<lparr>sx_sender := sender_of ws'\<rparr> = st" using link_simD(3) [OF sim] lr_writer_env(3) by (cases st) simp
  then show ?case using link_sim_writer [OF sim, of ws'] link_simD(2) [OF sim] lr_writer_env by auto
next
  case (lr_ack lk a res c')
  then show ?case using sim_ack by blast
next
  case (lr_read lk r net k env taken nxt net' c' now conn gen)
  then show ?case using sim_read [of cfg lk] by blast
next
  case (lr_next lk j)
  then show ?case using sim_next by blast
next
  case (lr_reader_env lk c' r r')
  then show ?case using sim_peer(1) by blast
next
  case (lr_ack_send lk r now now' kind a r')
  then obtain st where sim: "link_sim cfg lk st" by blast
  have "a = r_lastRecvSeq r" "r_lastRecvSeq r' = r_lastRecvSeq r"
    using lr_ack_send(3) takePendingControl_frame(1) [of now now' r] takePendingControl_seq [of now now' r kind a True] by simp_all
  then show ?case using sim_peer(2) [OF sim lr_ack_send(2), of "(lk_peer lk)\<lparr>c_recovery := Some r'\<rparr>" r'] link_simD(8,15) [OF sim]
      streams_ok_congI [of "lk_peer lk" "(lk_peer lk)\<lparr>c_recovery := Some r'\<rparr>"]
    by (auto simp: peer_ok_def)
next
  case (lr_report lk r)
  then obtain st where sim: "link_sim cfg lk st" by blast
  have "lk\<lparr>lk_peer := lk_peer lk, lk_reports := ns\<rparr> = lk\<lparr>lk_reports := ns\<rparr>" for ns by simp
  then show ?case
    using sim_peer(3) [OF sim lr_report(2), of "lk_peer lk" r] link_simD(8,15) [OF sim] lr_report(2) by (auto simp: lastReceived_def peer_ok_def)
qed

section \<open>A run for examples\<close>

text \<open>One round of each end, with the outcome of index \<open>j\<close>.\<close>

definition writerRound :: "nat \<Rightarrow> (unit, unit, unit) link \<Rightarrow> (unit, unit, unit) link" where
  "writerRound j lk =
     (case recoveryWriterLoop (\<lambda>_. sampleConn) 0 0 (lk_phase lk, lk_gen lk, lk_ws lk) ! j of
        (phase', gen', ws') \<Rightarrow>
          lk\<lparr>lk_phase := phase', lk_gen := gen', lk_ws := ws',
            lk_past := (if lk_phase lk = LoopHead \<and> isWriting phase' then transports lk else lk_past lk),
            lk_staged := lk_staged lk @ newlyStaged (lk_ws lk) ws'\<rparr>)"

definition unreadConn :: "('m, 'b, 'h) link \<Rightarrow> net_conn" where
  "unreadConn lk = sampleConn\<lparr>nc_in := drop (snd (lk_pos lk)) (transports lk ! fst (lk_pos lk))\<rparr>"

definition readerRound :: "nat \<Rightarrow> (unit, unit, unit) link \<Rightarrow> (unit, unit, unit) link" where
  "readerRound j lk =
     (let n = lastReceived (the (c_recovery (lk_peer lk)))
      in case recoveryReaderStep 0 (\<lambda>c. c) 1 0 n (unreadConn lk) (lk_peer lk) ! j of
        (nxt, net', c') \<Rightarrow>
          lk\<lparr>lk_peer := c', lk_rounds := lk_rounds lk @ [(lk_peer lk, c')],
            lk_pos := (fst (lk_pos lk), snd (lk_pos lk) +
              (case nxt of ReadOn m \<Rightarrow> length (nc_in (unreadConn lk)) - length (nc_in net') | _ \<Rightarrow> 0))\<rparr>)"

lemma writerRound_run:
  assumes run: "link_run cfg lk" and j: "j < length (recoveryWriterLoop (\<lambda>_. sampleConn) 0 0 (lk_phase lk, lk_gen lk, lk_ws lk))"
    and seq: "case attachedTransport (lk_gen lk) (snd (lk_ws lk)) of None \<Rightarrow> True | Some (conn, gen, seq) \<Rightarrow> seq \<in> set (lk_reports lk)"
  shows "link_run cfg (writerRound j lk)"
proof -
  let ?o = "recoveryWriterLoop (\<lambda>_. sampleConn) 0 0 (lk_phase lk, lk_gen lk, lk_ws lk)"
  obtain p g ws where o: "?o ! j = (p, g, ws)" by (metis prod.exhaust)
  have fresh: "nc_out sampleConn = []" by (simp add: sampleConn_def)
  have out: "(p, g, ws) \<in> set ?o" using j o nth_mem by metis
  have "seq' \<in> set (lk_reports lk)" if "attachedTransport (lk_gen lk) (snd (lk_ws lk)) = Some (conn, gen, seq')" for conn gen seq'
    using seq that by simp
  then show ?thesis
    unfolding writerRound_def o prod.case by (intro lr_write [OF run out]) (simp_all add: fresh)
qed

lemma readerRound_run:
  assumes "link_run cfg lk" "c_recovery (lk_peer lk) \<noteq> None"
    and "j < length (recoveryReaderStep 0 (\<lambda>c. c) 1 0 (lastReceived (the (c_recovery (lk_peer lk)))) (unreadConn lk) (lk_peer lk))"
  shows "link_run cfg (readerRound j lk)"
proof -
  obtain r where r: "c_recovery (lk_peer lk) = Some r" using assms(2) by blast
  let ?o = "recoveryReaderStep 0 (\<lambda>c. c) 1 0 (lastReceived r) (unreadConn lk) (lk_peer lk)"
  obtain nxt net' c' where o: "?o ! j = (nxt, net', c')" by (metis prod.exhaust)
  then have "(nxt, net', c') \<in> set ?o" using assms(3) r nth_mem by (metis option.sel)
  moreover have "nc_in (unreadConn lk) = take (length (nc_in (unreadConn lk))) (drop (snd (lk_pos lk)) (transports lk ! fst (lk_pos lk)))"
    "\<not> isMalformedFrameError (nc_in_err (unreadConn lk))"
    by (simp_all add: unreadConn_def sampleConn_def)
  ultimately show ?thesis 
    unfolding readerRound_def r option.sel Let_def o prod.case by (intro lr_read [OF assms(1) r, where taken = "\<lambda>_. 0"]) (simp_all add: others_take_none)
qed

text \<open>A frame is waiting when the transport is attached: the writer begins with it, sends the frame, and the reader takes it.\<close>

definition sampleEnd :: "outboundFrame list \<Rightarrow> (unit, unit, unit) Connection" where
  "sampleEnd fs = sampleConnection\<lparr>c_conn := Some 1, c_outbound := (c_outbound sampleConnection)\<lparr>ch_buf := fs\<rparr>\<rparr>"

definition sampleLink :: "(unit, unit, unit) link" where
  "sampleLink =
     \<lparr>lk_phase = LoopHead, lk_gen = 7, lk_ws = (fst sampleWriter, sampleEnd [smallFrame]), lk_past = [],
      lk_pos = (0, 0), lk_peer = sampleEnd [], lk_acks = [], lk_reports = [0], lk_staged = [], lk_rounds = []\<rparr>"

definition sentLink :: "(unit, unit, unit) link" where
  "sentLink = (writerRound 0 (writerRound 0 sampleLink))\<lparr>lk_pos := (1, 0)\<rparr>"

lemma sampleLink_start: "link_start (c_config sampleConnection) sampleLink"
proof -
  have "sender_of (lk_ws sampleLink) = sx_sender (initSession (cfg_version (c_config sampleConnection)) 33554432)" by code_simp
  moreover have "wire_cfg (c_config sampleConnection)" by code_simp
  moreover have "list_all (frame_fits (c_config sampleConnection)) [smallFrame]"
    by (simp add: frame_fits_def payload_fits_def smallFrame_def) code_simp
  then have "queue_fits (c_config sampleConnection) (lk_ws sampleLink)"
    by (simp add: queue_fits_def sampleLink_def sampleEnd_def sampleWriter_def)
  moreover have "has_recovery (lk_ws sampleLink)" "bw_taken (w_bw (fst (lk_ws sampleLink))) = []" by code_simp+
  moreover have "peer_ok (c_config sampleConnection) 0 (lk_peer sampleLink)"
    by (simp add: peer_ok_def sampleLink_def sampleEnd_def sampleConnection_def) code_simp
  ultimately show ?thesis
    unfolding link_start_def
    by (intro conjI exI [of _ 33554432]) (simp_all add: sampleLink_def sampleEnd_def)
qed

lemma sentLink_run: "link_run (c_config sampleConnection) sentLink"
proof -
  have "0 < length (recoveryWriterLoop (\<lambda>_. sampleConn) 0 0 (lk_phase sampleLink, lk_gen sampleLink, lk_ws sampleLink))"
    "case attachedTransport (lk_gen sampleLink) (snd (lk_ws sampleLink)) of None \<Rightarrow> True | Some (conn, gen, seq) \<Rightarrow> seq \<in> set (lk_reports sampleLink)"
    by code_simp+
  note run1 = writerRound_run [OF lr_start [OF sampleLink_start] this]
  let ?lk = "writerRound 0 sampleLink"
  have "0 < length (recoveryWriterLoop (\<lambda>_. sampleConn) 0 0 (lk_phase ?lk, lk_gen ?lk, lk_ws ?lk))"
    "case attachedTransport (lk_gen ?lk) (snd (lk_ws ?lk)) of None \<Rightarrow> True | Some (conn, gen, seq) \<Rightarrow> seq \<in> set (lk_reports ?lk)"
    by code_simp+
  note run2 = writerRound_run [OF run1 this]
  have "fst (lk_pos (writerRound 0 ?lk)) < 1" "1 < length (transports (writerRound 0 ?lk))" by code_simp+
  from lr_next [OF run2 this] show ?thesis by (simp add: sentLink_def)
qed

section \<open>Properties\<close>

text \<open>C1. Delivery from end to end, into the queues of the streams. However the rounds of the writer goroutine of one end and of the reader
  goroutine of the other interleave, whatever transports fail and at whatever byte, and however late acknowledgements and reports
  come: the frames that the writer staged are numbered from 1. With \<open>n\<close> the last number the reader received, exactly \<open>n\<close> of its rounds
  advanced that number, and the \<open>k\<close>-th of them put the \<open>k\<close>-th staged frame at the end of the incoming queue of its own stream and
  changed no other queue (what the stream's goroutine received meanwhile apart), or dropped it because that stream or the connection is
  closed. No other round put a payload into any queue. And a frame that was not handed over is still in the replay buffer of the
  writer.\<close>

theorem link_delivers:
  assumes "link_run cfg lk"
  shows "map (unat \<circ> f_seq) (lk_staged lk) = [1..<Suc (length (lk_staged lk))] \<and>
    (\<exists>r n. c_recovery (lk_peer lk) = Some r \<and> unat (lastReceived r) = n \<and> n \<le> length (lk_staged lk) \<and>
       list_all2 feedsRecord (take n (lk_staged lk)) (filter advanced (lk_rounds lk)) \<and>
       list_all quietRound (filter (Not \<circ> advanced) (lk_rounds lk)) \<and>
       set (drop n (lk_staged lk)) \<subseteq> set (kept (r_replay (the (c_recovery (snd (lk_ws lk)))))))"
proof -
  obtain st where sim: "link_sim cfg lk st" using link_run_sim [OF assms] by blast
  note s = link_simD [OF sim] and d = session_okD [OF link_simD(2) [OF sim]]
  let ?n = "unat (rx_last (sx_receiver st))" and ?b = "sn_replay (sx_sender st)"
  have le: "?n \<le> length (lk_staged lk)" using d(3,6) s(12) by (simp add: word_le_nat_alt)
  have "?b = r_replay (the (c_recovery (snd (lk_ws lk))))" using s(3) by (cases "lk_ws lk") (simp add: sender_of_def)
  moreover have "set (drop ?n (lk_staged lk)) \<subseteq> set (kept ?b)"
    using d(4,5) s(12) by (simp add: word_le_nat_alt set_drop_subset_set_drop)
  moreover have "rounds_ok (take ?n (lk_staged lk)) (lk_rounds lk)" using d(7) s(9,12) by simp
  moreover have "map (unat \<circ> f_seq) (lk_staged lk) = [1..<Suc (length (lk_staged lk))]" using d(2) s(12) by (simp add: numbered_def)
  ultimately show ?thesis using s(8) le by (auto simp: peer_ok_def lastReceived_def rounds_ok_def)
qed

theorem link_delivers_witness:
  "\<exists>lk :: (unit, unit, unit) link. link_run (c_config sampleConnection) lk \<and> map (unat \<circ> f_seq) (lk_staged lk) = [1] \<and>
     inq (lk_peer lk) 0 = [Some [8, 9]] \<and> (\<exists>f d. lk_staged lk = [f] \<and> filter advanced (lk_rounds lk) = [d] \<and> feedsRecord f d)"
proof -
  have "c_recovery (lk_peer sentLink) \<noteq> None"
    "0 < length (recoveryReaderStep 0 (\<lambda>c. c) 1 0 (lastReceived (the (c_recovery (lk_peer sentLink)))) (unreadConn sentLink) (lk_peer sentLink))"
    by code_simp+
  note run = readerRound_run [OF sentLink_run this]
  let ?lk = "readerRound 0 sentLink"
  have "inq (lk_peer ?lk) 0 = [Some [8, 9]]" "length (lk_staged ?lk) = 1"
    "map_option lastReceived (c_recovery (lk_peer ?lk)) = Some 1" by code_simp+
  moreover from this(2) obtain f where f: "lk_staged ?lk = [f]" by (auto simp: length_Suc_conv)
  ultimately show ?thesis
    using link_delivers [OF run] run by (intro exI [of _ ?lk]) (auto simp: list_all2_Cons1)
qed

text \<open>C8. What the reader reads is never refused. In every run, on any beginning of the bytes that are unread on its transport
  and whatever error of the transport follows them, reading a frame returns an error of the transport, which only detaches it,
  or a frame that the writer sent: a control frame, which is understood, or a staged frame whose number is at most the next
  one expected. So the reader never closes the connection for the content of a frame.\<close>

theorem link_reads_frames:
  assumes "link_run cfg lk"
    and "nc_in net = take k (drop (snd (lk_pos lk)) (transports lk ! fst (lk_pos lk)))" and "\<not> isMalformedFrameError (nc_in_err net)"
    and "readFrameFrom cfg d net = (res, d', net')"
  shows "case res of
       Inl e \<Rightarrow> \<not> isMalformedFrameError e
     | Inr (streamID, seq, flags, payload) \<Rightarrow>
         if streamID = controlStreamID then \<exists>closes c'. handleControlFrame payload (lk_peer lk) = (Inr closes, c')
         else unat seq \<le> Suc (unat (lastReceived (the (c_recovery (lk_peer lk))))) \<and>
           (\<exists>r \<in> set (lk_staged lk). f_seq r = seq \<and> frameView r = (streamID, flags, payload))"
proof -
  obtain st where sim: "link_sim cfg lk st" using link_run_sim [OF assms(1)] by blast
  note s = link_simD [OF sim] and d = session_okD [OF link_simD(2) [OF sim]]
  let ?x = "sx_receiver st"
  obtain ess q es where valid: "\<forall>e \<in> set es. sent_valid cfg e"
    and un: "sx_late st @ [sx_wire st] = dataOf es # map dataOf (drop (Suc (fst (lk_pos lk))) ess)"
    and bytes: "\<forall>k. \<exists>n. take k (drop (snd (lk_pos lk)) (transports lk ! fst (lk_pos lk))) = take n (wireBytes (lk_peer lk) es)"
    by (rule link_sim_unread [OF sim]) blast
  obtain n where n: "nc_in net = take n (wireBytes (lk_peer lk) es)" using bytes assms(2) by metis
  from read_sent [of "lk_peer lk" es net n d res d' net'] s(1,15) valid n assms(3,4)
  consider e where "res = Inl e" "\<not> isMalformedFrameError e" | e es' where "es = e # es'" "res = Inr (frameOf e)" by auto
  then show ?thesis
  proof cases
    case 1
    then show ?thesis by simp
  next
    case (2 e es')
    show ?thesis
    proof (cases e)
      case (Control p)
      then have "known_control p" using valid 2(1) by simp
      from known_control_handled [OF this s(8)] show ?thesis using 2(2) Control by (auto simp: frameOf_def)
    next
      case (Data r)
      have "dataOf es \<in> set (sx_late st @ [sx_wire st])" unfolding un by simp
      then have "set (dataOf es) \<subseteq> set (sx_staged st) \<and> gapfree (unat (rx_last ?x)) (dataOf es)" using d(8,9,15) by auto
      then have "r \<in> set (lk_staged lk)" "unat (f_seq r) \<le> Suc (unat (rx_last ?x))" using 2(1) Data s(12) by auto
      moreover have "f_streamID r \<noteq> controlStreamID" using valid 2(1) Data by (simp add: record_fits_def)
      moreover have "rx_last ?x = lastReceived (the (c_recovery (lk_peer lk)))" using s(8) by (auto simp: peer_ok_def lastReceived_def)
      ultimately show ?thesis using 2(2) Data by (auto simp: frameOf_def frameView_def)
    qed
  qed
qed

theorem link_reads_frames_witness:
  "link_run (c_config sampleConnection) sentLink \<and>
   (\<exists>q d' net'. readFrameFrom (c_config sampleConnection) zeroConnectionCounters (unreadConn sentLink) =
      (Inr (1, q, 0, [8, 9]), d', net') \<and> unat q \<le> 1 \<and> (\<exists>r \<in> set (lk_staged sentLink). f_seq r = q \<and> frameView r = (1, 0, [8, 9])))"
proof -
  obtain res d' net' where R: "readFrameFrom (c_config sampleConnection) zeroConnectionCounters (unreadConn sentLink) = (res, d', net')"
    by (metis prod.exhaust)
  moreover have "map_sum (\<lambda>_. ()) (\<lambda>(i, q, fl, p). (i, fl, p)) (fst (readFrameFrom (c_config sampleConnection) zeroConnectionCounters (unreadConn sentLink))) =
      Inr (1, 0, [8, 9])" "lastReceived (the (c_recovery (lk_peer sentLink))) = 0" "controlStreamID \<noteq> 1" by code_simp+
  ultimately obtain q where q: "res = Inr (1, q, 0, [8, 9])" "lastReceived (the (c_recovery (lk_peer sentLink))) = 0" by (cases res) auto
  have "nc_in (unreadConn sentLink) = take (length (nc_in (unreadConn sentLink))) (drop (snd (lk_pos sentLink)) (transports sentLink ! fst (lk_pos sentLink)))"
    "\<not> isMalformedFrameError (nc_in_err (unreadConn sentLink))"
    by (simp_all add: unreadConn_def sampleConn_def)
  from link_reads_frames [OF sentLink_run this R] R q sentLink_run show ?thesis by (auto simp: controlStreamID_def)
qed

end
