(* ===== verification/Stream_Ops.thy ===== *)
theory Stream_Ops
  imports Transport
begin

text \<open>
  The send and receive calls of a stream (\<^verbatim>\<open>src/stream.go\<close>) and the send queue of a connection
  (\<^verbatim>\<open>enqueueFrame\<close>, \<^verbatim>\<open>encodeMessage\<close> of \<^verbatim>\<open>src/connection.go\<close>). Calls that hold \<^verbatim>\<open>sendMu\<close> are
  serialised by it, so each is one function. Where a call waits, \<open>env\<close> is what the other goroutines
  do meanwhile; a receive timer counts as ready whenever it is set. The address of a stream also
  names its channel for the writer's verdicts.

  The type argument of a receive is a \<open>recvTarget\<close>: an interface, with the test whether a decoded
  message implements it and the name it is reported under, or a concrete type, with its wire name
  and its zero value.
\<close>

definition encodeMessage :: "'m \<Rightarrow> ('m, 'b, 'h) Connection \<Rightarrow> bytes result" where
  "encodeMessage msg c =
     (case cfg_codec (c_config c) of
        None \<Rightarrow> Inl (ErrUnsupportedCodec (cfg_codecID (c_config c)))
      | Some codec \<Rightarrow> codec_Encode codec msg)"

text \<open>\<open>freshChan\<close> is the channel that \<^verbatim>\<open>enqueueFrame\<close> makes when the caller brings none.\<close>

definition enqueueFrame ::
    "(('m, 'b, 'h) Connection \<Rightarrow> ('m, 'b, 'h) Connection) \<Rightarrow> nat \<Rightarrow> outboundFrame \<Rightarrow>
     ('m, 'b, 'h) Connection \<Rightarrow> (go_error option \<times> ('m, 'b, 'h) Connection) outcomes" where
  "enqueueFrame env freshChan frame c =
     (if c_closing c \<or> c_closed c then [(Some ErrClosed, c)]
      else
        let c1 = env c
        in (if c_closed c1 then [(Some ErrClosed, c1)] else []) @
           (if \<not> ch_room (c_outbound c1) then []
            else if isRecoveryEnabled c then
              let q = (case of_queued frame of None \<Rightarrow> freshChan | Some q \<Rightarrow> q);
                  frame' = frame\<lparr>of_seq := 0, of_queued := Some q\<rparr>;
                  c2 = env (signalSend (c1\<lparr>c_outbound := ch_send frame' (c_outbound c1)\<rparr>))
              in (case map_of (c_verdicts c2) q of
                    None \<Rightarrow> []
                  | Some err \<Rightarrow> [(err, c2\<lparr>c_verdicts := AList.delete q (c_verdicts c2)\<rparr>)]) @
                 (if c_closed c2 then [(Some ErrClosed, c2)] else [])
            else [(None, c1\<lparr>c_outbound := ch_send frame (c_outbound c1)\<rparr>)]))"

definition queuedChan :: "streamRef \<Rightarrow> ('m, 'b, 'h) Connection \<Rightarrow> nat option \<times> ('m, 'b, 'h) Connection" where
  "queuedChan ref c =
     (if \<not> isRecoveryEnabled c then (None, c)
      else (Some ref, updStream ref (\<lambda>s. s\<lparr>s_queued := Some ref\<rparr>) c))"

definition countSent :: "streamRef \<Rightarrow> ('m, 'b, 'h) Connection \<Rightarrow> ('m, 'b, 'h) Connection" where
  "countSent ref c =
     (let c1 = updStream ref (\<lambda>s. s\<lparr>s_debug := (s_debug s)\<lparr>s_dataMessagesSent := s_dataMessagesSent (s_debug s) + 1\<rparr>\<rparr>) c
      in c1\<lparr>c_debug := (c_debug c1)\<lparr>dataMessagesSent := dataMessagesSent (c_debug c1) + 1\<rparr>\<rparr>)"

definition sendBoxed ::
    "int \<Rightarrow> (('m, 'b, 'h) Connection \<Rightarrow> ('m, 'b, 'h) Connection) \<Rightarrow> streamRef \<Rightarrow> 'm \<Rightarrow>
     ('m, 'b, 'h) Connection \<Rightarrow> (go_error option \<times> ('m, 'b, 'h) Connection) outcomes" where
  "sendBoxed now env ref msg c =
     (if s_closed (c_heap c ! ref) then [(Some ErrClosed, c)]
      else
        let payload = (case encodeMessage msg c of
                         Inl e \<Rightarrow> Inl e
                       | Inr p \<Rightarrow>
                           if int (length p) > uint (cfg_maxFrame (c_config c))
                           then Inl (ErrFrameTooLarge (int (length p))) else Inr p)
        in case payload of
             Inl e \<Rightarrow> [(Some e, s_noteFailure now DebugFailureStreamEncode (''encode failed: '' @ Error e) ref c)]
           | Inr p \<Rightarrow>
               let (q, c1) = queuedChan ref c;
                   frame = \<lparr>of_streamID = s_id (c_heap c1 ! ref), of_seq = 0, of_flags = 0, of_payload = p,
                            of_queued = q, of_closing = None\<rparr>
               in map (\<lambda>(err, c2).
                    case err of
                      Some e \<Rightarrow>
                        (Some e, s_noteFailure now DebugFailureStreamEnqueue (''enqueue failed: '' @ Error e) ref c2)
                    | None \<Rightarrow> (None, countSent ref c2))
                  (enqueueFrame env ref frame c1))"

text \<open>\<^verbatim>\<open>Stream.Close\<close>.\<close>

definition stream_Close ::
    "int \<Rightarrow> (('m, 'b, 'h) Connection \<Rightarrow> ('m, 'b, 'h) Connection) \<Rightarrow> streamRef \<Rightarrow>
     ('m, 'b, 'h) Connection \<Rightarrow> ('m, 'b, 'h) Connection outcomes" where
  "stream_Close now env ref c =
     (let i = s_id (c_heap c ! ref)
      in if \<not> openedStream c i then [closePeerStream now i c]
         else if s_closed (c_heap c ! ref) then [c]
         else
           let c1 = updStream ref (\<lambda>s. s\<lparr>s_closed := True\<rparr>) c;
               (q, c2) = queuedChan ref c1;
               frame = \<lparr>of_streamID = i, of_seq = 0, of_flags = FrameFlagFIN, of_payload = [],
                        of_queued = q, of_closing = None\<rparr>
           in map (\<lambda>(err, c3).
                let c4 = removeStream now i c3
                in case err of
                     None \<Rightarrow> c4
                   | Some e \<Rightarrow>
                       updStream ref (\<lambda>s. s\<lparr>s_debug := streamNoteFailure now DebugFailureStreamEnqueue
                         (''fin enqueue failed: '' @ Error e) (s_debug s)\<rparr>) c4)
              (enqueueFrame env ref frame c2))"

section \<open>Receiving\<close>

definition recvGuard :: "streamRef \<Rightarrow> ('m, 'b, 'h) Connection \<Rightarrow> go_error option \<times> ('m, 'b, 'h) Connection" where
  "recvGuard ref c =
     (if s_recvActive (c_heap c ! ref) then (Some ErrConcurrentRecv, c)
      else (None, updStream ref (\<lambda>s. s\<lparr>s_recvActive := True\<rparr>) c))"

definition recvRelease :: "streamRef \<Rightarrow> ('m, 'b, 'h) Connection \<Rightarrow> ('m, 'b, 'h) Connection" where
  "recvRelease ref c = updStream ref (\<lambda>s. s\<lparr>s_recvActive := False\<rparr>) c"

text \<open>The loop of \<^verbatim>\<open>readRaw\<close> on the queue \<open>msgs\<close>: one outcome per way it can end, with the queue and
  the count of stale replies it leaves. A closed connection still delivers what is queued.\<close>

fun readLoop :: "bool \<Rightarrow> bool \<Rightarrow> 'a list \<Rightarrow> nat \<Rightarrow> ('a result \<times> 'a list \<times> nat) outcomes" where
  "readLoop ended timer [] stale =
     (if ended then [(Inl ErrClosed, [], stale)] else []) @
     (if timer then [(Inl ErrRecvTimeout, [], stale)] else [])"
| "readLoop ended timer (msg # msgs) stale =
     (if stale > 0 then readLoop ended timer msgs (stale - 1) else [(Inr msg, msgs, 0)]) @
     (if timer then [(Inl ErrRecvTimeout, msg # msgs, stale)] else [])"

definition isRecvTimeout :: "'a result \<Rightarrow> bool" where
  "isRecvTimeout res = (case res of Inl e \<Rightarrow> e = ErrRecvTimeout | Inr _ \<Rightarrow> False)"

definition readRaw ::
    "int \<Rightarrow> streamRef \<Rightarrow> ('m, 'b, 'h) Connection \<Rightarrow>
     (('m, 'b) rawMessage result \<times> ('m, 'b, 'h) Connection) outcomes" where
  "readRaw now ref c =
     (let s = c_heap c ! ref
      in map (\<lambda>(res, msgs, stale).
           let c1 = updStream ref (\<lambda>s. s\<lparr>s_inbox := (s_inbox s)\<lparr>ch_buf := msgs\<rparr>, s_staleReplies := stale\<rparr>) c
           in (res,
               if isRecvTimeout res
               then conn_noteFailure now DebugFailureStreamRecvTimeout ''stream recv timeout''
                      (updStream ref (\<lambda>s. s\<lparr>s_debug := streamNoteFailure now DebugFailureStreamRecvTimeout
                         ''recv timeout'' (s_debug s)\<rparr>) c1)
               else c1))
         (readLoop (ch_closed (s_inbox s) \<or> c_closed c) (s_recvTimeoutNanos s > 0)
            (ch_buf (s_inbox s)) (s_staleReplies s)))"

definition takeRaw ::
    "int \<Rightarrow> streamRef \<Rightarrow> ('m, 'b, 'h) Connection \<Rightarrow>
     (('m, 'b) rawMessage result \<times> ('m, 'b, 'h) Connection) outcomes" where
  "takeRaw now ref c =
     (case s_peeked (c_heap c ! ref) of
        Some msg \<Rightarrow> [(Inr msg, updStream ref (\<lambda>s. s\<lparr>s_peeked := None\<rparr>) c)]
      | None \<Rightarrow> readRaw now ref c)"

definition recvRaw ::
    "int \<Rightarrow> streamRef \<Rightarrow> ('m, 'b, 'h) Connection \<Rightarrow>
     (('m, 'b) rawMessage result \<times> ('m, 'b, 'h) Connection) outcomes" where
  "recvRaw now ref c =
     (case recvGuard ref c of
        (Some e, c1) \<Rightarrow> [(Inl e, c1)]
      | (None, c1) \<Rightarrow> map (\<lambda>(res, c2). (res, recvRelease ref c2)) (takeRaw now ref c1))"

definition peekRaw ::
    "int \<Rightarrow> streamRef \<Rightarrow> ('m, 'b, 'h) Connection \<Rightarrow>
     (('m, 'b) rawMessage result \<times> ('m, 'b, 'h) Connection) outcomes" where
  "peekRaw now ref c =
     (case recvGuard ref c of
        (Some e, c1) \<Rightarrow> [(Inl e, c1)]
      | (None, c1) \<Rightarrow>
          (case s_peeked (c_heap c1 ! ref) of
             Some msg \<Rightarrow> [(Inr msg, recvRelease ref c1)]
           | None \<Rightarrow>
               map (\<lambda>(res, c2).
                 (res, recvRelease ref
                   (case res of
                      Inl e \<Rightarrow> c2
                    | Inr msg \<Rightarrow> updStream ref (\<lambda>s. s\<lparr>s_peeked := Some msg\<rparr>) c2)))
               (readRaw now ref c1)))"

definition peekWire ::
    "int \<Rightarrow> streamRef \<Rightarrow> ('m, 'b, 'h) Connection \<Rightarrow> (string result \<times> ('m, 'b, 'h) Connection) outcomes" where
  "peekWire now ref c =
     map (\<lambda>(res, c1). (case res of Inl e \<Rightarrow> Inl e | Inr msg \<Rightarrow> Inr (rm_Wire msg), c1)) (peekRaw now ref c)"

section \<open>Errors of a stream\<close>

definition noteDecodeError ::
    "int \<Rightarrow> go_error \<Rightarrow> streamRef \<Rightarrow> ('m, 'b, 'h) Connection \<Rightarrow> ('m, 'b, 'h) Connection" where
  "noteDecodeError now err ref c =
     (let c1 = s_noteFailure now DebugFailureStreamDecode (''decode failed: '' @ Error err) ref c;
          c2 = updStream ref (\<lambda>s. s\<lparr>s_debug := (s_debug s)\<lparr>s_decodeErrors := s_decodeErrors (s_debug s) + 1\<rparr>\<rparr>) c1
      in c2\<lparr>c_debug := (c_debug c2)\<lparr>decodeErrors := decodeErrors (c_debug c2) + 1\<rparr>\<rparr>)"

definition noteRemoteError :: "streamRef \<Rightarrow> ('m, 'b, 'h) Connection \<Rightarrow> ('m, 'b, 'h) Connection" where
  "noteRemoteError ref c =
     (let c1 = updStream ref (\<lambda>s. s\<lparr>s_debug := (s_debug s)\<lparr>s_remoteErrors := s_remoteErrors (s_debug s) + 1\<rparr>\<rparr>) c
      in c1\<lparr>c_debug := (c_debug c1)\<lparr>remoteErrors := remoteErrors (c_debug c1) + 1\<rparr>\<rparr>)"

definition noteReceivedMessage :: "streamRef \<Rightarrow> ('m, 'b, 'h) Connection \<Rightarrow> ('m, 'b, 'h) Connection" where
  "noteReceivedMessage ref c =
     (let c1 = updStream ref (\<lambda>s. s\<lparr>s_debug := (s_debug s)\<lparr>s_dataMessagesReceived := s_dataMessagesReceived (s_debug s) + 1\<rparr>\<rparr>) c
      in c1\<lparr>c_debug := (c_debug c1)\<lparr>dataMessagesReceived := dataMessagesReceived (c_debug c1) + 1\<rparr>\<rparr>)"

text \<open>\<open>errorReply\<close> builds the message of \<^verbatim>\<open>NewErrorReply\<close>.\<close>

definition protocolError ::
    "int \<Rightarrow> (('m, 'b, 'h) Connection \<Rightarrow> ('m, 'b, 'h) Connection) \<Rightarrow> (string \<Rightarrow> string \<Rightarrow> 'm) \<Rightarrow>
     string \<Rightarrow> string \<Rightarrow> streamRef \<Rightarrow> ('m, 'b, 'h) Connection \<Rightarrow> ('m, 'b, 'h) Connection outcomes" where
  "protocolError now env errorReply code0 message ref c =
     (let code = (if code0 = '''' then ''protocol_error'' else code0);
          reason = (if message \<noteq> '''' then code @ '': '' @ message else code);
          c1 = updStream ref (\<lambda>s. s\<lparr>s_debug := (streamNoteFailure now DebugFailureStreamProtocol reason (s_debug s))
                 \<lparr>s_protocolErrors := s_protocolErrors (s_debug s) + 1\<rparr>\<rparr>) c;
          c2 = conn_noteFailure now DebugFailureStreamProtocol (''stream protocol error: '' @ reason) c1;
          c3 = c2\<lparr>c_debug := (c_debug c2)\<lparr>protocolErrors := protocolErrors (c_debug c2) + 1\<rparr>\<rparr>
      in concat (map (\<lambda>(err, c4).
           let c5 = (case err of
                       None \<Rightarrow> c4
                     | Some e \<Rightarrow>
                         let c6 = s_noteFailure now DebugFailureStreamProtocolReplySend
                                    (''protocol error reply send failed: '' @ Error e) ref c4;
                             c7 = updStream ref (\<lambda>s. s\<lparr>s_debug := (s_debug s)
                                    \<lparr>s_protocolErrorReplySendFailure := s_protocolErrorReplySendFailure (s_debug s) + 1\<rparr>\<rparr>) c6
                         in c7\<lparr>c_debug := (c_debug c7)
                              \<lparr>protocolErrorReplySendFailure := protocolErrorReplySendFailure (c_debug c7) + 1\<rparr>\<rparr>)
           in stream_Close now env ref c5)
         (sendBoxed now env ref (errorReply code message) c3)))"

definition protocolErrorFor ::
    "int \<Rightarrow> (('m, 'b, 'h) Connection \<Rightarrow> ('m, 'b, 'h) Connection) \<Rightarrow> (string \<Rightarrow> string \<Rightarrow> 'm) \<Rightarrow>
     go_error \<Rightarrow> streamRef \<Rightarrow> ('m, 'b, 'h) Connection \<Rightarrow> ('m, 'b, 'h) Connection outcomes" where
  "protocolErrorFor now env errorReply err ref c =
     (case err of
        ErrTypeMismatch expected got \<Rightarrow>
          protocolError now env errorReply ''protocol_error'' (''expected '' @ expected @ '' got '' @ got) ref c
      | _ \<Rightarrow> protocolError now env errorReply ''codec_error'' (Error err) ref c)"

section \<open>Typed receives\<close>

datatype 'm recvTarget = TInterface string "'m \<Rightarrow> bool" | TConcrete string 'm

definition decodeRawAs :: "string \<Rightarrow> 'm \<Rightarrow> ('m, 'b) rawMessage \<Rightarrow> 'm result" where
  "decodeRawAs expected zero raw =
     (if rm_Wire raw \<noteq> expected then Inl (ErrTypeMismatch expected (rm_Wire raw))
      else codec_DecodeInto (rm_Codec raw) (rm_Body raw) zero)"

definition decodeStreamRawAs ::
    "int \<Rightarrow> (('m, 'b, 'h) Connection \<Rightarrow> ('m, 'b, 'h) Connection) \<Rightarrow> (string \<Rightarrow> string \<Rightarrow> 'm) \<Rightarrow>
     ('m \<Rightarrow> string) \<Rightarrow> 'm recvTarget \<Rightarrow> streamRef \<Rightarrow> ('m, 'b) rawMessage \<Rightarrow>
     ('m, 'b, 'h) Connection \<Rightarrow> ('m result \<times> ('m, 'b, 'h) Connection) outcomes" where
  "decodeStreamRawAs now env errorReply wireNameForValue target ref raw c =
     (case target of
        TInterface name impl \<Rightarrow>
          (case decodeRawWithRegistry raw (c_registry c) of
             Inl err \<Rightarrow> [(Inl err, noteDecodeError now err ref c)]
           | Inr decoded \<Rightarrow>
               if impl decoded then [(Inr decoded, c)]
               else [(Inl (ErrTypeMismatch name (wireNameForValue decoded)), c)])
      | TConcrete expected zero \<Rightarrow>
          (case decodeRawAs expected zero raw of
             Inl err \<Rightarrow>
               map (\<lambda>c1. (Inl err, c1))
                 (protocolErrorFor now env errorReply err ref (noteDecodeError now err ref c))
           | Inr typed \<Rightarrow> [(Inr typed, c)]))"

definition Recv ::
    "int \<Rightarrow> (('m, 'b, 'h) Connection \<Rightarrow> ('m, 'b, 'h) Connection) \<Rightarrow> (string \<Rightarrow> string \<Rightarrow> 'm) \<Rightarrow>
     ('m \<Rightarrow> string) \<Rightarrow> 'm recvTarget \<Rightarrow> streamRef \<Rightarrow> ('m, 'b, 'h) Connection \<Rightarrow>
     ('m result \<times> ('m, 'b, 'h) Connection) outcomes" where
  "Recv now env errorReply wireNameForValue target ref c =
     concat (map (\<lambda>(res, c1).
       case res of
         Inl e \<Rightarrow> [(Inl e, c1)]
       | Inr raw \<Rightarrow> decodeStreamRawAs now env errorReply wireNameForValue target ref raw c1)
     (recvRaw now ref c))"

definition errorReplyWireName :: string where
  "errorReplyWireName = ''am.message.ErrorReply''"

text \<open>The end of \<^verbatim>\<open>sendRecvAs\<close>: the reply is decoded, an error reply becomes \<^verbatim>\<open>ErrRemote\<close>.
  \<open>zeroReply\<close> is the empty \<^verbatim>\<open>*ErrorReply\<close> and \<open>replyFields\<close> its code and message.\<close>

definition decodeReply ::
    "int \<Rightarrow> (('m, 'b, 'h) Connection \<Rightarrow> ('m, 'b, 'h) Connection) \<Rightarrow> (string \<Rightarrow> string \<Rightarrow> 'm) \<Rightarrow>
     ('m \<Rightarrow> string \<times> string) \<Rightarrow> ('m \<Rightarrow> string) \<Rightarrow> 'm recvTarget \<Rightarrow> streamRef \<Rightarrow> ('m, 'b) rawMessage \<Rightarrow>
     ('m, 'b, 'h) Connection \<Rightarrow> ('m result \<times> ('m, 'b, 'h) Connection) outcomes" where
  "decodeReply now env errorReply replyFields wireNameForValue target ref raw c =
     (if rm_Wire raw = errorReplyWireName then
        (case decodeRawAs errorReplyWireName (errorReply '''' '''') raw of
           Inl err \<Rightarrow>
             map (\<lambda>c1. (Inl err, c1))
               (protocolError now env errorReply ''codec_error'' (Error err) ref (noteDecodeError now err ref c))
         | Inr reply \<Rightarrow>
             [(Inl (ErrRemote (fst (replyFields reply)) (snd (replyFields reply))), noteRemoteError ref c)])
      else decodeStreamRawAs now env errorReply wireNameForValue target ref raw c)"

text \<open>The middle of \<^verbatim>\<open>sendRecvAs\<close>: the wait for the reply, which counts a reply that is still due
  after a timeout.\<close>

definition takeReply ::
    "int \<Rightarrow> streamRef \<Rightarrow> ('m, 'b, 'h) Connection \<Rightarrow>
     (('m, 'b) rawMessage result \<times> ('m, 'b, 'h) Connection) outcomes" where
  "takeReply now ref c =
     map (\<lambda>(res, c1).
       (res, if isRecvTimeout res
             then updStream ref (\<lambda>s. s\<lparr>s_staleReplies := s_staleReplies s + 1\<rparr>) c1
             else c1)) (takeRaw now ref c)"

definition sendRecvAs ::
    "int \<Rightarrow> (('m, 'b, 'h) Connection \<Rightarrow> ('m, 'b, 'h) Connection) \<Rightarrow> (string \<Rightarrow> string \<Rightarrow> 'm) \<Rightarrow>
     ('m \<Rightarrow> string \<times> string) \<Rightarrow> ('m \<Rightarrow> string) \<Rightarrow> 'm recvTarget \<Rightarrow> streamRef \<Rightarrow> 'm \<Rightarrow>
     ('m, 'b, 'h) Connection \<Rightarrow> ('m result \<times> ('m, 'b, 'h) Connection) outcomes" where
  "sendRecvAs now env errorReply replyFields wireNameForValue target ref msg c =
     (case recvGuard ref c of
        (Some e, c1) \<Rightarrow> [(Inl e, c1)]
      | (None, c1) \<Rightarrow>
          map (\<lambda>(res, c'). (res, recvRelease ref c'))
            (concat (map (\<lambda>(sent, c2).
               case sent of
                 Some e \<Rightarrow> [(Inl e, c2)]
               | None \<Rightarrow>
                   concat (map (\<lambda>(got, c3).
                     case got of
                       Inl e \<Rightarrow> [(Inl e, c3)]
                     | Inr raw \<Rightarrow> decodeReply now env errorReply replyFields wireNameForValue target ref raw c3)
                   (takeReply now ref (env c2))))
             (sendBoxed now env ref msg c1))))"

section \<open>Receiving in order\<close>

text \<open>What the receive loop can end with: it drops \<open>j\<close> stale replies and times out or finds the
  stream ended, or it drops all of them and takes the message behind.\<close>

lemma readLoop_cases:
  assumes "(res, msgs', stale') \<in> set (readLoop ended timer msgs stale)"
  shows "(stale < length msgs \<and> res = Inr (msgs ! stale) \<and> msgs' = drop (Suc stale) msgs \<and> stale' = 0) \<or>
         (\<exists>j \<le> stale. j \<le> length msgs \<and> msgs' = drop j msgs \<and> stale' = stale - j \<and>
            (res = Inl ErrRecvTimeout \<and> timer \<or> res = Inl ErrClosed \<and> ended \<and> j = length msgs))"
  using assms
proof (induction ended timer msgs stale rule: readLoop.induct)
  case (2 ended timer msg msgs stale)
  show ?case
  proof (cases "stale > 0 \<and> (res, msgs', stale') \<in> set (readLoop ended timer msgs (stale - 1))")
    case True
    then obtain k where k: "stale = Suc k" by (cases stale) auto
    from 2(1) True have
      "(k < length msgs \<and> res = Inr (msgs ! k) \<and> msgs' = drop (Suc k) msgs \<and> stale' = 0) \<or>
       (\<exists>j \<le> k. j \<le> length msgs \<and> msgs' = drop j msgs \<and> stale' = k - j \<and>
          (res = Inl ErrRecvTimeout \<and> timer \<or> res = Inl ErrClosed \<and> ended \<and> j = length msgs))"
      by (simp add: k)
    then show ?thesis
    proof (elim disjE exE conjE)
      fix j assume "j \<le> k" "j \<le> length msgs" "msgs' = drop j msgs" "stale' = k - j"
        "res = Inl ErrRecvTimeout" "timer"
      then show ?thesis by (intro disjI2 exI [of _ "Suc j"]) (simp add: k)
    next
      fix j assume "j \<le> k" "j \<le> length msgs" "msgs' = drop j msgs" "stale' = k - j"
        "res = Inl ErrClosed" "ended" "j = length msgs"
      then show ?thesis by (intro disjI2 exI [of _ "Suc j"]) (simp add: k)
    qed (simp add: k)
  qed (use 2(2) in \<open>auto split: if_splits\<close>)
qed (auto split: if_splits)

lemma readLoop_succeeds:
  "stale < length msgs \<Longrightarrow>
     (Inr (msgs ! stale), drop (Suc stale) msgs, 0) \<in> set (readLoop ended timer msgs stale)"
  by (induction ended timer msgs stale rule: readLoop.induct) (auto simp: nth_Cons' drop_Cons')

lemma isRecvTimeout_iff [simp]: "isRecvTimeout res \<longleftrightarrow> res = Inl ErrRecvTimeout"
  by (cases res) (simp_all add: isRecvTimeout_def)

text \<open>The part of a stream that belongs to its receiver.\<close>

definition recvSide ::
    "streamRef \<Rightarrow> ('m, 'b, 'h) Connection \<Rightarrow>
     ('m, 'b) rawMessage list \<times> nat \<times> ('m, 'b) rawMessage option" where
  "recvSide ref c =
     (let s = c_heap c ! ref in (ch_buf (s_inbox s), s_staleReplies s, s_peeked s))"

text \<open>What a send leaves alone. An observation of a connection that does not look at counters, the
  send queue and the senders' verdicts is the same after a send, if what the other goroutines do
  while it waits keeps it.\<close>

locale send_observer =
  fixes obs :: "('m, 'b, 'h) Connection \<Rightarrow> 'o"
  assumes obs_debug: "obs (c\<lparr>c_debug := d\<rparr>) = obs c"
    and obs_outbound: "obs (c\<lparr>c_outbound := q\<rparr>) = obs c"
    and obs_verdicts: "obs (c\<lparr>c_verdicts := vs\<rparr>) = obs c"
    and obs_notify: "obs (c\<lparr>c_sendNotify := b\<rparr>) = obs c"
    and obs_stream_debug: "obs (updStream r (\<lambda>s. s\<lparr>s_debug := f s\<rparr>) c) = obs c"
    and obs_stream_queued: "obs (updStream r (\<lambda>s. s\<lparr>s_queued := ch\<rparr>) c) = obs c"
begin

lemmas obs_simps = obs_debug obs_outbound obs_verdicts obs_notify obs_stream_debug obs_stream_queued

lemma s_noteFailure_obs: "obs (s_noteFailure now k m r c) = obs c"
  by (simp add: s_noteFailure_def conn_noteFailure_def obs_simps)

lemma countSent_obs: "obs (countSent r c) = obs c"
  by (simp add: countSent_def Let_def obs_simps)

lemma queuedChan_obs: "queuedChan r c = (q, c') \<Longrightarrow> obs c' = obs c"
  by (auto simp: queuedChan_def obs_simps split: if_splits)

lemma enqueueFrame_obs:
  assumes "\<And>c. obs (env c) = obs c" and "(err, c') \<in> set (enqueueFrame env q frame c)"
  shows "obs c' = obs c"
  using assms by (auto simp: enqueueFrame_def Let_def signalSend_def obs_simps split: if_splits option.splits)

lemma sendBoxed_obs:
  assumes env: "\<And>c. obs (env c) = obs c" and out: "(err, c') \<in> set (sendBoxed now env r msg c)"
  shows "obs c' = obs c"
proof -
  obtain q c1 where q: "queuedChan r c = (q, c1)" by (cases "queuedChan r c")
  have "obs c2 = obs c" if "(e, c2) \<in> set (enqueueFrame env r frame c1)" for e c2 frame
    using enqueueFrame_obs [OF env that] queuedChan_obs [OF q] by simp
  with out show ?thesis
    by (auto simp: sendBoxed_def Let_def q s_noteFailure_obs countSent_obs
             split: if_splits sum.splits option.splits)
qed

end

lemma updStream_nth_keep:
  assumes "\<And>s. g (f s) = g s"
  shows "g (c_heap (updStream r f c) ! i) = g (c_heap c ! i)"
proof (cases "r < length (c_heap c)")
  case False
  then show ?thesis by (simp add: updStream_def list_update_beyond)
qed (cases "i = r"; simp add: updStream_nth assms)

lemma countSent_outbound [simp]: "c_outbound (countSent r c) = c_outbound c"
  by (simp add: countSent_def Let_def updStream_def)

definition recvObs ::
    "streamRef \<Rightarrow> ('m, 'b, 'h) Connection \<Rightarrow>
     bool \<times> ('m, 'b) rawMessage list \<times> nat \<times> ('m, 'b) rawMessage option" where
  "recvObs ref c = (ref < length (c_heap c), recvSide ref c)"

interpretation recv: send_observer "recvObs ref" for ref
  by unfold_locales (simp_all add: recvObs_def recvSide_def Let_def updStream_nth_keep)

text \<open>The wait for a reply, in terms of the receiver's part of the stream.\<close>

lemma readRaw_cases:
  assumes out: "(res, c') \<in> set (readRaw now ref c)" and len: "ref < length (c_heap c)"
    and side: "recvSide ref c = (msgs, stale, None)"
  shows "ref < length (c_heap c') \<and>
         ((stale < length msgs \<and> res = Inr (msgs ! stale) \<and> recvSide ref c' = (drop (Suc stale) msgs, 0, None)) \<or>
          (\<exists>j \<le> stale. j \<le> length msgs \<and> recvSide ref c' = (drop j msgs, stale - j, None) \<and>
             (res = Inl ErrRecvTimeout \<or> res = Inl ErrClosed \<and> j = length msgs)))"
proof -
  from side have b: "ch_buf (s_inbox (c_heap c ! ref)) = msgs" "s_staleReplies (c_heap c ! ref) = stale"
    "s_peeked (c_heap c ! ref) = None" by (simp_all add: recvSide_def Let_def)
  from out obtain msgs' stale' where l: "(res, msgs', stale') \<in> set (readLoop
      (ch_closed (s_inbox (c_heap c ! ref)) \<or> c_closed c) (s_recvTimeoutNanos (c_heap c ! ref) > 0) msgs stale)"
    and c': "recvSide ref c' = (msgs', stale', None)" "ref < length (c_heap c')"
    using len b by (auto simp: readRaw_def Let_def recvSide_def updStream_nth split: if_splits)
  from readLoop_cases [OF l] c' show ?thesis by auto
qed

lemma readRaw_succeeds:
  assumes len: "ref < length (c_heap c)" and side: "recvSide ref c = (msgs, stale, None)"
    and n: "stale < length msgs"
  shows "\<exists>c'. (Inr (msgs ! stale), c') \<in> set (readRaw now ref c)"
  using readLoop_succeeds [OF n] side by (force simp: readRaw_def Let_def recvSide_def)

lemma takeReply_cases:
  assumes out: "(res, c') \<in> set (takeReply now ref c)" and len: "ref < length (c_heap c)"
    and side: "recvSide ref c = (msgs, stale, None)"
  shows "ref < length (c_heap c') \<and>
         ((stale < length msgs \<and> res = Inr (msgs ! stale) \<and> recvSide ref c' = (drop (Suc stale) msgs, 0, None)) \<or>
          (\<exists>j \<le> stale. j \<le> length msgs \<and>
             (res = Inl ErrRecvTimeout \<and> recvSide ref c' = (drop j msgs, Suc (stale - j), None) \<or> res = Inl ErrClosed)))"
proof -
  from side have "s_peeked (c_heap c ! ref) = None" by (simp add: recvSide_def Let_def)
  with out obtain c1 where r: "(res, c1) \<in> set (readRaw now ref c)"
    and c': "c' = (if res = Inl ErrRecvTimeout
                   then updStream ref (\<lambda>s. s\<lparr>s_staleReplies := s_staleReplies s + 1\<rparr>) c1 else c1)"
    by (auto simp: takeReply_def takeRaw_def)
  have u: "recvSide ref c' = (fst (recvSide ref c1), Suc (fst (snd (recvSide ref c1))), snd (snd (recvSide ref c1)))"
    if "ref < length (c_heap c1)" "res = Inl ErrRecvTimeout"
    using that by (simp add: c' recvSide_def Let_def updStream_nth)
  from readRaw_cases [OF r len side] u show ?thesis by (auto simp: c' split: if_splits)
qed

lemma takeReply_succeeds:
  assumes len: "ref < length (c_heap c)" and side: "recvSide ref c = (msgs, stale, None)"
    and n: "stale < length msgs"
  shows "\<exists>c'. (Inr (msgs ! stale), c') \<in> set (takeReply now ref c)"
proof -
  from readRaw_succeeds [OF len side n] obtain c' where "(Inr (msgs ! stale), c') \<in> set (readRaw now ref c)" by blast
  moreover from side have "s_peeked (c_heap c ! ref) = None" by (simp add: recvSide_def Let_def)
  ultimately show ?thesis by (force simp: takeReply_def takeRaw_def)
qed

section \<open>Conversations\<close>

text \<open>The requests of one stream, each sent and then waited for, to a peer that answers them in
  order: \<open>replies k\<close> is its reply to request \<open>k\<close>. A state is the connection, the number of
  requests sent, the number of replies that arrived, whether a request waits for its reply, and
  the replies that requests returned so far. Replies arrive at any time, also after the request
  they answer timed out.\<close>

inductive conversation ::
    "streamRef \<Rightarrow> (nat \<Rightarrow> ('m, 'b) rawMessage) \<Rightarrow> ('m, 'b, 'h) Connection \<Rightarrow> nat \<Rightarrow> nat \<Rightarrow> bool \<Rightarrow>
     (nat \<times> ('m, 'b) rawMessage) list \<Rightarrow> bool"
  for ref replies where
  conv_start: "ref < length (c_heap c) \<Longrightarrow> recvSide ref c = ([], 0, None) \<Longrightarrow>
     conversation ref replies c 0 0 False []"
| conv_send: "conversation ref replies c sent arrived False got \<Longrightarrow> (\<And>c. recvObs ref (env c) = recvObs ref c) \<Longrightarrow>
     (None, c') \<in> set (sendBoxed now env ref msg c) \<Longrightarrow>
     conversation ref replies c' (Suc sent) arrived True got"
| conv_arrive: "conversation ref replies c sent arrived w got \<Longrightarrow> arrived < sent \<Longrightarrow>
     conversation ref replies (updStream ref (\<lambda>s. s\<lparr>s_inbox := ch_send (replies arrived) (s_inbox s)\<rparr>) c)
       sent (Suc arrived) w got"
| conv_timeout: "conversation ref replies c sent arrived True got \<Longrightarrow>
     (Inl ErrRecvTimeout, c') \<in> set (takeReply now ref c) \<Longrightarrow>
     conversation ref replies c' sent arrived False got"
| conv_reply: "conversation ref replies c sent arrived True got \<Longrightarrow>
     (Inr reply, c') \<in> set (takeReply now ref c) \<Longrightarrow>
     conversation ref replies c' sent arrived False (got @ [(sent - 1, reply)])"

lemma drop_map_upt: "drop j (map f [a..<b]) = map f [a + j..<b]"
  by (simp add: drop_map drop_upt)

text \<open>The replies still in the queue are the ones that no request consumed: the first of them
  answers the oldest request that timed out.\<close>

lemma conversation_inv:
  assumes "conversation ref replies c sent arrived waiting got"
  shows "ref < length (c_heap c) \<and> arrived \<le> sent \<and> (waiting \<longrightarrow> 0 < sent) \<and>
         (\<exists>taken stale. recvSide ref c = (map replies [taken..<arrived], stale, None) \<and> taken \<le> arrived \<and>
            taken + stale + (if waiting then 1 else 0) = sent) \<and>
         (\<forall>(k, m) \<in> set got. m = replies k)"
  using assms
proof (induction rule: conversation.induct)
  case (conv_send c sent arrived got env c' now msg)
  from recv.sendBoxed_obs [OF conv_send(2,3)] have "ref < length (c_heap c') \<longleftrightarrow> ref < length (c_heap c)"
    "recvSide ref c' = recvSide ref c" by (simp_all add: recvObs_def)
  with conv_send.IH show ?case by auto
next
  case (conv_arrive c sent arrived w got)
  then obtain taken stale where i: "recvSide ref c = (map replies [taken..<arrived], stale, None)" "taken \<le> arrived"
    "taken + stale + (if w then 1 else 0) = sent" by auto
  from i conv_arrive.IH have
    "recvSide ref (updStream ref (\<lambda>s. s\<lparr>s_inbox := ch_send (replies arrived) (s_inbox s)\<rparr>) c) =
       (map replies [taken..<Suc arrived], stale, None)"
    by (simp add: recvSide_def Let_def updStream_nth ch_send_def)
  moreover from i have "taken \<le> Suc arrived" by simp
  ultimately show ?case using conv_arrive i(3) by auto
next
  case (conv_timeout c sent arrived got c' now)
  then obtain taken stale where i: "recvSide ref c = (map replies [taken..<arrived], stale, None)" "taken \<le> arrived"
    "taken + stale + 1 = sent" "ref < length (c_heap c)" by auto
  from takeReply_cases [OF conv_timeout(2) i(4,1)] i obtain j where
    "j \<le> stale" "taken + j \<le> arrived" "recvSide ref c' = (map replies [taken + j..<arrived], Suc (stale - j), None)"
    "ref < length (c_heap c')" by (auto simp: drop_map_upt)
  moreover from this i have "(taken + j) + Suc (stale - j) = sent" by simp
  ultimately show ?case using conv_timeout by auto
next
  case (conv_reply c sent arrived got reply c' now)
  then obtain taken stale where i: "recvSide ref c = (map replies [taken..<arrived], stale, None)" "taken \<le> arrived"
    "taken + stale + 1 = sent" "ref < length (c_heap c)" by auto
  from takeReply_cases [OF conv_reply(2) i(4,1)] have r: "stale < arrived - taken"
      "reply = map replies [taken..<arrived] ! stale" "ref < length (c_heap c')"
      "recvSide ref c' = (drop (Suc stale) (map replies [taken..<arrived]), 0, None)" by simp_all
  then have "reply = replies (taken + stale)" "taken + stale < arrived" "ref < length (c_heap c')"
      "recvSide ref c' = (map replies [Suc (taken + stale)..<arrived], 0, None)"
    by (simp_all only: drop_map_upt) simp_all
  moreover have "\<forall>(k, m) \<in> set (got @ [(sent - 1, reply)]). m = replies k"
    using conv_reply.IH calculation(1) i(3) [symmetric] by simp
  ultimately show ?case
    using conv_reply(3) i(3) by (intro conjI exI [of _ "Suc (taken + stale)"] exI [of _ "0::nat"]) simp_all
qed simp_all

section \<open>Peeking\<close>

lemma updStream_twice:
  "ref < length (c_heap c) \<Longrightarrow> updStream ref f (updStream ref g c) = updStream ref (\<lambda>s. f (g s)) c"
  by (simp add: updStream_def)

lemma updStream_cong: "f (c_heap c ! ref) = g (c_heap c ! ref) \<Longrightarrow> updStream ref f c = updStream ref g c"
  by (simp add: updStream_def)

lemma updStream_same: "(\<And>s. s = c_heap c ! ref \<Longrightarrow> f s = s) \<Longrightarrow> updStream ref f c = c"
  by (simp add: updStream_def)

lemma readRaw_message:
  assumes "(Inr msg, c') \<in> set (readRaw now ref c)"
  obtains msgs stale where
    "c' = updStream ref (\<lambda>s. s\<lparr>s_inbox := (s_inbox s)\<lparr>ch_buf := msgs\<rparr>, s_staleReplies := stale\<rparr>) c"
  using assms by (auto simp: readRaw_def Let_def)

lemma recvRaw_after_peek:
  assumes len: "ref < length (c_heap c)" and out: "(Inr msg, c1) \<in> set (peekRaw now ref c)"
  shows "\<exists>c2. recvRaw later ref c1 = [(Inr msg, c2)] \<and> (Inr msg, c2) \<in> set (recvRaw now ref c)"
proof -
  let ?g = "updStream ref (\<lambda>s. s\<lparr>s_recvActive := True\<rparr>) c"
  from out have idle: "\<not> s_recvActive (c_heap c ! ref)" by (auto simp: peekRaw_def recvGuard_def)
  show ?thesis
  proof (cases "s_peeked (c_heap c ! ref)")
    case None
    with out idle len obtain c' where r: "(Inr msg, c') \<in> set (readRaw now ref ?g)"
      and c1: "c1 = recvRelease ref (updStream ref (\<lambda>s. s\<lparr>s_peeked := Some msg\<rparr>) c')"
      by (auto simp: peekRaw_def recvGuard_def updStream_nth)
    from readRaw_message [OF r] obtain msgs stale where
      c': "c' = updStream ref (\<lambda>s. s\<lparr>s_inbox := (s_inbox s)\<lparr>ch_buf := msgs\<rparr>, s_staleReplies := stale\<rparr>) ?g" .
    have c1': "c1 = updStream ref (\<lambda>s. s\<lparr>s_inbox := (s_inbox s)\<lparr>ch_buf := msgs\<rparr>, s_staleReplies := stale,
        s_peeked := Some msg, s_recvActive := False\<rparr>) c"
      unfolding c1 c' recvRelease_def using len by (simp add: updStream_twice)
    then have h: "\<not> s_recvActive (c_heap c1 ! ref)" "s_peeked (c_heap c1 ! ref) = Some msg" "ref < length (c_heap c1)"
      using len by (simp_all add: updStream_nth)
    have "recvRaw later ref c1 = [(Inr msg, updStream ref (\<lambda>s. s\<lparr>s_peeked := None, s_recvActive := False\<rparr>) c1)]"
      using h by (simp add: recvRaw_def recvGuard_def recvRelease_def takeRaw_def updStream_nth updStream_twice)
    also have "updStream ref (\<lambda>s. s\<lparr>s_peeked := None, s_recvActive := False\<rparr>) c1 = recvRelease ref c'"
      unfolding c1' c' recvRelease_def updStream_twice [OF len] using None
      by (intro updStream_cong) simp
    finally have "recvRaw later ref c1 = [(Inr msg, recvRelease ref c')]" .
    moreover from r idle len None have "(Inr msg, recvRelease ref c') \<in> set (recvRaw now ref c)"
      by (force simp: recvRaw_def recvGuard_def takeRaw_def updStream_nth)
    ultimately show ?thesis by blast
  next
    case (Some m)
    with out idle len have "c1 = c" "m = msg"
      by (auto simp: peekRaw_def recvGuard_def recvRelease_def updStream_nth updStream_twice updStream_same)
    with Some idle len show ?thesis by (simp add: recvRaw_def recvGuard_def takeRaw_def updStream_nth)
  qed
qed

section \<open>Examples\<close>

definition rawOk :: "(unit, unit) rawMessage" where
  "rawOk = \<lparr>rm_Wire = ''am.message.OkReply'', rm_Codec = sampleCodec, rm_Body = ()\<rparr>"

text \<open>A version 2 connection with one stream that has a receive timeout.\<close>

definition plainConnection :: "(unit, unit, unit) Connection" where
  "plainConnection = snd (NewStream 0 (sampleConnection
     \<lparr>c_recovery := None, c_recvTimeout := 1000000,
      c_config := (c_config sampleConnection)\<lparr>cfg_version := 2, cfg_headerLen := 10\<rparr>\<rparr>))"

definition busyConnection :: "(unit, unit, unit) Connection" where
  "busyConnection = updStream 0 (\<lambda>s. s\<lparr>s_inbox := ch_send rawOk (s_inbox s)\<rparr>) plainConnection"

lemma plainConnection_facts:
  "recvSide 0 plainConnection = ([], 0, None)" "0 < length (c_heap plainConnection)"
  "\<not> isRecoveryEnabled plainConnection" "map fst (sendBoxed 5 (\<lambda>c. c) 0 () plainConnection) = [None]"
proof -
  have "length (fst (recvSide 0 plainConnection)) = 0 \<and> fst (snd (recvSide 0 plainConnection)) = 0 \<and>
      Option.is_none (snd (snd (recvSide 0 plainConnection)))" by code_simp
  then show "recvSide 0 plainConnection = ([], 0, None)"
    by (simp add: prod_eq_iff Option.is_none_def)
qed code_simp+

section \<open>Properties\<close>

text \<open>C29. A request that succeeds returns its own reply: in any run of requests on a stream against a
  peer that answers in order, with any of them timing out and late replies arriving at any time,
  every reply returned is the peer's reply to that very request; and when the replies to all
  requests have arrived, the waiting request does get a reply.\<close>

theorem request_gets_own_reply:
  assumes "conversation ref replies c sent arrived waiting got"
  shows "(\<forall>(k, m) \<in> set got. m = replies k) \<and>
         (waiting \<and> arrived = sent \<longrightarrow> (\<exists>c'. (Inr (replies (sent - 1)), c') \<in> set (takeReply now ref c)))"
proof -
  from conversation_inv [OF assms] obtain taken stale where
    i: "recvSide ref c = (map replies [taken..<arrived], stale, None)"
      "taken + stale + (if waiting then 1 else 0) = sent" "ref < length (c_heap c)"
    and g: "\<forall>(k, m) \<in> set got. m = replies k" by blast
  have "\<exists>c'. (Inr (replies (sent - 1)), c') \<in> set (takeReply now ref c)" if "waiting" "arrived = sent"
    using takeReply_succeeds [OF i(3,1), of now] that i(2) by auto
  with g show ?thesis by blast
qed

theorem request_gets_own_reply_witness:
  "\<exists>c1 c2. (None, c1) \<in> set (sendBoxed 5 (\<lambda>c. c) 0 () plainConnection) \<and>
     conversation 0 (\<lambda>_. rawOk) c1 1 0 True [] \<and>
     c2 = updStream 0 (\<lambda>s. s\<lparr>s_inbox := ch_send rawOk (s_inbox s)\<rparr>) c1 \<and>
     (\<exists>c'. (Inr rawOk, c') \<in> set (takeReply 9 0 c2))"
proof -
  note s = plainConnection_facts
  from s(4) obtain c1 where c1: "(None, c1) \<in> set (sendBoxed 5 (\<lambda>c. c) 0 () plainConnection)" by auto
  have "conversation 0 (\<lambda>_. rawOk) c1 1 0 True []"
    using conv_send [OF conv_start [OF s(2,1)] refl c1] by simp
  moreover from conv_arrive [OF this] have
    "conversation 0 (\<lambda>_. rawOk) (updStream 0 (\<lambda>s. s\<lparr>s_inbox := ch_send rawOk (s_inbox s)\<rparr>) c1) 1 1 True []" by simp
  from request_gets_own_reply [OF this, of 9] have
    "\<exists>c'. (Inr rawOk, c') \<in> set (takeReply 9 0 (updStream 0 (\<lambda>s. s\<lparr>s_inbox := ch_send rawOk (s_inbox s)\<rparr>) c1))" by simp
  ultimately show ?thesis using c1 by blast
qed

text \<open>Peeking does not consume: after \<^verbatim>\<open>PeekWire\<close> reported a wire name, the next receive
  returns, whatever the queue holds by its timer, a message of that name, and leaves the connection
  in a state that the same receive without the peek can leave it in.\<close>

theorem peek_then_recv:
  assumes "ref < length (c_heap c)" and "(Inr wire, c1) \<in> set (peekWire now ref c)"
  shows "\<exists>msg c2. rm_Wire msg = wire \<and> recvRaw later ref c1 = [(Inr msg, c2)] \<and>
                  (Inr msg, c2) \<in> set (recvRaw now ref c)"
proof -
  from assms(2) obtain msg where "rm_Wire msg = wire" "(Inr msg, c1) \<in> set (peekRaw now ref c)"
    by (auto simp: peekWire_def split: sum.splits)
  with recvRaw_after_peek [OF assms(1)] show ?thesis by blast
qed

theorem peek_then_recv_witness:
  "\<exists>c1 msg c2. (Inr ''am.message.OkReply'', c1) \<in> set (peekWire 0 0 busyConnection) \<and>
     rm_Wire msg = ''am.message.OkReply'' \<and> recvRaw 7 0 c1 = [(Inr msg, c2)]"
proof -
  have l: "0 < length (c_heap busyConnection)" by code_simp
  have "map fst (peekWire 0 0 busyConnection) = [Inr ''am.message.OkReply'', Inl ErrRecvTimeout]" by code_simp
  then obtain c1 where c1: "(Inr ''am.message.OkReply'', c1) \<in> set (peekWire 0 0 busyConnection)" by auto
  from peek_then_recv [OF l c1, of 7] c1 show ?thesis by blast
qed

text \<open>What a send does to the queue of a version 2 connection.\<close>

lemma send_queue:
  assumes v2: "\<not> isRecoveryEnabled c" and out: "(err, c') \<in> set (sendBoxed now (\<lambda>c. c) ref msg c)"
  shows "err = None \<Longrightarrow> \<exists>p. encodeMessage msg c = Inr p \<and> int (length p) \<le> uint (cfg_maxFrame (c_config c)) \<and>
      ch_buf (c_outbound c') = ch_buf (c_outbound c) @
        [\<lparr>of_streamID = s_id (c_heap c ! ref), of_seq = 0, of_flags = 0, of_payload = p, of_queued = None, of_closing = None\<rparr>]"
    and "err \<noteq> None \<Longrightarrow> c_outbound c' = c_outbound c"
proof -
  have o: "c_outbound (s_noteFailure now k m ref x) = c_outbound x" for k m and x :: "('a, 'b, 'c) Connection"
    by (simp add: s_noteFailure_def updStream_def)
  have q: "queuedChan ref c = (None, c)" using v2 by (simp add: queuedChan_def)
  show "err = None \<Longrightarrow> \<exists>p. encodeMessage msg c = Inr p \<and> int (length p) \<le> uint (cfg_maxFrame (c_config c)) \<and>
      ch_buf (c_outbound c') = ch_buf (c_outbound c) @
        [\<lparr>of_streamID = s_id (c_heap c ! ref), of_seq = 0, of_flags = 0, of_payload = p, of_queued = None, of_closing = None\<rparr>]"
    "err \<noteq> None \<Longrightarrow> c_outbound c' = c_outbound c"
    using out v2 o by (auto simp: sendBoxed_def q enqueueFrame_def Let_def ch_send_def split: if_splits sum.splits)
qed

text \<open>A send on a version 2 connection: on success exactly one frame is added behind the queue,
  on this stream, without flags, with the encoded message, which is within the negotiated limit; on
  an error nothing is queued. A message over the limit is refused with its size.\<close>

theorem send_queues_one_frame:
  assumes v2: "\<not> isRecoveryEnabled c" and len: "ref < length (c_heap c)"
    and out: "(err, c') \<in> set (sendBoxed now (\<lambda>c. c) ref msg c)"
  shows "(err = None \<longrightarrow> (\<exists>p. encodeMessage msg c = Inr p \<and> int (length p) \<le> uint (cfg_maxFrame (c_config c)) \<and>
            ch_buf (c_outbound c') = ch_buf (c_outbound c) @
              [\<lparr>of_streamID = s_id (c_heap c ! ref), of_seq = 0, of_flags = 0, of_payload = p,
                of_queued = None, of_closing = None\<rparr>])) \<and>
         (err \<noteq> None \<longrightarrow> c_outbound c' = c_outbound c) \<and>
         (\<forall>p. encodeMessage msg c = Inr p \<and> int (length p) > uint (cfg_maxFrame (c_config c)) \<and>
              \<not> s_closed (c_heap c ! ref) \<longrightarrow> err = Some (ErrFrameTooLarge (int (length p))))"
proof -
  have "err = Some (ErrFrameTooLarge (int (length p)))"
    if "encodeMessage msg c = Inr p" "int (length p) > uint (cfg_maxFrame (c_config c))" "\<not> s_closed (c_heap c ! ref)" for p
    using out that by (auto simp: sendBoxed_def)
  with send_queue [OF v2 out] show ?thesis by blast
qed

theorem send_queues_one_frame_witness:
  "\<exists>c'. (None, c') \<in> set (sendBoxed 5 (\<lambda>c. c) 0 () plainConnection) \<and>
     length (ch_buf (c_outbound c')) = Suc (length (ch_buf (c_outbound plainConnection)))"
proof -
  from plainConnection_facts(4) obtain c' where "(None, c') \<in> set (sendBoxed 5 (\<lambda>c. c) 0 () plainConnection)" by auto
  with send_queues_one_frame [OF plainConnection_facts(3,2) this] show ?thesis by fastforce
qed

end
