(* ===== verification/Dispatch.thy ===== *)
theory Dispatch
  imports Stream_Ops
begin

text \<open>
  The goroutines of a stream (\<^verbatim>\<open>src/connection.go\<close>: \<^verbatim>\<open>decodeLoop\<close>, \<^verbatim>\<open>dispatchMessage\<close>, \<^verbatim>\<open>handlerLoop\<close>; \<^verbatim>\<open>src/stream.go\<close>:
  \<^verbatim>\<open>inboxQ\<close>, \<^verbatim>\<open>handlerQ\<close>; \<^verbatim>\<open>src/context.go\<close>). The loops run until the stream or the connection ends, so
  each is given by one round, which says whether the loop goes on.

  \<open>errorReply\<close> builds the message of \<^verbatim>\<open>NewErrorReply\<close> and \<open>okReply\<close> is \<^verbatim>\<open>&OkReply{}\<close>; a handler is
  user code: \<open>runHandler\<close> gives its reply, if any, or its error, and what it does to the connection.
  The decode loop is the only sender on \<open>inbox\<close> and \<open>handlerCh\<close> and closes them when it ends.
\<close>

definition inboxQ ::
    "streamRef \<Rightarrow> ('m, 'b) rawMessage \<Rightarrow> ('m, 'b, 'h) Connection \<Rightarrow>
     (go_error option \<times> ('m, 'b, 'h) Connection) outcomes" where
  "inboxQ ref msg c =
     (let s = c_heap c ! ref
      in (if ch_room (s_inbox s)
          then [(None, noteReceivedMessage ref (updStream ref (\<lambda>s. s\<lparr>s_inbox := ch_send msg (s_inbox s)\<rparr>) c))]
          else []) @
         (if s_done s = Some True then [(Some ErrClosed, c)] else []) @
         (if c_closed c then [(Some ErrClosed, c)] else []))"

definition handlerQ ::
    "streamRef \<Rightarrow> ('m, 'h) handlerJob \<Rightarrow> ('m, 'b, 'h) Connection \<Rightarrow>
     (go_error option \<times> ('m, 'b, 'h) Connection) outcomes" where
  "handlerQ ref job c =
     (let s = c_heap c ! ref
      in case s_handlerCh s of
           None \<Rightarrow> [(Some ErrClosed, c)]
         | Some ch \<Rightarrow>
             (if ch_room ch
              then [(None, noteReceivedMessage ref (updStream ref (\<lambda>s. s\<lparr>s_handlerCh := Some (ch_send job ch)\<rparr>) c))]
              else []) @
             (if s_done s = Some True then [(Some ErrClosed, c)] else []) @
             (if c_closed c then [(Some ErrClosed, c)] else []))"

definition dropClosed :: "go_error option \<Rightarrow> go_error option" where
  "dropClosed err = (if err = Some ErrClosed then None else err)"

definition dispatchMessage ::
    "streamRef \<Rightarrow> ('m, 'b) rawMessage \<Rightarrow> ('m, 'b, 'h) Connection \<Rightarrow>
     (go_error option \<times> ('m, 'b, 'h) Connection) outcomes" where
  "dispatchMessage ref raw c =
     (case reg_handler (c_registry c) (rm_Wire raw) of
        Some handler \<Rightarrow>
          (case decodeRawWithRegistry raw (c_registry c) of
             Inl err \<Rightarrow> [(Some err, c)]
           | Inr msg \<Rightarrow>
               map (\<lambda>(err, c1). (dropClosed err, c1)) (handlerQ ref \<lparr>hj_handler = handler, hj_msg = msg\<rparr> c))
      | None \<Rightarrow> map (\<lambda>(err, c1). (dropClosed err, c1)) (inboxQ ref raw c))"

text \<open>The deferred closing of the channels.\<close>

definition endDecode :: "streamRef \<Rightarrow> ('m, 'b, 'h) Connection \<Rightarrow> ('m, 'b, 'h) Connection" where
  "endDecode ref c =
     updStream ref (\<lambda>s. s\<lparr>s_inbox := ch_close (s_inbox s), s_handlerCh := map_option ch_close (s_handlerCh s)\<rparr>) c"

datatype loopNext = LoopOn | LoopEnds

text \<open>A round of \<^verbatim>\<open>decodeLoop\<close>. The handshake sets the codec before the loops start; a nil codec would
  panic.\<close>

definition decodeFailed ::
    "int \<Rightarrow> (('m, 'b, 'h) Connection \<Rightarrow> ('m, 'b, 'h) Connection) \<Rightarrow> (string \<Rightarrow> string \<Rightarrow> 'm) \<Rightarrow>
     go_error \<Rightarrow> streamRef \<Rightarrow> ('m, 'b, 'h) Connection \<Rightarrow> (loopNext \<times> ('m, 'b, 'h) Connection) outcomes" where
  "decodeFailed now env errorReply err ref c =
     map (\<lambda>c1. (LoopEnds, endDecode ref c1))
       (protocolError now env errorReply ''codec_error'' (Error err) ref (noteDecodeError now err ref c))"

definition decodePayload ::
    "int \<Rightarrow> (('m, 'b, 'h) Connection \<Rightarrow> ('m, 'b, 'h) Connection) \<Rightarrow> (string \<Rightarrow> string \<Rightarrow> 'm) \<Rightarrow>
     bytes option \<Rightarrow> streamRef \<Rightarrow> ('m, 'b, 'h) Connection \<Rightarrow> (loopNext \<times> ('m, 'b, 'h) Connection) outcomes" where
  "decodePayload now env errorReply payload ref c =
     (case payload of
        None \<Rightarrow> [(LoopEnds, endDecode ref (removeStream now (s_id (c_heap c ! ref)) c))]
      | Some p \<Rightarrow>
          (case cfg_codec (c_config c) of
             None \<Rightarrow> []
           | Some codec \<Rightarrow>
               (case newRawMessageFromPayload codec p of
                  Inl err \<Rightarrow> decodeFailed now env errorReply err ref c
                | Inr raw \<Rightarrow>
                    concat (map (\<lambda>(err, c1).
                      case err of
                        None \<Rightarrow> [(LoopOn, c1)]
                      | Some e \<Rightarrow> decodeFailed now env errorReply e ref c1)
                    (dispatchMessage ref raw (env c))))))"

definition decodeStep ::
    "int \<Rightarrow> (('m, 'b, 'h) Connection \<Rightarrow> ('m, 'b, 'h) Connection) \<Rightarrow> (string \<Rightarrow> string \<Rightarrow> 'm) \<Rightarrow>
     streamRef \<Rightarrow> ('m, 'b, 'h) Connection \<Rightarrow> (loopNext \<times> ('m, 'b, 'h) Connection) outcomes" where
  "decodeStep now env errorReply ref c =
     (let s = c_heap c ! ref
      in (case s_incoming s of
            None \<Rightarrow> []
          | Some ch \<Rightarrow>
              (case ch_buf ch of
                 [] \<Rightarrow> []
               | payload # rest \<Rightarrow>
                   decodePayload now env errorReply payload ref
                     (updStream ref (\<lambda>s. s\<lparr>s_incoming := Some (ch\<lparr>ch_buf := rest\<rparr>)\<rparr>) c))) @
         (if s_done s = Some True then [(LoopEnds, endDecode ref c)] else []) @
         (if c_closed c then [(LoopEnds, endDecode ref c)] else []))"

text \<open>A round of \<^verbatim>\<open>handlerLoop\<close>; the loop ends once the channel is closed and empty.\<close>

definition countHandlerCall :: "streamRef \<Rightarrow> ('m, 'b, 'h) Connection \<Rightarrow> ('m, 'b, 'h) Connection" where
  "countHandlerCall ref c =
     (let c1 = updStream ref (\<lambda>s. s\<lparr>s_debug := (s_debug s)\<lparr>s_handlerCalls := s_handlerCalls (s_debug s) + 1\<rparr>\<rparr>) c
      in c1\<lparr>c_debug := (c_debug c1)\<lparr>handlerCalls := handlerCalls (c_debug c1) + 1\<rparr>\<rparr>)"

definition noteHandlerError ::
    "int \<Rightarrow> go_error \<Rightarrow> streamRef \<Rightarrow> ('m, 'b, 'h) Connection \<Rightarrow> ('m, 'b, 'h) Connection" where
  "noteHandlerError now err ref c =
     (let c1 = s_noteFailure now DebugFailureHandler (''handler error: '' @ Error err) ref c;
          c2 = updStream ref (\<lambda>s. s\<lparr>s_debug := (s_debug s)\<lparr>s_handlerErrors := s_handlerErrors (s_debug s) + 1\<rparr>\<rparr>) c1
      in c2\<lparr>c_debug := (c_debug c2)\<lparr>handlerErrors := handlerErrors (c_debug c2) + 1\<rparr>\<rparr>)"

definition runJob ::
    "int \<Rightarrow> (('m, 'b, 'h) Connection \<Rightarrow> ('m, 'b, 'h) Connection) \<Rightarrow> (string \<Rightarrow> string \<Rightarrow> 'm) \<Rightarrow> 'm \<Rightarrow>
     ('h \<Rightarrow> streamRef \<Rightarrow> 'm \<Rightarrow> ('m, 'b, 'h) Connection \<Rightarrow> 'm option result \<times> ('m, 'b, 'h) Connection) \<Rightarrow>
     ('m, 'h) handlerJob \<Rightarrow> streamRef \<Rightarrow> ('m, 'b, 'h) Connection \<Rightarrow> ('m, 'b, 'h) Connection outcomes" where
  "runJob now env errorReply okReply runHandler job ref c =
     (case runHandler (hj_handler job) ref (hj_msg job) (countHandlerCall ref c) of
        (Inl err, c1) \<Rightarrow>
          map snd (sendBoxed now env ref (errorReply ''handler_error'' (Error err)) (noteHandlerError now err ref c1))
      | (Inr None, c1) \<Rightarrow> map snd (sendBoxed now env ref okReply c1)
      | (Inr (Some reply), c1) \<Rightarrow> map snd (sendBoxed now env ref reply c1))"

definition handlerStep ::
    "int \<Rightarrow> (('m, 'b, 'h) Connection \<Rightarrow> ('m, 'b, 'h) Connection) \<Rightarrow> (string \<Rightarrow> string \<Rightarrow> 'm) \<Rightarrow> 'm \<Rightarrow>
     ('h \<Rightarrow> streamRef \<Rightarrow> 'm \<Rightarrow> ('m, 'b, 'h) Connection \<Rightarrow> 'm option result \<times> ('m, 'b, 'h) Connection) \<Rightarrow>
     streamRef \<Rightarrow> ('m, 'b, 'h) Connection \<Rightarrow> (loopNext \<times> ('m, 'b, 'h) Connection) outcomes" where
  "handlerStep now env errorReply okReply runHandler ref c =
     (case s_handlerCh (c_heap c ! ref) of
        None \<Rightarrow> []
      | Some ch \<Rightarrow>
          (case ch_buf ch of
             [] \<Rightarrow> if ch_closed ch then [(LoopEnds, c)] else []
           | job # rest \<Rightarrow>
               map (Pair LoopOn) (runJob now env errorReply okReply runHandler job ref
                 (updStream ref (\<lambda>s. s\<lparr>s_handlerCh := Some (ch\<lparr>ch_buf := rest\<rparr>)\<rparr>) c))))"

section \<open>Stream contexts\<close>

text \<open>The state a handler keeps on its stream. \<open>'v\<close> is \<^verbatim>\<open>any\<close>; a type argument of \<^verbatim>\<open>State\<close> is the
  assertion to it.\<close>

record 'v StreamContext =
  sc_state :: "'v option"
  sc_handlerTaskActive :: bool

definition SetState :: "'v option \<Rightarrow> 'v StreamContext \<Rightarrow> 'v StreamContext" where
  "SetState value sc = sc\<lparr>sc_state := value\<rparr>"

definition State :: "('v \<Rightarrow> 'a option) \<Rightarrow> 'v StreamContext \<Rightarrow> 'a option" where
  "State asType sc = (case sc_state sc of None \<Rightarrow> None | Some value \<Rightarrow> asType value)"

text \<open>\<^verbatim>\<open>NewTask\<close>: the error, or none when the task was started; \<open>taskEnds\<close> is its deferred end.\<close>

definition NewTask :: "'v StreamContext \<Rightarrow> go_error option \<times> 'v StreamContext" where
  "NewTask sc =
     (if sc_handlerTaskActive sc then (Some ErrHandlerTaskBusy, sc)
      else (None, sc\<lparr>sc_handlerTaskActive := True\<rparr>))"

definition taskEnds :: "'v StreamContext \<Rightarrow> 'v StreamContext" where
  "taskEnds sc = sc\<lparr>sc_handlerTaskActive := False\<rparr>"

section \<open>What the decode loop delivers\<close>

text \<open>The part of a stream that its decode loop works on.\<close>

definition decodeObs ::
    "streamRef \<Rightarrow> ('m, 'b, 'h) Connection \<Rightarrow>
     bool \<times> bytes option list option \<times> (('m, 'b) rawMessage list \<times> nat \<times> ('m, 'b) rawMessage option) \<times>
     ('m, 'h) handlerJob list option \<times> ('m, 'h) registryTypes \<times> ('m, 'b) CodecImpl option" where
  "decodeObs ref c =
     (let s = c_heap c ! ref
      in (ref < length (c_heap c), map_option ch_buf (s_incoming s), recvSide ref c,
          map_option ch_buf (s_handlerCh s), c_registry c, cfg_codec (c_config c)))"

lemma updStream_registry [simp]: "c_registry (updStream r f c) = c_registry c"
  by (simp add: updStream_def)

interpretation decode: send_observer "decodeObs ref" for ref
  by unfold_locales (simp_all add: decodeObs_def recvSide_def Let_def updStream_nth_keep)

text \<open>What becomes of a payload: a message for the receiver, or a job for the handlers.\<close>

fun toInbox ::
    "('m, 'h) registryTypes \<Rightarrow> ('m, 'b) CodecImpl \<Rightarrow> bytes list \<Rightarrow> ('m, 'b) rawMessage list" where
  "toInbox reg codec [] = []"
| "toInbox reg codec (p # ps) =
     (case newRawMessageFromPayload codec p of
        Inl _ \<Rightarrow> []
      | Inr raw \<Rightarrow> (if reg_handler reg (rm_Wire raw) = None then [raw] else [])) @ toInbox reg codec ps"

fun toHandlers ::
    "('m, 'h) registryTypes \<Rightarrow> ('m, 'b) CodecImpl \<Rightarrow> bytes list \<Rightarrow> ('m, 'h) handlerJob list" where
  "toHandlers reg codec [] = []"
| "toHandlers reg codec (p # ps) =
     (case newRawMessageFromPayload codec p of
        Inl _ \<Rightarrow> []
      | Inr raw \<Rightarrow>
          (case (reg_handler reg (rm_Wire raw), decodeRawWithRegistry raw reg) of
             (Some h, Inr m) \<Rightarrow> [\<lparr>hj_handler = h, hj_msg = m\<rparr>]
           | _ \<Rightarrow> [])) @ toHandlers reg codec ps"

lemma toInbox_append: "toInbox reg codec (ps @ qs) = toInbox reg codec ps @ toInbox reg codec qs"
  by (induction ps) simp_all

lemma toHandlers_append: "toHandlers reg codec (ps @ qs) = toHandlers reg codec ps @ toHandlers reg codec qs"
  by (induction ps) simp_all

text \<open>A stream is live while neither it nor its connection is closed.\<close>

definition live :: "streamRef \<Rightarrow> ('m, 'b, 'h) Connection \<Rightarrow> bool" where
  "live ref c \<longleftrightarrow> s_done (c_heap c ! ref) = Some False \<and> \<not> c_closed c"

text \<open>Runs of a stream: payloads arrive from the reader, the decode loop turns, the receiver takes
  messages, the handler loop takes jobs, and other goroutines do what leaves these queues alone.
  The ghosts are the payloads that arrived, the messages received and the jobs run, in order.\<close>

inductive decode_run ::
    "streamRef \<Rightarrow> ('m, 'b, 'h) Connection \<Rightarrow> bytes list \<Rightarrow> ('m, 'b) rawMessage list \<Rightarrow> ('m, 'h) handlerJob list \<Rightarrow> bool"
  for ref where
  run_start: "ref < length (c_heap c) \<Longrightarrow> c_heap c ! ref = newStreamCtx c i \<Longrightarrow>
     c_handlersEnabled c = hasHandlers (c_registry c) \<Longrightarrow> cfg_codec (c_config c) = Some codec \<Longrightarrow>
     decode_run ref c [] [] []"
| run_arrive: "decode_run ref c arrived received jobs \<Longrightarrow> live ref c \<Longrightarrow>
     (None, c') \<in> set (incomingQ ref (Some p) c) \<Longrightarrow> decode_run ref c' (arrived @ [p]) received jobs"
| run_decode: "decode_run ref c arrived received jobs \<Longrightarrow> live ref c \<Longrightarrow>
     (LoopOn, c') \<in> set (decodeStep now (\<lambda>c. c) errorReply ref c) \<Longrightarrow> decode_run ref c' arrived received jobs"
| run_receive: "decode_run ref c arrived received jobs \<Longrightarrow> live ref c \<Longrightarrow>
     (Inr msg, c') \<in> set (readRaw now ref c) \<Longrightarrow> decode_run ref c' arrived (received @ [msg]) jobs"
| run_handle: "decode_run ref c arrived received jobs \<Longrightarrow> live ref c \<Longrightarrow>
     s_handlerCh (c_heap c ! ref) = Some ch \<Longrightarrow> ch_buf ch = job # rest \<Longrightarrow>
     (\<And>c. decodeObs ref (env c) = decodeObs ref c) \<Longrightarrow>
     (\<And>h m c. decodeObs ref (snd (runHandler h ref m c)) = decodeObs ref c) \<Longrightarrow>
     (LoopOn, c') \<in> set (handlerStep now env errorReply okReply runHandler ref c) \<Longrightarrow>
     decode_run ref c' arrived received (jobs @ [job])"
| run_other: "decode_run ref c arrived received jobs \<Longrightarrow> decodeObs ref c' = decodeObs ref c \<Longrightarrow>
     decode_run ref c' arrived received jobs"

text \<open>The invariant: \<open>decoded\<close> are the payloads the loop has taken.\<close>

definition run_inv ::
    "streamRef \<Rightarrow> ('m, 'b, 'h) Connection \<Rightarrow> bytes list \<Rightarrow> ('m, 'b) rawMessage list \<Rightarrow> ('m, 'h) handlerJob list \<Rightarrow> bool" where
  "run_inv ref c arrived received jobs \<longleftrightarrow>
     (\<exists>codec decoded pending inbox hs.
        decodeObs ref c = (True, Some (map Some pending), (inbox, 0, None), hs, c_registry c, Some codec) \<and>
        arrived = decoded @ pending \<and> (hasHandlers (c_registry c) \<longrightarrow> hs \<noteq> None) \<and>
        received @ inbox = toInbox (c_registry c) codec decoded \<and>
        jobs @ (case hs of None \<Rightarrow> [] | Some js \<Rightarrow> js) = toHandlers (c_registry c) codec decoded)"

lemma run_inv_cong:
  "run_inv ref c arrived received jobs \<Longrightarrow> decodeObs ref c' = decodeObs ref c \<Longrightarrow> run_inv ref c' arrived received jobs"
  unfolding run_inv_def by (auto simp: decodeObs_def Let_def)

lemma reg_handler_hasHandlers: "reg_handler reg w = Some h \<Longrightarrow> hasHandlers reg"
  by (auto simp: reg_handler_def hasHandlers_def)

lemma noteReceivedMessage_obs: "decodeObs ref (noteReceivedMessage r c) = decodeObs ref c"
  by (simp add: noteReceivedMessage_def Let_def decode.obs_simps)

lemma dispatch_effect:
  assumes out: "(None, c') \<in> set (dispatchMessage ref raw c)" and live: "live ref c"
    and obs: "decodeObs ref c = (True, inc, (inbox, k, pk), hs, reg, cd)" and h: "hasHandlers reg \<longrightarrow> hs \<noteq> None"
  shows "\<exists>inbox' hs'. decodeObs ref c' = (True, inc, (inbox', k, pk), hs', reg, cd) \<and>
           (case reg_handler reg (rm_Wire raw) of
              None \<Rightarrow> inbox' = inbox @ [raw] \<and> hs' = hs
            | Some f \<Rightarrow> inbox' = inbox \<and> (\<exists>m js. decodeRawWithRegistry raw reg = Inr m \<and> hs = Some js \<and>
                hs' = Some (js @ [\<lparr>hj_handler = f, hj_msg = m\<rparr>])))"
proof (cases "reg_handler reg (rm_Wire raw)")
  case None
  from obs have reg: "c_registry c = reg" and len: "ref < length (c_heap c)" by (simp_all add: decodeObs_def Let_def)
  from out None live have "c' = noteReceivedMessage ref (updStream ref (\<lambda>s. s\<lparr>s_inbox := ch_send raw (s_inbox s)\<rparr>) c)"
    by (auto simp: dispatchMessage_def reg inboxQ_def live_def dropClosed_def Let_def split: if_splits)
  with None obs len show ?thesis
    by (simp add: noteReceivedMessage_obs) (simp add: decodeObs_def recvSide_def Let_def updStream_nth ch_send_def)
next
  case (Some f)
  from obs have reg: "c_registry c = reg" and len: "ref < length (c_heap c)" by (simp_all add: decodeObs_def Let_def)
  from obs h Some obtain ch where ch: "s_handlerCh (c_heap c ! ref) = Some ch"
    by (auto simp: decodeObs_def Let_def dest: reg_handler_hasHandlers)
  from out Some live ch obtain m where m: "decodeRawWithRegistry raw reg = Inr m"
    and c': "c' = noteReceivedMessage ref (updStream ref
        (\<lambda>s. s\<lparr>s_handlerCh := Some (ch_send \<lparr>hj_handler = f, hj_msg = m\<rparr> ch)\<rparr>) c)"
    by (auto simp: dispatchMessage_def reg handlerQ_def live_def dropClosed_def Let_def split: if_splits sum.splits)
  from Some obs len m ch show ?thesis unfolding c' noteReceivedMessage_obs
    by (auto simp: decodeObs_def recvSide_def Let_def updStream_nth ch_send_def)
qed

lemma decodeFailed_ends: "(LoopOn, c') \<notin> set (decodeFailed now env er err ref c)"
  by (auto simp: decodeFailed_def)

lemma decodeStep_inv:
  assumes inv: "run_inv ref c arrived received jobs" and live: "live ref c"
    and out: "(LoopOn, c') \<in> set (decodeStep now (\<lambda>c. c) errorReply ref c)"
  shows "run_inv ref c' arrived received jobs"
proof -
  from inv obtain codec decoded pending inbox hs where
    obs: "decodeObs ref c = (True, Some (map Some pending), (inbox, 0, None), hs, c_registry c, Some codec)"
    and a: "arrived = decoded @ pending" "hasHandlers (c_registry c) \<longrightarrow> hs \<noteq> None"
    and r: "received @ inbox = toInbox (c_registry c) codec decoded"
    and j: "jobs @ (case hs of None \<Rightarrow> [] | Some js \<Rightarrow> js) = toHandlers (c_registry c) codec decoded"
    unfolding run_inv_def by blast
  from obs obtain ch where ch: "s_incoming (c_heap c ! ref) = Some ch" "ch_buf ch = map Some pending"
    and len: "ref < length (c_heap c)" and cd: "cfg_codec (c_config c) = Some codec"
    by (auto simp: decodeObs_def Let_def)
  from out live ch obtain p ps where p: "pending = p # ps"
    and d: "(LoopOn, c') \<in> set (decodePayload now (\<lambda>c. c) errorReply (Some p) ref
              (updStream ref (\<lambda>s. s\<lparr>s_incoming := Some (ch\<lparr>ch_buf := map Some ps\<rparr>)\<rparr>) c))"
    by (cases pending) (auto simp: decodeStep_def Let_def live_def)
  let ?c1 = "updStream ref (\<lambda>s. s\<lparr>s_incoming := Some (ch\<lparr>ch_buf := map Some ps\<rparr>)\<rparr>) c"
  have obs1: "decodeObs ref ?c1 = (True, Some (map Some ps), (inbox, 0, None), hs, c_registry c, Some codec)"
    using obs len by (simp add: decodeObs_def recvSide_def Let_def updStream_nth)
  have live1: "live ref ?c1" using live len by (simp add: live_def updStream_nth)
  from d cd obtain raw where raw: "newRawMessageFromPayload codec p = Inr raw"
    and disp: "(None, c') \<in> set (dispatchMessage ref raw ?c1)"
    by (auto simp: decodePayload_def decodeFailed_ends split: sum.splits option.splits)
  from dispatch_effect [OF disp live1 obs1 a(2)] obtain inbox' hs' where
    obs': "decodeObs ref c' = (True, Some (map Some ps), (inbox', 0, None), hs', c_registry c, Some codec)"
    and e: "case reg_handler (c_registry c) (rm_Wire raw) of
              None \<Rightarrow> inbox' = inbox @ [raw] \<and> hs' = hs
            | Some f \<Rightarrow> inbox' = inbox \<and> (\<exists>m js. decodeRawWithRegistry raw (c_registry c) = Inr m \<and> hs = Some js \<and>
                hs' = Some (js @ [\<lparr>hj_handler = f, hj_msg = m\<rparr>]))" by blast
  from obs' have reg': "c_registry c' = c_registry c" by (simp add: decodeObs_def Let_def)
  have "received @ inbox' = toInbox (c_registry c) codec (decoded @ [p])"
    "jobs @ (case hs' of None \<Rightarrow> [] | Some js \<Rightarrow> js) = toHandlers (c_registry c) codec (decoded @ [p])"
    "hasHandlers (c_registry c) \<longrightarrow> hs' \<noteq> None"
    using e r j raw a(2) by (auto simp: toInbox_append toHandlers_append split: option.splits)
  with obs' reg' a(1) p show ?thesis unfolding run_inv_def
    by (intro exI [of _ codec] exI [of _ "decoded @ [p]"] exI [of _ ps] exI [of _ inbox'] exI [of _ hs']) simp
qed

lemma incomingQ_inv:
  assumes inv: "run_inv ref c arrived received jobs" and live: "live ref c"
    and out: "(None, c') \<in> set (incomingQ ref (Some p) c)"
  shows "run_inv ref c' (arrived @ [p]) received jobs"
proof -
  from inv obtain codec decoded pending inbox hs where
    obs: "decodeObs ref c = (True, Some (map Some pending), (inbox, 0, None), hs, c_registry c, Some codec)"
    and r: "arrived = decoded @ pending" "hasHandlers (c_registry c) \<longrightarrow> hs \<noteq> None"
      "received @ inbox = toInbox (c_registry c) codec decoded"
      "jobs @ (case hs of None \<Rightarrow> [] | Some js \<Rightarrow> js) = toHandlers (c_registry c) codec decoded"
    unfolding run_inv_def by blast
  from out obs obtain ch where ch: "s_incoming (c_heap c ! ref) = Some ch" "ch_buf ch = map Some pending"
    and c': "c' = updStream ref (\<lambda>s. s\<lparr>s_incoming := Some (ch_send (Some p) ch)\<rparr>) c"
    by (auto simp: incomingQ_def decodeObs_def Let_def split: option.splits if_splits)
  have "decodeObs ref c' = (True, Some (map Some (pending @ [p])), (inbox, 0, None), hs, c_registry c, Some codec)"
    using obs ch by (auto simp: c' decodeObs_def recvSide_def Let_def updStream_nth ch_send_def)
  moreover have "c_registry c' = c_registry c" by (simp add: c')
  ultimately show ?thesis unfolding run_inv_def using r
    by (intro exI [of _ codec] exI [of _ decoded] exI [of _ "pending @ [p]"] exI [of _ inbox] exI [of _ hs]) simp
qed

lemma readRaw_inv:
  assumes inv: "run_inv ref c arrived received jobs" and out: "(Inr msg, c') \<in> set (readRaw now ref c)"
  shows "run_inv ref c' arrived (received @ [msg]) jobs"
proof -
  from inv obtain codec decoded pending inbox hs where
    obs: "decodeObs ref c = (True, Some (map Some pending), (inbox, 0, None), hs, c_registry c, Some codec)"
    and r: "arrived = decoded @ pending" "hasHandlers (c_registry c) \<longrightarrow> hs \<noteq> None"
      "received @ inbox = toInbox (c_registry c) codec decoded"
      "jobs @ (case hs of None \<Rightarrow> [] | Some js \<Rightarrow> js) = toHandlers (c_registry c) codec decoded"
    unfolding run_inv_def by blast
  from obs have len: "ref < length (c_heap c)" and side: "recvSide ref c = (inbox, 0, None)"
    by (simp_all add: decodeObs_def Let_def)
  from readRaw_cases [OF out len side] have n: "0 < length inbox" "msg = inbox ! 0"
    and i2: "recvSide ref c' = (drop (Suc 0) inbox, 0, None)" by simp_all
  from n have i: "inbox = msg # drop (Suc 0) inbox" by (cases inbox) simp_all
  from readRaw_message [OF out] obtain ms k where
    c': "c' = updStream ref (\<lambda>s. s\<lparr>s_inbox := (s_inbox s)\<lparr>ch_buf := ms\<rparr>, s_staleReplies := k\<rparr>) c" .
  have "decodeObs ref c' = (True, Some (map Some pending), (drop (Suc 0) inbox, 0, None), hs, c_registry c, Some codec)"
    using obs i2 by (simp add: decodeObs_def Let_def c' updStream_nth)
  moreover have "c_registry c' = c_registry c" by (simp add: c')
  moreover have "(received @ [msg]) @ drop (Suc 0) inbox = received @ inbox" by (subst (2) i) simp
  ultimately show ?thesis unfolding run_inv_def using r
    by (intro exI [of _ codec] exI [of _ decoded] exI [of _ pending] exI [of _ "drop (Suc 0) inbox"] exI [of _ hs]) simp
qed

lemma runJob_obs:
  assumes env: "\<And>c. decodeObs ref (env c) = decodeObs ref c"
    and run: "\<And>h m c. decodeObs ref (snd (runHandler h ref m c)) = decodeObs ref c"
    and out: "c' \<in> set (runJob now env er ok runHandler job ref c)"
  shows "decodeObs ref c' = decodeObs ref c"
proof -
  have n: "decodeObs ref (noteHandlerError now e r x) = decodeObs ref x" "decodeObs ref (countHandlerCall r x) = decodeObs ref x"
    for e r and x :: "('a, 'b, 'c) Connection"
    by (simp_all add: noteHandlerError_def countHandlerCall_def Let_def decode.obs_simps decode.s_noteFailure_obs)
  obtain res c1 where h: "runHandler (hj_handler job) ref (hj_msg job) (countHandlerCall ref c) = (res, c1)"
    by (cases "runHandler (hj_handler job) ref (hj_msg job) (countHandlerCall ref c)")
  with run [of "hj_handler job" "hj_msg job" "countHandlerCall ref c"] have c1: "decodeObs ref c1 = decodeObs ref c"
    by (simp add: n)
  from out h obtain err msg x where "(err, c') \<in> set (sendBoxed now env ref msg x)"
    and "decodeObs ref x = decodeObs ref c1"
    by (auto simp: runJob_def n split: sum.splits option.splits)
  with decode.sendBoxed_obs [OF env] c1 show ?thesis by metis
qed

lemma handlerStep_inv:
  assumes inv: "run_inv ref c arrived received jobs"
    and ch: "s_handlerCh (c_heap c ! ref) = Some ch" "ch_buf ch = job # rest"
    and env: "\<And>c. decodeObs ref (env c) = decodeObs ref c"
    and run: "\<And>h m c. decodeObs ref (snd (runHandler h ref m c)) = decodeObs ref c"
    and out: "(LoopOn, c') \<in> set (handlerStep now env er ok runHandler ref c)"
  shows "run_inv ref c' arrived received (jobs @ [job])"
proof -
  from inv obtain codec decoded pending inbox hs where
    obs: "decodeObs ref c = (True, Some (map Some pending), (inbox, 0, None), hs, c_registry c, Some codec)"
    and r: "arrived = decoded @ pending" "hasHandlers (c_registry c) \<longrightarrow> hs \<noteq> None"
      "received @ inbox = toInbox (c_registry c) codec decoded"
      "jobs @ (case hs of None \<Rightarrow> [] | Some js \<Rightarrow> js) = toHandlers (c_registry c) codec decoded"
    unfolding run_inv_def by blast
  let ?c1 = "updStream ref (\<lambda>s. s\<lparr>s_handlerCh := Some (ch\<lparr>ch_buf := rest\<rparr>)\<rparr>) c"
  from out ch have j: "c' \<in> set (runJob now env er ok runHandler job ref ?c1)" by (auto simp: handlerStep_def)
  have "decodeObs ref ?c1 = (True, Some (map Some pending), (inbox, 0, None), Some rest, c_registry c, Some codec)"
    using obs by (auto simp: decodeObs_def recvSide_def Let_def updStream_nth)
  then have obs': "decodeObs ref c' = (True, Some (map Some pending), (inbox, 0, None), Some rest, c_registry c, Some codec)"
    using runJob_obs [OF env run j] by simp
  moreover from obs' have "c_registry c' = c_registry c" by (simp add: decodeObs_def Let_def)
  moreover from obs ch have "hs = Some (job # rest)" by (simp add: decodeObs_def Let_def)
  ultimately show ?thesis unfolding run_inv_def using r
    by (intro exI [of _ codec] exI [of _ decoded] exI [of _ pending] exI [of _ inbox] exI [of _ "Some rest"]) simp
qed

lemma run_start_inv:
  assumes "ref < length (c_heap c)" "c_heap c ! ref = newStreamCtx c i"
    "c_handlersEnabled c = hasHandlers (c_registry c)" "cfg_codec (c_config c) = Some codec"
  shows "run_inv ref c [] [] []"
  unfolding run_inv_def using assms
  by (intro exI [of _ codec] exI [of _ "[]"] exI [of _ "if c_handlersEnabled c then Some [] else None"])
     (simp add: decodeObs_def recvSide_def newStreamCtx_def setRecvTimeout_def Let_def make_chan_def)

lemma decode_run_inv: "decode_run ref c arrived received jobs \<Longrightarrow> run_inv ref c arrived received jobs"
proof (induction rule: decode_run.induct)
  case (run_handle c arrived received jobs ch job rest env runHandler c' now errorReply okReply)
  show ?case by (rule handlerStep_inv [OF run_handle.IH run_handle.hyps(3-7)])
qed (blast intro: run_start_inv incomingQ_inv decodeStep_inv readRaw_inv run_inv_cong)+

lemma decodeStep_progress:
  assumes "cfg_codec (c_config c) = Some codec" "ref < length (c_heap c)"
    and inc: "map_option ch_buf (s_incoming (c_heap c ! ref)) = Some (map Some pending)"
    and p: "pending = p # rest" "newRawMessageFromPayload codec p = Inr raw"
      "reg_handler (c_registry c) (rm_Wire raw) = None" "ch_room (s_inbox (c_heap c ! ref))"
  shows "\<exists>c'. (LoopOn, c') \<in> set (decodeStep now (\<lambda>c. c) errorReply ref c)"
proof -
  from inc p obtain ch where ch: "s_incoming (c_heap c ! ref) = Some ch" "ch_buf ch = Some p # map Some rest" by auto
  let ?c1 = "updStream ref (\<lambda>s. s\<lparr>s_incoming := Some (ch\<lparr>ch_buf := map Some rest\<rparr>)\<rparr>) c"
  have "\<exists>c'. (None, c') \<in> set (dispatchMessage ref raw ?c1)"
    using assms by (auto simp: dispatchMessage_def inboxQ_def dropClosed_def updStream_nth Let_def)
  then show ?thesis using assms(1) ch p(2)
    by (force simp: decodeStep_def decodePayload_def Let_def)
qed

section \<open>Properties\<close>

text \<open>C28. Messages are delivered in order: however payloads arrive, the decode loop turns, the receiver
  takes messages and handlers run, the payloads decoded so far are a prefix of those that arrived
  and the rest is queued; the messages received and queued for the receiver are exactly the decoded
  ones without a handler, in order, and the jobs run and queued are exactly the decoded ones with
  a handler, in order. While the stream is open and its inbox has room, the next payload that is a
  message without a handler can be decoded.\<close>

theorem decode_in_order:
  assumes "decode_run ref c arrived received jobs"
  shows "\<exists>codec decoded pending. cfg_codec (c_config c) = Some codec \<and> arrived = decoded @ pending \<and>
           map_option ch_buf (s_incoming (c_heap c ! ref)) = Some (map Some pending) \<and>
           received @ ch_buf (s_inbox (c_heap c ! ref)) = toInbox (c_registry c) codec decoded \<and>
           jobs @ (case s_handlerCh (c_heap c ! ref) of None \<Rightarrow> [] | Some ch \<Rightarrow> ch_buf ch) =
             toHandlers (c_registry c) codec decoded \<and>
           (\<forall>p rest raw. pending = p # rest \<and> newRawMessageFromPayload codec p = Inr raw \<and>
              reg_handler (c_registry c) (rm_Wire raw) = None \<and> ch_room (s_inbox (c_heap c ! ref)) \<longrightarrow>
              (\<exists>c'. (LoopOn, c') \<in> set (decodeStep now (\<lambda>c. c) errorReply ref c)))"
proof -
  from decode_run_inv [OF assms] obtain codec decoded pending inbox hs where
    obs: "decodeObs ref c = (True, Some (map Some pending), (inbox, 0, None), hs, c_registry c, Some codec)"
    and r: "arrived = decoded @ pending" "received @ inbox = toInbox (c_registry c) codec decoded"
      "jobs @ (case hs of None \<Rightarrow> [] | Some js \<Rightarrow> js) = toHandlers (c_registry c) codec decoded"
    unfolding run_inv_def by blast
  from obs have o: "cfg_codec (c_config c) = Some codec" "ref < length (c_heap c)"
    "map_option ch_buf (s_incoming (c_heap c ! ref)) = Some (map Some pending)"
    "ch_buf (s_inbox (c_heap c ! ref)) = inbox" "hs = map_option ch_buf (s_handlerCh (c_heap c ! ref))"
    by (simp_all add: decodeObs_def recvSide_def Let_def)
  have j: "(case s_handlerCh (c_heap c ! ref) of None \<Rightarrow> [] | Some ch \<Rightarrow> ch_buf ch) =
      (case hs of None \<Rightarrow> [] | Some js \<Rightarrow> js)" by (simp add: o(5) split: option.splits)
  have "\<exists>c'. (LoopOn, c') \<in> set (decodeStep now (\<lambda>c. c) errorReply ref c)"
    if "pending = p # rest" "newRawMessageFromPayload codec p = Inr raw"
      "reg_handler (c_registry c) (rm_Wire raw) = None" "ch_room (s_inbox (c_heap c ! ref))" for p rest raw
    using decodeStep_progress [OF o(1-3) that] by blast
  with o r j show ?thesis by (intro exI [of _ codec] exI [of _ decoded] exI [of _ pending]) simp
qed

theorem decode_in_order_witness:
  "\<exists>c. (None, c) \<in> set (incomingQ 0 (Some [7]) plainConnection) \<and> decode_run 0 c [[7]] [] [] \<and>
     (\<exists>codec decoded pending. cfg_codec (c_config c) = Some codec \<and> [[7]] = decoded @ pending \<and>
        [] @ ch_buf (s_inbox (c_heap c ! 0)) = toInbox (c_registry c) codec decoded)"
proof -
  have h: "c_heap plainConnection ! 0 = newStreamCtx plainConnection 1"
    by (simp add: plainConnection_def sampleConnection_def newPendingConnection_def NewStream_def streamForID_def
        getStreamCtx_def newStreamCtx_def startStream_def openedStream_def maxStreamID_val Let_def)
  have e: "c_handlersEnabled plainConnection = hasHandlers (c_registry plainConnection)"
    and l: "live 0 plainConnection" and q: "map fst (incomingQ 0 (Some [7]) plainConnection) = [None]" by code_simp+
  obtain codec where cd: "cfg_codec (c_config plainConnection) = Some codec"
  proof -
    have "\<not> Option.is_none (cfg_codec (c_config plainConnection))" by code_simp
    then show ?thesis using that by (cases "cfg_codec (c_config plainConnection)") simp_all
  qed
  from q obtain c where c: "(None, c) \<in> set (incomingQ 0 (Some [7]) plainConnection)" by auto
  have "decode_run 0 c [[7]] [] []"
    using run_arrive [OF run_start [OF plainConnection_facts(2) h e cd] l c] by simp
  with decode_in_order [OF this, of 0 "\<lambda>_ _. ()"] c show ?thesis by blast
qed

end
