(* ===== verification/Plain_Loops.thy ===== *)
theory Plain_Loops
  imports Dispatch
begin

text \<open>
  The two goroutines of a connection without recovery (\<^verbatim>\<open>src/connection.go\<close>: \<^verbatim>\<open>writerLoop\<close>,
  \<^verbatim>\<open>readerLoop\<close>), each given by one round. The writer batches: it writes queued frames into the
  buffered writer and flushes when the queue is empty. Reading and writing are over the byte
  connections of \<open>IO_Model\<close>.
\<close>

section \<open>The loops of a version 2 connection\<close>

text \<open>A state of \<^verbatim>\<open>writerLoop\<close>: whether it is inside a batch that is not flushed yet, the buffered
  writer and the connection.\<close>

type_synonym ('m, 'b, 'h) writerLoopState = "bool \<times> bufio_writer \<times> ('m, 'b, 'h) Connection"

definition writeQueued ::
    "int \<Rightarrow> outboundFrame \<Rightarrow> bufio_writer \<Rightarrow> ('m, 'b, 'h) Connection \<Rightarrow>
     loopNext \<times> ('m, 'b, 'h) writerLoopState" where
  "writeQueued now frame bw c =
     (case of_closing frame of
        Some marker \<Rightarrow>
          (case bw_Flush bw of
             (err, bw1) \<Rightarrow>
               let c1 = (case err of
                           None \<Rightarrow> c
                         | Some e \<Rightarrow> conn_noteFailure now DebugFailureWriterLoop (''writer flush failed: '' @ Error e) c)
               in (LoopEnds, False, bw1, c1\<lparr>c_finished := List.insert marker (c_finished c1)\<rparr>))
      | None \<Rightarrow>
          (case writeFrameNoFlush bw_Write (c_config c) (c_debug c) bw (of_streamID frame) (of_seq frame)
                  (of_flags frame) (of_payload frame) of
             (Some e, d, bw1) \<Rightarrow>
               (LoopEnds, False, bw1, markClosed (conn_noteFailure now DebugFailureWriterLoop
                  (''writer loop failed: '' @ Error e) (c\<lparr>c_debug := d\<rparr>)))
           | (None, d, bw1) \<Rightarrow> (LoopOn, True, bw1, c\<lparr>c_debug := d\<rparr>)))"

definition writerStep ::
    "int \<Rightarrow> ('m, 'b, 'h) writerLoopState \<Rightarrow> (loopNext \<times> ('m, 'b, 'h) writerLoopState) outcomes" where
  "writerStep now ws =
     (case ws of (batch, bw, c) \<Rightarrow>
        (case ch_buf (c_outbound c) of
           frame # rest \<Rightarrow> [writeQueued now frame bw (c\<lparr>c_outbound := (c_outbound c)\<lparr>ch_buf := rest\<rparr>\<rparr>)]
         | [] \<Rightarrow>
             if batch then
               (case bw_Flush bw of
                  (None, bw1) \<Rightarrow> [(LoopOn, False, bw1, c)]
                | (Some e, bw1) \<Rightarrow>
                    [(LoopEnds, False, bw1, markClosed (conn_noteFailure now DebugFailureWriterLoop
                       (''writer flush failed: '' @ Error e) c))])
             else []) @
        (if \<not> batch \<and> c_closed c then [(LoopEnds, ws)] else []))"

definition readerStep ::
    "int \<Rightarrow> (('m, 'b, 'h) Connection \<Rightarrow> ('m, 'b, 'h) Connection) \<Rightarrow> net_conn \<Rightarrow>
     ('m, 'b, 'h) Connection \<Rightarrow> (loopNext \<times> net_conn \<times> ('m, 'b, 'h) Connection) outcomes" where
  "readerStep now env net c =
     (case readFrameFrom (c_config c) (c_debug c) net of
        (Inl err, d, net') \<Rightarrow>
          let c1 = c\<lparr>c_debug := d\<rparr>
          in if err = EOF then map (\<lambda>c2. (LoopEnds, net', c2)) (closeByPeer env c1)
             else [(LoopEnds, net', markClosed (conn_noteFailure now DebugFailureReaderLoop
                     (''reader loop failed: '' @ Error err) c1))]
      | (Inr (streamID, seq, flags, payload), d, net') \<Rightarrow>
          map (\<lambda>(err, c1).
              case err of
                None \<Rightarrow> (LoopOn, net', c1)
              | Some e \<Rightarrow> (LoopEnds, net', markClosed (conn_noteFailure now DebugFailureReaderEnqueue
                            (''reader enqueue failed: '' @ Error e) c1)))
            (acceptFrame env streamID flags payload (c\<lparr>c_debug := d\<rparr>)))"


section \<open>Runs of the writer\<close>

definition queued_frame :: "outboundFrame \<Rightarrow> u32 \<times> u64 \<times> FrameFlags \<times> bytes" where
  "queued_frame f = (of_streamID f, of_seq f, of_flags f, of_payload f)"

text \<open>The writer turns and frames are queued by \<^verbatim>\<open>enqueueFrame\<close>; the ghosts are the frames queued and
  the frames the writer took, in order.\<close>

inductive plain_run ::
    "('m, 'b, 'h) writerLoopState \<Rightarrow> outboundFrame list \<Rightarrow> outboundFrame list \<Rightarrow> bool" where
  plain_start: "bw_taken bw = [] \<Longrightarrow> ch_buf (c_outbound c) = [] \<Longrightarrow> \<not> isRecoveryEnabled c \<Longrightarrow>
     plain_run (False, bw, c) [] []"
| plain_enqueue: "plain_run (batch, bw, c) queued written \<Longrightarrow> frame_ok (c_config c) (queued_frame frame) \<Longrightarrow>
     of_closing frame = None \<Longrightarrow> (None, c') \<in> set (enqueueFrame (\<lambda>c. c) q frame c) \<Longrightarrow>
     plain_run (batch, bw, c') (queued @ [frame]) written"
| plain_write: "plain_run (batch, bw, c) queued written \<Longrightarrow> ch_buf (c_outbound c) = frame # rest \<Longrightarrow>
     (LoopOn, ws') \<in> set (writerStep now (batch, bw, c)) \<Longrightarrow> plain_run ws' queued (written @ [frame])"
| plain_flush: "plain_run (batch, bw, c) queued written \<Longrightarrow> ch_buf (c_outbound c) = [] \<Longrightarrow>
     (LoopOn, ws') \<in> set (writerStep now (batch, bw, c)) \<Longrightarrow> plain_run ws' queued written"

definition plain_inv ::
    "('m, 'b, 'h) writerLoopState \<Rightarrow> outboundFrame list \<Rightarrow> outboundFrame list \<Rightarrow> bool" where
  "plain_inv ws queued written \<longleftrightarrow>
     (case ws of (batch, bw, c) \<Rightarrow>
        \<not> isRecoveryEnabled c \<and> queued = written @ ch_buf (c_outbound c) \<and>
        (\<forall>f \<in> set queued. frame_ok (c_config c) (queued_frame f) \<and> of_closing f = None) \<and>
        bw_taken bw = concat (map (\<lambda>f. frame_layout (cfg_version (c_config c)) (queued_frame f)) written) \<and>
        (\<not> batch \<longrightarrow> nc_out (bw_conn bw) = bw_taken bw))"

lemma plain_inv_enqueue:
  assumes "plain_inv (batch, bw, c) queued written" "frame_ok (c_config c) (queued_frame frame)"
    "of_closing frame = None" "(None, c') \<in> set (enqueueFrame (\<lambda>c. c) q frame c)"
  shows "plain_inv (batch, bw, c') (queued @ [frame]) written"
  using assms by (auto simp: plain_inv_def enqueueFrame_def isRecoveryEnabled_def ch_send_def Let_def split: if_splits)

lemma plain_inv_write:
  assumes inv: "plain_inv (batch, bw, c) queued written" and q: "ch_buf (c_outbound c) = frame # rest"
    and out: "(LoopOn, ws') \<in> set (writerStep now (batch, bw, c))"
  shows "plain_inv ws' queued (written @ [frame])"
proof -
  from inv q have f: "frame_ok (c_config c) (queued_frame frame)" "of_closing frame = None"
    by (simp_all add: plain_inv_def)
  from out q f(2) obtain d bw1 where
    w: "writeFrameNoFlush bw_Write (c_config c) (c_debug c) bw (of_streamID frame) (of_seq frame)
          (of_flags frame) (of_payload frame) = (None, d, bw1)"
    and ws': "ws' = (True, bw1, c\<lparr>c_outbound := (c_outbound c)\<lparr>ch_buf := rest\<rparr>, c_debug := d\<rparr>)"
    by (auto simp: writerStep_def writeQueued_def split: prod.splits option.splits)
  have "bw_taken bw1 = bw_taken bw @ frame_layout (cfg_version (c_config c)) (queued_frame frame)"
    using writeFrame_taken [OF bufw.io_writer_axioms _ w] f(1) by (simp add: queued_frame_def)
  with inv q show ?thesis by (simp add: plain_inv_def ws' isRecoveryEnabled_def)
qed

lemma plain_inv_flush:
  assumes inv: "plain_inv (batch, bw, c) queued written" and q: "ch_buf (c_outbound c) = []"
    and out: "(LoopOn, ws') \<in> set (writerStep now (batch, bw, c))"
  shows "plain_inv ws' queued written"
proof -
  obtain e bw1 where f: "bw_Flush bw = (e, bw1)" by (cases "bw_Flush bw")
  with out q have e: "e = None \<and> ws' = (False, bw1, c)"
    by (cases e; cases batch; cases "c_closed c") (simp_all add: writerStep_def)
  then have ws': "ws' = (False, bw1, c)" and f: "bw_Flush bw = (None, bw1)" using f by simp_all
  from bw_Flush_taken [of bw] bw_Flush_ok [OF f] f have "bw_taken bw1 = bw_taken bw" "nc_out (bw_conn bw1) = bw_taken bw"
    by simp_all
  with inv show ?thesis by (simp add: plain_inv_def ws')
qed

lemma plain_run_inv: "plain_run ws queued written \<Longrightarrow> plain_inv ws queued written"
proof (induction rule: plain_run.induct)
  case (plain_start bw c)
  then show ?case by (simp add: plain_inv_def bw_taken_def)
next
  case (plain_enqueue batch bw c queued written frame c' q)
  show ?case by (rule plain_inv_enqueue [OF plain_enqueue.IH plain_enqueue.hyps(2-4)])
next
  case (plain_write batch bw c queued written frame rest ws' now)
  show ?case by (rule plain_inv_write [OF plain_write.IH plain_write.hyps(2,3)])
next
  case (plain_flush batch bw c queued written ws' now)
  show ?case by (rule plain_inv_flush [OF plain_flush.IH plain_flush.hyps(2,3)])
qed

section \<open>Reading what was written\<close>

fun readFrames ::
    "nat \<Rightarrow> 'c connConfig \<Rightarrow> connectionDebugCounters \<Rightarrow> net_conn \<Rightarrow> (u32 \<times> u64 \<times> FrameFlags \<times> bytes) list \<times> net_conn" where
  "readFrames 0 cfg d net = ([], net)"
| "readFrames (Suc n) cfg d net =
     (case readFrameFrom cfg d net of
        (Inl _, _, net') \<Rightarrow> ([], net')
      | (Inr f, d', net') \<Rightarrow> (case readFrames n cfg d' net' of (fs, net'') \<Rightarrow> (f # fs, net'')))"

lemma readFrames_layout:
  assumes "\<forall>f \<in> set fs. frame_ok cfg f"
    and "nc_in net = concat (map (frame_layout (cfg_version cfg)) fs) @ rest"
  shows "readFrames (length fs) cfg d net = (fs, net\<lparr>nc_in := rest\<rparr>)"
  using assms
proof (induction fs arbitrary: d net)
  case (Cons f fs)
  obtain i s fl p where f: "f = (i, s, fl, p)" by (cases f)
  from Cons.prems have "readFrameFrom cfg d net = (Inr f, countRead i (cfg_headerLen cfg + length p) d,
      net\<lparr>nc_in := concat (map (frame_layout (cfg_version cfg)) fs) @ rest\<rparr>)"
    using readFrame_layout [of cfg i s fl p net "concat (map (frame_layout (cfg_version cfg)) fs) @ rest" d] by (simp add: f)
  with Cons show ?case by simp
qed simp

section \<open>Properties\<close>

text \<open>C30. Without recovery frames arrive as they were sent: in any run of the writer with frames being
  queued, the frames it took followed by those still queued are the frames queued, in order; when
  it is between batches, a peer that reads the connection gets exactly the frames taken so far,
  and nothing else. When it meets the marker of \<^verbatim>\<open>Close\<close> it flushes, ends and tells \<^verbatim>\<open>Close\<close> to go on, also when
  the flush fails: if the flush succeeds every frame before the marker is on the wire by then, and if it
  fails a beginning of their bytes is, the rest being lost.\<close>

theorem plain_frames_in_order:
  assumes run: "plain_run (batch, bw, c) queued written"
  shows "queued = written @ ch_buf (c_outbound c) \<and>
         (\<not> batch \<longrightarrow> readFrames (length written) (c_config c) d (net\<lparr>nc_in := nc_out (bw_conn bw)\<rparr>) =
            (map queued_frame written, net\<lparr>nc_in := []\<rparr>)) \<and>
         (\<forall>frame marker nx b bw' c'. of_closing frame = Some marker \<and> writeQueued now frame bw c = (nx, b, bw', c') \<longrightarrow>
            nx = LoopEnds \<and> marker \<in> set (c_finished c') \<and>
            (\<exists>missing. (fst (bw_Flush bw) = None \<longrightarrow> missing = []) \<and>
               readFrames (length written) (c_config c) d (net\<lparr>nc_in := nc_out (bw_conn bw') @ missing\<rparr>) =
                 (map queued_frame written, net\<lparr>nc_in := []\<rparr>)))"
proof -
  let ?lay = "concat (map (frame_layout (cfg_version (c_config c))) (map queued_frame written))"
  from plain_run_inv [OF run] have i: "queued = written @ ch_buf (c_outbound c)" "bw_taken bw = ?lay"
    "\<not> batch \<Longrightarrow> nc_out (bw_conn bw) = bw_taken bw" "\<forall>f \<in> set (map queued_frame written). frame_ok (c_config c) f"
    by (auto simp: plain_inv_def comp_def)
  have r: "readFrames (length written) (c_config c) d (net\<lparr>nc_in := bs\<rparr>) = (map queued_frame written, net\<lparr>nc_in := []\<rparr>)"
    if "bs = ?lay" for bs
    using readFrames_layout [OF i(4), of "net\<lparr>nc_in := bs\<rparr>" "[]" d] that by simp
  have m: "nx = LoopEnds \<and> marker \<in> set (c_finished c') \<and> nc_out (bw_conn bw') @ bw_buf bw' = ?lay \<and>
      (fst (bw_Flush bw) = None \<longrightarrow> bw_buf bw' = [])"
    if "of_closing frame = Some marker" "writeQueued now frame bw c = (nx, b, bw', c')" for frame marker nx b bw' c'
    using that i(2) bw_Flush_ok [of bw bw'] bw_Flush_taken [of bw]
    by (auto simp: writeQueued_def Let_def bw_taken_def split: prod.splits)
  show ?thesis
  proof (intro conjI impI allI)
    show "queued = written @ ch_buf (c_outbound c)" by (rule i(1))
    fix frame marker nx b bw' c'
    assume w: "of_closing frame = Some marker \<and> writeQueued now frame bw c = (nx, b, bw', c')"
    show "\<exists>missing. (fst (bw_Flush bw) = None \<longrightarrow> missing = []) \<and>
        readFrames (length written) (c_config c) d (net\<lparr>nc_in := nc_out (bw_conn bw') @ missing\<rparr>) =
          (map queued_frame written, net\<lparr>nc_in := []\<rparr>)"
      by (rule exI [of _ "bw_buf bw'"]) (use m w r in blast)
  next
    show "readFrames (length written) (c_config c) d (net\<lparr>nc_in := nc_out (bw_conn bw)\<rparr>) =
        (map queued_frame written, net\<lparr>nc_in := []\<rparr>)" if "\<not> batch"
      by (rule r) (simp only: i(3) [OF that] i(2))
  qed (use m in blast)+
qed

theorem plain_frames_in_order_witness:
  "\<exists>c ws. (None, c) \<in> set (enqueueFrame (\<lambda>c. c) 0
       \<lparr>of_streamID = 1, of_seq = 0, of_flags = 0, of_payload = [5], of_queued = None, of_closing = None\<rparr> plainConnection) \<and>
     (LoopOn, ws) \<in> set (writerStep 0 (False, newBufioWriter sampleConn, c)) \<and>
     plain_run ws [\<lparr>of_streamID = 1, of_seq = 0, of_flags = 0, of_payload = [5], of_queued = None, of_closing = None\<rparr>]
       [\<lparr>of_streamID = 1, of_seq = 0, of_flags = 0, of_payload = [5], of_queued = None, of_closing = None\<rparr>] \<and>
     ch_buf (c_outbound (snd (snd ws))) = []"
proof -
  let ?f = "\<lparr>of_streamID = 1, of_seq = 0, of_flags = 0, of_payload = [5], of_queued = None, of_closing = None\<rparr> :: outboundFrame"
  let ?bw = "newBufioWriter sampleConn"
  note p = plainConnection_facts(3)
  have o: "\<not> c_closing plainConnection" "\<not> c_closed plainConnection" "ch_buf (c_outbound plainConnection) = []"
    "frame_ok (c_config plainConnection) (queued_frame ?f)" "bw_taken ?bw = []"
    "map fst (enqueueFrame (\<lambda>c. c) 0 ?f plainConnection) = [None]" by code_simp+
  from o(6) obtain c where c: "(None, c) \<in> set (enqueueFrame (\<lambda>c. c) 0 ?f plainConnection)" by auto
  then have c': "ch_buf (c_outbound c) = [?f]" "c_config c = c_config plainConnection" "c_debug c = c_debug plainConnection"
    using o(1-3) p by (auto simp: enqueueFrame_def ch_send_def Let_def split: if_splits)
  have "fst (writeFrameNoFlush bw_Write (c_config plainConnection) (c_debug plainConnection) ?bw 1 0 0 [5]) = None"
    by code_simp
  then obtain d bw1 where "writeFrameNoFlush bw_Write (c_config plainConnection) (c_debug plainConnection) ?bw 1 0 0 [5] =
      (None, d, bw1)" by (metis prod.collapse)
  then obtain ws where ws: "(LoopOn, ws) \<in> set (writerStep 0 (False, ?bw, c))"
    using c' by (auto simp: writerStep_def writeQueued_def)
  have r: "plain_run ws [?f] [?f]"
    using plain_write [OF plain_enqueue [OF plain_start [OF o(5,3) p] o(4) _ c] c'(1) ws] by simp
  obtain b bw2 c1 where w: "ws = (b, bw2, c1)" by (cases ws)
  from plain_frames_in_order [OF r [unfolded w]] have "ch_buf (c_outbound c1) = []" by simp
  with r c ws w show ?thesis by fastforce
qed

end
