(* ===== verification/Conn_Frame.thy ===== *)
theory Conn_Frame
  imports Transport
begin

text \<open>
  What the operations of \<open>Streams\<close> and \<open>Transport\<close> leave alone: a connection stays the same
  connection (its tokens, its role, its codec), stays closed once it is, keeps its goroutines, and
  when a server's connection closes it removes itself from the server's table. The theory of the
  server rests on \<open>conn_step_keeps\<close> only.
\<close>

text \<open>Who a connection is: the tokens and role of its recovery state and its codec.\<close>

definition identity ::
    "('m, 'b, 'h) Connection \<Rightarrow> (recoveryToken \<times> recoveryToken \<times> recoveryRole \<times> bool) option \<times> CodecID" where
  "identity c =
     (map_option (\<lambda>r. (r_connectionID r, r_resumeSecret r, r_role r, r_server r)) (c_recovery c),
      cfg_codecID (c_config c))"

text \<open>A connection of a server with recovery.\<close>

definition belongs :: "('m, 'b, 'h) Connection \<Rightarrow> bool" where
  "belongs c \<longleftrightarrow> (\<exists>r. c_recovery c = Some r \<and> r_role r = recoveryRoleServer \<and> r_server r)"

definition started :: "('m, 'b, 'h) Connection \<Rightarrow> bool" where
  "started c \<longleftrightarrow> WriterLoop \<in> set (c_spawned c) \<or> RecoveryWriterLoop \<in> set (c_spawned c)"

definition conn_same :: "('m, 'b, 'h) Connection \<Rightarrow> ('m, 'b, 'h) Connection \<Rightarrow> bool" where
  "conn_same c c' \<longleftrightarrow> identity c' = identity c \<and> (c_closed c \<longrightarrow> c_closed c') \<and>
     (c_serverForgets c \<longrightarrow> c_serverForgets c') \<and>
     (c_closed c' \<longrightarrow> belongs c \<longrightarrow> c_closed c \<or> c_serverForgets c')"

definition conn_keeps :: "('m, 'b, 'h) Connection \<Rightarrow> ('m, 'b, 'h) Connection \<Rightarrow> bool" where
  "conn_keeps c c' \<longleftrightarrow> conn_same c c' \<and> started c' = started c"

lemma conn_keeps_refl: "conn_keeps c c"
  by (simp add: conn_keeps_def conn_same_def)

lemma belongs_identity: "identity c' = identity c \<Longrightarrow> belongs c' = belongs c"
  by (cases "c_recovery c"; cases "c_recovery c'") (auto simp: identity_def belongs_def)

lemma conn_keeps_trans: "conn_keeps a b \<Longrightarrow> conn_keeps b c \<Longrightarrow> conn_keeps a c"
  unfolding conn_keeps_def conn_same_def using belongs_identity [of b a] by metis

text \<open>A change of anything but the connection's state and identity.\<close>

lemma conn_keepsI:
  assumes "c_recovery c' = c_recovery c" "c_config c' = c_config c" "c_closed c' = c_closed c"
    "c_serverForgets c' = c_serverForgets c"
    "WriterLoop \<in> set (c_spawned c') \<or> RecoveryWriterLoop \<in> set (c_spawned c') \<longleftrightarrow>
       WriterLoop \<in> set (c_spawned c) \<or> RecoveryWriterLoop \<in> set (c_spawned c)"
  shows "conn_keeps c c'"
  using assms by (simp add: conn_keeps_def conn_same_def started_def identity_def)

lemma updStream_plain [simp]:
  "c_serverForgets (updStream r f c) = c_serverForgets c" "c_spawned (updStream r f c) = c_spawned c"
  by (simp_all add: updStream_def)

lemma conn_noteFailure_plain [simp]:
  "c_serverForgets (conn_noteFailure t k m c) = c_serverForgets c"
  "c_spawned (conn_noteFailure t k m c) = c_spawned c"
  by (simp_all add: conn_noteFailure_def)

lemma releaseStream_plain [simp]:
  "c_serverForgets (releaseStream r c) = c_serverForgets c" "c_spawned (releaseStream r c) = c_spawned c"
  by (simp_all add: releaseStream_def stream_close_def callCloseStream_def countStreamClosed_def Let_def
        split: prod.splits)

lemma releaseStreams_plain [simp]:
  "c_serverForgets (releaseStreams xs c) = c_serverForgets c" "c_spawned (releaseStreams xs c) = c_spawned c"
  by (induction xs c rule: releaseStreams.induct) simp_all

lemma getStreamCtx_keeps: "conn_keeps c (snd (getStreamCtx i inb c))"
  by (rule conn_keepsI) (auto simp: getStreamCtx_def startStream_def Let_def split: option.splits)

lemma closedStream_keeps: "conn_keeps c (snd (closedStream c))"
  by (rule conn_keepsI) (simp_all add: closedStream_def)

lemma streamForID_keeps: "conn_keeps c (snd (streamForID i c))"
proof -
  obtain r c1 where g: "getStreamCtx i False c = (r, c1)" by (cases "getStreamCtx i False c")
  with getStreamCtx_keeps [of c i False] have "conn_keeps c c1" by simp
  with g conn_keeps_trans [OF this closedStream_keeps] show ?thesis
    by (cases r) (simp_all add: streamForID_def)
qed

lemma NewStream_keeps: "conn_keeps c (snd (NewStream now c))"
proof -
  let ?c1 = "c\<lparr>c_nextStreamID := c_nextStreamID c + 1\<rparr>"
  have "conn_keeps c ?c1" "conn_keeps c (conn_noteFailure now k m ?c1)" for k m by (rule conn_keepsI; simp)+
  then show ?thesis using closedStream_keeps streamForID_keeps
    by (simp add: NewStream_def Let_def) (blast intro: conn_keeps_trans)
qed

lemma defaultStream_keeps: "conn_keeps c (snd (defaultStream c))"
proof (cases "c_defaultStreamView c")
  case None
  obtain ref c1 where s: "streamForID defaultStreamID c = (ref, c1)" by (cases "streamForID defaultStreamID c")
  have "conn_keeps c1 (c1\<lparr>c_defaultStreamView := Some ref\<rparr>)" by (rule conn_keepsI) simp_all
  with None s streamForID_keeps [of c defaultStreamID] show ?thesis
    by (auto simp: defaultStream_def intro: conn_keeps_trans)
qed (simp add: defaultStream_def conn_keeps_refl)

lemma removeStream_keeps: "conn_keeps c (removeStream now i c)"
  by (rule conn_keepsI) (auto simp: removeStream_def Let_def split: option.splits)

lemma closePeerStream_keeps: "conn_keeps c (closePeerStream now i c)"
  unfolding closePeerStream_def
  by (rule conn_keeps_trans [OF _ removeStream_keeps], rule conn_keepsI) simp_all

lemma incomingQ_keeps: "(e, c') \<in> set (incomingQ r p c) \<Longrightarrow> conn_keeps c c'"
  by (rule conn_keepsI) (auto simp: incomingQ_def split: option.splits if_splits)

lemma queueFIN_keeps: "c' \<in> set (queueFIN r c) \<Longrightarrow> conn_keeps c c'"
  using incomingQ_keeps by (fastforce simp: queueFIN_def)

lemma forgetPeerStream_keeps: "conn_keeps c (forgetPeerStream i c)"
  by (rule conn_keepsI) (simp_all add: forgetPeerStream_def)

lemma acceptFrame_keeps:
  assumes out: "(e, c') \<in> set (acceptFrame (\<lambda>c. c) i fl p c)"
  shows "conn_keeps c c'"
proof (cases "isFin i fl \<and> length p = 0")
  case True
  with out show ?thesis
    using queueFIN_keeps forgetPeerStream_keeps [of c i]
    by (auto simp: acceptFrame_def split: option.splits intro: conn_keeps_trans)
next
  case False
  obtain r c1 where g: "getStreamCtx i True c = (r, c1)" by (cases "getStreamCtx i True c")
  with getStreamCtx_keeps [of c i True] have c1: "conn_keeps c c1" by simp
  show ?thesis
  proof (cases r)
    case None
    with False out g c1 forgetPeerStream_keeps [of c1 i] show ?thesis
      by (auto simp: acceptFrame_def Let_def split: if_splits intro: conn_keeps_trans)
  next
    case (Some ref)
    with False out g obtain err c3 where
      "(err, c3) = (None, c1) \<or> (err, c3) \<in> set (incomingQ ref (Some p) c1)"
      and c': "c' = c3 \<or> c' \<in> set (queueFIN ref c3)"
      by (auto simp: acceptFrame_def Let_def split: if_splits)
    then have "conn_keeps c c3" using c1 conn_keeps_trans [OF c1 incomingQ_keeps] by auto
    with c' show ?thesis using conn_keeps_trans [OF _ queueFIN_keeps] by auto
  qed
qed

lemma closeNet_plain [simp]:
  "c_serverForgets (closeNet n c) = c_serverForgets c" "c_spawned (closeNet n c) = c_spawned c"
  by (simp_all add: closeNet_def)

lemma signalSend_plain [simp]:
  "c_serverForgets (signalSend c) = c_serverForgets c" "c_spawned (signalSend c) = c_spawned c"
  by (simp_all add: signalSend_def)

lemma closeTransport_plain [simp]:
  "c_serverForgets (closeTransport c) = c_serverForgets c" "c_spawned (closeTransport c) = c_spawned c"
  by (simp_all add: closeTransport_def Let_def split: option.split)

lemma armReadDeadline_plain [simp]:
  "c_serverForgets (armReadDeadline now n c) = c_serverForgets c" "c_spawned (armReadDeadline now n c) = c_spawned c"
  "c_recovery (armReadDeadline now n c) = c_recovery c" "c_config (armReadDeadline now n c) = c_config c"
  "c_closed (armReadDeadline now n c) = c_closed c"
  by (auto simp: armReadDeadline_def split: option.split)

lemma onClosed_keeps:
  "identity (onClosed c) = identity c" "c_spawned (onClosed c) = c_spawned c"
  "belongs c \<Longrightarrow> c_serverForgets (onClosed c)" "c_serverForgets c \<Longrightarrow> c_serverForgets (onClosed c)"
  by (auto simp: onClosed_def identity_def belongs_def Let_def split: option.splits)

lemma markClosed_keeps: "conn_keeps c (markClosed c)"
proof (cases "c_closed c")
  case False
  let ?c1 = "closeTransport (c\<lparr>c_closed := True\<rparr>)"
  let ?c2 = "onClosed ?c1"
  have i: "identity ?c1 = identity c" "belongs ?c1 = belongs c" by (simp_all add: identity_def belongs_def)
  have r: "identity (closeAllStreams ?c2) = identity ?c2"
    by (simp add: closeAllStreams_def identity_def)
  have "c_serverForgets (closeAllStreams ?c2) = c_serverForgets ?c2" "c_spawned (closeAllStreams ?c2) = c_spawned c"
    by (simp_all add: closeAllStreams_def onClosed_keeps)
  with False i r onClosed_keeps [of ?c1] show ?thesis
    by (auto simp: markClosed_def conn_keeps_def conn_same_def started_def closeAllStreams_def)
qed (simp add: markClosed_def conn_keeps_refl)

lemma attachTransport_keeps: "conn_keeps c (attachTransport now n q c)"
  by (auto simp: attachTransport_def conn_keeps_def conn_same_def started_def identity_def onAttached_def Let_def split: option.splits)

lemma onDetached_keeps: "conn_keeps c (onDetached now c)"
proof (cases "c_recovery c")
  case (Some r)
  have "conn_keeps c (c\<lparr>c_recovery := Some (r\<lparr>r_expireTimer := t\<rparr>)\<rparr>)" for t
    using Some by (simp add: conn_keeps_def conn_same_def started_def identity_def belongs_def)
  moreover have "conn_keeps c (c\<lparr>c_spawned := c_spawned c @ [ReconnectLoop]\<rparr>)" by (rule conn_keepsI) auto
  ultimately show ?thesis using Some
    by (simp add: onDetached_def scheduleExpiry_def markClosed_keeps split: recoveryRole.splits)
qed (simp add: onDetached_def conn_keeps_refl)

lemma detachTransport_keeps: "conn_keeps c (snd (detachTransport now n c))"
proof -
  let ?c1 = "closeNet n (c\<lparr>c_conn := None, c_transportGen := c_transportGen c + 1, c_transportResume := 0,
      c_debug := (c_debug c)\<lparr>transportDetaches := transportDetaches (c_debug c) + 1\<rparr>\<rparr>)"
  have "conn_keeps c ?c1" "conn_keeps x (signalSend x)" for x :: "('a, 'b, 'c) Connection" by (rule conn_keepsI; simp)+
  then show ?thesis using onDetached_keeps [of ?c1 now]
    by (auto simp: detachTransport_def Let_def conn_keeps_refl intro: conn_keeps_trans)
qed

lemma expiryFires_keeps: "conn_keeps c (expiryFires now c)"
  by (auto simp: expiryFires_def conn_keeps_refl markClosed_keeps split: option.splits)

lemma offerFINs_keeps: "c' \<in> set (offerFINs refs c) \<Longrightarrow> conn_keeps c c'"
proof (induction refs arbitrary: c)
  case (Cons r refs)
  have "conn_keeps c (updStream r f c)" for f by (rule conn_keepsI) simp_all
  with Cons show ?case by (auto simp: conn_keeps_refl split: option.splits if_splits intro: conn_keeps_trans)
qed (simp add: conn_keeps_refl)

lemma conn_step_keeps: "conn_step c c' \<Longrightarrow> conn_keeps c c'"
proof (induction rule: conn_step.induct)
  case (step_closing c)
  show ?case by (rule conn_keepsI) simp_all
qed (simp_all add: NewStream_keeps defaultStream_keeps acceptFrame_keeps removeStream_keeps closePeerStream_keeps
       attachTransport_keeps detachTransport_keeps expiryFires_keeps offerFINs_keeps markClosed_keeps)

text \<open>\<^verbatim>\<open>Close\<close> always ends with a closed connection, whatever it waited for.\<close>

lemma Close_closes: "c' \<in> set (Close env env' ccw m c) \<Longrightarrow> c_closed c'"
  by (auto simp: Close_def split: if_splits)

lemma Close_outcome: "Close env env' ccw m c \<noteq> []"
  by (simp add: Close_def closeGracefully_def Let_def)

lemma Close_keeps:
  assumes env: "\<And>c. conn_keeps c (env c)" "\<And>c. conn_keeps c (env' c)"
    and out: "c' \<in> set (Close env env' ccw m c)"
  shows "conn_keeps c c'"
proof (cases "c_closing c")
  case False
  let ?c0 = "c\<lparr>c_closing := True\<rparr>"
  let ?q = "signalSend (?c0\<lparr>c_outbound := ch_send (closingMarker m) (c_outbound ?c0)\<rparr>)"
  from out False obtain x where x: "x \<in> set (closeGracefully env env' ccw m ?c0)" and c': "c' = markClosed x"
    by (auto simp: Close_def)
  have c0: "conn_keeps c ?c0" "conn_keeps c ?q" by (rule conn_keepsI; simp)+
  have e1: "conn_keeps c (env ?q)" by (rule conn_keeps_trans [OF c0(2) env(1)])
  have h: "conn_keeps y (y\<lparr>c_netHalfClosed := hs\<rparr>)" for y :: "('a, 'b, 'c) Connection" and hs
    by (rule conn_keepsI) simp_all
  have "conn_keeps c (env' ((env ?q)\<lparr>c_netHalfClosed := hs\<rparr>))" for hs
    by (rule conn_keeps_trans [OF conn_keeps_trans [OF e1 h] env(2)])
  with x c0 e1 have "conn_keeps c x"
    by (auto simp: closeGracefully_def Let_def split: if_splits option.splits)
  then show ?thesis unfolding c' by (rule conn_keeps_trans [OF _ markClosed_keeps])
qed (use out in \<open>simp add: Close_def markClosed_keeps\<close>)

text \<open>The parts of \<open>conn_keeps\<close> that its users need.\<close>

lemma conn_sameD:
  assumes "conn_same c c'"
  shows "identity c' = identity c" "belongs c' = belongs c" "c_closed c \<Longrightarrow> c_closed c'"
    "c_closed c' \<Longrightarrow> belongs c \<Longrightarrow> \<not> c_closed c \<Longrightarrow> c_serverForgets c'"
  using assms belongs_identity [of c' c] by (auto simp: conn_same_def)

lemma conn_keepsD:
  assumes "conn_keeps c c'"
  shows "conn_same c c'" "started c' = started c"
  using assms by (simp_all add: conn_keeps_def)

lemma start_same: "conn_same c (start c)"
  by (auto simp: conn_same_def identity_def start_def)

lemma identity_recovery:
  assumes "identity c' = identity c" "c_recovery c = Some r"
  obtains r' where "c_recovery c' = Some r'" "r_connectionID r' = r_connectionID r" "r_resumeSecret r' = r_resumeSecret r"
  using assms by (cases "c_recovery c'") (auto simp: identity_def)

end
