(* ===== verification/Server.thy ===== *)
theory Server
  imports Conn_Frame Handshake
begin

text \<open>
  \<^verbatim>\<open>src/server.go\<close>. A server keeps its connections in a store \<open>sv_heap\<close> indexed by address; a
  \<^verbatim>\<open>*Connection\<close> is such an address. Listeners and accepted transports are numbers; \<open>sv_closedNets\<close>
  and \<open>sv_closedListeners\<close> are those closed by the server itself, \<open>sv_deadlines\<close> the deadlines set on
  transports. The goroutines that serve connections are listed in \<open>sv_tasks\<close>, by what they do next,
  and those started by \<^verbatim>\<open>go connection.Close()\<close> in \<open>sv_closers\<close>; \<open>sv_running\<close> is the counter of the
  wait group. \<open>sv_callbacks\<close> records the calls of \<^verbatim>\<open>OnConnect\<close> and \<^verbatim>\<open>OnDisconnect\<close>, in order.

  \<^verbatim>\<open>handleConn\<close> is split where it lets other goroutines act on the server: up to the handshake's
  end (\<open>handleConn\<close>), \<^verbatim>\<open>trackConn\<close> (\<open>handleTracked\<close>), and the wait for the connection to close
  (\<open>awaitClose\<close>). A closing connection of a server with recovery removes itself from
  \<open>sv_recoveryConns\<close>; \<open>updConn\<close> does both. \<open>oc\<close> holds what \<^verbatim>\<open>Close\<close> waits for.
\<close>

type_synonym connRef = nat

datatype serverCallback = ConnectCall string | DisconnectCall string

text \<open>The goroutine of an accepted transport; its connection, transport and peer. \<open>Awaiting\<close> has the
  transport while the goroutine is still \<^verbatim>\<open>handleConn\<close>, which ends the handshake last.\<close>

datatype serverTask =
    Handshaking nat string
  | Tracking connRef nat string bool
  | Awaiting connRef string "nat option"

record ('m, 'b, 'h) Server =
  sv_registry :: "('m, 'h) registryTypes"
  sv_codecs :: "CodecID list"
  sv_maxFrame :: u32
  sv_handshakeTimeout :: Duration
  sv_streamQueueSize :: int
  sv_recovery :: ServerRecoveryOptions
  sv_recoveryConns :: "(recoveryToken \<times> connRef) list"
  sv_onConnect :: "(string \<Rightarrow> go_error option) option"
  sv_onDisconnect :: bool
  sv_onNewStream :: bool
  sv_onCloseStream :: bool
  sv_stopping :: bool
  sv_listeners :: "nat list"
  sv_handshakes :: "nat list"
  sv_conns :: "connRef list"
  sv_running :: int
  sv_heap :: "('m, 'b, 'h) Connection list"
  sv_closedNets :: "nat list"
  sv_closedListeners :: "nat list"
  sv_deadlines :: "(nat \<times> int) list"
  sv_tasks :: "serverTask list"
  sv_closers :: "connRef list"
  sv_callbacks :: "serverCallback list"

definition defaultHandshakeTimeout :: Duration where
  "defaultHandshakeTimeout = 120 * Second"

definition acceptRetryMinBackoff :: Duration where
  "acceptRetryMinBackoff = 5 * Millisecond"

definition acceptRetryMaxBackoff :: Duration where
  "acceptRetryMaxBackoff = Second"

text \<open>The codec ids of \<^verbatim>\<open>src/codec.go\<close>.\<close>

definition CodecMsgpackCompact :: CodecID where
  "CodecMsgpackCompact = 1"

definition CodecMsgpackMap :: CodecID where
  "CodecMsgpackMap = 2"

definition NewServer :: "('m, 'h) registryTypes \<Rightarrow> ('m, 'b, 'h) Server" where
  "NewServer registry =
     \<lparr>sv_registry = registry, sv_codecs = [CodecMsgpackCompact, CodecMsgpackMap], sv_maxFrame = defaultMaxFrame,
      sv_handshakeTimeout = defaultHandshakeTimeout, sv_streamQueueSize = 0,
      sv_recovery = defaultServerRecoveryOptions, sv_recoveryConns = [], sv_onConnect = None,
      sv_onDisconnect = False, sv_onNewStream = False, sv_onCloseStream = False, sv_stopping = False,
      sv_listeners = [], sv_handshakes = [], sv_conns = [], sv_running = 0, sv_heap = [], sv_closedNets = [],
      sv_closedListeners = [], sv_deadlines = [], sv_tasks = [], sv_closers = [], sv_callbacks = []\<rparr>"

section \<open>Configuration\<close>

definition OnConnect :: "(string \<Rightarrow> go_error option) \<Rightarrow> ('m, 'b, 'h) Server \<Rightarrow> ('m, 'b, 'h) Server" where
  "OnConnect f s = s\<lparr>sv_onConnect := Some f\<rparr>"

definition OnDisconnect :: "('m, 'b, 'h) Server \<Rightarrow> ('m, 'b, 'h) Server" where
  "OnDisconnect s = s\<lparr>sv_onDisconnect := True\<rparr>"

definition OnNewStream :: "('m, 'b, 'h) Server \<Rightarrow> ('m, 'b, 'h) Server" where
  "OnNewStream s = s\<lparr>sv_onNewStream := True\<rparr>"

definition OnCloseStream :: "('m, 'b, 'h) Server \<Rightarrow> ('m, 'b, 'h) Server" where
  "OnCloseStream s = s\<lparr>sv_onCloseStream := True\<rparr>"

definition server_WithCodecs :: "CodecID list \<Rightarrow> ('m, 'b, 'h) Server \<Rightarrow> ('m, 'b, 'h) Server" where
  "server_WithCodecs codecs s = s\<lparr>sv_codecs := codecs\<rparr>"

definition server_WithMaxFrame :: "u32 \<Rightarrow> ('m, 'b, 'h) Server \<Rightarrow> ('m, 'b, 'h) Server" where
  "server_WithMaxFrame maxFrame s = s\<lparr>sv_maxFrame := maxFrame\<rparr>"

definition WithHandshakeTimeout :: "Duration \<Rightarrow> ('m, 'b, 'h) Server \<Rightarrow> ('m, 'b, 'h) Server" where
  "WithHandshakeTimeout timeout s = s\<lparr>sv_handshakeTimeout := timeout\<rparr>"

definition server_WithStreamQueueSize :: "int \<Rightarrow> ('m, 'b, 'h) Server \<Rightarrow> ('m, 'b, 'h) Server" where
  "server_WithStreamQueueSize size' s = s\<lparr>sv_streamQueueSize := size'\<rparr>"

definition server_WithRecovery :: "ServerRecoveryOptions \<Rightarrow> ('m, 'b, 'h) Server \<Rightarrow> ('m, 'b, 'h) Server" where
  "server_WithRecovery opts s = s\<lparr>sv_recovery := normalizedServer opts\<rparr>"

section \<open>Tracking\<close>

definition isStopping :: "('m, 'b, 'h) Server \<Rightarrow> bool" where
  "isStopping s = sv_stopping s"

definition trackListener :: "nat \<Rightarrow> ('m, 'b, 'h) Server \<Rightarrow> bool \<times> ('m, 'b, 'h) Server" where
  "trackListener l s =
     (if sv_stopping s then (False, s) else (True, s\<lparr>sv_listeners := List.insert l (sv_listeners s)\<rparr>))"

definition untrackListener :: "nat \<Rightarrow> ('m, 'b, 'h) Server \<Rightarrow> ('m, 'b, 'h) Server" where
  "untrackListener l s = s\<lparr>sv_listeners := removeAll l (sv_listeners s)\<rparr>"

definition beginHandshake :: "nat \<Rightarrow> ('m, 'b, 'h) Server \<Rightarrow> bool \<times> ('m, 'b, 'h) Server" where
  "beginHandshake conn s =
     (if sv_stopping s then (False, s)
      else (True, s\<lparr>sv_handshakes := List.insert conn (sv_handshakes s), sv_running := sv_running s + 1\<rparr>))"

definition endHandshake :: "nat \<Rightarrow> ('m, 'b, 'h) Server \<Rightarrow> ('m, 'b, 'h) Server" where
  "endHandshake conn s = s\<lparr>sv_handshakes := removeAll conn (sv_handshakes s)\<rparr>"

definition trackConn :: "connRef \<Rightarrow> nat \<Rightarrow> ('m, 'b, 'h) Server \<Rightarrow> bool \<times> ('m, 'b, 'h) Server" where
  "trackConn ref conn s =
     (let s1 = s\<lparr>sv_handshakes := removeAll conn (sv_handshakes s)\<rparr>
      in if sv_stopping s1 then (False, s1)
         else (True, s1\<lparr>sv_conns := List.insert ref (sv_conns s1)\<rparr>))"

definition untrackConn :: "connRef \<Rightarrow> ('m, 'b, 'h) Server \<Rightarrow> ('m, 'b, 'h) Server" where
  "untrackConn ref s = s\<lparr>sv_conns := removeAll ref (sv_conns s)\<rparr>"

definition storeRecoveryConnection ::
    "recoveryToken \<Rightarrow> connRef \<Rightarrow> ('m, 'b, 'h) Server \<Rightarrow> ('m, 'b, 'h) Server" where
  "storeRecoveryConnection i ref s = s\<lparr>sv_recoveryConns := AList.update i ref (sv_recoveryConns s)\<rparr>"

definition lookupRecoveryConnection :: "recoveryToken \<Rightarrow> ('m, 'b, 'h) Server \<Rightarrow> connRef option" where
  "lookupRecoveryConnection i s = map_of (sv_recoveryConns s) i"

definition removeRecoveryConnection ::
    "recoveryToken \<Rightarrow> connRef \<Rightarrow> ('m, 'b, 'h) Server \<Rightarrow> ('m, 'b, 'h) Server" where
  "removeRecoveryConnection i ref s =
     (case map_of (sv_recoveryConns s) i of
        None \<Rightarrow> s
      | Some current \<Rightarrow>
          if current = ref then s\<lparr>sv_recoveryConns := AList.delete i (sv_recoveryConns s)\<rparr> else s)"

section \<open>Connections of the server\<close>

text \<open>\<^verbatim>\<open>conn.Close()\<close> and \<^verbatim>\<open>conn.SetDeadline\<close> by the server.\<close>

definition closeServerNet :: "nat \<Rightarrow> ('m, 'b, 'h) Server \<Rightarrow> ('m, 'b, 'h) Server" where
  "closeServerNet conn s = s\<lparr>sv_closedNets := List.insert conn (sv_closedNets s)\<rparr>"

definition setDeadline :: "nat \<Rightarrow> int option \<Rightarrow> ('m, 'b, 'h) Server \<Rightarrow> ('m, 'b, 'h) Server" where
  "setDeadline conn t s =
     s\<lparr>sv_deadlines := (case t of None \<Rightarrow> AList.delete conn (sv_deadlines s)
                                | Some d \<Rightarrow> AList.update conn d (sv_deadlines s))\<rparr>"

text \<open>A change of one connection; if it closes itself, it is removed from the recovery table.\<close>

definition updConn ::
    "connRef \<Rightarrow> (('m, 'b, 'h) Connection \<Rightarrow> ('m, 'b, 'h) Connection) \<Rightarrow> ('m, 'b, 'h) Server \<Rightarrow>
     ('m, 'b, 'h) Server" where
  "updConn ref f s =
     (let c = f (sv_heap s ! ref); s1 = s\<lparr>sv_heap := (sv_heap s)[ref := c]\<rparr>
      in case c_recovery c of
           Some r \<Rightarrow> if c_serverForgets c then removeRecoveryConnection (r_connectionID r) ref s1 else s1
         | None \<Rightarrow> s1)"

definition newConn :: "('m, 'b, 'h) Connection \<Rightarrow> ('m, 'b, 'h) Server \<Rightarrow> connRef \<times> ('m, 'b, 'h) Server" where
  "newConn c s = (length (sv_heap s), s\<lparr>sv_heap := sv_heap s @ [c]\<rparr>)"

definition pendingConnection :: "nat \<Rightarrow> ('m, 'b, 'h) Server \<Rightarrow> ('m, 'b, 'h) Connection" where
  "pendingConnection conn s =
     (newPendingConnection conn (sv_registry s) (sv_onNewStream s) (sv_onCloseStream s))
       \<lparr>c_streamQueueSize := sv_streamQueueSize s\<rparr>"

text \<open>\<^verbatim>\<open>s.onConnect(netconn)\<close> when it is set.\<close>

definition callOnConnect :: "string \<Rightarrow> ('m, 'b, 'h) Server \<Rightarrow> go_error option \<times> ('m, 'b, 'h) Server" where
  "callOnConnect peer s =
     (case sv_onConnect s of
        None \<Rightarrow> (None, s)
      | Some f \<Rightarrow> (f peer, s\<lparr>sv_callbacks := sv_callbacks s @ [ConnectCall peer]\<rparr>))"

text \<open>A task that becomes another, and one that ends with \<^verbatim>\<open>running.Done()\<close>.\<close>

definition taskBecomes :: "serverTask \<Rightarrow> serverTask \<Rightarrow> ('m, 'b, 'h) Server \<Rightarrow> ('m, 'b, 'h) Server" where
  "taskBecomes t t' s = s\<lparr>sv_tasks := t' # remove1 t (sv_tasks s)\<rparr>"

definition taskEnds' :: "serverTask \<Rightarrow> ('m, 'b, 'h) Server \<Rightarrow> ('m, 'b, 'h) Server" where
  "taskEnds' t s = s\<lparr>sv_tasks := remove1 t (sv_tasks s), sv_running := sv_running s - 1\<rparr>"

section \<open>Attaching\<close>

text \<open>\<open>random\<close> is \<^verbatim>\<open>rand.Read\<close>.\<close>

definition newRecoveryToken :: "(nat \<Rightarrow> bytes result) \<Rightarrow> recoveryToken result" where
  "newRecoveryToken random = random recoveryTokenLen"

definition rejectAttach :: "net_conn \<Rightarrow> string \<Rightarrow> go_error \<times> net_conn" where
  "rejectAttach net reason =
     (ErrResumeRejected reason,
      snd (writeAttachResponse net
        \<lparr>rs_status = attachStatusRejected, rs_connectionID = zeroToken, rs_resumeSecret = zeroToken,
         rs_lastRecvSeq = 0,
         rs_negotiated = \<lparr>no_AckEvery = 0, no_AckDelay = 0, no_HeartbeatInterval = 0, no_HeartbeatTimeout = 0\<rparr>\<rparr>))"

text \<open>\<^verbatim>\<open>attachNew\<close> up to the tracking of the connection, which it returns.\<close>

definition attachNew ::
    "int \<Rightarrow> (nat \<Rightarrow> bytes result) \<Rightarrow> (nat \<Rightarrow> bytes result) \<Rightarrow> nat \<Rightarrow> net_conn \<Rightarrow> string \<Rightarrow>
     ('m, 'b) CodecImpl connConfig \<Rightarrow> ('m, 'b, 'h) Server \<Rightarrow>
     connRef result \<times> net_conn \<times> ('m, 'b, 'h) Server" where
  "attachNew now random1 random2 conn net peer config s =
     (case newRecoveryToken random1 of
        Inl e \<Rightarrow> (Inl e, net, s)
      | Inr connectionID \<Rightarrow>
          case newRecoveryToken random2 of
            Inl e \<Rightarrow> (Inl e, net, s)
          | Inr resumeSecret \<Rightarrow>
              let (ref, s1) = newConn ((pendingConnection conn s)
                    \<lparr>c_config := config,
                     c_recovery := Some (newServerRecoveryState (sv_recovery s) True connectionID resumeSecret)\<rparr>) s;
                  s2 = storeRecoveryConnection connectionID ref s1
              in case writeAttachResponse net
                        \<lparr>rs_status = attachStatusOK, rs_connectionID = connectionID,
                         rs_resumeSecret = resumeSecret, rs_lastRecvSeq = 0,
                         rs_negotiated = negotiated (sv_recovery s)\<rparr> of
                   (Some e, net1) \<Rightarrow> (Inl e, net1, removeRecoveryConnection connectionID ref s2)
                 | (None, net1) \<Rightarrow>
                     let s3 = updConn ref (attachTransport now conn 0) (setDeadline conn None s2)
                     in case callOnConnect peer s3 of
                          (Some e, s4) \<Rightarrow> (Inl e, net1, updConn ref markClosed s4)
                        | (None, s4) \<Rightarrow> (Inr ref, net1, updConn ref start s4))"

definition attachResume ::
    "int \<Rightarrow> nat \<Rightarrow> net_conn \<Rightarrow> ('m, 'b) CodecImpl connConfig \<Rightarrow> attachRequest \<Rightarrow> ('m, 'b, 'h) Server \<Rightarrow>
     go_error option \<times> net_conn \<times> ('m, 'b, 'h) Server" where
  "attachResume now conn net config req s =
     (let reject = (\<lambda>reason. case rejectAttach net reason of (e, net1) \<Rightarrow> (Some e, net1, s))
      in case lookupRecoveryConnection (rq_connectionID req) s of
           None \<Rightarrow> reject ''connection not found''
         | Some ref \<Rightarrow>
             let c = sv_heap s ! ref
             in case c_recovery c of
                  None \<Rightarrow> reject ''connection not found''
                | Some r \<Rightarrow>
                    if c_closed c then reject ''connection not found''
                    else if r_resumeSecret r \<noteq> rq_resumeSecret req then reject ''resume secret mismatch''
                    else if cfg_codecID (c_config c) \<noteq> cfg_codecID config then reject ''codec mismatch''
                    else case writeAttachResponse net
                                \<lparr>rs_status = attachStatusOK, rs_connectionID = r_connectionID r,
                                 rs_resumeSecret = r_resumeSecret r, rs_lastRecvSeq = lastReceived r,
                                 rs_negotiated = r_shared r\<rparr> of
                           (Some e, net1) \<Rightarrow> (Some e, net1, s)
                         | (None, net1) \<Rightarrow>
                             (None, net1, updConn ref (attachTransport now conn (rq_lastRecvSeq req))
                                            (setDeadline conn None s)))"

text \<open>The rest of \<^verbatim>\<open>handleConn\<close> after the handshake, with the task it goes on with; \<open>None\<close> when it
  returns.\<close>

definition handleRecoveryConn ::
    "int \<Rightarrow> (nat \<Rightarrow> bytes result) \<Rightarrow> (nat \<Rightarrow> bytes result) \<Rightarrow> nat \<Rightarrow> net_conn \<Rightarrow> string \<Rightarrow>
     ('m, 'b) CodecImpl connConfig \<Rightarrow> ('m, 'b, 'h) Server \<Rightarrow>
     connRef option result \<times> net_conn \<times> ('m, 'b, 'h) Server" where
  "handleRecoveryConn now random1 random2 conn net peer config s =
     (case readAttachRequest net of
        (Inl e, net1) \<Rightarrow> (Inl e, net1, s)
      | (Inr req, net1) \<Rightarrow>
          if rq_mode req = attachModeNew then
            (case attachNew now random1 random2 conn net1 peer config s of
               (Inl e, net2, s1) \<Rightarrow> (Inl e, net2, s1)
             | (Inr ref, net2, s1) \<Rightarrow> (Inr (Some ref), net2, s1))
          else if rq_mode req = attachModeResume then
            (case attachResume now conn net1 config req s of
               (Some e, net2, s1) \<Rightarrow> (Inl e, net2, s1)
             | (None, net2, s1) \<Rightarrow> (Inr None, net2, s1))
          else (case rejectAttach net1 ''invalid attach mode'' of (e, net2) \<Rightarrow> (Inl e, net2, s)))"

definition handleConn ::
    "('m, 'b) CodecImpl codecRegistry \<Rightarrow> int \<Rightarrow> (nat \<Rightarrow> bytes result) \<Rightarrow> (nat \<Rightarrow> bytes result) \<Rightarrow>
     nat \<Rightarrow> string \<Rightarrow> net_conn \<Rightarrow> ('m, 'b, 'h) Server \<Rightarrow> net_conn \<times> ('m, 'b, 'h) Server" where
  "handleConn codecs now random1 random2 conn peer net s =
     (let task = Handshaking conn peer;
          leave = (\<lambda>s. taskEnds' task (endHandshake conn s));
          s1 = (if sv_handshakeTimeout s > 0 then setDeadline conn (Some (now + sv_handshakeTimeout s)) s else s)
      in case handshakeServer codecs net (sv_codecs s1) (sv_maxFrame s1) (so_Enable (sv_recovery s1)) of
           (Inl e, net1) \<Rightarrow> (net1, leave (closeServerNet conn s1))
         | (Inr config, net1) \<Rightarrow>
             if cfg_version config \<noteq> protocolVersionV3 then
               let s2 = setDeadline conn None s1
               in case callOnConnect peer s2 of
                    (Some e, s3) \<Rightarrow> (net1, leave (closeServerNet conn s3))
                  | (None, s3) \<Rightarrow>
                      let (ref, s4) = newConn (startWithConfig config (pendingConnection conn s2)) s3
                      in (net1, taskBecomes task (Tracking ref conn peer False) s4)
             else
               case handleRecoveryConn now random1 random2 conn net1 peer config s1 of
                 (Inl e, net2, s2) \<Rightarrow> (net2, leave (closeServerNet conn s2))
               | (Inr None, net2, s2) \<Rightarrow> (net2, leave s2)
               | (Inr (Some ref), net2, s2) \<Rightarrow> (net2, taskBecomes task (Tracking ref conn peer True) s2))"

text \<open>The tracking: once the server is stopping the connection is closed at once. With recovery
  another goroutine waits for the connection to close and this one returns.\<close>

record ('m, 'b, 'h) closeWait =
  cw_env :: "('m, 'b, 'h) Connection \<Rightarrow> ('m, 'b, 'h) Connection"
  cw_env' :: "('m, 'b, 'h) Connection \<Rightarrow> ('m, 'b, 'h) Connection"
  cw_canCloseWrite :: bool
  cw_marker :: nat

definition closeConn ::
    "('m, 'b, 'h) closeWait \<Rightarrow> connRef \<Rightarrow> ('m, 'b, 'h) Server \<Rightarrow> ('m, 'b, 'h) Server outcomes" where
  "closeConn oc ref s =
     map (\<lambda>c. updConn ref (\<lambda>_. c) s)
       (Close (cw_env oc) (cw_env' oc) (cw_canCloseWrite oc) (cw_marker oc) (sv_heap s ! ref))"

definition handleTracked ::
    "('m, 'b, 'h) closeWait \<Rightarrow> connRef \<Rightarrow> nat \<Rightarrow> string \<Rightarrow> bool \<Rightarrow> ('m, 'b, 'h) Server \<Rightarrow>
     ('m, 'b, 'h) Server outcomes" where
  "handleTracked oc ref conn peer recovery s =
     (let task = Tracking ref conn peer recovery;
          go = (\<lambda>s. if recovery
                    then taskBecomes task (Awaiting ref peer None) (endHandshake conn s)
                    else taskBecomes task (Awaiting ref peer (Some conn)) s)
      in case trackConn ref conn s of
           (True, s1) \<Rightarrow> [go s1]
         | (False, s1) \<Rightarrow> map go (closeConn oc ref s1))"

text \<open>\<^verbatim>\<open>awaitClose\<close>, once the connection is closed.\<close>

definition awaitClose ::
    "connRef \<Rightarrow> string \<Rightarrow> nat option \<Rightarrow> ('m, 'b, 'h) Server \<Rightarrow> ('m, 'b, 'h) Server outcomes" where
  "awaitClose ref peer conn s =
     (if \<not> c_closed (sv_heap s ! ref) then []
      else
        let s1 = untrackConn ref s;
            s2 = (if sv_onDisconnect s1 then s1\<lparr>sv_callbacks := sv_callbacks s1 @ [DisconnectCall peer]\<rparr> else s1);
            s3 = (case conn of None \<Rightarrow> s2 | Some n \<Rightarrow> endHandshake n s2)
        in [taskEnds' (Awaiting ref peer conn) s3])"

section \<open>Accepting\<close>

text \<open>How the accept loop goes on: it accepts again after a wait, serves the connection, or returns.
  \<open>accept\<close> is what \<^verbatim>\<open>accept()\<close> returned; \<open>env\<close> acts during the wait.\<close>

datatype acceptNext = AcceptAgain Duration | ServeReturns go_error

definition acceptBackoff :: "Duration \<Rightarrow> Duration" where
  "acceptBackoff backoff = min (max (2 * backoff) acceptRetryMinBackoff) acceptRetryMaxBackoff"

definition acceptStep ::
    "(('m, 'b, 'h) Server \<Rightarrow> ('m, 'b, 'h) Server) \<Rightarrow> Duration \<Rightarrow> (nat \<times> string) result \<Rightarrow>
     ('m, 'b, 'h) Server \<Rightarrow> (acceptNext \<times> ('m, 'b, 'h) Server) outcomes" where
  "acceptStep env backoff accept s =
     (case accept of
        Inl e \<Rightarrow>
          if isStopping s then [(ServeReturns ErrServerClosed, s)]
          else
            let s1 = env s
            in (AcceptAgain (acceptBackoff backoff), s1) #
               (if sv_stopping s1 then [(ServeReturns ErrServerClosed, s1)] else [])
      | Inr (conn, peer) \<Rightarrow>
          (case beginHandshake conn s of
             (False, s1) \<Rightarrow> [(ServeReturns ErrServerClosed, closeServerNet conn s1)]
           | (True, s1) \<Rightarrow> [(AcceptAgain 0, s1\<lparr>sv_tasks := Handshaking conn peer # sv_tasks s1\<rparr>)]))"

text \<open>The start and the end of \<^verbatim>\<open>serveListener\<close>.\<close>

definition serveBegin :: "nat \<Rightarrow> ('m, 'b, 'h) Server \<Rightarrow> go_error option \<times> ('m, 'b, 'h) Server" where
  "serveBegin l s =
     (case trackListener l s of
        (False, s1) \<Rightarrow> (Some ErrServerClosed, s1\<lparr>sv_closedListeners := List.insert l (sv_closedListeners s1)\<rparr>)
      | (True, s1) \<Rightarrow> (None, s1))"

definition serveEnd :: "nat \<Rightarrow> ('m, 'b, 'h) Server \<Rightarrow> ('m, 'b, 'h) Server" where
  "serveEnd l s =
     (let s1 = untrackListener l s in s1\<lparr>sv_closedListeners := List.insert l (sv_closedListeners s1)\<rparr>)"

text \<open>\<^verbatim>\<open>Shutdown\<close> up to its wait, and the wait: it returns when no connection is served any more or when
  the context is done.\<close>

definition Shutdown :: "('m, 'b, 'h) Server \<Rightarrow> ('m, 'b, 'h) Server" where
  "Shutdown s =
     (let s1 = s\<lparr>sv_stopping := True\<rparr>
      in s1\<lparr>sv_closedListeners := fold List.insert (sv_listeners s1) (sv_closedListeners s1),
            sv_closedNets := fold List.insert (sv_handshakes s1) (sv_closedNets s1),
            sv_closers := sv_closers s1 @ sv_conns s1\<rparr>)"

definition shutdownWait :: "go_error option \<Rightarrow> ('m, 'b, 'h) Server \<Rightarrow> go_error option outcomes" where
  "shutdownWait ctxErr s =
     (if sv_running s = 0 then [None] else []) @ (case ctxErr of None \<Rightarrow> [] | Some e \<Rightarrow> [Some e])"

end
