(* ===== verification/Client.thy ===== *)
theory Client
  imports Server Stream_Ops
begin

text \<open>
  \<^verbatim>\<open>src/client.go\<close>, the dial functions of \<^verbatim>\<open>src/transport_tcp.go\<close> and \<^verbatim>\<open>src/transport_uds.go\<close>, and the
  reconnect loop of \<^verbatim>\<open>src/recovery_runtime.go\<close>.

  The network is a parameter: what the \<open>k\<close>-th dial returns (an error, or a connection with the bytes
  its peer will send), how long that dial and the handshake on it take, and by how much a sleep is
  late. The client's own state of the world is a \<open>dialWorld\<close>: the clock, the number of dials made so
  far, which also numbers the transports, those that were opened and closed, and the deadlines set on
  them.
  The clock moves in dials, handshakes and sleeps only.

  Two things may keep a connect from returning: the loops \<open>connectLoop\<close> and \<open>reconnectUntilAttached\<close>, which
  may run for ever, and a read or write in a handshake or attach whose peer neither answers nor closes the
  connection, on a transport without a deadline. Both are the value \<open>None\<close>. A peer that falls silent
  is one whose connection has \<^verbatim>\<open>i/o timeout\<close> behind its bytes: with a deadline that is the error of the
  read, without one the read waits for ever (\<open>waitsForever\<close>). Dials return by themselves.
\<close>

section \<open>The network\<close>

record network =
  nw_linux :: bool
  nw_dial :: "nat \<Rightarrow> string \<Rightarrow> string \<Rightarrow> Duration \<Rightarrow> net_conn result"
  nw_dialTook :: "nat \<Rightarrow> nat"
  nw_talkTook :: "nat \<Rightarrow> nat"
  nw_sleptLate :: "nat \<Rightarrow> nat"

record dialWorld =
  dw_now :: int
  dw_dials :: nat
  dw_opened :: "nat list"
  dw_closed :: "nat list"
  dw_deadlines :: "(nat \<times> int) list"

definition dw_close :: "nat \<Rightarrow> dialWorld \<Rightarrow> dialWorld" where
  "dw_close conn w = w\<lparr>dw_closed := List.insert conn (dw_closed w)\<rparr>"

definition dw_setDeadline :: "nat \<Rightarrow> int option \<Rightarrow> dialWorld \<Rightarrow> dialWorld" where
  "dw_setDeadline conn t w =
     w\<lparr>dw_deadlines := (case t of None \<Rightarrow> AList.delete conn (dw_deadlines w)
                               | Some d \<Rightarrow> AList.update conn d (dw_deadlines w))\<rparr>"

text \<open>The handshake and the attach on transport \<open>conn\<close> take their time.\<close>

definition dw_talk :: "network \<Rightarrow> nat \<Rightarrow> dialWorld \<Rightarrow> dialWorld" where
  "dw_talk nw conn w = w\<lparr>dw_now := dw_now w + int (nw_talkTook nw conn)\<rparr>"

definition dw_sleep :: "network \<Rightarrow> Duration \<Rightarrow> dialWorld \<Rightarrow> dialWorld" where
  "dw_sleep nw d w = w\<lparr>dw_now := dw_now w + max 0 d + int (nw_sleptLate nw (dw_dials w))\<rparr>"

section \<open>Addresses\<close>

definition HasPrefix :: "string \<Rightarrow> string \<Rightarrow> bool" where
  "HasPrefix s pre \<longleftrightarrow> take (length pre) s = pre"

definition TrimPrefix :: "string \<Rightarrow> string \<Rightarrow> string" where
  "TrimPrefix s pre = (if HasPrefix s pre then drop (length pre) s else s)"

definition parseAddr :: "string \<Rightarrow> (string \<times> string) result" where
  "parseAddr addr =
     (if HasPrefix addr ''tcp://'' then Inr (''tcp'', TrimPrefix addr ''tcp://'')
      else if HasPrefix addr ''uds://'' then Inr (''unix'', TrimPrefix addr ''uds://'')
      else if HasPrefix addr ''unix://'' then Inr (''unix'', TrimPrefix addr ''unix://'')
      else Inr (''tcp'', addr))"

lemma TrimPrefix_shorter: "HasPrefix s pre \<Longrightarrow> pre \<noteq> '''' \<Longrightarrow> length (TrimPrefix s pre) < length s"
  by (cases s) (auto simp: HasPrefix_def TrimPrefix_def)

function normalizeUDSPath :: "bool \<Rightarrow> string \<Rightarrow> string result" where
  "normalizeUDSPath linux path =
     (if HasPrefix path ''unix://'' then normalizeUDSPath linux (TrimPrefix path ''unix://'')
      else if HasPrefix path ''uds://'' then normalizeUDSPath linux (TrimPrefix path ''uds://'')
      else if HasPrefix path ''@'' then
        if \<not> linux then Inl (ErrUnsupportedTransport ''abstract UDS is only supported on linux'')
        else Inr (CHR 0x00 # drop 1 path)
      else Inr path)"
  by pat_completeness auto
termination
  by (relation "measure (\<lambda>(linux, path). length path)") (auto intro: TrimPrefix_shorter)

declare normalizeUDSPath.simps [simp del]

text \<open>\<open>net.Dial\<close> and \<open>net.Dialer\<close>; a timeout of zero is none.\<close>

definition dialNet ::
    "network \<Rightarrow> string \<Rightarrow> string \<Rightarrow> Duration \<Rightarrow> dialWorld \<Rightarrow> (nat \<times> net_conn) result \<times> dialWorld" where
  "dialNet nw net addr timeout w =
     (let k = dw_dials w;
          w1 = w\<lparr>dw_now := dw_now w + int (nw_dialTook nw k), dw_dials := k + 1\<rparr>
      in case nw_dial nw k net addr timeout of
           Inl e \<Rightarrow> (Inl e, w1)
         | Inr conn \<Rightarrow> (Inr (k, conn), w1\<lparr>dw_opened := k # dw_opened w1\<rparr>))"

definition dialTCP ::
    "network \<Rightarrow> string \<Rightarrow> Duration \<Rightarrow> dialWorld \<Rightarrow> (nat \<times> net_conn) result \<times> dialWorld" where
  "dialTCP nw addr timeout w =
     (if timeout > 0 then dialNet nw ''tcp'' addr timeout w else dialNet nw ''tcp'' addr 0 w)"

definition dialUDS ::
    "network \<Rightarrow> string \<Rightarrow> Duration \<Rightarrow> dialWorld \<Rightarrow> (nat \<times> net_conn) result \<times> dialWorld" where
  "dialUDS nw path timeout w =
     (case normalizeUDSPath (nw_linux nw) path of
        Inl e \<Rightarrow> (Inl e, w)
      | Inr udsPath \<Rightarrow>
          if timeout > 0 then dialNet nw ''unix'' udsPath timeout w else dialNet nw ''unix'' udsPath 0 w)"

definition dialForAddr ::
    "network \<Rightarrow> string \<Rightarrow> Duration \<Rightarrow> dialWorld \<Rightarrow> (nat \<times> net_conn) result \<times> dialWorld" where
  "dialForAddr nw addr timeout w =
     (case parseAddr addr of
        Inl e \<Rightarrow> (Inl e, w)
      | Inr (net, address) \<Rightarrow>
          if net = ''unix'' then dialUDS nw address timeout w else dialTCP nw address timeout w)"

section \<open>Errors of a connect\<close>

text \<open>\<^verbatim>\<open>errors.As\<close> with its result: the first error of the tree that fits.\<close>

fun errors_find :: "(go_error \<Rightarrow> 'a option) \<Rightarrow> go_error \<Rightarrow> 'a option" where
  "errors_find f (JoinedError a b) =
     (case f (JoinedError a b) of
        Some x \<Rightarrow> Some x
      | None \<Rightarrow> (case errors_find f a of Some x \<Rightarrow> Some x | None \<Rightarrow> errors_find f b))"
| "errors_find f e = f e"

text \<open>A \<^verbatim>\<open>net.Error\<close>, by its \<^verbatim>\<open>Timeout()\<close>; a \<^verbatim>\<open>*net.OpError\<close>, by its operation; one that wraps a
  \<^verbatim>\<open>*net.AddrError\<close>.\<close>

fun as_netError :: "go_error \<Rightarrow> bool option" where
  "as_netError (NetOpError oper txt tmo addr) = Some tmo"
| "as_netError e = None"

fun as_opError :: "go_error \<Rightarrow> string option" where
  "as_opError (NetOpError oper txt tmo addr) = Some oper"
| "as_opError e = None"

fun has_addrError :: "go_error \<Rightarrow> bool" where
  "has_addrError (NetOpError oper txt tmo addr) \<longleftrightarrow> addr"
| "has_addrError e \<longleftrightarrow> False"

definition isTimeout :: "go_error \<Rightarrow> bool" where
  "isTimeout err = (case errors_find as_netError err of Some tmo \<Rightarrow> tmo | None \<Rightarrow> False)"

definition isDialError :: "go_error \<Rightarrow> bool" where
  "isDialError err =
     (case errors_find as_opError err of
        None \<Rightarrow> False
      | Some oper \<Rightarrow> if oper \<noteq> ''dial'' then False else \<not> errors_As has_addrError err)"

text \<open>The error with which a read or write ends when its deadline passes, the \<^verbatim>\<open>*net.OpError\<close> around
  \<^verbatim>\<open>os.ErrDeadlineExceeded\<close>; on a transport without a deadline a call that would end so never returns.\<close>

fun is_deadlineExceeded :: "go_error \<Rightarrow> bool" where
  "is_deadlineExceeded (NetOpError oper txt tmo addr) \<longleftrightarrow> txt = ''i/o timeout'' \<and> tmo"
| "is_deadlineExceeded e \<longleftrightarrow> False"

definition waitsForever :: "dialWorld \<Rightarrow> nat \<Rightarrow> go_error \<Rightarrow> bool" where
  "waitsForever w conn e \<longleftrightarrow> is_deadlineExceeded e \<and> map_of (dw_deadlines w) conn = None"

definition connectError :: "go_error \<Rightarrow> int option \<Rightarrow> go_error" where
  "connectError err deadline = (if deadline \<noteq> None \<and> isTimeout err then ErrConnectTimeout else err)"

definition dialBefore ::
    "network \<Rightarrow> string \<Rightarrow> int option \<Rightarrow> dialWorld \<Rightarrow> (nat \<times> net_conn) result \<times> dialWorld" where
  "dialBefore nw addr deadline w =
     (let timeout = (case deadline of None \<Rightarrow> 0 | Some d \<Rightarrow> d - dw_now w)
      in if deadline \<noteq> None \<and> timeout \<le> 0 then (Inl ErrConnectTimeout, w)
         else case dialForAddr nw addr timeout w of
                (Inl e, w1) \<Rightarrow> (Inl (connectError e deadline), w1)
              | (Inr (conn, net), w1) \<Rightarrow>
                  (Inr (conn, net), if deadline \<noteq> None then dw_setDeadline conn deadline w1 else w1))"

section \<open>The client\<close>

record ('m, 'h) Client =
  cl_connectTimeout :: Duration
  cl_recvTimeout :: Duration
  cl_maxFrame :: u32
  cl_streamQueueSize :: int
  cl_codecs :: "CodecID list"
  cl_registry :: "('m, 'h) registryTypes"
  cl_recovery :: ClientRecoveryOptions

definition connectRetryMinBackoff :: Duration where
  "connectRetryMinBackoff = 100 * Millisecond"

definition connectRetryMaxBackoff :: Duration where
  "connectRetryMaxBackoff = 2 * Second"

definition NewClient :: "('m, 'h) registryTypes \<Rightarrow> ('m, 'h) Client" where
  "NewClient registry =
     \<lparr>cl_connectTimeout = 0, cl_recvTimeout = 0, cl_maxFrame = defaultMaxFrame, cl_streamQueueSize = 0,
      cl_codecs = [CodecMsgpackCompact, CodecMsgpackMap], cl_registry = registry,
      cl_recovery = defaultClientRecoveryOptions\<rparr>"

definition WithConnectTimeout :: "Duration \<Rightarrow> ('m, 'h) Client \<Rightarrow> ('m, 'h) Client" where
  "WithConnectTimeout timeout cl = cl\<lparr>cl_connectTimeout := timeout\<rparr>"

definition WithRecvTimeout :: "Duration \<Rightarrow> ('m, 'h) Client \<Rightarrow> ('m, 'h) Client" where
  "WithRecvTimeout timeout cl = cl\<lparr>cl_recvTimeout := timeout\<rparr>"

definition client_WithCodecs :: "CodecID list \<Rightarrow> ('m, 'h) Client \<Rightarrow> ('m, 'h) Client" where
  "client_WithCodecs codecs cl = cl\<lparr>cl_codecs := codecs\<rparr>"

definition client_WithMaxFrame :: "u32 \<Rightarrow> ('m, 'h) Client \<Rightarrow> ('m, 'h) Client" where
  "client_WithMaxFrame maxFrame cl = cl\<lparr>cl_maxFrame := maxFrame\<rparr>"

definition client_WithStreamQueueSize :: "int \<Rightarrow> ('m, 'h) Client \<Rightarrow> ('m, 'h) Client" where
  "client_WithStreamQueueSize size' cl = cl\<lparr>cl_streamQueueSize := size'\<rparr>"

definition client_WithRecovery :: "ClientRecoveryOptions \<Rightarrow> ('m, 'h) Client \<Rightarrow> ('m, 'h) Client" where
  "client_WithRecovery opts cl = cl\<lparr>cl_recovery := normalizedClient opts\<rparr>"

section \<open>Connecting\<close>

text \<open>A connection of the client comes with its transport, as the handshake left it.\<close>

type_synonym ('m, 'b, 'h) dialed = "('m, 'b, 'h) Connection \<times> net_conn"

definition startRecoveryConnection ::
    "('m, 'h) Client \<Rightarrow> string \<Rightarrow> nat \<Rightarrow> net_conn \<Rightarrow> ('m, 'b, 'h) Connection \<Rightarrow> ('m, 'b) CodecImpl connConfig \<Rightarrow>
     dialWorld \<Rightarrow> (('m, 'b, 'h) dialed result \<times> dialWorld) option" where
  "startRecoveryConnection cl addr conn net pending config w =
     (case writeAttachRequest net
             \<lparr>rq_mode = attachModeNew, rq_connectionID = zeroToken, rq_resumeSecret = zeroToken, rq_lastRecvSeq = 0\<rparr> of
        (Some e, net1) \<Rightarrow> if waitsForever w conn e then None else Some (Inl e, dw_close conn w)
      | (None, net1) \<Rightarrow>
          case readAttachResponse net1 of
            (Inl e, net2) \<Rightarrow> if waitsForever w conn e then None else Some (Inl e, dw_close conn w)
          | (Inr resp, net2) \<Rightarrow>
              if rs_status resp \<noteq> attachStatusOK
              then Some (Inl (ErrResumeRejected ''initial attach rejected''), dw_close conn w)
              else
                let c1 = pending\<lparr>c_config := config,
                       c_recovery := Some (newClientRecoveryState (cl_recovery cl) (rs_negotiated resp) addr
                         (cl_connectTimeout cl) (rs_connectionID resp) (rs_resumeSecret resp))\<rparr>
                in Some (Inr (start (attachTransport (dw_now w) conn (rs_lastRecvSeq resp) c1), net2),
                    dw_setDeadline conn None w))"

definition connectVersion ::
    "('m, 'b) CodecImpl codecRegistry \<Rightarrow> network \<Rightarrow> ('m, 'h) Client \<Rightarrow> string \<Rightarrow> int option \<Rightarrow> byte \<Rightarrow> dialWorld \<Rightarrow>
     (('m, 'b, 'h) dialed result \<times> dialWorld) option" where
  "connectVersion codecs nw cl addr deadline version w =
     (case dialBefore nw addr deadline w of
        (Inl e, w1) \<Rightarrow> Some (Inl e, w1)
      | (Inr (conn, net), w1) \<Rightarrow>
          let pending = (newPendingConnection conn (cl_registry cl) False False)
                \<lparr>c_recvTimeout := cl_recvTimeout cl, c_streamQueueSize := cl_streamQueueSize cl\<rparr>;
              w2 = dw_talk nw conn w1
          in case handshakeClient codecs net (cl_codecs cl) (cl_maxFrame cl) version of
               (Inl e, net1) \<Rightarrow>
                 if waitsForever w2 conn e then None else Some (Inl (connectError e deadline), dw_close conn w2)
             | (Inr config, net1) \<Rightarrow>
                 if cfg_version config \<noteq> protocolVersionV3
                 then Some (Inr (startWithConfig config pending, net1), dw_setDeadline conn None w2)
                 else case startRecoveryConnection cl addr conn net1 pending config w2 of
                        None \<Rightarrow> None
                      | Some (Inl e, w3) \<Rightarrow> Some (Inl (connectError e deadline), w3)
                      | Some (Inr x, w3) \<Rightarrow> Some (Inr x, w3))"

text \<open>The loop over the versions; \<open>lastErr\<close> is the error of the version before.\<close>

fun as_unsupportedVersion :: "go_error \<Rightarrow> byte option" where
  "as_unsupportedVersion (ErrUnsupportedFrameVersion v) = Some v"
| "as_unsupportedVersion e = None"

fun connectVersions ::
    "(byte \<Rightarrow> dialWorld \<Rightarrow> ('c result \<times> dialWorld) option) \<Rightarrow> go_error \<Rightarrow> byte list \<Rightarrow> dialWorld \<Rightarrow>
     ('c result \<times> dialWorld) option" where
  "connectVersions dialVersion lastErr [] w = Some (Inl lastErr, w)"
| "connectVersions dialVersion lastErr (version # versions) w =
     (case dialVersion version w of
        None \<Rightarrow> None
      | Some (Inr c, w1) \<Rightarrow> Some (Inr c, w1)
      | Some (Inl err, w1) \<Rightarrow>
          if version = protocolVersionV3 \<and> errors_find as_unsupportedVersion err = Some protocolVersionV2
          then connectVersions dialVersion err versions w1
          else Some (Inl err, w1))"

definition connectAttempt ::
    "('m, 'b) CodecImpl codecRegistry \<Rightarrow> network \<Rightarrow> ('m, 'h) Client \<Rightarrow> string \<Rightarrow> bool \<Rightarrow> int option \<Rightarrow> dialWorld \<Rightarrow>
     (('m, 'b, 'h) dialed result \<times> dialWorld) option" where
  "connectAttempt codecs nw cl addr recovery deadline w =
     connectVersions (connectVersion codecs nw cl addr deadline) (ErrPanic ''no versions'')
       (if recovery then [protocolVersionV3, protocolVersionV2] else [protocolVersionV2]) w"

fun is_ErrConnectTimeout :: "go_error \<Rightarrow> bool" where
  "is_ErrConnectTimeout ErrConnectTimeout \<longleftrightarrow> True"
| "is_ErrConnectTimeout e \<longleftrightarrow> False"

text \<open>The retry loop of \<^verbatim>\<open>connect\<close> around an attempt.\<close>

partial_function (option) connectLoop ::
    "network \<Rightarrow> (dialWorld \<Rightarrow> ('c result \<times> dialWorld) option) \<Rightarrow> int option \<Rightarrow> Duration \<Rightarrow> go_error option \<Rightarrow> dialWorld \<Rightarrow>
     ('c result \<times> dialWorld) option" where
  "connectLoop nw attempt deadline backoff lastErr w =
     (case attempt w of
        None \<Rightarrow> None
      | Some (Inr c, w1) \<Rightarrow> Some (Inr c, w1)
      | Some (Inl err, w1) \<Rightarrow>
          case lastErr of
            Some e \<Rightarrow>
              if errors_As is_ErrConnectTimeout err then Some (Inl (JoinedError ErrConnectTimeout e), w1)
              else if deadline = None \<or> \<not> isDialError err then Some (Inl err, w1)
              else connectLoop nw attempt deadline (min (2 * backoff) connectRetryMaxBackoff) (Some err)
                     (dw_sleep nw (min backoff (the deadline - dw_now w1)) w1)
          | None \<Rightarrow>
              if deadline = None \<or> \<not> isDialError err then Some (Inl err, w1)
              else connectLoop nw attempt deadline (min (2 * backoff) connectRetryMaxBackoff) (Some err)
                     (dw_sleep nw (min backoff (the deadline - dw_now w1)) w1))"

definition connect ::
    "('m, 'b) CodecImpl codecRegistry \<Rightarrow> network \<Rightarrow> ('m, 'h) Client \<Rightarrow> string \<Rightarrow> bool \<Rightarrow> dialWorld \<Rightarrow>
     (('m, 'b, 'h) dialed result \<times> dialWorld) option" where
  "connect codecs nw cl addr recovery w =
     (let deadline = (if cl_connectTimeout cl > 0 then Some (dw_now w + cl_connectTimeout cl) else None)
      in connectLoop nw (connectAttempt codecs nw cl addr recovery deadline) deadline connectRetryMinBackoff None w)"

definition Connect ::
    "('m, 'b) CodecImpl codecRegistry \<Rightarrow> network \<Rightarrow> ('m, 'h) Client \<Rightarrow> string \<Rightarrow> dialWorld \<Rightarrow>
     (('m, 'b, 'h) dialed result \<times> dialWorld) option" where
  "Connect codecs nw cl addr w = connect codecs nw cl addr (co_Enable (cl_recovery cl)) w"

section \<open>One request\<close>

record ('m, 'h) OnceConn =
  on_client :: "('m, 'h) Client option"
  on_addr :: string
  on_used :: bool

definition ConnectOnce :: "string \<Rightarrow> ('m, 'h) Client \<Rightarrow> ('m, 'h) OnceConn" where
  "ConnectOnce addr cl = \<lparr>on_client = Some cl, on_addr = addr, on_used = False\<rparr>"

definition conn_SendRecv ::
    "int \<Rightarrow> (('m, 'b, 'h) Connection \<Rightarrow> ('m, 'b, 'h) Connection) \<Rightarrow> (string \<Rightarrow> string \<Rightarrow> 'm) \<Rightarrow>
     ('m \<Rightarrow> string \<times> string) \<Rightarrow> ('m \<Rightarrow> string) \<Rightarrow> 'm recvTarget \<Rightarrow> 'm \<Rightarrow>
     ('m, 'b, 'h) Connection \<Rightarrow> ('m result \<times> ('m, 'b, 'h) Connection) outcomes" where
  "conn_SendRecv now env errorReply replyFields wireNameForValue target msg c =
     (case defaultStream c of
        (ref, c1) \<Rightarrow> sendRecvAs now env errorReply replyFields wireNameForValue target ref msg c1)"

text \<open>\<^verbatim>\<open>OnceConn.SendRecv\<close>: the answer, the state of the \<^verbatim>\<open>OnceConn\<close>, and the connection it made, which is
  closed on every way out.\<close>

definition onceSendRecv ::
    "('m, 'b) CodecImpl codecRegistry \<Rightarrow> network \<Rightarrow>
     (('m, 'b, 'h) Connection \<Rightarrow> ('m, 'b, 'h) Connection) \<Rightarrow> (string \<Rightarrow> string \<Rightarrow> 'm) \<Rightarrow>
     ('m \<Rightarrow> string \<times> string) \<Rightarrow> ('m \<Rightarrow> string) \<Rightarrow> 'm recvTarget \<Rightarrow> 'm \<Rightarrow>
     ('m, 'h) OnceConn \<Rightarrow> dialWorld \<Rightarrow>
     ('m result \<times> ('m, 'h) OnceConn \<times> ('m, 'b, 'h) Connection option \<times> dialWorld) outcomes option" where
  "onceSendRecv codecs nw env errorReply replyFields wireNameForValue target msg once w =
     (case on_client once of
        None \<Rightarrow> Some [(Inl (ErrInvalidMessage ''client is nil''), once, None, w)]
      | Some cl \<Rightarrow>
          if on_used once then Some [(Inl ErrClosed, once, None, w)]
          else
            let once1 = once\<lparr>on_used := True\<rparr>
            in case connect codecs nw cl (on_addr once) False w of
                 None \<Rightarrow> None
               | Some (Inl e, w1) \<Rightarrow> Some [(Inl e, once1, None, w1)]
               | Some (Inr (c, net), w1) \<Rightarrow>
                   Some (map (\<lambda>(res, c1). (res, once1, Some (markClosed c1), w1))
                     (conn_SendRecv (dw_now w1) env errorReply replyFields wireNameForValue target msg c)))"

section \<open>Resuming\<close>

text \<open>\<^verbatim>\<open>resumeClientTransport\<close>; \<open>env\<close> is what happens to the connection during the dial and the
  handshake, \<open>env'\<close> during the attach.\<close>

definition resumeClientTransport ::
    "('m, 'b) CodecImpl codecRegistry \<Rightarrow> network \<Rightarrow>
     (('m, 'b, 'h) Connection \<Rightarrow> ('m, 'b, 'h) Connection) \<Rightarrow> (('m, 'b, 'h) Connection \<Rightarrow> ('m, 'b, 'h) Connection) \<Rightarrow>
     ('m, 'b, 'h) Connection \<Rightarrow> dialWorld \<Rightarrow> ((nat \<times> net_conn) result \<times> ('m, 'b, 'h) Connection \<times> dialWorld) option" where
  "resumeClientTransport codecs nw env env' c w =
     (case c_recovery c of
        None \<Rightarrow> Some (Inl ErrClosed, c, w)
      | Some r \<Rightarrow>
          let deadline = (if r_timeout r > 0 then Some (dw_now w + r_timeout r) else None)
          in case dialBefore nw (r_addr r) deadline w of
               (Inl e, w1) \<Rightarrow> Some (Inl e, env c, w1)
             | (Inr (conn, net), w1) \<Rightarrow>
                 let c1 = env c; w2 = dw_talk nw conn w1
                 in case handshakeClient codecs net [cfg_codecID (c_config c)] (cfg_maxFrame (c_config c)) protocolVersionV3 of
                      (Inl e, net1) \<Rightarrow> if waitsForever w2 conn e then None else Some (Inl e, c1, dw_close conn w2)
                    | (Inr config, net1) \<Rightarrow>
                        if cfg_codecID config \<noteq> cfg_codecID (c_config c1)
                        then Some (Inl (ErrResumeRejected ''codec changed on resume''), c1, dw_close conn w2)
                        else
                          let received = (case c_recovery c1 of None \<Rightarrow> 0 | Some r1 \<Rightarrow> lastReceived r1)
                          in case writeAttachRequest net1
                               \<lparr>rq_mode = attachModeResume, rq_connectionID = r_connectionID r,
                                rq_resumeSecret = r_resumeSecret r, rq_lastRecvSeq = received\<rparr> of
                               (Some e, net2) \<Rightarrow> if waitsForever w2 conn e then None else Some (Inl e, c1, dw_close conn w2)
                             | (None, net2) \<Rightarrow>
                                 let c2 = env' c1
                                 in case readAttachResponse net2 of
                                      (Inl e, net3) \<Rightarrow> if waitsForever w2 conn e then None else Some (Inl e, c2, dw_close conn w2)
                                    | (Inr resp, net3) \<Rightarrow>
                                        if rs_status resp \<noteq> attachStatusOK
                                        then Some (Inl (ErrResumeRejected ''''), c2, dw_close conn w2)
                                        else
                                          let c3 = c2\<lparr>c_recovery := map_option (setNegotiated (rs_negotiated resp)) (c_recovery c2)\<rparr>
                                          in Some (Inr (conn, net3),
                                              attachTransport (dw_now w2) conn (rs_lastRecvSeq resp) c3,
                                              dw_setDeadline conn None w2))"

text \<open>The two counters and the failure of a failed attempt.\<close>

definition noteReconnectFailure :: "int \<Rightarrow> go_error \<Rightarrow> ('m, 'b, 'h) Connection \<Rightarrow> ('m, 'b, 'h) Connection" where
  "noteReconnectFailure now err c =
     (let c1 = conn_noteFailure now DebugFailureReconnectResume (''resume failed: '' @ Error err) c
      in c1\<lparr>c_debug := (c_debug c1)\<lparr>reconnectFailures := reconnectFailures (c_debug c1) + 1\<rparr>\<rparr>)"

definition isTerminal :: "go_error \<Rightarrow> bool" where
  "isTerminal err \<longleftrightarrow> errors_As is_ErrResumeRejected err \<or> errors_As is_ErrUnsupportedFrameVersion err"

text \<open>The loop of \<^verbatim>\<open>reconnectUntilAttached\<close>, around an attempt to resume. The timer and the close of the
  connection both end the wait; after either, a closed connection ends the loop.\<close>

partial_function (option) reconnectTries ::
    "network \<Rightarrow> (('m, 'b, 'h) Connection \<Rightarrow> dialWorld \<Rightarrow> ('a result \<times> ('m, 'b, 'h) Connection \<times> dialWorld) option) \<Rightarrow>
     (nat \<Rightarrow> ('m, 'b, 'h) Connection \<Rightarrow> ('m, 'b, 'h) Connection) \<Rightarrow> Duration \<Rightarrow> Duration \<Rightarrow> ('m, 'b, 'h) Connection \<Rightarrow>
     dialWorld \<Rightarrow> (('m, 'b, 'h) Connection \<times> dialWorld) option" where
  "reconnectTries nw resume env maxBackoff backoff c w =
     (if c_closed c then Some (c, w)
      else
        let c1 = c\<lparr>c_debug := (c_debug c)\<lparr>reconnectAttempts := reconnectAttempts (c_debug c) + 1\<rparr>\<rparr>
        in case resume c1 w of
             None \<Rightarrow> None
           | Some (Inr _, c2, w1) \<Rightarrow>
               Some (c2\<lparr>c_debug := (c_debug c2)\<lparr>reconnectSuccesses := reconnectSuccesses (c_debug c2) + 1\<rparr>\<rparr>, w1)
           | Some (Inl err, c2, w1) \<Rightarrow>
               let c3 = noteReconnectFailure (dw_now w1) err c2
               in if isTerminal err
                  then Some (markClosed (conn_noteFailure (dw_now w1) DebugFailureReconnectTerminal
                         (''reconnect terminal failure: '' @ Error err) c3), w1)
                  else reconnectTries nw resume env maxBackoff
                         (if wrap64 (2 * backoff) > maxBackoff then maxBackoff else wrap64 (2 * backoff))
                         (env (dw_dials w1) c3) (dw_sleep nw backoff w1))"

definition reconnectUntilAttached ::
    "('m, 'b) CodecImpl codecRegistry \<Rightarrow> network \<Rightarrow> (nat \<Rightarrow> ('m, 'b, 'h) Connection \<Rightarrow> ('m, 'b, 'h) Connection) \<Rightarrow>
     ('m, 'b, 'h) Connection \<Rightarrow> dialWorld \<Rightarrow> (('m, 'b, 'h) Connection \<times> dialWorld) option" where
  "reconnectUntilAttached codecs nw env c w =
     (case c_recovery c of
        None \<Rightarrow> Some (c, w)
      | Some r \<Rightarrow>
          let backoff = (if r_reconnectMinBackoff r \<le> 0 then co_ReconnectMinBackoff defaultClientRecoveryOptions
                         else r_reconnectMinBackoff r);
              maxBackoff = (if r_reconnectMaxBackoff r < backoff then backoff else r_reconnectMaxBackoff r)
          in reconnectTries nw (\<lambda>c w. resumeClientTransport codecs nw (env (dw_dials w)) (env (dw_dials w)) c w)
               env maxBackoff backoff c w)"

definition setReconnectActive :: "bool \<Rightarrow> ('m, 'b, 'h) Connection \<Rightarrow> ('m, 'b, 'h) Connection" where
  "setReconnectActive b c = c\<lparr>c_recovery := map_option (\<lambda>r. r\<lparr>r_reconnectActive := b\<rparr>) (c_recovery c)\<rparr>"

partial_function (option) reconnectLoop ::
    "('m, 'b) CodecImpl codecRegistry \<Rightarrow> network \<Rightarrow> (nat \<Rightarrow> ('m, 'b, 'h) Connection \<Rightarrow> ('m, 'b, 'h) Connection) \<Rightarrow>
     ('m, 'b, 'h) Connection \<Rightarrow> dialWorld \<Rightarrow> (('m, 'b, 'h) Connection \<times> dialWorld) option" where
  "reconnectLoop codecs nw env c w =
     (case c_recovery c of
        None \<Rightarrow> Some (c, w)
      | Some r \<Rightarrow>
          if r_role r \<noteq> recoveryRoleClient \<or> r_reconnectActive r then Some (c, w)
          else
            Option.bind (reconnectUntilAttached codecs nw env (setReconnectActive True c) w) (\<lambda>(c1, w1).
              let c2 = setReconnectActive False (env (dw_dials w1) c1)
              in if c_closed c2 \<or> currentTransport c2 \<noteq> None then Some (c2, w1)
                 else reconnectLoop codecs nw env c2 w1))"

end
