(* ===== verification/Client_Connect.thy ===== *)
theory Client_Connect
  imports Client Conn_Frame
begin

text \<open>
  Connecting. With a connect timeout a connect returns after a bounded number of dials, whatever the network
  does; without one it makes a single attempt, which a silent peer can hold for ever. It closes
  every transport it opened except the one of the connection it returns; and it retries failed dials
  only. The locale \<open>connect_attempt\<close> is what the retry loop relies on of an attempt; it is
  interpreted on \<^verbatim>\<open>connectAttempt\<close>.
\<close>

section \<open>Transports that are opened and closed\<close>

text \<open>From \<open>w\<close> to \<open>w'\<close> time passes and every transport opened is closed again, except \<open>keep\<close>, which
  is open and has no deadline.\<close>

definition settles :: "nat option \<Rightarrow> dialWorld \<Rightarrow> dialWorld \<Rightarrow> bool" where
  "settles keep w w' \<longleftrightarrow>
     dw_now w \<le> dw_now w' \<and> dw_dials w \<le> dw_dials w' \<and>
     set (dw_closed w) \<subseteq> set (dw_closed w') \<and> set (dw_opened w) \<subseteq> set (dw_opened w') \<and>
     (\<forall>k \<in> set (dw_opened w'). k \<in> set (dw_opened w) \<or>
        dw_dials w \<le> k \<and> k < dw_dials w' \<and> (k \<in> set (dw_closed w') \<or> keep = Some k)) \<and>
     (\<forall>k \<in> set (dw_closed w'). k \<in> set (dw_closed w) \<or> dw_dials w \<le> k \<and> k < dw_dials w' \<and> keep \<noteq> Some k) \<and>
     (\<forall>k. keep = Some k \<longrightarrow> k \<in> set (dw_opened w') \<and> dw_dials w \<le> k \<and> map_of (dw_deadlines w') k = None)"

lemma settles_refl: "settles None w w"
  by (simp add: settles_def)

lemma settles_trans:
  assumes "settles None w w1" "settles keep w1 w2"
  shows "settles keep w w2"
proof -
  have "k \<in> set (dw_opened w) \<or> dw_dials w \<le> k \<and> k < dw_dials w2 \<and> (k \<in> set (dw_closed w2) \<or> keep = Some k)"
    if "k \<in> set (dw_opened w2)" for k
    using that assms by (fastforce simp: settles_def)
  moreover have "k \<in> set (dw_closed w) \<or> dw_dials w \<le> k \<and> k < dw_dials w2 \<and> keep \<noteq> Some k"
    if "k \<in> set (dw_closed w2)" for k
    using that assms by (fastforce simp: settles_def)
  ultimately show ?thesis using assms by (auto simp: settles_def)
qed

text \<open>While a transport is in use it is open and may have a deadline.\<close>

definition dialing :: "nat \<Rightarrow> dialWorld \<Rightarrow> dialWorld \<Rightarrow> bool" where
  "dialing k w w' \<longleftrightarrow>
     dw_now w \<le> dw_now w' \<and> dw_dials w = k \<and> dw_dials w' = Suc k \<and>
     dw_closed w' = dw_closed w \<and> set (dw_opened w') = insert k (set (dw_opened w))"

lemma dialNet_cases:
  assumes "dialNet nw net addr t w = (res, w')"
  shows "dw_dials w' = Suc (dw_dials w) \<and>
     (case res of Inl e \<Rightarrow> settles None w w' | Inr (k, conn) \<Rightarrow> dialing k w w')"
  using assms by (auto simp: dialNet_def settles_def dialing_def Let_def split: sum.splits)

lemma dialForAddr_cases:
  assumes "dialForAddr nw addr t w = (res, w')"
  shows "dw_dials w' \<le> Suc (dw_dials w) \<and>
     (case res of Inl e \<Rightarrow> settles None w w' | Inr (k, conn) \<Rightarrow> dialing k w w')"
proof -
  have "(\<exists>e. res = Inl e \<and> w' = w) \<or> (\<exists>net a t. dialNet nw net a t w = (res, w'))"
    using assms
    by (auto simp: dialForAddr_def dialUDS_def dialTCP_def split: sum.splits prod.splits if_splits)
  with dialNet_cases [of nw _ _ _ w res w'] show ?thesis by (auto simp: settles_refl)
qed

lemma dialing_deadline: "dialing k w w' \<Longrightarrow> dialing k w (dw_setDeadline k' t w')"
  by (simp add: dialing_def dw_setDeadline_def)

lemma dialing_talk: "dialing k w w' \<Longrightarrow> dialing k w (dw_talk nw k' w')"
  by (simp add: dialing_def dw_talk_def)

lemma dialing_close: "dialing k w w' \<Longrightarrow> settles None w (dw_close k w')"
  by (auto simp: dialing_def settles_def dw_close_def)

lemma dialing_keep: "dialing k w w' \<Longrightarrow> k \<notin> set (dw_closed w) \<Longrightarrow> settles (Some k) w (dw_setDeadline k None w')"
  by (auto simp: dialing_def settles_def dw_setDeadline_def AList.delete_conv)

lemma dw_talk_dials [simp]: "dw_dials (dw_talk nw k w) = dw_dials w" "dw_dials (dw_close k w) = dw_dials w"
  "dw_dials (dw_setDeadline k t w) = dw_dials w" "dw_dials (dw_sleep nw d w) = dw_dials w"
  by (simp_all add: dw_talk_def dw_close_def dw_setDeadline_def dw_sleep_def)

lemma dw_sleep_settles: "settles None w (dw_sleep nw d w)"
  by (simp add: settles_def dw_sleep_def)

lemma dialBefore_cases:
  assumes "dialBefore nw addr deadline w = (res, w')"
  shows "dw_dials w' \<le> Suc (dw_dials w) \<and>
     (case res of Inl e \<Rightarrow> settles None w w' | Inr (k, conn) \<Rightarrow> dialing k w w')"
proof -
  let ?t = "case deadline of None \<Rightarrow> 0 | Some d \<Rightarrow> d - dw_now w"
  obtain r w1 where d: "dialForAddr nw addr ?t w = (r, w1)" by (cases "dialForAddr nw addr ?t w")
  from assms dialForAddr_cases [OF d] show ?thesis
    by (auto simp: dialBefore_def Let_def d settles_refl dialing_deadline split: if_splits sum.splits prod.splits)
qed

text \<open>A dial of a TCP address that succeeds in time.\<close>

lemma dialBefore_tcp:
  assumes "\<And>t. nw_dial nw (dw_dials w) ''tcp'' host t = Inr net" "\<And>d. deadline = Some d \<Longrightarrow> dw_now w < d"
  obtains w1 where "dialBefore nw (''tcp://'' @ host) deadline w = (Inr (dw_dials w, net), w1)"
    "dw_now w1 = dw_now w + int (nw_dialTook nw (dw_dials w))" "dw_dials w1 = Suc (dw_dials w)"
    "dw_closed w1 = dw_closed w"
proof -
  have "dialForAddr nw (''tcp://'' @ host) t w = dialTCP nw host t w" for t
    by (simp add: dialForAddr_def parseAddr_def HasPrefix_def TrimPrefix_def)
  with assms that show ?thesis
    by (cases deadline)
       (auto simp: dialBefore_def dialTCP_def dialNet_def Let_def dw_setDeadline_def simp del: append.simps)
qed

lemma dialBefore_expired: "d \<le> dw_now w \<Longrightarrow> dialBefore nw addr (Some d) w = (Inl ErrConnectTimeout, w)"
  by (simp add: dialBefore_def)

text \<open>Transports are numbered by their dials, so the next one is not closed yet.\<close>

definition world_ok :: "dialWorld \<Rightarrow> bool" where
  "world_ok w \<longleftrightarrow> (\<forall>k \<in> set (dw_opened w) \<union> set (dw_closed w). k < dw_dials w)"

lemma settles_ok:
  assumes s: "settles keep w w'" and ok: "world_ok w"
  shows "world_ok w'"
proof -
  have d: "dw_dials w \<le> dw_dials w'" using s by (simp add: settles_def)
  have "k < dw_dials w'" if "k \<in> set (dw_opened w') \<or> k \<in> set (dw_closed w')" for k
  proof -
    from that s have "k \<in> set (dw_opened w) \<union> set (dw_closed w) \<or> k < dw_dials w'" by (auto simp: settles_def)
    with ok d show ?thesis by (auto simp: world_ok_def dest: bspec order.strict_trans2)
  qed
  then show ?thesis by (auto simp: world_ok_def)
qed

lemma dialing_ok: "dialing k w w' \<Longrightarrow> world_ok w \<Longrightarrow> k \<notin> set (dw_closed w)"
  by (auto simp: dialing_def world_ok_def)

section \<open>One attempt\<close>

text \<open>A connection as \<^verbatim>\<open>Connect\<close> returns it: running, on an open transport.\<close>

definition running :: "nat \<Rightarrow> ('m, 'b, 'h) Connection \<Rightarrow> bool" where
  "running k c \<longleftrightarrow> c_conn c = Some k \<and> \<not> c_closed c \<and> started c"

text \<open>The transport a result keeps.\<close>

definition kept_net :: "('m, 'b, 'h) dialed result \<Rightarrow> nat option" where
  "kept_net res = (case res of Inl e \<Rightarrow> None | Inr (c, net) \<Rightarrow> c_conn c)"

definition outcome_ok :: "dialWorld \<Rightarrow> ('m, 'b, 'h) dialed result \<times> dialWorld \<Rightarrow> bool" where
  "outcome_ok w r \<longleftrightarrow> settles (kept_net (fst r)) w (snd r) \<and>
     (case fst r of Inl e \<Rightarrow> True | Inr (c, net) \<Rightarrow> running (the (c_conn c)) c)"

lemma startRecoveryConnection_ok:
  assumes "dialing k w w1" "world_ok w" "c_conn pending = Some k" "\<not> c_closed pending"
    and run: "startRecoveryConnection cl addr k net pending config w1 = Some r"
  shows "outcome_ok w r" "dw_dials (snd r) = dw_dials w1"
proof -
  have k: "settles (Some k) w (dw_setDeadline k None w1)" by (rule dialing_keep [OF assms(1) dialing_ok [OF assms(1,2)]])
  have c: "settles None w (dw_close k w1)" by (rule dialing_close [OF assms(1)])
  have "c_conn (attachTransport t k q c) = Some k" "c_closed (attachTransport t k q c) = c_closed c"
    if "\<not> c_closed c" for t q and c :: "('a, 'b, 'c) Connection"
    using that by (auto simp: attachTransport_def signalSend_def armReadDeadline_def closeNet_def Let_def split: option.splits)
  then have "c_conn (start (attachTransport t k q c)) = Some k \<and> running k (start (attachTransport t k q c))"
    if "\<not> c_closed c" for t q and c :: "('a, 'b, 'c) Connection"
    using that by (auto simp: running_def started_def start_def)
  with assms k c show "outcome_ok w r"
    by (auto simp: startRecoveryConnection_def outcome_ok_def kept_net_def Let_def split: prod.splits option.splits sum.splits if_splits)
  show "dw_dials (snd r) = dw_dials w1"
    using run by (auto simp: startRecoveryConnection_def Let_def split: prod.splits option.splits sum.splits if_splits)
qed

lemma connectVersion_ok:
  assumes "world_ok w" and run: "connectVersion codecs nw cl addr deadline version w = Some r"
  shows "outcome_ok w r" and "dw_dials (snd r) \<le> Suc (dw_dials w)"
proof -
  obtain res w1 where d: "dialBefore nw addr deadline w = (res, w1)" by (cases "dialBefore nw addr deadline w")
  note dc = dialBefore_cases [OF d]
  have "outcome_ok w r \<and> dw_dials (snd r) \<le> Suc (dw_dials w)"
  proof (cases res)
    case (Inl e)
    with d dc run show ?thesis by (auto simp: connectVersion_def outcome_ok_def kept_net_def)
  next
    case (Inr x)
    obtain k net where x: "x = (k, net)" by (cases x)
    with dc Inr have dl: "dialing k w (dw_talk nw k w1)" by (simp add: dialing_talk)
    let ?p = "(newPendingConnection k (cl_registry cl) False False)
        \<lparr>c_recvTimeout := cl_recvTimeout cl, c_streamQueueSize := cl_streamQueueSize cl\<rparr>"
    obtain hs net1 where h: "handshakeClient codecs net (cl_codecs cl) (cl_maxFrame cl) version = (hs, net1)"
      by (cases "handshakeClient codecs net (cl_codecs cl) (cl_maxFrame cl) version")
    have p: "c_conn ?p = Some k" "\<not> c_closed ?p" by (simp_all add: newPendingConnection_def)
    have dials: "dw_dials (dw_talk nw k w1) = Suc (dw_dials w)" using dl by (simp add: dialing_def)
    show ?thesis
    proof (cases hs)
      case (Inl e)
      with run d \<open>res = Inr x\<close> x h dialing_close [OF dl] dials show ?thesis
        by (auto simp: connectVersion_def outcome_ok_def kept_net_def Let_def split: if_splits)
    next
      case (Inr config)
      have plain: "running k (startWithConfig config ?p)" "c_conn (startWithConfig config ?p) = Some k"
        using p by (simp_all add: running_def started_def start_def startWithConfig_def)
      show ?thesis
      proof (cases "cfg_version config = protocolVersionV3")
        case False
        with run d \<open>res = Inr x\<close> x h Inr plain dials dialing_keep [OF dl dialing_ok [OF dl assms(1)]] show ?thesis
          by (auto simp: connectVersion_def outcome_ok_def kept_net_def Let_def)
      next
        case True
        with run d \<open>res = Inr x\<close> x h Inr obtain r' where
          r': "startRecoveryConnection cl addr k net1 ?p config (dw_talk nw k w1) = Some r'"
            "r = (map_sum (\<lambda>e. connectError e deadline) (\<lambda>x. x) (fst r'), snd r')"
          by (auto simp: connectVersion_def Let_def split: option.splits prod.splits sum.splits)
        with startRecoveryConnection_ok [OF dl assms(1) p r'(1)] dials show ?thesis
          by (cases "fst r'") (auto simp: outcome_ok_def kept_net_def)
      qed
    qed
  qed
  then show "outcome_ok w r" and "dw_dials (snd r) \<le> Suc (dw_dials w)" by blast+
qed

lemma connectVersion_expired:
  "d \<le> dw_now w \<Longrightarrow> connectVersion codecs nw cl addr (Some d) version w = Some (Inl ErrConnectTimeout, w)"
  by (simp add: connectVersion_def dialBefore_expired)

lemma connectVersions_ok:
  assumes "world_ok w" and dialVersion: "\<And>version w r. world_ok w \<Longrightarrow> dialVersion version w = Some r \<Longrightarrow> outcome_ok w r"
    and dials: "\<And>version w r. world_ok w \<Longrightarrow> dialVersion version w = Some r \<Longrightarrow> dw_dials (snd r) \<le> Suc (dw_dials w)"
    and "connectVersions dialVersion lastErr versions w = Some r"
  shows "outcome_ok w r \<and> dw_dials (snd r) \<le> dw_dials w + length versions"
  using assms(1,4)
proof (induction versions arbitrary: lastErr w)
  case Nil
  then show ?case by (auto simp: outcome_ok_def kept_net_def settles_refl)
next
  case (Cons version versions)
  then obtain res w1 where t: "dialVersion version w = Some (res, w1)" by (auto split: option.splits)
  note o = dialVersion [OF Cons.prems(1) t] and d = dials [OF Cons.prems(1) t]
  show ?case
  proof (cases res)
    case (Inr c)
    with t o d Cons.prems show ?thesis by auto
  next
    case (Inl err)
    with o have s: "settles None w w1" by (simp add: outcome_ok_def kept_net_def)
    show ?thesis
    proof (cases "version = protocolVersionV3 \<and> errors_find as_unsupportedVersion err = Some protocolVersionV2")
      case True
      with Cons.prems t Inl have run: "connectVersions dialVersion err versions w1 = Some r" by simp
      note IH = Cons.IH [OF settles_ok [OF s Cons.prems(1)] run]
      from IH s have "outcome_ok w r" by (auto simp: outcome_ok_def intro: settles_trans)
      with IH d show ?thesis by auto
    next
      case False
      with Cons.prems t Inl o d show ?thesis by auto
    qed
  qed
qed

lemma connectAttempt_ok:
  assumes "world_ok w" and run: "connectAttempt codecs nw cl addr recovery deadline w = Some r"
  shows "outcome_ok w r" and "dw_dials (snd r) \<le> dw_dials w + 2"
proof -
  let ?vs = "if recovery then [protocolVersionV3, protocolVersionV2] else [protocolVersionV2]"
  have "outcome_ok w r \<and> dw_dials (snd r) \<le> dw_dials w + length ?vs"
    by (rule connectVersions_ok [OF assms(1) _ _ run [unfolded connectAttempt_def]]) (rule connectVersion_ok; assumption)+
  then show "outcome_ok w r" and "dw_dials (snd r) \<le> dw_dials w + 2" by (auto split: if_splits)
qed

lemma connectAttempt_expired:
  "d \<le> dw_now w \<Longrightarrow> connectAttempt codecs nw cl addr recovery (Some d) w = Some (Inl ErrConnectTimeout, w)"
  by (simp add: connectAttempt_def connectVersion_expired)

section \<open>Attempts that return\<close>

text \<open>A peer that may fall silent: its connection ends in a deadline's error.\<close>

definition silent :: "net_conn \<Rightarrow> bool" where
  "silent net \<longleftrightarrow> is_deadlineExceeded (nc_in_err net) \<or> is_deadlineExceeded (nc_out_err net)"

lemma writeFull_error:
  assumes "writeFull conn_Write c buf = (res, c')"
  shows "nc_in_err c' = nc_in_err c \<and> nc_out_err c' = nc_out_err c \<and>
    (\<forall>e. res = Some e \<longrightarrow> is_deadlineExceeded e \<longrightarrow> silent c)"
proof -
  have "W = conn_Write \<Longrightarrow> writeFull W c buf = (res, c') \<Longrightarrow> nc_in_err c' = nc_in_err c \<and> nc_out_err c' = nc_out_err c \<and>
    (\<forall>e. res = Some e \<longrightarrow> is_deadlineExceeded e \<longrightarrow> silent c)" for W
  proof (induction W c buf arbitrary: res c' rule: writeFull.induct)
    case (1 W w buf)
    obtain n err w1 where w: "conn_Write w buf = (n, err, w1)" by (cases "conn_Write w buf")
    then have e: "nc_in_err w1 = nc_in_err w" "nc_out_err w1 = nc_out_err w" "err = None \<or> err = Some (nc_out_err w)"
      by (auto simp: conn_Write_def split: option.splits if_splits)
    from 1 w e show ?case
      by (subst (asm) (2) writeFull.simps) (auto simp: silent_def split: if_splits)
  qed
  with assms show ?thesis by blast
qed

lemma ReadFull_error:
  assumes "ReadFull n c = (res, c')"
  shows "nc_in_err c' = nc_in_err c \<and> nc_out_err c' = nc_out_err c \<and>
    (\<forall>e. res = Inl e \<longrightarrow> is_deadlineExceeded e \<longrightarrow> silent c)"
  using assms by (auto simp: ReadFull_def silent_def split: if_splits)

lemma checkCodecs_error: "checkCodecs reg cs = Some e \<Longrightarrow> \<not> is_deadlineExceeded e"
  by (induction cs) (auto split: if_splits option.splits)

lemma newConnConfig_error: "newConnConfig reg version i m = Inl e \<Longrightarrow> \<not> is_deadlineExceeded e"
  by (auto simp: newConnConfig_def frameHeaderLenForVersion_def split: option.splits if_splits sum.splits)

lemma handshakeClient_error:
  assumes "handshakeClient reg c codecs m version = (res, c')"
  shows "nc_in_err c' = nc_in_err c \<and> nc_out_err c' = nc_out_err c \<and>
    (\<forall>e. res = Inl e \<longrightarrow> is_deadlineExceeded e \<longrightarrow> silent c)"
proof (cases "validateCodecList reg codecs = None \<and> isSupportedProtocolVersion version")
  case False
  with assms checkCodecs_error [of reg codecs] show ?thesis
    by (auto simp: handshakeClient_def validateCodecList_def split: if_splits option.splits)
next
  case True
  obtain we c1 where w: "writeFull conn_Write c (handshakeRequest codecs m version) = (we, c1)"
    by (cases "writeFull conn_Write c (handshakeRequest codecs m version)")
  obtain re c2 where r: "ReadFull handshakeHeaderLen c1 = (re, c2)" by (cases "ReadFull handshakeHeaderLen c1")
  note e = writeFull_error [OF w] ReadFull_error [OF r]
  then have s: "silent c1 = silent c" by (simp add: silent_def)
  show ?thesis
  proof (cases we)
    case (Some x)
    with assms True w e show ?thesis by (auto simp: handshakeClient_def)
  next
    case None
    with assms True w r e s show ?thesis
      by (cases re) (auto simp: handshakeClient_def Let_def dest: newConnConfig_error split: if_splits)
  qed
qed

lemma readAttachResponse_error:
  assumes "readAttachResponse c = (Inl e, c')" "is_deadlineExceeded e"
  shows "silent c"
proof -
  have "\<not> is_deadlineExceeded e" if "parseAttachResponse bs = Inl e" for bs
    using that by (auto simp: parseAttachResponse_def decodeNegotiatedRecoveryOptions_def Let_def split: sum.splits if_splits)
  with assms ReadFull_error show ?thesis
    by (fastforce simp: readAttachResponse_def readWith_def split: prod.splits sum.splits)
qed

text \<open>An attempt returns when the transport has a deadline, or its peer does not fall silent.\<close>

lemma dialBefore_deadline:
  assumes "dialBefore nw addr deadline w = (Inr (k, net), w1)"
  shows "deadline = Some d \<Longrightarrow> map_of (dw_deadlines w1) k = Some d"
    and "deadline = None \<Longrightarrow> dialForAddr nw addr 0 w = (Inr (k, net), w1)"
  using assms by (auto simp: dialBefore_def Let_def dw_setDeadline_def AList.update_conv' split: prod.splits sum.splits if_splits)

lemma dialForAddr_net:
  assumes "dialForAddr nw addr t w = (Inr (k, net), w1)"
  shows "\<exists>a b t. nw_dial nw k a b t = Inr net" "dw_deadlines w1 = dw_deadlines w"
proof -
  have "\<exists>a b t. dialNet nw a b t w = (Inr (k, net), w1)"
    using assms by (auto simp: dialForAddr_def dialUDS_def dialTCP_def split: sum.splits prod.splits if_splits)
  then obtain a b t where "dialNet nw a b t w = (Inr (k, net), w1)" by blast
  then have "nw_dial nw k a b t = Inr net \<and> dw_deadlines w1 = dw_deadlines w"
    by (cases "nw_dial nw (dw_dials w) a b t") (auto simp: dialNet_def Let_def)
  then show "\<exists>a b t. nw_dial nw k a b t = Inr net" "dw_deadlines w1 = dw_deadlines w" by blast+
qed

definition answers :: "network \<Rightarrow> bool" where
  "answers nw \<longleftrightarrow> (\<forall>k a b t net. nw_dial nw k a b t = Inr net \<longrightarrow> \<not> silent net)"

lemma connectVersion_returns:
  fixes codecs :: "('m, 'b) CodecImpl codecRegistry" and cl :: "('m, 'h) Client"
  assumes "deadline \<noteq> None \<or> answers nw"
  shows "connectVersion codecs nw cl addr deadline version w \<noteq> None"
proof -
  obtain res w1 where d: "dialBefore nw addr deadline w = (res, w1)" by (cases "dialBefore nw addr deadline w")
  show ?thesis
  proof (cases res)
    case (Inl e)
    with d show ?thesis by (simp add: connectVersion_def)
  next
    case (Inr x)
    obtain k net where x: "x = (k, net)" by (cases x)
    note db = dialBefore_deadline [OF d [unfolded Inr x]]
    let ?w = "dw_talk nw k w1"
    have live: "\<not> waitsForever ?w k e" if "is_deadlineExceeded e \<Longrightarrow> silent net" for e
    proof (cases deadline)
      case None
      with assms dialForAddr_net(1) [OF db(2)] that show ?thesis by (auto simp: waitsForever_def answers_def)
    next
      case (Some d)
      with db(1) show ?thesis by (auto simp: waitsForever_def dw_talk_def)
    qed
    obtain hs net1 where h: "handshakeClient codecs net (cl_codecs cl) (cl_maxFrame cl) version = (hs, net1)"
      by (cases "handshakeClient codecs net (cl_codecs cl) (cl_maxFrame cl) version")
    note he = handshakeClient_error [OF h]
    then have s: "silent net1 = silent net" by (simp add: silent_def)
    have "startRecoveryConnection cl addr k net1 p config ?w \<noteq> None" for p :: "('m, 'b, 'h) Connection" and config
    proof -
      obtain we net2 where w: "writeAttachRequest net1 \<lparr>rq_mode = attachModeNew, rq_connectionID = zeroToken,
          rq_resumeSecret = zeroToken, rq_lastRecvSeq = 0\<rparr> = (we, net2)" by fastforce
      note we = writeFull_error [OF w [unfolded writeAttachRequest_def]]
      then have s2: "silent net2 = silent net" using s by (simp add: silent_def)
      show ?thesis
      proof (cases we)
        case (Some e)
        with w we s live [of e] show ?thesis by (simp add: startRecoveryConnection_def)
      next
        case None
        obtain re net3 where r: "readAttachResponse net2 = (re, net3)" by (cases "readAttachResponse net2")
        show ?thesis
        proof (cases re)
          case (Inl e)
          with w None r live [of e] readAttachResponse_error [of net2 e net3] s2 show ?thesis
            by (simp add: startRecoveryConnection_def)
        qed (use w None r in \<open>simp add: startRecoveryConnection_def Let_def\<close>)
      qed
    qed
    then have "startRecoveryConnection cl addr k net1 p config ?w = None \<longleftrightarrow> False" for p :: "('m, 'b, 'h) Connection" and config
      by blast
    moreover have "\<not> waitsForever ?w k e" if "hs = Inl e" for e using that he live by blast
    ultimately show ?thesis using d Inr x h
      by (auto simp: connectVersion_def Let_def simp del: not_None_eq split: sum.splits option.splits)
  qed
qed

lemma connectAttempt_returns:
  assumes "deadline \<noteq> None \<or> answers nw"
  shows "connectAttempt codecs nw cl addr recovery deadline w \<noteq> None"
proof -
  have "connectVersions (connectVersion codecs nw cl addr deadline) e vs w \<noteq> None" for e vs w
    using connectVersion_returns [OF assms, of codecs cl addr]
    by (induction vs arbitrary: e w) (auto split: option.splits sum.splits)
  then show ?thesis unfolding connectAttempt_def .
qed

text \<open>And it does not when the peer sends too few bytes for a handshake and there is no deadline.\<close>

lemma connectAttempt_silent:
  assumes C: "validateCodecList codecs (cl_codecs cl) = None" and room: "nc_room net = None"
    and d: "dialForAddr nw addr 0 w = (Inr (k, net), w1)" "map_of (dw_deadlines w) k = None"
    and s: "is_deadlineExceeded (nc_in_err net)" "length (nc_in net) < handshakeHeaderLen"
  shows "connectAttempt codecs nw cl addr recovery None w = None"
proof -
  have w1: "dw_deadlines w1 = dw_deadlines w" by (rule dialForAddr_net [OF d(1)])
  have "nc_in_err net \<noteq> EOF" using s(1) by auto
  then have "\<exists>net1. handshakeClient codecs net (cl_codecs cl) (cl_maxFrame cl) version = (Inl (nc_in_err net), net1)"
    if "isSupportedProtocolVersion version" for version
    using C room s(2) that by (simp add: handshakeClient_def writeFull_conn_room ReadFull_def)
  then have "connectVersion codecs nw cl addr None version w = None" if "isSupportedProtocolVersion version" for version
    using that d w1 s(1) by (fastforce simp: connectVersion_def dialBefore_def Let_def waitsForever_def dw_talk_def)
  then show ?thesis by (simp add: connectAttempt_def isSupportedProtocolVersion_def)
qed

section \<open>The retry loop\<close>

text \<open>A result of the loop: the attempt's, or the timeout with the last dial error. A failed dial is
  never returned while there is a deadline.\<close>

definition loop_ok :: "int option \<Rightarrow> dialWorld \<Rightarrow> ('m, 'b, 'h) dialed result \<times> dialWorld \<Rightarrow> bool" where
  "loop_ok deadline w r \<longleftrightarrow> outcome_ok w r \<and>
     (case fst r of
        Inr _ \<Rightarrow> True
      | Inl e \<Rightarrow> deadline = None \<or> \<not> isDialError e \<or> (\<exists>d. e = JoinedError ErrConnectTimeout d \<and> isDialError d))"

text \<open>What the loop relies on: an attempt leaves only the transport of its result open, dials at most
  twice, and with a deadline it returns, at once with \<^verbatim>\<open>ErrConnectTimeout\<close> when the deadline has passed.\<close>

locale connect_attempt =
  fixes attempt :: "dialWorld \<Rightarrow> (('m, 'b, 'h) dialed result \<times> dialWorld) option"
    and deadline :: "int option"
  assumes attempt_ok: "world_ok w \<Longrightarrow> attempt w = Some r \<Longrightarrow> outcome_ok w r"
    and attempt_dials: "world_ok w \<Longrightarrow> attempt w = Some r \<Longrightarrow> dw_dials (snd r) \<le> dw_dials w + 2"
    and attempt_returns: "deadline = Some d \<Longrightarrow> attempt w \<noteq> None"
    and attempt_expired: "deadline = Some d \<Longrightarrow> d \<le> dw_now w \<Longrightarrow> attempt w = Some (Inl ErrConnectTimeout, w)"
begin

text \<open>One round of the loop.\<close>

lemma loop_round:
  assumes ok: "world_ok w" and last: "\<And>e. lastErr = Some e \<Longrightarrow> isDialError e" and returns: "attempt w \<noteq> None"
  obtains (done') r where "connectLoop nw attempt deadline backoff lastErr w = Some r" "loop_ok deadline w r"
      "dw_dials (snd r) \<le> dw_dials w + 2"
      "\<And>d. deadline = Some d \<Longrightarrow> d \<le> dw_now w \<Longrightarrow> dw_dials (snd r) = dw_dials w"
    | (again) d err w1 where "deadline = Some d" "dw_now w < d" "isDialError err" "settles None w w1"
      "dw_dials w1 \<le> dw_dials w + 2"
      "connectLoop nw attempt deadline backoff lastErr w =
         connectLoop nw attempt deadline (min (2 * backoff) connectRetryMaxBackoff) (Some err)
           (dw_sleep nw (min backoff (d - dw_now w1)) w1)"
proof -
  obtain res w1 where a: "attempt w = Some (res, w1)" using returns by auto
  have o: "outcome_ok w (res, w1)" and d2: "dw_dials w1 \<le> dw_dials w + 2"
    using attempt_ok [OF ok a] attempt_dials [OF ok a] by simp_all
  have ex: "res = Inl ErrConnectTimeout \<and> w1 = w" if "deadline = Some d" "d \<le> dw_now w" for d
    using attempt_expired [OF that] a by simp
  show ?thesis
  proof (cases res)
    case (Inr c)
    then have "connectLoop nw attempt deadline backoff lastErr w = Some (Inr c, w1)"
      using a by (simp add: connectLoop.simps)
    with done' o d2 Inr ex show ?thesis by (fastforce simp: loop_ok_def)
  next
    case (Inl err)
    with o have s: "settles None w w1" by (simp add: outcome_ok_def kept_net_def)
    consider (timeout) e where "lastErr = Some e" "errors_As is_ErrConnectTimeout err"
      | (fail) "lastErr = None \<or> \<not> errors_As is_ErrConnectTimeout err" "deadline = None \<or> \<not> isDialError err"
      | (retry) d where "lastErr = None \<or> \<not> errors_As is_ErrConnectTimeout err" "deadline = Some d" "isDialError err"
      by (cases lastErr; cases deadline) auto
    then show ?thesis
    proof cases
      case (timeout e)
      then have "connectLoop nw attempt deadline backoff lastErr w = Some (Inl (JoinedError ErrConnectTimeout e), w1)"
        using a Inl by (simp add: connectLoop.simps)
      with done' o d2 Inl timeout last s ex show ?thesis by (fastforce simp: loop_ok_def outcome_ok_def kept_net_def)
    next
      case fail
      then have "connectLoop nw attempt deadline backoff lastErr w = Some (Inl err, w1)"
        using a Inl by (auto simp: connectLoop.simps split: option.splits)
      then show ?thesis by (rule done') (use o d2 Inl fail ex in \<open>auto simp: loop_ok_def\<close>)
    next
      case (retry d)
      have "dw_now w < d"
        using ex [OF retry(2)] retry(3) Inl by (fastforce simp: isDialError_def)
      moreover have "connectLoop nw attempt deadline backoff lastErr w =
         connectLoop nw attempt deadline (min (2 * backoff) connectRetryMaxBackoff) (Some err)
           (dw_sleep nw (min backoff (d - dw_now w1)) w1)"
        using a Inl retry by (subst connectLoop.simps) (auto split: option.splits)
      ultimately show ?thesis using again retry s d2 by blast
    qed
  qed
qed

text \<open>With a deadline at most \<open>m\<close> backoffs away, at most \<open>m\<close> attempts dial.\<close>

lemma loop_returns:
  assumes "deadline = Some d" "d - dw_now w \<le> int m * connectRetryMinBackoff"
    and "connectRetryMinBackoff \<le> backoff" "world_ok w" "\<And>e. lastErr = Some e \<Longrightarrow> isDialError e"
  shows "\<exists>r. connectLoop nw attempt deadline backoff lastErr w = Some r \<and> loop_ok deadline w r \<and>
     dw_dials (snd r) \<le> dw_dials w + 2 * m"
  using assms(2-5)
proof (induction m arbitrary: w backoff lastErr)
  case 0
  show ?case
    by (rule loop_round [of w lastErr nw backoff, OF "0.prems"(3,4) attempt_returns [OF assms(1)]]) (use 0 assms(1) in auto)
next
  case (Suc m)
  show ?case
  proof (rule loop_round [of w lastErr nw backoff, OF Suc.prems(3,4) attempt_returns [OF assms(1)]])
    fix r assume done': "connectLoop nw attempt deadline backoff lastErr w = Some r" "loop_ok deadline w r"
      "dw_dials (snd r) \<le> dw_dials w + 2"
    then show ?thesis by (intro exI [of _ r]) simp
  next
    fix d' err w1 assume again: "deadline = Some d'" "dw_now w < d'" "isDialError err" "settles None w w1"
      "dw_dials w1 \<le> dw_dials w + 2"
      "connectLoop nw attempt deadline backoff lastErr w =
         connectLoop nw attempt deadline (min (2 * backoff) connectRetryMaxBackoff) (Some err)
           (dw_sleep nw (min backoff (d' - dw_now w1)) w1)"
    let ?w = "dw_sleep nw (min backoff (d' - dw_now w1)) w1"
    have d: "d' = d" using again(1) assms(1) by simp
    have s: "settles None w ?w" by (rule settles_trans [OF again(4) dw_sleep_settles])
    have "dw_now w \<le> dw_now w1" using again(4) by (simp add: settles_def)
    then have "dw_now ?w \<ge> min d (dw_now w + connectRetryMinBackoff)"
      using Suc.prems(2) unfolding dw_sleep_def d by (simp add: connectRetryMinBackoff_def)
    then have t: "d - dw_now ?w \<le> int m * connectRetryMinBackoff"
      using Suc.prems(1) by (auto simp: connectRetryMinBackoff_def Millisecond_def algebra_simps min_def split: if_splits)
    have b: "connectRetryMinBackoff \<le> min (2 * backoff) connectRetryMaxBackoff"
      using Suc.prems(2) by (simp add: connectRetryMinBackoff_def connectRetryMaxBackoff_def Millisecond_def Second_def)
    from Suc.IH [OF t b settles_ok [OF s Suc.prems(3)], of "Some err"] again(3) obtain r where
      r: "connectLoop nw attempt deadline (min (2 * backoff) connectRetryMaxBackoff) (Some err) ?w = Some r"
        "loop_ok deadline ?w r" "dw_dials (snd r) \<le> dw_dials ?w + 2 * m" by auto
    from r(2) s have "loop_ok deadline w r" by (auto simp: loop_ok_def outcome_ok_def intro: settles_trans)
    with r again(5,6) show ?thesis by auto
  qed
qed

text \<open>Without a deadline there is one attempt.\<close>

lemma loop_single:
  assumes "deadline = None" "world_ok w"
  shows "connectLoop nw attempt deadline backoff None w = attempt w"
    and "attempt w = Some r \<Longrightarrow> loop_ok deadline w r"
proof -
  show "connectLoop nw attempt deadline backoff None w = attempt w"
    using assms(1) by (subst connectLoop.simps) (auto split: option.splits sum.splits)
  show "loop_ok deadline w r" if "attempt w = Some r"
    using attempt_ok [OF assms(2) that] assms(1) by (auto simp: loop_ok_def split: sum.splits)
qed

end

interpretation client: connect_attempt "connectAttempt codecs nw cl addr recovery deadline" deadline
  for codecs nw cl addr recovery deadline
  by unfold_locales (fact connectAttempt_ok connectAttempt_expired | simp add: connectAttempt_returns connectAttempt_expired)+

text \<open>The number of dials a connect with this timeout may make.\<close>

definition dialLimit :: "Duration \<Rightarrow> nat" where
  "dialLimit timeout = 2 * (if timeout > 0 then nat (timeout div connectRetryMinBackoff) + 1 else 1)"

lemma connect_loop:
  assumes ok: "world_ok w" and d: "deadline = (if cl_connectTimeout cl > 0 then Some (dw_now w + cl_connectTimeout cl) else None)"
    and returns: "cl_connectTimeout cl > 0 \<or> connectAttempt codecs nw cl addr recovery None w \<noteq> None"
  shows "\<exists>r. connect codecs nw cl addr recovery w = Some r \<and> loop_ok deadline w r \<and>
     dw_dials (snd r) \<le> dw_dials w + dialLimit (cl_connectTimeout cl)"
proof (cases "cl_connectTimeout cl > 0")
  case True
  let ?m = "nat (cl_connectTimeout cl div connectRetryMinBackoff) + 1"
  have b: "connectRetryMinBackoff > 0" by (simp add: connectRetryMinBackoff_def Millisecond_def)
  have "cl_connectTimeout cl \<le> (cl_connectTimeout cl div connectRetryMinBackoff + 1) * connectRetryMinBackoff"
  proof -
    have "cl_connectTimeout cl = cl_connectTimeout cl div connectRetryMinBackoff * connectRetryMinBackoff +
        cl_connectTimeout cl mod connectRetryMinBackoff" by simp
    with pos_mod_bound [OF b, of "cl_connectTimeout cl"] show ?thesis unfolding distrib_right by linarith
  qed
  then have "dw_now w + cl_connectTimeout cl - dw_now w \<le> int ?m * connectRetryMinBackoff"
    using True b by (simp add: pos_imp_zdiv_nonneg_iff add.commute)
  from client.loop_returns [OF _ this, of "Some (dw_now w + cl_connectTimeout cl)" connectRetryMinBackoff None nw
      codecs nw cl addr recovery] True ok
  show ?thesis by (auto simp: connect_def dialLimit_def d)
next
  case False
  then have "deadline = None" using d by simp
  from returns False obtain r where r: "connectAttempt codecs nw cl addr recovery None w = Some r" by auto
  from client.loop_single(1) [OF refl ok, of nw codecs nw cl addr recovery connectRetryMinBackoff] client.loop_single(2) [OF refl ok r]
    connectAttempt_ok(2) [OF ok r] r False \<open>deadline = None\<close>
  show ?thesis by (cases r) (simp add: connect_def dialLimit_def)
qed

lemma connect_single:
  "world_ok w \<Longrightarrow> cl_connectTimeout cl \<le> 0 \<Longrightarrow>
     connect codecs nw cl addr recovery w = connectAttempt codecs nw cl addr recovery None w"
  using client.loop_single(1) [OF refl, of w] by (simp add: connect_def Let_def)

section \<open>A client and two networks\<close>

definition sampleClient :: "(unit, unit) Client" where
  "sampleClient = client_WithCodecs [1] (NewClient \<lparr>rt_handlers = [], rt_messages = []\<rparr>)"

definition sampleCodecs'' :: "(unit, unit) CodecImpl codecRegistry" where
  "sampleCodecs'' = [1 \<mapsto> sampleCodec]"

definition startWorld :: dialWorld where
  "startWorld = \<lparr>dw_now = 0, dw_dials = 0, dw_opened = [], dw_closed = [], dw_deadlines = []\<rparr>"

text \<open>One on which every dial is refused, and one with a server of version 2 without recovery.\<close>

definition downNetwork :: network where
  "downNetwork = \<lparr>nw_linux = True, nw_dial = (\<lambda>k net a t. Inl (NetOpError ''dial'' ''connection refused'' False False)),
     nw_dialTook = (\<lambda>k. 0), nw_talkTook = (\<lambda>k. 0), nw_sleptLate = (\<lambda>k. 0)\<rparr>"

definition plainNetwork :: network where
  "plainNetwork = downNetwork\<lparr>nw_dial := (\<lambda>k net a t. Inr (sampleConn\<lparr>nc_in :=
     (if k = 0 then handshakeReply 0 2 0 0 else handshakeReply 1 2 1 100)\<rparr>))\<rparr>"

section \<open>Properties\<close>

text \<open>C17. When \<^verbatim>\<open>Connect\<close> returns. With a connect timeout always, whatever the network does, after at most two
  dials, one per protocol version, for each 100 milliseconds of the timeout begun. Without one it makes a single attempt,
  at most two dials, and returns when no peer it reaches falls silent; but when the first peer it reaches stays silent
  before its handshake reply is complete, without closing the connection, it never returns.\<close>

theorem connect_returns:
  assumes "world_ok w"
  shows "(cl_connectTimeout cl > 0 \<or> answers nw \<longrightarrow>
      (\<exists>res w'. connect codecs nw cl addr recovery w = Some (res, w') \<and>
         dw_dials w' \<le> dw_dials w + dialLimit (cl_connectTimeout cl))) \<and>
    (\<forall>k net w1. cl_connectTimeout cl \<le> 0 \<and> dialForAddr nw addr 0 w = (Inr (k, net), w1) \<and> map_of (dw_deadlines w) k = None \<and>
       validateCodecList codecs (cl_codecs cl) = None \<and> nc_room net = None \<and>
       is_deadlineExceeded (nc_in_err net) \<and> length (nc_in net) < handshakeHeaderLen \<longrightarrow>
       connect codecs nw cl addr recovery w = None)"
proof (intro conjI impI allI)
  assume "cl_connectTimeout cl > 0 \<or> answers nw"
  then have "cl_connectTimeout cl > 0 \<or> connectAttempt codecs nw cl addr recovery None w \<noteq> None"
    using connectAttempt_returns [of None nw] by blast
  from connect_loop [OF assms refl this] show "\<exists>res w'. connect codecs nw cl addr recovery w = Some (res, w') \<and>
      dw_dials w' \<le> dw_dials w + dialLimit (cl_connectTimeout cl)" by auto
qed (elim conjE, simp only: connect_single [OF assms], rule connectAttempt_silent)

text \<open>A network whose server accepts connections and says nothing.\<close>

definition silentNetwork :: network where
  "silentNetwork = downNetwork\<lparr>nw_dial := (\<lambda>k net a t. Inr (sampleConn\<lparr>nc_in := [],
     nc_in_err := NetOpError ''read'' ''i/o timeout'' True False\<rparr>))\<rparr>"

theorem connect_returns_witness:
  "(\<exists>res w'. connect sampleCodecs'' silentNetwork (WithConnectTimeout Second sampleClient) ''tcp://h:1'' True startWorld =
      Some (res, w') \<and> dw_dials w' \<le> 22) \<and>
   (\<exists>res w'. connect sampleCodecs'' plainNetwork sampleClient ''tcp://h:1'' True startWorld = Some (res, w') \<and> dw_dials w' \<le> 2) \<and>
   connect sampleCodecs'' silentNetwork sampleClient ''tcp://h:1'' True startWorld = None"
proof -
  have w: "world_ok startWorld" by (simp add: world_ok_def startWorld_def)
  have t: "dialLimit (cl_connectTimeout (WithConnectTimeout Second sampleClient)) = 22" "cl_connectTimeout sampleClient = 0"
    "dialLimit (cl_connectTimeout sampleClient) = 2" "dw_dials startWorld = 0"
    "cl_connectTimeout (WithConnectTimeout Second sampleClient) > 0" by code_simp+
  have a: "answers plainNetwork" by (simp add: answers_def plainNetwork_def silent_def sampleConn_def)
  let ?net = "sampleConn\<lparr>nc_in := [], nc_in_err := NetOpError ''read'' ''i/o timeout'' True False\<rparr>"
  have d: "dialForAddr silentNetwork ''tcp://h:1'' 0 startWorld = (Inr (0, ?net), snd (dialForAddr silentNetwork ''tcp://h:1'' 0 startWorld))"
    by (simp add: silentNetwork_def dialForAddr_def parseAddr_def HasPrefix_def TrimPrefix_def dialTCP_def dialNet_def startWorld_def Let_def)
  have s: "map_of (dw_deadlines startWorld) 0 = None" "validateCodecList sampleCodecs'' (cl_codecs sampleClient) = None"
    "nc_room ?net = None" "is_deadlineExceeded (nc_in_err ?net)" "length (nc_in ?net) < handshakeHeaderLen" by code_simp+
  have "cl_connectTimeout sampleClient \<le> 0" using t(2) by simp
  with d s have "connect sampleCodecs'' silentNetwork sampleClient ''tcp://h:1'' True startWorld = None"
    using connect_returns [OF w, of sampleClient silentNetwork sampleCodecs'' "''tcp://h:1''" True] by blast
  with connect_returns [OF w, of "WithConnectTimeout Second sampleClient" silentNetwork sampleCodecs'' "''tcp://h:1''" True, THEN conjunct1]
    connect_returns [OF w, of sampleClient plainNetwork sampleCodecs'' "''tcp://h:1''" True, THEN conjunct1] t a
  show ?thesis by simp
qed

text \<open>C18. \<^verbatim>\<open>Connect\<close> leaks nothing and reports failures as documented: the connection it returns is
  running on an open transport without a deadline, and every other transport opened on the way is
  closed, all of them when it fails. With a connect timeout it never fails with a mere dial error:
  it retried those until the timeout, which it reports with the last of them, or it fails at once
  with the error of a server that answered.\<close>

theorem connect_outcome:
  assumes "world_ok w" "connect codecs nw cl addr recovery w = Some (res, w')"
  shows "case res of
      Inr (c, net) \<Rightarrow>
        \<exists>k. c_conn c = Some k \<and> \<not> c_closed c \<and> started c \<and> k \<in> set (dw_opened w') - set (dw_opened w) \<and>
          k \<notin> set (dw_closed w') \<and> map_of (dw_deadlines w') k = None \<and>
          set (dw_opened w') - set (dw_opened w) - {k} \<subseteq> set (dw_closed w')
    | Inl e \<Rightarrow>
        set (dw_opened w') - set (dw_opened w) \<subseteq> set (dw_closed w') \<and>
        (cl_connectTimeout cl \<le> 0 \<or> \<not> isDialError e \<or> (\<exists>d. e = JoinedError ErrConnectTimeout d \<and> isDialError d))"
proof -
  have "cl_connectTimeout cl > 0 \<or> connectAttempt codecs nw cl addr recovery None w \<noteq> None"
    using assms(2) connect_single [OF assms(1), of cl codecs nw addr recovery] by (cases "cl_connectTimeout cl > 0") auto
  from connect_loop [OF assms(1) refl this] assms(2)
  have l: "loop_ok (if cl_connectTimeout cl > 0 then Some (dw_now w + cl_connectTimeout cl) else None) w (res, w')" by auto
  show ?thesis
  proof (cases res)
    case (Inl e)
    with l show ?thesis
      by (auto simp: loop_ok_def outcome_ok_def kept_net_def settles_def split: if_splits)
  next
    case (Inr x)
    obtain c net where x: "x = (c, net)" by (cases x)
    with l Inr have r: "running (the (c_conn c)) c" and s: "settles (c_conn c) w w'"
      by (simp_all add: loop_ok_def outcome_ok_def kept_net_def)
    then obtain k where k: "c_conn c = Some k" "\<not> c_closed c" "started c" by (auto simp: running_def)
    have new: "k \<in> set (dw_opened w')" "dw_dials w \<le> k" "map_of (dw_deadlines w') k = None"
      "\<And>j. j \<in> set (dw_opened w') \<Longrightarrow> j \<in> set (dw_opened w) \<or> j \<in> set (dw_closed w') \<or> j = k"
      "k \<in> set (dw_closed w') \<Longrightarrow> k \<in> set (dw_closed w)"
      using s k(1) by (auto simp: settles_def)
    have old: "k \<notin> set (dw_opened w)" "k \<notin> set (dw_closed w)" using assms(1) new(2) by (auto simp: world_ok_def dest!: bspec [where x = k])
    from Inr x k new old show ?thesis by auto
  qed
qed

theorem connect_outcome_witness:
  "\<exists>c net w'. connect sampleCodecs'' plainNetwork sampleClient ''tcp://h:1'' True startWorld = Some (Inr (c, net), w') \<and>
     c_conn c = Some 1 \<and> started c \<and> set (dw_opened w') = {0, 1} \<and> set (dw_closed w') = {0}"
proof -
  let ?a = "connectAttempt sampleCodecs'' plainNetwork sampleClient ''tcp://h:1'' True None startWorld"
  have ok: "world_ok startWorld" by (simp add: world_ok_def startWorld_def)
  have t: "cl_connectTimeout sampleClient = 0" by code_simp
  have a: "map_option (map_sum (\<lambda>_. ()) (c_conn \<circ> fst) \<circ> fst) ?a = Some (Inr (Some 1))" "map_option (dw_opened \<circ> snd) ?a = Some [1, 0]"
      "map_option (dw_closed \<circ> snd) ?a = Some [0]"
    by code_simp+
  then obtain c net w' where r: "?a = Some (Inr (c, net), w')" by (cases ?a; cases "fst (the ?a)") auto
  then have c: "connect sampleCodecs'' plainNetwork sampleClient ''tcp://h:1'' True startWorld = Some (Inr (c, net), w')"
    by (simp add: connect_def t connectLoop.simps)
  have "c_conn c = Some 1" "set (dw_opened w') = {0, 1}" "set (dw_closed w') = {0}" using a r by auto
  with connect_outcome [OF ok c] c show ?thesis by auto
qed

text \<open>The two handshakes of a client with recovery against a server without it: the first is answered with version 2, the
  second succeeds on both sides with the same configuration.\<close>

lemma fallback_handshakes:
  assumes C: "validateCodecList codecs cs = None" and S: "validateCodecList regS codecsS = None"
    and common: "selectCodec cs codecsS = Some i"
    and room: "nc_room c0 = None" "nc_room c1 = None" "nc_room s0 = None" "nc_room s1 = None" "nc_out s0 = []" "nc_out s1 = []"
    and s3: "handshakeServer regS (s0\<lparr>nc_in := handshakeRequest cs maxC protocolVersionV3\<rparr>) codecsS maxS False = (r0, s0')"
    and s2: "handshakeServer regS (s1\<lparr>nc_in := handshakeRequest cs maxC protocolVersionV2\<rparr>) codecsS maxS False = (r1, s1')"
  obtains cfgC cfgS net0 net1 where
    "handshakeClient codecs (c0\<lparr>nc_in := nc_out s0'\<rparr>) cs maxC protocolVersionV3 = (Inl (ErrUnsupportedFrameVersion protocolVersionV2), net0)"
    "handshakeClient codecs (c1\<lparr>nc_in := nc_out s1' @ rest\<rparr>) cs maxC protocolVersionV2 = (Inr cfgC, net1)"
    "nc_in net1 = rest" "r1 = Inr cfgS" "cfg_version cfgC = protocolVersionV2" "cfg_version cfgS = protocolVersionV2"
    "cfg_codecID cfgC = i" "cfg_codecID cfgS = i" "cfg_maxFrame cfgC = cfg_maxFrame cfgS"
proof -
  note cs = validateCodecList_ok [OF C]
  have v: "isSupportedProtocolVersion protocolVersionV3" "isSupportedProtocolVersion protocolVersionV2"
    by (simp_all add: isSupportedProtocolVersion_def)
  have i: "i \<in> set cs" "i \<in> set codecsS" using selectCodec_SomeD [OF common] by simp_all
  obtain kc ks where k: "codecs i = Some kc" "regS i = Some ks"
    using i cs(3) validateCodecList_ok(3) [OF S] by blast
  let ?m = "min maxC maxS"
  obtain cfgC cfgS where cfg: "newConnConfig codecs protocolVersionV2 i ?m = Inr cfgC" "newConnConfig regS protocolVersionV2 i ?m = Inr cfgS"
    "cfg_version cfgC = protocolVersionV2" "cfg_codecID cfgC = i" "cfg_maxFrame cfgC = ?m"
    "cfg_version cfgS = protocolVersionV2" "cfg_codecID cfgS = i" "cfg_maxFrame cfgS = ?m"
    using newConnConfig_exists [of codecs i kc, OF k(1) v(2), of ?m] newConnConfig_exists [of regS i ks, OF k(2) v(2), of ?m] by blast
  have o0: "nc_out s0' = handshakeReply 0 protocolVersionV2 0 0"
    using s3 handshakeServer_request [OF S cs(1,2) v(1) room(3), of maxC "[]" maxS False] room(5)
    by (auto simp: serverAnswer_def)
  have o1: "nc_out s1' = handshakeReply 1 protocolVersionV2 i ?m" "r1 = Inr cfgS"
    using s2 handshakeServer_request [OF S cs(1,2) v(2) room(4), of maxC "[]" maxS False] room(6) common cfg(2)
    by (auto simp: serverAnswer_def serverResult_def)
  have h0: "handshakeClient codecs (c0\<lparr>nc_in := nc_out s0'\<rparr>) cs maxC protocolVersionV3 =
      (Inl (ErrUnsupportedFrameVersion protocolVersionV2), c0\<lparr>nc_in := [], nc_out := nc_out c0 @
        handshakeRequest cs maxC protocolVersionV3\<rparr>)"
    using handshakeClient_reply [OF C v(1), of "c0\<lparr>nc_in := nc_out s0'\<rparr>" 0 protocolVersionV2 0 0 "[]"] room(1) o0 by simp
  obtain net1 where h1: "handshakeClient codecs (c1\<lparr>nc_in := nc_out s1' @ rest\<rparr>) cs maxC protocolVersionV2 = (Inr cfgC, net1)"
    "nc_in net1 = rest"
    using handshakeClient_reply [OF C v(2), of "c1\<lparr>nc_in := nc_out s1' @ rest\<rparr>" 1 protocolVersionV2 i ?m rest] room(2) o1 i cfg(1) by simp
  show thesis by (rule that [OF h0 h1 o1(2)]) (simp_all add: cfg)
qed

text \<open>C19. The fallback to version 2: a client with recovery that dials a server without recovery, both
  with valid codec lists and a codec in common, ends up connected with version 2. The first
  transport, on which the server refused version 3, is closed; the second carries the connection,
  with the codec and the frame limit the server settled on and nothing behind the handshake
  consumed.\<close>

theorem connect_falls_back:
  assumes C: "validateCodecList codecs (cl_codecs cl) = None" and S: "validateCodecList regS codecsS = None"
    and common: "selectCodec (cl_codecs cl) codecsS = Some i"
    and room: "nc_room c0 = None" "nc_room c1 = None" "nc_room s0 = None" "nc_room s1 = None" "nc_out s0 = []" "nc_out s1 = []"
    and s3: "handshakeServer regS (s0\<lparr>nc_in := handshakeRequest (cl_codecs cl) (cl_maxFrame cl) protocolVersionV3\<rparr>)
               codecsS maxS False = (r0, s0')"
    and s2: "handshakeServer regS (s1\<lparr>nc_in := handshakeRequest (cl_codecs cl) (cl_maxFrame cl) protocolVersionV2\<rparr>)
               codecsS maxS False = (r1, s1')"
    and dial: "\<And>net a t. nw_dial nw 0 net a t = Inr (c0\<lparr>nc_in := nc_out s0'\<rparr>)"
      "\<And>net a t. nw_dial nw 1 net a t = Inr (c1\<lparr>nc_in := nc_out s1' @ rest\<rparr>)"
    and time: "cl_connectTimeout cl > 0 \<Longrightarrow> int (nw_dialTook nw 0) + int (nw_talkTook nw 0) < cl_connectTimeout cl"
    and w: "dw_dials w = 0" "world_ok w"
  shows "\<exists>c net w' cfgS. connect codecs nw cl (''tcp://'' @ host) True w = Some (Inr (c, net), w') \<and>
     r1 = Inr cfgS \<and> c_conn c = Some 1 \<and> 0 \<in> set (dw_closed w') \<and>
     cfg_version (c_config c) = protocolVersionV2 \<and> cfg_version cfgS = protocolVersionV2 \<and>
     cfg_codecID (c_config c) = i \<and> cfg_codecID cfgS = i \<and> cfg_maxFrame (c_config c) = cfg_maxFrame cfgS \<and> nc_in net = rest"
proof -
  define deadline where "deadline = (if cl_connectTimeout cl > 0 then Some (dw_now w + cl_connectTimeout cl) else None)"
  define addr where "addr = ''tcp://'' @ host"
  obtain cfgC cfgS net0 net1 where h0: "handshakeClient codecs (c0\<lparr>nc_in := nc_out s0'\<rparr>) (cl_codecs cl) (cl_maxFrame cl) protocolVersionV3 =
      (Inl (ErrUnsupportedFrameVersion protocolVersionV2), net0)"
    and h1: "handshakeClient codecs (c1\<lparr>nc_in := nc_out s1' @ rest\<rparr>) (cl_codecs cl) (cl_maxFrame cl) protocolVersionV2 = (Inr cfgC, net1)"
      "nc_in net1 = rest"
    and cfg: "r1 = Inr cfgS" "cfg_version cfgC = protocolVersionV2" "cfg_version cfgS = protocolVersionV2"
      "cfg_codecID cfgC = i" "cfg_codecID cfgS = i" "cfg_maxFrame cfgC = cfg_maxFrame cfgS"
    using fallback_handshakes [OF C S common room s3 s2] .
  obtain w0 where d0: "dialBefore nw addr deadline w = (Inr (0, c0\<lparr>nc_in := nc_out s0'\<rparr>), w0)"
      "dw_now w0 = dw_now w + int (nw_dialTook nw 0)" "dw_dials w0 = 1" "dw_closed w0 = dw_closed w"
  proof -
    have "\<And>t. nw_dial nw (dw_dials w) ''tcp'' host t = Inr (c0\<lparr>nc_in := nc_out s0'\<rparr>)"
      "\<And>d. deadline = Some d \<Longrightarrow> dw_now w < d" using dial(1) w(1) by (auto simp: deadline_def split: if_splits)
    from dialBefore_tcp [OF this] that show thesis unfolding w(1) addr_def by auto
  qed
  obtain w1 where a0: "connectVersion codecs nw cl addr deadline protocolVersionV3 w = Some (Inl (ErrUnsupportedFrameVersion protocolVersionV2), w1)"
      "dw_now w1 = dw_now w + int (nw_dialTook nw 0) + int (nw_talkTook nw 0)" "dw_dials w1 = 1" "0 \<in> set (dw_closed w1)"
    using d0 h0 by (simp add: connectVersion_def Let_def dw_close_def dw_talk_def connectError_def isTimeout_def waitsForever_def)
  obtain w2 where d1: "dialBefore nw addr deadline w1 = (Inr (1, c1\<lparr>nc_in := nc_out s1' @ rest\<rparr>), w2)" "dw_closed w2 = dw_closed w1"
  proof -
    have "\<And>t. nw_dial nw (dw_dials w1) ''tcp'' host t = Inr (c1\<lparr>nc_in := nc_out s1' @ rest\<rparr>)"
      "\<And>d. deadline = Some d \<Longrightarrow> dw_now w1 < d" using dial(2) a0(2,3) time by (auto simp: deadline_def split: if_splits)
    from dialBefore_tcp [OF this] that show thesis unfolding a0(3) addr_def by auto
  qed
  obtain c w3 where a1: "connectVersion codecs nw cl addr deadline protocolVersionV2 w1 = Some (Inr (c, net1), w3)"
      "c_conn c = Some 1" "c_config c = cfgC" "dw_closed w3 = dw_closed w1"
    using d1 h1 cfg(2)
    by (simp add: connectVersion_def Let_def dw_talk_def dw_setDeadline_def startWithConfig_def start_def newPendingConnection_def)
  have "connectAttempt codecs nw cl addr True deadline w = Some (Inr (c, net1), w3)"
    by (simp add: connectAttempt_def a0(1) a1(1))
  then have "connect codecs nw cl addr True w = Some (Inr (c, net1), w3)"
    by (simp add: connect_def Let_def connectLoop.simps flip: deadline_def)
  with a0 a1 cfg h1(2) show ?thesis unfolding addr_def by simp
qed

theorem connect_falls_back_witness:
  "\<exists>c net w'. connect sampleCodecs'' plainNetwork sampleClient ''tcp://h:1'' True startWorld = Some (Inr (c, net), w') \<and>
     c_conn c = Some 1 \<and> cfg_version (c_config c) = protocolVersionV2"
proof -
  let ?hs = "\<lambda>v. handshakeServer sampleCodecs'' (sampleConn\<lparr>nc_in := handshakeRequest (cl_codecs sampleClient) (cl_maxFrame sampleClient) v\<rparr>) [1] 100 False"
  have C: "validateCodecList sampleCodecs'' (cl_codecs sampleClient) = None" "validateCodecList sampleCodecs'' [1] = None"
    "selectCodec (cl_codecs sampleClient) [1] = Some 1" "nc_room sampleConn = None" "nc_out sampleConn = []"
    "cl_connectTimeout sampleClient = 0" "dw_dials startWorld = 0" by code_simp+
  have o: "nc_out (snd (?hs protocolVersionV3)) = handshakeReply 0 2 0 0"
    "nc_out (snd (?hs protocolVersionV2)) = handshakeReply 1 2 1 100" by code_simp+
  have d: "nw_dial plainNetwork 0 net a t = Inr (sampleConn\<lparr>nc_in := nc_out (snd (?hs protocolVersionV3))\<rparr>)"
    "nw_dial plainNetwork 1 net a t = Inr (sampleConn\<lparr>nc_in := nc_out (snd (?hs protocolVersionV2)) @ []\<rparr>)" for net a t
    unfolding o by (simp_all add: plainNetwork_def)
  have w: "world_ok startWorld" by (simp add: world_ok_def startWorld_def)
  from connect_falls_back [OF C(1-3) C(4,4,4,4) C(5,5) prod.collapse [symmetric] prod.collapse [symmetric] d _ C(7) w, of "''h:1''"] C(6)
  show ?thesis by auto
qed

end
