(* ===== verification/Server_Lifecycle.thy ===== *)
theory Server_Lifecycle
  imports Server
begin

text \<open>
  The life of a server, over the operations of \<open>Server\<close>. \<open>server_step\<close> interleaves listening,
  accepting, the stages of the connection goroutines, \<^verbatim>\<open>Shutdown\<close> and the closers it starts with
  anything the connections do. The invariant \<open>server_ok\<close> says that no running connection escapes
  \<^verbatim>\<open>Shutdown\<close>, that the wait group counts the goroutines, and that the recovery table names open
  connections under their own ids.
\<close>

section \<open>The table of recoverable connections\<close>

text \<open>Every entry names an open connection of this server with that id.\<close>

definition table_ok :: "('m, 'b, 'h) Server \<Rightarrow> bool" where
  "table_ok s \<longleftrightarrow>
     (\<forall>i ref. map_of (sv_recoveryConns s) i = Some ref \<longrightarrow>
        ref < length (sv_heap s) \<and> \<not> c_closed (sv_heap s ! ref) \<and> belongs (sv_heap s ! ref) \<and>
        (\<exists>r. c_recovery (sv_heap s ! ref) = Some r \<and> r_connectionID r = i))"

lemma table_okD:
  assumes "table_ok s" "map_of (sv_recoveryConns s) i = Some ref"
  shows "ref < length (sv_heap s)" "\<not> c_closed (sv_heap s ! ref)" "belongs (sv_heap s ! ref)"
    "\<exists>r. c_recovery (sv_heap s ! ref) = Some r \<and> r_connectionID r = i"
  using assms by (auto simp: table_ok_def)

lemma removeRecoveryConnection_more [simp]:
  "sv_heap (removeRecoveryConnection i ref s) = sv_heap s" "sv_stopping (removeRecoveryConnection i ref s) = sv_stopping s"
  "sv_conns (removeRecoveryConnection i ref s) = sv_conns s" "sv_closers (removeRecoveryConnection i ref s) = sv_closers s"
  "sv_tasks (removeRecoveryConnection i ref s) = sv_tasks s" "sv_running (removeRecoveryConnection i ref s) = sv_running s"
  "sv_handshakes (removeRecoveryConnection i ref s) = sv_handshakes s"
  "sv_closedNets (removeRecoveryConnection i ref s) = sv_closedNets s"
  "sv_listeners (removeRecoveryConnection i ref s) = sv_listeners s"
  "sv_closedListeners (removeRecoveryConnection i ref s) = sv_closedListeners s"
  by (simp_all add: removeRecoveryConnection_def split: option.split)

lemma removeRecoveryConnection_map:
  "map_of (sv_recoveryConns (removeRecoveryConnection i ref s)) j = Some r \<Longrightarrow>
     map_of (sv_recoveryConns s) j = Some r \<and> (j = i \<longrightarrow> r \<noteq> ref)"
  by (auto simp: removeRecoveryConnection_def AList.delete_conv split: option.splits if_splits)

lemma updConn_more [simp]:
  "sv_stopping (updConn ref f s) = sv_stopping s" "sv_conns (updConn ref f s) = sv_conns s"
  "sv_closers (updConn ref f s) = sv_closers s" "sv_tasks (updConn ref f s) = sv_tasks s"
  "sv_running (updConn ref f s) = sv_running s" "sv_handshakes (updConn ref f s) = sv_handshakes s"
  "sv_closedNets (updConn ref f s) = sv_closedNets s" "sv_listeners (updConn ref f s) = sv_listeners s"
  "sv_closedListeners (updConn ref f s) = sv_closedListeners s"
  "sv_heap (updConn ref f s) = (sv_heap s)[ref := f (sv_heap s ! ref)]"
  by (simp_all add: updConn_def Let_def split: option.split)

lemma updConn_map:
  assumes "map_of (sv_recoveryConns (updConn ref f s)) j = Some r"
  shows "map_of (sv_recoveryConns s) j = Some r \<and>
         (\<forall>rec. c_recovery (f (sv_heap s ! ref)) = Some rec \<and> c_serverForgets (f (sv_heap s ! ref)) \<and>
            r_connectionID rec = j \<longrightarrow> r \<noteq> ref)"
  using assms removeRecoveryConnection_map [of _ ref "s\<lparr>sv_heap := (sv_heap s)[ref := f (sv_heap s ! ref)]\<rparr>" j r]
  by (auto simp: updConn_def Let_def split: option.splits if_splits)

lemma updConn_table:
  assumes ok: "table_ok s" and keeps: "conn_same (sv_heap s ! ref) (f (sv_heap s ! ref))"
  shows "table_ok (updConn ref f s)"
proof -
  let ?c = "sv_heap s ! ref" and ?c' = "f (sv_heap s ! ref)"
  have "r < length (sv_heap s) \<and> \<not> c_closed ((sv_heap s)[ref := ?c'] ! r) \<and> belongs ((sv_heap s)[ref := ?c'] ! r) \<and>
      (\<exists>rec. c_recovery ((sv_heap s)[ref := ?c'] ! r) = Some rec \<and> r_connectionID rec = i)"
    if m: "map_of (sv_recoveryConns (updConn ref f s)) i = Some r" for i r
  proof (cases "r = ref")
    case False
    with table_okD [OF ok] updConn_map [OF m] show ?thesis by simp
  next
    case True
    note o = table_okD [OF ok conjunct1 [OF updConn_map [OF m]]]
    from o(4) True obtain rec where rec: "c_recovery ?c = Some rec" "r_connectionID rec = i" by auto
    obtain rec' where rec': "c_recovery ?c' = Some rec'" "r_connectionID rec' = i"
      using identity_recovery [OF conn_sameD(1) [OF keeps] rec(1)] rec(2) by metis
    have "\<not> c_serverForgets ?c'" using updConn_map [OF m] rec' True by blast
    with o(2,3) True have "\<not> c_closed ?c'" using conn_sameD(4) [OF keeps] by blast
    moreover have "belongs ?c'" using o(3) True conn_sameD(2) [OF keeps] by simp
    ultimately show ?thesis using o(1) rec' True by simp
  qed
  then show ?thesis by (simp add: table_ok_def)
qed

lemma table_ok_cong:
  "table_ok s \<Longrightarrow> sv_recoveryConns s' = sv_recoveryConns s \<Longrightarrow> sv_heap s' = sv_heap s \<Longrightarrow> table_ok s'"
  by (simp add: table_ok_def)

text \<open>A new connection enters the table only under its own id.\<close>

lemma table_ok_new:
  assumes ok: "table_ok s" and c: "\<not> c_closed c"
  shows "table_ok (snd (newConn c s))"
    and "belongs c \<Longrightarrow> c_recovery c = Some r \<Longrightarrow> r_connectionID r = i \<Longrightarrow>
           table_ok (storeRecoveryConnection i (fst (newConn c s)) (snd (newConn c s)))"
  using table_okD [OF ok] c
  by (auto simp: table_ok_def newConn_def storeRecoveryConnection_def AList.update_conv' nth_append split: if_splits)
     (meson less_SucI)+

section \<open>Steps of a server\<close>

text \<open>How the attach and handshake code changes the server besides its own task: connections stay
  the same connections, and new ones are added, of which only \<open>new\<close> may be running.\<close>

definition server_grows :: "connRef option \<Rightarrow> ('m, 'b, 'h) Server \<Rightarrow> ('m, 'b, 'h) Server \<Rightarrow> bool" where
  "server_grows new s s' \<longleftrightarrow>
     sv_stopping s' = sv_stopping s \<and> sv_conns s' = sv_conns s \<and> sv_closers s' = sv_closers s \<and>
     sv_tasks s' = sv_tasks s \<and> sv_running s' = sv_running s \<and> sv_handshakes s' = sv_handshakes s \<and>
     set (sv_closedNets s) \<subseteq> set (sv_closedNets s') \<and> sv_listeners s' = sv_listeners s \<and>
     sv_closedListeners s' = sv_closedListeners s \<and> length (sv_heap s) \<le> length (sv_heap s') \<and>
     (\<forall>ref < length (sv_heap s). conn_keeps (sv_heap s ! ref) (sv_heap s' ! ref)) \<and>
     (\<forall>ref < length (sv_heap s'). length (sv_heap s) \<le> ref \<longrightarrow>
        new = Some ref \<or> \<not> started (sv_heap s' ! ref)) \<and>
     (\<forall>ref. new = Some ref \<longrightarrow> length (sv_heap s) \<le> ref \<and> ref < length (sv_heap s')) \<and>
     (table_ok s \<longrightarrow> table_ok s')"
lemma start_started: "started (start c)"
  by (simp add: started_def start_def)

lemma pendingConnection_plain [simp]:
  "c_closed (pendingConnection n s) = False" "c_spawned (pendingConnection n s) = []"
  "c_serverForgets (pendingConnection n s) = False"
  by (simp_all add: pendingConnection_def newPendingConnection_def)

lemma attachTransport_spawned [simp]: "c_spawned (attachTransport now n q c) = c_spawned c"
  by (auto simp: attachTransport_def Let_def split: option.splits)

lemma markClosed_spawned [simp]: "c_spawned (markClosed c) = c_spawned c"
  by (simp add: markClosed_def closeAllStreams_def onClosed_keeps)

lemma closeServerNet_grows: "server_grows None s (closeServerNet n s)"
  by (auto simp: server_grows_def closeServerNet_def conn_keeps_refl intro: table_ok_cong)

lemma setDeadline_more [simp]:
  "sv_heap (setDeadline n t s) = sv_heap s" "sv_recoveryConns (setDeadline n t s) = sv_recoveryConns s"
  "sv_stopping (setDeadline n t s) = sv_stopping s" "sv_conns (setDeadline n t s) = sv_conns s"
  "sv_closers (setDeadline n t s) = sv_closers s" "sv_tasks (setDeadline n t s) = sv_tasks s"
  "sv_running (setDeadline n t s) = sv_running s" "sv_handshakes (setDeadline n t s) = sv_handshakes s"
  "sv_closedNets (setDeadline n t s) = sv_closedNets s" "sv_listeners (setDeadline n t s) = sv_listeners s"
  "sv_closedListeners (setDeadline n t s) = sv_closedListeners s" "sv_onConnect (setDeadline n t s) = sv_onConnect s"
  "sv_recovery (setDeadline n t s) = sv_recovery s"
  by (simp_all add: setDeadline_def)

lemma setDeadline_grows: "server_grows None s (setDeadline n t s)"
  by (auto simp: server_grows_def conn_keeps_refl intro: table_ok_cong)

lemma callOnConnect_grows: "server_grows None s (snd (callOnConnect peer s))"
  by (auto simp: server_grows_def callOnConnect_def conn_keeps_refl split: option.splits intro: table_ok_cong)

lemma updConn_grows:
  assumes "conn_keeps (sv_heap s ! ref) (f (sv_heap s ! ref))"
  shows "server_grows None s (updConn ref f s)"
  using assms
  by (cases "ref < length (sv_heap s)")
     (auto simp: server_grows_def nth_list_update list_update_beyond conn_keeps_refl intro: updConn_table conn_keepsD(1))

lemma removeRecoveryConnection_grows: "server_grows None s (removeRecoveryConnection i ref s)"
  by (auto simp: server_grows_def conn_keeps_refl table_ok_def dest!: removeRecoveryConnection_map)

lemma newConn_grows:
  assumes "\<not> c_closed c" "new = Some (length (sv_heap s)) \<or> (new = None \<and> \<not> started c)"
  shows "server_grows new s (snd (newConn c s))"
  using assms table_ok_new(1) [of s c]
  by (auto simp: server_grows_def newConn_def nth_append conn_keeps_refl)

lemma server_grows_refl: "server_grows None s s"
  by (simp add: server_grows_def conn_keeps_refl)

lemma server_grows_trans:
  assumes a: "server_grows a s s1" and b: "server_grows b s1 s2" and n: "new = a \<and> b = None \<or> a = None \<and> new = b"
  shows "server_grows new s s2"
proof -
  have keeps: "conn_keeps (sv_heap s ! ref) (sv_heap s2 ! ref)" if "ref < length (sv_heap s)" for ref
    using that a b by (auto simp: server_grows_def intro: conn_keeps_trans [of _ "sv_heap s1 ! ref"])
  have fresh: "new = Some ref \<or> \<not> started (sv_heap s2 ! ref)"
    if r: "ref < length (sv_heap s2)" "length (sv_heap s) \<le> ref" for ref
  proof (cases "ref < length (sv_heap s1)")
    case True
    with r a have "a = Some ref \<or> \<not> started (sv_heap s1 ! ref)" by (auto simp: server_grows_def)
    moreover from True b have "started (sv_heap s2 ! ref) = started (sv_heap s1 ! ref)"
      by (auto simp: server_grows_def dest: conn_keepsD(2))
    ultimately show ?thesis using n by auto
  next
    case False
    with r b have "b = Some ref \<or> \<not> started (sv_heap s2 ! ref)" by (auto simp: server_grows_def)
    with n show ?thesis by auto
  qed
  have bound: "length (sv_heap s) \<le> ref \<and> ref < length (sv_heap s2)" if "new = Some ref" for ref
    using that n a b by (auto simp: server_grows_def)
  have "set (sv_closedNets s) \<subseteq> set (sv_closedNets s2)" using a b by (auto simp: server_grows_def)
  with a b keeps fresh bound show ?thesis by (simp add: server_grows_def)
qed

lemma start_grows:
  assumes "server_grows None s s1" "length (sv_heap s) \<le> ref" "ref < length (sv_heap s1)"
  shows "server_grows (Some ref) s (updConn ref start s1)"
  using assms start_same [of "sv_heap s1 ! ref"] updConn_table [of s1 ref start]
  by (auto simp: server_grows_def nth_list_update)

lemmas grow_then = server_grows_trans [of None _ _ None _ None, simplified]

text \<open>\<^verbatim>\<open>attachNew\<close>: on success the connection it returns is new and running; otherwise nothing runs.\<close>

lemma attachNew_grows:
  assumes "attachNew now random1 random2 n net peer cfg s = (res, net', s')"
  shows "server_grows (case res of Inl _ \<Rightarrow> None | Inr ref \<Rightarrow> Some ref) s s'"
proof -
  consider (fail) e where "res = Inl e" "s' = s"
    | (token) i secret where "newRecoveryToken random1 = Inr i" "newRecoveryToken random2 = Inr secret"
    using assms by (auto simp: attachNew_def split: sum.splits)
  then show ?thesis
  proof cases
    case fail
    then show ?thesis by (simp add: server_grows_refl)
  next
    case token
    let ?r = "newServerRecoveryState (sv_recovery s) True i secret"
    let ?c = "(pendingConnection n s)\<lparr>c_config := cfg, c_recovery := Some ?r\<rparr>"
    let ?ref = "length (sv_heap s)"
    let ?s2 = "storeRecoveryConnection i ?ref (snd (newConn ?c s))"
    let ?s3 = "updConn ?ref (attachTransport now n 0) (setDeadline n None ?s2)"
    have r: "r_connectionID ?r = i" "r_role ?r = recoveryRoleServer" "r_server ?r"
      by (simp_all add: newServerRecoveryState_def setNegotiated_def zeroRecoveryState_def Let_def)
    have l2: "length (sv_heap ?s2) = Suc ?ref" by (simp add: storeRecoveryConnection_def newConn_def)
    have g2: "server_grows None s ?s2"
    proof -
      have c: "\<not> c_closed ?c" "\<not> started ?c" "belongs ?c"
        by (simp_all add: started_def belongs_def r)
      have "table_ok s \<Longrightarrow> table_ok ?s2"
        using table_ok_new(2) [OF _ c(1,3), of s ?r i] by (simp add: r newConn_def)
      then show ?thesis using c by (auto simp: server_grows_def storeRecoveryConnection_def newConn_def nth_append conn_keeps_refl)
    qed
    have "server_grows None ?s2 ?s3"
      by (rule grow_then [OF setDeadline_grows updConn_grows]) (simp_all add: attachTransport_keeps)
    with g2 have g3: "server_grows None s ?s3" by (rule grow_then)
    obtain err s4 where cb: "callOnConnect peer ?s3 = (err, s4)" by (cases "callOnConnect peer ?s3")
    with callOnConnect_grows [of ?s3 peer] have g4: "server_grows None s s4" by (auto intro: grow_then [OF g3])
    have l4: "length (sv_heap s4) = Suc ?ref" using cb l2 by (auto simp: callOnConnect_def split: option.splits)
    have m: "server_grows None s (updConn ?ref markClosed s4)"
      by (rule grow_then [OF g4 updConn_grows]) (simp_all add: markClosed_keeps)
    have st: "server_grows (Some ?ref) s (updConn ?ref start s4)" by (rule start_grows [OF g4]) (simp_all add: l4)
    have rm: "server_grows None s (removeRecoveryConnection i ?ref ?s2)"
      by (rule grow_then [OF g2 removeRecoveryConnection_grows])
    obtain w net1 where w: "writeAttachResponse net \<lparr>rs_status = attachStatusOK, rs_connectionID = i,
        rs_resumeSecret = secret, rs_lastRecvSeq = 0, rs_negotiated = negotiated (sv_recovery s)\<rparr> = (w, net1)"
      by (cases "writeAttachResponse net \<lparr>rs_status = attachStatusOK, rs_connectionID = i,
        rs_resumeSecret = secret, rs_lastRecvSeq = 0, rs_negotiated = negotiated (sv_recovery s)\<rparr>")
    show ?thesis
      using assms m st rm cb
      by (cases w; cases err) (auto simp: attachNew_def token w newConn_def Let_def)
  qed
qed

lemma attachResume_grows:
  assumes "attachResume now n net cfg req s = (err, net', s')"
  shows "server_grows None s s'"
proof -
  have "s' = s \<or> (\<exists>ref. s' = updConn ref (attachTransport now n (rq_lastRecvSeq req)) (setDeadline n None s))"
    using assms by (auto simp: attachResume_def Let_def split: option.splits if_splits prod.splits)
  moreover have "server_grows None s (updConn ref (attachTransport now n q) (setDeadline n None s))" for ref q
    by (rule grow_then [OF setDeadline_grows updConn_grows]) (simp_all add: attachTransport_keeps)
  ultimately show ?thesis using server_grows_refl by auto
qed

lemma handleRecoveryConn_grows:
  assumes "handleRecoveryConn now random1 random2 n net peer cfg s = (res, net', s')"
  shows "server_grows (case res of Inr (Some ref) \<Rightarrow> Some ref | _ \<Rightarrow> None) s s'"
proof -
  obtain rq net1 where rq: "readAttachRequest net = (rq, net1)" by (cases "readAttachRequest net")
  obtain r2 n2 s2 where an: "attachNew now random1 random2 n net1 peer cfg s = (r2, n2, s2)"
    by (cases "attachNew now random1 random2 n net1 peer cfg s")
  show ?thesis
  proof (cases rq)
    case (Inr req)
    obtain e3 n3 s3 where ar: "attachResume now n net1 cfg req s = (e3, n3, s3)"
      by (cases "attachResume now n net1 cfg req s")
    from assms Inr rq an ar attachNew_grows [OF an] attachResume_grows [OF ar] show ?thesis
      by (auto simp: handleRecoveryConn_def rejectAttach_def server_grows_refl split: if_splits sum.splits option.splits)
  qed (use assms rq in \<open>auto simp: handleRecoveryConn_def server_grows_refl\<close>)
qed
text \<open>\<^verbatim>\<open>handleConn\<close>: the goroutine ends, or goes on to track a new, running connection.\<close>

lemma handleConn_effect:
  assumes "handleConn codecs now random1 random2 n peer net s = (net', s')"
  shows "(\<exists>s1. server_grows None s s1 \<and> s' = taskEnds' (Handshaking n peer) (endHandshake n s1)) \<or>
         (\<exists>s1 ref b. server_grows (Some ref) s s1 \<and> s' = taskBecomes (Handshaking n peer) (Tracking ref n peer b) s1)"
proof -
  let ?s1 = "if sv_handshakeTimeout s > 0 then setDeadline n (Some (now + sv_handshakeTimeout s)) s else s"
  have g1: "server_grows None s ?s1" by (simp add: setDeadline_grows server_grows_refl)
  obtain hs net1 where h: "handshakeServer codecs net (sv_codecs ?s1) (sv_maxFrame ?s1) (so_Enable (sv_recovery ?s1)) = (hs, net1)"
    by (cases "handshakeServer codecs net (sv_codecs ?s1) (sv_maxFrame ?s1) (so_Enable (sv_recovery ?s1))")
  show ?thesis
  proof (cases hs)
    case (Inl e)
    with assms h grow_then [OF g1 closeServerNet_grows] show ?thesis by (auto simp: handleConn_def Let_def)
  next
    case (Inr cfg)
    show ?thesis
    proof (cases "cfg_version cfg = protocolVersionV3")
      case True
      obtain res net2 s2 where r: "handleRecoveryConn now random1 random2 n net1 peer cfg ?s1 = (res, net2, s2)"
        by (cases "handleRecoveryConn now random1 random2 n net1 peer cfg ?s1")
      note g2 = server_grows_trans [OF g1 handleRecoveryConn_grows [OF r]]
      from assms h Inr True r g2 grow_then [OF _ closeServerNet_grows, of s s2] show ?thesis
        by (auto simp: handleConn_def Let_def split: sum.splits option.splits) blast
    next
      case False
      let ?s2 = "setDeadline n None ?s1"
      have g2: "server_grows None s ?s2" by (rule grow_then [OF g1 setDeadline_grows])
      obtain err s3 where c: "callOnConnect peer ?s2 = (err, s3)" by (cases "callOnConnect peer ?s2")
      with callOnConnect_grows [of ?s2 peer] have g3: "server_grows None s s3" by (auto intro: grow_then [OF g2])
      let ?c = "startWithConfig cfg (pendingConnection n ?s2)"
      have "\<not> c_closed ?c" by (simp add: startWithConfig_def start_def)
      then have "server_grows (Some (length (sv_heap s3))) s (snd (newConn ?c s3))"
        by (intro server_grows_trans [OF g3 newConn_grows]) simp_all
      with assms h Inr False c grow_then [OF g3 closeServerNet_grows, of n] show ?thesis
        by (cases err) (auto simp: handleConn_def Let_def newConn_def)
    qed
  qed
qed

fun taskNets :: "serverTask \<Rightarrow> nat list" where
  "taskNets (Handshaking n peer) = [n]"
| "taskNets (Tracking ref n peer b) = [n]"
| "taskNets (Awaiting ref peer None) = []"
| "taskNets (Awaiting ref peer (Some n)) = [n]"

definition close_keeps :: "('m, 'b, 'h) closeWait \<Rightarrow> bool" where
  "close_keeps oc \<longleftrightarrow> (\<forall>c. conn_keeps c (cw_env oc c)) \<and> (\<forall>c. conn_keeps c (cw_env' oc c))"

text \<open>The steps: listening, accepting a transport that is not in use, each stage of the goroutines,
  \<^verbatim>\<open>Shutdown\<close>, the closers it starts, and anything the goroutines of a connection do.\<close>

inductive server_step :: "('m, 'b, 'h) Server \<Rightarrow> ('m, 'b, 'h) Server \<Rightarrow> bool" where
  st_serve: "server_step s (snd (serveBegin l s))"
| st_unserve: "server_step s (serveEnd l s)"
| st_accept: "(\<And>n peer. accept = Inr (n, peer) \<Longrightarrow> \<forall>t \<in> set (sv_tasks s). n \<notin> set (taskNets t)) \<Longrightarrow>
     (next', s') \<in> set (acceptStep (\<lambda>s. s) backoff accept s) \<Longrightarrow> server_step s s'"
| st_handle: "Handshaking n peer \<in> set (sv_tasks s) \<Longrightarrow>
     server_step s (snd (handleConn codecs now random1 random2 n peer net s))"
| st_track: "Tracking ref n peer b \<in> set (sv_tasks s) \<Longrightarrow> close_keeps oc \<Longrightarrow>
     s' \<in> set (handleTracked oc ref n peer b s) \<Longrightarrow> server_step s s'"
| st_await: "Awaiting ref peer n \<in> set (sv_tasks s) \<Longrightarrow> s' \<in> set (awaitClose ref peer n s) \<Longrightarrow> server_step s s'"
| st_shutdown: "server_step s (Shutdown s)"
| st_close: "ref \<in> set (sv_closers s) \<Longrightarrow> close_keeps oc \<Longrightarrow> s1 \<in> set (closeConn oc ref s) \<Longrightarrow>
     server_step s (s1\<lparr>sv_closers := removeAll ref (sv_closers s1)\<rparr>)"
| st_conn: "ref < length (sv_heap s) \<Longrightarrow> conn_step (sv_heap s ! ref) c' \<Longrightarrow>
     server_step s (updConn ref (\<lambda>_. c') s)"

inductive_cases server_stepE: "server_step s s'"

section \<open>The invariant\<close>

text \<open>A connection that \<^verbatim>\<open>Shutdown\<close> closes, or has set out to close.\<close>

definition covered :: "('m, 'b, 'h) Server \<Rightarrow> connRef \<Rightarrow> bool" where
  "covered s ref \<longleftrightarrow> ref \<in> set (sv_conns s) \<and> (sv_stopping s \<longrightarrow> ref \<in> set (sv_closers s))"

fun task_ok :: "('m, 'b, 'h) Server \<Rightarrow> serverTask \<Rightarrow> bool" where
  "task_ok s (Handshaking n peer) \<longleftrightarrow>
     n \<in> set (sv_handshakes s) \<and> (sv_stopping s \<longrightarrow> n \<in> set (sv_closedNets s))"
| "task_ok s (Tracking ref n peer b) \<longleftrightarrow> ref < length (sv_heap s)"
| "task_ok s (Awaiting ref peer n) \<longleftrightarrow>
     ref < length (sv_heap s) \<and> (c_closed (sv_heap s ! ref) \<or> covered s ref)"

definition is_tracking :: "connRef \<Rightarrow> serverTask \<Rightarrow> bool" where
  "is_tracking ref t \<longleftrightarrow> (\<exists>n peer b. t = Tracking ref n peer b)"

definition conn_ok :: "('m, 'b, 'h) Server \<Rightarrow> connRef \<Rightarrow> bool" where
  "conn_ok s ref \<longleftrightarrow>
     (started (sv_heap s ! ref) \<and> \<not> c_closed (sv_heap s ! ref) \<longrightarrow>
        covered s ref \<or> (\<exists>t \<in> set (sv_tasks s). is_tracking ref t))"

definition server_ok :: "('m, 'b, 'h) Server \<Rightarrow> bool" where
  "server_ok s \<longleftrightarrow>
     sv_running s = int (length (sv_tasks s)) \<and> distinct (concat (map taskNets (sv_tasks s))) \<and>
     (\<forall>t \<in> set (sv_tasks s). task_ok s t) \<and> (\<forall>ref < length (sv_heap s). conn_ok s ref) \<and>
     (sv_stopping s \<longrightarrow> set (sv_listeners s) \<subseteq> set (sv_closedListeners s)) \<and> table_ok s"

lemma NewServer_ok: "server_ok (NewServer reg)"
  by (simp add: server_ok_def NewServer_def table_ok_def)

lemma concat_remove1:
  assumes "t \<in> set ts"
  shows "set (concat (map f ts)) = set (f t) \<union> set (concat (map f (remove1 t ts)))"
    and "distinct (concat (map f ts)) \<longleftrightarrow> distinct (f t @ concat (map f (remove1 t ts)))"
proof -
  show 1: "set (concat (map f ts)) = set (f t) \<union> set (concat (map f (remove1 t ts)))"
    using assms by (induction ts) auto
  show "distinct (concat (map f ts)) \<longleftrightarrow> distinct (f t @ concat (map f (remove1 t ts)))"
    using assms
  proof (induction ts)
    case (Cons x xs)
    show ?case
    proof (cases "x = t")
      case False
      with Cons have t: "t \<in> set xs" by simp
      have "set (concat (map f xs)) = set (f t) \<union> set (concat (map f (remove1 t xs)))"
        using t by (induction xs) auto
      with Cons.IH [OF t] False show ?thesis by auto
    qed simp
  qed simp
qed

lemma task_ok_mono:
  assumes "task_ok s t" "sv_stopping s' = sv_stopping s" "set (sv_conns s) \<subseteq> set (sv_conns s')"
    "set (sv_closers s) \<subseteq> set (sv_closers s')" "set (sv_closedNets s) \<subseteq> set (sv_closedNets s')"
    "length (sv_heap s) \<le> length (sv_heap s')" "set (taskNets t) \<inter> set (sv_handshakes s) \<subseteq> set (sv_handshakes s')"
    "\<And>ref. ref < length (sv_heap s) \<Longrightarrow> c_closed (sv_heap s ! ref) \<Longrightarrow> c_closed (sv_heap s' ! ref)"
  shows "task_ok s' t"
  using assms by (cases t) (auto simp: covered_def)

text \<open>The middle of the handshake: connections change as connections do, new ones are not running.\<close>

lemma server_ok_grows:
  assumes ok: "server_ok s" and g: "server_grows new s s'"
  shows "sv_running s' = int (length (sv_tasks s'))" "distinct (concat (map taskNets (sv_tasks s')))"
    "\<forall>t \<in> set (sv_tasks s'). task_ok s' t" "\<forall>ref < length (sv_heap s'). new \<noteq> Some ref \<longrightarrow> conn_ok s' ref"
    "sv_stopping s' \<longrightarrow> set (sv_listeners s') \<subseteq> set (sv_closedListeners s')" "table_ok s'"
proof -
  have closed: "c_closed (sv_heap s' ! ref)" if "ref < length (sv_heap s)" "c_closed (sv_heap s ! ref)" for ref
    using that g conn_sameD(3) [OF conn_keepsD(1)] by (auto simp: server_grows_def)
  have st: "started (sv_heap s' ! ref) = started (sv_heap s ! ref)" if "ref < length (sv_heap s)" for ref
    using that g conn_keepsD(2) by (auto simp: server_grows_def)
  show "sv_running s' = int (length (sv_tasks s'))" "distinct (concat (map taskNets (sv_tasks s')))"
    "sv_stopping s' \<longrightarrow> set (sv_listeners s') \<subseteq> set (sv_closedListeners s')" "table_ok s'"
    using ok g by (simp_all add: server_ok_def server_grows_def)
  show "\<forall>t \<in> set (sv_tasks s'). task_ok s' t"
  proof
    fix t assume "t \<in> set (sv_tasks s')"
    with ok g have "task_ok s t" by (simp add: server_ok_def server_grows_def)
    then show "task_ok s' t" by (rule task_ok_mono) (use g closed in \<open>simp_all add: server_grows_def\<close>)
  qed
  show "\<forall>ref < length (sv_heap s'). new \<noteq> Some ref \<longrightarrow> conn_ok s' ref"
  proof (intro allI impI)
    fix ref assume r: "ref < length (sv_heap s')" "new \<noteq> Some ref"
    show "conn_ok s' ref"
    proof (cases "ref < length (sv_heap s)")
      case True
      with ok have "conn_ok s ref" by (simp add: server_ok_def)
      with st [OF True] closed [OF True] g show ?thesis by (auto simp: conn_ok_def covered_def server_grows_def)
    next
      case False
      with r g have "\<not> started (sv_heap s' ! ref)" by (auto simp: server_grows_def)
      then show ?thesis by (simp add: conn_ok_def)
    qed
  qed
qed

lemma server_ok_grows_None: "server_ok s \<Longrightarrow> server_grows None s s' \<Longrightarrow> server_ok s'"
  using server_ok_grows [of s None s'] unfolding server_ok_def by blast

lemma other_task:
  assumes "distinct (concat (map taskNets ts))" "t \<in> set ts" "t' \<in> set (remove1 t ts)" "n \<in> set (taskNets t)"
  shows "n \<notin> set (taskNets t')"
  using assms concat_remove1(2) [OF assms(2), of taskNets] by auto

text \<open>A goroutine that ends or goes on, with its handshake forgotten or not.\<close>

lemma task_removed:
  assumes ok: "server_ok s" and t: "t \<in> set (sv_tasks s)" and h: "hs = [] \<or> set hs \<subseteq> set (taskNets t)"
    and s1: "s1 = s\<lparr>sv_handshakes := filter (\<lambda>n. n \<notin> set hs) (sv_handshakes s)\<rparr>"
    and t': "t' \<in> set (remove1 t (sv_tasks s))"
  shows "task_ok s1 t'"
proof -
  from t' set_remove1_subset have "t' \<in> set (sv_tasks s)" by fastforce
  with ok have o: "task_ok s t'" by (simp add: server_ok_def)
  have "n \<notin> set hs" if "n \<in> set (taskNets t')" for n
    using that h other_task [OF _ t t', of n] ok by (auto simp: server_ok_def)
  with o show ?thesis by (intro task_ok_mono [OF o]) (auto simp: s1)
qed

lemma removeAll_filter: "removeAll n xs = filter (\<lambda>m. m \<notin> set [n]) xs"
  by (induction xs) auto

lemma is_tracking_remove1:
  "\<not> is_tracking ref t \<Longrightarrow> (\<exists>u \<in> set (remove1 t ts). is_tracking ref u) \<longleftrightarrow> (\<exists>u \<in> set ts. is_tracking ref u)"
  by (induction ts) auto

lemma task_ok_tasks [simp]:
  "task_ok (s\<lparr>sv_tasks := ts\<rparr>) t = task_ok s t" "task_ok (s\<lparr>sv_running := k\<rparr>) t = task_ok s t"
  by (cases t; simp add: covered_def)+

lemma handshakes_more [simp]:
  "conn_ok (s\<lparr>sv_handshakes := h\<rparr>) x = conn_ok s x" "covered (s\<lparr>sv_handshakes := h\<rparr>) x = covered s x"
  by (simp_all add: conn_ok_def covered_def)

lemma taskEnds_ok:
  assumes ok: "server_ok s" and t: "t \<in> set (sv_tasks s)" and h: "hs = [] \<or> set hs \<subseteq> set (taskNets t)"
    and nt: "\<And>ref. \<not> is_tracking ref t"
  shows "server_ok (taskEnds' t (s\<lparr>sv_handshakes := filter (\<lambda>n. n \<notin> set hs) (sv_handshakes s)\<rparr>))" (is "server_ok ?s'")
proof -
  let ?s1 = "s\<lparr>sv_handshakes := filter (\<lambda>n. n \<notin> set hs) (sv_handshakes s)\<rparr>"
  have "task_ok ?s' t'" if "t' \<in> set (remove1 t (sv_tasks s))" for t'
    using task_removed [OF ok t h refl that] by (simp add: taskEnds'_def)
  moreover have "conn_ok ?s' ref" if "ref < length (sv_heap s)" for ref
    using that ok is_tracking_remove1 [OF nt]
    by (auto simp: server_ok_def conn_ok_def covered_def taskEnds'_def)
  moreover have "distinct (concat (map taskNets (remove1 t (sv_tasks s))))"
    using ok concat_remove1(2) [OF t, of taskNets] by (simp add: server_ok_def)
  moreover have "sv_running s - 1 = int (length (remove1 t (sv_tasks s)))"
  proof -
    have "length (sv_tasks s) = Suc (length (remove1 t (sv_tasks s)))"
      using length_pos_if_in_set [OF t] t by (simp add: length_remove1)
    then show ?thesis using ok by (simp add: server_ok_def)
  qed
  ultimately show ?thesis using ok
    by (auto simp: server_ok_def taskEnds'_def intro: table_ok_cong)
qed

lemma taskBecomes_ok:
  assumes run: "sv_running s = int (length (sv_tasks s))" and d: "distinct (concat (map taskNets (sv_tasks s)))"
    and rest: "\<forall>u \<in> set (remove1 t (sv_tasks s)). task_ok s u"
    and conns: "\<forall>ref < length (sv_heap s). is_tracking ref t' \<or> (conn_ok s ref \<and> (is_tracking ref t \<longrightarrow> covered s ref \<or> c_closed (sv_heap s ! ref)))"
    and l: "sv_stopping s \<longrightarrow> set (sv_listeners s) \<subseteq> set (sv_closedListeners s)" "table_ok s"
    and t: "t \<in> set (sv_tasks s)" and t': "task_ok s t'" "set (taskNets t') \<subseteq> set (taskNets t)" "distinct (taskNets t')"
  shows "server_ok (taskBecomes t t' s)" (is "server_ok ?s'")
proof -
  have "task_ok ?s' u" if "u \<in> set (t' # remove1 t (sv_tasks s))" for u
    using that rest t'(1) by (auto simp: taskBecomes_def)
  moreover have "conn_ok ?s' ref" if r: "ref < length (sv_heap s)" for ref
  proof (cases "is_tracking ref t'")
    case True
    then show ?thesis by (auto simp: conn_ok_def taskBecomes_def)
  next
    case False
    with conns r have c: "conn_ok s ref" "is_tracking ref t \<longrightarrow> covered s ref \<or> c_closed (sv_heap s ! ref)" by auto
    then show ?thesis
      using is_tracking_remove1 [of ref t "sv_tasks s"] False
      by (cases "is_tracking ref t") (auto simp: conn_ok_def covered_def taskBecomes_def)
  qed
  moreover have "distinct (concat (map taskNets (t' # remove1 t (sv_tasks s))))"
    using d concat_remove1(2) [OF t, of taskNets] t'(2,3) by auto
  moreover have "int (length (sv_tasks s)) = int (length (t' # remove1 t (sv_tasks s)))"
    using t length_pos_if_in_set [OF t] by (simp add: length_remove1)
  ultimately show ?thesis using run l
    by (auto simp: server_ok_def taskBecomes_def intro: table_ok_cong)
qed

section \<open>Every step keeps the invariant\<close>

lemma handleConn_ok:
  assumes ok: "server_ok s" and t: "Handshaking n peer \<in> set (sv_tasks s)"
  shows "server_ok (snd (handleConn codecs now random1 random2 n peer net s))"
proof -
  obtain net' s' where h: "handleConn codecs now random1 random2 n peer net s = (net', s')"
    by (cases "handleConn codecs now random1 random2 n peer net s")
  from handleConn_effect [OF h] show ?thesis
  proof (elim disjE exE conjE)
    fix s1 assume g: "server_grows None s s1" and s': "s' = taskEnds' (Handshaking n peer) (endHandshake n s1)"
    from g t have t1: "Handshaking n peer \<in> set (sv_tasks s1)" by (simp add: server_grows_def)
    have "server_ok s'"
      using taskEnds_ok [OF server_ok_grows_None [OF ok g] t1, of "[n]"]
      by (simp add: s' endHandshake_def removeAll_filter is_tracking_def)
    with h show ?thesis by simp
  next
    fix s1 ref b assume g: "server_grows (Some ref) s s1"
      and s': "s' = taskBecomes (Handshaking n peer) (Tracking ref n peer b) s1"
    from g t have t1: "Handshaking n peer \<in> set (sv_tasks s1)" by (simp add: server_grows_def)
    note k = server_ok_grows [OF ok g]
    have "server_ok s'" unfolding s'
    proof (rule taskBecomes_ok [OF k(1,2) _ _ k(5,6) t1])
      show "\<forall>u \<in> set (remove1 (Handshaking n peer) (sv_tasks s1)). task_ok s1 u"
        using k(3) set_remove1_subset by fastforce
      show "\<forall>r < length (sv_heap s1). is_tracking r (Tracking ref n peer b) \<or>
          (conn_ok s1 r \<and> (is_tracking r (Handshaking n peer) \<longrightarrow> covered s1 r \<or> c_closed (sv_heap s1 ! r)))"
        using k(4) by (auto simp: is_tracking_def)
      show "task_ok s1 (Tracking ref n peer b)" using g by (simp add: server_grows_def)
    qed simp_all
    with h show ?thesis by simp
  qed
qed

text \<open>The parts of a server that a change of its connections leaves as it is.\<close>

lemma updConn_ok: "server_ok s \<Longrightarrow> conn_keeps (sv_heap s ! ref) (f (sv_heap s ! ref)) \<Longrightarrow> server_ok (updConn ref f s)"
  by (rule server_ok_grows_None [OF _ updConn_grows])

lemma closeConn_ok:
  assumes ok: "server_ok s" and oc: "close_keeps oc" and out: "s' \<in> set (closeConn oc ref s)"
  shows "server_ok s' \<and> (ref < length (sv_heap s) \<longrightarrow> c_closed (sv_heap s' ! ref)) \<and> sv_tasks s' = sv_tasks s \<and> sv_stopping s' = sv_stopping s \<and>
         sv_closers s' = sv_closers s \<and> length (sv_heap s') = length (sv_heap s) \<and> sv_handshakes s' = sv_handshakes s \<and>
         sv_conns s' = sv_conns s"
proof -
  from out obtain c where c: "c \<in> set (Close (cw_env oc) (cw_env' oc) (cw_canCloseWrite oc) (cw_marker oc) (sv_heap s ! ref))"
    and s': "s' = updConn ref (\<lambda>_. c) s" by (auto simp: closeConn_def)
  have "conn_keeps (sv_heap s ! ref) c"
    using Close_keeps [OF _ _ c] oc by (simp add: close_keeps_def)
  then show ?thesis using updConn_ok [OF ok, of ref "\<lambda>_. c"] Close_closes [OF c] by (simp add: s')
qed

lemma trackConn_ok:
  assumes ok: "server_ok s" and t: "Tracking ref n peer b \<in> set (sv_tasks s)"
    and tr: "trackConn ref n s = (r, s1)"
  shows "server_ok s1" "sv_tasks s1 = sv_tasks s" "sv_heap s1 = sv_heap s" "r \<Longrightarrow> covered s1 ref" "r = (\<not> sv_stopping s)"
proof -
  let ?s = "s\<lparr>sv_handshakes := filter (\<lambda>m. m \<notin> set [n]) (sv_handshakes s)\<rparr>"
  have u: "task_ok ?s u" if u: "u \<in> set (sv_tasks s)" for u
  proof (cases "u = Tracking ref n peer b")
    case True
    then show ?thesis using ok u by (auto simp: server_ok_def dest: bspec)
  next
    case False
    then have "u \<in> set (remove1 (Tracking ref n peer b) (sv_tasks s))" using u by (simp add: in_set_remove1)
    then show ?thesis using task_removed [OF ok t, of "[n]" ?s u] by simp
  qed
  have c: "conn_ok ?s x = conn_ok s x" for x by (simp add: conn_ok_def covered_def)
  have s: "server_ok ?s" using ok u c by (auto simp: server_ok_def intro: table_ok_cong)
  have "server_ok (?s\<lparr>sv_conns := List.insert ref (sv_conns s)\<rparr>)" (is "server_ok ?s2") if "\<not> sv_stopping s"
  proof -
    have "task_ok ?s2 v" if "v \<in> set (sv_tasks s)" for v by (rule task_ok_mono [OF u [OF that]]) auto
    moreover have "conn_ok ?s2 x" if "x < length (sv_heap s)" for x
      using that s by (auto simp: server_ok_def conn_ok_def covered_def)
    ultimately show ?thesis using s that by (auto simp: server_ok_def intro: table_ok_cong)
  qed
  with s tr show "server_ok s1" "sv_tasks s1 = sv_tasks s" "sv_heap s1 = sv_heap s" "r \<Longrightarrow> covered s1 ref" "r = (\<not> sv_stopping s)"
    by (auto simp: trackConn_def Let_def removeAll_filter covered_def split: if_splits)
qed

lemma handleTracked_ok:
  assumes ok: "server_ok s" and t: "Tracking ref n peer b \<in> set (sv_tasks s)" and oc: "close_keeps oc"
    and out: "s' \<in> set (handleTracked oc ref n peer b s)"
  shows "server_ok s'" "sv_stopping s \<Longrightarrow> c_closed (sv_heap s' ! ref)"
proof -
  let ?t = "Tracking ref n peer b"
  obtain r s1 where tr: "trackConn ref n s = (r, s1)" by (cases "trackConn ref n s")
  note k = trackConn_ok [OF ok t tr]
  have len: "ref < length (sv_heap s)" using ok t by (auto simp: server_ok_def dest: bspec)
  define s2set where "s2set = (if r then [s1] else closeConn oc ref s1)"
  from out tr obtain s2 where s2: "s2 \<in> set s2set"
    and s': "s' = (if b then taskBecomes ?t (Awaiting ref peer None) (endHandshake n s2)
                   else taskBecomes ?t (Awaiting ref peer (Some n)) s2)"
    by (cases r; cases b) (auto simp: handleTracked_def s2set_def Let_def)
  have f: "server_ok s2 \<and> sv_tasks s2 = sv_tasks s \<and> ref < length (sv_heap s2) \<and>
      (c_closed (sv_heap s2 ! ref) \<or> covered s2 ref) \<and> (sv_stopping s \<longrightarrow> c_closed (sv_heap s2 ! ref))"
    using s2 k len closeConn_ok [OF k(1) oc, of s2 ref] by (cases r) (auto simp: s2set_def)
  let ?h = "if b then [n] else []"
  let ?s3 = "s2\<lparr>sv_handshakes := filter (\<lambda>m. m \<notin> set ?h) (sv_handshakes s2)\<rparr>"
  have t2: "?t \<in> set (sv_tasks s2)" using t f by simp
  have e: "s' = taskBecomes ?t (Awaiting ref peer (if b then None else Some n)) ?s3"
    by (cases b) (simp_all add: s' endHandshake_def removeAll_filter)
  show "server_ok s'" unfolding e
  proof (rule taskBecomes_ok)
    show "sv_running ?s3 = int (length (sv_tasks ?s3))" "distinct (concat (map taskNets (sv_tasks ?s3)))"
      "sv_stopping ?s3 \<longrightarrow> set (sv_listeners ?s3) \<subseteq> set (sv_closedListeners ?s3)" "table_ok ?s3"
      using f by (auto simp: server_ok_def intro: table_ok_cong)
    show "\<forall>u \<in> set (remove1 ?t (sv_tasks ?s3)). task_ok ?s3 u"
      using task_removed [OF conjunct1 [OF f] t2, of ?h ?s3] by auto
    show "\<forall>x < length (sv_heap ?s3). is_tracking x (Awaiting ref peer (if b then None else Some n)) \<or>
        (conn_ok ?s3 x \<and> (is_tracking x ?t \<longrightarrow> covered ?s3 x \<or> c_closed (sv_heap ?s3 ! x)))"
      using f by (auto simp: server_ok_def is_tracking_def)
    show "?t \<in> set (sv_tasks ?s3)" using t2 by simp
    show "task_ok ?s3 (Awaiting ref peer (if b then None else Some n))" using f by (auto simp: covered_def)
  qed simp_all
  show "c_closed (sv_heap s' ! ref)" if "sv_stopping s" using f that by (simp add: e taskBecomes_def)
qed

lemma untrackConn_ok:
  assumes ok: "server_ok s" and c: "c_closed (sv_heap s ! ref)"
  shows "server_ok (untrackConn ref s)"
proof -
  have "task_ok (untrackConn ref s) t" if "task_ok s t" for t
    using that c by (cases t) (auto simp: untrackConn_def covered_def)
  moreover have "conn_ok (untrackConn ref s) x" if "conn_ok s x" for x
    using that c by (auto simp: conn_ok_def untrackConn_def covered_def)
  ultimately show ?thesis using ok by (auto simp: server_ok_def untrackConn_def intro: table_ok_cong)
qed

lemma callbacks_ok: "server_ok s \<Longrightarrow> server_ok (s\<lparr>sv_callbacks := cb\<rparr>)"
proof (rule server_ok_grows_None)
  show "server_grows None s (s\<lparr>sv_callbacks := cb\<rparr>)"
    by (auto simp: server_grows_def conn_keeps_refl intro: table_ok_cong)
qed

lemma awaitClose_ok:
  assumes ok: "server_ok s" and t: "Awaiting ref peer n \<in> set (sv_tasks s)" and out: "s' \<in> set (awaitClose ref peer n s)"
  shows "server_ok s'"
proof -
  from out have c: "c_closed (sv_heap s ! ref)" by (auto simp: awaitClose_def split: if_splits)
  let ?s1 = "untrackConn ref s"
  let ?s2 = "if sv_onDisconnect ?s1 then ?s1\<lparr>sv_callbacks := sv_callbacks ?s1 @ [DisconnectCall peer]\<rparr> else ?s1"
  let ?h = "case n of None \<Rightarrow> [] | Some m \<Rightarrow> [m]"
  have s2: "server_ok ?s2" using untrackConn_ok [OF ok c] by (simp add: callbacks_ok)
  have t2: "Awaiting ref peer n \<in> set (sv_tasks ?s2)" using t by (simp add: untrackConn_def)
  have "s' = taskEnds' (Awaiting ref peer n) (?s2\<lparr>sv_handshakes := filter (\<lambda>m. m \<notin> set ?h) (sv_handshakes ?s2)\<rparr>)"
    using out c by (cases n) (simp_all add: awaitClose_def endHandshake_def removeAll_filter Let_def)
  then show ?thesis
    using taskEnds_ok [OF s2 t2, of ?h] by (cases n) (simp_all add: is_tracking_def)
qed

lemma Shutdown_ok:
  assumes ok: "server_ok s"
  shows "server_ok (Shutdown s)"
proof -
  have ins: "set (fold List.insert xs ys) = set xs \<union> set ys" for xs ys :: "nat list"
    by (induction xs arbitrary: ys) auto
  have "task_ok (Shutdown s) t" if "task_ok s t" for t
    using that by (cases t) (auto simp: Shutdown_def covered_def ins Let_def)
  moreover have "conn_ok (Shutdown s) x" if "conn_ok s x" for x
    using that by (auto simp: conn_ok_def Shutdown_def covered_def Let_def)
  ultimately show ?thesis using ok by (auto simp: server_ok_def Shutdown_def ins Let_def intro: table_ok_cong)
qed

lemma acceptStep_ok:
  assumes ok: "server_ok s" and fresh: "\<And>n peer. accept = Inr (n, peer) \<Longrightarrow> \<forall>t \<in> set (sv_tasks s). n \<notin> set (taskNets t)"
    and out: "(next', s') \<in> set (acceptStep (\<lambda>s. s) backoff accept s)"
  shows "server_ok s'"
proof (cases accept)
  case (Inl e)
  with out ok show ?thesis by (auto simp: acceptStep_def Let_def split: if_splits)
next
  case (Inr a)
  obtain n peer where a: "a = (n, peer)" by (cases a)
  show ?thesis
  proof (cases "sv_stopping s")
    case True
    with out Inr a have "s' = closeServerNet n s" by (simp add: acceptStep_def beginHandshake_def)
    with ok show ?thesis using server_ok_grows_None [OF _ closeServerNet_grows] by simp
  next
    case False
    with out Inr a have s': "s' = s\<lparr>sv_handshakes := List.insert n (sv_handshakes s), sv_running := sv_running s + 1,
        sv_tasks := Handshaking n peer # sv_tasks s\<rparr>" by (simp add: acceptStep_def beginHandshake_def)
    have "task_ok s' t" if "task_ok s t" for t by (rule task_ok_mono [OF that]) (auto simp: s')
    moreover have "conn_ok s' x" if "conn_ok s x" for x using that by (auto simp: conn_ok_def covered_def s')
    moreover have "n \<notin> set (concat (map taskNets (sv_tasks s)))" using fresh Inr a by auto
    ultimately show ?thesis using ok False by (auto simp: server_ok_def s' intro: table_ok_cong)
  qed
qed

lemma listener_ok:
  assumes ok: "server_ok s" and l: "sv_stopping s \<Longrightarrow> set ls \<subseteq> set cls"
  shows "server_ok (s\<lparr>sv_listeners := ls, sv_closedListeners := cls\<rparr>)" (is "server_ok ?s")
proof -
  have "task_ok ?s t = task_ok s t" "conn_ok ?s x = conn_ok s x" for t x
    by (cases t; simp add: conn_ok_def covered_def)+
  with ok l show ?thesis by (auto simp: server_ok_def intro: table_ok_cong)
qed

lemma server_step_ok: "server_step s s' \<Longrightarrow> server_ok s \<Longrightarrow> server_ok s'"
proof (induction rule: server_step.induct)
  case (st_serve s l)
  show ?case
  proof (cases "sv_stopping s")
    case True
    with st_serve listener_ok [OF st_serve, of "sv_listeners s" "List.insert l (sv_closedListeners s)"] show ?thesis
      by (auto simp: serveBegin_def trackListener_def server_ok_def)
  next
    case False
    with listener_ok [OF st_serve, of "List.insert l (sv_listeners s)" "sv_closedListeners s"] show ?thesis
      by (simp add: serveBegin_def trackListener_def)
  qed
next
  case (st_unserve s l)
  then have "sv_stopping s \<Longrightarrow> set (sv_listeners s) \<subseteq> set (sv_closedListeners s)" by (simp add: server_ok_def)
  then show ?case
    using listener_ok [OF st_unserve, of "removeAll l (sv_listeners s)" "List.insert l (sv_closedListeners s)"]
    by (auto simp: serveEnd_def untrackListener_def Let_def)
next
  case (st_close ref s oc s1)
  note k = closeConn_ok [OF st_close.prems st_close.hyps(2,3)]
  let ?s = "s1\<lparr>sv_closers := removeAll ref (sv_closers s1)\<rparr>"
  have "task_ok ?s t" if "task_ok s1 t" for t
    using that k by (cases t) (auto simp: covered_def)
  moreover have "conn_ok ?s x" if "conn_ok s1 x" "x < length (sv_heap s1)" for x
    using that k by (auto simp: conn_ok_def covered_def)
  ultimately show ?case using k by (auto simp: server_ok_def intro: table_ok_cong)
next
  case (st_conn ref s c')
  show ?case by (rule updConn_ok [OF st_conn.prems conn_step_keeps [OF st_conn.hyps(2)]])
qed (blast intro: acceptStep_ok handleConn_ok handleTracked_ok awaitClose_ok Shutdown_ok)+

section \<open>Shutting down\<close>

text \<open>What the server's own goroutines do once it is stopping: a handshake on a transport that was closed, which reads and
  writes nothing more; the tracking of a connection; the wait for a connection to close; and the closers that \<^verbatim>\<open>Shutdown\<close>
  started. No connection closes here but by one of these.\<close>

inductive winding :: "('m, 'b, 'h) Server \<Rightarrow> ('m, 'b, 'h) Server \<Rightarrow> bool" where
  wd_handle: "Handshaking n peer \<in> set (sv_tasks s) \<Longrightarrow> n \<in> set (sv_closedNets s) \<Longrightarrow> nc_in net = [] \<Longrightarrow> nc_room net = Some 0 \<Longrightarrow>
     winding s (snd (handleConn codecs now random1 random2 n peer net s))"
| wd_track: "Tracking ref n peer b \<in> set (sv_tasks s) \<Longrightarrow> close_keeps oc \<Longrightarrow>
     s' \<in> set (handleTracked oc ref n peer b s) \<Longrightarrow> winding s s'"
| wd_await: "Awaiting ref peer n \<in> set (sv_tasks s) \<Longrightarrow> s' \<in> set (awaitClose ref peer n s) \<Longrightarrow> winding s s'"
| wd_close: "ref \<in> set (sv_closers s) \<Longrightarrow> close_keeps oc \<Longrightarrow> s1 \<in> set (closeConn oc ref s) \<Longrightarrow>
     winding s (s1\<lparr>sv_closers := removeAll ref (sv_closers s1)\<rparr>)"

lemma winding_server_step: "winding s s' \<Longrightarrow> server_step s s'"
  by (erule winding.cases) (auto intro: server_step.intros)

text \<open>How many steps are left at most: for each goroutine the stages before its end, and the closers.\<close>

fun stagesLeft :: "serverTask \<Rightarrow> nat" where
  "stagesLeft (Handshaking n peer) = 3"
| "stagesLeft (Tracking ref n peer b) = 2"
| "stagesLeft (Awaiting ref peer n) = 1"

definition windWork :: "('m, 'b, 'h) Server \<Rightarrow> nat" where
  "windWork s = sum_list (map stagesLeft (sv_tasks s)) + length (sv_closers s)"

definition stopping_ok :: "('m, 'b, 'h) Server \<Rightarrow> bool" where
  "stopping_ok s \<longleftrightarrow> server_ok s \<and> sv_stopping s"

lemma stages_remove1:
  "t \<in> set ts \<Longrightarrow> sum_list (map stagesLeft ts) = stagesLeft t + sum_list (map stagesLeft (remove1 t ts))"
  by (rule sum_list_map_remove1)

lemma stages_pos: "0 < stagesLeft t"
  by (cases t) simp_all

lemma length_removeAll_mem: "x \<in> set xs \<Longrightarrow> length (removeAll x xs) < length xs"
  by (induction xs) (auto intro: le_imp_less_Suc length_removeAll_less_eq)

lemma closeConn_more:
  "s' \<in> set (closeConn oc ref s) \<Longrightarrow> sv_tasks s' = sv_tasks s \<and> sv_closers s' = sv_closers s \<and> sv_stopping s' = sv_stopping s"
  by (auto simp: closeConn_def)

text \<open>Each of these steps keeps the server stopping and leaves less to do.\<close>

lemma handleConn_work:
  assumes "Handshaking n peer \<in> set (sv_tasks s)"
  shows "windWork (snd (handleConn codecs now random1 random2 n peer net s)) < windWork s"
    "sv_stopping (snd (handleConn codecs now random1 random2 n peer net s)) = sv_stopping s"
proof -
  obtain net' s' where h: "handleConn codecs now random1 random2 n peer net s = (net', s')"
    by (cases "handleConn codecs now random1 random2 n peer net s")
  have "windWork s' < windWork s \<and> sv_stopping s' = sv_stopping s"
    using handleConn_effect [OF h] assms stages_remove1 [OF assms]
    by (auto simp: windWork_def server_grows_def taskEnds'_def taskBecomes_def endHandshake_def)
  then show "windWork (snd (handleConn codecs now random1 random2 n peer net s)) < windWork s"
    "sv_stopping (snd (handleConn codecs now random1 random2 n peer net s)) = sv_stopping s" using h by simp_all
qed

lemma handleTracked_work:
  assumes "Tracking ref n peer b \<in> set (sv_tasks s)" "s' \<in> set (handleTracked oc ref n peer b s)"
  shows "windWork s' < windWork s" "sv_stopping s' = sv_stopping s"
proof -
  let ?t = "Tracking ref n peer b"
  obtain r s1 where tr: "trackConn ref n s = (r, s1)" by (cases "trackConn ref n s")
  have s1: "sv_tasks s1 = sv_tasks s" "sv_closers s1 = sv_closers s" "sv_stopping s1 = sv_stopping s"
    using tr by (auto simp: trackConn_def Let_def split: if_splits)
  define s2set where "s2set = (if r then [s1] else closeConn oc ref s1)"
  from assms(2) tr obtain s2 where s2: "s2 \<in> set s2set"
    and s': "s' = (if b then taskBecomes ?t (Awaiting ref peer None) (endHandshake n s2)
                   else taskBecomes ?t (Awaiting ref peer (Some n)) s2)"
    by (cases r; cases b) (auto simp: handleTracked_def s2set_def Let_def)
  have k: "sv_tasks s2 = sv_tasks s" "sv_closers s2 = sv_closers s" "sv_stopping s2 = sv_stopping s"
    using s2 s1 closeConn_more [of s2 oc ref s1] by (cases r; simp add: s2set_def)+
  show "windWork s' < windWork s" "sv_stopping s' = sv_stopping s"
    using k stages_remove1 [OF assms(1)] by (simp_all add: s' windWork_def taskBecomes_def endHandshake_def)
qed

lemma awaitClose_work:
  assumes "Awaiting ref peer n \<in> set (sv_tasks s)" "s' \<in> set (awaitClose ref peer n s)"
  shows "windWork s' < windWork s" "sv_stopping s' = sv_stopping s"
proof -
  let ?t = "Awaiting ref peer n"
  have "sv_tasks s' = remove1 ?t (sv_tasks s)" "sv_closers s' = sv_closers s" "sv_stopping s' = sv_stopping s"
    using assms(2) by (cases n; auto simp: awaitClose_def taskEnds'_def untrackConn_def endHandshake_def Let_def split: if_splits)+
  then show "windWork s' < windWork s" "sv_stopping s' = sv_stopping s"
    using stages_remove1 [OF assms(1)] by (simp_all add: windWork_def)
qed

lemma winding_work: "winding s s' \<Longrightarrow> windWork s' < windWork s \<and> sv_stopping s' = sv_stopping s"
proof (induction rule: winding.induct)
  case (wd_close ref s oc s1)
  note k = closeConn_more [OF wd_close(3)]
  have "length (removeAll ref (sv_closers s)) < length (sv_closers s)" by (rule length_removeAll_mem [OF wd_close(1)])
  then show ?case using k by (simp add: windWork_def)
qed (simp_all add: handleConn_work handleTracked_work awaitClose_work)

interpretation wd: draining winding stopping_ok windWork
  by unfold_locales (auto simp: stopping_ok_def dest: winding_work intro: server_step_ok [OF winding_server_step])

lemma winding_run_step: "(winding ^^ k) s s' \<Longrightarrow> server_step\<^sup>*\<^sup>* s s'"
proof (induction k arbitrary: s')
  case (Suc k)
  then obtain u where "(winding ^^ k) s u" "winding u s'" by auto
  then show ?case using Suc.IH winding_server_step by (meson rtranclp.rtrancl_into_rtrancl)
qed simp

text \<open>As long as there is a goroutine or a closer, one of them can go on.\<close>

definition freeClose :: "('m, 'b, 'h) closeWait" where
  "freeClose = \<lparr>cw_env = \<lambda>c. c, cw_env' = \<lambda>c. c, cw_canCloseWrite = True, cw_marker = 0\<rparr>"

lemma freeClose_keeps: "close_keeps freeClose"
  by (simp add: close_keeps_def freeClose_def conn_keeps_refl)

lemma closer_goes_on: "ref \<in> set (sv_closers s) \<Longrightarrow> \<exists>s'. winding s s'"
proof -
  assume ref: "ref \<in> set (sv_closers s)"
  obtain s1 where "s1 \<in> set (closeConn freeClose ref s)"
    using Close_outcome by (fastforce simp: closeConn_def neq_Nil_conv)
  then show ?thesis using wd_close [OF ref freeClose_keeps] by blast
qed

lemma task_goes_on:
  assumes ok: "stopping_ok s" and t: "t \<in> set (sv_tasks s)"
  shows "\<exists>s'. winding s s'"
proof (cases t)
  case (Handshaking n peer)
  then have "n \<in> set (sv_closedNets s)" using ok t by (auto simp: stopping_ok_def server_ok_def dest: bspec)
  then have "winding s (snd (handleConn (\<lambda>_. None) 0 (\<lambda>_. Inl EOF) (\<lambda>_. Inl EOF) n peer
      \<lparr>nc_in = [], nc_in_err = EOF, nc_out = [], nc_room = Some 0, nc_out_err = EOF\<rparr> s))"
    using t Handshaking by (intro wd_handle) simp_all
  then show ?thesis by blast
next
  case (Tracking ref n peer b)
  have "handleTracked freeClose ref n peer b s \<noteq> []"
    by (auto simp: handleTracked_def closeConn_def Let_def Close_outcome split: prod.splits bool.splits)
  then obtain s1 where "s1 \<in> set (handleTracked freeClose ref n peer b s)"
    by (cases "handleTracked freeClose ref n peer b s") auto
  then show ?thesis using wd_track [OF _ freeClose_keeps] t Tracking by blast
next
  case (Awaiting ref peer n)
  then have "c_closed (sv_heap s ! ref) \<or> ref \<in> set (sv_closers s)"
    using ok t by (auto simp: stopping_ok_def server_ok_def covered_def dest: bspec)
  then show ?thesis
  proof
    assume "c_closed (sv_heap s ! ref)"
    then obtain s1 where "s1 \<in> set (awaitClose ref peer n s)" by (auto simp: awaitClose_def Let_def)
    then show ?thesis using wd_await t Awaiting by blast
  qed (rule closer_goes_on)
qed

lemma wound_down:
  assumes ok: "stopping_ok s" and over: "\<nexists>s'. winding s s'"
  shows "sv_tasks s = []" "sv_closers s = []" "shutdownWait None s = [None]"
    "ref < length (sv_heap s) \<Longrightarrow> started (sv_heap s ! ref) \<Longrightarrow> c_closed (sv_heap s ! ref)"
proof -
  show tasks: "sv_tasks s = []" using over task_goes_on [OF ok] by (cases "sv_tasks s") auto
  show closers: "sv_closers s = []" using over closer_goes_on [of _ s] by (cases "sv_closers s") auto
  show "shutdownWait None s = [None]" using ok tasks by (simp add: stopping_ok_def server_ok_def shutdownWait_def)
  show "c_closed (sv_heap s ! ref)" if "ref < length (sv_heap s)" "started (sv_heap s ! ref)"
    using that ok tasks closers by (auto simp: stopping_ok_def server_ok_def conn_ok_def covered_def)
qed

section \<open>Servers\<close>

text \<open>A server as the builder methods configure it.\<close>

inductive configured :: "('m, 'b, 'h) Server \<Rightarrow> bool" where
  cf_new: "configured (NewServer reg)"
| cf_onConnect: "configured s \<Longrightarrow> configured (OnConnect f s)"
| cf_onDisconnect: "configured s \<Longrightarrow> configured (OnDisconnect s)"
| cf_onNewStream: "configured s \<Longrightarrow> configured (OnNewStream s)"
| cf_onCloseStream: "configured s \<Longrightarrow> configured (OnCloseStream s)"
| cf_codecs: "configured s \<Longrightarrow> configured (server_WithCodecs cs s)"
| cf_maxFrame: "configured s \<Longrightarrow> configured (server_WithMaxFrame m s)"
| cf_timeout: "configured s \<Longrightarrow> configured (WithHandshakeTimeout d s)"
| cf_queue: "configured s \<Longrightarrow> configured (server_WithStreamQueueSize k s)"
| cf_recovery: "configured s \<Longrightarrow> configured (server_WithRecovery opts s)"

lemmas builder_defs = OnConnect_def OnDisconnect_def OnNewStream_def OnCloseStream_def server_WithCodecs_def
  server_WithMaxFrame_def WithHandshakeTimeout_def server_WithStreamQueueSize_def server_WithRecovery_def

lemma configured_empty:
  "configured s \<Longrightarrow> sv_tasks s = [] \<and> sv_heap s = [] \<and> sv_running s = 0 \<and> \<not> sv_stopping s \<and> sv_recoveryConns s = []"
  by (induction rule: configured.induct) (simp_all add: builder_defs NewServer_def)

lemma configured_ok: "configured s \<Longrightarrow> server_ok s"
  using configured_empty [of s] by (simp add: server_ok_def table_ok_def)

lemma reachable_ok:
  assumes "configured s0" "server_step\<^sup>*\<^sup>* s0 s"
  shows "server_ok s"
  using assms(2,1) by (induction rule: rtranclp_induct) (auto intro: configured_ok server_step_ok)

section \<open>A server that serves one transport\<close>

definition sampleCodecs' :: "(unit, unit) CodecImpl codecRegistry" where
  "sampleCodecs' = [1 \<mapsto> sampleCodec]"

definition sampleServer :: "(unit, unit, unit) Server" where
  "sampleServer = server_WithCodecs [1] (server_WithRecovery (defaultServerRecoveryOptions\<lparr>so_Enable := True\<rparr>)
     (NewServer \<lparr>rt_handlers = [], rt_messages = []\<rparr>))"

definition accepted :: "nat \<Rightarrow> string \<Rightarrow> (unit, unit, unit) Server \<Rightarrow> (unit, unit, unit) Server" where
  "accepted n peer s = snd (hd (acceptStep (\<lambda>s. s) 0 (Inr (n, peer)) s))"

definition sampleRandom :: "nat \<Rightarrow> bytes result" where
  "sampleRandom n = Inr (replicate n 7)"

definition attachingNet :: net_conn where
  "attachingNet = sampleConn\<lparr>nc_in := handshakeRequest [1] 100 3 @
     attachRequestBytes \<lparr>rq_mode = attachModeNew, rq_connectionID = zeroToken, rq_resumeSecret = zeroToken, rq_lastRecvSeq = 0\<rparr>\<rparr>"

definition resumingNet :: net_conn where
  "resumingNet = sampleConn\<lparr>nc_in := handshakeRequest [1] 100 3 @
     attachRequestBytes \<lparr>rq_mode = attachModeResume, rq_connectionID = replicate 16 7, rq_resumeSecret = replicate 16 7,
       rq_lastRecvSeq = 300\<rparr>\<rparr>"

definition attachedServer :: "(unit, unit, unit) Server" where
  "attachedServer =
     accepted 2 ''b'' (snd (handleConn sampleCodecs' 0 sampleRandom sampleRandom 1 ''a'' attachingNet
       (accepted 1 ''a'' sampleServer)))"

lemma sampleServer_configured: "configured sampleServer"
  unfolding sampleServer_def by (intro cf_codecs cf_recovery cf_new)

lemma accepted_step:
  assumes "\<not> sv_stopping s" "n \<notin> set (concat (map taskNets (sv_tasks s)))"
  shows "server_step s (accepted n peer s)"
proof (rule st_accept)
  show "(AcceptAgain 0, accepted n peer s) \<in> set (acceptStep (\<lambda>s. s) 0 (Inr (n, peer)) s)"
    using assms(1) by (simp add: acceptStep_def accepted_def beginHandshake_def)
qed (use assms(2) in auto)

lemma sampleServer_accepted: "server_step sampleServer (accepted 1 ''a'' sampleServer)"
proof (rule accepted_step)
  show "\<not> sv_stopping sampleServer" by code_simp
  show "1 \<notin> set (concat (map taskNets (sv_tasks sampleServer)))" by code_simp
qed

lemma attachedServer_reachable: "server_step\<^sup>*\<^sup>* sampleServer attachedServer"
proof -
  let ?s1 = "accepted 1 ''a'' sampleServer"
  let ?s2 = "snd (handleConn sampleCodecs' 0 sampleRandom sampleRandom 1 ''a'' attachingNet ?s1)"
  have "Handshaking 1 ''a'' \<in> set (sv_tasks ?s1)" by code_simp
  then have 1: "server_step ?s1 ?s2" by (rule st_handle)
  have "\<not> sv_stopping ?s2" by code_simp
  moreover have "2 \<notin> set (concat (map taskNets (sv_tasks ?s2)))" by code_simp
  ultimately have "server_step ?s2 attachedServer" unfolding attachedServer_def by (rule accepted_step)
  have "server_step\<^sup>*\<^sup>* sampleServer ?s1" using sampleServer_accepted by (rule r_into_rtranclp [where r = server_step])
  also have "server_step ?s1 ?s2" by (rule 1)
  also have "server_step ?s2 attachedServer" by fact
  finally show ?thesis .
qed

lemma shutdownServer_reachable: "server_step\<^sup>*\<^sup>* sampleServer (Shutdown attachedServer)"
  by (rule rtranclp.rtrancl_into_rtrancl [OF attachedServer_reachable st_shutdown])

section \<open>Properties\<close>

text \<open>C11. Nothing escapes \<^verbatim>\<open>Shutdown\<close>: in every state of a server after \<^verbatim>\<open>Shutdown\<close>, however
  connections were being accepted, established or resumed when it was called, each running open
  connection is about to be closed, by a closer or by the goroutine that just established it, whose
  next step closes it; every transport still in the handshake is closed, every listener is closed,
  nothing new is taken on, and the wait ends without an error exactly when no goroutine serves a
  connection any more.\<close>

theorem shutdown_reaches_all:
  assumes "configured s0" "server_step\<^sup>*\<^sup>* s0 s" and st: "sv_stopping s"
  shows "(\<forall>ref < length (sv_heap s). started (sv_heap s ! ref) \<and> \<not> c_closed (sv_heap s ! ref) \<longrightarrow>
            ref \<in> set (sv_closers s) \<or>
            (\<exists>n peer b. Tracking ref n peer b \<in> set (sv_tasks s) \<and>
               (\<forall>oc s'. close_keeps oc \<and> s' \<in> set (handleTracked oc ref n peer b s) \<longrightarrow> c_closed (sv_heap s' ! ref)))) \<and>
         (\<forall>n peer. Handshaking n peer \<in> set (sv_tasks s) \<longrightarrow> n \<in> set (sv_closedNets s)) \<and>
         set (sv_listeners s) \<subseteq> set (sv_closedListeners s) \<and>
         \<not> fst (trackListener l s) \<and> \<not> fst (beginHandshake n s) \<and> \<not> fst (trackConn ref n s) \<and>
         (shutdownWait None s = [None] \<longleftrightarrow> sv_tasks s = [])"
proof -
  note ok = reachable_ok [OF assms(1,2)]
  have c: "ref \<in> set (sv_closers s) \<or> (\<exists>n peer b. Tracking ref n peer b \<in> set (sv_tasks s) \<and>
        (\<forall>oc s'. close_keeps oc \<and> s' \<in> set (handleTracked oc ref n peer b s) \<longrightarrow> c_closed (sv_heap s' ! ref)))"
    if "ref < length (sv_heap s)" "started (sv_heap s ! ref)" "\<not> c_closed (sv_heap s ! ref)" for ref
  proof -
    from that ok have "covered s ref \<or> (\<exists>t \<in> set (sv_tasks s). is_tracking ref t)"
      by (simp add: server_ok_def conn_ok_def)
    then show ?thesis
    proof
      assume "covered s ref" with st show ?thesis by (simp add: covered_def)
    next
      assume "\<exists>t \<in> set (sv_tasks s). is_tracking ref t"
      then obtain n peer b where t: "Tracking ref n peer b \<in> set (sv_tasks s)" by (auto simp: is_tracking_def)
      with handleTracked_ok(2) [OF ok t _ _ st] show ?thesis by blast
    qed
  qed
  have h: "n \<in> set (sv_closedNets s)" if "Handshaking n peer \<in> set (sv_tasks s)" for n peer
    using that ok st by (auto simp: server_ok_def dest: bspec)
  from c h ok st show ?thesis
    by (auto simp: server_ok_def trackListener_def beginHandshake_def trackConn_def shutdownWait_def Let_def)
qed

theorem shutdown_reaches_all_witness:
  "2 \<in> set (sv_closedNets (Shutdown attachedServer)) \<and> \<not> fst (beginHandshake 3 (Shutdown attachedServer)) \<and>
   shutdownWait None (Shutdown attachedServer) \<noteq> [None] \<and>
   (\<exists>b. Tracking 0 1 ''a'' b \<in> set (sv_tasks (Shutdown attachedServer)))"
proof -
  let ?s = "Shutdown attachedServer"
  have t: "Handshaking 2 ''b'' \<in> set (sv_tasks ?s)" "Tracking 0 1 ''a'' True \<in> set (sv_tasks ?s)" "sv_stopping ?s"
    by code_simp+
  from shutdown_reaches_all [OF sampleServer_configured shutdownServer_reachable t(3), of 0 3 0] t
  show ?thesis by auto
qed

text \<open>C12. \<^verbatim>\<open>Shutdown\<close> gets done by the server's own goroutines, without any connection closing by itself. From every
  state of a server that is stopping, let only the handshakes, the trackings, the waits and the closers go on, in any order and with any
  outcome: they come to an end, after at most three steps for each goroutine and one for each closer; and where none of them can go on,
  no connection is served, every connection that ran is closed, and the wait of \<^verbatim>\<open>Shutdown\<close> returns without an error.\<close>

theorem shutdown_completes:
  assumes "configured s0" "server_step\<^sup>*\<^sup>* s0 s" "sv_stopping s"
  shows "(\<exists>k s'. (winding ^^ k) s s' \<and> (\<nexists>s''. winding s' s'')) \<and>
    (\<forall>k s'. (winding ^^ k) s s' \<longrightarrow>
       server_step\<^sup>*\<^sup>* s s' \<and> k \<le> 3 * length (sv_tasks s) + length (sv_closers s) \<and>
       ((\<nexists>s''. winding s' s'') \<longrightarrow>
          sv_tasks s' = [] \<and> shutdownWait None s' = [None] \<and>
          (\<forall>ref < length (sv_heap s'). started (sv_heap s' ! ref) \<longrightarrow> c_closed (sv_heap s' ! ref))))"
proof -
  have ok: "stopping_ok s" using reachable_ok [OF assms(1,2)] assms(3) by (simp add: stopping_ok_def)
  have "sum_list (map stagesLeft ts) \<le> 3 * length ts" for ts
  proof (induction ts)
    case (Cons t ts)
    then show ?case by (cases t) simp_all
  qed simp
  then have w: "windWork s \<le> 3 * length (sv_tasks s) + length (sv_closers s)" by (simp add: windWork_def)
  have "stopping_ok s' \<and> k \<le> windWork s" if "(winding ^^ k) s s'" for k s'
    using wd.run [OF that ok] by simp
  then show ?thesis using wd.ends [OF ok] winding_run_step wound_down w by (meson order_trans)
qed

theorem shutdown_completes_witness:
  "sv_tasks (Shutdown attachedServer) \<noteq> [] \<and>
   (\<exists>k s'. (winding ^^ k) (Shutdown attachedServer) s' \<and> sv_tasks s' = [] \<and> shutdownWait None s' = [None])"
proof -
  have "sv_tasks (Shutdown attachedServer) \<noteq> []" "sv_stopping (Shutdown attachedServer)" by code_simp+
  with shutdown_completes [OF sampleServer_configured shutdownServer_reachable] show ?thesis by blast
qed

end
