(* ===== verification/Server_Resume.thy ===== *)
theory Server_Resume
  imports Server_Lifecycle
begin

text \<open>
  What an accepted transport can do to the connections a server already has: \<^verbatim>\<open>handleConn\<close> changes
  none of them except by a resume request that knows the connection's id and secret.
\<close>

section \<open>Connections that are left alone\<close>

lemma callOnConnect_more [simp]:
  "sv_heap (snd (callOnConnect peer s)) = sv_heap s" "sv_recoveryConns (snd (callOnConnect peer s)) = sv_recoveryConns s"
  by (simp_all add: callOnConnect_def split: option.split)

lemma attachNew_old:
  assumes "attachNew now random1 random2 n net peer cfg s = (res, net', s')" "ref < length (sv_heap s)"
  shows "sv_heap s' ! ref = sv_heap s ! ref"
proof -
  have h: "sv_heap s4 = sv_heap s3" if "callOnConnect peer s3 = (err, s4)" for err s3 and s4 :: "('a, 'b, 'c) Server"
    using that callOnConnect_more(1) [of peer s3] by simp
  show ?thesis
    using assms
    by (auto simp: attachNew_def newConn_def storeRecoveryConnection_def Let_def nth_append nth_list_update
          split: sum.splits option.splits prod.splits dest!: h)
qed

lemma list_update_other: "(xs[i := x]) ! j \<noteq> xs ! j \<Longrightarrow> i = j \<and> (xs[i := x]) ! j = x"
  by (cases "i < length xs") (auto simp: nth_list_update list_update_beyond split: if_splits)

lemma attachResume_old:
  assumes "attachResume now n net cfg req s = (err, net', s')" "sv_heap s' ! ref \<noteq> sv_heap s ! ref"
  shows "lookupRecoveryConnection (rq_connectionID req) s = Some ref \<and>
    (\<exists>r. c_recovery (sv_heap s ! ref) = Some r \<and> r_resumeSecret r = rq_resumeSecret req) \<and>
    \<not> c_closed (sv_heap s ! ref) \<and> cfg_codecID (c_config (sv_heap s ! ref)) = cfg_codecID cfg \<and>
    sv_heap s' ! ref = attachTransport now n (rq_lastRecvSeq req) (sv_heap s ! ref)"
  using assms
  by (auto simp: attachResume_def Let_def rejectAttach_def split: option.splits if_splits prod.splits
        dest!: list_update_other)

lemma taskBecomes_heap [simp]: "sv_heap (taskBecomes t t' s) = sv_heap s"
  by (simp add: taskBecomes_def)

lemma taskEnds_heap [simp]: "sv_heap (taskEnds' t s) = sv_heap s"
  by (simp add: taskEnds'_def)

lemma endHandshake_heap [simp]: "sv_heap (endHandshake n s) = sv_heap s"
  by (simp add: endHandshake_def)

lemma closeServerNet_heap [simp]: "sv_heap (closeServerNet n s) = sv_heap s"
  by (simp add: closeServerNet_def)

lemma handleRecoveryConn_old:
  assumes "handleRecoveryConn now random1 random2 n net peer cfg s = (res, net', s')"
    "ref < length (sv_heap s)" "sv_heap s' ! ref \<noteq> sv_heap s ! ref"
  obtains req net1 err where "readAttachRequest net = (Inr req, net1)" "rq_mode req = attachModeResume"
    "attachResume now n net1 cfg req s = (err, net', s')"
  using assms attachNew_old [of now random1 random2 n _ peer cfg s _ _ s' ref]
  by (auto simp: handleRecoveryConn_def rejectAttach_def split: prod.splits sum.splits if_splits option.splits)

lemma handleConn_old:
  assumes h: "handleConn codecs now random1 random2 n peer net s = (net', s')"
    and ref: "ref < length (sv_heap s)" "sv_heap s' ! ref \<noteq> sv_heap s ! ref"
  obtains cfg net1 net2 s1 s2 res where
    "handshakeServer codecs net (sv_codecs s) (sv_maxFrame s) (so_Enable (sv_recovery s)) = (Inr cfg, net1)"
    "cfg_version cfg = protocolVersionV3" "sv_heap s1 = sv_heap s" "sv_recoveryConns s1 = sv_recoveryConns s"
    "handleRecoveryConn now random1 random2 n net1 peer cfg s1 = (res, net2, s2)" "sv_heap s2 = sv_heap s'"
proof -
  let ?s1 = "if sv_handshakeTimeout s > 0 then setDeadline n (Some (now + sv_handshakeTimeout s)) s else s"
  have 1: "sv_heap ?s1 = sv_heap s" "sv_recoveryConns ?s1 = sv_recoveryConns s" "sv_recovery ?s1 = sv_recovery s"
    "sv_codecs ?s1 = sv_codecs s" "sv_maxFrame ?s1 = sv_maxFrame s"
    by (simp_all add: setDeadline_def)
  obtain hs net1 where hs: "handshakeServer codecs net (sv_codecs s) (sv_maxFrame s) (so_Enable (sv_recovery s)) = (hs, net1)"
    by (cases "handshakeServer codecs net (sv_codecs s) (sv_maxFrame s) (so_Enable (sv_recovery s))")
  show ?thesis
  proof (cases hs)
    case (Inl e)
    with h hs ref 1 show ?thesis by (auto simp: handleConn_def Let_def)
  next
    case (Inr cfg)
    show ?thesis
    proof (cases "cfg_version cfg = protocolVersionV3")
      case True
      obtain res net2 s2 where r: "handleRecoveryConn now random1 random2 n net1 peer cfg ?s1 = (res, net2, s2)"
        by (cases "handleRecoveryConn now random1 random2 n net1 peer cfg ?s1")
      have "sv_heap s2 = sv_heap s'" using h hs Inr True 1 r by (auto simp: handleConn_def Let_def split: sum.splits option.splits)
      with that [of cfg net1 ?s1 res net2 s2] hs Inr True 1 r show ?thesis by blast
    next
      case False
      obtain err s3 where c: "callOnConnect peer (setDeadline n None ?s1) = (err, s3)"
        by (cases "callOnConnect peer (setDeadline n None ?s1)")
      with callOnConnect_more(1) [of peer "setDeadline n None ?s1"] have "sv_heap s3 = sv_heap s" using 1 by simp
      with h hs Inr False 1 c ref show ?thesis
        by (cases err) (auto simp: handleConn_def Let_def newConn_def nth_append)
    qed
  qed
qed

section \<open>Properties\<close>

text \<open>C10. Nobody takes over a connection without its secret: when serving an accepted transport changes
  a connection the server already had, the transport sent a resume request with the id and the
  resume secret of that very connection and the same codec, the connection was open, and all that
  changed is that the transport is attached to it, resuming after the number in the request.\<close>

theorem resume_needs_secret:
  assumes "configured s0" "server_step\<^sup>*\<^sup>* s0 s"
    and h: "handleConn codecs now random1 random2 n peer net s = (net', s')"
    and ref: "ref < length (sv_heap s)" "sv_heap s' ! ref \<noteq> sv_heap s ! ref"
  shows "\<exists>cfg net1 req net2 r.
     handshakeServer codecs net (sv_codecs s) (sv_maxFrame s) (so_Enable (sv_recovery s)) = (Inr cfg, net1) \<and>
     readAttachRequest net1 = (Inr req, net2) \<and> rq_mode req = attachModeResume \<and>
     c_recovery (sv_heap s ! ref) = Some r \<and> rq_connectionID req = r_connectionID r \<and>
     rq_resumeSecret req = r_resumeSecret r \<and> cfg_codecID cfg = cfg_codecID (c_config (sv_heap s ! ref)) \<and>
     \<not> c_closed (sv_heap s ! ref) \<and>
     sv_heap s' ! ref = attachTransport now n (rq_lastRecvSeq req) (sv_heap s ! ref)"
proof -
  have t: "table_ok s" using reachable_ok [OF assms(1,2)] by (simp add: server_ok_def)
  from handleConn_old [OF h ref] obtain cfg net1 net2 s1 s2 res where
    hs: "handshakeServer codecs net (sv_codecs s) (sv_maxFrame s) (so_Enable (sv_recovery s)) = (Inr cfg, net1)"
    and s1: "sv_heap s1 = sv_heap s" "sv_recoveryConns s1 = sv_recoveryConns s"
    and r: "handleRecoveryConn now random1 random2 n net1 peer cfg s1 = (res, net2, s2)"
    and s2: "sv_heap s2 = sv_heap s'" .
  from handleRecoveryConn_old [OF r] ref s1 s2 obtain req net3 err where
    rq: "readAttachRequest net1 = (Inr req, net3)" "rq_mode req = attachModeResume"
    and ar: "attachResume now n net3 cfg req s1 = (err, net2, s2)" by metis
  from attachResume_old [OF ar, of ref] ref s1 s2 have
    a: "map_of (sv_recoveryConns s) (rq_connectionID req) = Some ref"
      "\<exists>r. c_recovery (sv_heap s ! ref) = Some r \<and> r_resumeSecret r = rq_resumeSecret req"
      "\<not> c_closed (sv_heap s ! ref)" "cfg_codecID (c_config (sv_heap s ! ref)) = cfg_codecID cfg"
      "sv_heap s' ! ref = attachTransport now n (rq_lastRecvSeq req) (sv_heap s ! ref)"
    by (simp_all add: lookupRecoveryConnection_def)
  from table_okD(4) [OF t a(1)] a(2) obtain rec where
    "c_recovery (sv_heap s ! ref) = Some rec" "r_connectionID rec = rq_connectionID req"
    "r_resumeSecret rec = rq_resumeSecret req" by auto
  with hs rq a(3-5) show ?thesis by (intro exI [of _ cfg] exI [of _ net1] exI [of _ req] exI [of _ net3] exI [of _ rec]) simp
qed

theorem resume_needs_secret_witness:
  "sv_heap (snd (handleConn sampleCodecs' 3 sampleRandom sampleRandom 2 ''b'' resumingNet attachedServer)) ! 0 =
     attachTransport 3 2 300 (sv_heap attachedServer ! 0) \<and>
   c_conn (sv_heap attachedServer ! 0) = Some 1"
proof -
  let ?h = "handleConn sampleCodecs' 3 sampleRandom sampleRandom 2 ''b'' resumingNet attachedServer"
  have c: "0 < length (sv_heap attachedServer)" "c_conn (sv_heap (snd ?h) ! 0) = Some 2"
    "c_conn (sv_heap attachedServer ! 0) = Some 1" by code_simp+
  then have "sv_heap (snd ?h) ! 0 \<noteq> sv_heap attachedServer ! 0" by force
  from resume_needs_secret [OF sampleServer_configured attachedServer_reachable prod.collapse [symmetric] c(1) this]
  obtain cfg net1 req net2 where
    "handshakeServer sampleCodecs' resumingNet (sv_codecs attachedServer) (sv_maxFrame attachedServer)
       (so_Enable (sv_recovery attachedServer)) = (Inr cfg, net1)"
    "readAttachRequest net1 = (Inr req, net2)"
    "sv_heap (snd ?h) ! 0 = attachTransport 3 2 (rq_lastRecvSeq req) (sv_heap attachedServer ! 0)" by blast
  moreover have "rq_lastRecvSeq (case handshakeServer sampleCodecs' resumingNet (sv_codecs attachedServer)
      (sv_maxFrame attachedServer) (so_Enable (sv_recovery attachedServer)) of (_, net) \<Rightarrow> projr (fst (readAttachRequest net))) = 300"
    by code_simp
  ultimately show ?thesis using c(3) by simp
qed

end
