(* ===== verification/Attach_Agreement.thy ===== *)
theory Attach_Agreement
  imports Client_Connect Server_Resume
begin

text \<open>
  The two ends of an attach: \<^verbatim>\<open>connectVersion\<close> and \<^verbatim>\<open>resumeClientTransport\<close> of the client against
  \<^verbatim>\<open>handleConn\<close> of the server, byte for byte. The client writes its whole handshake request before it
  reads, and its attach request before it reads the response, and neither depends on what it has
  read so far; so a run of the two ends is the server on the client's bytes and the client on the
  server's.
\<close>

section \<open>The server's side\<close>

text \<open>The bytes a client sends: the handshake and the attach request.\<close>

definition clientBytes :: "CodecID list \<Rightarrow> u32 \<Rightarrow> attachRequest \<Rightarrow> bytes" where
  "clientBytes codecs maxFrame req = handshakeRequest codecs maxFrame protocolVersionV3 @ attachRequestBytes req"

text \<open>The bytes a server sends that accepts both.\<close>

definition serverBytes :: "CodecID \<Rightarrow> u32 \<Rightarrow> attachResponse \<Rightarrow> bytes" where
  "serverBytes i maxFrame resp = handshakeReply 1 protocolVersionV3 i maxFrame @ responseEnc resp"

text \<open>Options that a server can send and a client accepts; the client reads \<^const>\<open>wireOptions\<close> of them.\<close>

definition sendable :: "negotiatedRecoveryOptions \<Rightarrow> bool" where
  "sendable n \<longleftrightarrow> wire_range n \<and> \<not> tooFast n"

lemma whole_sendable:
  assumes "whole_millis n"
  shows "sendable n" "wireOptions n = n"
proof -
  have v: "negotiated_valid n" and d: "Millisecond dvd no_AckDelay n" "Millisecond dvd no_HeartbeatInterval n"
    "Millisecond dvd no_HeartbeatTimeout n" and b: "no_AckDelay n < 4294967296 * Millisecond" "no_HeartbeatTimeout n < 4294967296 * Millisecond"
    using assms by (auto simp: whole_millis_def)
  have p: "0 < no_AckDelay n" "0 < no_HeartbeatInterval n" "0 < no_HeartbeatTimeout n" using v by (auto simp: negotiated_valid_def)
  have "wireMillis x * Millisecond = x" if "Millisecond dvd x" "0 < x" for x
    using that by (auto simp: wireMillis_def Millisecond_def)
  then show "wireOptions n = n" using d p by (simp add: wireOptions_def)
  show "sendable n" using v b Millisecond_dvd_le [OF d(2) p(2)] by (simp add: sendable_def wire_range_def tooFast_def)
qed

lemma wireOptions_whole:
  assumes "sendable n"
  shows "whole_millis (wireOptions n)"
proof -
  have "wire_range (wireOptions n)" "negotiated_valid (wireOptions n)"
    using wireOptions_valid [of n] assms by (simp_all add: sendable_def)
  then show ?thesis by (auto simp: whole_millis_def wire_range_def) (auto simp: wireOptions_def)
qed

lemma responseEnc_wire:
  assumes "sendable (rs_negotiated resp)"
  shows "responseEnc (resp\<lparr>rs_negotiated := wireOptions (rs_negotiated resp)\<rparr>) = responseEnc resp"
  using wireOptions_encode [of "rs_negotiated resp"] assms by (simp add: responseEnc_def sendable_def attachResponseBytes_def split: sum.split)

lemma writeAttachResponse_ok:
  assumes "sendable (rs_negotiated resp)" "nc_room net = None"
  shows "writeAttachResponse net resp = (None, net\<lparr>nc_out := nc_out net @ responseEnc resp\<rparr>)"
proof -
  from assms(1) obtain e where "encodeNegotiatedRecoveryOptions (rs_negotiated resp) = Inr e"
    using wire_exact by (auto simp: sendable_def)
  with assms(2) show ?thesis by (simp add: writeAttachResponse_def responseEnc_def writeFull_conn_room)
qed

lemma net_conn_commute: "net\<lparr>nc_out := y, nc_in := x\<rparr> = net\<lparr>nc_in := x, nc_out := y\<rparr>"
  by simp

lemma writeAttachRequest_ok:
  "nc_room net = None \<Longrightarrow> writeAttachRequest net req = (None, net\<lparr>nc_out := nc_out net @ attachRequestBytes req\<rparr>)"
  by (simp add: writeAttachRequest_def writeFull_conn_room)

lemma readAttachRequest_ok:
  "request_ok req \<Longrightarrow> nc_in net = attachRequestBytes req @ rest \<Longrightarrow>
     readAttachRequest net = (Inr req, net\<lparr>nc_in := rest\<rparr>)"
  unfolding readAttachRequest_def by (rule attach_request.readWith_enc)

lemma readAttachResponse_ok:
  "response_ok resp \<Longrightarrow> nc_in net = responseEnc resp @ rest \<Longrightarrow>
     readAttachResponse net = (Inr resp, net\<lparr>nc_in := rest\<rparr>)"
  unfolding readAttachResponse_def by (rule attach_response.readWith_enc)

lemma supported_v3: "isSupportedProtocolVersion protocolVersionV3"
  by (simp add: isSupportedProtocolVersion_def)

text \<open>The handshake of version 3 on the bytes of a client.\<close>

lemma handshake_v3:
  assumes "validateCodecList reg codecsS = None" "codecs \<noteq> []" "length codecs \<le> 16"
    "selectCodec codecs codecsS = Some i" "nc_room net = None"
  obtains cfg where
    "handshakeServer reg (net\<lparr>nc_in := clientBytes codecs m req @ rest\<rparr>) codecsS maxS True =
       (Inr cfg, net\<lparr>nc_in := attachRequestBytes req @ rest,
                     nc_out := nc_out net @ handshakeReply 1 protocolVersionV3 i (min m maxS)\<rparr>)"
    "cfg_version cfg = protocolVersionV3" "cfg_codecID cfg = i" "cfg_maxFrame cfg = min m maxS" "cfg_wf cfg"
proof -
  from selectCodec_SomeD [OF assms(4)] validateCodecList_ok(3) [OF assms(1)] obtain c where "reg i = Some c" by blast
  from newConnConfig_exists [of reg, OF this supported_v3, of "min m maxS"] obtain cfg where
    cfg: "newConnConfig reg protocolVersionV3 i (min m maxS) = Inr cfg" "cfg_wf cfg" "cfg_version cfg = protocolVersionV3"
      "cfg_codecID cfg = i" "cfg_maxFrame cfg = min m maxS" by blast
  with handshakeServer_request [OF assms(1-3) supported_v3 assms(5), of m "attachRequestBytes req @ rest" maxS True]
    assms(4) that show ?thesis
    by (simp add: clientBytes_def serverAnswer_def serverResult_def)
qed

text \<open>And of the client on the bytes of a server.\<close>

lemma handshake_v3_client:
  assumes "validateCodecList reg codecs = None" "i \<in> set codecs" "nc_room net = None"
    "nc_in net = serverBytes i m resp @ rest"
  obtains cfg net' where
    "handshakeClient reg net codecs m' protocolVersionV3 = (Inr cfg, net')"
    "nc_in net' = responseEnc resp @ rest" "nc_room net' = None"
    "cfg_version cfg = protocolVersionV3" "cfg_codecID cfg = i" "cfg_maxFrame cfg = m" "cfg_wf cfg"
    "nc_out net' = nc_out net @ handshakeRequest codecs m' protocolVersionV3"
proof -
  from assms(1,2) validateCodecList_ok(3) obtain c where "reg i = Some c" by blast
  from newConnConfig_exists [of reg, OF this supported_v3, of m] obtain cfg where
    cfg: "newConnConfig reg protocolVersionV3 i m = Inr cfg" "cfg_wf cfg" "cfg_version cfg = protocolVersionV3"
      "cfg_codecID cfg = i" "cfg_maxFrame cfg = m" by blast
  with handshakeClient_reply [OF assms(1) supported_v3 assms(3), of 1 protocolVersionV3 i m "responseEnc resp @ rest"]
    assms that show ?thesis by (simp add: serverBytes_def)
qed

lemma attachTransport_more:
  assumes "\<not> c_closed c"
  shows "c_conn (attachTransport now n q c) = Some n" "c_transportResume (attachTransport now n q c) = q"
    "c_closed (attachTransport now n q c) = False" "c_config (attachTransport now n q c) = c_config c"
    "c_recovery (attachTransport now n q c) = map_option onAttached (c_recovery c)"
    "c_nextSendSeq (attachTransport now n q c) = c_nextSendSeq c"
  using assms by (auto simp: attachTransport_def signalSend_def armReadDeadline_def closeNet_def Let_def split: option.splits)

lemma snapshot_newReplayBuffer: "snapshotFrom (newReplayBuffer version maxBytes) q = []"
  by (simp add: snapshotFrom_def newReplayBuffer_def Let_def List.map_filter_def)

lemma attachTransport_forgets [simp]: "c_serverForgets (attachTransport now n q c) = c_serverForgets c"
  by (auto simp: attachTransport_def signalSend_def armReadDeadline_def closeNet_def Let_def split: option.splits)

lemma updConn_recoveryConns:
  "\<not> c_serverForgets (f (sv_heap s ! ref)) \<Longrightarrow> sv_recoveryConns (updConn ref f s) = sv_recoveryConns s"
  by (simp add: updConn_def Let_def split: option.split)

text \<open>The request of a new connection.\<close>

definition newRequest :: attachRequest where
  "newRequest = \<lparr>rq_mode = attachModeNew, rq_connectionID = zeroToken, rq_resumeSecret = zeroToken, rq_lastRecvSeq = 0\<rparr>"

lemma newRequest_ok: "request_ok newRequest"
  by (simp add: request_ok_def newRequest_def zeroToken_def token_defs)

text \<open>What the server answers to a new and to a resumed connection.\<close>

definition newResponse :: "recoveryToken \<Rightarrow> recoveryToken \<Rightarrow> negotiatedRecoveryOptions \<Rightarrow> attachResponse" where
  "newResponse i secret opts = \<lparr>rs_status = attachStatusOK, rs_connectionID = i, rs_resumeSecret = secret,
     rs_lastRecvSeq = 0, rs_negotiated = opts\<rparr>"

definition resumeResponse :: "recoveryState \<Rightarrow> attachResponse" where
  "resumeResponse r = \<lparr>rs_status = attachStatusOK, rs_connectionID = r_connectionID r, rs_resumeSecret = r_resumeSecret r,
     rs_lastRecvSeq = lastReceived r, rs_negotiated = r_shared r\<rparr>"

text \<open>The connection a server makes for it, before its transport is attached.\<close>

definition freshConnection ::
    "nat \<Rightarrow> ('m, 'b) CodecImpl connConfig \<Rightarrow> recoveryToken \<Rightarrow> recoveryToken \<Rightarrow> ('m, 'b, 'h) Server \<Rightarrow> ('m, 'b, 'h) Connection" where
  "freshConnection n config i secret s = (pendingConnection n s)\<lparr>c_config := config,
     c_recovery := Some (newServerRecoveryState (sv_recovery s) True i secret)\<rparr>"

text \<open>\<^verbatim>\<open>OnConnect\<close> is not set, or lets the peer in.\<close>

definition admits :: "('m, 'b, 'h) Server \<Rightarrow> string \<Rightarrow> bool" where
  "admits s peer \<longleftrightarrow> (case sv_onConnect s of None \<Rightarrow> True | Some f \<Rightarrow> f peer = None)"

lemma admits_callOnConnect:
  assumes "admits s peer"
  obtains s' where "callOnConnect peer s = (None, s')" "sv_heap s' = sv_heap s" "sv_recoveryConns s' = sv_recoveryConns s"
    "sv_tasks s' = sv_tasks s"
  using assms by (auto simp: admits_def callOnConnect_def split: option.splits)

lemma attachNew_ok:
  assumes "random1 recoveryTokenLen = Inr i" "random2 recoveryTokenLen = Inr secret" "admits s peer"
    and resp: "sendable (negotiated (sv_recovery s))" and room: "nc_room net = None"
  obtains s' where
    "attachNew now random1 random2 n net peer config s =
       (Inr (length (sv_heap s)),
        net\<lparr>nc_out := nc_out net @ responseEnc (newResponse i secret (negotiated (sv_recovery s)))\<rparr>, s')"
    "sv_heap s' = sv_heap s @ [start (attachTransport now n 0 (freshConnection n config i secret s))]" "sv_tasks s' = sv_tasks s"
    "lookupRecoveryConnection i s' = Some (length (sv_heap s))"
proof -
  define c0 where "c0 = freshConnection n config i secret s"
  have f: "\<not> c_serverForgets c0" "\<not> c_closed c0" by (simp_all add: c0_def freshConnection_def)
  let ?ref = "length (sv_heap s)"
  define s2 where "s2 = setDeadline n None (storeRecoveryConnection i ?ref (s\<lparr>sv_heap := sv_heap s @ [c0]\<rparr>))"
  define s3 where "s3 = updConn ?ref (attachTransport now n 0) s2"
  have h2: "sv_heap s2 = sv_heap s @ [c0]" "map_of (sv_recoveryConns s2) i = Some ?ref" "sv_tasks s2 = sv_tasks s"
    by (simp_all add: s2_def storeRecoveryConnection_def AList.update_conv')
  have h3: "sv_heap s3 = sv_heap s @ [attachTransport now n 0 c0]" "sv_recoveryConns s3 = sv_recoveryConns s2"
    "sv_tasks s3 = sv_tasks s" "sv_onConnect s3 = sv_onConnect s"
    using h2 f by (simp_all add: s3_def updConn_recoveryConns)
      (simp add: s2_def updConn_def storeRecoveryConnection_def Let_def removeRecoveryConnection_def split: option.split)
  have "admits s3 peer" using assms(3) h3(4) by (simp add: admits_def)
  then obtain s3' where cb: "callOnConnect peer s3 = (None, s3')" "sv_heap s3' = sv_heap s3" "sv_recoveryConns s3' = sv_recoveryConns s3"
    "sv_tasks s3' = sv_tasks s3" by (rule admits_callOnConnect)
  define s4 where "s4 = updConn ?ref start s3'"
  have h4: "sv_heap s4 = sv_heap s @ [start (attachTransport now n 0 c0)]" "sv_recoveryConns s4 = sv_recoveryConns s2"
    "sv_tasks s4 = sv_tasks s"
    using h3 cb f by (simp_all add: s4_def updConn_recoveryConns start_def)
  have "attachNew now random1 random2 n net peer config s =
      (Inr ?ref, net\<lparr>nc_out := nc_out net @ responseEnc (newResponse i secret (negotiated (sv_recovery s)))\<rparr>, s4)"
    using writeAttachResponse_ok [of "newResponse i secret (negotiated (sv_recovery s))" net] resp room assms(1,2) cb(1)
    by (simp add: attachNew_def newRecoveryToken_def newConn_def Let_def newResponse_def s4_def s3_def s2_def c0_def freshConnection_def)
  with that h2 h4 show ?thesis by (simp add: lookupRecoveryConnection_def c0_def)
qed

lemma attachResume_ok:
  assumes "lookupRecoveryConnection (rq_connectionID req) s = Some ref" "c_recovery (sv_heap s ! ref) = Some r"
    "\<not> c_closed (sv_heap s ! ref)" "r_resumeSecret r = rq_resumeSecret req"
    "cfg_codecID (c_config (sv_heap s ! ref)) = cfg_codecID config"
    and resp: "sendable (r_shared r)" and room: "nc_room net = None"
  shows "attachResume now n net config req s =
     (None, net\<lparr>nc_out := nc_out net @ responseEnc (resumeResponse r)\<rparr>,
      updConn ref (attachTransport now n (rq_lastRecvSeq req)) (setDeadline n None s))"
  using assms(1-5) writeAttachResponse_ok [of "resumeResponse r" net] resp room by (simp add: attachResume_def resumeResponse_def Let_def)

section \<open>The two ends\<close>

text \<open>\<^verbatim>\<open>handleConn\<close> on the bytes of a client of version 3.\<close>

lemma handleConn_v3:
  assumes "validateCodecList reg (sv_codecs s) = None" "codecs \<noteq> []" "length codecs \<le> 16"
    "selectCodec codecs (sv_codecs s) = Some i" "nc_room net = None" "nc_out net = []"
    "so_Enable (sv_recovery s)" "request_ok req"
  obtains cfg s1 where "cfg_version cfg = protocolVersionV3" "cfg_codecID cfg = i"
    "cfg_maxFrame cfg = min m (sv_maxFrame s)"
    "s1 = s \<or> (\<exists>t. s1 = setDeadline n t s)"
    "handleConn reg now random1 random2 n peer (net\<lparr>nc_in := clientBytes codecs m req @ rest\<rparr>) s =
       (case handleRecoveryConn now random1 random2 n
               (net\<lparr>nc_in := attachRequestBytes req @ rest, nc_out := handshakeReply 1 protocolVersionV3 i (min m (sv_maxFrame s))\<rparr>)
               peer cfg s1 of
          (Inl e, net2, s2) \<Rightarrow> (net2, taskEnds' (Handshaking n peer) (endHandshake n (closeServerNet n s2)))
        | (Inr None, net2, s2) \<Rightarrow> (net2, taskEnds' (Handshaking n peer) (endHandshake n s2))
        | (Inr (Some ref), net2, s2) \<Rightarrow> (net2, taskBecomes (Handshaking n peer) (Tracking ref n peer True) s2))"
proof -
  let ?s1 = "if sv_handshakeTimeout s > 0 then setDeadline n (Some (now + sv_handshakeTimeout s)) s else s"
  have 1: "sv_codecs ?s1 = sv_codecs s" "sv_maxFrame ?s1 = sv_maxFrame s" "so_Enable (sv_recovery ?s1)"
    using assms(7) by (simp_all add: setDeadline_def)
  from handshake_v3 [OF assms(1-5), of m req rest "sv_maxFrame s"] obtain cfg where
    cfg: "handshakeServer reg (net\<lparr>nc_in := clientBytes codecs m req @ rest\<rparr>) (sv_codecs s) (sv_maxFrame s) True =
       (Inr cfg, net\<lparr>nc_in := attachRequestBytes req @ rest,
                     nc_out := handshakeReply 1 protocolVersionV3 i (min m (sv_maxFrame s))\<rparr>)"
      "cfg_version cfg = protocolVersionV3" "cfg_codecID cfg = i" "cfg_maxFrame cfg = min m (sv_maxFrame s)"
    using assms(6) by (metis append_Nil)
  have "?s1 = s \<or> (\<exists>t. ?s1 = setDeadline n t s)" by auto
  from that [OF cfg(2-4) this] cfg 1 show ?thesis by (simp add: handleConn_def Let_def)
qed

text \<open>Options of a server, as the builder method leaves them, that it can send and a client accepts.\<close>

definition attach_options :: "ServerRecoveryOptions \<Rightarrow> bool" where
  "attach_options opts \<longleftrightarrow> normalizedServer opts = opts \<and> sendable (negotiated opts)"

text \<open>A new session on the server: the bytes it sends and the connection it keeps.\<close>

lemma handleConn_new:
  assumes S: "validateCodecList reg (sv_codecs s) = None" and cs: "codecs \<noteq> []" "length codecs \<le> 16"
    and common: "selectCodec codecs (sv_codecs s) = Some i"
    and rec: "so_Enable (sv_recovery s)" "attach_options (sv_recovery s)" "admits s peer"
    and tokens: "random1 recoveryTokenLen = Inr token" "random2 recoveryTokenLen = Inr secret" "token_ok token" "token_ok secret"
    and room: "nc_room net = None" "nc_out net = []"
  defines "opts \<equiv> negotiated (sv_recovery s)"
  obtains s' c r where
    "handleConn reg now random1 random2 n peer (net\<lparr>nc_in := clientBytes codecs m newRequest @ rest\<rparr>) s =
       (net\<lparr>nc_in := rest, nc_out := serverBytes i (min m (sv_maxFrame s)) (newResponse token secret (wireOptions opts))\<rparr>, s')"
    "response_ok (newResponse token secret (wireOptions opts))"
    "sv_heap s' = sv_heap s @ [c]" "lookupRecoveryConnection token s' = Some (length (sv_heap s))"
    "Tracking (length (sv_heap s)) n peer True \<in> set (sv_tasks s')"
    "started c" "\<not> c_closed c" "c_conn c = Some n" "c_transportResume c = 0" "c_recovery c = Some r"
    "r_connectionID r = token" "r_resumeSecret r = secret" "r_shared r = opts" "r_lastRecvSeq r = 0"
    "cfg_version (c_config c) = protocolVersionV3" "cfg_codecID (c_config c) = i"
    "cfg_maxFrame (c_config c) = min m (sv_maxFrame s)" "snapshotFrom (r_replay r) 0 = []" "c_nextSendSeq c = 0"
proof -
  let ?m = "min m (sv_maxFrame s)" and ?resp = "newResponse token secret (wireOptions opts)"
  let ?net1 = "net\<lparr>nc_in := rest, nc_out := handshakeReply 1 protocolVersionV3 i ?m\<rparr>"
  let ?net2 = "net\<lparr>nc_in := rest, nc_out := serverBytes i ?m ?resp\<rparr>"
  have can: "sendable opts" using rec(2) by (simp add: attach_options_def opts_def)
  have resp: "response_ok ?resp" using tokens(3,4) wireOptions_whole [OF can] by (simp add: response_ok_def newResponse_def)
  have bytes: "responseEnc ?resp = responseEnc (newResponse token secret opts)"
    using responseEnc_wire [of "newResponse token secret opts"] can by (simp add: newResponse_def)
  obtain cfg s1 where hc: "cfg_version cfg = protocolVersionV3" "cfg_codecID cfg = i" "cfg_maxFrame cfg = ?m"
      "s1 = s \<or> (\<exists>t. s1 = setDeadline n t s)"
      "handleConn reg now random1 random2 n peer (net\<lparr>nc_in := clientBytes codecs m newRequest @ rest\<rparr>) s =
       (case handleRecoveryConn now random1 random2 n
               (net\<lparr>nc_in := attachRequestBytes newRequest @ rest, nc_out := handshakeReply 1 protocolVersionV3 i ?m\<rparr>) peer cfg s1 of
          (Inl e, net2, s2) \<Rightarrow> (net2, taskEnds' (Handshaking n peer) (endHandshake n (closeServerNet n s2)))
        | (Inr None, net2, s2) \<Rightarrow> (net2, taskEnds' (Handshaking n peer) (endHandshake n s2))
        | (Inr (Some ref), net2, s2) \<Rightarrow> (net2, taskBecomes (Handshaking n peer) (Tracking ref n peer True) s2))"
    by (rule handleConn_v3 [OF S cs common room rec(1) newRequest_ok])
  have s1: "sv_heap s1 = sv_heap s" "sv_recovery s1 = sv_recovery s" "admits s1 peer"
    using hc(4) rec(3) by (auto simp: admits_def)
  let ?f = "freshConnection n cfg token secret s1" and ?r = "newServerRecoveryState (sv_recovery s1) True token secret"
  let ?c = "start (attachTransport now n 0 ?f)"
  obtain s2 where an: "attachNew now random1 random2 n ?net1 peer cfg s1 = (Inr (length (sv_heap s)), ?net2, s2)"
      "sv_heap s2 = sv_heap s @ [?c]" "lookupRecoveryConnection token s2 = Some (length (sv_heap s))"
    by (rule attachNew_ok [of random1 token random2 secret s1 peer ?net1 now n cfg, OF tokens(1,2) s1(3)])
       (use bytes can room s1 in \<open>simp_all add: serverBytes_def opts_def\<close>)
  have "handleRecoveryConn now random1 random2 n
      (net\<lparr>nc_in := attachRequestBytes newRequest @ rest, nc_out := handshakeReply 1 protocolVersionV3 i ?m\<rparr>) peer cfg s1 =
      (Inr (Some (length (sv_heap s))), ?net2, s2)"
    using readAttachRequest_ok [OF newRequest_ok, of "?net1\<lparr>nc_in := attachRequestBytes newRequest @ rest\<rparr>" rest] an(1)
    by (simp add: handleRecoveryConn_def newRequest_def net_conn_commute)
  with hc(5) have e: "handleConn reg now random1 random2 n peer (net\<lparr>nc_in := clientBytes codecs m newRequest @ rest\<rparr>) s =
      (?net2, taskBecomes (Handshaking n peer) (Tracking (length (sv_heap s)) n peer True) s2)" by simp
  have f: "\<not> c_closed ?f" "c_recovery ?f = Some ?r" "c_config ?f = cfg" by (simp_all add: freshConnection_def)
  have r: "r_connectionID ?r = token" "r_resumeSecret ?r = secret" "r_lastRecvSeq ?r = 0" "r_shared ?r = opts"
    "snapshotFrom (r_replay ?r) 0 = []"
    using rec(2) s1(2) can
    by (simp_all add: newServerRecoveryState_def setNegotiated_def zeroRecoveryState_def attach_options_def sendable_def wire_range_def
          negotiated_valid_fixed opts_def snapshot_newReplayBuffer Let_def)
  have c: "c_conn ?c = Some n" "\<not> c_closed ?c" "started ?c" "c_transportResume ?c = 0" "c_config ?c = cfg"
    "c_recovery ?c = Some (onAttached ?r)" "c_nextSendSeq ?c = 0"
    using attachTransport_more [OF f(1), of now n 0] f
    by (simp_all add: start_def started_def) (simp add: freshConnection_def pendingConnection_def newPendingConnection_def)
  show ?thesis
    by (rule that [OF e resp, of ?c "onAttached ?r"])
       (use an c r hc(1-3) in \<open>simp_all add: taskBecomes_def lookupRecoveryConnection_def onAttached_def\<close>)
qed

text \<open>A resumed session on the server.\<close>

lemma handleConn_resume:
  assumes S: "validateCodecList reg (sv_codecs s) = None" and i: "i \<in> set (sv_codecs s)"
    and rec: "so_Enable (sv_recovery s)" and room: "nc_room net = None" "nc_out net = []"
    and req: "request_ok req" "rq_mode req = attachModeResume"
    and c: "lookupRecoveryConnection (rq_connectionID req) s = Some ref" "ref < length (sv_heap s)"
      "c_recovery (sv_heap s ! ref) = Some r" "\<not> c_closed (sv_heap s ! ref)" "r_resumeSecret r = rq_resumeSecret req"
      "cfg_codecID (c_config (sv_heap s ! ref)) = i" and resp: "response_ok (resumeResponse r)"
  obtains s' where
    "handleConn reg now random1 random2 n peer (net\<lparr>nc_in := clientBytes [i] m req @ rest\<rparr>) s =
       (net\<lparr>nc_in := rest, nc_out := serverBytes i (min m (sv_maxFrame s)) (resumeResponse r)\<rparr>, s')"
    "sv_heap s' = (sv_heap s)[ref := attachTransport now n (rq_lastRecvSeq req) (sv_heap s ! ref)]"
proof -
  let ?m = "min m (sv_maxFrame s)"
  let ?net1 = "net\<lparr>nc_in := rest, nc_out := handshakeReply 1 protocolVersionV3 i ?m\<rparr>"
  let ?net2 = "net\<lparr>nc_in := rest, nc_out := serverBytes i ?m (resumeResponse r)\<rparr>"
  have common: "selectCodec [i] (sv_codecs s) = Some i" using i by (simp add: selectCodec_find)
  obtain cfg s1 where hc: "cfg_codecID cfg = i" "s1 = s \<or> (\<exists>t. s1 = setDeadline n t s)"
      "handleConn reg now random1 random2 n peer (net\<lparr>nc_in := clientBytes [i] m req @ rest\<rparr>) s =
       (case handleRecoveryConn now random1 random2 n
               (net\<lparr>nc_in := attachRequestBytes req @ rest, nc_out := handshakeReply 1 protocolVersionV3 i ?m\<rparr>) peer cfg s1 of
          (Inl e, net2, s2) \<Rightarrow> (net2, taskEnds' (Handshaking n peer) (endHandshake n (closeServerNet n s2)))
        | (Inr None, net2, s2) \<Rightarrow> (net2, taskEnds' (Handshaking n peer) (endHandshake n s2))
        | (Inr (Some ref), net2, s2) \<Rightarrow> (net2, taskBecomes (Handshaking n peer) (Tracking ref n peer True) s2))"
    by (rule handleConn_v3 [OF S _ _ common room rec req(1)]) simp_all
  have can: "sendable (r_shared r)" using resp whole_sendable(1) by (simp add: response_ok_def resumeResponse_def)
  have s1: "sv_heap s1 = sv_heap s" "lookupRecoveryConnection (rq_connectionID req) s1 = Some ref"
    using hc(2) c(1) by (auto simp: lookupRecoveryConnection_def)
  let ?s2 = "updConn ref (attachTransport now n (rq_lastRecvSeq req)) (setDeadline n None s1)"
  have "attachResume now n ?net1 cfg req s1 = (None, ?net2, ?s2)"
    using attachResume_ok [of req s1 ref r cfg ?net1 now n] s1 c hc(1) can room by (simp add: serverBytes_def)
  then have "handleRecoveryConn now random1 random2 n
      (net\<lparr>nc_in := attachRequestBytes req @ rest, nc_out := handshakeReply 1 protocolVersionV3 i ?m\<rparr>) peer cfg s1 =
      (Inr None, ?net2, ?s2)"
    using readAttachRequest_ok [OF req(1), of "?net1\<lparr>nc_in := attachRequestBytes req @ rest\<rparr>" rest] req(2)
    by (simp add: handleRecoveryConn_def net_conn_commute attachModeNew_def attachModeResume_def)
  with hc(3) that [of "taskEnds' (Handshaking n peer) (endHandshake n ?s2)"] s1 show ?thesis by simp
qed

text \<open>\<^verbatim>\<open>connectVersion\<close> on the bytes of a server that accepts.\<close>

lemma connectVersion_v3:
  fixes reg :: "('m, 'b) CodecImpl codecRegistry" and cl :: "('m, 'h) Client"
  assumes C: "validateCodecList reg (cl_codecs cl) = None" and i: "i \<in> set (cl_codecs cl)" and room: "nc_room netC = None"
    and resp: "response_ok resp" "rs_status resp = attachStatusOK"
    and dial: "\<And>t. nw_dial nw (dw_dials w) ''tcp'' host t = Inr (netC\<lparr>nc_in := serverBytes i m resp @ rest\<rparr>)"
    and time: "\<And>d. deadline = Some d \<Longrightarrow> dw_now w < d"
  obtains c :: "('m, 'b, 'h) Connection" and net w' r where
    "connectVersion reg nw cl (''tcp://'' @ host) deadline protocolVersionV3 w = Some (Inr (c, net), w')"
    "nc_in net = rest" "c_conn c = Some (dw_dials w)" "\<not> c_closed c" "started c" "c_transportResume c = rs_lastRecvSeq resp"
    "cfg_version (c_config c) = protocolVersionV3" "cfg_codecID (c_config c) = i" "cfg_maxFrame (c_config c) = m"
    "c_recovery c = Some r" "r_connectionID r = rs_connectionID resp" "r_resumeSecret r = rs_resumeSecret resp"
    "r_shared r = rs_negotiated resp" "r_addr r = ''tcp://'' @ host" "r_timeout r = cl_connectTimeout cl" "r_lastRecvSeq r = 0"
    "r_role r = recoveryRoleClient" "snapshotFrom (r_replay r) 0 = []" "c_nextSendSeq c = 0"
    "nc_out net = nc_out netC @ clientBytes (cl_codecs cl) (cl_maxFrame cl) newRequest"
proof -
  let ?k = "dw_dials w"
  define addr where "addr = ''tcp://'' @ host"
  define pending :: "('m, 'b, 'h) Connection" where "pending = (newPendingConnection ?k (cl_registry cl) False False)
      \<lparr>c_recvTimeout := cl_recvTimeout cl, c_streamQueueSize := cl_streamQueueSize cl\<rparr>"
  obtain w1 where d: "dialBefore nw addr deadline w = (Inr (?k, netC\<lparr>nc_in := serverBytes i m resp @ rest\<rparr>), w1)"
    using dialBefore_tcp [OF dial time] unfolding addr_def by blast
  from room have room1: "nc_room (netC\<lparr>nc_in := serverBytes i m resp @ rest\<rparr>) = None" by simp
  obtain cfg net1 where h: "handshakeClient reg (netC\<lparr>nc_in := serverBytes i m resp @ rest\<rparr>) (cl_codecs cl) (cl_maxFrame cl) protocolVersionV3 = (Inr cfg, net1)"
      "nc_in net1 = responseEnc resp @ rest" "nc_room net1 = None" "cfg_version cfg = protocolVersionV3" "cfg_codecID cfg = i"
      "cfg_maxFrame cfg = m" "nc_out net1 = nc_out netC @ handshakeRequest (cl_codecs cl) (cl_maxFrame cl) protocolVersionV3"
    by (rule handshake_v3_client [OF C i room1, of m resp rest "cl_maxFrame cl"]) simp_all
  let ?w2 = "dw_talk nw ?k w1"
  let ?r = "newClientRecoveryState (cl_recovery cl) (rs_negotiated resp) addr (cl_connectTimeout cl)
      (rs_connectionID resp) (rs_resumeSecret resp)"
  let ?c = "pending\<lparr>c_config := cfg, c_recovery := Some ?r\<rparr>"
  let ?c1 = "start (attachTransport (dw_now ?w2) ?k (rs_lastRecvSeq resp) ?c)"
  let ?net2 = "net1\<lparr>nc_in := rest, nc_out := nc_out net1 @ attachRequestBytes newRequest\<rparr>"
  have "startRecoveryConnection cl addr ?k net1 pending cfg ?w2 = Some (Inr (?c1, ?net2), dw_setDeadline ?k None ?w2)"
    using writeAttachRequest_ok [OF h(3), of newRequest] h(2) resp(2)
      readAttachResponse_ok [OF resp(1), of "net1\<lparr>nc_out := nc_out net1 @ attachRequestBytes newRequest\<rparr>" rest]
    by (simp add: startRecoveryConnection_def newRequest_def Let_def)
  then have e: "connectVersion reg nw cl addr deadline protocolVersionV3 w = Some (Inr (?c1, ?net2), dw_setDeadline ?k None ?w2)"
    using d h(1,4) by (simp add: connectVersion_def Let_def pending_def)
  have open': "\<not> c_closed ?c" by (simp add: pending_def newPendingConnection_def)
  note a = attachTransport_more [OF open', of "dw_now ?w2" ?k "rs_lastRecvSeq resp"]
  have v: "negotiated_valid (rs_negotiated resp)" using resp(1) by (simp add: response_ok_def whole_millis_def)
  have r: "r_connectionID ?r = rs_connectionID resp" "r_resumeSecret ?r = rs_resumeSecret resp" "r_shared ?r = rs_negotiated resp"
    "r_addr ?r = addr" "r_timeout ?r = cl_connectTimeout cl" "r_lastRecvSeq ?r = 0" "r_role ?r = recoveryRoleClient"
    "snapshotFrom (r_replay ?r) 0 = []"
    using v by (simp_all add: newClientRecoveryState_def setNegotiated_def zeroRecoveryState_def negotiated_valid_fixed
      snapshot_newReplayBuffer Let_def)
  have c1: "c_conn ?c1 = Some ?k" "\<not> c_closed ?c1" "started ?c1" "c_transportResume ?c1 = rs_lastRecvSeq resp" "c_config ?c1 = cfg"
    "c_recovery ?c1 = Some (onAttached ?r)" "c_nextSendSeq ?c1 = 0"
    using a by (simp_all add: start_def started_def) (simp add: pending_def newPendingConnection_def)
  show ?thesis
    by (rule that [folded addr_def, OF e _ c1(1-4) _ _ _ c1(6)])
       (use r h c1(5,7) in \<open>simp_all add: onAttached_def clientBytes_def\<close>)
qed

text \<open>A resume request of the client, and \<^verbatim>\<open>resumeClientTransport\<close> on the bytes of a server that
  accepts it.\<close>

definition resumeRequest :: "recoveryState \<Rightarrow> u64 \<Rightarrow> attachRequest" where
  "resumeRequest r received = \<lparr>rq_mode = attachModeResume, rq_connectionID = r_connectionID r,
     rq_resumeSecret = r_resumeSecret r, rq_lastRecvSeq = received\<rparr>"

lemma resumeClientTransport_v3:
  assumes C: "validateCodecList reg [i] = None" and room: "nc_room netC = None"
    and resp: "response_ok resp" "rs_status resp = attachStatusOK"
    and c: "c_recovery c = Some r" "cfg_codecID (c_config c) = i" "r_addr r = ''tcp://'' @ host"
    and c1: "c_recovery (env c) = Some r1" "cfg_codecID (c_config (env c)) = i"
    and c2: "c_recovery (env' (env c)) = Some r2" "\<not> c_closed (env' (env c))"
    and dial: "\<And>t. nw_dial nw (dw_dials w) ''tcp'' host t = Inr (netC\<lparr>nc_in := serverBytes i m resp @ rest\<rparr>)"
  obtains net c' w' where
    "resumeClientTransport reg nw env env' c w = Some (Inr (dw_dials w, net), c', w')"
    "nc_in net = rest" "nc_out net = nc_out netC @ clientBytes [i] (cfg_maxFrame (c_config c)) (resumeRequest r (lastReceived r1))"
    "c_conn c' = Some (dw_dials w)" "\<not> c_closed c'" "c_transportResume c' = rs_lastRecvSeq resp"
    "c_recovery c' = Some (onAttached (setNegotiated (rs_negotiated resp) r2))" "dw_dials w' = Suc (dw_dials w)"
proof -
  let ?k = "dw_dials w" and ?d = "if r_timeout r > 0 then Some (dw_now w + r_timeout r) else None"
  let ?req = "resumeRequest r (lastReceived r1)"
  have time: "dw_now w < d" if "?d = Some d" for d using that by (auto split: if_splits)
  obtain w1 where d: "dialBefore nw (r_addr r) ?d w = (Inr (?k, netC\<lparr>nc_in := serverBytes i m resp @ rest\<rparr>), w1)"
      "dw_dials w1 = Suc ?k"
    unfolding c(3) by (rule dialBefore_tcp [OF dial time])
  from room have room1: "nc_room (netC\<lparr>nc_in := serverBytes i m resp @ rest\<rparr>) = None" by simp
  obtain cfg net1 where h: "handshakeClient reg (netC\<lparr>nc_in := serverBytes i m resp @ rest\<rparr>) [i] (cfg_maxFrame (c_config c)) protocolVersionV3 = (Inr cfg, net1)"
      "nc_in net1 = responseEnc resp @ rest" "nc_room net1 = None" "cfg_codecID cfg = i"
      "nc_out net1 = nc_out netC @ handshakeRequest [i] (cfg_maxFrame (c_config c)) protocolVersionV3"
    by (rule handshake_v3_client [OF C _ room1, of i m resp rest "cfg_maxFrame (c_config c)"]) simp_all
  let ?c3 = "(env' (env c))\<lparr>c_recovery := Some (setNegotiated (rs_negotiated resp) r2)\<rparr>"
  let ?net2 = "net1\<lparr>nc_in := rest, nc_out := nc_out net1 @ attachRequestBytes ?req\<rparr>"
  let ?w2 = "dw_talk nw ?k w1"
  have e: "resumeClientTransport reg nw env env' c w =
      Some (Inr (?k, ?net2), attachTransport (dw_now ?w2) ?k (rs_lastRecvSeq resp) ?c3, dw_setDeadline ?k None ?w2)"
    using d h c c1 c2(1) resp(2) writeAttachRequest_ok [OF h(3), of ?req]
      readAttachResponse_ok [OF resp(1), of "net1\<lparr>nc_out := nc_out net1 @ attachRequestBytes ?req\<rparr>" rest]
    by (simp add: resumeClientTransport_def resumeRequest_def Let_def)
  have open': "\<not> c_closed ?c3" using c2(2) by simp
  show ?thesis
    by (rule that [OF e]) (use attachTransport_more [OF open'] h(5) d(2) in \<open>simp_all add: clientBytes_def\<close>)
qed

text \<open>A network on which every dial reaches a server that has sent \<open>out\<close>, and a client's connection
  with the session of \<^const>\<open>attachedServer\<close>.\<close>

definition answeringNetwork :: "bytes \<Rightarrow> network" where
  "answeringNetwork out = downNetwork\<lparr>nw_dial := (\<lambda>k net a t. Inr (sampleConn\<lparr>nc_in := out\<rparr>))\<rparr>"

definition detachedClient :: "(unit, unit, unit) Connection" where
  "detachedClient = (newPendingConnection 0 \<lparr>rt_handlers = [], rt_messages = []\<rparr> False False)\<lparr>c_conn := None,
     c_config := zeroConfig\<lparr>cfg_codecID := 1, cfg_maxFrame := 100\<rparr>,
     c_recovery := Some (newClientRecoveryState defaultClientRecoveryOptions sampleNegotiated ''tcp://h:1'' 0
       (replicate 16 7) (replicate 16 7))\<rparr>"

section \<open>Properties\<close>

text \<open>C13. Client and server agree on a new session. Let a client with recovery dial a server with recovery that lets it in, with a codec in
  common and with options that can be sent (valid, below 2^32 milliseconds, and not a heartbeat below one millisecond with a timeout below
  two). Then both end up with an open, running connection of version 3 with the same id and secret, the same codec and frame limit; the
  client's options are the server's in whole milliseconds, the same if they were; nothing has been received or sent yet and
  both replay buffers are empty; the server has the connection under that id in its table and goes on to track it; and no byte
  behind the attach is consumed.\<close>

theorem attach_agreement:
  assumes C: "validateCodecList regC (cl_codecs cl) = None" and S: "validateCodecList regS (sv_codecs s) = None"
    and common: "selectCodec (cl_codecs cl) (sv_codecs s) = Some i"
    and rec: "so_Enable (sv_recovery s)" "attach_options (sv_recovery s)" "admits s peer"
    and tokens: "random1 recoveryTokenLen = Inr token" "random2 recoveryTokenLen = Inr secret" "token_ok token" "token_ok secret"
    and room: "nc_room netC = None" "nc_room netS = None" "nc_out netS = []"
    and serve: "handleConn regS now random1 random2 n peer
                  (netS\<lparr>nc_in := clientBytes (cl_codecs cl) (cl_maxFrame cl) newRequest @ restS\<rparr>) s = (netS', s')"
    and dial: "\<And>t. nw_dial nw (dw_dials w) ''tcp'' host t = Inr (netC\<lparr>nc_in := nc_out netS' @ restC\<rparr>)"
    and time: "\<And>d. deadline = Some d \<Longrightarrow> dw_now w < d"
  shows "\<exists>c net w' cs rc rs.
     connectVersion regC nw cl (''tcp://'' @ host) deadline protocolVersionV3 w = Some (Inr (c, net), w') \<and>
     nc_out net = nc_out netC @ clientBytes (cl_codecs cl) (cl_maxFrame cl) newRequest \<and> nc_in net = restC \<and> nc_in netS' = restS \<and>
     sv_heap s' = sv_heap s @ [cs] \<and> lookupRecoveryConnection token s' = Some (length (sv_heap s)) \<and>
     Tracking (length (sv_heap s)) n peer True \<in> set (sv_tasks s') \<and>
     started c \<and> started cs \<and> \<not> c_closed c \<and> \<not> c_closed cs \<and> c_conn c = Some (dw_dials w) \<and> c_conn cs = Some n \<and>
     c_recovery c = Some rc \<and> c_recovery cs = Some rs \<and>
     r_connectionID rc = token \<and> r_connectionID rs = token \<and> r_resumeSecret rc = secret \<and> r_resumeSecret rs = secret \<and>
     r_shared rs = negotiated (sv_recovery s) \<and> r_shared rc = wireOptions (r_shared rs) \<and>
     (whole_millis (r_shared rs) \<longrightarrow> r_shared rc = r_shared rs) \<and>
     r_lastRecvSeq rc = 0 \<and> r_lastRecvSeq rs = 0 \<and> c_transportResume c = 0 \<and> c_transportResume cs = 0 \<and>
     c_nextSendSeq c = 0 \<and> c_nextSendSeq cs = 0 \<and> snapshotFrom (r_replay rc) 0 = [] \<and> snapshotFrom (r_replay rs) 0 = [] \<and>
     cfg_version (c_config c) = protocolVersionV3 \<and> cfg_version (c_config cs) = protocolVersionV3 \<and>
     cfg_codecID (c_config c) = i \<and> cfg_codecID (c_config cs) = i \<and> cfg_maxFrame (c_config c) = cfg_maxFrame (c_config cs)"
proof (rule handleConn_new [of regS s "cl_codecs cl" i peer random1 token random2 secret netS now n "cl_maxFrame cl" restS,
      OF S validateCodecList_ok(1,2) [OF C] common rec tokens room(2,3)])
  let ?opts = "negotiated (sv_recovery s)" and ?m = "min (cl_maxFrame cl) (sv_maxFrame s)"
  let ?resp = "newResponse token secret (wireOptions ?opts)"
  fix s1 cs rs
  assume h: "handleConn regS now random1 random2 n peer
        (netS\<lparr>nc_in := clientBytes (cl_codecs cl) (cl_maxFrame cl) newRequest @ restS\<rparr>) s =
      (netS\<lparr>nc_in := restS, nc_out := serverBytes i ?m ?resp\<rparr>, s1)"
    and resp: "response_ok ?resp"
    and sv: "sv_heap s1 = sv_heap s @ [cs]" "lookupRecoveryConnection token s1 = Some (length (sv_heap s))"
      "Tracking (length (sv_heap s)) n peer True \<in> set (sv_tasks s1)"
    and cs: "started cs" "\<not> c_closed cs" "c_conn cs = Some n" "c_transportResume cs = 0" "c_recovery cs = Some rs"
      "r_connectionID rs = token" "r_resumeSecret rs = secret" "r_shared rs = ?opts" "r_lastRecvSeq rs = 0"
      "cfg_version (c_config cs) = protocolVersionV3" "cfg_codecID (c_config cs) = i" "cfg_maxFrame (c_config cs) = ?m"
      "snapshotFrom (r_replay rs) 0 = []" "c_nextSendSeq cs = 0"
  have i: "i \<in> set (cl_codecs cl)" using selectCodec_SomeD [OF common] by simp
  have dial': "nw_dial nw (dw_dials w) ''tcp'' host t = Inr (netC\<lparr>nc_in := serverBytes i ?m ?resp @ restC\<rparr>)" for t
    using dial h serve by simp
  obtain c net w' rc where c:
    "connectVersion regC nw cl (''tcp://'' @ host) deadline protocolVersionV3 w = Some (Inr (c, net), w')"
    "nc_in net = restC" "c_conn c = Some (dw_dials w)" "\<not> c_closed c" "started c" "c_transportResume c = 0"
    "cfg_version (c_config c) = protocolVersionV3" "cfg_codecID (c_config c) = i" "cfg_maxFrame (c_config c) = ?m"
    "c_recovery c = Some rc" "r_connectionID rc = token" "r_resumeSecret rc = secret"
    "r_shared rc = wireOptions ?opts" "r_lastRecvSeq rc = 0" "snapshotFrom (r_replay rc) 0 = []" "c_nextSendSeq c = 0"
    "nc_out net = nc_out netC @ clientBytes (cl_codecs cl) (cl_maxFrame cl) newRequest"
    by (rule connectVersion_v3 [OF C i room(1) resp _ dial' time]) (simp_all add: newResponse_def)
  have "nc_in netS' = restS" "s' = s1" using h serve by auto
  with c sv cs whole_sendable(2) show ?thesis by auto
qed

text \<open>A server with an ACK delay of 1.5 milliseconds, and an \<^verbatim>\<open>OnConnect\<close> that lets everyone in.\<close>

definition halfMillisServer :: "(unit, unit, unit) Server" where
  "halfMillisServer = OnConnect (\<lambda>_. None) (server_WithCodecs [1]
     (server_WithRecovery (defaultServerRecoveryOptions\<lparr>so_Enable := True, so_AckDelay := 1500000\<rparr>)
       (NewServer \<lparr>rt_handlers = [], rt_messages = []\<rparr>)))"

theorem attach_agreement_witness:
  "\<exists>c net w' rc. connectVersion sampleCodecs''
       (answeringNetwork (nc_out (fst (handleConn sampleCodecs' 5 sampleRandom sampleRandom 1 ''a''
          (sampleConn\<lparr>nc_in := clientBytes [1] defaultMaxFrame newRequest\<rparr>) halfMillisServer))))
       sampleClient ''tcp://h:1'' None protocolVersionV3 startWorld = Some (Inr (c, net), w') \<and>
     c_recovery c = Some rc \<and> r_connectionID rc = replicate 16 7 \<and> c_conn c = Some 0 \<and> no_AckDelay (r_shared rc) = 1000000"
proof -
  let ?h = "handleConn sampleCodecs' 5 sampleRandom sampleRandom 1 ''a'' (sampleConn\<lparr>nc_in := clientBytes (cl_codecs sampleClient) (cl_maxFrame sampleClient) newRequest @ []\<rparr>) halfMillisServer"
  have v: "validateCodecList sampleCodecs'' (cl_codecs sampleClient) = None" "validateCodecList sampleCodecs' (sv_codecs halfMillisServer) = None"
    "selectCodec (cl_codecs sampleClient) (sv_codecs halfMillisServer) = Some 1" "so_Enable (sv_recovery halfMillisServer)"
    "attach_options (sv_recovery halfMillisServer)" "dw_dials startWorld = 0" "nc_room sampleConn = None" "nc_out sampleConn = []"
    "cl_codecs sampleClient = [1]" "cl_maxFrame sampleClient = defaultMaxFrame" "admits halfMillisServer ''a''"
    "no_AckDelay (wireOptions (negotiated (sv_recovery halfMillisServer))) = 1000000" by code_simp+
  have t: "sampleRandom recoveryTokenLen = Inr (replicate 16 7)" "token_ok (replicate 16 7)"
    by (simp_all add: sampleRandom_def token_defs)
  have d: "nw_dial (answeringNetwork (nc_out (fst ?h))) (dw_dials startWorld) ''tcp'' ''h:1'' t =
      Inr (sampleConn\<lparr>nc_in := nc_out (fst ?h) @ []\<rparr>)" for t
    by (simp add: answeringNetwork_def)
  from attach_agreement [OF v(1-5) v(11) t(1,1,2,2) v(7,7,8) prod.collapse [symmetric] d, of None] v(6,9,10,12)
  show ?thesis by fastforce
qed

text \<open>C14. Client and server agree on a resumed session. Let the client of a session resume it on a new
  transport to the server that holds it open under its id, with its secret and codec, whatever else
  happens to the client's connection meanwhile as long as it stays open. Then both ends end up
  attached to the new transport, the server replaying from the number the client last received and
  the client from the number the server last received, with the same options, and no byte behind
  the attach is consumed.\<close>

theorem resume_agreement:
  assumes C: "validateCodecList regC [i] = None" and S: "validateCodecList regS (sv_codecs s) = None" "i \<in> set (sv_codecs s)"
    and rec: "so_Enable (sv_recovery s)"
    and room: "nc_room netC = None" "nc_room netS = None" "nc_out netS = []"
    and c: "c_recovery c = Some rc" "cfg_codecID (c_config c) = i" "r_addr rc = ''tcp://'' @ host"
      "token_ok (r_connectionID rc)" "token_ok (r_resumeSecret rc)"
    and c1: "c_recovery (env c) = Some rc1" "cfg_codecID (c_config (env c)) = i"
    and c2: "c_recovery (env' (env c)) = Some rc2" "\<not> c_closed (env' (env c))"
    and cs: "lookupRecoveryConnection (r_connectionID rc) s = Some ref" "ref < length (sv_heap s)"
      "c_recovery (sv_heap s ! ref) = Some rs" "\<not> c_closed (sv_heap s ! ref)" "r_connectionID rs = r_connectionID rc"
      "r_resumeSecret rs = r_resumeSecret rc" "cfg_codecID (c_config (sv_heap s ! ref)) = i" "whole_millis (r_shared rs)"
    and serve: "handleConn regS now random1 random2 n peer
                  (netS\<lparr>nc_in := clientBytes [i] (cfg_maxFrame (c_config c)) (resumeRequest rc (lastReceived rc1)) @ restS\<rparr>) s = (netS', s')"
    and dial: "\<And>t. nw_dial nw (dw_dials w) ''tcp'' host t = Inr (netC\<lparr>nc_in := nc_out netS' @ restC\<rparr>)"
  shows "\<exists>net c' w' rc'.
     resumeClientTransport regC nw env env' c w = Some (Inr (dw_dials w, net), c', w') \<and>
     nc_out net = nc_out netC @ clientBytes [i] (cfg_maxFrame (c_config c)) (resumeRequest rc (lastReceived rc1)) \<and>
     nc_in net = restC \<and> nc_in netS' = restS \<and>
     c_conn c' = Some (dw_dials w) \<and> \<not> c_closed c' \<and> c_transportResume c' = lastReceived rs \<and>
     c_conn (sv_heap s' ! ref) = Some n \<and> \<not> c_closed (sv_heap s' ! ref) \<and>
     c_transportResume (sv_heap s' ! ref) = lastReceived rc1 \<and>
     c_recovery c' = Some rc' \<and> r_shared rc' = r_shared rs \<and> r_replay rc' = r_replay rc2"
proof -
  let ?req = "resumeRequest rc (lastReceived rc1)" and ?resp = "resumeResponse rs"
  have req: "request_ok ?req" "rq_mode ?req = attachModeResume" "rq_connectionID ?req = r_connectionID rc"
    "rq_resumeSecret ?req = r_resumeSecret rc" "rq_lastRecvSeq ?req = lastReceived rc1"
    using c(4,5) by (simp_all add: request_ok_def resumeRequest_def)
  have resp: "response_ok ?resp" "rs_status ?resp = attachStatusOK" using c(4,5) cs(5,6,8) by (simp_all add: response_ok_def resumeResponse_def)
  obtain s1 where h: "handleConn regS now random1 random2 n peer
        (netS\<lparr>nc_in := clientBytes [i] (cfg_maxFrame (c_config c)) ?req @ restS\<rparr>) s =
      (netS\<lparr>nc_in := restS, nc_out := serverBytes i (min (cfg_maxFrame (c_config c)) (sv_maxFrame s)) ?resp\<rparr>, s1)"
      "sv_heap s1 = (sv_heap s)[ref := attachTransport now n (rq_lastRecvSeq ?req) (sv_heap s ! ref)]"
    by (rule handleConn_resume [OF S rec room(2,3) req(1,2) _ cs(2,3,4) _ cs(7) resp(1)]) (use cs req in simp_all)
  have dial': "nw_dial nw (dw_dials w) ''tcp'' host t =
      Inr (netC\<lparr>nc_in := serverBytes i (min (cfg_maxFrame (c_config c)) (sv_maxFrame s)) ?resp @ restC\<rparr>)" for t
    using dial h(1) serve by simp
  obtain net c' w' where r: "resumeClientTransport regC nw env env' c w = Some (Inr (dw_dials w, net), c', w')" "nc_in net = restC"
      "nc_out net = nc_out netC @ clientBytes [i] (cfg_maxFrame (c_config c)) ?req" "c_conn c' = Some (dw_dials w)" "\<not> c_closed c'"
      "c_transportResume c' = lastReceived rs" "c_recovery c' = Some (onAttached (setNegotiated (r_shared rs) rc2))"
    by (rule resumeClientTransport_v3 [of regC i netC ?resp c rc host env rc1 env' rc2 nw w _ restC, OF C room(1) resp c(1-3) c1 c2 dial']) (simp_all add: resumeResponse_def)
  have v: "negotiated_valid (r_shared rs)" using cs(8) by (simp add: whole_millis_def)
  have "s' = s1" "nc_in netS' = restS" using h(1) serve by auto
  with r h(2) cs(2) attachTransport_more(1-3) [OF cs(4), of now n "lastReceived rc1"] v show ?thesis
    by (simp add: req(5) onAttached_def setNegotiated_def Let_def negotiated_valid_fixed)
qed

theorem resume_agreement_witness:
  "\<exists>net c' w'. resumeClientTransport sampleCodecs''
       (answeringNetwork (nc_out (fst (handleConn sampleCodecs' 5 sampleRandom sampleRandom 2 ''b''
          (sampleConn\<lparr>nc_in := clientBytes [1] 100 (resumeRequest (the (c_recovery detachedClient)) 0)\<rparr>) attachedServer))))
       (\<lambda>c. c) (\<lambda>c. c) detachedClient startWorld = Some (Inr (0, net), c', w') \<and> c_conn c' = Some 0 \<and> c_transportResume c' = 0"
proof -
  let ?rc = "the (c_recovery detachedClient)" and ?rs = "the (c_recovery (sv_heap attachedServer ! 0))"
  let ?h = "handleConn sampleCodecs' 5 sampleRandom sampleRandom 2 ''b''
      (sampleConn\<lparr>nc_in := clientBytes [1] (cfg_maxFrame (c_config detachedClient)) (resumeRequest ?rc (lastReceived ?rc)) @ []\<rparr>) attachedServer"
  have v: "validateCodecList sampleCodecs'' [1] = None" "validateCodecList sampleCodecs' (sv_codecs attachedServer) = None"
    "1 \<in> set (sv_codecs attachedServer)" "so_Enable (sv_recovery attachedServer)" "nc_room sampleConn = None" "nc_out sampleConn = []"
    "dw_dials startWorld = 0" by code_simp+
  have c: "c_recovery detachedClient = Some ?rc" "cfg_codecID (c_config detachedClient) = 1" "r_addr ?rc = ''tcp://'' @ ''h:1''"
    "token_ok (r_connectionID ?rc)" "token_ok (r_resumeSecret ?rc)" "\<not> c_closed detachedClient" "cfg_maxFrame (c_config detachedClient) = 100"
    "lastReceived ?rc = 0" by code_simp+
  have cs: "lookupRecoveryConnection (r_connectionID ?rc) attachedServer = Some 0" "0 < length (sv_heap attachedServer)"
    "\<not> Option.is_none (c_recovery (sv_heap attachedServer ! 0))" "\<not> c_closed (sv_heap attachedServer ! 0)" "r_connectionID ?rs = r_connectionID ?rc"
    "r_resumeSecret ?rs = r_resumeSecret ?rc" "cfg_codecID (c_config (sv_heap attachedServer ! 0)) = 1" "whole_millis (r_shared ?rs)"
    "lastReceived ?rs = 0" by code_simp+
  have rs: "c_recovery (sv_heap attachedServer ! 0) = Some ?rs" using cs(3) by (auto simp: Option.is_none_def)
  have d: "nw_dial (answeringNetwork (nc_out (fst ?h))) (dw_dials startWorld) ''tcp'' ''h:1'' t =
      Inr (sampleConn\<lparr>nc_in := nc_out (fst ?h) @ []\<rparr>)" for t
    by (simp add: answeringNetwork_def)
  from resume_agreement [OF v(1-4) v(5,5,6) c(1-5), of "\<lambda>c. c" ?rc "\<lambda>c. c" ?rc, OF c(1,2) c(1,6) cs(1,2) rs cs(4-8) prod.collapse [symmetric] d]
    c(7,8) cs(9) v(7)
  show ?thesis by fastforce
qed

end
