(* ===== verification/Client_Reconnect.thy ===== *)
theory Client_Reconnect
  imports Attach_Agreement
begin

text \<open>
  The reconnect loop of a client whose transport was lost: what it leaves behind whenever it ends, and
  that it gets the session back as soon as the server can be reached and still holds it.
\<close>

section \<open>What a resume attempt leaves\<close>

text \<open>What the other goroutines may do to a connection without a transport: close it, but not attach
  a transport; those that are closed stay closed.\<close>

definition leaves_detached :: "('m, 'b, 'h) Connection \<Rightarrow> ('m, 'b, 'h) Connection \<Rightarrow> bool" where
  "leaves_detached c c' \<longleftrightarrow>
     (c_conn c = None \<longrightarrow> c_conn c' = None) \<and> (c_closed c \<longrightarrow> c_closed c') \<and> set (c_netClosed c) \<subseteq> set (c_netClosed c')"

lemma leaves_detached_refl: "leaves_detached c c"
  by (simp add: leaves_detached_def)

lemma leaves_detached_trans: "leaves_detached a b \<Longrightarrow> leaves_detached b c \<Longrightarrow> leaves_detached a c"
  by (auto simp: leaves_detached_def)

lemma markClosed_detached: "leaves_detached c (markClosed c)"
proof -
  have "c_conn (markClosed c) = None \<or> c_conn (markClosed c) = c_conn c"
    by (simp add: markClosed_def closeAllStreams_def)
  with markClosed_net [of c] show ?thesis by (auto simp: leaves_detached_def)
qed

text \<open>From \<open>w\<close> on, every transport opened is closed, by the client or by the connection, except one
  that the connection is attached to, which is open without a deadline.\<close>

definition reconnect_ok :: "dialWorld \<Rightarrow> ('m, 'b, 'h) Connection \<Rightarrow> dialWorld \<Rightarrow> bool" where
  "reconnect_ok w c w' \<longleftrightarrow> dw_dials w \<le> dw_dials w' \<and> world_ok w' \<and> set (dw_opened w) \<subseteq> set (dw_opened w') \<and>
     (\<forall>k \<in> set (dw_opened w') - set (dw_opened w). k \<in> set (dw_closed w') \<union> set (c_netClosed c) \<or> c_conn c = Some k) \<and>
     (c_conn c = None \<or>
       (\<exists>k. c_conn c = Some k \<and> \<not> c_closed c \<and> dw_dials w \<le> k \<and> k \<in> set (dw_opened w') \<and> k \<notin> set (dw_closed w') \<and>
          map_of (dw_deadlines w') k = None))"

lemma reconnect_ok_start: "world_ok w \<Longrightarrow> c_conn c = None \<Longrightarrow> reconnect_ok w c w"
  by (simp add: reconnect_ok_def)

lemma reconnect_ok_idle:
  assumes "reconnect_ok w c w1" "c_conn c = None" "settles None w1 w2" "leaves_detached c c'"
  shows "reconnect_ok w c' w2"
proof -
  have "k \<in> set (dw_closed w2) \<union> set (c_netClosed c')" if k: "k \<in> set (dw_opened w2) - set (dw_opened w)" for k
  proof (cases "k \<in> set (dw_opened w1)")
    case True
    with k assms(1,2) have "k \<in> set (dw_closed w1) \<union> set (c_netClosed c)" by (auto simp: reconnect_ok_def)
    with assms(3,4) show ?thesis by (auto simp: settles_def leaves_detached_def)
  next
    case False
    with k assms(3) show ?thesis by (auto simp: settles_def)
  qed
  moreover have "c_conn c' = None" using assms(2,4) by (simp add: leaves_detached_def)
  moreover have "world_ok w2" using settles_ok [OF assms(3)] assms(1) by (simp add: reconnect_ok_def)
  ultimately show ?thesis using assms(1,3) by (auto simp: reconnect_ok_def settles_def)
qed

lemma attachTransport_closed: "c_closed c \<Longrightarrow> attachTransport now n q c = closeNet n c"
  by (simp add: attachTransport_def)

text \<open>One attempt: it fails and leaves the connection detached, or it attaches the new transport, or
  the connection was closed meanwhile and has closed the transport.\<close>

lemma resume_cases:
  assumes env: "\<And>c. leaves_detached c (env c)" "\<And>c. leaves_detached c (env' c)"
    and ok: "world_ok w" "c_conn c = None"
    and r: "resumeClientTransport codecs nw env env' c w = Some (res, c', w')"
  obtains (failed) e where "res = Inl e" "settles None w w'" "leaves_detached c c'"
    | (attached) net where "res = Inr (dw_dials w, net)" "settles (Some (dw_dials w)) w w'" "\<not> c_closed c'"
        "c_conn c' = Some (dw_dials w)" "set (c_netClosed c) \<subseteq> set (c_netClosed c')"
    | (late) net where "res = Inr (dw_dials w, net)" "settles (Some (dw_dials w)) w w'" "c_closed c'" "c_conn c' = None"
        "set (c_netClosed c) \<subseteq> set (c_netClosed c')" "dw_dials w \<in> set (c_netClosed c')"
proof (cases "c_recovery c")
  case None
  with r have "res = Inl ErrClosed" "c' = c" "w' = w" by (simp_all add: resumeClientTransport_def)
  then show ?thesis by (intro failed) (simp_all add: settles_refl leaves_detached_refl)
next
  case (Some rec)
  let ?d = "if r_timeout rec > 0 then Some (dw_now w + r_timeout rec) else None"
  obtain dres w1 where d: "dialBefore nw (r_addr rec) ?d w = (dres, w1)" by (cases "dialBefore nw (r_addr rec) ?d w")
  note dc = dialBefore_cases [OF d]
  show ?thesis
  proof (cases dres)
    case (Inl e)
    with d dc r Some have "res = Inl e" "c' = env c" "settles None w w'" by (auto simp: resumeClientTransport_def Let_def)
    with env(1) failed show ?thesis by blast
  next
    case (Inr x)
    obtain k net where x: "x = (k, net)" by (cases x)
    with dc Inr have dl: "dialing k w (dw_talk nw k w1)" by (simp add: dialing_talk)
    then have k: "k = dw_dials w" by (simp add: dialing_def)
    let ?w2 = "dw_talk nw k w1" and ?c2 = "env' (env c)"
    have keep: "settles (Some k) w (dw_setDeadline k None ?w2)" by (rule dialing_keep [OF dl dialing_ok [OF dl ok(1)]])
    have close: "settles None w (dw_close k ?w2)" by (rule dialing_close [OF dl])
    have e2: "leaves_detached c ?c2" by (rule leaves_detached_trans [OF env])
    consider e where "res = Inl e" "w' = dw_close k ?w2" "c' = env c \<or> c' = ?c2"
      | opts q net where "res = Inr (k, net)" "w' = dw_setDeadline k None ?w2"
          "c' = attachTransport (dw_now ?w2) k q (?c2\<lparr>c_recovery := map_option (setNegotiated opts) (c_recovery ?c2)\<rparr>)"
      using r d Inr x Some
      by (auto simp: resumeClientTransport_def Let_def split: prod.splits sum.splits option.splits if_splits)
    then show ?thesis
    proof cases
      case 1
      with failed close env e2 show ?thesis by auto
    next
      case 2
      show ?thesis
      proof (cases "c_closed ?c2")
        case True
        with 2 late [of net] keep k e2 ok(2) show ?thesis
          by (auto simp: attachTransport_closed closeNet_def leaves_detached_def)
      next
        case False
        let ?c3 = "?c2\<lparr>c_recovery := map_option (setNegotiated opts) (c_recovery ?c2)\<rparr>"
        have "set (c_netClosed ?c2) \<subseteq> set (c_netClosed (attachTransport t k q ?c3))" for t
          using False by (auto simp: attachTransport_def closeNet_def signalSend_def armReadDeadline_def Let_def split: option.splits)
        with False 2 attached [of net] keep k e2 attachTransport_more(1,3) [of ?c3 "dw_now ?w2" k q] show ?thesis
          by (auto simp: leaves_detached_def)
      qed
    qed
  qed
qed

section \<open>The loop\<close>

text \<open>Changes that touch neither the transport nor the state of a connection.\<close>

lemma debug_detached:
  "leaves_detached c (noteReconnectFailure now e c)" "leaves_detached c (conn_noteFailure now k m c)"
  "leaves_detached c (c\<lparr>c_debug := d\<rparr>)"
  by (simp_all add: leaves_detached_def noteReconnectFailure_def conn_noteFailure_def Let_def)

definition reconnected :: "dialWorld \<Rightarrow> ('m, 'b, 'h) Connection \<times> dialWorld \<Rightarrow> bool" where
  "reconnected w r \<longleftrightarrow> reconnect_ok w (fst r) (snd r) \<and> (c_closed (fst r) \<longleftrightarrow> c_conn (fst r) = None)"

text \<open>One round: the loop ends well, or goes on with the connection detached.\<close>

lemma reconnect_round:
  assumes env: "\<And>k c. leaves_detached c (env k c)" and start: "reconnect_ok w0 c w" "c_conn c = None" "\<not> c_closed c"
    and r: "resumeClientTransport codecs nw (env (dw_dials w)) (env (dw_dials w)) (c\<lparr>c_debug := d\<rparr>) w = Some (res, c2, w2)"
  shows "case res of
      Inr _ \<Rightarrow> \<forall>d. reconnected w0 (c2\<lparr>c_debug := d\<rparr>, w2)
    | Inl e \<Rightarrow> reconnected w0 (markClosed (conn_noteFailure t k m (noteReconnectFailure t e c2)), w2) \<and>
        reconnect_ok w0 (env j (noteReconnectFailure t e c2)) (dw_sleep nw b w2) \<and>
        c_conn (env j (noteReconnectFailure t e c2)) = None"
proof -
  have w: "world_ok w" using start(1) by (simp add: reconnect_ok_def)
  have c1: "c_conn (c\<lparr>c_debug := d\<rparr>) = None" "c_netClosed (c\<lparr>c_debug := d\<rparr>) = c_netClosed c" using start(2) by simp_all
  have s0: "reconnect_ok w0 (c\<lparr>c_debug := d\<rparr>) w" using start(1) by (simp add: reconnect_ok_def)
  have keep: "reconnected w0 (c2\<lparr>c_debug := d'\<rparr>, w2)"
    if s: "settles (Some (dw_dials w)) w w2" and n: "set (c_netClosed c) \<subseteq> set (c_netClosed c2)"
      and c2: "c_closed c2 \<and> c_conn c2 = None \<and> dw_dials w \<in> set (c_netClosed c2) \<or> \<not> c_closed c2 \<and> c_conn c2 = Some (dw_dials w)" for d'
  proof -
    have "k \<in> set (dw_closed w2) \<union> set (c_netClosed c2) \<or> c_conn c2 = Some k" if "k \<in> set (dw_opened w2) - set (dw_opened w0)" for k
    proof (cases "k \<in> set (dw_opened w)")
      case True
      with that start(1,2) have "k \<in> set (dw_closed w) \<union> set (c_netClosed c)" by (auto simp: reconnect_ok_def)
      with s n show ?thesis by (auto simp: settles_def)
    next
      case False
      with that s c2 show ?thesis by (auto simp: settles_def)
    qed
    moreover have "dw_dials w \<notin> set (dw_closed w2)" using s w by (auto simp: settles_def world_ok_def)
    ultimately show ?thesis using start(1) s c2 settles_ok [OF s w] by (auto simp: reconnected_def reconnect_ok_def settles_def)
  qed
  show ?thesis
  proof (rule resume_cases [OF env env w c1(1) r])
    fix e assume f: "res = Inl e" "settles None w w2" "leaves_detached (c\<lparr>c_debug := d\<rparr>) c2"
    let ?c3 = "noteReconnectFailure t e c2"
    have l3: "leaves_detached (c\<lparr>c_debug := d\<rparr>) ?c3" by (rule leaves_detached_trans [OF f(3) debug_detached(1)])
    have le: "leaves_detached (c\<lparr>c_debug := d\<rparr>) (env j ?c3)" by (rule leaves_detached_trans [OF l3 env])
    have lm: "leaves_detached (c\<lparr>c_debug := d\<rparr>) (markClosed (conn_noteFailure t k m ?c3))"
      by (rule leaves_detached_trans [OF leaves_detached_trans [OF l3 debug_detached(2)] markClosed_detached])
    have "reconnect_ok w0 (env j ?c3) (dw_sleep nw b w2)"
      by (rule reconnect_ok_idle [OF s0 c1(1) settles_trans [OF f(2) dw_sleep_settles] le])
    moreover have "reconnect_ok w0 (markClosed (conn_noteFailure t k m ?c3)) w2"
      by (rule reconnect_ok_idle [OF s0 c1(1) f(2) lm])
    moreover have "c_conn (env j ?c3) = None" "c_conn (markClosed (conn_noteFailure t k m ?c3)) = None"
      using le lm c1(1) by (simp_all add: leaves_detached_def)
    ultimately show ?thesis using f(1) by (simp add: reconnected_def)
  qed (use keep c1(2) in auto)
qed

lemma reconnectTries_ok:
  assumes env: "\<And>k c. leaves_detached c (env k c)"
    and run: "reconnectTries nw (\<lambda>c w. resumeClientTransport codecs nw (env (dw_dials w)) (env (dw_dials w)) c w)
        env maxBackoff backoff c w = Some r"
    and start: "reconnect_ok w0 c w" "c_conn c = None"
  shows "reconnected w0 r"
proof -
  define R where "R = (\<lambda>c w. resumeClientTransport codecs nw (env (dw_dials w)) (env (dw_dials w)) c w)"
  have "nw = nw \<longrightarrow> env = env \<longrightarrow> R = R \<longrightarrow> reconnect_ok w0 c w \<longrightarrow> c_conn c = None \<longrightarrow> reconnected w0 r"
    apply (rule reconnectTries.raw_induct [where P = "\<lambda>nw' resume env' maxBackoff backoff c w r.
      nw' = nw \<longrightarrow> env' = env \<longrightarrow> resume = R \<longrightarrow> reconnect_ok w0 c w \<longrightarrow> c_conn c = None \<longrightarrow> reconnected w0 r",
      OF _ run [folded R_def]])
    subgoal premises step for f nw' resume env' maxBackoff backoff c w r
    proof (intro impI)
      assume eqs: "nw' = nw" "env' = env" "resume = R" and start: "reconnect_ok w0 c w" "c_conn c = None"
      let ?d = "(c_debug c)\<lparr>reconnectAttempts := reconnectAttempts (c_debug c) + 1\<rparr>"
      show "reconnected w0 r"
      proof (cases "c_closed c")
        case True
        with step(2) start show ?thesis by (auto simp: reconnected_def)
      next
        case False
        with step(2) eqs obtain res c2 w2 where r: "R (c\<lparr>c_debug := ?d\<rparr>) w = Some (res, c2, w2)"
          by (cases "R (c\<lparr>c_debug := ?d\<rparr>) w") (auto simp: Let_def)
        note round = reconnect_round [of env w0 c w codecs nw ?d res c2 w2, OF env start False r [unfolded R_def]]
        show ?thesis
        proof (cases res)
          case (Inr x)
          with step(2) r eqs False round show ?thesis by (auto simp: Let_def)
        next
          case (Inl e)
          with step(2) r eqs False round step(1) [of nw R env] show ?thesis by (auto simp: Let_def split: if_splits)
        qed
      qed
    qed
    done
  with start show ?thesis by simp
qed

section \<open>Getting the session back\<close>

text \<open>What the other goroutines may do while the client is reconnecting for the loop to succeed: they
  leave the connection open and its session alone.\<close>

definition session_of :: "('m, 'b, 'h) Connection \<Rightarrow>
    (string \<times> Duration \<times> recoveryToken \<times> recoveryToken \<times> u64) option \<times> CodecID \<times> u32 \<times> bool" where
  "session_of c =
     (map_option (\<lambda>r. (r_addr r, r_timeout r, r_connectionID r, r_resumeSecret r, lastReceived r)) (c_recovery c),
      cfg_codecID (c_config c), cfg_maxFrame (c_config c), c_closed c)"

lemma session_of_debug [simp]:
  "session_of (c\<lparr>c_debug := d\<rparr>) = session_of c" "session_of (noteReconnectFailure t e c) = session_of c"
  by (simp_all add: session_of_def noteReconnectFailure_def conn_noteFailure_def Let_def)

lemma session_ofD:
  assumes "session_of c' = session_of c" "c_recovery c = Some r"
  obtains r' where "c_recovery c' = Some r'" "r_addr r' = r_addr r" "r_timeout r' = r_timeout r"
    "r_connectionID r' = r_connectionID r" "r_resumeSecret r' = r_resumeSecret r" "lastReceived r' = lastReceived r"
    "cfg_codecID (c_config c') = cfg_codecID (c_config c)" "cfg_maxFrame (c_config c') = cfg_maxFrame (c_config c)"
    "c_closed c' = c_closed c"
  using assms by (cases "c_recovery c'") (auto simp: session_of_def)

lemma isTerminal_connectError: "\<not> isTerminal e \<Longrightarrow> \<not> isTerminal (connectError e d)"
  by (simp add: connectError_def isTerminal_def)

lemma resume_refused:
  assumes "c_recovery c = Some r" "r_addr r = ''tcp://'' @ host"
    "\<And>t. \<exists>e. nw_dial nw (dw_dials w) ''tcp'' host t = Inl e \<and> \<not> isTerminal e"
  obtains e w' where "resumeClientTransport codecs nw env env' c w = Some (Inl e, env c, w')" "\<not> isTerminal e"
    "dw_dials w' = Suc (dw_dials w)"
proof -
  let ?d = "if r_timeout r > 0 then Some (dw_now w + r_timeout r) else None"
  let ?t = "case ?d of None \<Rightarrow> 0 | Some d \<Rightarrow> d - dw_now w"
  have "dialForAddr nw (''tcp://'' @ host) ?t w = dialTCP nw host ?t w"
    by (simp add: dialForAddr_def parseAddr_def HasPrefix_def TrimPrefix_def)
  moreover obtain e w' where e: "dialTCP nw host ?t w = (Inl e, w')" "\<not> isTerminal e" "dw_dials w' = Suc (dw_dials w)"
  proof -
    have "\<exists>e w'. dialNet nw ''tcp'' host t w = (Inl e, w') \<and> \<not> isTerminal e \<and> dw_dials w' = Suc (dw_dials w)" for t
      using assms(3) [of t] by (auto simp: dialNet_def Let_def)
    then have "\<exists>e w'. dialTCP nw host t w = (Inl e, w') \<and> \<not> isTerminal e \<and> dw_dials w' = Suc (dw_dials w)" for t
      by (cases "t > 0") (simp_all add: dialTCP_def)
    from this [of ?t] that show thesis by blast
  qed
  ultimately have "dialBefore nw (r_addr r) ?d w = (Inl (connectError e ?d), w')"
    unfolding assms(2) by (cases "r_timeout r > 0") (simp_all add: dialBefore_def Let_def del: append.simps)
  with assms(1) that [of "connectError e ?d" w'] isTerminal_connectError [OF e(2)] e(3) show ?thesis
    by (simp add: resumeClientTransport_def)
qed

text \<open>The loop ends attached when a resume succeeds after failures that are not final.\<close>

lemma reconnectTries_succeeds:
  assumes env: "\<And>k c. session_of (env k c) = session_of c"
    and R: "R = (\<lambda>c w. resumeClientTransport codecs nw (env (dw_dials w)) (env (dw_dials w)) c w)"
    and c: "session_of c = session_of c0" "c_recovery c0 = Some r0" "r_addr r0 = ''tcp://'' @ host" "\<not> c_closed c0"
    and fails: "\<And>k t. dw_dials w \<le> k \<Longrightarrow> k < dw_dials w + n \<Longrightarrow> \<exists>e. nw_dial nw k ''tcp'' host t = Inl e \<and> \<not> isTerminal e"
    and success: "\<And>c w1. session_of c = session_of c0 \<Longrightarrow> dw_dials w1 = dw_dials w + n \<Longrightarrow>
        \<exists>x c' w2. R c w1 = Some (Inr x, c', w2) \<and> P c' w2" and P: "\<And>c d w. P c w \<Longrightarrow> P (c\<lparr>c_debug := d\<rparr>) w"
  shows "\<exists>c' w'. reconnectTries nw R env maxBackoff backoff c w = Some (c', w') \<and> P c' w'"
  using c(1) fails success
proof (induction n arbitrary: c w backoff)
  case 0
  have "\<not> c_closed c" using 0(1) c(4) by (simp add: session_of_def)
  moreover from 0(1) 0(3) [of _ w] obtain x c' w2 where
    "R (c\<lparr>c_debug := (c_debug c)\<lparr>reconnectAttempts := reconnectAttempts (c_debug c) + 1\<rparr>\<rparr>) w = Some (Inr x, c', w2)" "P c' w2"
    by (metis add_0_right session_of_debug(1))
  ultimately show ?case using P by (subst reconnectTries.simps) (auto simp: Let_def)
next
  case (Suc n)
  let ?c1 = "c\<lparr>c_debug := (c_debug c)\<lparr>reconnectAttempts := reconnectAttempts (c_debug c) + 1\<rparr>\<rparr>"
  obtain r where r: "c_recovery ?c1 = Some r" "r_addr r = ''tcp://'' @ host"
    by (rule session_ofD [of ?c1 c0 r0]) (use Suc.prems(1) c in simp_all)
  have f: "\<exists>e. nw_dial nw (dw_dials w) ''tcp'' host t = Inl e \<and> \<not> isTerminal e" for t
    using Suc.prems(2) [of "dw_dials w" t] by simp
  obtain e w1 where e: "R ?c1 w = Some (Inl e, env (dw_dials w) ?c1, w1)" "\<not> isTerminal e" "dw_dials w1 = Suc (dw_dials w)"
    using resume_refused [OF r f, of codecs "env (dw_dials w)" "env (dw_dials w)"] unfolding R by blast
  have "\<not> c_closed c" using Suc.prems(1) c(4) by (simp add: session_of_def)
  with e have "reconnectTries nw R env maxBackoff backoff c w =
      reconnectTries nw R env maxBackoff (if wrap64 (2 * backoff) > maxBackoff then maxBackoff else wrap64 (2 * backoff))
        (env (dw_dials w1) (noteReconnectFailure (dw_now w1) e (env (dw_dials w) ?c1))) (dw_sleep nw backoff w1)"
    by (subst reconnectTries.simps) (simp add: Let_def)
  moreover have "\<exists>c' w'. reconnectTries nw R env maxBackoff (if wrap64 (2 * backoff) > maxBackoff then maxBackoff else wrap64 (2 * backoff))
        (env (dw_dials w1) (noteReconnectFailure (dw_now w1) e (env (dw_dials w) ?c1))) (dw_sleep nw backoff w1) = Some (c', w') \<and> P c' w'"
  proof (rule Suc.IH)
    show "session_of (env (dw_dials w1) (noteReconnectFailure (dw_now w1) e (env (dw_dials w) ?c1))) = session_of c0"
      using Suc.prems(1) by (simp add: env)
    show "\<exists>e. nw_dial nw k ''tcp'' host t = Inl e \<and> \<not> isTerminal e"
      if "dw_dials (dw_sleep nw backoff w1) \<le> k" "k < dw_dials (dw_sleep nw backoff w1) + n" for k t
      using that Suc.prems(2) [of k t] e(3) by simp
    show "\<exists>x c' w2. R c w1' = Some (Inr x, c', w2) \<and> P c' w2"
      if "session_of c = session_of c0" "dw_dials w1' = dw_dials (dw_sleep nw backoff w1) + n" for c w1'
      using that Suc.prems(3) [of c w1'] e(3) by simp
  qed
  ultimately show ?case by simp
qed

text \<open>A network on which the first dials are refused and the server answers then.\<close>

definition flakyNetwork :: "nat \<Rightarrow> bytes \<Rightarrow> network" where
  "flakyNetwork n out = downNetwork\<lparr>nw_dial := (\<lambda>k net a t.
     if k < n then Inl (NetOpError ''dial'' ''connection refused'' False False) else Inr (sampleConn\<lparr>nc_in := out\<rparr>))\<rparr>"

section \<open>Properties\<close>

text \<open>C16. Whenever the reconnect loop ends, the connection is either closed, without a transport, or
  open and attached to a transport dialled by this loop, which is open and has no deadline; and
  every other transport dialled on the way is closed, also when the connection was closed at any
  moment meanwhile.\<close>

theorem reconnect_leaves_nothing:
  assumes "\<And>k c. leaves_detached c (env k c)" "world_ok w" "c_conn c = None" "c_recovery c = Some r"
    and "reconnectUntilAttached codecs nw env c w = Some (c', w')"
  shows "(if c_closed c' then c_conn c' = None
          else \<exists>k. c_conn c' = Some k \<and> dw_dials w \<le> k \<and> k \<in> set (dw_opened w') \<and> k \<notin> set (dw_closed w') \<and>
                   map_of (dw_deadlines w') k = None) \<and>
         set (dw_opened w') - set (dw_opened w) - set_option (c_conn c') \<subseteq> set (dw_closed w') \<union> set (c_netClosed c')"
proof -
  have "reconnected w (c', w')"
    using reconnectTries_ok [OF assms(1) _ reconnect_ok_start [OF assms(2,3)] assms(3)] assms(4,5)
    by (auto simp: reconnectUntilAttached_def Let_def)
  then show ?thesis by (auto simp: reconnected_def reconnect_ok_def)
qed

theorem reconnect_leaves_nothing_witness:
  "\<exists>c' w'. reconnectUntilAttached sampleCodecs'' (answeringNetwork (handshakeReply 0 2 0 0)) (\<lambda>k c. c) detachedClient startWorld =
      Some (c', w') \<and> c_closed c' \<and> c_conn c' = None \<and> dw_opened w' = [0] \<and> 0 \<in> set (dw_closed w') \<union> set (c_netClosed c')"
proof -
  let ?nw = "answeringNetwork (handshakeReply 0 2 0 0)"
  let ?c = "detachedClient\<lparr>c_debug := (c_debug detachedClient)\<lparr>reconnectAttempts := reconnectAttempts (c_debug detachedClient) + 1\<rparr>\<rparr>"
  let ?r = "resumeClientTransport sampleCodecs'' ?nw (\<lambda>c. c) (\<lambda>c. c) ?c startWorld"
  have rc: "\<not> Option.is_none (c_recovery detachedClient)" "c_conn detachedClient = None" "\<not> c_closed detachedClient" by code_simp+
  then obtain r where r: "c_recovery detachedClient = Some r" by (auto simp: Option.is_none_def)
  have "map_option (\<lambda>r. (map_sum (\<lambda>e. e) (\<lambda>_. ()) (fst r), dw_opened (snd (snd r)))) ?r =
      Some (Inl (ErrUnsupportedFrameVersion 2), [0])" by code_simp
  then obtain c2 w2 where e: "?r = Some (Inl (ErrUnsupportedFrameVersion 2), c2, w2)" "dw_opened w2 = [0]"
    by (cases ?r; cases "fst (the ?r)") auto
  obtain c' where run: "reconnectUntilAttached sampleCodecs'' ?nw (\<lambda>k c. c) detachedClient startWorld = Some (c', w2)" "c_closed c'"
    using r rc(3) e(1)
    by (simp add: reconnectUntilAttached_def Let_def reconnectTries.simps isTerminal_def)
  have "world_ok startWorld" "dw_opened startWorld = []" by (simp_all add: world_ok_def startWorld_def)
  with reconnect_leaves_nothing [OF leaves_detached_refl _ rc(2) r run(1)] run e(2) show ?thesis by auto
qed

text \<open>C15. The client gets its session back: however many dials fail first, as long as none of the
  failures is final, once a dial reaches the server that still holds the session open, the
  reconnect loop ends with the connection open and attached to that transport, replaying from the
  number the server last received, and the server replaying from the number the client last
  received. Meanwhile the other goroutines may do anything but close the connection or receive.\<close>

theorem reconnect_succeeds:
  assumes env: "\<And>k c. session_of (env k c) = session_of c"
    and C: "validateCodecList regC [i] = None" and S: "validateCodecList regS (sv_codecs s) = None" "i \<in> set (sv_codecs s)"
    and rec: "so_Enable (sv_recovery s)"
    and room: "nc_room netC = None" "nc_room netS = None" "nc_out netS = []"
    and c: "c_recovery c = Some rc" "cfg_codecID (c_config c) = i" "r_addr rc = ''tcp://'' @ host" "\<not> c_closed c"
      "token_ok (r_connectionID rc)" "token_ok (r_resumeSecret rc)"
    and cs: "lookupRecoveryConnection (r_connectionID rc) s = Some ref" "ref < length (sv_heap s)"
      "c_recovery (sv_heap s ! ref) = Some rs" "\<not> c_closed (sv_heap s ! ref)" "r_connectionID rs = r_connectionID rc"
      "r_resumeSecret rs = r_resumeSecret rc" "cfg_codecID (c_config (sv_heap s ! ref)) = i" "whole_millis (r_shared rs)"
    and serve: "handleConn regS now random1 random2 m peer
                  (netS\<lparr>nc_in := clientBytes [i] (cfg_maxFrame (c_config c)) (resumeRequest rc (lastReceived rc))\<rparr>) s = (netS', s')"
    and fails: "\<And>k t. dw_dials w \<le> k \<Longrightarrow> k < dw_dials w + n \<Longrightarrow> \<exists>e. nw_dial nw k ''tcp'' host t = Inl e \<and> \<not> isTerminal e"
    and dial: "\<And>t. nw_dial nw (dw_dials w + n) ''tcp'' host t = Inr (netC\<lparr>nc_in := nc_out netS'\<rparr>)"
  shows "\<exists>c' w'. reconnectUntilAttached regC nw env c w = Some (c', w') \<and>
     c_conn c' = Some (dw_dials w + n) \<and> \<not> c_closed c' \<and> c_transportResume c' = lastReceived rs \<and>
     c_conn (sv_heap s' ! ref) = Some m \<and> c_transportResume (sv_heap s' ! ref) = lastReceived rc"
proof -
  let ?req = "resumeRequest rc (lastReceived rc)" and ?resp = "resumeResponse rs"
  let ?m = "min (cfg_maxFrame (c_config c)) (sv_maxFrame s)"
  define R where "R = (\<lambda>c w. resumeClientTransport regC nw (env (dw_dials w)) (env (dw_dials w)) c w)"
  define P where "P = (\<lambda>(c' :: ('a, 'b, 'c) Connection) (w' :: dialWorld). c_conn c' = Some (dw_dials w + n) \<and> \<not> c_closed c' \<and> c_transportResume c' = lastReceived rs)"
  have req: "request_ok ?req" "rq_mode ?req = attachModeResume" "rq_connectionID ?req = r_connectionID rc"
    "rq_resumeSecret ?req = r_resumeSecret rc" "rq_lastRecvSeq ?req = lastReceived rc"
    using c(5,6) by (simp_all add: request_ok_def resumeRequest_def)
  have resp: "response_ok ?resp" "rs_status ?resp = attachStatusOK" using c(5,6) cs(5,6,8) by (simp_all add: response_ok_def resumeResponse_def)
  have look: "lookupRecoveryConnection (rq_connectionID ?req) s = Some ref" and secret: "r_resumeSecret rs = rq_resumeSecret ?req"
    using cs(1,6) req by simp_all
  obtain s1 where h: "handleConn regS now random1 random2 m peer
        (netS\<lparr>nc_in := clientBytes [i] (cfg_maxFrame (c_config c)) ?req @ []\<rparr>) s = (netS\<lparr>nc_in := [], nc_out := serverBytes i ?m ?resp\<rparr>, s1)"
      "sv_heap s1 = (sv_heap s)[ref := attachTransport now m (rq_lastRecvSeq ?req) (sv_heap s ! ref)]"
    by (rule handleConn_resume [OF S rec room(2,3) req(1,2) look cs(2,3,4) secret cs(7) resp(1)])
  have dial': "nw_dial nw (dw_dials w + n) ''tcp'' host t = Inr (netC\<lparr>nc_in := serverBytes i ?m ?resp @ []\<rparr>)" for t
    using dial h(1) serve by simp
  have success: "\<exists>x c' w2. R d w1 = Some (Inr x, c', w2) \<and> P c' w2" if d: "session_of d = session_of c" "dw_dials w1 = dw_dials w + n" for d w1
  proof -
    let ?env = "env (dw_dials w1)"
    obtain r where r: "c_recovery d = Some r" "r_addr r = ''tcp://'' @ host" "cfg_codecID (c_config d) = i"
      by (rule session_ofD [OF d(1) c(1)]) (use c in simp_all)
    obtain r1 where r1: "c_recovery (?env d) = Some r1" "cfg_codecID (c_config (?env d)) = i"
      by (rule session_ofD [of "?env d" c rc]) (use c d env in simp_all)
    obtain r2 where r2: "c_recovery (?env (?env d)) = Some r2" "\<not> c_closed (?env (?env d))"
      by (rule session_ofD [of "?env (?env d)" c rc]) (use c d env in simp_all)
    have dial'': "nw_dial nw (dw_dials w1) ''tcp'' host t = Inr (netC\<lparr>nc_in := serverBytes i ?m ?resp @ []\<rparr>)" for t
      using dial' d(2) by simp
    show ?thesis
      by (rule resumeClientTransport_v3 [of regC i netC ?resp d r host ?env r1 ?env r2 nw w1 ?m "[]", OF C room(1) resp r(1,3,2) r1 r2 dial''])
         (use d(2) in \<open>simp add: R_def P_def resumeResponse_def\<close>)
  qed
  have "\<exists>c' w'. reconnectTries nw R env maxBackoff backoff c w = Some (c', w') \<and> P c' w'" for maxBackoff backoff
    by (rule reconnectTries_succeeds [OF env R_def refl c(1,3,4) fails success]) (auto simp: P_def)
  moreover have "\<exists>maxBackoff backoff. reconnectUntilAttached regC nw env c w = reconnectTries nw R env maxBackoff backoff c w"
    using c(1) unfolding reconnectUntilAttached_def R_def Let_def by auto
  ultimately obtain c' w' where "reconnectUntilAttached regC nw env c w = Some (c', w')" "P c' w'" by metis
  moreover have "s' = s1" using h(1) serve by simp
  ultimately show ?thesis
    using h(2) cs(2) attachTransport_more(1,2) [OF cs(4), of now m "lastReceived rc"] req(5) by (auto simp: P_def)
qed

theorem reconnect_succeeds_witness:
  "\<exists>c' w'. reconnectUntilAttached sampleCodecs''
       (flakyNetwork 3 (nc_out (fst (handleConn sampleCodecs' 5 sampleRandom sampleRandom 2 ''b''
          (sampleConn\<lparr>nc_in := clientBytes [1] 100 (resumeRequest (the (c_recovery detachedClient)) 0)\<rparr>) attachedServer))))
       (\<lambda>k c. c) detachedClient startWorld = Some (c', w') \<and> c_conn c' = Some 3 \<and> \<not> c_closed c'"
proof -
  let ?rc = "the (c_recovery detachedClient)" and ?rs = "the (c_recovery (sv_heap attachedServer ! 0))"
  let ?h = "handleConn sampleCodecs' 5 sampleRandom sampleRandom 2 ''b''
      (sampleConn\<lparr>nc_in := clientBytes [1] (cfg_maxFrame (c_config detachedClient)) (resumeRequest ?rc (lastReceived ?rc))\<rparr>) attachedServer"
  let ?nw = "flakyNetwork 3 (nc_out (fst ?h))"
  have v: "validateCodecList sampleCodecs'' [1] = None" "validateCodecList sampleCodecs' (sv_codecs attachedServer) = None"
    "1 \<in> set (sv_codecs attachedServer)" "so_Enable (sv_recovery attachedServer)" "nc_room sampleConn = None" "nc_out sampleConn = []"
    "dw_dials startWorld = 0" by code_simp+
  have c: "c_recovery detachedClient = Some ?rc" "cfg_codecID (c_config detachedClient) = 1" "r_addr ?rc = ''tcp://'' @ ''h:1''"
    "\<not> c_closed detachedClient" "token_ok (r_connectionID ?rc)" "token_ok (r_resumeSecret ?rc)" "cfg_maxFrame (c_config detachedClient) = 100"
    "lastReceived ?rc = 0" by code_simp+
  have cs: "lookupRecoveryConnection (r_connectionID ?rc) attachedServer = Some 0" "0 < length (sv_heap attachedServer)"
    "\<not> Option.is_none (c_recovery (sv_heap attachedServer ! 0))" "\<not> c_closed (sv_heap attachedServer ! 0)" "r_connectionID ?rs = r_connectionID ?rc"
    "r_resumeSecret ?rs = r_resumeSecret ?rc" "cfg_codecID (c_config (sv_heap attachedServer ! 0)) = 1" "whole_millis (r_shared ?rs)" by code_simp+
  have rs: "c_recovery (sv_heap attachedServer ! 0) = Some ?rs" using cs(3) by (auto simp: Option.is_none_def)
  have f: "\<exists>e. nw_dial ?nw k ''tcp'' ''h:1'' t = Inl e \<and> \<not> isTerminal e" if "dw_dials startWorld \<le> k" "k < dw_dials startWorld + 3" for k t
    using that v(7) by (simp add: flakyNetwork_def isTerminal_def)
  have d: "nw_dial ?nw (dw_dials startWorld + 3) ''tcp'' ''h:1'' t = Inr (sampleConn\<lparr>nc_in := nc_out (fst ?h)\<rparr>)" for t
    using v(7) by (simp add: flakyNetwork_def)
  from reconnect_succeeds [of "\<lambda>k c. c", OF refl v(1-4) v(5,5,6) c(1-6) cs(1,2) rs cs(4-8) prod.collapse [symmetric] f d] c(7,8) v(7)
  show ?thesis by fastforce
qed

end
