(* ===== verification/Serve_Address.thy ===== *)
theory Serve_Address
  imports Client
begin

text \<open>
  \<^verbatim>\<open>Serve\<close> up to its accept loop (\<^verbatim>\<open>src/server.go\<close>) and the listeners of \<^verbatim>\<open>src/transport_tcp.go\<close> and
  \<^verbatim>\<open>src/transport_uds.go\<close>. \<^verbatim>\<open>net.Listen\<close> is an argument: the listener, or an error, for a network and an
  address. Client and server read an address the same way.
\<close>

definition listenTCP :: "(string \<Rightarrow> string \<Rightarrow> nat result) \<Rightarrow> string \<Rightarrow> nat result" where
  "listenTCP listen addr = listen ''tcp'' addr"

definition listenUDS :: "bool \<Rightarrow> (string \<Rightarrow> string \<Rightarrow> nat result) \<Rightarrow> string \<Rightarrow> nat result" where
  "listenUDS linux listen path =
     (case normalizeUDSPath linux path of Inl e \<Rightarrow> Inl e | Inr udsPath \<Rightarrow> listen ''unix'' udsPath)"

text \<open>A connection that was accepted comes with the address of its peer, or an empty one.\<close>

definition acceptPeer :: "(nat \<times> string option) result \<Rightarrow> (nat \<times> string) result" where
  "acceptPeer accepted =
     (case accepted of
        Inl e \<Rightarrow> Inl e
      | Inr (conn, remoteAddr) \<Rightarrow> Inr (conn, case remoteAddr of None \<Rightarrow> '''' | Some a \<Rightarrow> a))"

definition serveTCP ::
    "(string \<Rightarrow> string \<Rightarrow> nat result) \<Rightarrow> string \<Rightarrow> ('m, 'b, 'h) Server \<Rightarrow> nat result \<times> ('m, 'b, 'h) Server" where
  "serveTCP listen addr s =
     (case listenTCP listen addr of
        Inl e \<Rightarrow> (Inl e, s)
      | Inr l \<Rightarrow> (case serveBegin l s of (Some e, s1) \<Rightarrow> (Inl e, s1) | (None, s1) \<Rightarrow> (Inr l, s1)))"

definition serveUDS ::
    "bool \<Rightarrow> (string \<Rightarrow> string \<Rightarrow> nat result) \<Rightarrow> string \<Rightarrow> ('m, 'b, 'h) Server \<Rightarrow> nat result \<times> ('m, 'b, 'h) Server" where
  "serveUDS linux listen addr s =
     (case listenUDS linux listen addr of
        Inl e \<Rightarrow> (Inl e, s)
      | Inr l \<Rightarrow> (case serveBegin l s of (Some e, s1) \<Rightarrow> (Inl e, s1) | (None, s1) \<Rightarrow> (Inr l, s1)))"

text \<open>\<^verbatim>\<open>Serve\<close> until it accepts: the listener it accepts on, or the error it returns.\<close>

definition Serve ::
    "bool \<Rightarrow> (string \<Rightarrow> string \<Rightarrow> nat result) \<Rightarrow> string \<Rightarrow> ('m, 'b, 'h) Server \<Rightarrow> nat result \<times> ('m, 'b, 'h) Server" where
  "Serve linux listen addr s =
     (if isStopping s then (Inl ErrServerClosed, s)
      else case parseAddr addr of
        Inl e \<Rightarrow> (Inl e, s)
      | Inr (net, address) \<Rightarrow>
          if net = ''unix'' then serveUDS linux listen address s else serveTCP listen address s)"

text \<open>What an address names, or the error both sides report.\<close>

definition endpoint :: "bool \<Rightarrow> string \<Rightarrow> (string \<times> string) result" where
  "endpoint linux addr =
     (case parseAddr addr of
        Inl e \<Rightarrow> Inl e
      | Inr (net, address) \<Rightarrow>
          if net = ''unix'' then (case normalizeUDSPath linux address of Inl e \<Rightarrow> Inl e | Inr p \<Rightarrow> Inr (''unix'', p))
          else Inr (''tcp'', address))"

lemma dial_endpoint:
  "dialForAddr nw addr timeout w =
     (case endpoint (nw_linux nw) addr of
        Inl e \<Rightarrow> (Inl e, w)
      | Inr (net, a) \<Rightarrow> dialNet nw net a (max timeout 0) w)"
  by (auto simp: dialForAddr_def endpoint_def dialUDS_def dialTCP_def max_def split: sum.split)

text \<open>A server that is not stopping listens on what a client dials for the same address, and once it accepts the listener
  is one that \<^verbatim>\<open>Shutdown\<close> closes.\<close>

lemma serve_endpoint:
  assumes "\<not> isStopping s"
  shows "Serve linux listen addr s =
    (case endpoint linux addr of
       Inl e \<Rightarrow> (Inl e, s)
     | Inr (net, a) \<Rightarrow>
         (case listen net a of Inl e \<Rightarrow> (Inl e, s) | Inr l \<Rightarrow> (Inr l, s\<lparr>sv_listeners := List.insert l (sv_listeners s)\<rparr>)))"
  using assms
  by (auto simp: Serve_def endpoint_def serveUDS_def serveTCP_def listenUDS_def listenTCP_def serveBegin_def trackListener_def
      isStopping_def split: sum.split)

lemma serve_refused_while_stopping: "isStopping s \<Longrightarrow> Serve linux listen addr s = (Inl ErrServerClosed, s)"
  by (simp add: Serve_def)

lemma endpoint_examples:
  "endpoint linux ''tcp://h:1'' = Inr (''tcp'', ''h:1'')" "endpoint linux ''h:1'' = Inr (''tcp'', ''h:1'')"
  "endpoint linux ''uds:///s'' = Inr (''unix'', ''/s'')" "endpoint linux ''unix:///s'' = Inr (''unix'', ''/s'')"
  by (simp_all add: endpoint_def parseAddr_def HasPrefix_def TrimPrefix_def normalizeUDSPath.simps)

end
