(* ===== verification/Go_Types.thy ===== *)
theory Go_Types
  imports Errors
begin

text \<open>
  Go's types and values as \<^verbatim>\<open>reflect\<close> shows them to the codecs and the registry. A basic type is its
  kind; a struct type is its name, which a table of declarations explains, so that struct types may be
  recursive. Values are finite trees: a pointer holds what it points to, so cyclic data is not
  represented. A map is a list of its entries in the order in which it is iterated.

  The table says of a struct type what the methods of \<open>T\<close> and \<open>*T\<close> are as far as the code asks:
  the marshalling interfaces, \<^verbatim>\<open>WireName\<close>, and \<^verbatim>\<open>Handle\<close>. The caches that the Go code keeps per type
  (\<^verbatim>\<open>compactTypes\<close>, \<^verbatim>\<open>defaultWireNameCache\<close>, \<^verbatim>\<open>pointerWireNames\<close>, \<^verbatim>\<open>typeInfoCache\<close>) hold the value
  of a function of the type and are not modelled.
\<close>

datatype goType =
    TBasic string
  | TStruct string
  | TPtr goType
  | TSlice goType
  | TArray nat goType
  | TMap goType goType
  | TInterface string

datatype basicValue = BBool bool | BInt int | BString string | BFloat bytes

datatype goValue =
    Invalid
  | Basic string basicValue
  | Struct string "goValue list"
  | Ptr goType "goValue option"
  | Slice goType "goValue list option"
  | Array goType "goValue list"
  | Map goType goType "(goValue \<times> goValue) list option"
  | Interface string "goValue option"

text \<open>\<^verbatim>\<open>reflect.Kind\<close>.\<close>

datatype kind = KInvalid | KBasic string | KStruct | KPointer | KSlice | KArray | KMap | KInterface

fun type_Kind :: "goType \<Rightarrow> kind" where
  "type_Kind (TBasic k) = KBasic k"
| "type_Kind (TStruct n) = KStruct"
| "type_Kind (TPtr t) = KPointer"
| "type_Kind (TSlice t) = KSlice"
| "type_Kind (TArray n t) = KArray"
| "type_Kind (TMap k t) = KMap"
| "type_Kind (TInterface n) = KInterface"

fun value_Kind :: "goValue \<Rightarrow> kind" where
  "value_Kind Invalid = KInvalid"
| "value_Kind (Basic k b) = KBasic k"
| "value_Kind (Struct n vs) = KStruct"
| "value_Kind (Ptr t v) = KPointer"
| "value_Kind (Slice t vs) = KSlice"
| "value_Kind (Array t vs) = KArray"
| "value_Kind (Map k t kvs) = KMap"
| "value_Kind (Interface n v) = KInterface"

fun value_Type :: "goValue \<Rightarrow> goType option" where
  "value_Type Invalid = None"
| "value_Type (Basic k b) = Some (TBasic k)"
| "value_Type (Struct n vs) = Some (TStruct n)"
| "value_Type (Ptr t v) = Some (TPtr t)"
| "value_Type (Slice t vs) = Some (TSlice t)"
| "value_Type (Array t vs) = Some (TArray (length vs) t)"
| "value_Type (Map k t kvs) = Some (TMap k t)"
| "value_Type (Interface n v) = Some (TInterface n)"

text \<open>A struct type: its package and name, its fields with whether they are exported, the marshalling
  interfaces of \<open>T\<close> and \<open>*T\<close>, the result of \<^verbatim>\<open>WireName\<close> for \<open>T\<close> and \<open>*T\<close>, and whether \<open>*T\<close> has
  \<^verbatim>\<open>Handle\<close>.\<close>

record structType =
  st_pkgPath :: string
  st_name :: string
  st_fields :: "(bool \<times> goType) list"
  st_valueImplements :: "string list"
  st_ptrImplements :: "string list"
  st_valueWireName :: "string option"
  st_ptrWireName :: "string option"
  st_handles :: bool

type_synonym typeTable = "string \<Rightarrow> structType"

text \<open>The zero value of a type; \<open>depth\<close> bounds the nesting of struct types by value, which Go
  requires to be finite.\<close>

definition zeroBasic :: "string \<Rightarrow> basicValue" where
  "zeroBasic k =
     (if k = ''string'' then BString ''''
      else if k = ''bool'' then BBool False
      else if k = ''float64'' then BFloat (replicate 8 0)
      else if k = ''float32'' then BFloat (replicate 4 0)
      else BInt 0)"

fun zeroValue :: "typeTable \<Rightarrow> nat \<Rightarrow> goType \<Rightarrow> goValue" where
  "zeroValue decls depth (TBasic k) = Basic k (zeroBasic k)"
| "zeroValue decls 0 (TStruct n) = Invalid"
| "zeroValue decls (Suc depth) (TStruct n) =
     Struct n (map (\<lambda>(_, t). zeroValue decls depth t) (st_fields (decls n)))"
| "zeroValue decls depth (TPtr t) = Ptr t None"
| "zeroValue decls depth (TSlice t) = Slice t None"
| "zeroValue decls depth (TArray n t) = Array t (replicate n (zeroValue decls depth t))"
| "zeroValue decls depth (TMap k t) = Map k t None"
| "zeroValue decls depth (TInterface n) = Interface n None"

text \<open>Nil values.\<close>

fun is_nil :: "goValue \<Rightarrow> bool" where
  "is_nil (Ptr t v) \<longleftrightarrow> v = None"
| "is_nil (Slice t vs) \<longleftrightarrow> vs = None"
| "is_nil (Map k t kvs) \<longleftrightarrow> kvs = None"
| "is_nil (Interface n v) \<longleftrightarrow> v = None"
| "is_nil v \<longleftrightarrow> False"

text \<open>Go strings are byte strings.\<close>

definition bytes_of_string :: "string \<Rightarrow> bytes" where
  "bytes_of_string s = map (\<lambda>c. word_of_nat (of_char c)) s"

definition string_of_bytes :: "bytes \<Rightarrow> string" where
  "string_of_bytes bs = map (\<lambda>b. char_of (unat b)) bs"

lemma string_of_bytes_inverse [simp]: "string_of_bytes (bytes_of_string s) = s"
proof -
  have "char_of (unat (word_of_nat (of_char c) :: byte)) = c" for c :: char
    by (simp add: unat_of_nat)
  then show ?thesis by (simp add: string_of_bytes_def bytes_of_string_def comp_def)
qed

lemma bytes_of_string_inverse [simp]: "bytes_of_string (string_of_bytes bs) = bs"
proof -
  have "word_of_nat (of_char (char_of (unat b) :: char)) = b" for b :: byte
    using unat_byte_less [of b] by (simp add: of_char_of)
  then show ?thesis by (simp add: string_of_bytes_def bytes_of_string_def comp_def)
qed

lemma length_string_of_bytes [simp]: "length (string_of_bytes bs) = length bs"
  by (simp add: string_of_bytes_def)

lemma length_bytes_of_string [simp]: "length (bytes_of_string s) = length s"
  by (simp add: bytes_of_string_def)

section \<open>Well-typed values\<close>

text \<open>The values of a basic kind: integers within its width, a string that a length field of 32 bits can
  hold, a float as its IEEE bits.\<close>

definition intRange :: "string \<Rightarrow> (int \<times> int) option" where
  "intRange = map_of
     [(''int'', -9223372036854775808, 9223372036854775807), (''int64'', -9223372036854775808, 9223372036854775807),
      (''int32'', -2147483648, 2147483647), (''int16'', -32768, 32767), (''int8'', -128, 127),
      (''uint'', 0, 18446744073709551615), (''uint64'', 0, 18446744073709551615),
      (''uint32'', 0, 4294967295), (''uint16'', 0, 65535), (''uint8'', 0, 255)]"

fun basic_ok :: "string \<Rightarrow> basicValue \<Rightarrow> bool" where
  "basic_ok k (BBool b) \<longleftrightarrow> k = ''bool''"
| "basic_ok k (BString s) \<longleftrightarrow> k = ''string'' \<and> length s < 4294967296"
| "basic_ok k (BInt i) \<longleftrightarrow> (case intRange k of None \<Rightarrow> False | Some (lo, hi) \<Rightarrow> lo \<le> i \<and> i \<le> hi)"
| "basic_ok k (BFloat bs) \<longleftrightarrow> (k = ''float64'' \<and> length bs = 8) \<or> (k = ''float32'' \<and> length bs = 4)"

fun has_type :: "typeTable \<Rightarrow> goType \<Rightarrow> goValue \<Rightarrow> bool" where
  "has_type decls t Invalid \<longleftrightarrow> False"
| "has_type decls t (Basic k b) \<longleftrightarrow> t = TBasic k"
| "has_type decls t (Struct n vs) \<longleftrightarrow>
     t = TStruct n \<and> list_all2 (\<lambda>f v. has_type decls (snd f) v) (st_fields (decls n)) vs"
| "has_type decls t (Ptr e v) \<longleftrightarrow> t = TPtr e \<and> (case v of None \<Rightarrow> True | Some x \<Rightarrow> has_type decls e x)"
| "has_type decls t (Slice e v) \<longleftrightarrow>
     t = TSlice e \<and> (case v of None \<Rightarrow> True | Some vs \<Rightarrow> list_all (has_type decls e) vs)"
| "has_type decls t (Array e vs) \<longleftrightarrow> t = TArray (length vs) e \<and> list_all (has_type decls e) vs"
| "has_type decls t (Map k e v) \<longleftrightarrow>
     t = TMap k e \<and> (case v of None \<Rightarrow> True
       | Some kvs \<Rightarrow> list_all (\<lambda>p. has_type decls k (fst p) \<and> has_type decls e (snd p)) kvs)"
| "has_type decls t (Interface n v) \<longleftrightarrow> t = TInterface n"

text \<open>The declarations are sound when \<open>depth\<close> covers the nesting of every struct type by value.\<close>

definition wf_decls :: "typeTable \<Rightarrow> nat \<Rightarrow> bool" where
  "wf_decls decls depth \<longleftrightarrow> (\<forall>n. has_type decls (TStruct n) (zeroValue decls depth (TStruct n)))"

lemma zeroValue_has_type: "wf_decls decls depth \<Longrightarrow> has_type decls t (zeroValue decls depth t)"
  by (induction t) (auto simp: wf_decls_def list_all_iff)

end
