(* ===== verification/Messages.thy ===== *)
theory Messages
  imports Go_Types Conn_State
begin

text \<open>
  \<^verbatim>\<open>src/message.go\<close>, \<^verbatim>\<open>src/registry.go\<close>, \<^verbatim>\<open>src/type_info.go\<close> and the reflection of \<^verbatim>\<open>src/raw_message.go\<close>:
  the wire names of messages and the registry of message types and handlers. A registry holds
  immutable maps that are replaced as a whole, so a snapshot is the value it had. \<open>registryView\<close> gives
  the maps that the connections of \<open>Conn_State\<close> use, where a type stands for its new message.
\<close>

section \<open>Wire names\<close>

fun splitOn :: "char \<Rightarrow> string \<Rightarrow> string list" where
  "splitOn sep [] = ['''']"
| "splitOn sep (c # cs) =
     (if c = sep then '''' # splitOn sep cs
      else case splitOn sep cs of [] \<Rightarrow> [[c]] | p # ps \<Rightarrow> (c # p) # ps)"

definition TrimSuffix :: "string \<Rightarrow> string \<Rightarrow> string" where
  "TrimSuffix s suf =
     (if length suf \<le> length s \<and> drop (length s - length suf) s = suf then take (length s - length suf) s else s)"

definition pkgLeaf :: "string \<Rightarrow> string" where
  "pkgLeaf pkgPath = last (splitOn (CHR ''/'') pkgPath)"

text \<open>\<^verbatim>\<open>reflect.Type.String\<close>.\<close>

fun type_String :: "typeTable \<Rightarrow> goType \<Rightarrow> string" where
  "type_String decls (TBasic k) = k"
| "type_String decls (TStruct n) =
     (if st_name (decls n) = '''' then ''struct {}''
      else if st_pkgPath (decls n) = '''' then st_name (decls n)
      else pkgLeaf (st_pkgPath (decls n)) @ ''.'' @ st_name (decls n))"
| "type_String decls (TPtr t) = ''*'' @ type_String decls t"
| "type_String decls (TSlice t) = ''[]'' @ type_String decls t"
| "type_String decls (TArray n t) = ''['' @ show_nat n @ '']'' @ type_String decls t"
| "type_String decls (TMap k t) = ''map['' @ type_String decls k @ '']'' @ type_String decls t"
| "type_String decls (TInterface n) = n"

fun defaultWireNameForType :: "typeTable \<Rightarrow> string \<Rightarrow> goType option \<Rightarrow> string result" where
  "defaultWireNameForType decls ns None = Inl (ErrInvalidMessage ''message type must be non-nil'')"
| "defaultWireNameForType decls ns (Some t) =
     (let ns' = (if ns = '''' then ''am'' else ns)
      in case (case t of TPtr e \<Rightarrow> e | _ \<Rightarrow> t) of
           TStruct n \<Rightarrow>
             let pkgPath = st_pkgPath (decls n);
                 leaf = (if pkgPath \<noteq> '''' then TrimSuffix (pkgLeaf pkgPath) ''-go'' else ''unknown'');
                 name = (if st_name (decls n) = '''' then ''unknown'' else st_name (decls n))
             in Inr (ns' @ ''.'' @ leaf @ ''.'' @ name)
         | _ \<Rightarrow> Inl (ErrInvalidMessage ''message must be struct or pointer to struct''))"

definition defaultWireNameForValue :: "typeTable \<Rightarrow> string \<Rightarrow> goValue \<Rightarrow> string result" where
  "defaultWireNameForValue decls ns msg =
     (if msg = Invalid then Inl (ErrInvalidMessage ''message must be non-nil'')
      else defaultWireNameForType decls ns (value_Type msg))"

text \<open>\<^verbatim>\<open>msg.(NamedMessage)\<close>: a value of a struct type by the methods of \<open>T\<close>, a pointer to one by those of
  \<open>*T\<close>, with what its \<^verbatim>\<open>WireName()\<close> gives. A \<^verbatim>\<open>WireName\<close> with a value receiver panics on a nil pointer; one with a
  pointer receiver does not look at it.\<close>

definition nilReceiver :: go_error where
  "nilReceiver = ErrPanic ''value method WireName called using nil pointer''"

fun namedMessage :: "typeTable \<Rightarrow> goValue \<Rightarrow> string result option" where
  "namedMessage decls (Struct n vs) = map_option Inr (st_valueWireName (decls n))"
| "namedMessage decls (Ptr (TStruct n) v) =
     (if v = None \<and> st_valueWireName (decls n) \<noteq> None then Some (Inl nilReceiver)
      else map_option Inr (st_ptrWireName (decls n)))"
| "namedMessage decls v = None"

definition pointerWireName :: "typeTable \<Rightarrow> string \<Rightarrow> string option" where
  "pointerWireName decls n = st_ptrWireName (decls n)"

definition WireNameOf :: "typeTable \<Rightarrow> goValue \<Rightarrow> string result" where
  "WireNameOf decls msg =
     (let nonEmpty = (\<lambda>name. if name = '''' then Inl (ErrInvalidMessage ''message wire name must be non-empty'') else Inr name)
      in if msg = Invalid then Inl (ErrInvalidMessage ''message must be non-nil'')
         else case namedMessage decls msg of
                Some (Inl panic) \<Rightarrow> Inl panic
              | Some (Inr name) \<Rightarrow> nonEmpty name
              | None \<Rightarrow>
                  (case (case msg of Struct n vs \<Rightarrow> pointerWireName decls n | _ \<Rightarrow> None) of
                     Some name \<Rightarrow> nonEmpty name
                   | None \<Rightarrow> defaultWireNameForValue decls ''am'' msg))"

text \<open>\<^verbatim>\<open>wireNameForValue\<close> has no error result; only the panic goes through it.\<close>

definition wireNameForValue :: "typeTable \<Rightarrow> goValue \<Rightarrow> string result" where
  "wireNameForValue decls msg =
     (let typeName = (case value_Type msg of None \<Rightarrow> ''nil'' | Some t \<Rightarrow> type_String decls t)
      in case WireNameOf decls msg of
           Inr name \<Rightarrow> Inr (if name \<noteq> '''' then name else typeName)
         | Inl e \<Rightarrow> if e = nilReceiver then Inl e else Inr typeName)"

text \<open>The two message types of the library, as the table declares them.\<close>

definition OkReplyType :: structType where
  "OkReplyType = \<lparr>st_pkgPath = ''github.com/adaptivemsg/adaptivemsg-go'', st_name = ''OkReply'', st_fields = [],
     st_valueImplements = [], st_ptrImplements = [], st_valueWireName = None,
     st_ptrWireName = Some ''am.message.OkReply'', st_handles = False\<rparr>"

definition ErrorReplyType :: structType where
  "ErrorReplyType = \<lparr>st_pkgPath = ''github.com/adaptivemsg/adaptivemsg-go'', st_name = ''ErrorReply'',
     st_fields = [(True, TBasic ''string''), (True, TBasic ''string'')],
     st_valueImplements = [], st_ptrImplements = [], st_valueWireName = None,
     st_ptrWireName = Some ''am.message.ErrorReply'', st_handles = False\<rparr>"

definition NewErrorReply :: "string \<Rightarrow> string \<Rightarrow> goValue" where
  "NewErrorReply code message =
     Ptr (TStruct ''ErrorReply'') (Some (Struct ''ErrorReply''
       [Basic ''string'' (BString code), Basic ''string'' (BString message)]))"

section \<open>New messages\<close>

text \<open>\<^verbatim>\<open>reflect.New\<close> of a struct type; \<open>depth\<close> bounds the nesting of its fields by value.\<close>

definition newStruct :: "typeTable \<Rightarrow> nat \<Rightarrow> string \<Rightarrow> goValue" where
  "newStruct decls depth n = Ptr (TStruct n) (Some (zeroValue decls depth (TStruct n)))"

fun newMessageForReflectType :: "typeTable \<Rightarrow> nat \<Rightarrow> goType option \<Rightarrow> goValue result" where
  "newMessageForReflectType decls depth None = Inl (ErrInvalidMessage ''message type must be non-nil'')"
| "newMessageForReflectType decls depth (Some (TPtr t)) =
     (case t of
        TStruct n \<Rightarrow> Inr (newStruct decls depth n)
      | _ \<Rightarrow> Inl (ErrInvalidMessage ''message must be struct or pointer to struct''))"
| "newMessageForReflectType decls depth (Some (TStruct n)) = Inr (newStruct decls depth n)"
| "newMessageForReflectType decls depth (Some t) =
     Inl (ErrInvalidMessage ''message must be struct or pointer to struct'')"

fun newMessageValueForType :: "typeTable \<Rightarrow> nat \<Rightarrow> goType \<Rightarrow> goValue result" where
  "newMessageValueForType decls depth (TPtr t) =
     (case t of
        TStruct n \<Rightarrow> Inr (newStruct decls depth n)
      | _ \<Rightarrow> Inl (ErrInvalidMessage ''message must be struct or pointer to struct''))"
| "newMessageValueForType decls depth (TStruct n) = Inr (newStruct decls depth n)"
| "newMessageValueForType decls depth t = Inl (ErrInvalidMessage ''message must be struct or pointer to struct'')"

definition messageTypeOf :: "goValue \<Rightarrow> goType result" where
  "messageTypeOf proto =
     (case proto of
        Invalid \<Rightarrow> Inl (ErrInvalidMessage ''message must be non-nil'')
      | Ptr t None \<Rightarrow> Inl (ErrInvalidMessage ''message must be non-nil'')
      | Ptr (TStruct n) (Some _) \<Rightarrow> Inr (TStruct n)
      | Struct n _ \<Rightarrow> Inr (TStruct n)
      | _ \<Rightarrow> Inl (ErrInvalidMessage ''message must be struct or pointer to struct''))"

record typeInfo =
  ti_wire :: string
  ti_proto :: goValue
  ti_err :: "go_error option"

fun messageTypeInfo :: "typeTable \<Rightarrow> nat \<Rightarrow> goType option \<Rightarrow> typeInfo" where
  "messageTypeInfo decls depth None =
     \<lparr>ti_wire = '''', ti_proto = Invalid, ti_err = Some (ErrInvalidMessage ''message type must be non-nil'')\<rparr>"
| "messageTypeInfo decls depth (Some t) =
     (case newMessageForReflectType decls depth (Some t) of
        Inl e \<Rightarrow> \<lparr>ti_wire = type_String decls t, ti_proto = Invalid, ti_err = Some e\<rparr>
      | Inr proto \<Rightarrow>
          (case WireNameOf decls proto of
             Inl e \<Rightarrow> \<lparr>ti_wire = type_String decls t, ti_proto = proto, ti_err = Some e\<rparr>
           | Inr wire \<Rightarrow> \<lparr>ti_wire = wire, ti_proto = proto, ti_err = None\<rparr>))"

definition expectedWireName :: "typeTable \<Rightarrow> nat \<Rightarrow> goType \<Rightarrow> string" where
  "expectedWireName decls depth t =
     (if type_Kind t = KInterface then type_String decls t
      else
        let info = messageTypeInfo decls depth (Some t)
        in if ti_err info = None \<and> ti_wire info \<noteq> '''' then ti_wire info else type_String decls t)"

section \<open>The registry\<close>

text \<open>A handler made by \<^verbatim>\<open>handlerForType\<close> knows the wire name it was made for.\<close>

datatype handlerFunc = HandlerFor string

record registry =
  rg_handlers :: "(string \<times> handlerFunc) list"
  rg_messages :: "(string \<times> goType) list"

definition registerMessage :: "typeTable \<Rightarrow> goValue \<Rightarrow> registry \<Rightarrow> (string \<times> goType) result \<times> registry" where
  "registerMessage decls proto r =
     (case messageTypeOf proto of
        Inl e \<Rightarrow> (Inl e, r)
      | Inr t \<Rightarrow>
          (case WireNameOf decls proto of
             Inl e \<Rightarrow> (Inl e, r)
           | Inr wire \<Rightarrow> (Inr (wire, t), r\<lparr>rg_messages := AList.update wire t (rg_messages r)\<rparr>)))"

definition registerHandler :: "string \<Rightarrow> handlerFunc \<Rightarrow> registry \<Rightarrow> registry" where
  "registerHandler wire handler r = r\<lparr>rg_handlers := AList.update wire handler (rg_handlers r)\<rparr>"

fun handlerForType :: "typeTable \<Rightarrow> goType option \<Rightarrow> string \<Rightarrow> handlerFunc option" where
  "handlerForType decls (Some (TStruct n)) wire = (if st_handles (decls n) then Some (HandlerFor wire) else None)"
| "handlerForType decls t wire = None"

text \<open>The call of a handler; \<open>Handle\<close> is the method of the message.\<close>

definition typeMismatch :: "typeTable \<Rightarrow> string \<Rightarrow> goValue \<Rightarrow> 'a result" where
  "typeMismatch decls wire m =
     (case wireNameForValue decls m of Inl panic \<Rightarrow> Inl panic | Inr got \<Rightarrow> Inl (ErrTypeMismatch wire got))"

definition callHandler ::
    "typeTable \<Rightarrow> (goValue \<Rightarrow> goValue result) \<Rightarrow> handlerFunc \<Rightarrow> goValue \<Rightarrow> goValue result" where
  "callHandler decls Handle h m =
     (case h of HandlerFor wire \<Rightarrow>
        (case m of
           Ptr (TStruct n) v \<Rightarrow> if st_handles (decls n) then Handle m else typeMismatch decls wire m
         | _ \<Rightarrow> typeMismatch decls wire m))"

fun registerTypes :: "typeTable \<Rightarrow> goValue list \<Rightarrow> registry \<Rightarrow> go_error option \<times> registry" where
  "registerTypes decls [] r = (None, r)"
| "registerTypes decls (proto # protos) r =
     (case registerMessage decls proto r of
        (Inl e, r1) \<Rightarrow> (Some e, r1)
      | (Inr (wire, typ), r1) \<Rightarrow>
          registerTypes decls protos
            (case handlerForType decls (Some typ) wire of Some h \<Rightarrow> registerHandler wire h r1 | None \<Rightarrow> r1))"

definition newRegistry :: "typeTable \<Rightarrow> nat \<Rightarrow> registry" where
  "newRegistry decls depth =
     snd (registerMessage decls (newStruct decls depth ''ErrorReply'')
       (snd (registerMessage decls (newStruct decls depth ''OkReply'') \<lparr>rg_handlers = [], rg_messages = []\<rparr>)))"

definition cloneRegistry :: "typeTable \<Rightarrow> nat \<Rightarrow> registry option \<Rightarrow> registry" where
  "cloneRegistry decls depth src = (case src of None \<Rightarrow> newRegistry decls depth | Some r \<Rightarrow> r)"

definition newRegistrySnapshot :: "typeTable \<Rightarrow> nat \<Rightarrow> registry \<Rightarrow> registry" where
  "newRegistrySnapshot decls depth globalRegistry = cloneRegistry decls depth (Some globalRegistry)"

text \<open>\<^verbatim>\<open>Register[T]\<close>, on the global registry; a panic is \<open>ErrPanic\<close>.\<close>

definition Register :: "typeTable \<Rightarrow> nat \<Rightarrow> goType \<Rightarrow> registry \<Rightarrow> go_error option \<times> registry" where
  "Register decls depth t globalRegistry =
     (case newMessageForReflectType decls depth (Some t) of
        Inl e \<Rightarrow> (Some e, globalRegistry)
      | Inr msg \<Rightarrow> registerTypes decls [msg] globalRegistry)"

definition MustRegister :: "typeTable \<Rightarrow> nat \<Rightarrow> goType \<Rightarrow> registry \<Rightarrow> unit result \<times> registry" where
  "MustRegister decls depth t globalRegistry =
     (case Register decls depth t globalRegistry of
        (Some e, r) \<Rightarrow> (Inl (ErrPanic (Error e)), r)
      | (None, r) \<Rightarrow> (Inr (), r))"

text \<open>The maps as connections see them.\<close>

definition registryView :: "typeTable \<Rightarrow> nat \<Rightarrow> registry \<Rightarrow> (goValue, handlerFunc) registryTypes" where
  "registryView decls depth r =
     \<lparr>rt_handlers = rg_handlers r,
      rt_messages = map (\<lambda>(wire, t). (wire, case newMessageForReflectType decls depth (Some t) of Inr m \<Rightarrow> m | Inl _ \<Rightarrow> Invalid))
        (rg_messages r)\<rparr>"

section \<open>Properties\<close>

text \<open>Go puts the methods of \<open>T\<close> into the method set of \<open>*T\<close>, so a table of declarations satisfies this
  for every struct type.\<close>

definition methodSets :: "typeTable \<Rightarrow> string \<Rightarrow> bool" where
  "methodSets decls n \<longleftrightarrow>
     (case st_valueWireName (decls n) of None \<Rightarrow> True | Some w \<Rightarrow> st_ptrWireName (decls n) = Some w)"

lemma WireNameOf_value_pointer:
  assumes "methodSets decls n" "v \<noteq> None \<or> st_valueWireName (decls n) = None"
  shows "WireNameOf decls (Struct n vs) = WireNameOf decls (Ptr (TStruct n) v)"
  using assms
  by (cases "st_valueWireName (decls n)"; cases "st_ptrWireName (decls n)")
    (auto simp: WireNameOf_def methodSets_def pointerWireName_def defaultWireNameForValue_def)

lemma WireNameOf_nonempty: "WireNameOf decls msg = Inr w \<Longrightarrow> w \<noteq> ''''"
  by (cases "value_Type msg")
    (auto simp: WireNameOf_def defaultWireNameForValue_def Let_def split: if_splits option.splits sum.splits goType.splits)

lemma expectedWireName_message:
  assumes "newMessageForReflectType decls depth (Some t) = Inr msg" and "WireNameOf decls msg = Inr w"
  shows "expectedWireName decls depth t = w"
  using assms WireNameOf_nonempty [OF assms(2)] by (cases t) (simp_all add: expectedWireName_def Let_def)

lemma Register_message:
  assumes "newMessageForReflectType decls depth (Some t) = Inr (newStruct decls depth n)"
    and "WireNameOf decls (newStruct decls depth n) = Inr w"
  shows "Register decls depth t r =
    (None, \<lparr>rg_handlers = (if st_handles (decls n) then AList.update w (HandlerFor w) (rg_handlers r) else rg_handlers r),
            rg_messages = AList.update w (TStruct n) (rg_messages r)\<rparr>)"
  using assms
  by (simp add: Register_def registerMessage_def registerHandler_def messageTypeOf_def newStruct_def)

text \<open>C36. A message has one wire name, however it is asked for: the sender's \<^verbatim>\<open>WireNameOf\<close> of a struct value
  and of a pointer to it agree with each other, with the name that \<^verbatim>\<open>RecvAs\<close> expects for the type \<open>T\<close> and
  for \<open>*T\<close>, and with the name under which \<^verbatim>\<open>Register\<close> records it for either type argument. The name is
  not empty. A nil \<open>*T\<close> has the same name, unless the \<^verbatim>\<open>WireName\<close> of \<open>T\<close> has a value receiver: then asking for it
  panics.\<close>

theorem wire_names_agree:
  assumes "methodSets decls n"
  shows "WireNameOf decls (Struct n vs) = WireNameOf decls (Ptr (TStruct n) (Some v)) \<and>
    WireNameOf decls (Ptr (TStruct n) None) =
      (if st_valueWireName (decls n) = None then WireNameOf decls (Struct n vs) else Inl nilReceiver) \<and>
    Register decls depth (TPtr (TStruct n)) r = Register decls depth (TStruct n) r \<and>
    (WireNameOf decls (Struct n vs) = Inr w \<longrightarrow>
       w \<noteq> '''' \<and> wireNameForValue decls (Struct n vs) = Inr w \<and> wireNameForValue decls (Ptr (TStruct n) (Some v)) = Inr w \<and>
       wireNameForValue decls (Ptr (TStruct n) None) = (if st_valueWireName (decls n) = None then Inr w else Inl nilReceiver) \<and>
       expectedWireName decls depth (TStruct n) = w \<and> expectedWireName decls depth (TPtr (TStruct n)) = w \<and>
       map_of (rg_messages (snd (Register decls depth (TStruct n) r))) w = Some (TStruct n))"
proof -
  have same: "WireNameOf decls (Struct n vs) = WireNameOf decls (Ptr (TStruct n) (Some v'))" for v'
    by (rule WireNameOf_value_pointer [OF assms]) simp
  have nil: "WireNameOf decls (Ptr (TStruct n) None) =
      (if st_valueWireName (decls n) = None then WireNameOf decls (Struct n vs) else Inl nilReceiver)"
    using WireNameOf_value_pointer [OF assms, of None vs] by (auto simp: WireNameOf_def Let_def)
  have reg: "Register decls depth (TPtr (TStruct n)) r = Register decls depth (TStruct n) r"
    by (simp add: Register_def)
  have named: "w \<noteq> '''' \<and> wireNameForValue decls (Struct n vs) = Inr w \<and> wireNameForValue decls (Ptr (TStruct n) (Some v)) = Inr w \<and>
       wireNameForValue decls (Ptr (TStruct n) None) = (if st_valueWireName (decls n) = None then Inr w else Inl nilReceiver) \<and>
       expectedWireName decls depth (TStruct n) = w \<and> expectedWireName decls depth (TPtr (TStruct n)) = w \<and>
       map_of (rg_messages (snd (Register decls depth (TStruct n) r))) w = Some (TStruct n)"
    if w: "WireNameOf decls (Struct n vs) = Inr w"
  proof -
    have ptr: "WireNameOf decls (Ptr (TStruct n) (Some v')) = Inr w" for v' using w same [of v'] by simp
    have new: "WireNameOf decls (newStruct decls depth n) = Inr w" by (simp add: newStruct_def ptr)
    have "expectedWireName decls depth (TStruct n) = w" "expectedWireName decls depth (TPtr (TStruct n)) = w"
      by (rule expectedWireName_message [OF _ new], simp)+
    moreover have "map_of (rg_messages (snd (Register decls depth (TStruct n) r))) w = Some (TStruct n)"
      by (subst Register_message [OF _ new]) (simp_all add: update_conv')
    ultimately show ?thesis
      using w ptr nil WireNameOf_nonempty [OF w] by (simp add: wireNameForValue_def Let_def)
  qed
  show ?thesis
    using same nil reg named by blast
qed

text \<open>A table that declares one more message type, with a handler and without a wire name of its own.\<close>

definition sampleTypes :: typeTable where
  "sampleTypes n =
     (if n = ''OkReply'' then OkReplyType
      else if n = ''ErrorReply'' then ErrorReplyType
      else \<lparr>st_pkgPath = ''example.com/hello-go'', st_name = n, st_fields = [(True, TBasic ''string'')],
            st_valueImplements = [], st_ptrImplements = [], st_valueWireName = None, st_ptrWireName = None,
            st_handles = (n = ''Hello'')\<rparr>)"

text \<open>And one whose \<^verbatim>\<open>WireName\<close> has a value receiver.\<close>

definition namedTypes :: typeTable where
  "namedTypes = sampleTypes(''Ping'' := (sampleTypes ''Ping'')\<lparr>st_valueWireName := Some ''app.Ping'', st_ptrWireName := Some ''app.Ping''\<rparr>)"

theorem wire_names_agree_witness:
  "methodSets sampleTypes ''Hello'' \<and>
   WireNameOf sampleTypes (Struct ''Hello'' []) = Inr ''am.hello.Hello'' \<and>
   WireNameOf sampleTypes (Ptr (TStruct ''Hello'') None) = Inr ''am.hello.Hello'' \<and>
   expectedWireName sampleTypes 1 (TPtr (TStruct ''Hello'')) = ''am.hello.Hello'' \<and>
   WireNameOf namedTypes (Ptr (TStruct ''Ping'') (Some (Struct ''Ping'' []))) = Inr ''app.Ping'' \<and>
   WireNameOf namedTypes (Ptr (TStruct ''Ping'') None) = Inl nilReceiver"
proof -
  have m: "methodSets sampleTypes ''Hello''" by code_simp
  have w: "WireNameOf sampleTypes (Struct ''Hello'' []) = Inr ''am.hello.Hello''" by code_simp
  have p: "methodSets namedTypes ''Ping''" "WireNameOf namedTypes (Struct ''Ping'' []) = Inr ''app.Ping''"
    "\<not> Option.is_none (st_valueWireName (namedTypes ''Ping''))" "st_valueWireName (sampleTypes ''Hello'') = None" by code_simp+
  let ?r = "\<lparr>rg_handlers = [], rg_messages = []\<rparr>"
  show ?thesis
    using m w p wire_names_agree [OF m, of "[]" "Struct ''Hello'' []" 1 ?r "''am.hello.Hello''"]
      wire_names_agree [OF p(1), of "[]" "Struct ''Ping'' []" 1 ?r "''app.Ping''"] by (auto simp: Option.is_none_def)
qed

text \<open>After \<^verbatim>\<open>Register\<close> of a message type its wire name leads to new messages of that type and, when the
  type has \<^verbatim>\<open>Handle\<close>, to a handler that runs it on messages of that type; every other entry is as
  before.\<close>

theorem register_then_lookup:
  assumes "WireNameOf decls (newStruct decls depth n) = Inr w"
  shows "fst (Register decls depth (TStruct n) r) = None \<and>
    reg_message (registryView decls depth (snd (Register decls depth (TStruct n) r))) w = Some (newStruct decls depth n) \<and>
    reg_handler (registryView decls depth (snd (Register decls depth (TStruct n) r))) w =
      (if st_handles (decls n) then Some (HandlerFor w) else map_of (rg_handlers r) w) \<and>
    (st_handles (decls n) \<longrightarrow>
       callHandler decls Handle (HandlerFor w) (Ptr (TStruct n) v) = Handle (Ptr (TStruct n) v)) \<and>
    (\<forall>w'. w' \<noteq> w \<longrightarrow>
       reg_message (registryView decls depth (snd (Register decls depth (TStruct n) r))) w' =
         reg_message (registryView decls depth r) w' \<and>
       reg_handler (registryView decls depth (snd (Register decls depth (TStruct n) r))) w' =
         reg_handler (registryView decls depth r) w')"
proof -
  have "map_of (map (\<lambda>(wire, t). (wire, g t)) (AList.update w (TStruct n) ms)) =
      (map_option g \<circ> map_of ms)(w \<mapsto> g (TStruct n))" for g :: "goType \<Rightarrow> goValue" and ms
    by (rule ext) (simp add: map_of_map update_conv')
  moreover have "map_of (map (\<lambda>(wire, t). (wire, g t)) ms) = map_option g \<circ> map_of ms"
    for g :: "goType \<Rightarrow> goValue" and ms :: "(string \<times> goType) list"
    by (simp add: map_of_map)
  ultimately show ?thesis
    by (simp add: Register_message [OF _ assms] registryView_def reg_message_def reg_handler_def callHandler_def update_conv')
qed

theorem register_then_lookup_witness:
  "reg_message (registryView sampleTypes 1 (snd (Register sampleTypes 1 (TStruct ''Hello'') (newRegistry sampleTypes 1)))) ''am.hello.Hello'' =
     Some (newStruct sampleTypes 1 ''Hello'') \<and>
   reg_handler (registryView sampleTypes 1 (snd (Register sampleTypes 1 (TStruct ''Hello'') (newRegistry sampleTypes 1)))) ''am.hello.Hello'' =
     Some (HandlerFor ''am.hello.Hello'')"
proof -
  have w: "WireNameOf sampleTypes (newStruct sampleTypes 1 ''Hello'') = Inr ''am.hello.Hello''" by code_simp
  have h: "st_handles (sampleTypes ''Hello'')" by (simp add: sampleTypes_def)
  show ?thesis
    using register_then_lookup [OF w, of "newRegistry sampleTypes 1" "\<lambda>_. Inr Invalid" None] h by simp
qed

end
