(* ===== verification/Msgpack_Codec.thy ===== *)
theory Msgpack_Codec
  imports Messages
begin

text \<open>
  \<^verbatim>\<open>src/codec_msgpack.go\<close>: the two codecs. The MessagePack library (\<^verbatim>\<open>vmihailenco/msgpack\<close>) is third-party
  code: its encoder, its decoder and the constants of \<^verbatim>\<open>msgpcode\<close> are the parameter \<open>lib\<close>. An encoder
  call gives the bytes it appends or an error text; a decoder call reads from the rest of the payload
  (the decoder reads a \<^verbatim>\<open>bytes.Reader\<close> directly, so what the reader has left is the rest). The pools of
  encoders and decoders hold reset objects and are not modelled.

  A value that is encoded knows whether it is addressable (\<open>addr\<close>), a destination whether it can be
  set (\<open>canSet\<close>). A destination is the value it holds; decoding returns the value it holds afterwards,
  also after an error. Decoding recurses as deep as the payload is nested; \<open>fuel\<close> is the depth the
  stack allows, and exhausting it is a panic.
\<close>

section \<open>The library\<close>

record msgpack =
  mc_Nil :: byte
  mc_IsFixedArray :: "byte \<Rightarrow> bool"
  mc_FixedArrayMask :: byte
  mc_Array16 :: byte
  mc_Array32 :: byte
  mc_IsFixedString :: "byte \<Rightarrow> bool"
  mc_FixedStrMask :: byte
  mc_Str8 :: byte
  mc_Str16 :: byte
  mc_Str32 :: byte
  mc_Bin8 :: byte
  mc_Bin16 :: byte
  mc_Bin32 :: byte
  mp_EncodeNil :: "string + bytes"
  mp_EncodeArrayLen :: "nat \<Rightarrow> string + bytes"
  mp_EncodeMapLen :: "nat \<Rightarrow> string + bytes"
  mp_EncodeString :: "string \<Rightarrow> string + bytes"
  mp_EncodeBytes :: "bytes \<Rightarrow> string + bytes"
  mp_EncodeValue :: "bool \<Rightarrow> goValue \<Rightarrow> string + bytes"
  mp_Encode :: "goValue \<Rightarrow> string + bytes"
  mp_PeekCode :: "bytes \<Rightarrow> string + byte"
  mp_DecodeNil :: "bytes \<Rightarrow> string + bytes"
  mp_DecodeArrayLen :: "bytes \<Rightarrow> string + (int \<times> bytes)"
  mp_DecodeMapLen :: "bytes \<Rightarrow> string + (int \<times> bytes)"
  mp_DecodeString :: "bytes \<Rightarrow> string + (string \<times> bytes)"
  mp_Skip :: "bytes \<Rightarrow> string + bytes"
  mp_Decode :: "goValue \<Rightarrow> bytes \<Rightarrow> string option \<times> goValue \<times> bytes"

definition codecErr :: "string + 'a \<Rightarrow> 'a result" where
  "codecErr r = (case r of Inl m \<Rightarrow> Inl (ErrCodec m) | Inr x \<Rightarrow> Inr x)"

section \<open>Struct types of the compact codec\<close>

definition marshalerTypes :: "string list" where
  "marshalerTypes =
     [''msgpack.Marshaler'', ''msgpack.Unmarshaler'', ''msgpack.CustomEncoder'', ''msgpack.CustomDecoder'',
      ''encoding.BinaryMarshaler'', ''encoding.BinaryUnmarshaler'', ''encoding.TextMarshaler'',
      ''encoding.TextUnmarshaler'']"

record compactTypeInfo =
  ci_fields :: "nat list"
  ci_err :: "go_error option"
  ci_marshals :: bool
  ci_ptrMarshals :: bool

definition compact :: "compactTypeInfo \<Rightarrow> bool" where
  "compact i \<longleftrightarrow> ci_err i = None \<and> \<not> ci_marshals i"

text \<open>The loop over the fields: their indices up to the first one that is not exported.\<close>

fun exportedFields :: "nat \<Rightarrow> (bool \<times> goType) list \<Rightarrow> nat list result" where
  "exportedFields i [] = Inr []"
| "exportedFields i ((exported, t) # fs) =
     (if \<not> exported then Inl (ErrInvalidMessage ''compact encoding does not support unexported fields'')
      else case exportedFields (Suc i) fs of Inl e \<Rightarrow> Inl e | Inr is \<Rightarrow> Inr (i # is))"

fun compactInfoFor :: "typeTable \<Rightarrow> goType \<Rightarrow> compactTypeInfo" where
  "compactInfoFor decls (TStruct n) =
     (let fs = exportedFields 0 (st_fields (decls n));
          ptr = list_ex (\<lambda>iface. iface \<in> set (st_ptrImplements (decls n))) marshalerTypes;
          val = list_ex (\<lambda>iface. iface \<in> set (st_valueImplements (decls n))) marshalerTypes
      in \<lparr>ci_fields = (case fs of Inl _ \<Rightarrow> [] | Inr is \<Rightarrow> is),
          ci_err = (case fs of Inl e \<Rightarrow> Some e | Inr _ \<Rightarrow> None),
          ci_marshals = (val \<or> ptr), ci_ptrMarshals = ptr\<rparr>)"
| "compactInfoFor decls t =
     \<lparr>ci_fields = [], ci_err = Some (ErrInvalidMessage ''compact encoding requires struct type''),
      ci_marshals = False, ci_ptrMarshals = False\<rparr>"

definition compactFieldIndices :: "typeTable \<Rightarrow> goType \<Rightarrow> nat list result" where
  "compactFieldIndices decls t =
     (case ci_err (compactInfoFor decls t) of Some e \<Rightarrow> Inl e | None \<Rightarrow> Inr (ci_fields (compactInfoFor decls t)))"

section \<open>Compact encoding\<close>

definition isNilValue :: "goValue \<Rightarrow> bool" where
  "isNilValue v \<longleftrightarrow> value_Kind v \<in> {KInterface, KPointer, KSlice, KMap} \<and> is_nil v"

definition isStructKey :: "goType \<Rightarrow> bool" where
  "isStructKey keyType \<longleftrightarrow> (case keyType of TPtr t \<Rightarrow> type_Kind t = KStruct | t \<Rightarrow> type_Kind t = KStruct)"

fun compactKeyComparable :: "typeTable \<Rightarrow> goValue \<Rightarrow> bool" where
  "compactKeyComparable decls (Interface n v) \<longleftrightarrow> (case v of None \<Rightarrow> False | Some x \<Rightarrow> compactKeyComparable decls x)"
| "compactKeyComparable decls (Ptr t v) \<longleftrightarrow> (case v of None \<Rightarrow> False | Some x \<Rightarrow> compactKeyComparable decls x)"
| "compactKeyComparable decls (Array t vs) \<longleftrightarrow> False"
| "compactKeyComparable decls (Struct n vs) \<longleftrightarrow> \<not> compact (compactInfoFor decls (TStruct n))"
| "compactKeyComparable decls v \<longleftrightarrow> True"

text \<open>\<^verbatim>\<open>value.Bytes\<close> of a byte slice.\<close>

definition slice_Bytes :: "goValue list \<Rightarrow> bytes" where
  "slice_Bytes vs = map (\<lambda>v. case v of Basic k (BInt i) \<Rightarrow> word_of_int i | _ \<Rightarrow> 0) vs"

text \<open>What two calls write one after the other, or the first error; and what the rounds of a loop write.\<close>

fun andThen :: "bytes result \<Rightarrow> bytes result \<Rightarrow> bytes result" where
  "andThen (Inl e) r = Inl e"
| "andThen (Inr a) (Inl e) = Inl e"
| "andThen (Inr a) (Inr b) = Inr (a @ b)"

primrec writeAll :: "bytes result list \<Rightarrow> bytes result" where
  "writeAll [] = Inr []"
| "writeAll (r # rs) = andThen r (writeAll rs)"

text \<open>The functions for structs, lists and maps take what the recursive calls on the parts give. A struct that
  is encoded field by field has all its fields exported, so the loop runs over all of them.\<close>

definition encodeCompactStruct ::
    "msgpack \<Rightarrow> typeTable \<Rightarrow> bool \<Rightarrow> string \<Rightarrow> goValue list \<Rightarrow> bytes result list \<Rightarrow> bytes result" where
  "encodeCompactStruct lib decls addr n vs fieldEncs =
     (let info = compactInfoFor decls (TStruct n)
      in if \<not> compact info then
           (if addr \<and> ci_ptrMarshals info
            then codecErr (mp_EncodeValue lib False (Ptr (TStruct n) (Some (Struct n vs))))
            else codecErr (mp_EncodeValue lib addr (Struct n vs)))
         else andThen (codecErr (mp_EncodeArrayLen lib (length (ci_fields info)))) (writeAll fieldEncs))"

definition encodeCompactElements :: "msgpack \<Rightarrow> bytes result list \<Rightarrow> bytes result" where
  "encodeCompactElements lib elemEncs =
     andThen (codecErr (mp_EncodeArrayLen lib (length elemEncs))) (writeAll elemEncs)"

definition encodeCompactEntry ::
    "typeTable \<Rightarrow> goValue \<Rightarrow> bytes result \<Rightarrow> bytes result \<Rightarrow> bytes result" where
  "encodeCompactEntry decls key keyEnc valEnc =
     (if \<not> compactKeyComparable decls key then Inl (ErrInvalidMessage ''compact encoding requires comparable map keys'')
      else andThen keyEnc valEnc)"

definition encodeCompactMap :: "msgpack \<Rightarrow> goType \<Rightarrow> bytes result list \<Rightarrow> bytes result" where
  "encodeCompactMap lib keyType entryEncs =
     (if isStructKey keyType then Inl (ErrInvalidMessage ''compact encoding does not support struct map keys'')
      else andThen (codecErr (mp_EncodeMapLen lib (length entryEncs))) (writeAll entryEncs))"

lemma size_map_entry [termination_simp]:
  "p \<in> set kvs \<Longrightarrow> size (fst p) < Suc (size_list (size_prod size size) kvs)"
  "p \<in> set kvs \<Longrightarrow> size (snd p) < Suc (size_list (size_prod size size) kvs)"
  by (auto simp: less_Suc_eq_le size_prod_simp intro: size_list_estimation')

fun encodeCompactValue :: "msgpack \<Rightarrow> typeTable \<Rightarrow> bool \<Rightarrow> goValue \<Rightarrow> bytes result" where
  "encodeCompactValue lib decls addr Invalid = codecErr (mp_EncodeNil lib)"
| "encodeCompactValue lib decls addr (Interface n None) = codecErr (mp_EncodeNil lib)"
| "encodeCompactValue lib decls addr (Interface n (Some x)) = encodeCompactValue lib decls False x"
| "encodeCompactValue lib decls addr (Ptr t None) = codecErr (mp_EncodeNil lib)"
| "encodeCompactValue lib decls addr (Ptr t (Some x)) =
     (if value_Kind x = KStruct \<and> \<not> compact (compactInfoFor decls (the (value_Type x)))
      then codecErr (mp_EncodeValue lib addr (Ptr t (Some x)))
      else encodeCompactValue lib decls True x)"
| "encodeCompactValue lib decls addr (Struct n vs) =
     encodeCompactStruct lib decls addr n vs (map (encodeCompactValue lib decls addr) vs)"
| "encodeCompactValue lib decls addr (Slice t None) = codecErr (mp_EncodeNil lib)"
| "encodeCompactValue lib decls addr (Slice t (Some vs)) =
     (if type_Kind t = KBasic ''uint8'' then codecErr (mp_EncodeBytes lib (slice_Bytes vs))
      else encodeCompactElements lib (map (encodeCompactValue lib decls True) vs))"
| "encodeCompactValue lib decls addr (Array t vs) =
     encodeCompactElements lib (map (encodeCompactValue lib decls addr) vs)"
| "encodeCompactValue lib decls addr (Map k t None) = codecErr (mp_EncodeNil lib)"
| "encodeCompactValue lib decls addr (Map k t (Some kvs)) =
     encodeCompactMap lib k
       (map (\<lambda>p. encodeCompactEntry decls (fst p) (encodeCompactValue lib decls False (fst p))
                  (encodeCompactValue lib decls False (snd p))) kvs)"
| "encodeCompactValue lib decls addr (Basic k b) = codecErr (mp_EncodeValue lib addr (Basic k b))"

definition encodeCompactFields ::
    "msgpack \<Rightarrow> typeTable \<Rightarrow> string \<Rightarrow> bool \<Rightarrow> goValue list \<Rightarrow> nat list \<Rightarrow> bytes result" where
  "encodeCompactFields lib decls wire addr vs idxs =
     andThen (codecErr (mp_EncodeArrayLen lib (1 + length idxs)))
       (andThen (codecErr (mp_EncodeString lib wire))
         (writeAll (map (\<lambda>idx. encodeCompactValue lib decls addr (vs ! idx)) idxs)))"

definition encodeCompact :: "msgpack \<Rightarrow> typeTable \<Rightarrow> goValue \<Rightarrow> bytes result" where
  "encodeCompact lib decls msg =
     (if msg = Invalid then Inl (ErrCodec ''compact encode requires non-nil message'')
      else case WireNameOf decls msg of
        Inl e \<Rightarrow> Inl e
      | Inr wire \<Rightarrow>
          (case msg of
             Ptr t None \<Rightarrow> Inl (ErrCodec ''compact encode requires non-nil message'')
           | _ \<Rightarrow>
               (case (case msg of Ptr t (Some x) \<Rightarrow> (True, x) | x \<Rightarrow> (False, x)) of
                  (addr, Struct n vs) \<Rightarrow>
                    (case compactFieldIndices decls (TStruct n) of
                       Inl e \<Rightarrow> Inl e
                     | Inr indices \<Rightarrow> encodeCompactFields lib decls wire addr vs indices)
                | _ \<Rightarrow> Inl (ErrCodec ''compact encode requires struct message''))))"

section \<open>Reading the envelope of a compact payload\<close>

definition readArrayHeader :: "msgpack \<Rightarrow> bytes \<Rightarrow> (int \<times> bytes) option" where
  "readArrayHeader lib b =
     (case b of
        [] \<Rightarrow> None
      | c # _ \<Rightarrow>
          if mc_IsFixedArray lib c then Some (int (unat (c AND mc_FixedArrayMask lib)), drop 1 b)
          else if c = mc_Array16 lib \<and> 3 \<le> length b then Some (int (unat (Uint16 (go_slice 1 3 b))), drop 3 b)
          else if c = mc_Array32 lib \<and> 5 \<le> length b then Some (int (unat (Uint32 (go_slice 1 5 b))), drop 5 b)
          else None)"

definition readStringValue :: "msgpack \<Rightarrow> bytes \<Rightarrow> (string \<times> bytes) option" where
  "readStringValue lib b =
     (case b of
        [] \<Rightarrow> None
      | c # _ \<Rightarrow>
          (case (if mc_IsFixedString lib c then Some (unat (c AND mc_FixedStrMask lib), 1)
                 else if (c = mc_Str8 lib \<or> c = mc_Bin8 lib) \<and> 2 \<le> length b then Some (unat (b ! 1), 2)
                 else if (c = mc_Str16 lib \<or> c = mc_Bin16 lib) \<and> 3 \<le> length b
                   then Some (unat (Uint16 (go_slice 1 3 b)), 3)
                 else if (c = mc_Str32 lib \<or> c = mc_Bin32 lib) \<and> 5 \<le> length b
                   then Some (unat (Uint32 (go_slice 1 5 b)), 5)
                 else None) of
             None \<Rightarrow> None
           | Some (n, header) \<Rightarrow>
               if length b - header < n then None
               else Some (string_of_bytes (go_slice header (header + n) b), drop (header + n) b)))"

text \<open>The bodies of the two codecs; \<open>OtherBody\<close> is a value of any other type.\<close>

datatype codecBody = RawMessage bytes | CompactBody (cb_fields: bytes) (cb_count: int) | OtherBody

definition decodeCompactEnvelope :: "msgpack \<Rightarrow> bytes \<Rightarrow> (string \<times> codecBody) result" where
  "decodeCompactEnvelope lib payload =
     (case readArrayHeader lib payload of
        None \<Rightarrow> Inl (ErrCodec ''compact payload must be a non-empty array'')
      | Some (n, rest) \<Rightarrow>
          if n = 0 then Inl (ErrCodec ''compact payload must be a non-empty array'')
          else case readStringValue lib rest of
            None \<Rightarrow> Inl (ErrCodec ''compact message name must be a string'')
          | Some (name, rest') \<Rightarrow> Inr (name, CompactBody rest' (n - 1)))"

section \<open>Compact decoding\<close>

type_synonym decoded = "go_error option \<times> goValue \<times> bytes"

text \<open>A call \<^verbatim>\<open>codecErr(dec.Decode(...))\<close> with a pointer to the destination.\<close>

definition libDecode :: "msgpack \<Rightarrow> goValue \<Rightarrow> bytes \<Rightarrow> decoded" where
  "libDecode lib dst rest =
     (case mp_Decode lib dst rest of
        (Some m, dst', rest') \<Rightarrow> (Some (ErrCodec m), dst', rest')
      | (None, dst', rest') \<Rightarrow> (None, dst', rest'))"

text \<open>The loop that decodes into fields or elements, with \<open>dec\<close> for the recursive call.\<close>

fun decodeEach :: "(goValue \<Rightarrow> bytes \<Rightarrow> decoded) \<Rightarrow> goValue list \<Rightarrow> bytes \<Rightarrow> go_error option \<times> goValue list \<times> bytes" where
  "decodeEach dec [] rest = (None, [], rest)"
| "decodeEach dec (dst # dsts) rest =
     (case dec dst rest of
        (Some e, dst', rest') \<Rightarrow> (Some e, dst' # dsts, rest')
      | (None, dst', rest') \<Rightarrow>
          (case decodeEach dec dsts rest' of (err, dsts', rest'') \<Rightarrow> (err, dst' # dsts', rest'')))"

definition decodeCompactStruct ::
    "(goValue \<Rightarrow> bytes \<Rightarrow> decoded) \<Rightarrow> msgpack \<Rightarrow> typeTable \<Rightarrow> string \<Rightarrow> goValue list \<Rightarrow> bytes \<Rightarrow> decoded" where
  "decodeCompactStruct dec lib decls sname vs rest =
     (let dst = Struct sname vs; info = compactInfoFor decls (TStruct sname)
      in if \<not> compact info then libDecode lib dst rest
         else case mp_DecodeArrayLen lib rest of
           Inl m \<Rightarrow> (Some (ErrCodec m), dst, rest)
         | Inr (n, rest') \<Rightarrow>
             if max n 0 \<noteq> int (length (ci_fields info))
             then (Some (ErrCompactFieldCount (int (length (ci_fields info))) (max n 0)), dst, rest')
             else case decodeEach dec vs rest' of (err, vs', rest'') \<Rightarrow> (err, Struct sname vs', rest''))"

definition decodeCompactSlice ::
    "(goValue \<Rightarrow> bytes \<Rightarrow> decoded) \<Rightarrow> msgpack \<Rightarrow> typeTable \<Rightarrow> nat \<Rightarrow> goType \<Rightarrow> goValue list option \<Rightarrow> bytes \<Rightarrow> decoded" where
  "decodeCompactSlice dec lib decls depth elem old rest =
     (let dst = Slice elem old
      in if type_Kind elem = KBasic ''uint8'' then
           (case libDecode lib (Slice elem None) rest of
              (Some e, data, rest') \<Rightarrow> (Some e, dst, rest')
            | (None, data, rest') \<Rightarrow> (None, data, rest'))
         else case mp_DecodeArrayLen lib rest of
           Inl m \<Rightarrow> (Some (ErrCodec m), dst, rest)
         | Inr (n, rest') \<Rightarrow>
             (case decodeEach dec (replicate (nat (max n 0)) (zeroValue decls depth elem)) rest' of
                (Some e, vs, rest'') \<Rightarrow> (Some e, dst, rest'')
              | (None, vs, rest'') \<Rightarrow> (None, Slice elem (Some vs), rest'')))"

definition decodeCompactArray ::
    "(goValue \<Rightarrow> bytes \<Rightarrow> decoded) \<Rightarrow> msgpack \<Rightarrow> goType \<Rightarrow> goValue list \<Rightarrow> bytes \<Rightarrow> decoded" where
  "decodeCompactArray dec lib elem vs rest =
     (case mp_DecodeArrayLen lib rest of
        Inl m \<Rightarrow> (Some (ErrCodec m), Array elem vs, rest)
      | Inr (n, rest') \<Rightarrow>
          if n \<noteq> int (length vs) then (Some (ErrCompactFieldCount (int (length vs)) (max n 0)), Array elem vs, rest')
          else case decodeEach dec vs rest' of (err, vs', rest'') \<Rightarrow> (err, Array elem vs', rest''))"

text \<open>\<^verbatim>\<open>reflect.Type.Comparable\<close> of the dynamic type of a key, with the nesting of struct types bounded as for
  zero values.\<close>

fun type_Comparable :: "typeTable \<Rightarrow> nat \<Rightarrow> goType \<Rightarrow> bool" where
  "type_Comparable decls depth (TSlice t) \<longleftrightarrow> False"
| "type_Comparable decls depth (TMap k t) \<longleftrightarrow> False"
| "type_Comparable decls depth (TArray n t) \<longleftrightarrow> type_Comparable decls depth t"
| "type_Comparable decls 0 (TStruct n) \<longleftrightarrow> False"
| "type_Comparable decls (Suc depth) (TStruct n) \<longleftrightarrow>
     list_all (\<lambda>f. type_Comparable decls depth (snd f)) (st_fields (decls n))"
| "type_Comparable decls depth t \<longleftrightarrow> True"

definition isComparableKey :: "typeTable \<Rightarrow> nat \<Rightarrow> goValue option \<Rightarrow> bool" where
  "isComparableKey decls depth key =
     (case key of
        None \<Rightarrow> False
      | Some v \<Rightarrow> (case value_Type v of None \<Rightarrow> False | Some t \<Rightarrow> type_Comparable decls depth t))"

text \<open>\<^verbatim>\<open>SetMapIndex\<close>: hashing a key with a slice or a map in an interface panics; a key with a pointer, which is
  new, or with a NaN equals no other key.\<close>

definition is_NaN :: "bytes \<Rightarrow> bool" where
  "is_NaN bs \<longleftrightarrow>
     (length bs = 8 \<and> be_val bs mod 2 ^ 63 > 2047 * 2 ^ 52) \<or> (length bs = 4 \<and> be_val bs mod 2 ^ 31 > 255 * 2 ^ 23)"

fun unhashable :: "goValue \<Rightarrow> bool" where
  "unhashable (Slice t vs) \<longleftrightarrow> True"
| "unhashable (Map k t kvs) \<longleftrightarrow> True"
| "unhashable (Struct n vs) \<longleftrightarrow> list_ex unhashable vs"
| "unhashable (Array t vs) \<longleftrightarrow> list_ex unhashable vs"
| "unhashable (Interface n (Some v)) \<longleftrightarrow> unhashable v"
| "unhashable v \<longleftrightarrow> False"

fun equals_none :: "goValue \<Rightarrow> bool" where
  "equals_none (Ptr t (Some v)) \<longleftrightarrow> True"
| "equals_none (Basic k (BFloat bs)) \<longleftrightarrow> is_NaN bs"
| "equals_none (Struct n vs) \<longleftrightarrow> list_ex equals_none vs"
| "equals_none (Array t vs) \<longleftrightarrow> list_ex equals_none vs"
| "equals_none (Interface n (Some v)) \<longleftrightarrow> equals_none v"
| "equals_none v \<longleftrightarrow> False"

definition SetMapIndex ::
    "goValue \<Rightarrow> goValue \<Rightarrow> (goValue \<times> goValue) list \<Rightarrow> (goValue \<times> goValue) list result" where
  "SetMapIndex key val kvs =
     (if unhashable key then Inl (ErrPanic ''runtime error: hash of unhashable type'')
      else if equals_none key then Inr (kvs @ [(key, val)])
      else Inr (AList.update key val kvs))"

text \<open>The loop over the entries of a map, with the entries so far.\<close>

fun decodeEntries ::
    "(goValue \<Rightarrow> bytes \<Rightarrow> decoded) \<Rightarrow> msgpack \<Rightarrow> typeTable \<Rightarrow> nat \<Rightarrow> goType \<Rightarrow> goType \<Rightarrow> nat \<Rightarrow>
     (goValue \<times> goValue) list \<Rightarrow> bytes \<Rightarrow> (go_error + (goValue \<times> goValue) list) \<times> bytes" where
  "decodeEntries dec lib decls depth keyType elem 0 result rest = (Inr result, rest)"
| "decodeEntries dec lib decls depth keyType elem (Suc n) result rest =
     (case libDecode lib (zeroValue decls depth keyType) rest of
        (Some e, key, rest') \<Rightarrow> (Inl e, rest')
      | (None, key, rest') \<Rightarrow>
          if type_Kind keyType = KInterface \<and>
             \<not> isComparableKey decls depth (case key of Interface _ v \<Rightarrow> v | _ \<Rightarrow> None)
          then (Inl (ErrInvalidMessage ''compact decode requires comparable map keys''), rest')
          else case dec (zeroValue decls depth elem) rest' of
            (Some e, val, rest'') \<Rightarrow> (Inl e, rest'')
          | (None, val, rest'') \<Rightarrow>
              (case SetMapIndex key val result of
                 Inl e \<Rightarrow> (Inl e, rest'')
               | Inr result' \<Rightarrow> decodeEntries dec lib decls depth keyType elem n result' rest''))"

definition decodeCompactMap ::
    "(goValue \<Rightarrow> bytes \<Rightarrow> decoded) \<Rightarrow> msgpack \<Rightarrow> typeTable \<Rightarrow> nat \<Rightarrow> goType \<Rightarrow> goType \<Rightarrow>
     (goValue \<times> goValue) list option \<Rightarrow> bytes \<Rightarrow> decoded" where
  "decodeCompactMap dec lib decls depth keyType elem old rest =
     (let dst = Map keyType elem old
      in if isStructKey keyType then (Some (ErrInvalidMessage ''compact decode does not support struct map keys''), dst, rest)
         else case mp_DecodeMapLen lib rest of
           Inl m \<Rightarrow> (Some (ErrCodec m), dst, rest)
         | Inr (n, rest') \<Rightarrow>
             if n = -1 then (None, Map keyType elem None, rest')
             else case decodeEntries dec lib decls depth keyType elem (nat n) [] rest' of
               (Inl e, rest'') \<Rightarrow> (Some e, dst, rest'')
             | (Inr kvs, rest'') \<Rightarrow> (None, Map keyType elem (Some kvs), rest''))"

text \<open>\<^verbatim>\<open>dst.Set\<close> on an interface: it panics on the zero \<^verbatim>\<open>reflect.Value\<close> and on a value that does not implement
  the interface. Types that are not declared have no methods.\<close>

definition emptyInterface :: string where
  "emptyInterface = ''interface {}''"

fun implements :: "typeTable \<Rightarrow> goValue \<Rightarrow> string \<Rightarrow> bool" where
  "implements decls (Struct n vs) iface \<longleftrightarrow> iface = emptyInterface \<or> iface \<in> set (st_valueImplements (decls n))"
| "implements decls (Ptr (TStruct n) v) iface \<longleftrightarrow> iface = emptyInterface \<or> iface \<in> set (st_ptrImplements (decls n))"
| "implements decls v iface \<longleftrightarrow> iface = emptyInterface"

definition setInterface :: "typeTable \<Rightarrow> string \<Rightarrow> goValue \<Rightarrow> goValue option" where
  "setInterface decls iface out =
     (case out of
        Interface _ (Some v) \<Rightarrow> if implements decls v iface then Some (Interface iface (Some v)) else None
      | _ \<Rightarrow> None)"

fun decodeCompactValue ::
    "msgpack \<Rightarrow> typeTable \<Rightarrow> nat \<Rightarrow> nat \<Rightarrow> bool \<Rightarrow> goValue \<Rightarrow> bytes \<Rightarrow> decoded" where
  "decodeCompactValue lib decls depth 0 canSet dst rest = (Some (ErrPanic ''stack overflow''), dst, rest)"
| "decodeCompactValue lib decls depth (Suc fuel) canSet dst rest =
     (let dec = decodeCompactValue lib decls depth fuel True
      in if \<not> canSet \<or> dst = Invalid
         then (Some (ErrInvalidMessage ''compact decode requires settable destination''), dst, rest)
         else case mp_PeekCode lib rest of
           Inl m \<Rightarrow> (Some (ErrCodec m), dst, rest)
         | Inr code \<Rightarrow>
             if code = mc_Nil lib \<and> value_Kind dst \<in> {KInterface, KPointer, KSlice, KMap} then
               (let nilDst = zeroValue decls depth (the (value_Type dst))
                in case mp_DecodeNil lib rest of
                     Inl m \<Rightarrow> (Some (ErrCodec m), nilDst, rest)
                   | Inr rest' \<Rightarrow> (None, nilDst, rest'))
             else if code = mc_Nil lib \<and> value_Kind dst = KArray
             then (Some (ErrCodec ''compact decode cannot assign nil to array''), dst, rest)
             else if code = mc_Nil lib \<and> value_Kind dst \<noteq> KStruct
             then (Some (ErrCodec ''compact decode cannot assign nil to value''), dst, rest)
             else case dst of
               Interface iface old \<Rightarrow>
                 (case libDecode lib (Interface emptyInterface None) rest of
                    (Some e, out, rest') \<Rightarrow> (Some e, dst, rest')
                  | (None, out, rest') \<Rightarrow>
                      (case setInterface decls iface out of
                         None \<Rightarrow> (Some (ErrPanic ''reflect.Set: value is not assignable''), dst, rest')
                       | Some dst' \<Rightarrow> (None, dst', rest')))
             | Ptr t old \<Rightarrow>
                 (case dec (zeroValue decls depth t) rest of
                    (Some e, elem, rest') \<Rightarrow> (Some e, dst, rest')
                  | (None, elem, rest') \<Rightarrow> (None, Ptr t (Some elem), rest'))
             | Struct sname vs \<Rightarrow> decodeCompactStruct dec lib decls sname vs rest
             | Slice elem old \<Rightarrow> decodeCompactSlice dec lib decls depth elem old rest
             | Array elem vs \<Rightarrow> decodeCompactArray dec lib elem vs rest
             | Map k elem old \<Rightarrow> decodeCompactMap dec lib decls depth k elem old rest
             | _ \<Rightarrow> libDecode lib dst rest)"

text \<open>The destination is a message; the fields that are decoded are all fields of its struct.\<close>

definition decodeCompactInto ::
    "msgpack \<Rightarrow> typeTable \<Rightarrow> nat \<Rightarrow> nat \<Rightarrow> bytes \<Rightarrow> int \<Rightarrow> goValue \<Rightarrow> go_error option \<times> goValue" where
  "decodeCompactInto lib decls depth fuel bodyFields count dst =
     (case dst of
        Invalid \<Rightarrow> (Some (ErrInvalidMessage ''compact decode requires non-nil destination''), dst)
      | Ptr t (Some (Struct sname vs)) \<Rightarrow>
          (case compactFieldIndices decls (TStruct sname) of
             Inl e \<Rightarrow> (Some e, dst)
           | Inr idxs \<Rightarrow>
               if count \<noteq> int (length idxs) then (Some (ErrCompactFieldCount (int (length idxs)) count), dst)
               else case decodeEach (decodeCompactValue lib decls depth fuel True) vs bodyFields of
                 (err, vs', rest) \<Rightarrow> (err, Ptr t (Some (Struct sname vs'))))
      | Ptr t (Some v) \<Rightarrow> (Some (ErrInvalidMessage ''compact decode requires struct destination''), dst)
      | _ \<Rightarrow> (Some (ErrInvalidMessage ''compact decode requires pointer destination''), dst))"

section \<open>The map codec\<close>

definition mapEnvelope :: "string \<Rightarrow> goValue \<Rightarrow> goValue" where
  "mapEnvelope wire msg =
     Struct ''mapEnvelope'' [Basic ''string'' (BString wire), Interface emptyInterface (Some msg)]"

definition encodeMap :: "msgpack \<Rightarrow> typeTable \<Rightarrow> goValue \<Rightarrow> bytes result" where
  "encodeMap lib decls msg =
     (case WireNameOf decls msg of
        Inl e \<Rightarrow> Inl e
      | Inr wire \<Rightarrow> codecErr (mp_Encode lib (Ptr (TStruct ''mapEnvelope'') (Some (mapEnvelope wire msg)))))"

text \<open>The loop of \<^verbatim>\<open>decodeMapEnvelope\<close>, with the wire name and the data read so far.\<close>

fun decodeMapLoop ::
    "msgpack \<Rightarrow> bytes \<Rightarrow> nat \<Rightarrow> string \<Rightarrow> bytes \<Rightarrow> bytes \<Rightarrow> (string \<times> bytes) result" where
  "decodeMapLoop lib payload 0 wire data rest = Inr (wire, data)"
| "decodeMapLoop lib payload (Suc n) wire data rest =
     (case mp_DecodeString lib rest of
        Inl m \<Rightarrow> Inl (ErrCodec m)
      | Inr (key, rest1) \<Rightarrow>
          if key = ''type'' then
            (case mp_DecodeString lib rest1 of
               Inl m \<Rightarrow> Inl (ErrCodec m)
             | Inr (wire', rest2) \<Rightarrow> decodeMapLoop lib payload n wire' data rest2)
          else
            case mp_Skip lib rest1 of
               Inl m \<Rightarrow> Inl (ErrCodec m)
             | Inr rest2 \<Rightarrow>
                 decodeMapLoop lib payload n wire
                   (if key = ''data'' then go_slice (length payload - length rest1) (length payload - length rest2) payload
                    else data)
                   rest2)"

definition decodeMapEnvelope :: "msgpack \<Rightarrow> bytes \<Rightarrow> (string \<times> codecBody) result" where
  "decodeMapEnvelope lib payload =
     (case mp_DecodeMapLen lib payload of
        Inl m \<Rightarrow> Inl (ErrCodec m)
      | Inr (n, rest) \<Rightarrow>
          (case decodeMapLoop lib payload (nat (max n 0)) '''' [] rest of
             Inl e \<Rightarrow> Inl e
           | Inr (wire, data) \<Rightarrow>
               if wire = '''' then Inl (ErrCodec ''map payload missing type'') else Inr (wire, RawMessage data)))"

section \<open>The codecs\<close>

definition CodecMsgpackCompact :: CodecID where
  "CodecMsgpackCompact = 1"

definition CodecMsgpackMap :: CodecID where
  "CodecMsgpackMap = 2"

definition msgpackCompactCodec ::
    "msgpack \<Rightarrow> typeTable \<Rightarrow> nat \<Rightarrow> nat \<Rightarrow> (goValue, codecBody) CodecImpl" where
  "msgpackCompactCodec lib decls depth fuel =
     \<lparr>codec_ID = CodecMsgpackCompact, codec_Name = ''compact'',
      codec_Encode = encodeCompact lib decls,
      codec_DecodeEnvelope = decodeCompactEnvelope lib,
      codec_DecodeInto = (\<lambda>body dst.
        case body of
          CompactBody flds count \<Rightarrow>
            (case decodeCompactInto lib decls depth fuel flds count dst of
               (Some e, _) \<Rightarrow> Inl e | (None, dst') \<Rightarrow> Inr dst')
        | _ \<Rightarrow> Inl (ErrCodec ''compact body must be the fields of a compact payload''))\<rparr>"

definition msgpackMapCodec :: "msgpack \<Rightarrow> typeTable \<Rightarrow> (goValue, codecBody) CodecImpl" where
  "msgpackMapCodec lib decls =
     \<lparr>codec_ID = CodecMsgpackMap, codec_Name = ''map'',
      codec_Encode = encodeMap lib decls,
      codec_DecodeEnvelope = decodeMapEnvelope lib,
      codec_DecodeInto = (\<lambda>body dst.
        case body of
          RawMessage raw \<Rightarrow>
            (case libDecode lib dst raw of (Some e, _, _) \<Rightarrow> Inl e | (None, dst', _) \<Rightarrow> Inr dst')
        | _ \<Rightarrow> Inl (ErrCodec ''map body must be msgpack raw message''))\<rparr>"

end
