(* ===== verification/Msgpack_Format.thy ===== *)
theory Msgpack_Format
  imports Msgpack_Codec
begin

text \<open>
  What the codecs rely on of the MessagePack library, as the format and the documentation of the library
  state it: the locale \<open>msgpack_format\<close>. Inside it, the headers that \<^verbatim>\<open>readArrayHeader\<close> and
  \<^verbatim>\<open>readStringValue\<close> read by hand are exactly those of the format, and a value that is encoded is
  decoded to itself.
\<close>

section \<open>The format\<close>

definition arrayHeader :: "nat \<Rightarrow> bytes" where
  "arrayHeader n =
     (if n < 16 then [word_of_nat (144 + n)]
      else if n < 65536 then 220 # PutUint16 (word_of_nat n)
      else 221 # PutUint32 (word_of_nat n))"

definition mapHeader :: "nat \<Rightarrow> bytes" where
  "mapHeader n =
     (if n < 16 then [word_of_nat (128 + n)]
      else if n < 65536 then 222 # PutUint16 (word_of_nat n)
      else 223 # PutUint32 (word_of_nat n))"

definition strHeader :: "nat \<Rightarrow> bytes" where
  "strHeader n =
     (if n < 32 then [word_of_nat (160 + n)]
      else if n < 256 then [217, word_of_nat n]
      else if n < 65536 then 218 # PutUint16 (word_of_nat n)
      else 219 # PutUint32 (word_of_nat n))"

definition binHeader :: "nat \<Rightarrow> bytes" where
  "binHeader n =
     (if n < 256 then [196, word_of_nat n]
      else if n < 65536 then 197 # PutUint16 (word_of_nat n)
      else 198 # PutUint32 (word_of_nat n))"

text \<open>Every header the format allows for an array of \<open>n\<close> elements and for a string or a byte string of \<open>n\<close>
  bytes; the shortest one is not required.\<close>

definition array_header :: "nat \<Rightarrow> bytes \<Rightarrow> bool" where
  "array_header n h \<longleftrightarrow>
     (n < 16 \<and> h = [word_of_nat (144 + n)]) \<or>
     (n < 65536 \<and> h = 220 # PutUint16 (word_of_nat n)) \<or>
     (n < 4294967296 \<and> h = 221 # PutUint32 (word_of_nat n))"

definition string_header :: "nat \<Rightarrow> bytes \<Rightarrow> bool" where
  "string_header n h \<longleftrightarrow>
     (n < 32 \<and> h = [word_of_nat (160 + n)]) \<or>
     (n < 256 \<and> (h = [217, word_of_nat n] \<or> h = [196, word_of_nat n])) \<or>
     (n < 65536 \<and> (h = 218 # PutUint16 (word_of_nat n) \<or> h = 197 # PutUint16 (word_of_nat n))) \<or>
     (n < 4294967296 \<and> (h = 219 # PutUint32 (word_of_nat n) \<or> h = 198 # PutUint32 (word_of_nat n)))"

text \<open>Short headers hold their length in the code itself.\<close>

lemma fixed_array_code:
  "n < 16 \<Longrightarrow> (144::byte) \<le> word_of_nat (144 + n) \<and> word_of_nat (144 + n) \<le> (159::byte) \<and>
     unat (word_of_nat (144 + n) AND (15::byte)) = n"
proof -
  have "\<forall>n\<in>set [0..<16]. (144::byte) \<le> word_of_nat (144 + n) \<and> word_of_nat (144 + n) \<le> (159::byte) \<and>
     unat (word_of_nat (144 + n) AND (15::byte)) = n"
    by code_simp
  then show "n < 16 \<Longrightarrow> ?thesis" by auto
qed

lemma fixed_string_code:
  "n < 32 \<Longrightarrow> (160::byte) \<le> word_of_nat (160 + n) \<and> word_of_nat (160 + n) \<le> (191::byte) \<and>
     unat (word_of_nat (160 + n) AND (31::byte)) = n"
proof -
  have "\<forall>n\<in>set [0..<32]. (160::byte) \<le> word_of_nat (160 + n) \<and> word_of_nat (160 + n) \<le> (191::byte) \<and>
     unat (word_of_nat (160 + n) AND (31::byte)) = n"
    by code_simp
  then show "n < 32 \<Longrightarrow> ?thesis" by auto
qed

text \<open>Conversely a code in the range of the short headers is the header of the length in its mask.\<close>

lemma fixed_array_decode:
  "(144::byte) \<le> c \<Longrightarrow> c \<le> 159 \<Longrightarrow> unat (c AND 15) < 16 \<and> c = word_of_nat (144 + unat (c AND 15))"
proof -
  have all: "\<forall>m\<in>set [144..<160]. unat (word_of_nat m AND (15::byte)) < 16 \<and>
      (word_of_nat m :: byte) = word_of_nat (144 + unat (word_of_nat m AND (15::byte)))"
    by code_simp
  assume "(144::byte) \<le> c" "c \<le> 159"
  then have "144 \<le> unat c \<and> unat c < 160" by (simp add: word_le_nat_alt)
  then have "unat c \<in> set [144..<160]" by (simp only: set_upt atLeastLessThan_iff)
  from bspec [OF all this] show ?thesis by simp
qed

lemma fixed_string_decode:
  "(160::byte) \<le> c \<Longrightarrow> c \<le> 191 \<Longrightarrow> unat (c AND 31) < 32 \<and> c = word_of_nat (160 + unat (c AND 31))"
proof -
  have all: "\<forall>m\<in>set [160..<192]. unat (word_of_nat m AND (31::byte)) < 32 \<and>
      (word_of_nat m :: byte) = word_of_nat (160 + unat (word_of_nat m AND (31::byte)))"
    by code_simp
  assume "(160::byte) \<le> c" "c \<le> 191"
  then have "160 \<le> unat c \<and> unat c < 192" by (simp add: word_le_nat_alt)
  then have "unat c \<in> set [160..<192]" by (simp only: set_upt atLeastLessThan_iff)
  from bspec [OF all this] show ?thesis by simp
qed

lemma unat_word_of_nat_small:
  "n < 256 \<Longrightarrow> unat (word_of_nat n :: byte) = n"
  "n < 65536 \<Longrightarrow> unat (word_of_nat n :: u16) = n"
  "n < 4294967296 \<Longrightarrow> unat (word_of_nat n :: u32) = n"
  "m < 256 \<Longrightarrow> uint (word_of_nat m :: byte) = int m"
  "m < 65536 \<Longrightarrow> uint (word_of_nat m :: u16) = int m"
  "m < 4294967296 \<Longrightarrow> uint (word_of_nat m :: u32) = int m"
  by (simp_all add: unat_of_nat uint_nat)

lemma arrayHeader_ok: "n < 4294967296 \<Longrightarrow> array_header n (arrayHeader n)"
  by (simp add: array_header_def arrayHeader_def)

lemma strHeader_ok: "n < 4294967296 \<Longrightarrow> string_header n (strHeader n)"
  by (simp add: string_header_def strHeader_def)

lemma Put_Uint16: "length bs = 2 \<Longrightarrow> PutUint16 (Uint16 bs) = bs"
  using be_bytes_be_val [of bs] be_val_bound [of bs] by (simp add: PutUint16_def Uint16_def unat_of_nat)

lemma header_slices [simp]:
  "go_slice (Suc 0) 3 (c # bs) = take 2 bs" "drop 3 (c # bs) = drop 2 bs"
  "go_slice (Suc 0) 5 (c # bs) = take 4 bs" "drop 5 (c # bs) = drop 4 bs"
  by (simp_all add: go_slice_def drop_Cons')

text \<open>The length of a string or byte string from its code and what follows it.\<close>

definition stringLen :: "byte \<Rightarrow> bytes \<Rightarrow> (nat \<times> bytes) option" where
  "stringLen c bs =
     (if 160 \<le> c \<and> c \<le> 191 then Some (unat (c AND 31), bs)
      else if (c = 217 \<or> c = 196) \<and> 1 \<le> length bs then Some (unat (bs ! 0), drop 1 bs)
      else if (c = 218 \<or> c = 197) \<and> 2 \<le> length bs then Some (unat (Uint16 (take 2 bs)), drop 2 bs)
      else if (c = 219 \<or> c = 198) \<and> 4 \<le> length bs then Some (unat (Uint32 (take 4 bs)), drop 4 bs)
      else None)"

lemma stringLen_header:
  assumes "string_header n h"
  shows "\<exists>c h'. h = c # h' \<and> stringLen c (h' @ rest) = Some (n, rest)"
proof -
  consider "n < 32" "h = [word_of_nat (160 + n)]"
    | "n < 256" "h = [217, word_of_nat n]" | "n < 256" "h = [196, word_of_nat n]"
    | "n < 65536" "h = 218 # PutUint16 (word_of_nat n)" | "n < 65536" "h = 197 # PutUint16 (word_of_nat n)"
    | "n < 4294967296" "h = 219 # PutUint32 (word_of_nat n)" | "n < 4294967296" "h = 198 # PutUint32 (word_of_nat n)"
    using assms unfolding string_header_def by blast
  then show ?thesis
  proof cases
    case 1
    then show ?thesis
      using fixed_string_code [of n] by (simp add: stringLen_def del: of_nat_add)
  qed (simp_all add: stringLen_def unat_word_of_nat_small)
qed

lemma stringLen_only:
  assumes "stringLen c bs = Some (n, rest)"
  shows "\<exists>h. string_header n (c # h) \<and> bs = h @ rest"
proof -
  have one: "bs = [bs ! 0] @ drop 1 bs" if "1 \<le> length bs" using that by (cases bs) simp_all
  define A B C where "A \<longleftrightarrow> 160 \<le> c \<and> c \<le> 191" and "B \<longleftrightarrow> (c = 217 \<or> c = 196) \<and> 1 \<le> length bs"
    and "C \<longleftrightarrow> (c = 218 \<or> c = 197) \<and> 2 \<le> length bs"
  note r = assms [unfolded stringLen_def, folded A_def B_def C_def]
  consider A | "\<not> A" B | "\<not> A" "\<not> B" C | "\<not> A" "\<not> B" "\<not> C" by blast
  then show ?thesis
  proof cases
    case 1
    then have "160 \<le> c \<and> c \<le> 191" "n = unat (c AND 31)" "rest = bs" using r by (simp_all add: A_def)
    then have "string_header n [c] \<and> bs = [] @ rest"
      using fixed_string_decode [of c] by (simp add: string_header_def del: of_nat_add)
    then show ?thesis by blast
  next
    case 2
    then have "c = 217 \<or> c = 196" "1 \<le> length bs" "n = unat (bs ! 0)" "rest = drop 1 bs"
      using r by (simp_all add: B_def)
    then have "string_header n (c # [bs ! 0]) \<and> bs = [bs ! 0] @ rest"
      using one unat_byte_less [of "bs ! 0"] by (auto simp: string_header_def)
    then show ?thesis by blast
  next
    case 3
    then have "c = 218 \<or> c = 197" "2 \<le> length bs" "n = unat (Uint16 (take 2 bs))" "rest = drop 2 bs"
      using r by (simp_all add: C_def)
    then have "string_header n (c # take 2 bs) \<and> bs = take 2 bs @ rest"
      using Put_Uint16 [of "take 2 bs"] unat_u16_less [of "Uint16 (take 2 bs)"] by (auto simp: string_header_def)
    then show ?thesis by blast
  next
    case 4
    then have "c = 219 \<or> c = 198" "4 \<le> length bs" "n = unat (Uint32 (take 4 bs))" "rest = drop 4 bs"
      using r by (simp_all split: if_split_asm)
    then have "string_header n (c # take 4 bs) \<and> bs = take 4 bs @ rest"
      using Put_Uint32 [of "take 4 bs"] unat_u32_less [of "Uint32 (take 4 bs)"] by (auto simp: string_header_def)
    then show ?thesis by blast
  qed
qed

section \<open>The library\<close>

locale msgpack_format =
  fixes lib :: msgpack
  assumes codes:
      "mc_Nil lib = 192" "mc_IsFixedArray lib c \<longleftrightarrow> 144 \<le> c \<and> c \<le> 159" "mc_FixedArrayMask lib = 15"
      "mc_Array16 lib = 220" "mc_Array32 lib = 221"
      "mc_IsFixedString lib c \<longleftrightarrow> 160 \<le> c \<and> c \<le> 191" "mc_FixedStrMask lib = 31"
      "mc_Str8 lib = 217" "mc_Str16 lib = 218" "mc_Str32 lib = 219"
      "mc_Bin8 lib = 196" "mc_Bin16 lib = 197" "mc_Bin32 lib = 198"
    and encode_nil: "mp_EncodeNil lib = Inr [192]"
    and encode_array_len: "n < 4294967296 \<Longrightarrow> mp_EncodeArrayLen lib n = Inr (arrayHeader n)"
    and encode_map_len: "n < 4294967296 \<Longrightarrow> mp_EncodeMapLen lib n = Inr (mapHeader n)"
    and encode_string: "length s < 4294967296 \<Longrightarrow>
      mp_EncodeString lib s = Inr (strHeader (length s) @ bytes_of_string s)"
    and encode_bytes: "length bs < 4294967296 \<Longrightarrow> mp_EncodeBytes lib bs = Inr (binHeader (length bs) @ bs)"
    and encode_basic: "basic_ok k b \<Longrightarrow>
      \<exists>c bs. mp_EncodeValue lib addr (Basic k b) = Inr (c # bs) \<and> c \<noteq> 192 \<and>
        (\<forall>d rest. mp_Decode lib (Basic k d) (c # bs @ rest) = (None, Basic k b, rest))"
    and peek_code: "mp_PeekCode lib (c # rest) = Inr c"
    and decode_nil: "mp_DecodeNil lib (192 # rest) = Inr rest"
    and decode_array_len: "n < 4294967296 \<Longrightarrow> mp_DecodeArrayLen lib (arrayHeader n @ rest) = Inr (int n, rest)"
    and decode_array_nil: "mp_DecodeArrayLen lib (192 # rest) = Inr (-1, rest)"
    and decode_map_len: "n < 4294967296 \<Longrightarrow> mp_DecodeMapLen lib (mapHeader n @ rest) = Inr (int n, rest)"
    and decode_string: "length s < 4294967296 \<Longrightarrow>
      mp_DecodeString lib (strHeader (length s) @ bytes_of_string s @ rest) = Inr (s, rest)"
    and decode_bytes: "length bs < 4294967296 \<Longrightarrow>
      mp_Decode lib (Slice (TBasic ''uint8'') None) (binHeader (length bs) @ bs @ rest) =
        (None, Slice (TBasic ''uint8'') (Some (map (\<lambda>b. Basic ''uint8'' (BInt (uint b))) bs)), rest)"
begin

text \<open>The two hand-written readers accept exactly the headers of the format.\<close>

lemma readArrayHeader_Cons:
  "readArrayHeader lib (c # bs) =
     (if 144 \<le> c \<and> c \<le> 159 then Some (int (unat (c AND 15)), bs)
      else if c = 220 \<and> 2 \<le> length bs then Some (int (unat (Uint16 (take 2 bs))), drop 2 bs)
      else if c = 221 \<and> 4 \<le> length bs then Some (int (unat (Uint32 (take 4 bs))), drop 4 bs)
      else None)"
  by (simp add: readArrayHeader_def codes)

lemma readArrayHeader_header:
  assumes "array_header n h"
  shows "readArrayHeader lib (h @ rest) = Some (int n, rest)"
proof -
  consider "n < 16" "h = [word_of_nat (144 + n)]"
    | "n < 65536" "h = 220 # PutUint16 (word_of_nat n)"
    | "n < 4294967296" "h = 221 # PutUint32 (word_of_nat n)"
    using assms unfolding array_header_def by blast
  then show ?thesis
  proof cases
    case 1
    then show ?thesis
      using fixed_array_code [of n] by (simp add: readArrayHeader_Cons del: of_nat_add)
  qed (simp_all add: readArrayHeader_Cons unat_word_of_nat_small)
qed

lemma readArrayHeader_only:
  assumes "readArrayHeader lib b = Some (n, rest)"
  shows "\<exists>h. 0 \<le> n \<and> array_header (nat n) h \<and> b = h @ rest"
proof -
  obtain c bs where b: "b = c # bs"
    using assms by (cases b) (auto simp: readArrayHeader_def)
  note r = assms [unfolded b readArrayHeader_Cons]
  show ?thesis
  proof (cases "144 \<le> c \<and> c \<le> 159")
    case True
    then have "array_header (nat n) [c] \<and> 0 \<le> n \<and> b = [c] @ rest"
      using r fixed_array_decode [of c] b by (auto simp: array_header_def simp del: of_nat_add)
    then show ?thesis by blast
  next
    case short: False
    show ?thesis
    proof (cases "c = 220 \<and> 2 \<le> length bs")
      case True
      then have "n = int (unat (Uint16 (take 2 bs)))" "rest = drop 2 bs" using r short by simp_all
      then have "array_header (nat n) (220 # take 2 bs) \<and> 0 \<le> n \<and> b = (220 # take 2 bs) @ rest"
        using True b Put_Uint16 [of "take 2 bs"] unat_u16_less [of "Uint16 (take 2 bs)"]
        by (simp add: array_header_def)
      then show ?thesis by blast
    next
      case False
      then have "c = 221" "4 \<le> length bs" "n = int (unat (Uint32 (take 4 bs)))" "rest = drop 4 bs"
        using r short by (simp_all split: if_split_asm)
      then have "array_header (nat n) (221 # take 4 bs) \<and> 0 \<le> n \<and> b = (221 # take 4 bs) @ rest"
        using b Put_Uint32 [of "take 4 bs"] unat_u32_less [of "Uint32 (take 4 bs)"]
        by (simp add: array_header_def)
      then show ?thesis by blast
    qed
  qed
qed

lemma readStringValue_Cons:
  "readStringValue lib (c # bs) =
     (case stringLen c bs of
        None \<Rightarrow> None
      | Some (n, r) \<Rightarrow> if length r < n then None else Some (string_of_bytes (take n r), drop n r))"
proof -
  have [simp]: "go_slice (Suc 0) k (c # bs) = take (k - 1) bs" "go_slice 2 k (c # bs) = take (k - 2) (drop 1 bs)"
    "go_slice 3 k (c # bs) = take (k - 3) (drop 2 bs)" "go_slice 5 k (c # bs) = take (k - 5) (drop 4 bs)" for k
    by (simp_all add: go_slice_def drop_Cons')
  have [simp]: "drop (2 + n) (c # bs) = drop n (drop 1 bs)" "drop (3 + n) (c # bs) = drop n (drop 2 bs)"
    "drop (5 + n) (c # bs) = drop n (drop 4 bs)" for n
    by (simp_all add: drop_Cons' add.commute)
  show ?thesis
    by (simp add: readStringValue_def stringLen_def codes)
qed

text \<open>The envelope of a compact payload: a payload is accepted exactly when it is an array header, the header of a
  string or byte string, its bytes, and the rest, which is the body.\<close>

lemma decodeCompactEnvelope_iff:
  "decodeCompactEnvelope lib payload = Inr (name, CompactBody flds count) \<longleftrightarrow>
     0 \<le> count \<and> (\<exists>h s. array_header (Suc (nat count)) h \<and> string_header (length name) s \<and>
       payload = h @ s @ bytes_of_string name @ flds)"
proof
  assume "decodeCompactEnvelope lib payload = Inr (name, CompactBody flds count)"
  then obtain n rest where n: "readArrayHeader lib payload = Some (n, rest)" "n \<noteq> 0" "count = n - 1"
    and r: "readStringValue lib rest = Some (name, flds)"
    by (auto simp: decodeCompactEnvelope_def split: option.splits if_splits)
  obtain h where h: "0 \<le> n" "array_header (nat n) h" "payload = h @ rest"
    using readArrayHeader_only [OF n(1)] by blast
  obtain c bs where rest: "rest = c # bs" using r by (cases rest) (auto simp: readStringValue_def)
  obtain m x where m: "stringLen c bs = Some (m, x)" "m \<le> length x" "name = string_of_bytes (take m x)" "flds = drop m x"
    using r by (auto simp: rest readStringValue_Cons split: option.splits if_splits)
  obtain s where s: "string_header m (c # s)" "bs = s @ x" using stringLen_only [OF m(1)] by blast
  have "length name = m" "x = bytes_of_string name @ flds" using m by simp_all
  moreover have "nat n = Suc (nat count)" "0 \<le> count" using n h(1) by simp_all
  ultimately show "0 \<le> count \<and> (\<exists>h s. array_header (Suc (nat count)) h \<and> string_header (length name) s \<and>
       payload = h @ s @ bytes_of_string name @ flds)"
    using h s rest by (metis append_Cons append_assoc)
next
  assume "0 \<le> count \<and> (\<exists>h s. array_header (Suc (nat count)) h \<and> string_header (length name) s \<and>
       payload = h @ s @ bytes_of_string name @ flds)"
  then obtain h s where *: "0 \<le> count" "array_header (Suc (nat count)) h" "string_header (length name) s"
    "payload = h @ s @ bytes_of_string name @ flds" by blast
  obtain c s' where s: "s = c # s'" "stringLen c (s' @ bytes_of_string name @ flds) =
      Some (length name, bytes_of_string name @ flds)"
    using stringLen_header [OF *(3)] by blast
  then have "readStringValue lib (s @ bytes_of_string name @ flds) = Some (name, flds)"
    by (simp add: readStringValue_Cons)
  then show "decodeCompactEnvelope lib payload = Inr (name, CompactBody flds count)"
    using *(1) readArrayHeader_header [OF *(2)] by (simp add: decodeCompactEnvelope_def *(4))
qed

end

end
