(* ===== verification/Msgpack_Roundtrip.thy ===== *)
theory Msgpack_Roundtrip
  imports Msgpack_Format Stream_Ops
begin

text \<open>
  The compact codec decodes what it encodes. \<open>plain\<close> are the values that survive: every struct in them is
  encoded field by field, interfaces are nil (a decoded interface holds MessagePack's generic types),
  a pointer does not point to a nil value (which would become a nil pointer), map keys are basic and
  distinct, and lengths fit the 32 bits of the format.
\<close>

fun plain :: "typeTable \<Rightarrow> goValue \<Rightarrow> bool" where
  "plain decls Invalid \<longleftrightarrow> False"
| "plain decls (Basic k b) \<longleftrightarrow> basic_ok k b"
| "plain decls (Struct n vs) \<longleftrightarrow>
     compact (compactInfoFor decls (TStruct n)) \<and> length vs < 4294967296 \<and> list_all (plain decls) vs"
| "plain decls (Ptr t v) \<longleftrightarrow> (case v of None \<Rightarrow> True | Some x \<Rightarrow> \<not> is_nil x \<and> plain decls x)"
| "plain decls (Slice t v) \<longleftrightarrow>
     (case v of None \<Rightarrow> True | Some vs \<Rightarrow> length vs < 4294967296 \<and> list_all (plain decls) vs)"
| "plain decls (Array t vs) \<longleftrightarrow> length vs < 4294967296 \<and> list_all (plain decls) vs"
| "plain decls (Map k t v) \<longleftrightarrow>
     (case v of
        None \<Rightarrow> True
      | Some kvs \<Rightarrow>
          (case k of TBasic _ \<Rightarrow> True | _ \<Rightarrow> False) \<and> length kvs < 4294967296 \<and> distinct (map fst kvs) \<and>
          list_all (\<lambda>p. plain decls (fst p) \<and> \<not> equals_none (fst p) \<and> plain decls (snd p)) kvs)"
| "plain decls (Interface n v) \<longleftrightarrow> v = None"

text \<open>How deep decoding a value recurses.\<close>

fun vdepth :: "goValue \<Rightarrow> nat" where
  "vdepth (Struct n vs) = Suc (foldr max (map vdepth vs) 0)"
| "vdepth (Ptr t v) = (case v of None \<Rightarrow> 1 | Some x \<Rightarrow> Suc (vdepth x))"
| "vdepth (Slice t v) = (case v of None \<Rightarrow> 1 | Some vs \<Rightarrow> Suc (foldr max (map vdepth vs) 0))"
| "vdepth (Array t vs) = Suc (foldr max (map vdepth vs) 0)"
| "vdepth (Map k t v) = (case v of None \<Rightarrow> 1 | Some kvs \<Rightarrow> Suc (foldr max (map (\<lambda>p. vdepth (snd p)) kvs) 0))"
| "vdepth v = 1"

lemma foldr_max_le: "x \<in> set xs \<Longrightarrow> x \<le> foldr max xs (0::nat)"
  by (induction xs) auto

lemma vdepth_pos: "0 < vdepth v"
  by (cases v) (auto split: option.splits)

text \<open>A struct that is encoded field by field is encoded with all its fields.\<close>

lemma exportedFields_all: "exportedFields i fs = Inr is \<Longrightarrow> is = [i..<i + length fs]"
proof (induction fs arbitrary: i "is")
  case (Cons f fs)
  then obtain js where "exportedFields (Suc i) fs = Inr js" "is = i # js"
    by (cases f) (auto split: if_splits sum.splits)
  then show ?case using Cons.IH [of "Suc i" js] by (simp add: upt_conv_Cons del: upt_Suc)
qed simp

lemma compact_fields:
  "compact (compactInfoFor decls (TStruct n)) \<Longrightarrow>
     ci_fields (compactInfoFor decls (TStruct n)) = [0..<length (st_fields (decls n))]"
  by (auto simp: compact_def Let_def dest: exportedFields_all split: sum.splits)

lemma compactFieldIndices_all:
  "compactFieldIndices decls (TStruct n) = Inr is \<Longrightarrow> is = [0..<length (st_fields (decls n))]"
  by (auto simp: compactFieldIndices_def Let_def dest: exportedFields_all split: sum.splits option.splits)

declare compactInfoFor.simps [simp del] decodeCompactValue.simps [simp del]

lemma writeAll_total:
  assumes "\<And>v. v \<in> set vs \<Longrightarrow> \<exists>b. f v = Inr b"
  shows "\<exists>bs. writeAll (map f vs) = Inr bs"
  using assms
proof (induction vs)
  case (Cons v vs)
  obtain b where "f v = Inr b" using Cons.prems [of v] by auto
  moreover obtain bs where "writeAll (map f vs) = Inr bs" using Cons by auto
  ultimately show ?case by simp
qed simp

lemma header_codes:
  "n < 4294967296 \<Longrightarrow> \<exists>c h. arrayHeader n = c # h \<and> c \<noteq> 192"
  "n < 4294967296 \<Longrightarrow> \<exists>c h. mapHeader n = c # h \<and> c \<noteq> 192"
  "\<exists>c h. binHeader n = c # h \<and> c \<noteq> 192"
proof -
  have "\<forall>n\<in>set [0..<16]. (word_of_nat (144 + n) :: byte) \<noteq> 192 \<and> (word_of_nat (128 + n) :: byte) \<noteq> 192"
    by code_simp
  then have *: "(word_of_nat (144 + n) :: byte) \<noteq> 192 \<and> (word_of_nat (128 + n) :: byte) \<noteq> 192" if "n < 16" for n
    using that by auto
  show "n < 4294967296 \<Longrightarrow> \<exists>c h. arrayHeader n = c # h \<and> c \<noteq> 192"
    "n < 4294967296 \<Longrightarrow> \<exists>c h. mapHeader n = c # h \<and> c \<noteq> 192"
    using * by (auto simp: arrayHeader_def mapHeader_def simp del: of_nat_add)
  show "\<exists>c h. binHeader n = c # h \<and> c \<noteq> 192" by (simp add: binHeader_def)
qed

lemma is_nil_plain_depth: "has_type decls t v \<Longrightarrow> is_nil v \<Longrightarrow> value_Kind v \<in> {KInterface, KPointer, KSlice, KMap}"
  by (cases v) auto

lemma zeroValue_nil: "is_nil v \<Longrightarrow> zeroValue decls depth (the (value_Type v)) = v"
  by (cases v) auto

lemma slice_Bytes_typed:
  assumes "list_all (has_type decls (TBasic ''uint8'')) vs" and "list_all (plain decls) vs"
  shows "map (\<lambda>b. Basic ''uint8'' (BInt (uint b))) (slice_Bytes vs) = vs"
  using assms
proof (induction vs)
  case (Cons v vs)
  then obtain b where v: "v = Basic ''uint8'' b" by (cases v) auto
  then obtain i where "b = BInt i" "0 \<le> i" "i \<le> 255" using Cons.prems by (cases b) (auto simp: intRange_def)
  then show ?case using Cons v by (simp add: slice_Bytes_def uint_word_of_int)
qed (simp add: slice_Bytes_def)

text \<open>The loops over fields, elements and entries, given that each part is decoded.\<close>

lemma decodeEach_written:
  assumes "list_all2 (\<lambda>v dst. \<forall>b rest. enc v = Inr b \<longrightarrow> dec dst (b @ rest) = (None, v, rest)) vs dsts"
    and "writeAll (map enc vs) = Inr bs"
  shows "decodeEach dec dsts (bs @ rest) = (None, vs, rest)"
  using assms
proof (induction arbitrary: bs rest rule: list_all2_induct)
  case (Cons v vs dst dsts)
  obtain b bs' where "enc v = Inr b" "writeAll (map enc vs) = Inr bs'" "bs = b @ bs'"
    using Cons.prems by (cases "enc v"; cases "writeAll (map enc vs)") auto
  then show ?case using Cons by simp
qed simp

lemma decodeEntries_written:
  assumes "\<And>p. p \<in> set kvs \<Longrightarrow> \<exists>kb vb. ent p = Inr (kb @ vb) \<and>
      (\<forall>rest. libDecode lib (zeroValue decls depth keyType) (kb @ rest) = (None, fst p, rest)) \<and>
      (\<forall>rest. dec (zeroValue decls depth elem) (vb @ rest) = (None, snd p, rest)) \<and>
      \<not> unhashable (fst p) \<and> \<not> equals_none (fst p)"
    and "type_Kind keyType \<noteq> KInterface" and "distinct (map fst (acc @ kvs))"
    and "writeAll (map ent kvs) = Inr bs"
  shows "decodeEntries dec lib decls depth keyType elem (length kvs) acc (bs @ rest) = (Inr (acc @ kvs), rest)"
  using assms
proof (induction kvs arbitrary: acc bs)
  case (Cons p kvs)
  obtain kb vb where p: "ent p = Inr (kb @ vb)" "\<And>rest. libDecode lib (zeroValue decls depth keyType) (kb @ rest) = (None, fst p, rest)"
    "\<And>rest. dec (zeroValue decls depth elem) (vb @ rest) = (None, snd p, rest)" "\<not> unhashable (fst p)" "\<not> equals_none (fst p)"
    using Cons.prems(1) [of p] by auto
  obtain bs' where bs: "writeAll (map ent kvs) = Inr bs'" "bs = kb @ vb @ bs'"
    using Cons.prems(4) p(1) by (cases "writeAll (map ent kvs)") auto
  have "fst p \<notin> fst ` set acc" using Cons.prems(3) by auto
  then have "AList.update (fst p) (snd p) acc = acc @ [p]" by (induction acc) auto
  then show ?case
    using Cons.IH [of "acc @ [p]" bs'] Cons.prems bs p by (simp add: SetMapIndex_def)
qed simp

text \<open>The messages of a struct type that survive: the type has exported fields only, and the fields hold plain
  values that decode within the stack.\<close>

definition messageOk :: "typeTable \<Rightarrow> nat \<Rightarrow> nat \<Rightarrow> string \<Rightarrow> goValue list \<Rightarrow> bool" where
  "messageOk decls depth fuel n vs \<longleftrightarrow>
     wf_decls decls depth \<and> (\<exists>is. compactFieldIndices decls (TStruct n) = Inr is) \<and>
     has_type decls (TStruct n) (Struct n vs) \<and> Suc (length vs) < 4294967296 \<and>
     list_all (\<lambda>v. plain decls v \<and> vdepth v \<le> fuel) vs"

section \<open>Values\<close>

context msgpack_format begin

lemma elements_total:
  assumes "\<And>v. v \<in> set vs \<Longrightarrow> \<exists>b. enc v = Inr b" and "length vs < 4294967296"
  shows "\<exists>c bs. encodeCompactElements lib (map enc vs) = Inr (c # bs) \<and> c \<noteq> 192"
proof -
  obtain bs where "writeAll (map enc vs) = Inr bs" using writeAll_total assms(1) by blast
  moreover obtain c h where "arrayHeader (length vs) = c # h" "c \<noteq> 192" using header_codes(1) [OF assms(2)] by blast
  ultimately show ?thesis using assms(2) by (simp add: encodeCompactElements_def encode_array_len codecErr_def)
qed

lemma struct_as_elements:
  assumes "compact (compactInfoFor decls (TStruct n))" and "length vs = length (st_fields (decls n))"
  shows "encodeCompactStruct lib decls addr n vs (map enc vs) = encodeCompactElements lib (map enc vs)"
  using assms by (simp add: encodeCompactStruct_def encodeCompactElements_def compact_fields)

lemma entries_total:
  assumes "\<And>p. p \<in> set kvs \<Longrightarrow> \<exists>b. ent p = Inr b" and "length kvs < 4294967296"
  shows "\<exists>c bs. encodeCompactMap lib (TBasic k) (map ent kvs) = Inr (c # bs) \<and> c \<noteq> 192"
proof -
  obtain bs where "writeAll (map ent kvs) = Inr bs" using writeAll_total assms(1) by blast
  moreover obtain c h where "mapHeader (length kvs) = c # h" "c \<noteq> 192" using header_codes(2) [OF assms(2)] by blast
  ultimately show ?thesis using assms(2) by (simp add: encodeCompactMap_def isStructKey_def encode_map_len codecErr_def)
qed

lemma bytes_total:
  assumes "length vs < 4294967296"
  shows "\<exists>c bs. codecErr (mp_EncodeBytes lib (slice_Bytes vs)) = Inr (c # bs) \<and> c \<noteq> 192"
  using assms header_codes(3) [of "length vs"] by (auto simp: encode_bytes codecErr_def slice_Bytes_def)

text \<open>A plain value is encoded, with the code for nil exactly when it is nil.\<close>

lemma encodeCompactValue_total:
  assumes "plain decls v" and "has_type decls t v"
  shows "\<exists>c bs. encodeCompactValue lib decls addr v = Inr (c # bs) \<and> (c = 192 \<longleftrightarrow> is_nil v)"
  using assms
proof (induction v arbitrary: addr t)
  case (Basic k b)
  then show ?case using encode_basic [of k b addr] by (auto simp: codecErr_def)
next
  case (Struct n vs)
  have "\<exists>b. encodeCompactValue lib decls addr v = Inr b" if v: "v \<in> set vs" for v
  proof -
    obtain t' where "has_type decls t' v"
      using v Struct.prems(2) by (auto simp: list_all2_conv_all_nth in_set_conv_nth)
    then show ?thesis using Struct.IH [OF v] Struct.prems(1) v by (force simp: list_all_iff)
  qed
  then show ?case
    using Struct.prems struct_as_elements [of decls n vs] elements_total [of vs "encodeCompactValue lib decls addr"]
    by (auto dest: list_all2_lengthD)
next
  case (Ptr e x)
  have "\<not> (value_Kind y = KStruct \<and> \<not> compact (compactInfoFor decls (the (value_Type y))))" if "x = Some y" for y
    using Ptr.prems(1) that by (cases y) auto
  then show ?case using Ptr by (cases x) (auto simp: encode_nil codecErr_def)
next
  case (Slice e x)
  show ?case
  proof (cases x)
    case (Some vs)
    have "\<exists>b. encodeCompactValue lib decls True v = Inr b" if "v \<in> set vs" for v
      using Slice.IH [of vs v e True] Slice.prems that Some by (auto simp: list_all_iff)
    then show ?thesis
      using Slice.prems Some elements_total [of vs] bytes_total [of vs] by auto
  qed (simp add: encode_nil codecErr_def)
next
  case (Array e vs)
  have "\<exists>b. encodeCompactValue lib decls addr v = Inr b" if "v \<in> set vs" for v
    using Array.IH [OF that, of e addr] Array.prems that by (auto simp: list_all_iff)
  then show ?case using Array.prems elements_total [of vs] by auto
next
  case (Map k e x)
  show ?case
  proof (cases x)
    case (Some kvs)
    obtain kk where k: "k = TBasic kk" using Map.prems Some by (cases k) auto
    have "\<exists>b. encodeCompactEntry decls (fst p) (encodeCompactValue lib decls False (fst p))
      (encodeCompactValue lib decls False (snd p)) = Inr b" if p: "p \<in> set kvs" for p
    proof -
      have ok: "plain decls (fst p)" "plain decls (snd p)" "has_type decls k (fst p)" "has_type decls e (snd p)"
        using Map.prems Some p by (auto simp: list_all_iff)
      obtain b1 b2 where "encodeCompactValue lib decls False (fst p) = Inr b1"
        "encodeCompactValue lib decls False (snd p) = Inr b2"
        using Map.IH(1) [of kvs p "fst p" k False] Map.IH(2) [of kvs p "snd p" e False] Some p ok
        by (auto simp: prod_set_defs)
      moreover have "compactKeyComparable decls (fst p)" using ok(3) k by (cases "fst p") auto
      ultimately show ?thesis by (simp add: encodeCompactEntry_def)
    qed
    then show ?thesis using Map.prems Some k entries_total [of kvs] by auto
  qed (simp add: encode_nil codecErr_def)
qed (auto simp: encode_nil codecErr_def)

lemma elements_decoded:
  assumes "list_all2 (\<lambda>v dst. \<forall>b rest. enc v = Inr b \<longrightarrow> dec dst (b @ rest) = (None, v, rest)) vs dsts"
    and "encodeCompactElements lib (map enc vs) = Inr bs" and "length vs < 4294967296"
  shows "\<exists>r. mp_DecodeArrayLen lib (bs @ rest) = Inr (int (length vs), r) \<and> decodeEach dec dsts r = (None, vs, rest)"
proof -
  obtain b where b: "writeAll (map enc vs) = Inr b" "bs = arrayHeader (length vs) @ b"
    using assms(2,3)
    by (cases "writeAll (map enc vs)") (auto simp: encodeCompactElements_def encode_array_len codecErr_def)
  then show ?thesis
    using decodeEach_written [OF assms(1) b(1), of rest] assms(3) by (simp add: decode_array_len)
qed

lemma entries_decoded:
  assumes "\<And>p. p \<in> set kvs \<Longrightarrow> \<exists>kb vb. ent p = Inr (kb @ vb) \<and>
      (\<forall>rest. libDecode lib (zeroValue decls depth (TBasic k)) (kb @ rest) = (None, fst p, rest)) \<and>
      (\<forall>rest. dec (zeroValue decls depth elem) (vb @ rest) = (None, snd p, rest)) \<and>
      \<not> unhashable (fst p) \<and> \<not> equals_none (fst p)"
    and "distinct (map fst kvs)" and "encodeCompactMap lib (TBasic k) (map ent kvs) = Inr bs"
    and "length kvs < 4294967296"
  shows "decodeCompactMap dec lib decls depth (TBasic k) elem old (bs @ rest) =
    (None, Map (TBasic k) elem (Some kvs), rest)"
proof -
  obtain b where b: "writeAll (map ent kvs) = Inr b" "bs = mapHeader (length kvs) @ b"
    using assms(3,4)
    by (cases "writeAll (map ent kvs)") (auto simp: encodeCompactMap_def isStructKey_def encode_map_len codecErr_def)
  have "decodeEntries dec lib decls depth (TBasic k) elem (length kvs) [] (b @ rest) = (Inr ([] @ kvs), rest)"
    by (rule decodeEntries_written [of kvs ent lib decls depth "TBasic k" dec elem "[]" b rest, OF assms(1)])
      (use assms(2) b(1) in simp_all)
  then show ?thesis
    using b(2) assms(4) by (simp add: decodeCompactMap_def isStructKey_def decode_map_len)
qed

lemma basic_decoded:
  assumes "basic_ok k b" and "encodeCompactValue lib decls addr (Basic k b) = Inr bs"
  shows "libDecode lib (Basic k d) (bs @ rest) = (None, Basic k b, rest)"
proof -
  obtain c h where *: "mp_EncodeValue lib addr (Basic k b) = Inr (c # h)"
    "mp_Decode lib (Basic k d) (c # h @ rest) = (None, Basic k b, rest)"
    using encode_basic [OF assms(1)] by blast
  then show ?thesis using assms(2) by (simp add: codecErr_def libDecode_def flip: append_Cons)
qed

text \<open>Decoding a nil, and decoding anything else.\<close>

lemma decode_nil_value:
  assumes "is_nil v" and "has_type decls t v" and "has_type decls t dst"
  shows "decodeCompactValue lib decls depth (Suc fuel) True dst (192 # rest) = (None, v, rest)"
  using assms by (cases v; cases dst) (auto simp: decodeCompactValue.simps peek_code codes decode_nil Let_def)

lemma decode_other_value:
  assumes "c \<noteq> 192" and "dst \<noteq> Invalid" and "value_Kind dst \<noteq> KInterface"
  shows "decodeCompactValue lib decls depth (Suc fuel) True dst (c # bs) =
    (let dec = decodeCompactValue lib decls depth fuel True; rest = c # bs in
     case dst of
       Ptr t old \<Rightarrow>
         (case dec (zeroValue decls depth t) rest of
            (Some e, elem, rest') \<Rightarrow> (Some e, dst, rest')
          | (None, elem, rest') \<Rightarrow> (None, Ptr t (Some elem), rest'))
     | Struct sname vs \<Rightarrow> decodeCompactStruct dec lib decls sname vs rest
     | Slice elem old \<Rightarrow> decodeCompactSlice dec lib decls depth elem old rest
     | Array elem vs \<Rightarrow> decodeCompactArray dec lib elem vs rest
     | Map k elem old \<Rightarrow> decodeCompactMap dec lib decls depth k elem old rest
     | _ \<Rightarrow> libDecode lib dst rest)"
  using assms by (cases dst) (auto simp: decodeCompactValue.simps peek_code codes Let_def)

definition decodes :: "typeTable \<Rightarrow> nat \<Rightarrow> nat \<Rightarrow> bool \<Rightarrow> goType \<Rightarrow> goValue \<Rightarrow> bool" where
  "decodes decls depth fuel addr t v \<longleftrightarrow>
     (\<forall>dst bs rest. has_type decls t dst \<longrightarrow> encodeCompactValue lib decls addr v = Inr bs \<longrightarrow>
        decodeCompactValue lib decls depth fuel True dst (bs @ rest) = (None, v, rest))"

lemma decodes_nil:
  assumes "is_nil v" and "has_type decls t v" and "fuel = Suc n"
  shows "decodes decls depth fuel addr t v"
proof -
  have "encodeCompactValue lib decls addr v = Inr [192]"
    using assms(1) by (cases v) (auto simp: encode_nil codecErr_def)
  then show ?thesis using decode_nil_value [OF assms(1,2)] assms(3) by (simp add: decodes_def)
qed

lemma decodes_parts:
  assumes "\<And>v t. v \<in> set vs \<Longrightarrow> has_type decls t v \<Longrightarrow> decodes decls depth fuel addr t v"
    and "list_all2 (has_type decls) ts vs" and "list_all2 (has_type decls) ts ds"
  shows "list_all2 (\<lambda>v dst. \<forall>b rest. encodeCompactValue lib decls addr v = Inr b \<longrightarrow>
      decodeCompactValue lib decls depth fuel True dst (b @ rest) = (None, v, rest)) vs ds"
proof (rule list_all2_all_nthI)
  show "length vs = length ds" using list_all2_lengthD [OF assms(2)] list_all2_lengthD [OF assms(3)] by simp
  fix i assume "i < length vs"
  then have "decodes decls depth fuel addr (ts ! i) (vs ! i)" "has_type decls (ts ! i) (ds ! i)"
    using assms by (simp_all add: list_all2_conv_all_nth)
  then show "\<forall>b rest. encodeCompactValue lib decls addr (vs ! i) = Inr b \<longrightarrow>
      decodeCompactValue lib decls depth fuel True (ds ! i) (b @ rest) = (None, vs ! i, rest)"
    by (simp add: decodes_def)
qed

lemma decodes_struct:
  assumes "\<And>v t. v \<in> set vs \<Longrightarrow> has_type decls t v \<Longrightarrow> decodes decls depth fuel addr t v"
    and "plain decls (Struct n vs)" and "has_type decls t (Struct n vs)"
  shows "decodes decls depth (Suc fuel) addr t (Struct n vs)"
  unfolding decodes_def
proof (intro allI impI)
  fix dst bs rest
  assume dst: "has_type decls t dst" and bs: "encodeCompactValue lib decls addr (Struct n vs) = Inr bs"
  let ?ts = "map snd (st_fields (decls n))"
  obtain ds where ds: "dst = Struct n ds" "list_all2 (has_type decls) ?ts ds"
    using dst assms(3) by (cases dst) (auto simp: list_all2_map1)
  have tys: "list_all2 (has_type decls) ?ts vs" using assms(3) by (simp add: list_all2_map1)
  then have len: "length (st_fields (decls n)) = length vs" by (auto dest: list_all2_lengthD)
  have "encodeCompactElements lib (map (encodeCompactValue lib decls addr) vs) = Inr bs"
    using bs struct_as_elements [of decls n vs] assms(2) len by simp
  from elements_decoded [OF decodes_parts [OF assms(1) tys ds(2)] this, of rest]
  obtain r where r: "mp_DecodeArrayLen lib (bs @ rest) = Inr (int (length vs), r)"
    "decodeEach (decodeCompactValue lib decls depth fuel True) ds r = (None, vs, rest)"
    using assms(2) by auto
  obtain c h where "bs = c # h" "c \<noteq> 192"
    using encodeCompactValue_total [OF assms(2,3), of addr] bs by auto
  then show "decodeCompactValue lib decls depth (Suc fuel) True dst (bs @ rest) = (None, Struct n vs, rest)"
    using r assms(2) len by (simp add: ds(1) decode_other_value decodeCompactStruct_def compact_fields)
qed

lemma decodes_pointer:
  assumes "decodes decls depth fuel True e x" and "wf_decls decls depth"
    and "plain decls (Ptr e (Some x))" and "has_type decls t (Ptr e (Some x))"
  shows "decodes decls depth (Suc fuel) addr t (Ptr e (Some x))"
  unfolding decodes_def
proof (intro allI impI)
  fix dst bs rest
  assume dst: "has_type decls t dst" and bs: "encodeCompactValue lib decls addr (Ptr e (Some x)) = Inr bs"
  obtain old where dst: "dst = Ptr e old" using dst assms(4) by (cases dst) auto
  obtain c h where c: "bs = c # h" "c \<noteq> 192"
    using encodeCompactValue_total [OF assms(3,4), of addr] bs by auto
  have "\<not> (value_Kind x = KStruct \<and> \<not> compact (compactInfoFor decls (the (value_Type x))))"
    using assms(3) by (cases x) auto
  then have "encodeCompactValue lib decls True x = Inr bs" using bs by (simp split: if_split_asm)
  then have "decodeCompactValue lib decls depth fuel True (zeroValue decls depth e) (bs @ rest) = (None, x, rest)"
    using assms(1) zeroValue_has_type [OF assms(2)] by (simp add: decodes_def)
  then show "decodeCompactValue lib decls depth (Suc fuel) True dst (bs @ rest) = (None, Ptr e (Some x), rest)"
    using c by (simp add: dst decode_other_value)
qed

lemma decodes_array:
  assumes "\<And>v t. v \<in> set vs \<Longrightarrow> has_type decls t v \<Longrightarrow> decodes decls depth fuel addr t v"
    and "plain decls (Array e vs)" and "has_type decls t (Array e vs)"
  shows "decodes decls depth (Suc fuel) addr t (Array e vs)"
  unfolding decodes_def
proof (intro allI impI)
  fix dst bs rest
  assume dst: "has_type decls t dst" and bs: "encodeCompactValue lib decls addr (Array e vs) = Inr bs"
  let ?ts = "replicate (length vs) e"
  obtain ds where ds: "dst = Array e ds" "length ds = length vs" "list_all2 (has_type decls) ?ts ds"
    using dst assms(3) by (cases dst) (auto simp: list_all2_conv_all_nth list_all_length)
  have tys: "list_all2 (has_type decls) ?ts vs"
    using assms(3) by (auto simp: list_all2_conv_all_nth list_all_length)
  have "encodeCompactElements lib (map (encodeCompactValue lib decls addr) vs) = Inr bs" using bs by simp
  from elements_decoded [OF decodes_parts [OF assms(1) tys ds(3)] this, of rest]
  obtain r where r: "mp_DecodeArrayLen lib (bs @ rest) = Inr (int (length vs), r)"
    "decodeEach (decodeCompactValue lib decls depth fuel True) ds r = (None, vs, rest)"
    using assms(2) by auto
  obtain c h where "bs = c # h" "c \<noteq> 192"
    using encodeCompactValue_total [OF assms(2,3), of addr] bs by auto
  then show "decodeCompactValue lib decls depth (Suc fuel) True dst (bs @ rest) = (None, Array e vs, rest)"
    using r ds(2) by (simp add: ds(1) decode_other_value decodeCompactArray_def)
qed

lemma decodes_slice:
  assumes "\<And>v t. v \<in> set vs \<Longrightarrow> has_type decls t v \<Longrightarrow> decodes decls depth fuel True t v"
    and "plain decls (Slice e (Some vs))" and "has_type decls t (Slice e (Some vs))" and "wf_decls decls depth"
  shows "decodes decls depth (Suc fuel) addr t (Slice e (Some vs))"
  unfolding decodes_def
proof (intro allI impI)
  fix dst bs rest
  assume dst: "has_type decls t dst" and bs: "encodeCompactValue lib decls addr (Slice e (Some vs)) = Inr bs"
  obtain old where dst: "dst = Slice e old" using dst assms(3) by (cases dst) auto
  obtain c h where c: "bs = c # h" "c \<noteq> 192"
    using encodeCompactValue_total [OF assms(2,3), of addr] bs by auto
  have vs: "list_all (has_type decls e) vs" "list_all (plain decls) vs" "length vs < 4294967296"
    using assms(2,3) by simp_all
  have "decodeCompactSlice (decodeCompactValue lib decls depth fuel True) lib decls depth e old (bs @ rest) =
      (None, Slice e (Some vs), rest)"
  proof (cases "e = TBasic ''uint8''")
    case True
    then have "bs = binHeader (length vs) @ slice_Bytes vs"
      using bs vs(3) by (auto simp: encode_bytes codecErr_def slice_Bytes_def)
    then show ?thesis
      using decode_bytes [of "slice_Bytes vs" rest] vs True slice_Bytes_typed [of decls vs]
      by (simp add: decodeCompactSlice_def libDecode_def slice_Bytes_def)
  next
    case False
    then have kind: "type_Kind e \<noteq> KBasic ''uint8''" by (cases e) auto
    let ?ts = "replicate (length vs) e" and ?ds = "replicate (length vs) (zeroValue decls depth e)"
    have tys: "list_all2 (has_type decls) ?ts vs" "list_all2 (has_type decls) ?ts ?ds"
      using vs(1) zeroValue_has_type [OF assms(4)] by (auto simp: list_all2_conv_all_nth list_all_length)
    have "encodeCompactElements lib (map (encodeCompactValue lib decls True) vs) = Inr bs" using bs kind by simp
    from elements_decoded [OF decodes_parts [OF assms(1) tys] this vs(3), of rest]
    show ?thesis using kind by (auto simp: decodeCompactSlice_def)
  qed
  then show "decodeCompactValue lib decls depth (Suc fuel) True dst (bs @ rest) = (None, Slice e (Some vs), rest)"
    using c by (simp add: dst decode_other_value)
qed

lemma decodes_map:
  assumes "\<And>p. p \<in> set kvs \<Longrightarrow> decodes decls depth fuel False e (snd p)"
    and "plain decls (Map k e (Some kvs))" and "has_type decls t (Map k e (Some kvs))" and "wf_decls decls depth"
  shows "decodes decls depth (Suc fuel) addr t (Map k e (Some kvs))"
  unfolding decodes_def
proof (intro allI impI)
  fix dst bs rest
  assume dst: "has_type decls t dst" and bs: "encodeCompactValue lib decls addr (Map k e (Some kvs)) = Inr bs"
  obtain old where dst: "dst = Map k e old" using dst assms(3) by (cases dst) auto
  obtain kk where k: "k = TBasic kk" using assms(2) by (cases k) auto
  obtain c h where c: "bs = c # h" "c \<noteq> 192"
    using encodeCompactValue_total [OF assms(2,3), of addr] bs by auto
  let ?ent = "\<lambda>p. encodeCompactEntry decls (fst p) (encodeCompactValue lib decls False (fst p))
    (encodeCompactValue lib decls False (snd p))"
  have ent: "\<exists>kb vb. ?ent p = Inr (kb @ vb) \<and>
      (\<forall>rest. libDecode lib (zeroValue decls depth (TBasic kk)) (kb @ rest) = (None, fst p, rest)) \<and>
      (\<forall>rest. decodeCompactValue lib decls depth fuel True (zeroValue decls depth e) (vb @ rest) = (None, snd p, rest)) \<and>
      \<not> unhashable (fst p) \<and> \<not> equals_none (fst p)" if p: "p \<in> set kvs" for p
  proof -
    have ok: "plain decls (fst p)" "plain decls (snd p)" "has_type decls k (fst p)" "has_type decls e (snd p)"
      "\<not> equals_none (fst p)"
      using assms(2,3) p by (auto simp: list_all_iff)
    obtain b where key: "fst p = Basic kk b" "basic_ok kk b" using ok(1,3) k by (cases "fst p") auto
    obtain kb vb where enc: "encodeCompactValue lib decls False (fst p) = Inr kb"
      "encodeCompactValue lib decls False (snd p) = Inr vb"
      using encodeCompactValue_total [OF ok(1,3), of False] encodeCompactValue_total [OF ok(2,4), of False] by auto
    have "?ent p = Inr (kb @ vb)" using enc key by (simp add: encodeCompactEntry_def)
    moreover have "\<forall>rest. libDecode lib (zeroValue decls depth (TBasic kk)) (kb @ rest) = (None, fst p, rest)"
      using basic_decoded [OF key(2)] enc(1) key(1) by simp
    moreover have "\<forall>rest. decodeCompactValue lib decls depth fuel True (zeroValue decls depth e) (vb @ rest) = (None, snd p, rest)"
      using assms(1) [OF p] enc(2) zeroValue_has_type [OF assms(4)] by (simp add: decodes_def)
    ultimately show ?thesis using ok(5) key(1) by auto
  qed
  have "encodeCompactMap lib (TBasic kk) (map ?ent kvs) = Inr bs" using bs k by simp
  from entries_decoded [of kvs ?ent decls depth kk "decodeCompactValue lib decls depth fuel True" e bs old rest, OF ent _ this]
  have "decodeCompactMap (decodeCompactValue lib decls depth fuel True) lib decls depth k e old (bs @ rest) =
      (None, Map k e (Some kvs), rest)"
    using assms(2) k by simp
  then show "decodeCompactValue lib decls depth (Suc fuel) True dst (bs @ rest) = (None, Map k e (Some kvs), rest)"
    using c by (simp add: dst decode_other_value)
qed

lemma decodes_basic:
  assumes "plain decls (Basic k b)" and "has_type decls t (Basic k b)"
  shows "decodes decls depth (Suc fuel) addr t (Basic k b)"
  unfolding decodes_def
proof (intro allI impI)
  fix dst bs rest
  assume dst: "has_type decls t dst" and bs: "encodeCompactValue lib decls addr (Basic k b) = Inr bs"
  obtain d where "dst = Basic k d" using dst assms(2) by (cases dst) auto
  moreover obtain c h where "bs = c # h" "c \<noteq> 192"
    using encodeCompactValue_total [OF assms, of addr] bs by auto
  ultimately show "decodeCompactValue lib decls depth (Suc fuel) True dst (bs @ rest) = (None, Basic k b, rest)"
    using basic_decoded [of k b decls addr bs d rest] bs assms(1) by (auto simp: decode_other_value)
qed

text \<open>Every plain value is decoded to itself, given a stack as deep as the value.\<close>

lemma decodes_plain:
  assumes "wf_decls decls depth" and "plain decls v" and "has_type decls t v" and "vdepth v \<le> fuel"
  shows "decodes decls depth fuel addr t v"
  using assms
proof (induction v arbitrary: addr t fuel)
  case (Basic k b)
  then show ?case by (cases fuel) (auto intro!: decodes_basic)
next
  case (Struct n vs)
  obtain fuel' where [simp]: "fuel = Suc fuel'" using Struct.prems(4) by (cases fuel) auto
  have "vdepth v \<le> fuel'" "plain decls v" if "v \<in> set vs" for v
    using Struct.prems(2,4) that foldr_max_le [of "vdepth v" "map vdepth vs"] by (auto simp: list_all_iff)
  then show ?case using Struct.IH Struct.prems(1) by (auto intro!: decodes_struct Struct.prems(2,3))
next
  case (Ptr e x)
  obtain fuel' where fuel: "fuel = Suc fuel'" using Ptr.prems(4) vdepth_pos [of "Ptr e x"] by (cases fuel) auto
  show ?case
  proof (cases x)
    case (Some y)
    then have "decodes decls depth fuel' True e y" using Ptr fuel by simp
    from decodes_pointer [OF this Ptr.prems(1)] show ?thesis using Ptr.prems Some fuel by blast
  qed (use decodes_nil [OF _ Ptr.prems(3) fuel] in simp)
next
  case (Slice e x)
  obtain fuel' where fuel: "fuel = Suc fuel'" using Slice.prems(4) vdepth_pos [of "Slice e x"] by (cases fuel) auto
  show ?case
  proof (cases x)
    case (Some vs)
    have "vdepth v \<le> fuel'" "plain decls v" if "v \<in> set vs" for v
      using Slice.prems(2,4) that foldr_max_le [of "vdepth v" "map vdepth vs"] by (auto simp: list_all_iff Some fuel)
    then have "decodes decls depth fuel' True t v" if "v \<in> set vs" "has_type decls t v" for v t
      using Slice.IH [of vs v] Slice.prems(1) that Some by simp
    from decodes_slice [OF this _ _ Slice.prems(1)] show ?thesis using Slice.prems(2,3) Some fuel by blast
  qed (use decodes_nil [OF _ Slice.prems(3) fuel] in simp)
next
  case (Array e vs)
  obtain fuel' where [simp]: "fuel = Suc fuel'" using Array.prems(4) by (cases fuel) auto
  have "vdepth v \<le> fuel'" "plain decls v" if "v \<in> set vs" for v
    using Array.prems(2,4) that foldr_max_le [of "vdepth v" "map vdepth vs"] by (auto simp: list_all_iff)
  then show ?case using Array.IH Array.prems(1) by (auto intro!: decodes_array Array.prems(2,3))
next
  case (Map k e x)
  obtain fuel' where fuel: "fuel = Suc fuel'" using Map.prems(4) vdepth_pos [of "Map k e x"] by (cases fuel) auto
  show ?case
  proof (cases x)
    case (Some kvs)
    have "decodes decls depth fuel' False e (snd p)" if "p \<in> set kvs" for p
      using Map.IH(2) [of kvs p "snd p"] Map.prems that foldr_max_le [of "vdepth (snd p)" "map (\<lambda>p. vdepth (snd p)) kvs"]
      by (auto simp: list_all_iff Some fuel prod_set_defs)
    from decodes_map [OF this _ _ Map.prems(1)] show ?thesis using Map.prems(2,3) Some fuel by blast
  qed (use decodes_nil [OF _ Map.prems(3) fuel] in simp)
next
  case (Interface n x)
  obtain fuel' where "fuel = Suc fuel'" using Interface.prems(4) by (cases fuel) auto
  then show ?case using decodes_nil [OF _ Interface.prems(3)] Interface.prems(2) by simp
qed simp

section \<open>Messages\<close>

lemma encodeCompactFields_decoded:
  assumes "messageOk decls depth fuel n vs" and "length w < 4294967296"
  shows "\<exists>body. encodeCompactFields lib decls w addr vs [0..<length (st_fields (decls n))] =
      Inr (arrayHeader (Suc (length vs)) @ strHeader (length w) @ bytes_of_string w @ body) \<and>
    decodeCompactInto lib decls depth fuel body (int (length vs)) (newStruct decls depth n) =
      (None, Ptr (TStruct n) (Some (Struct n vs)))"
proof -
  note m = assms(1) [unfolded messageOk_def]
  let ?ts = "map snd (st_fields (decls n))"
  have tys: "list_all2 (has_type decls) ?ts vs" using m by (simp add: list_all2_map1)
  then have len: "length (st_fields (decls n)) = length vs" by (auto dest: list_all2_lengthD)
  obtain ds where ds: "zeroValue decls depth (TStruct n) = Struct n ds" "list_all2 (has_type decls) ?ts ds"
    using zeroValue_has_type [of decls depth "TStruct n"] m
    by (cases "zeroValue decls depth (TStruct n)") (auto simp: list_all2_map1)
  have parts: "decodes decls depth fuel addr t v" if "v \<in> set vs" "has_type decls t v" for v t
    using m that by (auto simp: list_all_iff intro!: decodes_plain)
  have "\<exists>b. encodeCompactValue lib decls addr v = Inr b" if v: "v \<in> set vs" for v
  proof -
    obtain t' where "has_type decls t' v" using v tys by (auto simp: list_all2_conv_all_nth in_set_conv_nth)
    then show ?thesis using encodeCompactValue_total [of decls v t' addr] m v by (auto simp: list_all_iff)
  qed
  then obtain body where body: "writeAll (map (encodeCompactValue lib decls addr) vs) = Inr body"
    using writeAll_total by blast
  have idx: "map (\<lambda>idx. encodeCompactValue lib decls addr (vs ! idx)) [0..<length vs] = map (encodeCompactValue lib decls addr) vs"
    by (rule nth_equalityI) auto
  obtain "is" where "compactFieldIndices decls (TStruct n) = Inr is" using m by auto
  then have "compactFieldIndices decls (TStruct n) = Inr [0..<length (st_fields (decls n))]"
    using compactFieldIndices_all by blast
  moreover have "decodeEach (decodeCompactValue lib decls depth fuel True) ds body = (None, vs, [])"
    using decodeEach_written [OF decodes_parts [OF parts tys ds(2)] body, of "[]"] by simp
  ultimately show ?thesis
    using body m assms(2) len ds(1)
    by (simp add: encodeCompactFields_def encode_array_len encode_string codecErr_def idx decodeCompactInto_def newStruct_def)
qed

end

end
