(* ===== verification/Msgpack_Reference.thy ===== *)
theory Msgpack_Reference
  imports Msgpack_Roundtrip
begin

text \<open>
  A MessagePack encoder and decoder for basic values, strings, byte strings and the headers of arrays and
  maps, written from the format. It satisfies \<open>msgpack_format\<close>, so what the codecs rely on of the
  library can be met.
\<close>

definition refLen :: "byte \<Rightarrow> byte \<Rightarrow> byte \<Rightarrow> bytes \<Rightarrow> string + (int \<times> bytes)" where
  "refLen fixed c16 c32 b =
     (case b of
        [] \<Rightarrow> Inl ''EOF''
      | c # r \<Rightarrow>
          if c = 192 then Inr (-1, r)
          else if fixed \<le> c \<and> c \<le> fixed + 15 then Inr (int (unat (c AND 15)), r)
          else if c = c16 \<and> 2 \<le> length r then Inr (int (unat (Uint16 (take 2 r))), drop 2 r)
          else if c = c32 \<and> 4 \<le> length r then Inr (int (unat (Uint32 (take 4 r))), drop 4 r)
          else Inl ''invalid code'')"

definition refEncodeBasic :: "string \<Rightarrow> basicValue \<Rightarrow> bytes" where
  "refEncodeBasic k b =
     (case b of
        BBool v \<Rightarrow> [if v then 195 else 194]
      | BString s \<Rightarrow> strHeader (length s) @ bytes_of_string s
      | BInt i \<Rightarrow> (if take 1 k = ''u'' then 207 else 211) # PutUint64 (word_of_int i)
      | BFloat bs \<Rightarrow> (if length bs = 8 then 203 else 202) # bs)"

definition refBytes :: "bytes \<Rightarrow> string + (bytes \<times> bytes)" where
  "refBytes b =
     (case b of
        [] \<Rightarrow> Inl ''EOF''
      | c # r \<Rightarrow>
          (case stringLen c r of
             None \<Rightarrow> Inl ''invalid code''
           | Some (n, x) \<Rightarrow> if length x < n then Inl ''EOF'' else Inr (take n x, drop n x)))"

definition refBasic :: "bytes \<Rightarrow> string + (basicValue \<times> bytes)" where
  "refBasic b =
     (case b of
        [] \<Rightarrow> Inl ''EOF''
      | c # r \<Rightarrow>
          if c = 194 \<or> c = 195 then Inr (BBool (c = 195), r)
          else if c = 207 \<and> 8 \<le> length r then Inr (BInt (uint (Uint64 (take 8 r))), drop 8 r)
          else if c = 211 \<and> 8 \<le> length r then Inr (BInt (sint (Uint64 (take 8 r))), drop 8 r)
          else if c = 203 \<and> 8 \<le> length r then Inr (BFloat (take 8 r), drop 8 r)
          else if c = 202 \<and> 4 \<le> length r then Inr (BFloat (take 4 r), drop 4 r)
          else case refBytes b of Inl m \<Rightarrow> Inl m | Inr (s, x) \<Rightarrow> Inr (BString (string_of_bytes s), x))"

definition refDecode :: "goValue \<Rightarrow> bytes \<Rightarrow> string option \<times> goValue \<times> bytes" where
  "refDecode dst b =
     (case dst of
        Basic k d \<Rightarrow>
          (case refBasic b of
             Inl m \<Rightarrow> (Some m, dst, b)
           | Inr (v, r) \<Rightarrow> if basic_ok k v then (None, Basic k v, r) else (Some ''type mismatch'', dst, r))
      | Slice (TBasic k) d \<Rightarrow>
          (case refBytes b of
             Inl m \<Rightarrow> (Some m, dst, b)
           | Inr (s, r) \<Rightarrow> (None, Slice (TBasic k) (Some (map (\<lambda>x. Basic k (BInt (uint x))) s)), r))
      | Interface n d \<Rightarrow>
          (case refBasic b of
             Inl m \<Rightarrow> (Some m, dst, b)
           | Inr (v, r) \<Rightarrow> (None, Interface n (Some (Basic ''string'' v)), r))
      | _ \<Rightarrow> (Some ''unsupported type'', dst, b))"

definition refMsgpack :: msgpack where
  "refMsgpack =
     \<lparr>mc_Nil = 192, mc_IsFixedArray = (\<lambda>c. 144 \<le> c \<and> c \<le> 159), mc_FixedArrayMask = 15, mc_Array16 = 220, mc_Array32 = 221,
      mc_IsFixedString = (\<lambda>c. 160 \<le> c \<and> c \<le> 191), mc_FixedStrMask = 31, mc_Str8 = 217, mc_Str16 = 218, mc_Str32 = 219,
      mc_Bin8 = 196, mc_Bin16 = 197, mc_Bin32 = 198,
      mp_EncodeNil = Inr [192], mp_EncodeArrayLen = (\<lambda>n. Inr (arrayHeader n)), mp_EncodeMapLen = (\<lambda>n. Inr (mapHeader n)),
      mp_EncodeString = (\<lambda>s. Inr (strHeader (length s) @ bytes_of_string s)),
      mp_EncodeBytes = (\<lambda>bs. Inr (binHeader (length bs) @ bs)),
      mp_EncodeValue = (\<lambda>addr v. case v of Basic k b \<Rightarrow> Inr (refEncodeBasic k b) | _ \<Rightarrow> Inl ''unsupported type''),
      mp_Encode = (\<lambda>v. Inl ''unsupported type''),
      mp_PeekCode = (\<lambda>b. case b of [] \<Rightarrow> Inl ''EOF'' | c # _ \<Rightarrow> Inr c),
      mp_DecodeNil = (\<lambda>b. case b of [] \<Rightarrow> Inl ''EOF'' | c # r \<Rightarrow> if c = 192 then Inr r else Inl ''invalid code''),
      mp_DecodeArrayLen = refLen 144 220 221, mp_DecodeMapLen = refLen 128 222 223,
      mp_DecodeString = (\<lambda>b. case refBytes b of Inl m \<Rightarrow> Inl m | Inr (s, r) \<Rightarrow> Inr (string_of_bytes s, r)),
      mp_Skip = (\<lambda>b. case refBasic b of Inl m \<Rightarrow> Inl m | Inr (v, r) \<Rightarrow> Inr r),
      mp_Decode = refDecode\<rparr>"

lemma refLen_array: "n < 4294967296 \<Longrightarrow> refLen 144 220 221 (arrayHeader n @ rest) = Inr (int n, rest)"
  using fixed_array_code [of n] header_codes(1) [of n]
  by (auto simp: refLen_def arrayHeader_def unat_word_of_nat_small simp del: of_nat_add)

lemma fixed_map_code:
  "n < 16 \<Longrightarrow> (128::byte) \<le> word_of_nat (128 + n) \<and> word_of_nat (128 + n) \<le> (143::byte) \<and>
     unat (word_of_nat (128 + n) AND (15::byte)) = n"
proof -
  have "\<forall>n\<in>set [0..<16]. (128::byte) \<le> word_of_nat (128 + n) \<and> word_of_nat (128 + n) \<le> (143::byte) \<and>
     unat (word_of_nat (128 + n) AND (15::byte)) = n"
    by code_simp
  then show "n < 16 \<Longrightarrow> ?thesis" by auto
qed

lemma refLen_map: "n < 4294967296 \<Longrightarrow> refLen 128 222 223 (mapHeader n @ rest) = Inr (int n, rest)"
  using fixed_map_code [of n] header_codes(2) [of n]
  by (auto simp: refLen_def mapHeader_def unat_word_of_nat_small simp del: of_nat_add)

lemma refBytes_header:
  assumes "string_header (length bs) h"
  shows "refBytes (h @ bs @ rest) = Inr (bs, rest)"
proof -
  obtain c h' where "h = c # h'" "stringLen c (h' @ bs @ rest) = Some (length bs, bs @ rest)"
    using stringLen_header [OF assms] by blast
  then show ?thesis by (simp add: refBytes_def)
qed

lemma binHeader_ok: "n < 4294967296 \<Longrightarrow> string_header n (binHeader n)"
  by (simp add: string_header_def binHeader_def)

lemma strHeader_codes:
  assumes "n < 4294967296"
  shows "\<exists>c h. strHeader n = c # h \<and> c \<notin> {192, 194, 195, 202, 203, 207, 211}"
proof -
  have "\<forall>n\<in>set [0..<32]. (word_of_nat (160 + n) :: byte) \<notin> {192, 194, 195, 202, 203, 207, 211}"
    by code_simp
  then have "(word_of_nat (160 + n) :: byte) \<notin> {192, 194, 195, 202, 203, 207, 211}" if "n < 32" using that by auto
  then show ?thesis by (simp add: strHeader_def del: of_nat_add)
qed

lemma int_kinds:
  assumes "basic_ok k (BInt i)"
  shows "if take 1 k = ''u'' then 0 \<le> i \<and> i < 2 ^ 64 else - (2 ^ 63) \<le> i \<and> i < 2 ^ 63"
  using assms by (auto simp: intRange_def split: if_split_asm option.split_asm)

lemma refBasic_encode:
  assumes "basic_ok k b"
  shows "refBasic (refEncodeBasic k b @ rest) = Inr (b, rest) \<and> (\<exists>c h. refEncodeBasic k b = c # h \<and> c \<noteq> 192)"
proof (cases b)
  case (BString t)
  then have n: "length t < 4294967296" using assms by simp
  obtain c h where c: "strHeader (length t) = c # h" "c \<notin> {192, 194, 195, 202, 203, 207, 211}"
    using strHeader_codes [OF n] by blast
  have "refBytes (c # h @ bytes_of_string t @ rest) = Inr (bytes_of_string t, rest)"
    using refBytes_header [of "bytes_of_string t" "c # h" rest] strHeader_ok [OF n] c(1) by simp
  then show ?thesis using BString c by (simp add: refBasic_def refEncodeBasic_def)
next
  case (BInt i)
  have "sint (word_of_int i :: u64) = i" if "- (2 ^ 63) \<le> i" "i < 2 ^ 63"
    using that by (simp add: sint_sbintrunc' signed_take_bit_int_eq_self)
  moreover have "uint (word_of_int i :: u64) = i" if "0 \<le> i" "i < 2 ^ 64"
    using that by (simp add: uint_word_of_int take_bit_int_eq_self)
  ultimately show ?thesis
    using int_kinds [of k i] assms BInt by (cases "take 1 k = ''u''") (simp_all add: refBasic_def refEncodeBasic_def)
qed (use assms in \<open>auto simp: refBasic_def refEncodeBasic_def\<close>)

interpretation ref: msgpack_format refMsgpack
proof
  show "length s < 4294967296 \<Longrightarrow>
      mp_EncodeString refMsgpack s = Inr (strHeader (length s) @ bytes_of_string s)" for s
    by (simp add: refMsgpack_def)
  show "mp_DecodeString refMsgpack (strHeader (length s) @ bytes_of_string s @ rest) = Inr (s, rest)"
    if "length s < 4294967296" for s rest
    using refBytes_header [of "bytes_of_string s" "strHeader (length s)" rest] strHeader_ok [OF that]
    by (simp add: refMsgpack_def)
  show "\<exists>c bs. mp_EncodeValue refMsgpack addr (Basic k b) = Inr (c # bs) \<and> c \<noteq> 192 \<and>
      (\<forall>d rest. mp_Decode refMsgpack (Basic k d) (c # bs @ rest) = (None, Basic k b, rest))"
    if ok: "basic_ok k b" for k b addr
  proof -
    obtain c h where c: "refEncodeBasic k b = c # h" "c \<noteq> 192" using refBasic_encode [OF ok] by blast
    have "refBasic (c # h @ rest) = Inr (b, rest)" for rest using refBasic_encode [OF ok, of rest] c(1) by simp
    then show ?thesis using c ok by (simp add: refMsgpack_def refDecode_def)
  qed
  show "mp_Decode refMsgpack (Slice (TBasic ''uint8'') None) (binHeader (length bs) @ bs @ rest) =
      (None, Slice (TBasic ''uint8'') (Some (map (\<lambda>b. Basic ''uint8'' (BInt (uint b))) bs)), rest)"
    if "length bs < 4294967296" for bs rest
    using refBytes_header [OF binHeader_ok [OF that], of rest] by (simp add: refMsgpack_def refDecode_def)
qed (simp_all add: refMsgpack_def refLen_array refLen_map, simp add: refLen_def)

end
