(* ===== verification/Msgpack_Messages.thy ===== *)
theory Msgpack_Messages
  imports Msgpack_Reference
begin

text \<open>
  Messages through the compact codec: from the sender's message to the receiver's, through the registry and
  through a typed receive; which payloads are accepted; and what happens when the types of the two sides
  differ.
\<close>

lemma compactFieldIndices_length:
  "compactFieldIndices decls (TStruct n) = Inr is \<Longrightarrow> length is = length (st_fields (decls n))"
  by (drule compactFieldIndices_all) simp

lemma encodeCompact_message:
  assumes "methodSets decls n" and "WireNameOf decls (Struct n vs) = Inr w"
    and "msg = Struct n vs \<or> msg = Ptr (TStruct n) (Some (Struct n vs))"
    and "compactFieldIndices decls (TStruct n) = Inr is"
  shows "\<exists>addr. encodeCompact lib decls msg = encodeCompactFields lib decls w addr vs is"
  using assms(2-4) WireNameOf_value_pointer [OF assms(1), of "Some (Struct n vs)" vs]
  by (auto simp: encodeCompact_def)

text \<open>C32. A message whose fields hold plain values, sent as a value or as a pointer, is encoded; the receiver reads its
  wire name from the payload, finds its type in the registry, and decodes exactly the message that was
  sent. A typed receive decodes the same.\<close>

theorem message_roundtrip:
  assumes "msgpack_format lib" and "methodSets decls n" and "messageOk decls depth fuel n vs"
    and "WireNameOf decls (Struct n vs) = Inr w" and "length w < 4294967296"
    and "msg = Struct n vs \<or> msg = Ptr (TStruct n) (Some (Struct n vs))"
  shows "\<exists>payload raw.
    codec_Encode (msgpackCompactCodec lib decls depth fuel) msg = Inr payload \<and>
    newRawMessageFromPayload (msgpackCompactCodec lib decls depth fuel) payload = Inr raw \<and> rm_Wire raw = w \<and>
    decodeRawWithRegistry raw (registryView decls depth (snd (Register decls depth (TStruct n) r))) =
      Inr (Ptr (TStruct n) (Some (Struct n vs))) \<and>
    decodeRawAs (expectedWireName decls depth (TStruct n)) (newStruct decls depth n) raw =
      Inr (Ptr (TStruct n) (Some (Struct n vs)))"
proof -
  obtain "is" where "is": "compactFieldIndices decls (TStruct n) = Inr is" "is = [0..<length (st_fields (decls n))]"
    using assms(3) compactFieldIndices_all unfolding messageOk_def by blast
  obtain addr where enc: "encodeCompact lib decls msg = encodeCompactFields lib decls w addr vs is"
    using encodeCompact_message [OF assms(2,4,6) "is"(1)] by blast
  obtain body where body: "encodeCompact lib decls msg =
      Inr (arrayHeader (Suc (length vs)) @ strHeader (length w) @ bytes_of_string w @ body)"
    "decodeCompactInto lib decls depth fuel body (int (length vs)) (newStruct decls depth n) =
      (None, Ptr (TStruct n) (Some (Struct n vs)))"
    using msgpack_format.encodeCompactFields_decoded [OF assms(1,3,5), of addr] enc "is"(2) by auto
  have "Suc (length vs) < 4294967296" using assms(3) by (simp add: messageOk_def)
  then have env: "decodeCompactEnvelope lib (arrayHeader (Suc (length vs)) @ strHeader (length w) @ bytes_of_string w @ body) =
      Inr (w, CompactBody body (int (length vs)))"
    unfolding msgpack_format.decodeCompactEnvelope_iff [OF assms(1)]
    using arrayHeader_ok [of "Suc (length vs)"] strHeader_ok [OF assms(5)] by auto
  have new: "WireNameOf decls (newStruct decls depth n) = Inr w"
    using WireNameOf_value_pointer [OF assms(2), of "Some (zeroValue decls depth (TStruct n))" vs] assms(4)
    by (simp add: newStruct_def)
  have "reg_message (registryView decls depth (snd (Register decls depth (TStruct n) r))) w = Some (newStruct decls depth n)"
    by (simp add: Register_message [OF _ new] registryView_def reg_message_def map_of_map update_conv')
  moreover have "expectedWireName decls depth (TStruct n) = w"
    by (rule expectedWireName_message [OF _ new]) simp
  ultimately show ?thesis
    using body env
    by (simp add: msgpackCompactCodec_def newRawMessageFromPayload_def decodeRawWithRegistry_def decodeRawAs_def)
qed

text \<open>A message with a list of pairs and an optional struct.\<close>

definition orderTypes :: typeTable where
  "orderTypes n =
     \<lparr>st_pkgPath = ''example.com/shop'', st_name = n,
      st_fields =
        (if n = ''Order'' then
           [(True, TBasic ''string''), (True, TSlice (TStruct ''Item'')), (True, TPtr (TStruct ''Item'')),
            (True, TMap (TBasic ''string'') (TBasic ''int64''))]
         else [(True, TBasic ''uint32''), (True, TSlice (TBasic ''uint8''))]),
      st_valueImplements = [], st_ptrImplements = [], st_valueWireName = None, st_ptrWireName = None,
      st_handles = False\<rparr>"

definition sampleItem :: goValue where
  "sampleItem = Struct ''Item'' [Basic ''uint32'' (BInt 7), Slice (TBasic ''uint8'') (Some [Basic ''uint8'' (BInt 255)])]"

definition sampleOrder :: "goValue list" where
  "sampleOrder =
     [Basic ''string'' (BString ''a''), Slice (TStruct ''Item'') (Some [sampleItem, sampleItem]),
      Ptr (TStruct ''Item'') None,
      Map (TBasic ''string'') (TBasic ''int64'') (Some [(Basic ''string'' (BString ''k''), Basic ''int64'' (BInt (-1)))])]"

lemma orderTypes_ok: "wf_decls orderTypes 1"
  by (simp add: wf_decls_def orderTypes_def)

theorem message_roundtrip_witness:
  "messageOk orderTypes 1 4 ''Order'' sampleOrder \<and>
   (\<exists>payload raw.
      codec_Encode (msgpackCompactCodec refMsgpack orderTypes 1 4) (Struct ''Order'' sampleOrder) = Inr payload \<and>
      newRawMessageFromPayload (msgpackCompactCodec refMsgpack orderTypes 1 4) payload = Inr raw \<and>
      rm_Wire raw = ''am.shop.Order'' \<and>
      decodeRawWithRegistry raw
        (registryView orderTypes 1 (snd (Register orderTypes 1 (TStruct ''Order'') (newRegistry orderTypes 1)))) =
        Inr (Ptr (TStruct ''Order'') (Some (Struct ''Order'' sampleOrder))))"
proof -
  have "\<exists>is. compactFieldIndices orderTypes (TStruct ''Order'') = Inr is"
    by (rule exI [of _ "[0,1,2,3]"]) code_simp
  moreover have "has_type orderTypes (TStruct ''Order'') (Struct ''Order'' sampleOrder)" by code_simp
  moreover have item: "compact (compactInfoFor orderTypes (TStruct ''Item''))" by code_simp
  have "list_all (\<lambda>v. plain orderTypes v \<and> vdepth v \<le> 4) sampleOrder"
    using item by (simp add: sampleOrder_def sampleItem_def intRange_def)
  ultimately have ok: "messageOk orderTypes 1 4 ''Order'' sampleOrder"
    using orderTypes_ok by (simp add: messageOk_def sampleOrder_def)
  have ms: "methodSets orderTypes ''Order''" by code_simp
  have w: "WireNameOf orderTypes (Struct ''Order'' sampleOrder) = Inr ''am.shop.Order''" by code_simp
  show ?thesis
    using message_roundtrip [OF ref.msgpack_format_axioms ms ok w, of "Struct ''Order'' sampleOrder" "newRegistry orderTypes 1"] ok
    by auto
qed

text \<open>C34. The hand-written reader of the envelope accepts exactly the payloads of the format: an array header of
  any of its three forms with at least one element, the header of a string or byte string in any of its
  forms, the name, and the encoded fields, which are the rest of the payload. Everything else is refused.\<close>

theorem compact_envelope_exact:
  assumes "msgpack_format lib"
  shows "decodeCompactEnvelope lib payload = Inr (name, body) \<longleftrightarrow>
    (\<exists>n flds h s. body = CompactBody flds (int n) \<and> array_header (Suc n) h \<and> string_header (length name) s \<and>
       payload = h @ s @ bytes_of_string name @ flds)"
proof (cases body)
  case (CompactBody flds count)
  show ?thesis
    unfolding CompactBody msgpack_format.decodeCompactEnvelope_iff [OF assms]
    by (metis codecBody.inject(2) nat_int of_nat_0_le_iff zero_le_imp_eq_int)
qed (auto simp: decodeCompactEnvelope_def split: option.splits if_splits)

theorem compact_envelope_exact_witness:
  "decodeCompactEnvelope refMsgpack [146, 196, 1, 65, 192] = Inr (''A'', CompactBody [192] 1) \<and>
   (\<exists>n flds h s. CompactBody [192] 1 = CompactBody flds (int n) \<and> array_header (Suc n) h \<and> string_header 1 s \<and>
      [146, 196, 1, 65, 192] = h @ s @ bytes_of_string ''A'' @ flds)"
proof -
  have "decodeCompactEnvelope refMsgpack [146, 196, 1, 65, 192] = Inr (''A'', CompactBody [192] 1)" by code_simp
  then show ?thesis
    using compact_envelope_exact [OF ref.msgpack_format_axioms, of "[146, 196, 1, 65, 192]" "''A''" "CompactBody [192] 1"]
    by simp
qed

text \<open>The field count is checked before anything is decoded: a message that arrives for a type with another number of
  fields, as after a change of the type on one side only, is refused with both counts and leaves the
  destination as it was.\<close>

theorem field_count_mismatch:
  assumes "msgpack_format lib" and "encodeCompact lib decls (Struct n vs) = Inr payload"
    and "compactFieldIndices decls (TStruct n) = Inr is" and "Suc (length is) < 4294967296"
    and "WireNameOf decls (Struct n vs) = Inr w" and "length w < 4294967296"
    and "compactFieldIndices decls' (TStruct m) = Inr js" and "length js \<noteq> length is"
  shows "\<exists>flds. decodeCompactEnvelope lib payload = Inr (w, CompactBody flds (int (length is))) \<and>
    decodeCompactInto lib decls' depth fuel flds (int (length is)) (Ptr (TStruct m) (Some (Struct m ds))) =
      (Some (ErrCompactFieldCount (int (length js)) (int (length is))), Ptr (TStruct m) (Some (Struct m ds)))"
proof -
  have enc: "encodeCompactFields lib decls w False vs is = Inr payload"
    using assms(2,3,5) by (simp add: encodeCompact_def)
  obtain flds where "payload = arrayHeader (Suc (length is)) @ strHeader (length w) @ bytes_of_string w @ flds"
    using enc assms(4,6) msgpack_format.encode_array_len [OF assms(1,4)] msgpack_format.encode_string [OF assms(1,6)]
    by (cases "writeAll (map (\<lambda>idx. encodeCompactValue lib decls False (vs ! idx)) is)")
      (auto simp: encodeCompactFields_def codecErr_def)
  then have "decodeCompactEnvelope lib payload = Inr (w, CompactBody flds (int (length is)))"
    unfolding msgpack_format.decodeCompactEnvelope_iff [OF assms(1)]
    using arrayHeader_ok [OF assms(4)] strHeader_ok [OF assms(6)] by auto
  then show ?thesis using assms(7,8) by (auto simp: decodeCompactInto_def)
qed

theorem field_count_mismatch_witness:
  "\<exists>payload flds. encodeCompact refMsgpack sampleTypes (Struct ''Hello'' [Basic ''string'' (BString ''x'')]) = Inr payload \<and>
     decodeCompactEnvelope refMsgpack payload = Inr (''am.hello.Hello'', CompactBody flds 1) \<and>
     decodeCompactInto refMsgpack orderTypes 1 1 flds 1 (Ptr (TStruct ''Item'') (Some sampleItem)) =
       (Some (ErrCompactFieldCount 2 1), Ptr (TStruct ''Item'') (Some sampleItem))"
proof -
  obtain payload where p: "encodeCompact refMsgpack sampleTypes (Struct ''Hello'' [Basic ''string'' (BString ''x'')]) = Inr payload"
  proof
    show "encodeCompact refMsgpack sampleTypes (Struct ''Hello'' [Basic ''string'' (BString ''x'')]) =
        Inr (146 # 174 # bytes_of_string ''am.hello.Hello'' @ [161, 120])"
      by code_simp
  qed
  have w: "WireNameOf sampleTypes (Struct ''Hello'' [Basic ''string'' (BString ''x'')]) = Inr ''am.hello.Hello''"
    by code_simp
  have i: "compactFieldIndices sampleTypes (TStruct ''Hello'') = Inr [0]" by code_simp
  have j: "compactFieldIndices orderTypes (TStruct ''Item'') = Inr [0, 1]" by code_simp
  show ?thesis
    using field_count_mismatch [OF ref.msgpack_format_axioms p i _ w _ j, of 1 1
        "[Basic ''uint32'' (BInt 7), Slice (TBasic ''uint8'') (Some [Basic ''uint8'' (BInt 255)])]"] p
    by (simp add: sampleItem_def)
qed

text \<open>A field of an interface type with methods cannot be received: the decoder reads any value into a generic type of
  MessagePack, which has no methods, and setting the field to it panics. No caller recovers, so one such
  message ends the process.\<close>

theorem interface_field_panics:
  assumes "msgpack_format lib" and "iface \<noteq> emptyInterface" and "c \<noteq> 192"
    and "mp_Decode lib (Interface emptyInterface None) (c # bs) = (None, Interface emptyInterface (Some v), rest)"
    and "value_Kind v \<notin> {KStruct, KPointer}"
  shows "decodeCompactValue lib decls depth (Suc fuel) True (Interface iface old) (c # bs) =
    (Some (ErrPanic ''reflect.Set: value is not assignable''), Interface iface old, rest)"
proof -
  have "\<not> implements decls v iface" using assms(2,5) by (cases v) auto
  then show ?thesis
    using assms(3,4) msgpack_format.codes(1) [OF assms(1)] msgpack_format.peek_code [OF assms(1)]
    by (simp add: decodeCompactValue.simps libDecode_def setInterface_def)
qed

theorem interface_field_panics_witness:
  "encodeCompactValue refMsgpack orderTypes True (Interface ''fmt.Stringer'' (Some (Basic ''string'' (BString ''x'')))) =
     Inr [161, 120] \<and>
   decodeCompactValue refMsgpack orderTypes 1 1 True (Interface ''fmt.Stringer'' None) [161, 120] =
     (Some (ErrPanic ''reflect.Set: value is not assignable''), Interface ''fmt.Stringer'' None, [])"
proof -
  have e: "encodeCompactValue refMsgpack orderTypes True (Interface ''fmt.Stringer'' (Some (Basic ''string'' (BString ''x'')))) =
     Inr [161, 120]" by code_simp
  have d: "mp_Decode refMsgpack (Interface emptyInterface None) [161, 120] =
      (None, Interface emptyInterface (Some (Basic ''string'' (BString ''x''))), [])"
    by code_simp
  show ?thesis
    using e interface_field_panics [OF ref.msgpack_format_axioms _ _ d, of "''fmt.Stringer''" orderTypes 1 0 None]
    by (simp add: emptyInterface_def)
qed

end
