(* ===== verification/Msgpack_Map.thy ===== *)
theory Msgpack_Map
  imports Msgpack_Reference
begin

text \<open>
  The envelope of the map codec: a map whose entries may come in any order and may include others. The data
  of a message is a slice of the payload, found by skipping over the encoded value.
\<close>

definition strBytes :: "string \<Rightarrow> bytes" where
  "strBytes s = strHeader (length s) @ bytes_of_string s"

datatype mapEntry = TypeEntry string | DataEntry bytes | OtherEntry string bytes

fun entryBytes :: "mapEntry \<Rightarrow> bytes" where
  "entryBytes (TypeEntry w) = strBytes ''type'' @ strBytes w"
| "entryBytes (DataEntry b) = strBytes ''data'' @ b"
| "entryBytes (OtherEntry k b) = strBytes k @ b"

text \<open>An entry is well formed when its strings fit the format and the library can skip its value.\<close>

definition skips :: "msgpack \<Rightarrow> bytes \<Rightarrow> bool" where
  "skips lib b \<longleftrightarrow> (\<forall>rest. mp_Skip lib (b @ rest) = Inr rest)"

fun entryOk :: "msgpack \<Rightarrow> mapEntry \<Rightarrow> bool" where
  "entryOk lib (TypeEntry w) \<longleftrightarrow> length w < 4294967296"
| "entryOk lib (DataEntry b) \<longleftrightarrow> skips lib b"
| "entryOk lib (OtherEntry k b) \<longleftrightarrow> length k < 4294967296 \<and> k \<noteq> ''type'' \<and> k \<noteq> ''data'' \<and> skips lib b"

text \<open>The last entry of each kind counts.\<close>

fun entryEffect :: "mapEntry \<Rightarrow> string \<times> bytes \<Rightarrow> string \<times> bytes" where
  "entryEffect (TypeEntry w) (wire, data) = (w, data)"
| "entryEffect (DataEntry b) (wire, data) = (wire, b)"
| "entryEffect (OtherEntry k b) (wire, data) = (wire, data)"

context msgpack_format begin

lemma decode_strBytes: "length s < 4294967296 \<Longrightarrow> mp_DecodeString lib (strBytes s @ rest) = Inr (s, rest)"
  using decode_string [of s rest] by (simp add: strBytes_def)

lemma decodeMapLoop_step:
  assumes "entryOk lib e" and "payload = pre @ entryBytes e @ rest"
  shows "decodeMapLoop lib payload (Suc n) wire data (entryBytes e @ rest) =
    (let (wire', data') = entryEffect e (wire, data) in decodeMapLoop lib payload n wire' data' rest)"
proof (cases e)
  case (DataEntry b)
  have "go_slice (length payload - length (b @ rest)) (length payload - length rest) payload = b"
    using assms(2) DataEntry by (simp add: go_slice_def)
  then show ?thesis using assms(1) DataEntry by (simp add: decode_strBytes skips_def)
qed (use assms(1) in \<open>simp_all add: decode_strBytes skips_def\<close>)

lemma decodeMapLoop_entries:
  assumes "list_all (entryOk lib) es" and "payload = pre @ concat (map entryBytes es) @ rest"
  shows "decodeMapLoop lib payload (length es) wire data (concat (map entryBytes es) @ rest) =
    Inr (fold entryEffect es (wire, data))"
  using assms
proof (induction es arbitrary: pre wire data)
  case (Cons e es)
  have "decodeMapLoop lib payload (length es) w d (concat (map entryBytes es) @ rest) = Inr (fold entryEffect es (w, d))" for w d
    using Cons.IH [of "pre @ entryBytes e" w d] Cons.prems by simp
  then show ?case
    using decodeMapLoop_step [of e payload pre "concat (map entryBytes es) @ rest" "length es" wire data] Cons.prems
    by (simp add: Let_def split: prod.split)
qed simp

end

text \<open>C35. The map codec finds the type and the data of a message in whatever order the entries come, with any other
  entries between them: the last entry of each name counts, the data is exactly the bytes of the encoded
  value, and a payload without a type is refused.\<close>

theorem map_envelope_any_order:
  assumes "msgpack_format lib" and "list_all (entryOk lib) es" and "length es < 4294967296"
  shows "decodeMapEnvelope lib (mapHeader (length es) @ concat (map entryBytes es) @ rest) =
    (case fold entryEffect es ('''', []) of (wire, data) \<Rightarrow>
       if wire = '''' then Inl (ErrCodec ''map payload missing type'') else Inr (wire, RawMessage data))"
  using msgpack_format.decodeMapLoop_entries
      [OF assms(1,2), of "mapHeader (length es) @ concat (map entryBytes es) @ rest" "mapHeader (length es)" rest "''''" "[]"]
    msgpack_format.decode_map_len [OF assms(1,3), of "concat (map entryBytes es) @ rest"]
  by (simp add: decodeMapEnvelope_def split: prod.split)

theorem map_envelope_any_order_witness:
  "decodeMapEnvelope refMsgpack
     (mapHeader 3 @ concat (map entryBytes [DataEntry [195], OtherEntry ''v'' [194], TypeEntry ''am.hello.Hello'']) @ []) =
   Inr (''am.hello.Hello'', RawMessage [195])"
proof -
  let ?es = "[DataEntry [195], OtherEntry ''v'' [194], TypeEntry ''am.hello.Hello'']"
  have ok: "list_all (entryOk refMsgpack) ?es" by (simp add: skips_def refMsgpack_def refBasic_def)
  show ?thesis using map_envelope_any_order [OF ref.msgpack_format_axioms ok, of "[]"] by (simp add: numeral_3_eq_3)
qed

end
