(* ===== verification/Debug_State.thy ===== *)
theory Debug_State
  imports Recovery_Writer
begin

text \<open>
  The snapshots of \<^verbatim>\<open>src/debug.go\<close>: \<^verbatim>\<open>Connection.DebugState\<close>, \<^verbatim>\<open>Stream.DebugState\<close> and the state of
  recovery. A snapshot reads the connection; the streams are listed in the order of the table.
\<close>

record ConnectionCounters =
  cc_StreamsOpened :: u64
  cc_StreamsClosed :: u64
  cc_DataMessagesSent :: u64
  cc_DataMessagesReceived :: u64
  cc_FramesWritten :: u64
  cc_FramesRead :: u64
  cc_BytesWritten :: u64
  cc_BytesRead :: u64
  cc_ControlFramesWritten :: u64
  cc_ControlFramesRead :: u64
  cc_ProtocolErrors :: u64
  cc_ProtocolErrorReplySendFailure :: u64
  cc_RemoteErrors :: u64
  cc_DecodeErrors :: u64
  cc_HandlerCalls :: u64
  cc_HandlerErrors :: u64
  cc_ReconnectAttempts :: u64
  cc_ReconnectSuccesses :: u64
  cc_ReconnectFailures :: u64
  cc_TransportAttaches :: u64
  cc_TransportDetaches :: u64

record StreamCounters =
  sc_DataMessagesSent :: u64
  sc_DataMessagesReceived :: u64
  sc_ProtocolErrors :: u64
  sc_ProtocolErrorReplySendFailure :: u64
  sc_RemoteErrors :: u64
  sc_DecodeErrors :: u64
  sc_HandlerCalls :: u64
  sc_HandlerErrors :: u64

record StreamDebugState =
  sds_ID :: u32
  sds_Closed :: bool
  sds_LastFailureCode :: DebugFailureCode
  sds_LastFailure :: string
  sds_LastFailureAt :: int
  sds_RecvTimeout :: Duration
  sds_InboxDepth :: nat
  sds_IncomingDepth :: nat
  sds_HandlerQDepth :: nat
  sds_Counters :: StreamCounters

record RecoveryDebugState =
  rds_Role :: string
  rds_ConnectionID :: string
  rds_TransportAttached :: bool
  rds_TransportGen :: u64
  rds_ReconnectActive :: bool
  rds_LastRecvSeq :: u64
  rds_LastAckedSeq :: u64
  rds_AckPending :: u32
  rds_AckDue :: bool
  rds_AckEvery :: u32
  rds_AckDelay :: Duration
  rds_HeartbeatInterval :: Duration
  rds_HeartbeatTimeout :: Duration
  rds_ReplayQueued :: nat
  rds_ReplayBytes :: int
  rds_LiveQueueDepth :: nat
  rds_ResumeQueueDepth :: int

record ConnectionDebugState =
  cds_Closed :: bool
  cds_LastFailureCode :: DebugFailureCode
  cds_LastFailure :: string
  cds_LastFailureAt :: int
  cds_Protocol :: byte
  cds_CodecID :: CodecID
  cds_CodecName :: string
  cds_MaxFrame :: u32
  cds_StreamCount :: nat
  cds_NextSendSeq :: u64
  cds_Counters :: ConnectionCounters
  cds_Streams :: "StreamDebugState list"
  cds_Recovery :: "RecoveryDebugState option"

definition conn_snapshot :: "connectionDebugCounters \<Rightarrow> ConnectionCounters" where
  "conn_snapshot d =
     \<lparr>cc_StreamsOpened = streamsOpened d, cc_StreamsClosed = streamsClosed d,
      cc_DataMessagesSent = dataMessagesSent d, cc_DataMessagesReceived = dataMessagesReceived d,
      cc_FramesWritten = framesWritten d, cc_FramesRead = framesRead d,
      cc_BytesWritten = bytesWritten d, cc_BytesRead = bytesRead d,
      cc_ControlFramesWritten = controlFramesWritten d, cc_ControlFramesRead = controlFramesRead d,
      cc_ProtocolErrors = protocolErrors d, cc_ProtocolErrorReplySendFailure = protocolErrorReplySendFailure d,
      cc_RemoteErrors = remoteErrors d, cc_DecodeErrors = decodeErrors d,
      cc_HandlerCalls = handlerCalls d, cc_HandlerErrors = handlerErrors d,
      cc_ReconnectAttempts = reconnectAttempts d, cc_ReconnectSuccesses = reconnectSuccesses d,
      cc_ReconnectFailures = reconnectFailures d, cc_TransportAttaches = transportAttaches d,
      cc_TransportDetaches = transportDetaches d\<rparr>"

definition stream_snapshot :: "streamDebugCounters \<Rightarrow> StreamCounters" where
  "stream_snapshot d =
     \<lparr>sc_DataMessagesSent = s_dataMessagesSent d, sc_DataMessagesReceived = s_dataMessagesReceived d,
      sc_ProtocolErrors = s_protocolErrors d, sc_ProtocolErrorReplySendFailure = s_protocolErrorReplySendFailure d,
      sc_RemoteErrors = s_remoteErrors d, sc_DecodeErrors = s_decodeErrors d,
      sc_HandlerCalls = s_handlerCalls d, sc_HandlerErrors = s_handlerErrors d\<rparr>"

text \<open>The length of a nil channel is 0.\<close>

definition chanLen :: "'a chan option \<Rightarrow> nat" where
  "chanLen ch = (case ch of None \<Rightarrow> 0 | Some q \<Rightarrow> length (ch_buf q))"

definition stream_debugState :: "('m, 'b, 'h) Stream \<Rightarrow> StreamDebugState" where
  "stream_debugState s =
     (let failure = lastFailure (sd_failure (s_debug s))
      in \<lparr>sds_ID = s_id s, sds_Closed = s_closed s, sds_LastFailureCode = fr_code failure,
          sds_LastFailure = fr_reason failure, sds_LastFailureAt = fr_at failure,
          sds_RecvTimeout = s_recvTimeoutNanos s, sds_InboxDepth = length (ch_buf (s_inbox s)),
          sds_IncomingDepth = chanLen (s_incoming s), sds_HandlerQDepth = chanLen (s_handlerCh s),
          sds_Counters = stream_snapshot (s_debug s)\<rparr>)"

fun role_String :: "recoveryRole \<Rightarrow> string" where
  "role_String recoveryRoleClient = ''client''"
| "role_String recoveryRoleServer = ''server''"

text \<open>\<^verbatim>\<open>hex.EncodeToString\<close>.\<close>

definition hexDigit :: "nat \<Rightarrow> char" where
  "hexDigit n = ''0123456789abcdef'' ! n"

definition hexString :: "bytes \<Rightarrow> string" where
  "hexString bs = concat (map (\<lambda>b. [hexDigit (unat b div 16), hexDigit (unat b mod 16)]) bs)"

definition recovery_debugState :: "('m, 'b, 'h) Connection \<Rightarrow> recoveryState \<Rightarrow> RecoveryDebugState" where
  "recovery_debugState c r =
     \<lparr>rds_Role = role_String (r_role r), rds_ConnectionID = hexString (r_connectionID r),
      rds_TransportAttached = (c_conn c \<noteq> None), rds_TransportGen = c_transportGen c,
      rds_ReconnectActive = r_reconnectActive r, rds_LastRecvSeq = r_lastRecvSeq r,
      rds_LastAckedSeq = lastAckedSeq (r_replay r), rds_AckPending = r_ackPending r, rds_AckDue = r_ackDue r,
      rds_AckEvery = r_ackEvery r, rds_AckDelay = r_ackDelayNanos r, rds_HeartbeatInterval = r_heartbeatIntv r,
      rds_HeartbeatTimeout = r_heartbeatTO r, rds_ReplayQueued = replayCount (r_replay r),
      rds_ReplayBytes = bytesUsed (r_replay r), rds_LiveQueueDepth = length (ch_buf (c_outbound c)),
      rds_ResumeQueueDepth = r_resumeDepth r\<rparr>"

definition conn_DebugState ::
    "('m, 'b) CodecImpl codecRegistry \<Rightarrow> ('m, 'b, 'h) Connection \<Rightarrow> ConnectionDebugState" where
  "conn_DebugState codecs c =
     (let failure = lastFailure (cd_failure (c_debug c))
      in \<lparr>cds_Closed = c_closed c, cds_LastFailureCode = fr_code failure, cds_LastFailure = fr_reason failure,
          cds_LastFailureAt = fr_at failure, cds_Protocol = cfg_version (c_config c),
          cds_CodecID = cfg_codecID (c_config c),
          cds_CodecName = CodecID_String codec_Name codecs (cfg_codecID (c_config c)),
          cds_MaxFrame = cfg_maxFrame (c_config c), cds_StreamCount = length (c_streams c),
          cds_NextSendSeq = c_nextSendSeq c, cds_Counters = conn_snapshot (c_debug c),
          cds_Streams = map (\<lambda>(_, ref). stream_debugState (c_heap c ! ref)) (c_streams c),
          cds_Recovery = map_option (recovery_debugState c) (c_recovery c)\<rparr>)"

text \<open>A snapshot of a connection in any state that stream and transport operations lead to is consistent: it
  lists every stream of the table once, under its id; the count of streams is the difference of the
  counters; and a closed connection has no streams.\<close>

lemma debug_state_consistent:
  fixes c :: "('m, 'b, 'h) Connection"
  assumes "streams_ok c"
  shows "map sds_ID (cds_Streams (conn_DebugState codecs c)) = map fst (c_streams c) \<and>
    distinct (map sds_ID (cds_Streams (conn_DebugState codecs c))) \<and>
    cds_StreamCount (conn_DebugState codecs c) = length (cds_Streams (conn_DebugState codecs c)) \<and>
    cc_StreamsOpened (cds_Counters (conn_DebugState codecs c)) - cc_StreamsClosed (cds_Counters (conn_DebugState codecs c)) =
      of_nat (cds_StreamCount (conn_DebugState codecs c)) \<and>
    (cds_Closed (conn_DebugState codecs c) \<longrightarrow> cds_StreamCount (conn_DebugState codecs c) = 0)"
proof -
  have ids: "map sds_ID (cds_Streams (conn_DebugState codecs c)) = map fst (c_streams c)"
    using assms by (auto simp: conn_DebugState_def stream_debugState_def Let_def streams_ok_def split: prod.split)
  moreover have "distinct (map sds_ID (cds_Streams (conn_DebugState codecs c)))"
    unfolding ids using assms by (simp add: streams_ok_def)
  ultimately show ?thesis
    using assms by (auto simp: conn_DebugState_def conn_snapshot_def Let_def streams_ok_def)
qed

text \<open>C27. A snapshot of a connection is consistent, whatever sequence of stream and transport operations led to its
  state: it lists every stream of the table exactly once, its count of streams is the difference of its
  two counters, and a closed connection has none.\<close>

theorem debug_snapshot_consistent:
  fixes c :: "('m, 'b, 'h) Connection"
  assumes "conn_step\<^sup>*\<^sup>* (newPendingConnection conn reg onNew onClose) c"
  shows "map sds_ID (cds_Streams (conn_DebugState codecs c)) = map fst (c_streams c) \<and>
    distinct (map sds_ID (cds_Streams (conn_DebugState codecs c))) \<and>
    cds_StreamCount (conn_DebugState codecs c) = length (cds_Streams (conn_DebugState codecs c)) \<and>
    cc_StreamsOpened (cds_Counters (conn_DebugState codecs c)) - cc_StreamsClosed (cds_Counters (conn_DebugState codecs c)) =
      of_nat (cds_StreamCount (conn_DebugState codecs c)) \<and>
    (cds_Closed (conn_DebugState codecs c) \<longrightarrow> cds_StreamCount (conn_DebugState codecs c) = 0)"
proof -
  from assms have "streams_ok c"
    by (induction rule: rtranclp_induct) (auto simp: newPendingConnection_ok intro: conn_step_ok)
  then show ?thesis by (rule debug_state_consistent)
qed

definition oneStream :: "(unit, unit, unit) Connection" where
  "oneStream = snd (NewStream 0 (newPendingConnection 1 \<lparr>rt_handlers = [], rt_messages = []\<rparr> True True))"

theorem debug_snapshot_consistent_witness:
  "cds_StreamCount (conn_DebugState Map.empty oneStream) = 1 \<and>
   map sds_ID (cds_Streams (conn_DebugState Map.empty oneStream)) = [1] \<and>
   cc_StreamsOpened (cds_Counters (conn_DebugState Map.empty oneStream)) -
     cc_StreamsClosed (cds_Counters (conn_DebugState Map.empty oneStream)) = 1"
proof -
  have "conn_step\<^sup>*\<^sup>* (newPendingConnection 1 \<lparr>rt_handlers = [], rt_messages = []\<rparr> True True) oneStream"
    unfolding oneStream_def by (rule r_into_rtranclp, rule step_new)
  note consistent = debug_snapshot_consistent [OF this, of Map.empty]
  have "map fst (c_streams oneStream) = [1]" by code_simp
  then have "map sds_ID (cds_Streams (conn_DebugState Map.empty oneStream)) = [1]" using consistent by simp
  moreover from this have "length (cds_Streams (conn_DebugState Map.empty oneStream)) = 1"
    using arg_cong [of _ _ length] by fastforce
  ultimately show ?thesis using consistent by simp
qed

text \<open>\<^verbatim>\<open>NextSendSeq\<close> of a snapshot is the number of the frame that was staged last, not the next one: the next
  frame is staged under the number after it.\<close>

theorem next_send_seq_is_last:
  assumes "w_stage now frame (w, c) = (Some rec1, (w', c'))"
  shows "f_seq rec1 = cds_NextSendSeq (conn_DebugState codecs c) + 1 \<and>
    cds_NextSendSeq (conn_DebugState codecs c') = f_seq rec1"
proof -
  obtain r where r: "c_recovery c = Some r" using assms by (cases "c_recovery c") (auto simp: w_stage_def)
  obtain rc held e b where st: "stage (r_replay r) frame (c_nextSendSeq c + 1) = (rc, held, e, b)"
    by (metis prod_cases4)
  have *: "\<not> held" "e = None" "rc = Some rec1" "c' = sendVerdict (of_queued frame) None
      (c\<lparr>c_recovery := Some (r\<lparr>r_replay := b\<rparr>), c_nextSendSeq := c_nextSendSeq c + 1\<rparr>)"
    using assms by (auto simp: w_stage_def r st Let_def split: if_split_asm option.split_asm)
  have "f_seq rec1 = c_nextSendSeq c + 1"
    using st * by (auto simp: stage_def Let_def split: if_split_asm)
  then show ?thesis
    using *(4) by (simp add: conn_DebugState_def Let_def)
qed

theorem next_send_seq_is_last_witness:
  "\<exists>rec1 w' c'. w_stage 0 smallFrame sampleWriter = (Some rec1, (w', c')) \<and>
     f_seq rec1 = cds_NextSendSeq (conn_DebugState Map.empty (snd sampleWriter)) + 1 \<and>
     cds_NextSendSeq (conn_DebugState Map.empty c') = f_seq rec1"
proof -
  have "fst (w_stage 0 smallFrame sampleWriter) \<noteq> None" by code_simp
  then obtain rec1 w' c' where "w_stage 0 smallFrame (fst sampleWriter, snd sampleWriter) = (Some rec1, (w', c'))"
    by (metis not_None_eq prod.collapse)
  from next_send_seq_is_last [OF this, of Map.empty] this show ?thesis by simp
qed

end
