(* ===== verification/Conn_Api.thy ===== *)
theory Conn_Api
  imports Client
begin

text \<open>
  The methods of \<^verbatim>\<open>Connection\<close> that act on the default stream (\<^verbatim>\<open>src/connection.go\<close>) and the methods of \<^verbatim>\<open>Stream\<close>
  behind them (\<^verbatim>\<open>src/stream.go\<close>): the stream is made at the first use and kept, so that all of them speak of one
  stream, with id 0. \<^verbatim>\<open>Stream.Send\<close>, \<^verbatim>\<open>SendRecv\<close> and \<^verbatim>\<open>PeekWire\<close> are \<open>sendBoxed\<close>, \<open>sendRecvAs\<close> and \<open>peekWire\<close>.
\<close>

section \<open>Operations\<close>

definition conn_Send ::
    "int \<Rightarrow> (('m, 'b, 'h) Connection \<Rightarrow> ('m, 'b, 'h) Connection) \<Rightarrow> 'm \<Rightarrow>
     ('m, 'b, 'h) Connection \<Rightarrow> (go_error option \<times> ('m, 'b, 'h) Connection) outcomes" where
  "conn_Send now env msg c = (case defaultStream c of (ref, c1) \<Rightarrow> sendBoxed now env ref msg c1)"

definition conn_Recv ::
    "int \<Rightarrow> (('m, 'b, 'h) Connection \<Rightarrow> ('m, 'b, 'h) Connection) \<Rightarrow> (string \<Rightarrow> string \<Rightarrow> 'm) \<Rightarrow>
     ('m \<Rightarrow> string) \<Rightarrow> 'm recvTarget \<Rightarrow> ('m, 'b, 'h) Connection \<Rightarrow>
     ('m result \<times> ('m, 'b, 'h) Connection) outcomes" where
  "conn_Recv now env errorReply wireNameForValue target c =
     (case defaultStream c of (ref, c1) \<Rightarrow> Recv now env errorReply wireNameForValue target ref c1)"

definition conn_PeekWire ::
    "int \<Rightarrow> ('m, 'b, 'h) Connection \<Rightarrow> (string result \<times> ('m, 'b, 'h) Connection) outcomes" where
  "conn_PeekWire now c = (case defaultStream c of (ref, c1) \<Rightarrow> peekWire now ref c1)"

definition stream_SetRecvTimeout ::
    "Duration \<Rightarrow> streamRef \<Rightarrow> ('m, 'b, 'h) Connection \<Rightarrow> ('m, 'b, 'h) Connection" where
  "stream_SetRecvTimeout timeout ref c = updStream ref (setRecvTimeout timeout) c"

definition conn_SetRecvTimeout :: "Duration \<Rightarrow> ('m, 'b, 'h) Connection \<Rightarrow> ('m, 'b, 'h) Connection" where
  "conn_SetRecvTimeout timeout c = (case defaultStream c of (ref, c1) \<Rightarrow> stream_SetRecvTimeout timeout ref c1)"

text \<open>\<^verbatim>\<open>WaitClosed\<close> receives from \<^verbatim>\<open>closeCh\<close>, which is closed with the connection.\<close>

definition WaitClosed :: "('m, 'b, 'h) Connection \<Rightarrow> unit outcomes" where
  "WaitClosed c = (if c_closed c then [()] else [])"

section \<open>Lemmas\<close>

text \<open>The default stream is made once.\<close>

lemma defaultStream_stable: "defaultStream c = (ref, c1) \<Longrightarrow> defaultStream c1 = (ref, c1)"
  by (auto simp: defaultStream_def split: option.splits prod.splits)

text \<open>On an open connection it is stream 0, and it is on the heap.\<close>

lemma defaultStream_fresh:
  assumes "streams_ok c" "\<not> c_closed c" "c_defaultStreamView c = None" "defaultStream c = (ref, c1)"
  shows "ref < length (c_heap c1)" "s_id (c_heap c1 ! ref) = defaultStreamID"
    "c_outbound c1 = c_outbound c" "c_config c1 = c_config c" "c_recovery c1 = c_recovery c"
  using assms streams_ok_entry(1,2) [OF assms(1)]
  by (auto simp: defaultStream_def streamForID_def getStreamCtx_def newStreamCtx_def setRecvTimeout_def startStream_def Let_def
      nth_append split: option.splits if_splits)

text \<open>The first \<^verbatim>\<open>Send\<close> of a version 2 connection queues one frame of stream 0, and nothing when it fails.\<close>

lemma conn_Send_queues:
  assumes "streams_ok c" "\<not> c_closed c" "c_defaultStreamView c = None" "\<not> isRecoveryEnabled c"
    and "(err, c') \<in> set (conn_Send now (\<lambda>c. c) msg c)"
  shows "ch_buf (c_outbound c') = ch_buf (c_outbound c) \<or>
    (err = None \<and> (\<exists>p. encodeMessage msg c = Inr p \<and> ch_buf (c_outbound c') = ch_buf (c_outbound c) @
      [\<lparr>of_streamID = defaultStreamID, of_seq = 0, of_flags = 0, of_payload = p, of_queued = None, of_closing = None\<rparr>]))"
proof -
  obtain ref c1 where d: "defaultStream c = (ref, c1)" by (metis prod.exhaust)
  note f = defaultStream_fresh [OF assms(1-3) d]
  have "encodeMessage msg c1 = encodeMessage msg c" unfolding encodeMessage_def f(4) ..
  moreover have "\<not> isRecoveryEnabled c1" using assms(4) f(4,5) by (simp add: isRecoveryEnabled_def)
  ultimately show ?thesis
    using send_queue [of c1 err c' now ref msg] assms(5) d f by (cases err) (auto simp: conn_Send_def)
qed

text \<open>The timeout holds for every later receive on the connection: with one set and nothing to read, \<^verbatim>\<open>PeekWire\<close> can end
  with the timeout; without one, it waits.\<close>

lemma conn_timeout_applies:
  assumes "streams_ok c" "\<not> c_closed c" "c_defaultStreamView c = None"
  obtains ref where "defaultStream (conn_SetRecvTimeout t c) = (ref, conn_SetRecvTimeout t c)"
    "s_recvTimeoutNanos (c_heap (conn_SetRecvTimeout t c) ! ref) = max 0 t"
proof -
  obtain ref c1 where d: "defaultStream c = (ref, c1)" by (metis prod.exhaust)
  note f = defaultStream_fresh [OF assms d]
  have "c_defaultStreamView c1 = Some ref" using d by (auto simp: defaultStream_def split: option.splits prod.splits)
  then have "defaultStream (conn_SetRecvTimeout t c) = (ref, conn_SetRecvTimeout t c)"
    using d by (simp add: conn_SetRecvTimeout_def stream_SetRecvTimeout_def defaultStream_def updStream_def)
  moreover have "s_recvTimeoutNanos (c_heap (conn_SetRecvTimeout t c) ! ref) = max 0 t"
    using d f(1) by (simp add: conn_SetRecvTimeout_def stream_SetRecvTimeout_def updStream_nth setRecvTimeout_def)
  ultimately show thesis by (rule that)
qed

text \<open>On a closed connection every call ends with \<^verbatim>\<open>ErrClosed\<close>, and nothing is queued.\<close>

lemma closed_conn_refuses:
  assumes "c_closed c" "c_defaultStreamView c = None"
  shows "(err, c') \<in> set (conn_Send now env msg c) \<Longrightarrow> err = Some ErrClosed \<and> c_outbound c' = c_outbound c"
    and "(res, c') \<in> set (conn_PeekWire now c) \<Longrightarrow> res = Inl ErrClosed"
    and "(res', c') \<in> set (conn_Recv now env errorReply wireNameForValue target c) \<Longrightarrow> res' = Inl ErrClosed"
  using assms
  by (auto simp: conn_Send_def conn_PeekWire_def conn_Recv_def defaultStream_def streamForID_def getStreamCtx_def closedStream_def
      sendBoxed_def peekWire_def peekRaw_def Recv_def recvRaw_def recvGuard_def takeRaw_def readRaw_def updStream_def
      ch_close_def make_chan_def nth_append Let_def)

end
