(* ===== verification/Amgen_Names.thy ===== *)
theory Amgen_Names
  imports Errors
begin

text \<open>
  The naming rules of the code generator, \<^verbatim>\<open>src/cmd/amgen-go/main.go\<close>: identifiers, keywords, snake case and
  quoting. Names are strings of ASCII characters, where bytes and runes agree; a name with any other
  character is no Rust identifier.
\<close>

definition code :: "char \<Rightarrow> nat" where
  "code c = of_char c"

definition IsUpper :: "char \<Rightarrow> bool" where
  "IsUpper c \<longleftrightarrow> 65 \<le> code c \<and> code c \<le> 90"

definition IsLower :: "char \<Rightarrow> bool" where
  "IsLower c \<longleftrightarrow> 97 \<le> code c \<and> code c \<le> 122"

definition IsDigit :: "char \<Rightarrow> bool" where
  "IsDigit c \<longleftrightarrow> 48 \<le> code c \<and> code c \<le> 57"

definition IsLetter :: "char \<Rightarrow> bool" where
  "IsLetter c \<longleftrightarrow> IsUpper c \<or> IsLower c"

definition ToLower :: "char \<Rightarrow> char" where
  "ToLower c = (if IsUpper c then char_of (code c + 32) else c)"

definition IsExported :: "string \<Rightarrow> bool" where
  "IsExported name \<longleftrightarrow> (case name of [] \<Rightarrow> False | c # _ \<Rightarrow> IsUpper c)"

definition isRustIdent :: "string \<Rightarrow> bool" where
  "isRustIdent name \<longleftrightarrow>
     (case name of
        [] \<Rightarrow> False
      | c # cs \<Rightarrow>
          code c \<le> 127 \<and> (c = CHR ''_'' \<or> IsLetter c) \<and>
          list_all (\<lambda>r. code r \<le> 127 \<and> (r = CHR ''_'' \<or> IsLetter r \<or> IsDigit r)) cs)"

definition isValidCrateName :: "string \<Rightarrow> bool" where
  "isValidCrateName name \<longleftrightarrow>
     (case name of
        [] \<Rightarrow> False
      | c # cs \<Rightarrow>
          \<not> IsDigit c \<and>
          list_all (\<lambda>r. code r \<le> 127 \<and> (r = CHR ''-'' \<or> r = CHR ''_'' \<or> IsLetter r \<or> IsDigit r)) name)"

definition rustKeywords :: "string list" where
  "rustKeywords =
     [''as'', ''break'', ''const'', ''continue'', ''crate'', ''else'', ''enum'', ''extern'',
      ''false'', ''fn'', ''for'', ''if'', ''impl'', ''in'', ''let'', ''loop'', ''match'', ''mod'',
      ''move'', ''mut'', ''pub'', ''ref'', ''return'', ''self'', ''Self'', ''static'', ''struct'',
      ''super'', ''trait'', ''true'', ''type'', ''unsafe'', ''use'', ''where'', ''while'',
      ''async'', ''await'', ''dyn'', ''abstract'', ''become'', ''box'', ''do'', ''final'',
      ''macro'', ''override'', ''priv'', ''typeof'', ''unsized'', ''virtual'', ''yield'', [CHR ''t'', CHR ''r'', CHR ''y'']]"

definition isRustKeyword :: "string \<Rightarrow> bool" where
  "isRustKeyword name \<longleftrightarrow> name \<in> set rustKeywords"

text \<open>The loop of \<^verbatim>\<open>toSnake\<close>, with the rune before and the runes from the current one on.\<close>

fun snakeLoop :: "char option \<Rightarrow> string \<Rightarrow> string" where
  "snakeLoop prev [] = []"
| "snakeLoop prev (r # rest) =
     (if r = CHR ''_'' then r # snakeLoop (Some r) rest
      else if IsUpper r then
        (let nextLower = (case rest of [] \<Rightarrow> False | n # _ \<Rightarrow> IsLower n)
         in (case prev of
               None \<Rightarrow> []
             | Some p \<Rightarrow> if IsLower p \<or> IsDigit p \<or> (IsUpper p \<and> nextLower) then ''_'' else [])
            @ ToLower r # snakeLoop (Some r) rest)
      else r # snakeLoop (Some r) rest)"

definition toSnake :: "string \<Rightarrow> string" where
  "toSnake input = snakeLoop None input"

text \<open>The verb \<^verbatim>\<open>%q\<close>: a double-quoted literal.\<close>

definition quoteChar :: "char \<Rightarrow> string" where
  "quoteChar c =
     (if c = CHR 0x22 then [CHR 0x5C, CHR 0x22]
      else if c = CHR 0x5C then [CHR 0x5C, CHR 0x5C]
      else if c = CHR 0x0A then [CHR 0x5C, CHR ''n'']
      else if c = CHR 0x09 then [CHR 0x5C, CHR ''t'']
      else if c = CHR 0x0D then [CHR 0x5C, CHR ''r'']
      else if c = CHR 0x07 then [CHR 0x5C, CHR ''a'']
      else if c = CHR 0x08 then [CHR 0x5C, CHR ''b'']
      else if c = CHR 0x0C then [CHR 0x5C, CHR ''f'']
      else if c = CHR 0x0B then [CHR 0x5C, CHR ''v'']
      else if code c < 32 \<or> code c = 127
        then [CHR 0x5C, CHR ''x'', ''0123456789abcdef'' ! (code c div 16), ''0123456789abcdef'' ! (code c mod 16)]
      else [c])"

definition quoted :: "string \<Rightarrow> string" where
  "quoted s = [CHR 0x22] @ concat (map quoteChar s) @ [CHR 0x22]"

section \<open>Lemmas\<close>

lemma ToLower_letter: "IsUpper c \<Longrightarrow> IsLower (ToLower c)"
  by (simp add: ToLower_def IsUpper_def IsLower_def code_def of_char_of)

lemma IsLower_not_upper [simp]: "IsLower c \<Longrightarrow> \<not> IsUpper c"
  by (simp add: IsLower_def IsUpper_def)

lemma letters_ascii: "IsLetter c \<Longrightarrow> code c \<le> 127" "IsDigit c \<Longrightarrow> code c \<le> 127"
  by (auto simp: IsLetter_def IsLower_def IsUpper_def IsDigit_def)

lemma underscore_char [simp]: "\<not> IsUpper (CHR ''_'')" "\<not> IsLower (CHR ''_'')" "\<not> IsDigit (CHR ''_'')" "code (CHR ''_'') = 95"
  by (simp_all add: IsUpper_def IsLower_def IsDigit_def code_def)

definition identChar :: "char \<Rightarrow> bool" where
  "identChar c \<longleftrightarrow> c = CHR ''_'' \<or> IsLetter c \<or> IsDigit c"

lemma letter_not_digit [simp]: "IsLetter c \<Longrightarrow> \<not> IsDigit c"
  by (auto simp: IsLetter_def IsLower_def IsUpper_def IsDigit_def)

lemma identChar_ascii: "code c \<le> 127 \<and> (c = CHR ''_'' \<or> IsLetter c \<or> IsDigit c) \<longleftrightarrow> identChar c"
  using letters_ascii [of c] underscore_char(4) by (auto simp: identChar_def)

lemma identChar_first: "code c \<le> 127 \<and> (c = CHR ''_'' \<or> IsLetter c) \<longleftrightarrow> identChar c \<and> \<not> IsDigit c"
  using identChar_ascii [of c] letters_ascii(1) [of c] by (auto simp: identChar_def)

lemma isRustIdent_iff:
  "isRustIdent name \<longleftrightarrow> name \<noteq> [] \<and> list_all identChar name \<and> \<not> IsDigit (hd name)"
proof (cases name)
  case (Cons c cs)
  then show ?thesis
    unfolding isRustIdent_def by (simp only: identChar_ascii identChar_first conj_assoc [symmetric] list.case) auto
qed (simp add: isRustIdent_def)

lemma snakeLoop_chars:
  "list_all identChar s \<Longrightarrow> list_all (\<lambda>c. identChar c \<and> \<not> IsUpper c) (snakeLoop prev s)"
proof (induction prev s rule: snakeLoop.induct)
  case (2 prev r rest)
  then show ?case
    using ToLower_letter [of r]
    by (auto simp: identChar_def IsLetter_def Let_def split: option.split)
qed simp

lemma snakeLoop_lower: "list_all (\<lambda>c. \<not> IsUpper c) s \<Longrightarrow> snakeLoop prev s = s"
  by (induction prev s rule: snakeLoop.induct) auto

text \<open>Snake case: an identifier stays one, without upper-case letters, and converting again changes nothing.\<close>

lemma toSnake_ident:
  assumes "isRustIdent name"
  shows "isRustIdent (toSnake name)" "list_all (\<lambda>c. \<not> IsUpper c) (toSnake name)" "toSnake (toSnake name) = toSnake name"
proof -
  have chars: "list_all (\<lambda>c. identChar c \<and> \<not> IsUpper c) (toSnake name)"
    using assms snakeLoop_chars by (simp add: toSnake_def isRustIdent_iff)
  then show lower: "list_all (\<lambda>c. \<not> IsUpper c) (toSnake name)" by (simp add: list_all_iff)
  then show "toSnake (toSnake name) = toSnake name" using snakeLoop_lower by (simp add: toSnake_def)
  obtain c cs where name: "name = c # cs" "\<not> IsDigit c" using assms by (cases name) (auto simp: isRustIdent_iff)
  then have "toSnake name \<noteq> [] \<and> \<not> IsDigit (hd (toSnake name))"
    using ToLower_letter [of c] by (auto simp: toSnake_def IsLower_def IsDigit_def)
  then show "isRustIdent (toSnake name)" using chars by (auto simp: isRustIdent_iff list_all_iff)
qed

end
