(* ===== verification/Amgen_Render.thy ===== *)
theory Amgen_Render
  imports Amgen_Names
begin

text \<open>
  The code generator of \<^verbatim>\<open>src/cmd/amgen-go/main.go\<close>: from the declarations of a Go file to the text of a Rust
  file. The Go parser is the standard library's; a file is its syntax tree. A string literal of the tree
  is its value: a literal that was parsed can be unquoted. A tag is the value of its literal.
\<close>

section \<open>Syntax trees\<close>

datatype tokenKind = TokString | TokInt | TokOther

datatype expr =
    Ident string
  | StarExpr expr
  | ArrayType "expr option" expr
  | MapType expr expr
  | SelectorExpr
  | StructType "fieldDecl list"
  | InterfaceType
  | FuncType
  | ChanType
  | ParenExpr expr
  | BasicLit tokenKind string
  | OtherExpr
and fieldDecl = Field (fd_Names: "string list") (fd_Type: expr) (fd_Tag: "string option")

datatype stmt = ReturnStmt "expr list" | OtherStmt

datatype decl =
    TypeDecl "(string \<times> expr) list"
  | ConstDecl "(string list \<times> expr list) list"
  | OtherGenDecl
  | FuncDecl string "expr list option" "stmt list option"

record typeDef =
  td_name :: string
  td_spec :: expr
  td_wire :: string

record typeOutput =
  to_text :: string
  to_usesMap :: bool

section \<open>Declarations\<close>

fun collectTypeDefs :: "decl list \<Rightarrow> typeDef list" where
  "collectTypeDefs [] = []"
| "collectTypeDefs (TypeDecl specs # ds) =
     map (\<lambda>(n, e). \<lparr>td_name = n, td_spec = e, td_wire = ''''\<rparr>) specs @ collectTypeDefs ds"
| "collectTypeDefs (d # ds) = collectTypeDefs ds"

fun unparen :: "expr \<Rightarrow> expr" where
  "unparen (ParenExpr e) = unparen e"
| "unparen e = e"

fun stringLit :: "expr option \<Rightarrow> string option" where
  "stringLit (Some (BasicLit TokString v)) = Some v"
| "stringLit e = None"

text \<open>The string constants of the file: a name without a value of its own gets none.\<close>

fun stringConsts :: "decl list \<Rightarrow> (string \<times> string) list" where
  "stringConsts [] = []"
| "stringConsts (ConstDecl specs # ds) =
     concat (map (\<lambda>(names, values).
       concat (map (\<lambda>(n, e). case stringLit (Some e) of None \<Rightarrow> [] | Some v \<Rightarrow> [(n, v)]) (zip names values))) specs)
     @ stringConsts ds"
| "stringConsts (d # ds) = stringConsts ds"

definition lookupLast :: "(string \<times> string) list \<Rightarrow> string \<Rightarrow> string option" where
  "lookupLast kvs k = map_of (rev kvs) k"

definition receiverName :: "expr \<Rightarrow> string option" where
  "receiverName recv =
     (case (case unparen recv of StarExpr x \<Rightarrow> unparen x | e \<Rightarrow> e) of Ident n \<Rightarrow> Some n | _ \<Rightarrow> None)"

definition wireResult :: "stmt list option \<Rightarrow> expr option" where
  "wireResult body = (case body of Some [ReturnStmt [e]] \<Rightarrow> Some (unparen e) | _ \<Rightarrow> None)"

fun wireNameLoop :: "(string \<times> string) list \<Rightarrow> decl list \<Rightarrow> (string \<times> string) list \<Rightarrow> string + (string \<times> string) list" where
  "wireNameLoop consts [] wires = Inr wires"
| "wireNameLoop consts (FuncDecl name recv body # ds) wires =
     (case (if name = ''WireName'' then recv else None) of
        Some [r] \<Rightarrow>
          (case receiverName r of
             None \<Rightarrow> wireNameLoop consts ds wires
           | Some typeName \<Rightarrow>
               (case (case stringLit (wireResult body) of
                        Some w \<Rightarrow> Some w
                      | None \<Rightarrow> (case wireResult body of Some (Ident c) \<Rightarrow> lookupLast consts c | _ \<Rightarrow> None)) of
                  None \<Rightarrow>
                    Inl (typeName @ ''.WireName must return a string literal or a string constant declared in the same file'')
                | Some wire \<Rightarrow> wireNameLoop consts ds (wires @ [(typeName, wire)])))
      | _ \<Rightarrow> wireNameLoop consts ds wires)"
| "wireNameLoop consts (d # ds) wires = wireNameLoop consts ds wires"

definition wireNameOverrides :: "decl list \<Rightarrow> string + (string \<times> string) list" where
  "wireNameOverrides decls = wireNameLoop (stringConsts decls) decls []"

section \<open>Types\<close>

definition byteBufType :: string where
  "byteBufType = ''am::__private::serde_bytes::ByteBuf''"

definition serdeBytesAttr :: string where
  "serdeBytesAttr = ''#[serde(with = '' @ quoted ''am::__private::serde_bytes'' @ '')]''"

definition isByteSlice :: "expr \<Rightarrow> bool" where
  "isByteSlice e =
     (case unparen e of
        ArrayType None elt \<Rightarrow> (case unparen elt of Ident n \<Rightarrow> n = ''byte'' \<or> n = ''uint8'' | _ \<Rightarrow> False)
      | _ \<Rightarrow> False)"

definition rustPrimitives :: "(string \<times> string) list" where
  "rustPrimitives =
     [(''bool'', ''bool''), (''string'', ''String''), (''int'', ''i64''), (''int8'', ''i8''), (''int16'', ''i16''),
      (''int32'', ''i32''), (''int64'', ''i64''), (''uint'', ''u64''), (''uint8'', ''u8''), (''uint16'', ''u16''),
      (''uint32'', ''u32''), (''uint64'', ''u64''), (''uintptr'', ''u64''), (''byte'', ''u8''), (''rune'', ''i32'')]"

definition rustIdentType :: "string \<Rightarrow> string list \<Rightarrow> bool \<Rightarrow> string + string \<times> bool" where
  "rustIdentType name structNames mapKey =
     (case map_of rustPrimitives name of
        Some t \<Rightarrow> Inr (t, False)
      | None \<Rightarrow>
          if name = ''float32'' then (if mapKey then Inl ''map key cannot be float32'' else Inr (''f32'', False))
          else if name = ''float64'' then (if mapKey then Inl ''map key cannot be float64'' else Inr (''f64'', False))
          else if name = ''complex64'' \<or> name = ''complex128'' then Inl ''complex types are not supported''
          else if mapKey \<and> name \<in> set structNames then Inl (''map key cannot be struct type '' @ name)
          else Inr (name, False))"

fun rustType :: "expr \<Rightarrow> string list \<Rightarrow> bool \<Rightarrow> string + string \<times> bool" where
  "rustType (Ident name) structNames mapKey = rustIdentType name structNames mapKey"
| "rustType (StarExpr x) structNames mapKey =
     (if mapKey then Inl ''map key cannot be a pointer''
      else case rustType x structNames False of
        Inl e \<Rightarrow> Inl e
      | Inr (inner, usesMap) \<Rightarrow> Inr (''Option<'' @ inner @ ''>'', usesMap))"
| "rustType (ArrayType len elt) structNames mapKey =
     (if mapKey then Inl ''map key cannot be a slice or array''
      else if isByteSlice (ArrayType len elt) then Inr (byteBufType, False)
      else case rustType elt structNames False of
        Inl e \<Rightarrow> Inl e
      | Inr (inner, usesMap) \<Rightarrow>
          (case len of
             None \<Rightarrow> Inr (''Vec<'' @ inner @ ''>'', usesMap)
           | Some (BasicLit TokInt v) \<Rightarrow> Inr (''['' @ inner @ ''; '' @ v @ '']'', usesMap)
           | Some _ \<Rightarrow> Inl ''array length must be an int literal''))"
| "rustType (MapType k v) structNames mapKey =
     (if mapKey then Inl ''map key cannot be a map''
      else case rustType k structNames True of
        Inl e \<Rightarrow> Inl e
      | Inr (key, _) \<Rightarrow>
          (case rustType v structNames False of
             Inl e \<Rightarrow> Inl e
           | Inr (val, _) \<Rightarrow> Inr (''BTreeMap<'' @ key @ '', '' @ val @ ''>'', True)))"
| "rustType SelectorExpr structNames mapKey = Inl ''qualified types are not supported''"
| "rustType (StructType fs) structNames mapKey = Inl ''anonymous struct types are not supported''"
| "rustType InterfaceType structNames mapKey = Inl ''interface types are not supported''"
| "rustType FuncType structNames mapKey = Inl ''func types are not supported''"
| "rustType ChanType structNames mapKey = Inl ''chan types are not supported''"
| "rustType (ParenExpr x) structNames mapKey = rustType x structNames mapKey"
| "rustType (BasicLit k v) structNames mapKey = Inl ''unsupported type''"
| "rustType OtherExpr structNames mapKey = Inl ''unsupported type''"

definition rustFieldType :: "expr \<Rightarrow> string list \<Rightarrow> string + string \<times> bool \<times> bool" where
  "rustFieldType e structNames =
     (if isByteSlice e then Inr (''Vec<u8>'', True, False)
      else if (case unparen e of StarExpr x \<Rightarrow> isByteSlice x | _ \<Rightarrow> False) then Inr (''Option<Vec<u8>>'', True, False)
      else case rustType e structNames False of
        Inl m \<Rightarrow> Inl m
      | Inr (t, usesMap) \<Rightarrow> Inr (t, False, usesMap))"

section \<open>Tags\<close>

text \<open>\<^verbatim>\<open>reflect.StructTag.Get\<close>: pairs of a key and a quoted value. \<open>scanQuoted\<close> finds the end of the value,
  \<open>unquoteBody\<close> is \<^verbatim>\<open>strconv.Unquote\<close> of it; a value with a character outside ASCII has none.\<close>

fun scanQuoted :: "string \<Rightarrow> (string \<times> string) option" where
  "scanQuoted [] = None"
| "scanQuoted (c # r) =
     (if c = CHR 0x22 then Some ([], r)
      else if c = CHR 0x5C then
        (case r of
           [] \<Rightarrow> None
         | e # r' \<Rightarrow> (case scanQuoted r' of None \<Rightarrow> None | Some (b, rest) \<Rightarrow> Some (c # e # b, rest)))
      else (case scanQuoted r of None \<Rightarrow> None | Some (b, rest) \<Rightarrow> Some (c # b, rest)))"

definition digitValue :: "nat \<Rightarrow> char \<Rightarrow> nat option" where
  "digitValue base c =
     (let v = (if IsDigit c then code c - 48
               else if 97 \<le> code c \<and> code c \<le> 102 then code c - 87
               else if 65 \<le> code c \<and> code c \<le> 70 then code c - 55
               else base)
      in if v < base then Some v else None)"

fun numeralValue :: "nat \<Rightarrow> nat \<Rightarrow> string \<Rightarrow> nat \<Rightarrow> nat option" where
  "numeralValue base 0 s acc = Some acc"
| "numeralValue base (Suc n) [] acc = None"
| "numeralValue base (Suc n) (c # cs) acc =
     (case digitValue base c of None \<Rightarrow> None | Some v \<Rightarrow> numeralValue base n cs (acc * base + v))"

definition simpleEscape :: "char \<Rightarrow> char option" where
  "simpleEscape e = map_of
     [(CHR ''a'', CHR 0x07), (CHR ''b'', CHR 0x08), (CHR ''f'', CHR 0x0C), (CHR ''n'', CHR 0x0A), (CHR ''r'', CHR 0x0D),
      (CHR ''t'', CHR 0x09), (CHR ''v'', CHR 0x0B), (CHR 0x5C, CHR 0x5C), (CHR 0x22, CHR 0x22)] e"

definition escapeDigits :: "char \<Rightarrow> (nat \<times> nat \<times> nat) option" where
  "escapeDigits e =
     (if e = CHR ''x'' then Some (16, 2, 1) else if e = CHR ''u'' then Some (16, 4, 1)
      else if e = CHR ''U'' then Some (16, 8, 1) else if 48 \<le> code e \<and> code e \<le> 55 then Some (8, 3, 0) else None)"

function unquoteBody :: "string \<Rightarrow> string option" where
  "unquoteBody s =
     (case s of
        [] \<Rightarrow> Some []
      | c # r \<Rightarrow>
          if c \<noteq> CHR 0x5C then
            (if c = CHR 0x0A then None else map_option (Cons c) (unquoteBody r))
          else
            (case r of
               [] \<Rightarrow> None
             | e # r' \<Rightarrow>
                 (case simpleEscape e of
                    Some x \<Rightarrow> map_option (Cons x) (unquoteBody r')
                  | None \<Rightarrow>
                      (case escapeDigits e of
                         None \<Rightarrow> None
                       | Some (base, n, skip) \<Rightarrow>
                           (case numeralValue base n (drop skip r) 0 of
                              None \<Rightarrow> None
                            | Some v \<Rightarrow>
                                if v < 128 then map_option (Cons (char_of v)) (unquoteBody (drop n (drop skip r)))
                                else None)))))"
  by pat_completeness auto
termination
  by (relation "measure length") (auto simp: escapeDigits_def split: if_split_asm)

lemma scanQuoted_shorter: "scanQuoted s = Some (b, rest) \<Longrightarrow> length rest < length s"
  by (induction s arbitrary: b rest rule: scanQuoted.induct)
    (auto split: if_split_asm list.split_asm option.split_asm, fastforce+)

function tagGet :: "string \<Rightarrow> string \<Rightarrow> string" where
  "tagGet key tag =
     (let t = dropWhile (\<lambda>c. c = CHR '' '') tag;
          name = takeWhile (\<lambda>c. code c > 32 \<and> c \<noteq> CHR '':'' \<and> c \<noteq> CHR 0x22 \<and> code c \<noteq> 127) t;
          r = drop (length name) t
      in if t = [] \<or> name = [] \<or> take 2 r \<noteq> [CHR '':'', CHR 0x22] then []
         else case scanQuoted (drop 2 r) of
           None \<Rightarrow> []
         | Some (body, rest) \<Rightarrow>
             if key = name then (case unquoteBody body of None \<Rightarrow> [] | Some v \<Rightarrow> v) else tagGet key rest)"
  by pat_completeness auto
termination
proof (relation "measure (length \<circ> snd)")
  fix key tag t name r x body rest
  assume t: "t = dropWhile (\<lambda>c. c = CHR '' '') tag"
    and r: "r = drop (length name) t" and "scanQuoted (drop 2 r) = Some x" and "(body, rest) = x"
  then have "length rest < length (drop 2 r)" using scanQuoted_shorter by metis
  also have "\<dots> \<le> length tag" using length_dropWhile_le [of "\<lambda>c. c = CHR '' ''" tag] by (simp add: r t)
  finally show "((key, rest), key, tag) \<in> measure (length \<circ> snd)" by simp
qed simp

declare unquoteBody.simps [simp del] tagGet.simps [simp del]

text \<open>\<^verbatim>\<open>strings.Cut\<close>.\<close>

fun Cut :: "char \<Rightarrow> string \<Rightarrow> string \<times> string \<times> bool" where
  "Cut sep [] = ([], [], False)"
| "Cut sep (c # cs) =
     (if c = sep then ([], cs, True) else case Cut sep cs of (a, b, ok) \<Rightarrow> (if ok then (c # a, b, True) else (c # cs, [], False)))"

text \<open>The name, whether the field is omitted, and whether it has a tag.\<close>

definition parseAMTag :: "string option \<Rightarrow> string + string \<times> bool \<times> bool" where
  "parseAMTag tag =
     (case tag of
        None \<Rightarrow> Inr ('''', False, False)
      | Some t \<Rightarrow>
          (let amTag = tagGet ''am'' t
           in if amTag = '''' then Inr ('''', False, False)
              else let name = fst (Cut (CHR '','') amTag)
                   in if name = '''' then Inl (''am tag must include a name or '' @ [CHR 0x27] @ ''-'' @ [CHR 0x27])
                      else if name = ''-'' then Inr ('''', True, True)
                      else Inr (name, False, True)))"

section \<open>Rendering\<close>

definition writeLine :: "nat \<Rightarrow> string \<Rightarrow> string" where
  "writeLine indent line = concat (replicate indent ''    '') @ line @ [CHR 0x0A]"

definition messageAttr :: "string \<Rightarrow> string + string" where
  "messageAttr wire =
     (if wire = '''' then Inr ''#[am::message]''
      else case Cut (CHR ''.'') wire of (ns, name, ok) \<Rightarrow>
        if \<not> ok \<or> ns = '''' \<or> name = '''' then Inl (''wire name '' @ quoted wire @ '' must have the form <ns>.<name>'')
        else if ns = ''am'' then Inr (''#[am::message(name = '' @ quoted name @ '')]'')
        else Inr (''#[am::message(ns = '' @ quoted ns @ '', name = '' @ quoted name @ '')]''))"

text \<open>One field of a Rust struct: its name, its type, the name on the wire, whether it is a byte slice, and whether
  its type uses a map.\<close>

record rustField =
  rf_name :: string
  rf_type :: string
  rf_tag :: string
  rf_asBytes :: bool
  rf_usesMap :: bool

text \<open>One round of the loop over the fields: an error, nothing for a field that is left out, or the field.\<close>

definition renderField ::
    "string \<Rightarrow> string list \<Rightarrow> string list \<Rightarrow> fieldDecl \<Rightarrow> string + rustField option" where
  "renderField sname structNames seenFields field =
     (case fd_Names field of
        [] \<Rightarrow> Inl ''embedded fields are not supported''
      | [fname] \<Rightarrow>
          if \<not> IsExported fname then Inr None
          else (case parseAMTag (fd_Tag field) of
             Inl e \<Rightarrow> Inl (sname @ ''.'' @ fname @ '': '' @ e)
           | Inr (tagName, omit, hasTag) \<Rightarrow>
               if \<not> hasTag then
                 Inl (''missing am tag on '' @ sname @ ''.'' @ fname @ '' (add am:'' @ quoted (toSnake fname) @ '' or am:'' @ quoted ''-'' @ '')'')
               else if omit then Inr None
               else
                 (let snake = toSnake fname
                  in if snake = '''' then Inl (''invalid field name '' @ quoted fname)
                     else if \<not> isRustIdent snake then Inl (''field name '' @ quoted snake @ '' is not a valid Rust identifier'')
                     else
                       (let rname = (if isRustKeyword snake then ''r#'' @ snake else snake)
                        in if rname \<in> set seenFields then Inl (''duplicate Rust field name '' @ quoted rname)
                           else case rustFieldType (fd_Type field) structNames of
                             Inl e \<Rightarrow> Inl e
                           | Inr (rustTy, asBytes, fieldUsesMap) \<Rightarrow>
                               Inr (Some \<lparr>rf_name = rname, rf_type = rustTy, rf_tag = tagName, rf_asBytes = asBytes,
                                          rf_usesMap = fieldUsesMap\<rparr>))))
      | _ \<Rightarrow> Inl ''struct fields must be declared one per line'')"

fun renderFields ::
    "string \<Rightarrow> string list \<Rightarrow> string list \<Rightarrow> fieldDecl list \<Rightarrow> string + rustField list" where
  "renderFields sname structNames seenFields [] = Inr []"
| "renderFields sname structNames seenFields (f # fs) =
     (case renderField sname structNames seenFields f of
        Inl e \<Rightarrow> Inl e
      | Inr None \<Rightarrow> renderFields sname structNames seenFields fs
      | Inr (Some rf) \<Rightarrow>
          (case renderFields sname structNames (rf_name rf # seenFields) fs of
             Inl e \<Rightarrow> Inl e
           | Inr rfs \<Rightarrow> Inr (rf # rfs)))"

definition TrimPrefix :: "string \<Rightarrow> string \<Rightarrow> string" where
  "TrimPrefix s pre = (if take (length pre) s = pre then drop (length pre) s else s)"

definition writeField :: "rustField \<Rightarrow> string" where
  "writeField rf =
     (if rf_tag rf \<noteq> TrimPrefix (rf_name rf) ''r#'' then writeLine 1 (''#[serde(rename = '' @ quoted (rf_tag rf) @ '')]'') else [])
     @ (if rf_asBytes rf then writeLine 1 serdeBytesAttr else [])
     @ writeLine 1 (''pub '' @ rf_name rf @ '': '' @ rf_type rf @ '','')"

definition renderStruct :: "string \<Rightarrow> string \<Rightarrow> fieldDecl list \<Rightarrow> string list \<Rightarrow> string + string \<times> bool" where
  "renderStruct name wire flds structNames =
     (case messageAttr wire of
        Inl e \<Rightarrow> Inl (name @ '': '' @ e)
      | Inr attr \<Rightarrow>
          (case renderFields name structNames [] flds of
             Inl e \<Rightarrow> Inl e
           | Inr rfs \<Rightarrow>
               Inr (writeLine 0 attr @ writeLine 0 (''pub struct '' @ name @ '' {'') @ concat (map writeField rfs) @ writeLine 0 ''}'',
                    list_ex rf_usesMap rfs)))"

definition renderType :: "typeDef \<Rightarrow> string list \<Rightarrow> string + typeOutput" where
  "renderType def structNames =
     (if isRustKeyword (td_name def) then Inl (''type name '' @ quoted (td_name def) @ '' is a Rust keyword'')
      else if \<not> isRustIdent (td_name def) then Inl (''type name '' @ quoted (td_name def) @ '' is not a valid Rust identifier'')
      else case td_spec def of
        StructType flds \<Rightarrow>
          (case renderStruct (td_name def) (td_wire def) flds structNames of
             Inl e \<Rightarrow> Inl e
           | Inr (text, usesMap) \<Rightarrow> Inr \<lparr>to_text = text, to_usesMap = usesMap\<rparr>)
      | e \<Rightarrow>
          (case rustType e structNames False of
             Inl m \<Rightarrow> Inl m
           | Inr (t, usesMap) \<Rightarrow>
               Inr \<lparr>to_text = ''pub type '' @ td_name def @ '' = '' @ t @ '';'' @ [CHR 0x0A], to_usesMap = usesMap\<rparr>))"

definition generatedHeader :: string where
  "generatedHeader = ''// Code generated by amgen-go; DO NOT EDIT.''"

fun separated :: "string list \<Rightarrow> string" where
  "separated [] = []"
| "separated [t] = t"
| "separated (t # ts) = t @ writeLine 0 [] @ separated ts"

definition renderRust :: "typeOutput list \<Rightarrow> bool \<Rightarrow> string" where
  "renderRust outputs usesMap =
     writeLine 0 generatedHeader @ writeLine 0 ''use adaptivemsg as am;''
     @ (if usesMap then writeLine 0 ''use std::collections::BTreeMap;'' else [])
     @ writeLine 0 [] @ separated (map to_text outputs)"

text \<open>The first half of \<^verbatim>\<open>run\<close>: from the tree of the input to the text of the Rust file.\<close>

fun renderTypes :: "typeDef list \<Rightarrow> string list \<Rightarrow> string + typeOutput list" where
  "renderTypes [] structNames = Inr []"
| "renderTypes (def # defs) structNames =
     (case renderType def structNames of
        Inl e \<Rightarrow> Inl (td_name def @ '': '' @ e)
      | Inr out \<Rightarrow> (case renderTypes defs structNames of Inl e \<Rightarrow> Inl e | Inr outs \<Rightarrow> Inr (out # outs)))"

definition structNamesOf :: "typeDef list \<Rightarrow> string list" where
  "structNamesOf defs = map td_name (filter (\<lambda>d. case td_spec d of StructType _ \<Rightarrow> True | _ \<Rightarrow> False) defs)"

definition generateRust :: "string \<Rightarrow> string \<Rightarrow> decl list \<Rightarrow> string + string" where
  "generateRust input packageName decls =
     (if collectTypeDefs decls = [] then Inl (''no types found in '' @ input)
      else case wireNameOverrides decls of
        Inl e \<Rightarrow> Inl e
      | Inr wires \<Rightarrow>
          (let defs = map (\<lambda>d. d\<lparr>td_wire := (case lookupLast wires (td_name d) of None \<Rightarrow> '''' | Some w \<Rightarrow> w)\<rparr>) (collectTypeDefs decls)
           in if isRustKeyword packageName then Inl (''package name '' @ quoted packageName @ '' is a Rust keyword'')
              else if \<not> isRustIdent packageName then Inl (''package name '' @ quoted packageName @ '' is not a valid Rust module name'')
              else case renderTypes defs (structNamesOf defs) of
                Inl e \<Rightarrow> Inl e
              | Inr outs \<Rightarrow> Inr (renderRust outs (list_ex to_usesMap outs))))"

section \<open>Properties\<close>

text \<open>The fields that a Rust struct gets: exported, with a tag that does not leave them out.\<close>

definition included :: "fieldDecl \<Rightarrow> bool" where
  "included f \<longleftrightarrow>
     (case fd_Names f of
        [n] \<Rightarrow> IsExported n \<and> (case parseAMTag (fd_Tag f) of Inr (_, omit, _) \<Rightarrow> \<not> omit | Inl _ \<Rightarrow> True)
      | _ \<Rightarrow> True)"

definition rustName :: "fieldDecl \<Rightarrow> string" where
  "rustName f = (let snake = toSnake (hd (fd_Names f)) in if isRustKeyword snake then ''r#'' @ snake else snake)"

lemma renderField_included:
  assumes "renderField s structs seen f = Inr r"
  shows "(r = None \<longleftrightarrow> \<not> included f) \<and>
    (\<forall>rf. r = Some rf \<longrightarrow> rf_name rf = rustName f \<and> rf_name rf \<notin> set seen \<and> isRustIdent (toSnake (hd (fd_Names f))))"
  using assms
  by (auto simp: renderField_def included_def rustName_def Let_def split: list.split_asm sum.split_asm prod.split_asm if_split_asm)

lemma renderFields_included:
  assumes "renderFields s structs seen fs = Inr rfs"
  shows "map rf_name rfs = map rustName (filter included fs) \<and> distinct (map rustName (filter included fs)) \<and>
    set (map rustName (filter included fs)) \<inter> set seen = {} \<and>
    list_all (\<lambda>f. isRustIdent (toSnake (hd (fd_Names f)))) (filter included fs)"
  using assms
proof (induction fs arbitrary: seen rfs)
  case (Cons f fs)
  obtain r where r: "renderField s structs seen f = Inr r" using Cons.prems by (auto split: sum.split_asm)
  show ?case
  proof (cases r)
    case None
    then have rest: "renderFields s structs seen fs = Inr rfs" and skip: "filter included (f # fs) = filter included fs"
      using Cons.prems r renderField_included [OF r] by simp_all
    show ?thesis unfolding skip by (rule Cons.IH [OF rest])
  next
    case (Some rf)
    then obtain rest where rest: "renderFields s structs (rf_name rf # seen) fs = Inr rest" "rfs = rf # rest"
      using Cons.prems r by (auto split: sum.split_asm)
    then show ?thesis using Cons.IH [OF rest(1)] renderField_included [OF r] Some by auto
  qed
qed simp

lemma hash_not_ident: "isRustIdent s \<Longrightarrow> take (Suc (Suc 0)) s \<noteq> ''r#''"
proof -
  have "\<not> identChar (CHR ''#'')" by code_simp
  then show "isRustIdent s \<Longrightarrow> take (Suc (Suc 0)) s \<noteq> ''r#''"
    by (cases s; cases "tl s") (auto simp: isRustIdent_iff)
qed

text \<open>A valid name of a Rust field: an identifier in snake case, raw exactly when it is a keyword.\<close>

definition rustNameOk :: "string \<Rightarrow> bool" where
  "rustNameOk n \<longleftrightarrow>
     (let ident = TrimPrefix n ''r#''
      in isRustIdent ident \<and> list_all (\<lambda>c. \<not> IsUpper c) ident \<and> (isRustKeyword ident \<longleftrightarrow> n = ''r#'' @ ident))"

lemma snakeLoop_no_upper: "list_all (\<lambda>c. \<not> IsUpper c) (snakeLoop p s)"
proof (induction p s rule: snakeLoop.induct)
  case (2 prev r rest)
  then show ?case using ToLower_letter [of r] by (auto simp: Let_def split: option.split)
qed simp

lemma rustName_ok: "isRustIdent (toSnake (hd (fd_Names f))) \<Longrightarrow> rustNameOk (rustName f)"
  using hash_not_ident [of "toSnake (hd (fd_Names f))"] snakeLoop_no_upper [of None "hd (fd_Names f)"]
  by (auto simp: rustNameOk_def rustName_def TrimPrefix_def Let_def toSnake_def)

text \<open>The generated Rust struct has one field for each exported field of the Go struct that its tag does not leave
  out, in the same order, with different names, each a valid identifier in snake case, raw exactly when it
  is a keyword.\<close>

theorem rust_struct_fields:
  assumes "renderFields s structs [] fs = Inr rfs"
  shows "map rf_name rfs = map rustName (filter included fs) \<and> distinct (map rf_name rfs) \<and>
    list_all rustNameOk (map rf_name rfs)"
proof -
  note inc = renderFields_included [OF assms]
  then have "list_all rustNameOk (map rustName (filter included fs))"
    by (auto simp: list_all_iff intro: rustName_ok)
  then show ?thesis using inc by metis
qed

text \<open>A file with two structs, one of them with a keyword for a field and a field that is left out.\<close>

definition amTag :: "string \<Rightarrow> string option" where
  "amTag n = Some (''am:'' @ quoted n)"

definition sampleFields :: "fieldDecl list" where
  "sampleFields =
     [Field [''UserID''] (Ident ''int'') (amTag ''user_id''), Field [''Type''] (StarExpr (Ident ''Kind'')) (amTag ''kind''),
      Field [''Cache''] (MapType (Ident ''string'') (Ident ''int'')) (amTag ''-''), Field [''local''] (Ident ''int'') None]"

theorem rust_struct_fields_witness:
  "\<exists>rfs. renderFields ''Msg'' [''Msg''] [] sampleFields = Inr rfs \<and> map rf_name rfs = [''user_id'', ''r#type''] \<and>
     distinct (map rf_name rfs) \<and> list_all rustNameOk (map rf_name rfs)"
proof -
  have "\<exists>rfs. renderFields ''Msg'' [''Msg''] [] sampleFields = Inr rfs"
    by (rule exI [of _
      "[\<lparr>rf_name = ''user_id'', rf_type = ''i64'', rf_tag = ''user_id'', rf_asBytes = False, rf_usesMap = False\<rparr>,
        \<lparr>rf_name = ''r#type'', rf_type = ''Option<Kind>'', rf_tag = ''kind'', rf_asBytes = False, rf_usesMap = False\<rparr>]"]) code_simp
  then obtain rfs where r: "renderFields ''Msg'' [''Msg''] [] sampleFields = Inr rfs" by blast
  have "map rustName (filter included sampleFields) = [''user_id'', ''r#type'']" by code_simp
  then show ?thesis using r rust_struct_fields [OF r] by auto
qed

text \<open>The import of \<^verbatim>\<open>BTreeMap\<close> follows from the types.\<close>

fun hasMap :: "expr \<Rightarrow> bool" where
  "hasMap (MapType k v) \<longleftrightarrow> True"
| "hasMap (StarExpr x) \<longleftrightarrow> hasMap x"
| "hasMap (ArrayType len elt) \<longleftrightarrow> hasMap elt"
| "hasMap (ParenExpr x) \<longleftrightarrow> hasMap x"
| "hasMap e \<longleftrightarrow> False"

lemma unparen_hasMap [simp]: "hasMap (unparen e) = hasMap e"
  by (induction e rule: unparen.induct) auto

lemma isByteSlice_no_map: "isByteSlice e \<Longrightarrow> \<not> hasMap e"
proof -
  assume "isByteSlice e"
  then obtain elt n where "unparen e = ArrayType None elt" "unparen elt = Ident n"
    by (auto simp: isByteSlice_def split: expr.split_asm option.split_asm)
  then have "\<not> hasMap (unparen e)" using unparen_hasMap [of elt] by simp
  then show ?thesis by simp
qed

lemma rustType_usesMap: "rustType e structs key = Inr (t, m) \<Longrightarrow> m \<longleftrightarrow> hasMap e"
proof (induction e structs key arbitrary: t m rule: rustType.induct)
  case (1 name structNames mapKey)
  then show ?case by (auto simp: rustIdentType_def split: option.split_asm if_split_asm)
next
  case (3 len elt structNames mapKey)
  then show ?case
    using isByteSlice_no_map [of "ArrayType len elt"]
    by (auto split: if_split_asm sum.split_asm prod.split_asm option.split_asm expr.split_asm tokenKind.split_asm)
qed (auto split: if_split_asm sum.split_asm prod.split_asm)

end
