(* ===== verification/Amgen_Modules.thy ===== *)
theory Amgen_Modules
  imports Amgen_Render Messages "HOL-Library.Sublist" "HOL-Library.List_Lexorder" "HOL-Library.Char_ord"
begin

text \<open>
  The crate that \<^verbatim>\<open>src/cmd/amgen-go/main.go\<close> sets up around the generated files: the module tree of
  \<^verbatim>\<open>lib.rs\<close>, \<^verbatim>\<open>Cargo.toml\<close>, and the search for the generated files. A directory of the file system is a
  list of its entries; paths are clean, relative to the root of the repository and separated by slashes.
\<close>

section \<open>Paths\<close>

fun joinPath :: "string list \<Rightarrow> string" where
  "joinPath [] = []"
| "joinPath [p] = p"
| "joinPath (p # ps) = p @ ''/'' @ joinPath ps"

definition path_Dir :: "string \<Rightarrow> string" where
  "path_Dir p = (let parts = splitOn (CHR ''/'') p in if length parts = 1 then ''.'' else joinPath (butlast parts))"

definition path_Base :: "string \<Rightarrow> string" where
  "path_Base p = last (splitOn (CHR ''/'') p)"

section \<open>The modules of lib.rs\<close>

text \<open>A module is the file at a path or an inline module with children.\<close>

datatype libModule = LibFile string | LibDir "(string \<times> libModule) list"

fun insertModule ::
    "string list \<Rightarrow> string \<Rightarrow> (string \<times> libModule) list \<Rightarrow> string + (string \<times> libModule) list" where
  "insertModule [] rsPath children = Inr children"
| "insertModule [leaf] rsPath children =
     (case map_of children leaf of
        None \<Rightarrow> Inr (children @ [(leaf, LibFile rsPath)])
      | Some (LibFile p) \<Rightarrow> Inl (p @ '' and '' @ rsPath @ '' would both be module '' @ leaf @ ''; generate one file per directory'')
      | Some (LibDir _) \<Rightarrow> Inl (''module '' @ leaf @ '' from '' @ rsPath @ '' would also contain other generated modules''))"
| "insertModule (dir # dirs) rsPath children =
     (case map_of children dir of
        Some (LibFile p) \<Rightarrow> Inl (''module '' @ dir @ '' is generated from '' @ p @ '' and cannot also contain '' @ rsPath)
      | Some (LibDir sub) \<Rightarrow>
          (case insertModule dirs rsPath sub of
             Inl e \<Rightarrow> Inl e
           | Inr sub' \<Rightarrow> Inr (AList.update dir (LibDir sub') children))
      | None \<Rightarrow>
          (case insertModule dirs rsPath [] of
             Inl e \<Rightarrow> Inl e
           | Inr sub' \<Rightarrow> Inr (AList.update dir (LibDir sub') children)))"

definition moduleDirs :: "string \<Rightarrow> string list" where
  "moduleDirs rsPath = splitOn (CHR ''/'') (path_Dir rsPath)"

fun buildModules :: "string list \<Rightarrow> (string \<times> libModule) list \<Rightarrow> string + (string \<times> libModule) list" where
  "buildModules [] children = Inr children"
| "buildModules (rsPath # rsPaths) children =
     (case List.find (\<lambda>dir. \<not> isRustIdent dir \<or> isRustKeyword dir) (moduleDirs rsPath) of
        Some dir \<Rightarrow> Inl (''directory name '' @ quoted dir @ '' of '' @ rsPath @ '' is not a valid Rust module name'')
      | None \<Rightarrow>
          (case insertModule (moduleDirs rsPath) rsPath children of
             Inl e \<Rightarrow> Inl e
           | Inr children' \<Rightarrow> buildModules rsPaths children'))"

lemma size_module_child [termination_simp]:
  "c \<in> set cs \<Longrightarrow> size (snd c) < Suc (size_list (size_prod (\<lambda>x. 0) size) cs)"
  by (auto simp: less_Suc_eq_le size_prod_simp intro: size_list_estimation')

fun writeLibModule :: "nat \<Rightarrow> string \<Rightarrow> libModule \<Rightarrow> string" where
  "writeLibModule depth name (LibFile p) =
     writeLine depth (''#[path = '' @ quoted (name @ ''/'' @ path_Base p) @ '']'') @ writeLine depth (''pub mod '' @ name @ '';'')"
| "writeLibModule depth name (LibDir children) =
     writeLine depth (''pub mod '' @ name @ '' {'')
     @ concat (map (\<lambda>c. writeLibModule (Suc depth) (fst c) (snd c)) (sort_key fst children))
     @ writeLine depth ''}''"

definition writeLibModules :: "(string \<times> libModule) list \<Rightarrow> nat \<Rightarrow> string" where
  "writeLibModules children depth = concat (map (\<lambda>c. writeLibModule depth (fst c) (snd c)) (sort_key fst children))"

definition renderLibRS :: "string list \<Rightarrow> string + string" where
  "renderLibRS rsPaths =
     (case buildModules rsPaths [] of
        Inl e \<Rightarrow> Inl e
      | Inr children \<Rightarrow> Inr (writeLine 0 generatedHeader @ writeLibModules children 0))"

section \<open>Cargo.toml and the generated files\<close>

definition ReplaceAll :: "char \<Rightarrow> char \<Rightarrow> string \<Rightarrow> string" where
  "ReplaceAll old new s = map (\<lambda>c. if c = old then new else c) s"

definition renderRootCargo :: "string \<Rightarrow> string \<Rightarrow> string" where
  "renderRootCargo crateName libPath =
     (let libName = ReplaceAll (CHR ''-'') (CHR ''_'') (TrimSuffix (TrimSuffix crateName ''-go'') ''-rust'')
      in writeLine 0 ''[package]'' @ writeLine 0 (''name = '' @ quoted crateName)
         @ writeLine 0 (''version = '' @ quoted ''0.0.0'') @ writeLine 0 (''edition = '' @ quoted ''2021'') @ writeLine 0 []
         @ writeLine 0 ''[lib]'' @ writeLine 0 (''name = '' @ quoted libName) @ writeLine 0 (''path = '' @ quoted libPath)
         @ writeLine 0 [] @ writeLine 0 ''[dependencies]''
         @ writeLine 0 (''serde = { version = '' @ quoted ''1.0'' @ '', features = ['' @ quoted ''derive'' @ ''] }'')
         @ writeLine 0 (''adaptivemsg = { git = '' @ quoted ''https://github.com/adaptivemsg/adaptivemsg-rust.git'' @ '' }''))"

definition writeRootCargo :: "string \<Rightarrow> string \<Rightarrow> string + string" where
  "writeRootCargo crateName libPath =
     (if \<not> isValidCrateName crateName then Inl (''package name '' @ quoted crateName @ '' is not a valid crate name'')
      else Inr (renderRootCargo crateName libPath))"

definition hasGeneratedHeader :: "string \<Rightarrow> bool" where
  "hasGeneratedHeader content \<longleftrightarrow>
     (let header = generatedHeader @ [CHR 0x0A] in take (length header) content = header)"

text \<open>The file system: a file with its content or a directory with its entries.\<close>

datatype fsNode = FsFile string | FsDir "(string \<times> fsNode) list"

definition hasSuffix :: "string \<Rightarrow> string \<Rightarrow> bool" where
  "hasSuffix s suf \<longleftrightarrow> length suf \<le> length s \<and> drop (length s - length suf) s = suf"

definition skipDir :: "string \<Rightarrow> (string \<times> fsNode) list \<Rightarrow> bool" where
  "skipDir name entries \<longleftrightarrow>
     take 1 name = ''.'' \<or> name = ''target'' \<or> name = ''vendor'' \<or> name = ''node_modules'' \<or> map_of entries ''go.mod'' \<noteq> None"

lemma size_fs_entry [termination_simp]:
  "c \<in> set cs \<Longrightarrow> size (snd c) < Suc (size_list (size_prod (\<lambda>x. 0) size) cs)"
  by (auto simp: less_Suc_eq_le size_prod_simp intro: size_list_estimation')

fun walkNode :: "string list \<Rightarrow> string \<Rightarrow> fsNode \<Rightarrow> string list list" where
  "walkNode dir name (FsFile content) =
     (if \<not> hasSuffix name ''.rs'' \<or> (dir = [] \<and> name = ''lib.rs'') \<or> \<not> hasGeneratedHeader content then []
      else [dir @ [name]])"
| "walkNode dir name (FsDir entries) =
     (if skipDir name entries then []
      else concat (map (\<lambda>c. walkNode (dir @ [name]) (fst c) (snd c)) entries))"

definition generatedRustFiles :: "(string \<times> fsNode) list \<Rightarrow> string list" where
  "generatedRustFiles root = sort (map joinPath (concat (map (\<lambda>c. walkNode [] (fst c) (snd c)) root)))"

text \<open>\<^verbatim>\<open>findGoModRoot\<close> walks up from a directory; \<open>hasGoMod\<close> says whether it finds the file in a directory, given by
  its path from the file system root.\<close>

function findGoModRoot :: "(string list \<Rightarrow> bool) \<Rightarrow> string list \<Rightarrow> string list option" where
  "findGoModRoot hasGoMod dir =
     (if hasGoMod dir then Some dir else if dir = [] then None else findGoModRoot hasGoMod (butlast dir))"
  by pat_completeness auto
termination by (relation "measure (length \<circ> snd)") simp_all

declare findGoModRoot.simps [simp del]

section \<open>The module tree\<close>

text \<open>The files of a module tree, each with the names of the modules that lead to it.\<close>

fun moduleFiles :: "libModule \<Rightarrow> (string list \<times> string) list" where
  "moduleFiles (LibFile p) = [([], p)]"
| "moduleFiles (LibDir children) =
     concat (map (\<lambda>c. map (\<lambda>f. (fst c # fst f, snd f)) (moduleFiles (snd c))) children)"

fun wfModule :: "libModule \<Rightarrow> bool" where
  "wfModule (LibFile p) \<longleftrightarrow> True"
| "wfModule (LibDir children) \<longleftrightarrow>
     distinct (map fst children) \<and> list_all (\<lambda>c. wfModule (snd c) \<and> moduleFiles (snd c) \<noteq> []) children"

lemma file_in_dir:
  assumes "distinct (map fst children)"
  shows "(ds, p) \<in> set (moduleFiles (LibDir children)) \<longleftrightarrow>
    (case ds of [] \<Rightarrow> False | d # ds' \<Rightarrow> (\<exists>m. map_of children d = Some m \<and> (ds', p) \<in> set (moduleFiles m)))"
proof (cases ds)
  case (Cons d ds')
  have "(ds, p) \<in> set (moduleFiles (LibDir children)) \<longleftrightarrow> (\<exists>m. (d, m) \<in> set children \<and> (ds', p) \<in> set (moduleFiles m))"
    unfolding Cons by force
  then show ?thesis using Cons assms by (simp add: map_of_eq_Some_iff)
qed auto

lemma wfModule_dir:
  "wfModule (LibDir children) \<longleftrightarrow> distinct (map fst children) \<and>
     (\<forall>d m. map_of children d = Some m \<longrightarrow> wfModule m \<and> moduleFiles m \<noteq> [])"
proof -
  have "list_all P children \<longleftrightarrow> (\<forall>d m. map_of children d = Some m \<longrightarrow> P (d, m))"
    if "distinct (map fst children)" for P
    using that by (auto simp: list_all_iff)
  then show ?thesis by auto
qed

declare moduleFiles.simps(2) [simp del] wfModule.simps(2) [simp del]

lemma wfModule_update:
  assumes "wfModule (LibDir children)" and "wfModule m" and "moduleFiles m \<noteq> []"
  shows "wfModule (LibDir (AList.update dir m children))"
  using assms unfolding wfModule_dir by (auto simp: AList.distinct_update update_conv' split: if_split_asm)

lemma file_in_update:
  assumes "distinct (map fst children)"
  shows "(ds, q) \<in> set (moduleFiles (LibDir (AList.update dir m children))) \<longleftrightarrow>
    (case ds of
       [] \<Rightarrow> False
     | d # ds' \<Rightarrow> if d = dir then (ds', q) \<in> set (moduleFiles m) else (ds, q) \<in> set (moduleFiles (LibDir children)))"
  unfolding file_in_dir [OF assms] file_in_dir [OF AList.distinct_update [OF assms]]
  by (simp add: update_conv' split: list.split del: map_of_eq_Some_iff)

lemma update_new: "map_of xs k = None \<Longrightarrow> AList.update k v xs = xs @ [(k, v)]"
  by (induction xs) (auto split: if_split_asm)

text \<open>Two files clash when one of them would be a module that contains the other.\<close>

definition clashes :: "string list \<Rightarrow> libModule \<Rightarrow> bool" where
  "clashes dirs m \<longleftrightarrow> (\<exists>ds q. (ds, q) \<in> set (moduleFiles m) \<and> (prefix ds dirs \<or> prefix dirs ds))"

lemma clashes_dir:
  assumes "distinct (map fst children)"
  shows "clashes (dir # dirs) (LibDir children) \<longleftrightarrow> (\<exists>m. map_of children dir = Some m \<and> clashes dirs m)"
proof
  assume "clashes (dir # dirs) (LibDir children)"
  then obtain ds q where f: "(ds, q) \<in> set (moduleFiles (LibDir children))" "prefix ds (dir # dirs) \<or> prefix (dir # dirs) ds"
    by (auto simp: clashes_def)
  then obtain d ds' m where "ds = d # ds'" "map_of children d = Some m" "(ds', q) \<in> set (moduleFiles m)"
    using file_in_dir [OF assms, of ds q] by (auto split: list.split_asm)
  then show "\<exists>m. map_of children dir = Some m \<and> clashes dirs m"
    using f(2) unfolding clashes_def by auto
next
  assume "\<exists>m. map_of children dir = Some m \<and> clashes dirs m"
  then obtain m ds q where m: "map_of children dir = Some m" "(ds, q) \<in> set (moduleFiles m)" "prefix ds dirs \<or> prefix dirs ds"
    unfolding clashes_def by blast
  then have "(dir # ds, q) \<in> set (moduleFiles (LibDir children))" using file_in_dir [OF assms, of "dir # ds" q] by simp
  then show "clashes (dir # dirs) (LibDir children)" using m(3) unfolding clashes_def by fastforce
qed

lemma clashes_here: "moduleFiles m \<noteq> [] \<Longrightarrow> clashes [] m"
  by (cases "moduleFiles m") (auto simp: clashes_def)

text \<open>Inserting a file adds it under its directories, and fails exactly when it clashes.\<close>

definition insertOk ::
    "string list \<Rightarrow> string \<Rightarrow> (string \<times> libModule) list \<Rightarrow> string + (string \<times> libModule) list \<Rightarrow> bool" where
  "insertOk dirs p children r \<longleftrightarrow>
     (case r of
        Inl e \<Rightarrow> clashes dirs (LibDir children)
      | Inr children' \<Rightarrow>
          \<not> clashes dirs (LibDir children) \<and> wfModule (LibDir children') \<and>
          (\<forall>ds q. (ds, q) \<in> set (moduleFiles (LibDir children')) \<longleftrightarrow>
             (ds, q) = (dirs, p) \<or> (ds, q) \<in> set (moduleFiles (LibDir children))))"

lemma insert_leaf:
  assumes "wfModule (LibDir children)"
  shows "insertOk [leaf] p children (insertModule [leaf] p children)"
proof -
  have d: "distinct (map fst children)" using assms by (simp add: wfModule_dir)
  show ?thesis
  proof (cases "map_of children leaf")
    case None
    then have up: "children @ [(leaf, LibFile p)] = AList.update leaf (LibFile p) children"
      by (simp add: update_new)
    have "wfModule (LibDir (children @ [(leaf, LibFile p)]))"
      unfolding up by (rule wfModule_update [OF assms]) simp_all
    moreover have "\<not> clashes [leaf] (LibDir children)" using None clashes_dir [OF d] by simp
    moreover have "(ds, q) \<in> set (moduleFiles (LibDir (children @ [(leaf, LibFile p)]))) \<longleftrightarrow>
        (ds, q) = ([leaf], p) \<or> (ds, q) \<in> set (moduleFiles (LibDir children))" for ds q
      unfolding up file_in_update [OF d] using None file_in_dir [OF d, of ds q]
      by (auto split: list.split list.split_asm)
    ultimately show ?thesis using None by (simp add: insertOk_def)
  next
    case (Some m)
    then have "clashes [leaf] (LibDir children)"
      using clashes_dir [OF d] clashes_here [of m] assms unfolding wfModule_dir by blast
    then show ?thesis using Some by (auto simp: insertOk_def split: libModule.split)
  qed
qed

lemma insert_below:
  assumes "wfModule (LibDir children)" and ok: "insertOk dirs p sub (insertModule dirs p sub)"
    and cl: "clashes (dir # dirs) (LibDir children) \<longleftrightarrow> clashes dirs (LibDir sub)"
    and fl: "\<And>ds q. (dir # ds, q) \<in> set (moduleFiles (LibDir children)) \<longleftrightarrow> (ds, q) \<in> set (moduleFiles (LibDir sub))"
  shows "insertOk (dir # dirs) p children
    (case insertModule dirs p sub of Inl e \<Rightarrow> Inl e | Inr sub' \<Rightarrow> Inr (AList.update dir (LibDir sub') children))"
proof (cases "insertModule dirs p sub")
  case (Inr sub')
  have d: "distinct (map fst children)" using assms(1) by (simp add: wfModule_dir)
  have wf: "wfModule (LibDir sub')"
    and files: "(ds, q) \<in> set (moduleFiles (LibDir sub')) \<longleftrightarrow> (ds, q) = (dirs, p) \<or> (ds, q) \<in> set (moduleFiles (LibDir sub))" for ds q
    using ok Inr by (simp_all add: insertOk_def)
  have "moduleFiles (LibDir sub') \<noteq> []" using files [of dirs p] by (cases "moduleFiles (LibDir sub')") simp_all
  then have "wfModule (LibDir (AList.update dir (LibDir sub') children))" by (rule wfModule_update [OF assms(1) wf])
  moreover have "(ds, q) \<in> set (moduleFiles (LibDir (AList.update dir (LibDir sub') children))) \<longleftrightarrow>
      (ds, q) = (dir # dirs, p) \<or> (ds, q) \<in> set (moduleFiles (LibDir children))" for ds q
    unfolding file_in_update [OF d] using files fl file_in_dir [OF d, of ds q] by (auto split: list.split list.split_asm)
  ultimately show ?thesis using Inr ok cl by (simp add: insertOk_def)
qed (use ok cl in \<open>simp add: insertOk_def\<close>)

lemma insertModule_ok:
  assumes "wfModule (LibDir children)" and "dirs \<noteq> []"
  shows "insertOk dirs p children (insertModule dirs p children)"
  using assms
proof (induction dirs p children rule: insertModule.induct)
  case (3 dir dir' dirs p children)
  have d: "distinct (map fst children)" using 3(3) by (simp add: wfModule_dir)
  show ?case
  proof (cases "map_of children dir")
    case None
    have "insertOk (dir' # dirs) p [] (insertModule (dir' # dirs) p [])" using 3(1) [OF None] by (simp add: wfModule_dir)
    then have "insertOk (dir # dir' # dirs) p children (case insertModule (dir' # dirs) p [] of
        Inl e \<Rightarrow> Inl e | Inr sub' \<Rightarrow> Inr (AList.update dir (LibDir sub') children))"
      by (rule insert_below [OF 3(3)])
        (use None clashes_dir [OF d] file_in_dir [OF d] in \<open>simp_all add: clashes_def moduleFiles.simps(2)\<close>)
    then show ?thesis using None by simp
  next
    case (Some m)
    show ?thesis
    proof (cases m)
      case (LibFile q)
      then show ?thesis using Some clashes_dir [OF d] by (auto simp: clashes_def insertOk_def)
    next
      case (LibDir sub)
      then have "wfModule (LibDir sub)" using Some 3(3) unfolding wfModule_dir [of children] by blast
      then have "insertOk (dir' # dirs) p sub (insertModule (dir' # dirs) p sub)" using 3(2) [OF Some LibDir] by simp
      then have "insertOk (dir # dir' # dirs) p children (case insertModule (dir' # dirs) p sub of
          Inl e \<Rightarrow> Inl e | Inr sub' \<Rightarrow> Inr (AList.update dir (LibDir sub') children))"
        by (rule insert_below [OF 3(3)])
          (use Some LibDir d clashes_dir [OF d] file_in_dir [OF d] in \<open>auto simp del: map_of_eq_Some_iff\<close>)
      then show ?thesis using Some LibDir by simp
    qed
  qed
next
  case (2 leaf p children)
  then show ?case using insert_leaf by blast
qed simp

text \<open>Splitting a path and joining it again.\<close>

lemma splitOn_nonempty [simp]: "splitOn sep s \<noteq> []"
  by (induction s) (auto split: list.split)

lemma splitOn_no_sep: "p \<in> set (splitOn sep s) \<Longrightarrow> sep \<notin> set p"
  by (induction s arbitrary: p) (auto split: if_split_asm list.split_asm)

lemma splitOn_single: "sep \<notin> set p \<Longrightarrow> splitOn sep p = [p]"
  by (induction p) auto

lemma splitOn_append: "sep \<notin> set p \<Longrightarrow> splitOn sep (p @ sep # s) = p # splitOn sep s"
  by (induction p) auto

lemma join_split: "joinPath (splitOn (CHR ''/'') s) = s"
proof (induction s)
  case (Cons c s)
  obtain p ps where ps: "splitOn (CHR ''/'') s = p # ps" using splitOn_nonempty by (metis neq_Nil_conv)
  then show ?case using Cons by (cases ps) auto
qed simp

lemma split_join:
  assumes "list_all (\<lambda>p. CHR ''/'' \<notin> set p) ps" and "ps \<noteq> []"
  shows "splitOn (CHR ''/'') (joinPath ps) = ps"
  using assms by (induction ps rule: joinPath.induct) (auto simp: splitOn_single splitOn_append)

lemma moduleDirs_parts:
  assumes "CHR ''/'' \<in> set p"
  shows "moduleDirs p = butlast (splitOn (CHR ''/'') p)" "joinPath (moduleDirs p @ [path_Base p]) = p"
proof -
  let ?parts = "splitOn (CHR ''/'') p"
  have "length ?parts \<noteq> 1"
  proof
    assume "length ?parts = 1"
    then obtain q where q: "?parts = [q]" by (auto simp: length_Suc_conv)
    then have "q = p" using join_split [of p] by simp
    then show False using splitOn_no_sep [of q "CHR ''/''" p] q assms by simp
  qed
  then have "butlast ?parts \<noteq> []" using splitOn_nonempty [of "CHR ''/''" p] by (cases ?parts rule: rev_cases) auto
  moreover have "list_all (\<lambda>q. CHR ''/'' \<notin> set q) (butlast ?parts)"
    using splitOn_no_sep by (auto simp: list_all_iff dest: in_set_butlastD)
  ultimately show dirs: "moduleDirs p = butlast ?parts"
    using \<open>length ?parts \<noteq> 1\<close> by (simp add: moduleDirs_def path_Dir_def Let_def split_join)
  show "joinPath (moduleDirs p @ [path_Base p]) = p"
    unfolding dirs path_Base_def by (simp add: append_butlast_last_id join_split)
qed

lemma moduleDirs_nonempty: "moduleDirs p \<noteq> []"
  by (simp add: moduleDirs_def)

lemma buildModules_files:
  assumes "buildModules ps children = Inr children'" and "wfModule (LibDir children)"
  shows "wfModule (LibDir children') \<and>
    set (moduleFiles (LibDir children')) = (\<lambda>p. (moduleDirs p, p)) ` set ps \<union> set (moduleFiles (LibDir children))"
  using assms
proof (induction ps arbitrary: children)
  case (Cons p ps)
  obtain mid where mid: "insertModule (moduleDirs p) p children = Inr mid" "buildModules ps mid = Inr children'"
    using Cons.prems(1) by (auto split: option.split_asm sum.split_asm)
  have "wfModule (LibDir mid)" "set (moduleFiles (LibDir mid)) = insert (moduleDirs p, p) (set (moduleFiles (LibDir children)))"
    using insertModule_ok [OF Cons.prems(2) moduleDirs_nonempty, of p p] mid(1) by (auto simp: insertOk_def)
  then show ?case using Cons.IH [OF mid(2)] by auto
qed simp

lemma buildModules_ok:
  assumes "buildModules ps children = Inr children'" and "wfModule (LibDir children)"
  shows "list_all (\<lambda>p. list_all (\<lambda>d. isRustIdent d \<and> \<not> isRustKeyword d) (moduleDirs p)) ps \<and>
    sorted_wrt (\<lambda>p q. \<not> prefix (moduleDirs p) (moduleDirs q) \<and> \<not> prefix (moduleDirs q) (moduleDirs p)) ps \<and>
    list_all (\<lambda>p. \<not> clashes (moduleDirs p) (LibDir children)) ps"
  using assms
proof (induction ps arbitrary: children)
  case (Cons p ps)
  obtain mid where valid: "List.find (\<lambda>dir. \<not> isRustIdent dir \<or> isRustKeyword dir) (moduleDirs p) = None"
    and mid: "insertModule (moduleDirs p) p children = Inr mid" "buildModules ps mid = Inr children'"
    using Cons.prems(1) by (auto split: option.split_asm sum.split_asm)
  have new: "\<not> clashes (moduleDirs p) (LibDir children)" "wfModule (LibDir mid)"
    "\<And>ds q. (ds, q) \<in> set (moduleFiles (LibDir mid)) \<longleftrightarrow> (ds, q) = (moduleDirs p, p) \<or> (ds, q) \<in> set (moduleFiles (LibDir children))"
    using insertModule_ok [OF Cons.prems(2) moduleDirs_nonempty, of p p] mid(1) by (simp_all add: insertOk_def)
  have "\<not> clashes (moduleDirs q) (LibDir mid) \<Longrightarrow> \<not> clashes (moduleDirs q) (LibDir children) \<and>
      \<not> prefix (moduleDirs p) (moduleDirs q) \<and> \<not> prefix (moduleDirs q) (moduleDirs p)" for q
    unfolding clashes_def new(3) by blast
  then show ?case
    using Cons.IH [OF mid(2) new(2)] valid new(1) by (auto simp: list_all_iff find_None_iff)
qed simp

lemma buildModules_total:
  assumes "list_all (\<lambda>p. list_all (\<lambda>d. isRustIdent d \<and> \<not> isRustKeyword d) (moduleDirs p)) ps"
    and "sorted_wrt (\<lambda>p q. \<not> prefix (moduleDirs p) (moduleDirs q) \<and> \<not> prefix (moduleDirs q) (moduleDirs p)) ps"
    and "list_all (\<lambda>p. \<not> clashes (moduleDirs p) (LibDir children)) ps" and "wfModule (LibDir children)"
  shows "\<exists>children'. buildModules ps children = Inr children'"
  using assms
proof (induction ps arbitrary: children)
  case (Cons p ps)
  have valid: "List.find (\<lambda>dir. \<not> isRustIdent dir \<or> isRustKeyword dir) (moduleDirs p) = None"
    using Cons.prems(1) by (auto simp: find_None_iff list_all_iff)
  obtain mid where mid: "insertModule (moduleDirs p) p children = Inr mid" and wf: "wfModule (LibDir mid)"
    and files: "\<And>ds q. (ds, q) \<in> set (moduleFiles (LibDir mid)) \<longleftrightarrow> (ds, q) = (moduleDirs p, p) \<or> (ds, q) \<in> set (moduleFiles (LibDir children))"
    using insertModule_ok [OF Cons.prems(4) moduleDirs_nonempty, of p p] Cons.prems(3)
    by (cases "insertModule (moduleDirs p) p children") (auto simp: insertOk_def)
  have "\<not> clashes (moduleDirs q) (LibDir mid)" if "q \<in> set ps" for q
    using Cons.prems(2,3) that unfolding clashes_def files by (fastforce simp: list_all_iff clashes_def)
  then have "list_all (\<lambda>q. \<not> clashes (moduleDirs q) (LibDir mid)) ps" by (simp add: list_all_iff)
  then show ?case using Cons.IH [OF _ _ _ wf] Cons.prems(1,2) valid mid by simp
qed simp

text \<open>What a set of generated files has to satisfy: their directories are Rust module names, and no file is in the
  directory of another or below it.\<close>

definition modulesOk :: "string list \<Rightarrow> bool" where
  "modulesOk ps \<longleftrightarrow>
     list_all (\<lambda>p. list_all (\<lambda>d. isRustIdent d \<and> \<not> isRustKeyword d) (moduleDirs p)) ps \<and>
     sorted_wrt (\<lambda>p q. \<not> prefix (moduleDirs p) (moduleDirs q) \<and> \<not> prefix (moduleDirs q) (moduleDirs p)) ps"

lemma root_file_refused: "CHR ''/'' \<notin> set p \<Longrightarrow> p \<in> set ps \<Longrightarrow> \<not> modulesOk ps"
proof -
  assume p: "CHR ''/'' \<notin> set p" "p \<in> set ps"
  then have "moduleDirs p = [''.'']" by (simp add: moduleDirs_def path_Dir_def splitOn_single Let_def)
  moreover have "\<not> isRustIdent ''.''" by code_simp
  ultimately show ?thesis using p(2) by (force simp: modulesOk_def list_all_iff)
qed

lemma empty_module: "wfModule (LibDir [])" "\<not> clashes d (LibDir [])"
  by (simp_all add: wfModule_dir clashes_def moduleFiles.simps(2))

lemma buildModules_iff: "(\<exists>children. buildModules ps [] = Inr children) \<longleftrightarrow> modulesOk ps"
  using buildModules_ok [OF _ empty_module(1)] buildModules_total [OF _ _ _ empty_module(1)] empty_module(2)
  unfolding modulesOk_def by (auto simp: list_all_iff)

end
