(* ===== verification/Amgen_Run.thy ===== *)
theory Amgen_Run
  imports Amgen_Modules
begin

text \<open>
  A whole run of \<^verbatim>\<open>src/cmd/amgen-go/main.go\<close> over a file system: \<^verbatim>\<open>main\<close> and \<^verbatim>\<open>run\<close>. The file system is the list
  of the entries of its root directory; an absolute path is the list of its names. Every directory and
  file can be read and written; what fails is what the tree itself makes fail, a file in the place of a
  directory or the reverse. The Go parser is the standard library's and a parameter: from the content of
  a file to the package name and the declarations.
\<close>

section \<open>The file system\<close>

type_synonym fsEntries = "(string \<times> fsNode) list"

fun nodeAt :: "string list \<Rightarrow> fsNode \<Rightarrow> fsNode option" where
  "nodeAt [] node = Some node"
| "nodeAt (d # ds) (FsFile c) = None"
| "nodeAt (d # ds) (FsDir es) = (case map_of es d of None \<Rightarrow> None | Some node \<Rightarrow> nodeAt ds node)"

definition fileAt :: "string list \<Rightarrow> fsEntries \<Rightarrow> string option" where
  "fileAt p fs = (case nodeAt p (FsDir fs) of Some (FsFile c) \<Rightarrow> Some c | _ \<Rightarrow> None)"

text \<open>\<^verbatim>\<open>os.Stat\<close>, as far as its error is used.\<close>

definition Stat :: "string list \<Rightarrow> fsEntries \<Rightarrow> bool" where
  "Stat p fs \<longleftrightarrow> nodeAt p (FsDir fs) \<noteq> None"

definition dirEntries :: "string list \<Rightarrow> fsEntries \<Rightarrow> fsEntries" where
  "dirEntries p fs = (case nodeAt p (FsDir fs) of Some (FsDir es) \<Rightarrow> es | _ \<Rightarrow> [])"

fun MkdirAll :: "string list \<Rightarrow> fsEntries \<Rightarrow> fsEntries option" where
  "MkdirAll [] es = Some es"
| "MkdirAll (d # ds) es =
     (case map_of es d of
        Some (FsFile c) \<Rightarrow> None
      | Some (FsDir sub) \<Rightarrow> map_option (\<lambda>sub'. AList.update d (FsDir sub') es) (MkdirAll ds sub)
      | None \<Rightarrow> map_option (\<lambda>sub'. AList.update d (FsDir sub') es) (MkdirAll ds []))"

fun WriteFile :: "string list \<Rightarrow> string \<Rightarrow> fsEntries \<Rightarrow> fsEntries option" where
  "WriteFile [] content es = None"
| "WriteFile [name] content es =
     (case map_of es name of Some (FsDir sub) \<Rightarrow> None | _ \<Rightarrow> Some (AList.update name (FsFile content) es))"
| "WriteFile (d # ds) content es =
     (case map_of es d of
        Some (FsDir sub) \<Rightarrow> map_option (\<lambda>sub'. AList.update d (FsDir sub') es) (WriteFile ds content sub)
      | _ \<Rightarrow> None)"

section \<open>Paths\<close>

text \<open>\<^verbatim>\<open>filepath.Clean\<close> on the names of a path, those already kept in reverse; \<^verbatim>\<open>filepath.Abs\<close>.\<close>

fun cleanNames :: "bool \<Rightarrow> string list \<Rightarrow> string list \<Rightarrow> string list" where
  "cleanNames rooted acc [] = rev acc"
| "cleanNames rooted acc (n # ns) =
     (if n = '''' \<or> n = ''.'' then cleanNames rooted acc ns
      else if n = ''..'' then
        (case acc of
           [] \<Rightarrow> cleanNames rooted (if rooted then [] else [''..'']) ns
         | k # ks \<Rightarrow> if k = ''..'' then cleanNames rooted (''..'' # acc) ns else cleanNames rooted ks ns)
      else cleanNames rooted (n # acc) ns)"

definition IsAbs :: "string \<Rightarrow> bool" where
  "IsAbs p \<longleftrightarrow> take 1 p = ''/''"

definition path_Clean :: "string \<Rightarrow> string list" where
  "path_Clean p = cleanNames (IsAbs p) [] (splitOn (CHR ''/'') p)"

definition path_Abs :: "string list \<Rightarrow> bool \<Rightarrow> string list \<Rightarrow> string list" where
  "path_Abs cwd rooted names = cleanNames True [] (if rooted then names else cwd @ names)"

definition root_Base :: "string list \<Rightarrow> string" where
  "root_Base root = (if root = [] then ''/'' else last root)"

section \<open>The run\<close>

datatype runError = ErrOs "string list" | ErrParse | ErrGen string

definition checkRootCargo :: "string list \<Rightarrow> fsEntries \<Rightarrow> bool" where
  "checkRootCargo root fs \<longleftrightarrow> \<not> Stat (root @ [''Cargo.toml'']) fs"

text \<open>The last steps: the module file and, where there was none, \<^verbatim>\<open>Cargo.toml\<close>.\<close>

definition writeCrate :: "string list \<Rightarrow> bool \<Rightarrow> fsEntries \<Rightarrow> runError option \<times> fsEntries" where
  "writeCrate root needCargo fs =
     (case renderLibRS (generatedRustFiles (dirEntries root fs)) of
        Inl e \<Rightarrow> (Some (ErrGen e), fs)
      | Inr libRS \<Rightarrow>
          (case WriteFile (root @ [''lib.rs'']) libRS fs of
             None \<Rightarrow> (Some (ErrOs (root @ [''lib.rs''])), fs)
           | Some fs' \<Rightarrow>
               if needCargo then
                 (case writeRootCargo (root_Base root) ''lib.rs'' of
                    Inl e \<Rightarrow> (Some (ErrGen e), fs')
                  | Inr cargo \<Rightarrow>
                      (case WriteFile (root @ [''Cargo.toml'']) cargo fs' of
                         None \<Rightarrow> (Some (ErrOs (root @ [''Cargo.toml''])), fs')
                       | Some fs'' \<Rightarrow> (None, fs'')))
               else (None, fs')))"

text \<open>The file that \<^verbatim>\<open>run\<close> writes: the output itself, or \<^verbatim>\<open>message.rs\<close> in it.\<close>

definition outputPath :: "string list \<Rightarrow> string \<Rightarrow> string list" where
  "outputPath cwd out =
     (let names = path_Clean out
      in path_Abs cwd (IsAbs out) (if names \<noteq> [] \<and> hasSuffix (last names) ''.rs'' then names else names @ [''message.rs'']))"

definition inputPath :: "string list \<Rightarrow> string \<Rightarrow> string list" where
  "inputPath cwd input = path_Abs cwd (IsAbs input) (splitOn (CHR ''/'') input)"

definition goModRoot :: "string list \<Rightarrow> fsEntries \<Rightarrow> string list option" where
  "goModRoot dir fs = findGoModRoot (\<lambda>d. Stat (d @ [''go.mod'']) fs) dir"

definition run ::
    "(string \<Rightarrow> (string \<times> decl list) option) \<Rightarrow> string list \<Rightarrow> string \<Rightarrow> string \<Rightarrow> fsEntries \<Rightarrow> runError option \<times> fsEntries" where
  "run parseFile cwd input out fs =
     (let inputAbs = inputPath cwd input; outAbs = outputPath cwd out
      in case fileAt inputAbs fs of
           None \<Rightarrow> (Some (ErrOs inputAbs), fs)
         | Some content \<Rightarrow>
             (case parseFile content of
                None \<Rightarrow> (Some ErrParse, fs)
              | Some (packageName, decls) \<Rightarrow>
                  (case generateRust input packageName decls of
                     Inl e \<Rightarrow> (Some (ErrGen e), fs)
                   | Inr message \<Rightarrow>
                       (case goModRoot (butlast inputAbs) fs of
                          None \<Rightarrow> (Some (ErrGen (''go.mod not found for /'' @ joinPath (butlast inputAbs))), fs)
                        | Some root \<Rightarrow>
                            if \<not> prefix root outAbs then
                              (Some (ErrGen (''output must be inside repo root /'' @ joinPath root)), fs)
                            else
                              (case MkdirAll (butlast outAbs) fs of
                                 None \<Rightarrow> (Some (ErrOs outAbs), fs)
                               | Some fs1 \<Rightarrow>
                                   (case WriteFile outAbs message fs1 of
                                      None \<Rightarrow> (Some (ErrOs outAbs), fs1)
                                    | Some fs2 \<Rightarrow> writeCrate root (checkRootCargo root fs) fs2))))))"

text \<open>\<^verbatim>\<open>main\<close>, with the value of \<^verbatim>\<open>GOFILE\<close>; an error ends the process with status 1.\<close>

definition isSpace :: "char \<Rightarrow> bool" where
  "isSpace c \<longleftrightarrow> code c = 32 \<or> 9 \<le> code c \<and> code c \<le> 13"

definition TrimSpace :: "string \<Rightarrow> string" where
  "TrimSpace s = rev (dropWhile isSpace (rev (dropWhile isSpace s)))"

definition main :: "(string \<Rightarrow> (string \<times> decl list) option) \<Rightarrow> string list \<Rightarrow> string \<Rightarrow> fsEntries \<Rightarrow> runError option \<times> fsEntries" where
  "main parseFile cwd gofile fs =
     (let goFile = TrimSpace gofile
      in if goFile = '''' then (Some (ErrGen ''GOFILE is not set; run via go generate''), fs)
         else if \<not> hasSuffix goFile ''.go'' then (Some (ErrGen (''GOFILE must be a .go file, got '' @ quoted goFile)), fs)
         else run parseFile cwd goFile (TrimSuffix goFile ''.go'' @ ''.rs'') fs)"

section \<open>The file system after a write\<close>

lemma nodeAt_append: "nodeAt (p @ q) node = (case nodeAt p node of None \<Rightarrow> None | Some n \<Rightarrow> nodeAt q n)"
  by (induction p node rule: nodeAt.induct) (auto split: option.split)

text \<open>What a write keeps: the node at every path that is not on the way to the file, whether there is one at every
  other path, and every other file.\<close>

lemma update_lookup: "map_of (AList.update k v es) d = (if d = k then Some v else map_of es d)"
  by (simp add: update_conv')

lemma update_same: "map_of es k = Some v \<Longrightarrow> AList.update k v es = es"
  by (induction es) auto

lemma fileAt_below [simp]:
  "fileAt (d # e # ds) es = (case map_of es d of Some (FsDir sub) \<Rightarrow> fileAt (e # ds) sub | _ \<Rightarrow> None)"
  "Stat (d # e # ds) es = (case map_of es d of Some (FsDir sub) \<Rightarrow> Stat (e # ds) sub | _ \<Rightarrow> False)"
  by (auto simp: fileAt_def Stat_def split: option.split fsNode.split)

lemma fileAt_here [simp]:
  "fileAt [d] es = (case map_of es d of Some (FsFile c) \<Rightarrow> Some c | _ \<Rightarrow> None)"
  "Stat [d] es \<longleftrightarrow> map_of es d \<noteq> None"
  by (auto simp: fileAt_def Stat_def split: option.split)

lemma fileAt_root [simp]: "fileAt [] es = None" "Stat [] es"
  by (simp_all add: fileAt_def Stat_def)

lemma path_cases: obtains "q = []" | d where "q = [d]" | d e ds where "q = d # e # ds"
  by (metis neq_Nil_conv)

lemma WriteFile_node:
  assumes "WriteFile p c es = Some es'"
  shows "nodeAt p (FsDir es') = Some (FsFile c)"
    and "q \<noteq> p \<Longrightarrow> fileAt q es' = fileAt q es"
    and "q \<noteq> p \<Longrightarrow> Stat q es' = Stat q es"
proof -
  have "nodeAt p (FsDir es') = Some (FsFile c) \<and>
      (\<forall>q. q \<noteq> p \<longrightarrow> fileAt q es' = fileAt q es \<and> Stat q es' = Stat q es)"
    using assms
  proof (induction p c es arbitrary: es' rule: WriteFile.induct)
    case (2 name content es)
    then have es': "es' = AList.update name (FsFile content) es" and old: "map_of es name \<noteq> Some (FsDir sub)" for sub
      by (auto split: option.split_asm fsNode.split_asm)
    have "fileAt q es' = fileAt q es \<and> Stat q es' = Stat q es" if "q \<noteq> [name]" for q
      using that old by (cases q rule: path_cases) (auto simp: es' update_lookup split: option.split fsNode.split)
    then show ?case by (simp add: es' update_lookup)
  next
    case (3 d d' ds content es)
    then obtain sub sub' where sub: "map_of es d = Some (FsDir sub)" "WriteFile (d' # ds) content sub = Some sub'"
      "es' = AList.update d (FsDir sub') es"
      by (auto split: option.split_asm fsNode.split_asm)
    note IH = "3.IH" [OF sub(1) _ sub(2)]
    have "fileAt q es' = fileAt q es \<and> Stat q es' = Stat q es" if "q \<noteq> d # d' # ds" for q
      using IH that sub(1,3) by (cases q rule: path_cases) (auto simp: update_lookup)
    then show ?case using IH sub by (simp add: update_lookup)
  qed simp
  then show "nodeAt p (FsDir es') = Some (FsFile c)" "q \<noteq> p \<Longrightarrow> fileAt q es' = fileAt q es"
    "q \<noteq> p \<Longrightarrow> Stat q es' = Stat q es"
    by blast+
qed

lemma WriteFile_same: "fileAt p es = Some c \<Longrightarrow> WriteFile p c es = Some es"
  by (induction p c es rule: WriteFile.induct) (auto simp: update_same split: option.split_asm fsNode.split_asm)

lemma update_update: "AList.update k v (AList.update k w es) = AList.update k v es"
  by (induction es) auto

lemma WriteFile_twice:
  assumes "WriteFile p c es = Some es'"
  shows "WriteFile p c' es' = WriteFile p c' es"
  using assms
proof (induction p c es arbitrary: es' rule: WriteFile.induct)
  case (2 name content es)
  then show ?case by (auto simp: update_lookup update_update split: option.split_asm fsNode.split_asm)
next
  case (3 d d' ds content es)
  then obtain sub sub' where sub: "map_of es d = Some (FsDir sub)" "WriteFile (d' # ds) content sub = Some sub'"
    "es' = AList.update d (FsDir sub') es"
    by (auto split: option.split_asm fsNode.split_asm)
  then show ?case using "3.IH" [OF sub(1) _ sub(2)] by (simp add: update_lookup update_update)
qed simp

lemma MkdirAll_existing:
  assumes "nodeAt p (FsDir es) = Some (FsDir sub)"
  shows "MkdirAll p es = Some es"
  using assms
proof (induction p es rule: MkdirAll.induct)
  case (2 d ds es)
  then obtain n where n: "map_of es d = Some n" "nodeAt ds n = Some (FsDir sub)" by (auto split: option.split_asm)
  then obtain sub' where "n = FsDir sub'" by (cases n; cases ds) auto
  then show ?case using 2 n by (simp add: update_same)
qed simp

section \<open>The path of the output\<close>

definition cleanStep :: "bool \<Rightarrow> string list \<Rightarrow> string \<Rightarrow> string list" where
  "cleanStep rooted acc n =
     (if n = '''' \<or> n = ''.'' then acc
      else if n = ''..'' then
        (case acc of
           [] \<Rightarrow> if rooted then [] else [''..'']
         | k # ks \<Rightarrow> if k = ''..'' then ''..'' # acc else ks)
      else n # acc)"

lemma cleanNames_fold: "cleanNames rooted acc ns = rev (foldl (cleanStep rooted) acc ns)"
  by (induction rooted acc ns rule: cleanNames.induct) (auto simp: cleanStep_def split: list.split)

lemma clean_no_dots: "list_all (\<lambda>n. n \<noteq> '''' \<and> n \<noteq> ''.'') acc \<Longrightarrow> list_all (\<lambda>n. n \<noteq> '''' \<and> n \<noteq> ''.'') (foldl (cleanStep rooted) acc ns)"
  by (induction ns arbitrary: acc) (auto simp: cleanStep_def split: list.split)

lemma clean_twice:
  assumes "rooted \<Longrightarrow> acc = []"
  shows "foldl (cleanStep True) acc (rev (foldl (cleanStep rooted) [] ns)) = foldl (cleanStep True) acc ns"
proof (induction ns rule: rev_induct)
  case (snoc n ns)
  let ?m = "foldl (cleanStep rooted) [] ns"
  have "list_all (\<lambda>n. n \<noteq> '''' \<and> n \<noteq> ''.'') ?m" by (rule clean_no_dots) simp
  then have "foldl (cleanStep True) acc (rev (cleanStep rooted ?m n)) = cleanStep True (foldl (cleanStep True) acc (rev ?m)) n"
    using assms by (cases ?m) (auto simp: cleanStep_def split: list.split)
  then show ?case using snoc by simp
qed simp

lemma splitOn_suffix:
  "sep \<notin> set suf \<Longrightarrow> splitOn sep (g @ suf) = butlast (splitOn sep g) @ [last (splitOn sep g) @ suf]"
proof (induction g)
  case Nil
  then show ?case by (simp add: splitOn_single)
next
  case (Cons c g)
  obtain p ps where "splitOn sep g = p # ps" by (metis splitOn_nonempty neq_Nil_conv)
  then show ?case using Cons by auto
qed

text \<open>The output is the sibling of the input with the other extension.\<close>

lemma sibling_path:
  assumes "hasSuffix goFile ''.go''"
  obtains dir stem where "inputPath cwd goFile = dir @ [stem @ ''.go'']"
    "outputPath cwd (TrimSuffix goFile ''.go'' @ ''.rs'') = dir @ [stem @ ''.rs'']"
proof -
  obtain g where g: "goFile = g @ ''.go''"
    using assms unfolding hasSuffix_def by (metis append_take_drop_id)
  have trim: "TrimSuffix goFile ''.go'' = g" by (simp add: TrimSuffix_def g)
  have abs: "IsAbs (g @ ''.rs'') = IsAbs (g @ ''.go'')" by (cases g) (simp_all add: IsAbs_def)
  let ?a = "IsAbs (g @ ''.go'')" and ?ns = "butlast (splitOn (CHR ''/'') g)" and ?stem = "last (splitOn (CHR ''/'') g)"
  let ?start = "if ?a then [] else foldl (cleanStep True) [] cwd"
  have normal: "cleanStep r acc (?stem @ ''.go'') = (?stem @ ''.go'') # acc"
    "cleanStep r acc (?stem @ ''.rs'') = (?stem @ ''.rs'') # acc" for r acc
    by (auto simp: cleanStep_def append_eq_Cons_conv)
  have suf: "hasSuffix (?stem @ ''.rs'') ''.rs''" by (simp add: hasSuffix_def)
  have "inputPath cwd goFile = rev (foldl (cleanStep True) ?start ?ns) @ [?stem @ ''.go'']"
    by (simp add: inputPath_def path_Abs_def cleanNames_fold splitOn_suffix normal g)
  moreover have "outputPath cwd (TrimSuffix goFile ''.go'' @ ''.rs'') = rev (foldl (cleanStep True) ?start ?ns) @ [?stem @ ''.rs'']"
    unfolding trim using clean_twice [of ?a ?start ?ns]
    by (cases ?a) (simp_all add: outputPath_def path_Clean_def path_Abs_def cleanNames_fold splitOn_suffix abs normal Let_def suf)
  ultimately show thesis using that by blast
qed

section \<open>What a run leaves\<close>

lemma fileAt_parent: "fileAt (dir @ [n]) fs = Some c \<Longrightarrow> \<exists>sub. nodeAt dir (FsDir fs) = Some (FsDir sub)"
  by (auto simp: fileAt_def nodeAt_append split: option.split_asm fsNode.split_asm)
    (metis fsNode.exhaust nodeAt.simps(2) option.distinct(1))

text \<open>Up to the last steps a run changes nothing but the output; \<open>mainInput\<close> and \<open>mainOutput\<close> name the paths.\<close>

definition mainInput :: "string list \<Rightarrow> string \<Rightarrow> string list" where
  "mainInput cwd gofile = inputPath cwd (TrimSpace gofile)"

definition mainOutput :: "string list \<Rightarrow> string \<Rightarrow> string list" where
  "mainOutput cwd gofile = outputPath cwd (TrimSuffix (TrimSpace gofile) ''.go'' @ ''.rs'')"

text \<open>What the run has read when it starts to write.\<close>

definition generates ::
    "(string \<Rightarrow> (string \<times> decl list) option) \<Rightarrow> string list \<Rightarrow> string \<Rightarrow> fsEntries \<Rightarrow> string \<Rightarrow> string list \<Rightarrow> bool" where
  "generates parseFile cwd gofile fs message root \<longleftrightarrow>
     hasSuffix (TrimSpace gofile) ''.go'' \<and>
     (\<exists>content packageName decls. fileAt (mainInput cwd gofile) fs = Some content \<and>
        parseFile content = Some (packageName, decls) \<and> generateRust (TrimSpace gofile) packageName decls = Inr message) \<and>
     goModRoot (butlast (mainInput cwd gofile)) fs = Some root"

lemma goModRoot_prefix: "findGoModRoot has dir = Some root \<Longrightarrow> prefix root dir"
proof (induction has dir rule: findGoModRoot.induct)
  case (1 has dir)
  then show ?case
    by (subst (asm) (2) findGoModRoot.simps) (auto split: if_split_asm intro: prefix_order.trans prefixeq_butlast)
qed

lemma main_writes:
  assumes "generates parseFile cwd gofile fs message root"
  shows "main parseFile cwd gofile fs =
    (case WriteFile (mainOutput cwd gofile) message fs of
       None \<Rightarrow> (Some (ErrOs (mainOutput cwd gofile)), fs)
     | Some fs2 \<Rightarrow> writeCrate root (checkRootCargo root fs) fs2)"
proof -
  have go: "hasSuffix (TrimSpace gofile) ''.go''" using assms by (simp add: generates_def)
  then have ne: "TrimSpace gofile \<noteq> ''''" by (auto simp: hasSuffix_def)
  obtain dir stem where ds: "mainInput cwd gofile = dir @ [stem @ ''.go'']" "mainOutput cwd gofile = dir @ [stem @ ''.rs'']"
    using sibling_path [OF go] unfolding mainInput_def mainOutput_def by metis
  have root: "goModRoot dir fs = Some root" and ex: "\<exists>c. fileAt (dir @ [stem @ ''.go'']) fs = Some c"
    using assms ds by (auto simp: generates_def)
  have "prefix root (dir @ [stem @ ''.rs''])"
    using goModRoot_prefix root unfolding goModRoot_def by (metis prefix_append prefix_order.refl prefix_order.trans prefixI)
  moreover have "MkdirAll dir fs = Some fs" using ex fileAt_parent MkdirAll_existing by metis
  ultimately show ?thesis
    unfolding ds(2) using assms go ne root ds [unfolded mainInput_def mainOutput_def] by (auto simp: main_def run_def generates_def ds Let_def)
qed

lemma main_fails_early:
  assumes "\<nexists>message root. generates parseFile cwd gofile fs message root"
  shows "\<exists>e. main parseFile cwd gofile fs = (Some e, fs)"
  using assms
  by (auto simp: main_def run_def generates_def mainInput_def Let_def split: option.split sum.split)

lemma generatedRustFiles_write:
  assumes "WriteFile (root @ [n]) c fs = Some fs'" and "n = ''lib.rs'' \<or> n = ''Cargo.toml''"
  shows "generatedRustFiles (dirEntries root fs') = generatedRustFiles (dirEntries root fs)"
proof -
  have walk: "walkNode [] n v = []" if "\<forall>sub. v \<noteq> FsDir sub" for v
    using assms(2) that by (cases v) (auto simp: hasSuffix_def)
  have same: "concat (map (\<lambda>x. walkNode [] (fst x) (snd x)) (AList.update n (FsFile c) es)) =
      concat (map (\<lambda>x. walkNode [] (fst x) (snd x)) es)" if "\<forall>sub. map_of es n \<noteq> Some (FsDir sub)" for es
    using that by (induction es) (auto simp: walk simp del: walkNode.simps)
  have "\<exists>es. dirEntries root fs = es \<and> dirEntries root fs' = AList.update n (FsFile c) es \<and> (\<forall>sub. map_of es n \<noteq> Some (FsDir sub))"
    using assms(1)
  proof (induction root arbitrary: fs fs')
    case Nil
    then show ?case by (auto simp: dirEntries_def split: option.split_asm fsNode.split_asm)
  next
    case (Cons d root)
    obtain sub sub' where sub: "map_of fs d = Some (FsDir sub)" "WriteFile (root @ [n]) c sub = Some sub'"
      "fs' = AList.update d (FsDir sub') fs"
      using Cons.prems by (cases "root @ [n]") (auto split: option.split_asm fsNode.split_asm)
    then show ?case using Cons.IH [OF sub(2)] by (simp add: dirEntries_def update_lookup)
  qed
  then show ?thesis using same by (auto simp: generatedRustFiles_def)
qed

text \<open>The two last writes.\<close>

lemma writeCrate_files:
  assumes "writeCrate root needCargo fs = (r, fs')"
  shows "q \<noteq> root @ [''lib.rs''] \<Longrightarrow> q \<noteq> root @ [''Cargo.toml''] \<or> \<not> needCargo \<Longrightarrow>
      fileAt q fs' = fileAt q fs \<and> Stat q fs' = Stat q fs"
  using assms
  by (auto simp: writeCrate_def WriteFile_node split: sum.split_asm option.split_asm if_split_asm)

lemma writeCrate_success:
  assumes "writeCrate root needCargo fs = (None, fs')"
  obtains lib where "renderLibRS (generatedRustFiles (dirEntries root fs)) = Inr lib"
    "generatedRustFiles (dirEntries root fs') = generatedRustFiles (dirEntries root fs)"
    "fileAt (root @ [''lib.rs'']) fs' = Some lib" "needCargo \<Longrightarrow> Stat (root @ [''Cargo.toml'']) fs'"
    "needCargo \<Longrightarrow> fileAt (root @ [''Cargo.toml'']) fs' = Some (renderRootCargo (root_Base root) ''lib.rs'')"
proof -
  obtain lib fs1 where lib: "renderLibRS (generatedRustFiles (dirEntries root fs)) = Inr lib"
    and w1: "WriteFile (root @ [''lib.rs'']) lib fs = Some fs1"
    and w2: "if needCargo then WriteFile (root @ [''Cargo.toml'']) (renderRootCargo (root_Base root) ''lib.rs'') fs1 = Some fs'
      else fs' = fs1"
    using assms by (auto simp: writeCrate_def writeRootCargo_def split: sum.split_asm option.split_asm if_split_asm)
  note files = generatedRustFiles_write [OF w1] generatedRustFiles_write [of root "''Cargo.toml''"]
  show thesis
  proof (rule that [OF lib])
    show "generatedRustFiles (dirEntries root fs') = generatedRustFiles (dirEntries root fs)"
      using files w2 by (auto split: if_split_asm)
    have "fileAt (root @ [''lib.rs'']) fs1 = Some lib" using WriteFile_node(1) [OF w1] by (simp add: fileAt_def)
    then show "fileAt (root @ [''lib.rs'']) fs' = Some lib"
      using w2 WriteFile_node(2) [of "root @ [''Cargo.toml'']" _ fs1 fs' "root @ [''lib.rs'']"] by (auto split: if_split_asm)
  qed (use w2 WriteFile_node(1) [of "root @ [''Cargo.toml'']"] in \<open>auto simp: Stat_def fileAt_def split: if_split_asm\<close>)
qed

lemma main_cases:
  assumes "main parseFile cwd gofile fs = (r, fs')"
  obtains "r \<noteq> None" "fs' = fs"
  | message root fs2 where "generates parseFile cwd gofile fs message root"
      "WriteFile (mainOutput cwd gofile) message fs = Some fs2"
      "writeCrate root (checkRootCargo root fs) fs2 = (r, fs')"
proof (cases "\<exists>message root. generates parseFile cwd gofile fs message root")
  case True
  then obtain message root where g: "generates parseFile cwd gofile fs message root" by blast
  then show ?thesis
    using assms that main_writes [OF g] by (cases "WriteFile (mainOutput cwd gofile) message fs") auto
next
  case False
  then show ?thesis using assms that(1) main_fails_early [of parseFile cwd gofile fs] by auto
qed

lemma main_paths:
  assumes "generates parseFile cwd gofile fs message root"
  obtains dir stem where "mainInput cwd gofile = dir @ [stem @ ''.go'']" "mainOutput cwd gofile = dir @ [stem @ ''.rs'']"
    "goModRoot dir fs = Some root"
  using assms sibling_path [of "TrimSpace gofile" cwd]
  unfolding generates_def mainInput_def mainOutput_def by (metis butlast_snoc)

lemma last_char_differs: "last a \<noteq> last b \<Longrightarrow> a \<noteq> b"
  by blast

lemma main_input_kept:
  assumes "generates parseFile cwd gofile fs message root" and "WriteFile (mainOutput cwd gofile) message fs = Some fs2"
    and "writeCrate root need fs2 = (r, fs')"
  shows "generates parseFile cwd gofile fs' message root"
proof -
  obtain dir stem where p: "mainInput cwd gofile = dir @ [stem @ ''.go'']" "mainOutput cwd gofile = dir @ [stem @ ''.rs'']"
    using main_paths [OF assms(1)] .
  have "stem @ ''.go'' \<noteq> ''lib.rs''" "stem @ ''.go'' \<noteq> ''Cargo.toml''" "stem @ ''.rs'' \<noteq> ''go.mod''"
    by (rule last_char_differs, simp)+
  then have "fileAt (mainInput cwd gofile) fs' = fileAt (mainInput cwd gofile) fs"
    and "Stat (d @ [''go.mod'']) fs' = Stat (d @ [''go.mod'']) fs" for d
    using WriteFile_node(2,3) [OF assms(2)] writeCrate_files [OF assms(3)] by (auto simp: p)
  then show ?thesis using assms(1) by (simp add: generates_def goModRoot_def)
qed

lemma main_output_no_cargo: "generates parseFile cwd gofile fs message root \<Longrightarrow> mainOutput cwd gofile \<noteq> root @ [''Cargo.toml'']"
proof
  assume g: "generates parseFile cwd gofile fs message root" and eq: "mainOutput cwd gofile = root @ [''Cargo.toml'']"
  obtain dir stem where out: "mainOutput cwd gofile = dir @ [stem @ ''.rs'']" using main_paths [OF g] .
  have "stem @ ''.rs'' \<noteq> ''Cargo.toml''" by (rule last_char_differs) simp
  then show False using out eq by simp
qed

lemma main_cargo_kept:
  assumes "generates parseFile cwd gofile fs message root" and "WriteFile (mainOutput cwd gofile) message fs = Some fs2"
    and "writeCrate root (checkRootCargo root fs) fs2 = (None, fs')"
  shows "Stat (root @ [''Cargo.toml'']) fs'"
proof (cases "checkRootCargo root fs")
  case True
  then show ?thesis using writeCrate_success [OF assms(3)] by metis
next
  case False
  then have "Stat (root @ [''Cargo.toml'']) fs2"
    using WriteFile_node(3) [OF assms(2)] main_output_no_cargo [OF assms(1)] by (metis checkRootCargo_def)
  then show ?thesis using writeCrate_files [OF assms(3), of "root @ [''Cargo.toml'']"] False by simp
qed

lemma WriteFile_over: "fileAt p es = Some c \<Longrightarrow> \<exists>es'. WriteFile p c' es = Some es'"
  by (induction p c' es rule: WriteFile.induct) (auto split: option.split_asm fsNode.split_asm)

lemma writeCrate_again:
  assumes "renderLibRS (generatedRustFiles (dirEntries root fs)) = Inr lib" and "WriteFile (root @ [''lib.rs'']) lib fs = Some fs'"
  shows "writeCrate root False fs = (None, fs')"
  using assms by (simp add: writeCrate_def)

text \<open>C38. Generating again changes nothing: after a successful run the same run succeeds and leaves every file as
  it is.\<close>

theorem amgen_idempotent:
  assumes "main parseFile cwd gofile fs = (None, fs')"
  shows "main parseFile cwd gofile fs' = (None, fs')"
  using assms
proof (cases rule: main_cases)
  case (2 message root fs2)
  let ?out = "mainOutput cwd gofile" and ?lib = "root @ [''lib.rs'']"
  obtain lib where lib: "renderLibRS (generatedRustFiles (dirEntries root fs2)) = Inr lib"
    "generatedRustFiles (dirEntries root fs') = generatedRustFiles (dirEntries root fs2)" "fileAt ?lib fs' = Some lib"
    using writeCrate_success [OF 2(3)] by metis
  have oc: "?out \<noteq> root @ [''Cargo.toml'']" by (rule main_output_no_cargo [OF 2(1)])
  have "checkRootCargo root fs' = False" using main_cargo_kept [OF 2] by (simp add: checkRootCargo_def)
  then have main: "main parseFile cwd gofile fs' =
      (case WriteFile ?out message fs' of None \<Rightarrow> (Some (ErrOs ?out), fs') | Some fs3 \<Rightarrow> writeCrate root False fs3)"
    using main_writes [OF main_input_kept [OF 2]] by (simp split: option.split)
  show ?thesis
  proof (cases "?out = ?lib")
    case True
    then obtain fs3 where fs3: "WriteFile ?lib message fs' = Some fs3" using WriteFile_over [OF lib(3)] by metis
    have "WriteFile ?lib lib fs3 = Some fs'" using WriteFile_twice [OF fs3] WriteFile_same [OF lib(3)] by simp
    then show ?thesis
      unfolding main using True fs3 generatedRustFiles_write [OF fs3] lib(1,2) by (simp add: writeCrate_again)
  next
    case False
    have "fileAt ?out fs2 = Some message" using WriteFile_node(1) [OF 2(2)] by (simp add: fileAt_def)
    then have "fileAt ?out fs' = Some message" using writeCrate_files [OF 2(3) False] oc by simp
    then show ?thesis
      unfolding main using lib WriteFile_same by (simp add: writeCrate_again)
  qed
qed simp

text \<open>A module with one file of messages, and with a second one in its root.\<close>

definition sampleParse :: "string \<Rightarrow> (string \<times> decl list) option" where
  "sampleParse content = (if content = ''src'' then Some (''api'', [TypeDecl [(''Msg'', StructType sampleFields)]]) else None)"

definition sampleModule :: fsEntries where
  "sampleModule =
     [(''w'', FsDir [(''go.mod'', FsFile []), (''lib.go'', FsFile ''src''), (''api'', FsDir [(''message.go'', FsFile ''src'')])])]"

lemma sample_succeeds:
  "fst (main sampleParse [''w'', ''api''] ''message.go'' sampleModule) = None"
  "fst (main sampleParse [''w''] ''lib.go'' sampleModule) = None"
  by code_simp+

theorem amgen_idempotent_witness:
  "\<exists>fs'. main sampleParse [''w'', ''api''] ''message.go'' sampleModule = (None, fs') \<and> fs' \<noteq> sampleModule \<and>
     main sampleParse [''w'', ''api''] ''message.go'' fs' = (None, fs')"
proof -
  let ?fs = "snd (main sampleParse [''w'', ''api''] ''message.go'' sampleModule)"
  have m: "main sampleParse [''w'', ''api''] ''message.go'' sampleModule = (None, ?fs)"
    using sample_succeeds(1) by (simp add: prod_eq_iff)
  have "?fs \<noteq> sampleModule" by code_simp
  then show ?thesis using m amgen_idempotent [OF m] by blast
qed

section \<open>The generated file is found\<close>

text \<open>The directories that the search goes into by their name.\<close>

definition visible :: "string \<Rightarrow> bool" where
  "visible n \<longleftrightarrow> take 1 n \<noteq> ''.'' \<and> n \<notin> {''target'', ''vendor'', ''node_modules''}"

lemma goModRoot_nearest:
  "findGoModRoot has dir = Some root \<Longrightarrow> dir = root @ p @ q \<Longrightarrow> p \<noteq> [] \<Longrightarrow> \<not> has (root @ p)"
proof (induction has dir arbitrary: q rule: findGoModRoot.induct)
  case (1 has dir)
  show ?case
  proof (cases "has dir")
    case True
    then have "root = dir" using "1.prems"(1) by (subst (asm) findGoModRoot.simps) simp
    then show ?thesis using "1.prems"(2,3) by simp
  next
    case False
    then have rest: "dir \<noteq> []" "findGoModRoot has (butlast dir) = Some root"
      using "1.prems"(1) by (auto simp: findGoModRoot.simps [of has dir] split: if_split_asm)
    show ?thesis
    proof (cases q rule: rev_cases)
      case Nil
      then show ?thesis using False "1.prems"(2) by simp
    next
      case (snoc q' x)
      then show ?thesis using "1.IH" [OF False rest(1,2), of q'] "1.prems"(2,3) by (simp add: butlast_append)
    qed
  qed
qed

lemma in_concat_map: "y \<in> set es \<Longrightarrow> x \<in> set (f y) \<Longrightarrow> x \<in> set (concat (map f es))"
  by auto

lemma walk_finds:
  assumes "fileAt (ds @ [n]) es = Some c" and "hasSuffix n ''.rs''" and "hasGeneratedHeader c"
    and "dir @ ds @ [n] \<noteq> [''lib.rs'']" and "list_all visible ds"
    and "\<And>p q. ds = p @ q \<Longrightarrow> p \<noteq> [] \<Longrightarrow> \<not> Stat (p @ [''go.mod'']) es"
  shows "dir @ ds @ [n] \<in> set (concat (map (\<lambda>x. walkNode dir (fst x) (snd x)) es))"
  using assms
proof (induction ds arbitrary: dir es)
  case Nil
  then have "(n, FsFile c) \<in> set es" by (auto split: option.split_asm fsNode.split_asm dest: map_of_SomeD)
  then show ?case using Nil(2-4) by (auto intro!: bexI [of _ "(n, FsFile c)"])
next
  case (Cons d ds)
  obtain e ds' where e: "ds @ [n] = e # ds'" by (cases "ds @ [n]") auto
  then obtain sub where sub: "map_of es d = Some (FsDir sub)" "fileAt (ds @ [n]) sub = Some c"
    using Cons.prems(1) by (auto split: option.split_asm fsNode.split_asm)
  have below: "\<not> Stat (p @ [''go.mod'']) sub" if "ds = p @ q" for p q
    using Cons.prems(6) [of "d # p" q] that sub(1) by (cases p) auto
  then have "(dir @ [d]) @ ds @ [n] \<in> set (concat (map (\<lambda>x. walkNode (dir @ [d]) (fst x) (snd x)) sub))"
    using Cons.prems by (intro Cons.IH [OF sub(2)]) auto
  moreover have "\<not> skipDir d sub" using below [of "[]" ds] Cons.prems(5) by (auto simp: skipDir_def visible_def)
  moreover have "(d, FsDir sub) \<in> set es" using sub(1) by (rule map_of_SomeD)
  ultimately show ?case by (intro in_concat_map [of "(d, FsDir sub)"]) simp_all
qed

lemma dirEntries_below:
  assumes "nodeAt root (FsDir fs) = Some (FsDir es)"
  shows "dirEntries root fs = es" "fileAt (root @ p) fs = fileAt p es" "Stat (root @ p) fs = Stat p es"
  using assms by (simp_all add: dirEntries_def fileAt_def Stat_def nodeAt_append)

lemma generated_has_header: "generateRust input packageName decls = Inr message \<Longrightarrow> hasGeneratedHeader message"
  by (auto simp: generateRust_def renderRust_def hasGeneratedHeader_def writeLine_def Let_def generatedHeader_def
      split: if_split_asm sum.split_asm)

lemma output_listed:
  assumes "generates parseFile cwd gofile fs message root" and "fileAt (mainOutput cwd gofile) fs = Some message"
    and "mainOutput cwd gofile \<noteq> root @ [''lib.rs'']" and "list_all visible (drop (length root) (butlast (mainOutput cwd gofile)))"
  shows "joinPath (drop (length root) (mainOutput cwd gofile)) \<in> set (generatedRustFiles (dirEntries root fs))"
proof -
  obtain dir stem where p: "mainOutput cwd gofile = dir @ [stem @ ''.rs'']" and r: "goModRoot dir fs = Some root"
    using main_paths [OF assms(1)] by metis
  obtain ds where ds: "dir = root @ ds" using goModRoot_prefix r unfolding goModRoot_def prefix_def by metis
  obtain d' where "nodeAt (root @ ds) (FsDir fs) = Some (FsDir d')"
    using fileAt_parent [of dir] assms(2) p ds by metis
  then obtain es where es: "nodeAt root (FsDir fs) = Some (FsDir es)"
    by (cases "nodeAt root (FsDir fs)"; cases "the (nodeAt root (FsDir fs))"; cases ds) (auto simp: nodeAt_append)
  have vis: "list_all visible ds" using assms(4) by (simp add: p ds butlast_append)
  have "\<not> Stat (p @ [''go.mod'']) es" if "ds = p @ q" "p \<noteq> []" for p q
    using goModRoot_nearest [OF r [unfolded goModRoot_def]] that ds dirEntries_below(3) [OF es, of "p @ [''go.mod'']"] by simp
  then have "[] @ ds @ [stem @ ''.rs''] \<in> set (concat (map (\<lambda>x. walkNode [] (fst x) (snd x)) es))"
    using assms(1-3) vis p ds dirEntries_below(2) [OF es, of "ds @ [stem @ ''.rs'']"] generated_has_header
    by (intro walk_finds [where c = message]) (auto simp: hasSuffix_def generates_def)
  then show ?thesis
    unfolding generatedRustFiles_def dirEntries_below(1) [OF es] p ds by simp
qed

text \<open>C37. A successful run leaves the Rust file of the input beside it, lists it in \<^verbatim>\<open>lib.rs\<close> together with all generated
  files of the module, and leaves a \<^verbatim>\<open>Cargo.toml\<close>. A file is missing in the list only when one of its
  directories is hidden or has one of three reserved names. Whatever the outcome, no file but these three
  is changed, and an existing \<^verbatim>\<open>Cargo.toml\<close> is kept. The one exception is a Go file named
  \<^verbatim>\<open>lib.go\<close> in the root of the module: its Rust file is overwritten by \<^verbatim>\<open>lib.rs\<close>.\<close>

theorem amgen_writes:
  assumes "main parseFile cwd gofile fs = (r, fs')"
  shows "(r = None \<longrightarrow>
      (\<exists>message root lib. generates parseFile cwd gofile fs message root \<and>
        renderLibRS (generatedRustFiles (dirEntries root fs')) = Inr lib \<and> fileAt (root @ [''lib.rs'']) fs' = Some lib \<and>
        Stat (root @ [''Cargo.toml'']) fs' \<and>
        (mainOutput cwd gofile \<noteq> root @ [''lib.rs''] \<longrightarrow>
          fileAt (mainOutput cwd gofile) fs' = Some message \<and>
          (list_all visible (drop (length root) (butlast (mainOutput cwd gofile))) \<longrightarrow>
            joinPath (drop (length root) (mainOutput cwd gofile)) \<in> set (generatedRustFiles (dirEntries root fs')))))) \<and>
    (\<forall>q. fileAt q fs' \<noteq> fileAt q fs \<longrightarrow> q = mainOutput cwd gofile \<or>
      (\<exists>message root. generates parseFile cwd gofile fs message root \<and>
        (q = root @ [''lib.rs''] \<or> q = root @ [''Cargo.toml''] \<and> fileAt q fs = None)))"
  using assms
proof (cases rule: main_cases)
  case (2 message root fs2)
  let ?out = "mainOutput cwd gofile" and ?lib = "root @ [''lib.rs'']" and ?cargo = "root @ [''Cargo.toml'']"
  have oc: "?out \<noteq> ?cargo" using main_output_no_cargo [OF 2(1)] .
  have "fileAt ?out fs2 = Some message" using WriteFile_node(1) [OF 2(2)] by (simp add: fileAt_def)
  then have out: "fileAt ?out fs' = Some message" if "?out \<noteq> ?lib" using writeCrate_files [OF 2(3) that] oc by simp
  have cargo: "fileAt ?cargo fs = None" if "checkRootCargo root fs"
    using that by (auto simp: checkRootCargo_def Stat_def fileAt_def)
  have "q = ?out \<or> q = ?lib \<or> q = ?cargo \<and> fileAt q fs = None" if "fileAt q fs' \<noteq> fileAt q fs" for q
    using that writeCrate_files [OF 2(3), of q] WriteFile_node(2) [OF 2(2), of q] cargo
    by (cases "q = ?out"; cases "q = ?cargo"; cases "checkRootCargo root fs") auto
  then have frame: "\<forall>q. fileAt q fs' \<noteq> fileAt q fs \<longrightarrow> q = ?out \<or> (\<exists>message root. generates parseFile cwd gofile fs message root \<and>
        (q = root @ [''lib.rs''] \<or> q = root @ [''Cargo.toml''] \<and> fileAt q fs = None))"
    using 2(1) by blast
  show ?thesis
  proof (cases "r = None")
    case True
    obtain lib where lib: "renderLibRS (generatedRustFiles (dirEntries root fs')) = Inr lib" "fileAt ?lib fs' = Some lib"
      using writeCrate_success [OF 2(3) [unfolded True]] by metis
    note rest = main_cargo_kept [OF 2(1,2) 2(3) [unfolded True]] output_listed [OF main_input_kept [OF 2] out]
    show ?thesis using frame 2(1) lib rest out by blast
  qed (use frame in blast)
qed auto


theorem amgen_writes_witness:
  "\<exists>fs' message lib. main sampleParse [''w'', ''api''] ''message.go'' sampleModule = (None, fs') \<and>
     fileAt [''w'', ''api'', ''message.rs''] fs' = Some message \<and> hasGeneratedHeader message \<and>
     renderLibRS [''api/message.rs''] = Inr lib \<and> fileAt [''w'', ''lib.rs''] fs' = Some lib \<and>
     ''api/message.rs'' \<in> set (generatedRustFiles (dirEntries [''w''] fs')) \<and>
     fileAt [''w'', ''go.mod''] fs' = Some []"
proof -
  let ?fs = "snd (main sampleParse [''w'', ''api''] ''message.go'' sampleModule)"
  let ?inp = "mainInput [''w'', ''api''] ''message.go''" and ?out = "mainOutput [''w'', ''api''] ''message.go''"
  have m: "main sampleParse [''w'', ''api''] ''message.go'' sampleModule = (None, ?fs)"
    using sample_succeeds(1) by (simp add: prod_eq_iff)
  have paths: "?inp = [''w'', ''api'', ''message.go'']" "?out = [''w'', ''api'', ''message.rs'']" by code_simp+
  have root: "goModRoot [''w'', ''api''] sampleModule = Some [''w'']" by code_simp
  have files: "generatedRustFiles (dirEntries [''w''] ?fs) = [''api/message.rs'']" by code_simp
  have vis: "visible ''api''" by code_simp
  have r: "root = [''w'']" if "generates sampleParse [''w'', ''api''] ''message.go'' sampleModule message root" for message root
    using that root by (simp add: generates_def paths)
  note w = amgen_writes [OF m]
  obtain message root lib where g: "generates sampleParse [''w'', ''api''] ''message.go'' sampleModule message root"
    and lib: "renderLibRS (generatedRustFiles (dirEntries root ?fs)) = Inr lib" "fileAt (root @ [''lib.rs'']) ?fs = Some lib"
    and out: "?out \<noteq> root @ [''lib.rs''] \<Longrightarrow> fileAt ?out ?fs = Some message \<and>
        (list_all visible (drop (length root) (butlast ?out)) \<longrightarrow>
          joinPath (drop (length root) ?out) \<in> set (generatedRustFiles (dirEntries root ?fs)))"
    using conjunct1 [OF w, rule_format, OF refl] by blast
  have h: "hasGeneratedHeader message" using g generated_has_header unfolding generates_def by blast
  have "fileAt [''w'', ''go.mod''] ?fs = fileAt [''w'', ''go.mod''] sampleModule"
    using conjunct2 [OF w, rule_format, of "[''w'', ''go.mod'']"] r by (force simp: paths)
  also have "\<dots> = Some []" by code_simp
  finally have k: "fileAt [''w'', ''go.mod''] ?fs = Some []" .
  have o: "fileAt [''w'', ''api'', ''message.rs''] ?fs = Some message"
    "''api/message.rs'' \<in> set (generatedRustFiles (dirEntries [''w''] ?fs))"
    using out unfolding r [OF g] paths by (simp_all add: vis)
  have l: "renderLibRS [''api/message.rs''] = Inr lib" "fileAt [''w'', ''lib.rs''] ?fs = Some lib"
    using lib unfolding r [OF g] files append.simps by blast+
  show ?thesis
    by (rule exI [of _ ?fs], rule exI [of _ message], rule exI [of _ lib]) (intro conjI m o h l k)
qed

text \<open>A file of messages in the root directory of the module cannot be generated: its Rust file is written, and then
  the run fails, because the directory has no name as a module. The file stays, and with it every later run for any
  package of the module fails.\<close>

theorem root_file_blocks:
  assumes "generates parseFile cwd gofile fs message root" and "CHR ''/'' \<notin> set n" and "n \<noteq> ''lib.rs''"
    and "mainOutput cwd gofile = root @ [n] \<or>
      hasSuffix n ''.rs'' \<and> (\<exists>c. fileAt (root @ [n]) fs = Some c \<and> hasGeneratedHeader c)"
  shows "fst (main parseFile cwd gofile fs) \<noteq> None \<and>
    (WriteFile (mainOutput cwd gofile) message fs \<noteq> None \<longrightarrow>
      (\<exists>c. fileAt (root @ [n]) (snd (main parseFile cwd gofile fs)) = Some c \<and> hasGeneratedHeader c))"
proof (cases "WriteFile (mainOutput cwd gofile) message fs")
  case (Some fs2)
  obtain dir stem where p: "mainOutput cwd gofile = dir @ [stem @ ''.rs'']" using main_paths [OF assms(1)] .
  have n: "hasSuffix n ''.rs''" using assms(4) p by (auto simp: hasSuffix_def)
  have "hasGeneratedHeader message" using assms(1) generated_has_header unfolding generates_def by blast
  then obtain c where c: "fileAt (root @ [n]) fs2 = Some c" "hasGeneratedHeader c"
    using assms(4) WriteFile_node(1,2) [OF Some] by (cases "mainOutput cwd gofile = root @ [n]") (auto simp: fileAt_def)
  obtain es where es: "nodeAt root (FsDir fs2) = Some (FsDir es)" using fileAt_parent [OF c(1)] by blast
  have "[] @ [] @ [n] \<in> set (concat (map (\<lambda>x. walkNode [] (fst x) (snd x)) es))"
    using assms(3) n c dirEntries_below(2) [OF es, of "[n]"] by (intro walk_finds [where c = c]) auto
  then have "n \<in> set (generatedRustFiles (dirEntries root fs2))"
    unfolding generatedRustFiles_def dirEntries_below(1) [OF es] by force
  then have "\<not> modulesOk (generatedRustFiles (dirEntries root fs2))" using root_file_refused assms(2) by blast
  then obtain e where "renderLibRS (generatedRustFiles (dirEntries root fs2)) = Inl e"
    using buildModules_iff by (cases "buildModules (generatedRustFiles (dirEntries root fs2)) []") (auto simp: renderLibRS_def)
  then show ?thesis using main_writes [OF assms(1)] Some c by (simp add: writeCrate_def)
qed (use main_writes [OF assms(1)] in simp)

theorem root_file_blocks_witness:
  "fst (main sampleParse [''w''] ''all.go'' [(''w'', FsDir [(''go.mod'', FsFile []), (''all.go'', FsFile ''src'')])]) \<noteq> None \<and>
   (\<exists>c. fileAt [''w'', ''all.rs'']
      (snd (main sampleParse [''w''] ''all.go'' [(''w'', FsDir [(''go.mod'', FsFile []), (''all.go'', FsFile ''src'')])])) = Some c)"
proof -
  let ?fs = "[(''w'', FsDir [(''go.mod'', FsFile []), (''all.go'', FsFile ''src'')])]"
  let ?decls = "[TypeDecl [(''Msg'', StructType sampleFields)]]"
  have "\<not> isl (generateRust ''all.go'' ''api'' ?decls)" by code_simp
  then obtain message where gr: "generateRust ''all.go'' ''api'' ?decls = Inr message"
    by (cases "generateRust ''all.go'' ''api'' ?decls") simp_all
  have p: "mainInput [''w''] ''all.go'' = [''w'', ''all.go'']" "mainOutput [''w''] ''all.go'' = [''w''] @ [''all.rs'']"
    "TrimSpace ''all.go'' = ''all.go''" by code_simp+
  have r: "goModRoot [''w''] ?fs = Some [''w'']" "fileAt [''w'', ''all.go''] ?fs = Some ''src''"
    "hasSuffix ''all.go'' ''.go''" "WriteFile [''w'', ''all.rs''] m ?fs \<noteq> None" for m by code_simp+
  have "generates sampleParse [''w''] ''all.go'' ?fs message [''w'']"
    using gr r by (auto simp: generates_def p sampleParse_def)
  from root_file_blocks [OF this, of "''all.rs''"] show ?thesis using p r(4) by auto
qed

end
