(* ===== verification/Amgen_Lib.thy ===== *)
theory Amgen_Lib
  imports Amgen_Modules
begin

text \<open>
  The text of \<^verbatim>\<open>lib.rs\<close>, read back the way Rust reads it. \<open>readLib\<close> is a reader for module declarations: comments,
  blank lines, a path attribute, \<^verbatim>\<open>pub mod name;\<close> and inline modules; it refuses anything else, a name that is
  no identifier and a module declared twice. It gives each declared file module with its file: inside inline modules a
  path attribute is relative to the directory those modules name, as the comment of \<^verbatim>\<open>renderLibRS\<close> says. It is not part
  of the program; \<open>lib_modules_resolve\<close> says what it finds in the text that \<^verbatim>\<open>renderLibRS\<close> writes.
\<close>

section \<open>Reading lib.rs\<close>









section \<open>Lines\<close>














section \<open>What is read back\<close>

definition before :: "'a list \<Rightarrow> 'a list option \<Rightarrow> 'a list option" where
  "before xs r = map_option (\<lambda>ys. xs @ ys) r"

lemma before_simps [simp]:
  "before [] r = r" "before xs (before ys r) = before (xs @ ys) r" "map_option (Cons x) r = before [x] r"
  "before xs None = None" "before xs (Some ys) = Some (xs @ ys)"
  by (cases r; simp add: before_def)+














section \<open>Properties\<close>



end
