(* ===== verification/Amgen_Codec.thy ===== *)
theory Amgen_Codec
  imports Amgen_Render Msgpack_Messages
begin

text \<open>
  The generated Rust struct against the compact codec of the Go side: both describe the fields of one
  message, and the compact format has only their number and order in common.
\<close>

text \<open>The fields that \<^verbatim>\<open>reflect\<close> shows for a struct declaration: every declared name, in order, with whether it is
  exported; \<open>ty\<close> is the type that an expression denotes.\<close>

definition declaredFields :: "(expr \<Rightarrow> goType) \<Rightarrow> fieldDecl list \<Rightarrow> (bool \<times> goType) list" where
  "declaredFields ty fs = concat (map (\<lambda>f. map (\<lambda>n. (IsExported n, ty (fd_Type f))) (fd_Names f)) fs)"

lemma renderFields_single:
  assumes "renderFields s structs seen fs = Inr rfs"
  shows "list_all (\<lambda>f. length (fd_Names f) = 1) fs"
  using assms
proof (induction fs arbitrary: seen rfs)
  case (Cons f fs)
  then have "length (fd_Names f) = 1"
    by (auto simp: renderField_def split: list.split_asm)
  moreover have "list_all (\<lambda>f. length (fd_Names f) = 1) fs"
    using Cons by (auto split: sum.split_asm option.split_asm)
  ultimately show ?case by simp
qed simp

lemma declaredFields_single:
  "list_all (\<lambda>f. length (fd_Names f) = 1) fs \<Longrightarrow>
     declaredFields ty fs = map (\<lambda>f. (IsExported (hd (fd_Names f)), ty (fd_Type f))) fs"
  by (induction fs) (auto simp: declaredFields_def length_Suc_conv)

lemma exportedFields_iff: "(\<exists>is. exportedFields i fs = Inr is) \<longleftrightarrow> list_all fst fs"
  by (induction i fs rule: exportedFields.induct) (auto split: sum.split)

lemma compactFieldIndices_iff:
  "(\<exists>is. compactFieldIndices decls (TStruct n) = Inr is) \<longleftrightarrow> list_all fst (st_fields (decls n))"
  using exportedFields_iff [of 0 "st_fields (decls n)"]
  by (cases "exportedFields 0 (st_fields (decls n))") (auto simp: compactFieldIndices_def compactInfoFor.simps Let_def)

lemma included_exported: "length (fd_Names f) = 1 \<Longrightarrow> included f \<Longrightarrow> IsExported (hd (fd_Names f))"
  by (auto simp: included_def length_Suc_conv)

text \<open>C40. The generated Rust struct and the Go struct agree on the number of fields in the compact format exactly when no
  field is left out of the Rust struct. A field with the tag \<^verbatim>\<open>am:"-"\<close> is left out of it, and the
  compact codec encodes and expects the field nevertheless: whatever a peer sends with the fields
  of the Rust struct is then refused, and the destination stays as it was.\<close>

theorem omitted_field_breaks_compact:
  assumes "renderFields s structs [] fs = Inr rfs" and "st_fields (decls n) = declaredFields ty fs"
  shows "((\<exists>is. compactFieldIndices decls (TStruct n) = Inr is \<and> length is = length rfs) \<longleftrightarrow> list_all included fs) \<and>
    (\<not> list_all included fs \<longrightarrow>
      (\<exists>e. decodeCompactInto lib decls depth fuel flds (int (length rfs)) (Ptr (TStruct n) (Some (Struct n ds))) =
         (Some e, Ptr (TStruct n) (Some (Struct n ds)))))"
proof -
  have one: "list_all (\<lambda>f. length (fd_Names f) = 1) fs" by (rule renderFields_single [OF assms(1)])
  have flds: "st_fields (decls n) = map (\<lambda>f. (IsExported (hd (fd_Names f)), ty (fd_Type f))) fs"
    using assms(2) declaredFields_single [OF one] by simp
  have "length rfs = length (filter included fs)"
    using renderFields_included [OF assms(1)] by (metis length_map)
  then have len: "length rfs = length fs \<longleftrightarrow> list_all included fs"
    by (metis length_filter_less list.pred_set order_less_irrefl filter_id_conv)
  have "list_all included fs \<Longrightarrow> list_all fst (st_fields (decls n))"
    using one included_exported by (simp add: flds list_all_iff)
  then have iff: "(\<exists>is. compactFieldIndices decls (TStruct n) = Inr is \<and> length is = length rfs) \<longleftrightarrow> list_all included fs"
    using compactFieldIndices_iff [of decls n] compactFieldIndices_length [of decls n] len by (auto simp: flds)
  then show ?thesis
    by (cases "compactFieldIndices decls (TStruct n)") (auto simp: decodeCompactInto_def)
qed

text \<open>A message with a counter that is left out.\<close>

definition omitFields :: "fieldDecl list" where
  "omitFields = [Field [''Name''] (Ident ''string'') (amTag ''name''), Field [''Hits''] (Ident ''int'') (amTag ''-'')]"

definition omitTypes :: typeTable where
  "omitTypes n =
     \<lparr>st_pkgPath = ''example.com/shop'', st_name = n, st_fields = [(True, TBasic ''string''), (True, TBasic ''int'')],
      st_valueImplements = [], st_ptrImplements = [], st_valueWireName = None, st_ptrWireName = None, st_handles = False\<rparr>"

definition identType :: "expr \<Rightarrow> goType" where
  "identType e = (case e of Ident n \<Rightarrow> TBasic n | _ \<Rightarrow> goType.TInterface '''')"

theorem omitted_field_breaks_compact_witness:
  "\<exists>rfs e. renderFields ''Page'' [''Page''] [] omitFields = Inr rfs \<and> length rfs = 1 \<and>
     compactFieldIndices omitTypes (TStruct ''Page'') = Inr [0, 1] \<and>
     decodeCompactInto refMsgpack omitTypes 1 1 [161, 120] 1 (newStruct omitTypes 1 ''Page'') =
       (Some e, newStruct omitTypes 1 ''Page'')"
proof -
  obtain rfs where r: "renderFields ''Page'' [''Page''] [] omitFields = Inr rfs" "length rfs = 1"
  proof
    show "renderFields ''Page'' [''Page''] [] omitFields =
        Inr [\<lparr>rf_name = ''name'', rf_type = ''String'', rf_tag = ''name'', rf_asBytes = False, rf_usesMap = False\<rparr>]" by code_simp
  qed simp
  have d: "st_fields (omitTypes ''Page'') = declaredFields identType omitFields" by code_simp
  have n: "newStruct omitTypes 1 ''Page'' =
      Ptr (TStruct ''Page'') (Some (Struct ''Page'' [Basic ''string'' (BString []), Basic ''int'' (BInt 0)]))" by code_simp
  have "\<not> list_all included omitFields" by code_simp
  moreover have "compactFieldIndices omitTypes (TStruct ''Page'') = Inr [0, 1]" by code_simp
  ultimately show ?thesis
    using omitted_field_breaks_compact [OF r(1), of omitTypes "''Page''" identType refMsgpack 1 1 "[161, 120]"
        "[Basic ''string'' (BString []), Basic ''int'' (BInt 0)]"] d r n
    by auto
qed

end
