(* ===== verification/Echo_Example.thy ===== *)
theory Echo_Example
  imports Dispatch "HOL-Library.Sublist" "HOL-Library.Multiset"
begin

text \<open>
  The services of the examples: the state and the handlers of the echo server (\<^verbatim>\<open>src/examples/echo/state.go\<close>,
  \<^verbatim>\<open>handler.go\<close>, \<^verbatim>\<open>message.go\<close>, the callbacks of \<^verbatim>\<open>cmd/server/main.go\<close> and the loops of \<^verbatim>\<open>cmd/client/main.go\<close> that
  call them) and the handler of the hello server (\<^verbatim>\<open>src/examples/hello\<close>).

  A Go map with empty values is the list of its keys; \<open>iter\<close> is the order in which a \<^verbatim>\<open>range\<close> visits it.
  The channels that \<^verbatim>\<open>Subscribe\<close> makes are kept in \<open>sm_chans\<close>, a \<^verbatim>\<open>chan string\<close> is the index of one. An
  operation that may panic returns \<open>None\<close> then: a send on a closed channel, and closing one twice. A
  \<^verbatim>\<open>*StatMgr\<close> is an address of type \<open>'p\<close>, or nil. Sleeping and logging change no state and are left out.
\<close>

section \<open>The manager of the echo server\<close>

record StatMgr =
  sm_clients :: "string list"
  sm_subs :: "nat list"
  sm_counter :: "64 word"
  sm_chans :: "string chan list"

definition NewStatMgr :: StatMgr where
  "NewStatMgr = \<lparr>sm_clients = [], sm_subs = [], sm_counter = 0, sm_chans = []\<rparr>"

definition IncCounter :: "StatMgr \<Rightarrow> StatMgr" where
  "IncCounter s = s\<lparr>sm_counter := sm_counter s + 1\<rparr>"

definition Counter :: "StatMgr \<Rightarrow> 64 word" where
  "Counter s = sm_counter s"

text \<open>The two halves of \<^verbatim>\<open>OnConnect\<close>, each under its own mutex. A subscriber whose channel is full is passed
  over.\<close>

definition addClient :: "string \<Rightarrow> StatMgr \<Rightarrow> StatMgr" where
  "addClient addr s = s\<lparr>sm_clients := List.insert addr (sm_clients s)\<rparr>"

definition notifySub :: "string \<Rightarrow> nat \<Rightarrow> StatMgr \<Rightarrow> StatMgr option" where
  "notifySub addr ch s =
     (let q = sm_chans s ! ch
      in if ch_closed q then None
         else if ch_room q then Some (s\<lparr>sm_chans := (sm_chans s)[ch := ch_send addr q]\<rparr>)
         else Some s)"

fun notifySubs :: "string \<Rightarrow> nat list \<Rightarrow> StatMgr \<Rightarrow> StatMgr option" where
  "notifySubs addr [] s = Some s"
| "notifySubs addr (ch # chs) s =
     (case notifySub addr ch s of None \<Rightarrow> None | Some s1 \<Rightarrow> notifySubs addr chs s1)"

definition mgr_OnConnect :: "(nat list \<Rightarrow> nat list) \<Rightarrow> string \<Rightarrow> StatMgr \<Rightarrow> StatMgr option" where
  "mgr_OnConnect iter addr s = notifySubs addr (iter (sm_subs s)) (addClient addr s)"

definition mgr_OnDisconnect :: "string \<Rightarrow> StatMgr \<Rightarrow> StatMgr" where
  "mgr_OnDisconnect addr s = s\<lparr>sm_clients := remove1 addr (sm_clients s)\<rparr>"

definition Subscribe :: "StatMgr \<Rightarrow> nat \<times> StatMgr" where
  "Subscribe s =
     (let ch = length (sm_chans s)
      in (ch, s\<lparr>sm_chans := sm_chans s @ [make_chan 1024], sm_subs := List.insert ch (sm_subs s)\<rparr>))"

text \<open>The two halves of \<^verbatim>\<open>Unsubscribe\<close>: the channel leaves the map under the mutex and is closed after it.\<close>

definition dropSub :: "nat \<Rightarrow> StatMgr \<Rightarrow> StatMgr" where
  "dropSub ch s = s\<lparr>sm_subs := remove1 ch (sm_subs s)\<rparr>"

definition closeSub :: "nat \<Rightarrow> StatMgr \<Rightarrow> StatMgr option" where
  "closeSub ch s =
     (if ch_closed (sm_chans s ! ch) then None
      else Some (s\<lparr>sm_chans := (sm_chans s)[ch := ch_close (sm_chans s ! ch)]\<rparr>))"

definition Unsubscribe :: "nat \<Rightarrow> StatMgr \<Rightarrow> StatMgr option" where
  "Unsubscribe ch s = closeSub ch (dropSub ch s)"

fun listLoop :: "string \<Rightarrow> string list \<Rightarrow> string" where
  "listLoop out [] = out"
| "listLoop out (c # cs) = listLoop ((if out \<noteq> '''' then out @ '' '' else out) @ c) cs"

definition ListClients :: "(string list \<Rightarrow> string list) \<Rightarrow> StatMgr \<Rightarrow> string" where
  "ListClients iter s = listLoop '''' (iter (sm_clients s))"

section \<open>The handlers of the echo server\<close>

record MessageRequest =
  mr_Msg :: string
  mr_Num :: "32 word"

record MessageReply =
  mp_Msg :: string
  mp_Num :: "32 word"
  mp_Signature :: string

record WhoElseReply =
  wr_Clients :: string

definition statFromContext :: "('v \<Rightarrow> 'p option option) \<Rightarrow> 'v StreamContext \<Rightarrow> 'p result" where
  "statFromContext asMgr ctx =
     (case State asMgr ctx of
        Some (Some mgr) \<Rightarrow> Inr mgr
      | _ \<Rightarrow> Inl (OtherError ''missing stream context''))"

text \<open>A handler changes the message it is called on, too; \<open>mgrs\<close> are the managers by address.\<close>

definition MessageRequest_Handle ::
    "('v \<Rightarrow> 'p option option) \<Rightarrow> 'v StreamContext \<Rightarrow> MessageRequest \<Rightarrow> ('p \<Rightarrow> StatMgr) \<Rightarrow>
     MessageReply result \<times> MessageRequest \<times> ('p \<Rightarrow> StatMgr)" where
  "MessageRequest_Handle asMgr ctx msg mgrs =
     (case statFromContext asMgr ctx of
        Inl err \<Rightarrow> (Inl err, msg, mgrs)
      | Inr mgr \<Rightarrow>
          let mgrs1 = mgrs(mgr := IncCounter (mgrs mgr));
              msg1 = msg\<lparr>mr_Msg := mr_Msg msg @ ''!''\<rparr>;
              msg2 = msg1\<lparr>mr_Num := mr_Num msg1 + 1\<rparr>
          in (Inr \<lparr>mp_Msg = mr_Msg msg2, mp_Num = mr_Num msg2, mp_Signature = ''yours echo.v1.0''\<rparr>,
              msg2, mgrs1))"

text \<open>\<^verbatim>\<open>SubWhoElseEvent.Handle\<close>: the channel the started task reads, or the error; the reply is \<^verbatim>\<open>nil\<close>.\<close>

definition SubWhoElseEvent_Handle ::
    "('v \<Rightarrow> 'p option option) \<Rightarrow> 'v StreamContext \<Rightarrow> ('p \<Rightarrow> StatMgr) \<Rightarrow>
     (nat result \<times> 'v StreamContext \<times> ('p \<Rightarrow> StatMgr)) option" where
  "SubWhoElseEvent_Handle asMgr ctx mgrs =
     (case statFromContext asMgr ctx of
        Inl err \<Rightarrow> Some (Inl err, ctx, mgrs)
      | Inr mgr \<Rightarrow>
          (case Subscribe (mgrs mgr) of
             (rx, s) \<Rightarrow>
               (case NewTask ctx of
                  (None, ctx1) \<Rightarrow> Some (Inr rx, ctx1, mgrs(mgr := s))
                | (Some err, ctx1) \<Rightarrow>
                    map_option (\<lambda>s1. (Inl err, ctx1, mgrs(mgr := s1))) (Unsubscribe rx s))))"

text \<open>A round of the loop of the task: \<open>Inl\<close> the manager with which the task ends, by the deferred
  \<^verbatim>\<open>Unsubscribe\<close>, or \<open>Inr\<close> the event sent and the manager with which it goes on. \<open>sendFails\<close> says whether
  \<^verbatim>\<open>stream.Send\<close> returns an error. With an empty open channel it waits.\<close>

definition takeEvent :: "nat \<Rightarrow> StatMgr \<Rightarrow> (string \<times> StatMgr) option" where
  "takeEvent rx s =
     (case ch_buf (sm_chans s ! rx) of
        [] \<Rightarrow> None
      | addr # rest \<Rightarrow> Some (addr, s\<lparr>sm_chans := (sm_chans s)[rx := (sm_chans s ! rx)\<lparr>ch_buf := rest\<rparr>]\<rparr>))"

definition eventRound ::
    "(string \<Rightarrow> bool) \<Rightarrow> nat \<Rightarrow> StatMgr \<Rightarrow> (StatMgr option + string \<times> StatMgr) outcomes" where
  "eventRound sendFails rx s =
     (case takeEvent rx s of
        None \<Rightarrow> if ch_closed (sm_chans s ! rx) then [Inl (Unsubscribe rx s)] else []
      | Some (addr, s1) \<Rightarrow>
          if sendFails addr then [Inl (Unsubscribe rx s1)] else [Inr (addr, s1)])"

definition WhoElse_Handle ::
    "('v \<Rightarrow> 'p option option) \<Rightarrow> (string list \<Rightarrow> string list) \<Rightarrow> 'v StreamContext \<Rightarrow> ('p \<Rightarrow> StatMgr) \<Rightarrow>
     WhoElseReply result" where
  "WhoElse_Handle asMgr iter ctx mgrs =
     (case statFromContext asMgr ctx of
        Inl err \<Rightarrow> Inl err
      | Inr mgr \<Rightarrow> Inr \<lparr>wr_Clients = ListClients iter (mgrs mgr)\<rparr>)"

text \<open>\<^verbatim>\<open>MessageTimeout.Handle\<close> sleeps and returns neither reply nor error.\<close>

definition MessageTimeout_Handle :: "64 word \<Rightarrow> 'm option result" where
  "MessageTimeout_Handle secs = Inr None"

text \<open>The callbacks of the server's \<^verbatim>\<open>main\<close>.\<close>

definition clientName :: "string \<Rightarrow> string" where
  "clientName addr = (if addr = '''' then ''client-unknown'' else addr)"

definition main_onConnect :: "(nat list \<Rightarrow> nat list) \<Rightarrow> string \<Rightarrow> StatMgr \<Rightarrow> (go_error option \<times> StatMgr) option" where
  "main_onConnect iter peerAddr mgr = map_option (Pair None) (mgr_OnConnect iter (clientName peerAddr) mgr)"

definition main_onDisconnect :: "string \<Rightarrow> StatMgr \<Rightarrow> go_error option \<times> StatMgr" where
  "main_onDisconnect peerAddr mgr = (None, mgr_OnDisconnect (clientName peerAddr) mgr)"

text \<open>\<^verbatim>\<open>OnNewStream\<close>: the value stored is the pointer to the manager; the second component numbers the
  streams.\<close>

definition main_onNewStream ::
    "'v \<Rightarrow> 'v StreamContext \<times> 64 word \<Rightarrow> 'v StreamContext \<times> 64 word" where
  "main_onNewStream mgr st = (SetState (Some mgr) (fst st), snd st + 1)"

section \<open>The loops of the echo client\<close>

text \<open>\<open>call\<close> is \<^verbatim>\<open>SendRecv\<close> on the connection or the stream, \<open>'s\<close> the state of both ends. The number of
  rounds left is the argument on which the loops recurse.\<close>

fun echoDemo :: "(MessageRequest \<Rightarrow> 's \<Rightarrow> MessageReply result \<times> 's) \<Rightarrow> nat \<Rightarrow> 32 word \<Rightarrow> 's \<Rightarrow> go_error option \<times> 's" where
  "echoDemo call 0 num s = (None, s)"
| "echoDemo call (Suc i) num s =
     (let num1 = num + 100
      in case call \<lparr>mr_Msg = ''ni hao'', mr_Num = num1\<rparr> s of
           (Inl err, s1) \<Rightarrow> (Some err, s1)
         | (Inr rep, s1) \<Rightarrow> echoDemo call i num1 s1)"

fun streamDemo :: "(MessageRequest \<Rightarrow> 's \<Rightarrow> MessageReply result \<times> 's) \<Rightarrow> nat \<Rightarrow> 32 word \<Rightarrow> 's \<Rightarrow> go_error option \<times> 's" where
  "streamDemo call 0 num s = (None, s)"
| "streamDemo call (Suc k) num s =
     (let num1 = num + 10
      in case call \<lparr>mr_Msg = ''ni hao'', mr_Num = num1\<rparr> s of
           (Inl err, s1) \<Rightarrow> (Some err, s1)
         | (Inr rep, s1) \<Rightarrow>
             if num1 + 1 \<noteq> mp_Num rep then (Some (OtherError ''wrong number: reply does not match''), s1)
             else streamDemo call k num1 s1)"

fun whoelseQueryDemo :: "('s \<Rightarrow> WhoElseReply result \<times> 's) \<Rightarrow> nat \<Rightarrow> 's \<Rightarrow> go_error option \<times> 's" where
  "whoelseQueryDemo call 0 s = (None, s)"
| "whoelseQueryDemo call (Suc i) s =
     (case call s of
        (Inl err, s1) \<Rightarrow> (Some err, s1)
      | (Inr rep, s1) \<Rightarrow> whoelseQueryDemo call i s1)"

text \<open>\<^verbatim>\<open>timeoutDemo\<close>: \<open>call\<close> takes the receive timeout of the stream, in nanoseconds, and the seconds to wait. Only the
  third request may time out.\<close>

definition timeoutDemo :: "(int \<Rightarrow> 64 word \<Rightarrow> 's \<Rightarrow> go_error option \<times> 's) \<Rightarrow> 's \<Rightarrow> go_error option \<times> 's" where
  "timeoutDemo call s =
     (case call 0 10 s of
        (Some err, s1) \<Rightarrow> (Some err, s1)
      | (None, s1) \<Rightarrow>
          (case call 15000000000 10 s1 of
             (Some err, s2) \<Rightarrow> (Some err, s2)
           | (None, s2) \<Rightarrow>
               (case call 3000000000 10 s2 of
                  (err, s3) \<Rightarrow>
                    if err = None \<or> err = Some ErrRecvTimeout then call 0 10 s3 else (err, s3))))"

text \<open>\<^verbatim>\<open>whoelseSubscribeDemo\<close> receives until an error; the events it logs are part of the result.\<close>

partial_function (option) receiveEvents ::
    "('s \<Rightarrow> string result \<times> 's) \<Rightarrow> string list \<Rightarrow> 's \<Rightarrow> (string list \<times> go_error \<times> 's) option" where
  "receiveEvents recv events s =
     (case recv s of
        (Inl err, s1) \<Rightarrow> Some (events, err, s1)
      | (Inr addr, s1) \<Rightarrow> receiveEvents recv (events @ [addr]) s1)"

definition whoelseSubscribeDemo ::
    "('s \<Rightarrow> go_error option \<times> 's) \<Rightarrow> ('s \<Rightarrow> string result \<times> 's) \<Rightarrow> 's \<Rightarrow> (string list \<times> go_error \<times> 's) option" where
  "whoelseSubscribeDemo subscribe recv s =
     (case subscribe s of
        (Some err, s1) \<Rightarrow> Some ([], err, s1)
      | (None, s1) \<Rightarrow> receiveEvents recv [] s1)"

section \<open>The hello server\<close>

record HelloRequest =
  hr_Who :: string
  hr_Question :: string

record HelloInternal =
  hi_TraceID :: string

record HelloReply =
  hp_Answer :: string
  hp_Internal :: HelloInternal

text \<open>\<^verbatim>\<open>strings.ToLower\<close>: ASCII letters by their codes; a string with other runes goes through the tables of
  the \<^verbatim>\<open>unicode\<close> package, the parameter \<open>lowerRunes\<close>.\<close>

definition lowerChar :: "char \<Rightarrow> char" where
  "lowerChar c = (if 65 \<le> (of_char c :: nat) \<and> of_char c \<le> (90 :: nat) then char_of (of_char c + 32 :: nat) else c)"

definition ToLower :: "(string \<Rightarrow> string) \<Rightarrow> string \<Rightarrow> string" where
  "ToLower lowerRunes s =
     (if list_all (\<lambda>c. of_char c < (128 :: nat)) s then map lowerChar s else lowerRunes s)"

text \<open>\<^verbatim>\<open>strings.Contains\<close>.\<close>

fun Contains :: "string \<Rightarrow> string \<Rightarrow> bool" where
  "Contains [] sub \<longleftrightarrow> sub = []"
| "Contains (c # cs) sub \<longleftrightarrow> take (length sub) (c # cs) = sub \<or> Contains cs sub"

definition HelloRequest_Handle :: "(string \<Rightarrow> string) \<Rightarrow> HelloRequest \<Rightarrow> HelloReply result" where
  "HelloRequest_Handle lowerRunes msg =
     (let question = ToLower lowerRunes (hr_Question msg)
      in if Contains question ''error'' then Inl (OtherError (''bad request: '' @ question))
         else
           let answer = (if Contains question ''who are you'' then ''I am hello server''
                         else if Contains question ''how are you'' then ''I am good''
                         else ''I don't know'')
           in Inr \<lparr>hp_Answer = answer @ '', '' @ hr_Who msg,
                   hp_Internal = \<lparr>hi_TraceID = ''trace-'' @ hr_Who msg\<rparr>\<rparr>)"

section \<open>Subscribers\<close>

text \<open>The goroutines of the server on one manager, interleaved wherever a mutex is released. A subscription is
  the handler between \<^verbatim>\<open>Subscribe\<close> and \<^verbatim>\<open>NewTask\<close>, then the task, then the two halves of \<^verbatim>\<open>Unsubscribe\<close>. For
  every channel \<open>es_seen\<close> has the addresses announced while it was in the map and \<open>es_sent\<close> the events sent
  to the client.\<close>

datatype subPhase = Subscribed | Serving | Leaving | Left

record echoState =
  es_mgr :: StatMgr
  es_phase :: "subPhase list"
  es_seen :: "string list list"
  es_sent :: "string list list"

inductive echo_run :: "echoState \<Rightarrow> bool" where
  er_start: "echo_run \<lparr>es_mgr = NewStatMgr, es_phase = [], es_seen = [], es_sent = []\<rparr>"
| er_client: "echo_run e \<Longrightarrow> echo_run (e\<lparr>es_mgr := addClient addr (es_mgr e)\<rparr>)"
| er_disconnect: "echo_run e \<Longrightarrow> echo_run (e\<lparr>es_mgr := mgr_OnDisconnect addr (es_mgr e)\<rparr>)"
| er_count: "echo_run e \<Longrightarrow> echo_run (e\<lparr>es_mgr := IncCounter (es_mgr e)\<rparr>)"
| er_notify: "echo_run e \<Longrightarrow> mset chs = mset (sm_subs (es_mgr e)) \<Longrightarrow> notifySubs addr chs (es_mgr e) = Some m \<Longrightarrow>
     echo_run (e\<lparr>es_mgr := m,
       es_seen := map (\<lambda>ch. es_seen e ! ch @ (if ch \<in> set chs then [addr] else [])) [0..<length (es_seen e)]\<rparr>)"
| er_subscribe: "echo_run e \<Longrightarrow> Subscribe (es_mgr e) = (ch, m) \<Longrightarrow>
     echo_run \<lparr>es_mgr = m, es_phase = es_phase e @ [Subscribed], es_seen = es_seen e @ [[]], es_sent = es_sent e @ [[]]\<rparr>"
| er_task: "echo_run e \<Longrightarrow> ch < length (es_phase e) \<Longrightarrow> es_phase e ! ch = Subscribed \<Longrightarrow>
     echo_run (e\<lparr>es_phase := (es_phase e)[ch := Serving]\<rparr>)"
| er_busy: "echo_run e \<Longrightarrow> ch < length (es_phase e) \<Longrightarrow> es_phase e ! ch = Subscribed \<Longrightarrow>
     echo_run (e\<lparr>es_mgr := dropSub ch (es_mgr e), es_phase := (es_phase e)[ch := Leaving]\<rparr>)"
| er_event: "echo_run e \<Longrightarrow> ch < length (es_phase e) \<Longrightarrow> es_phase e ! ch = Serving \<Longrightarrow>
     takeEvent ch (es_mgr e) = Some (addr, m) \<Longrightarrow>
     echo_run (e\<lparr>es_mgr := m, es_sent := (es_sent e)[ch := es_sent e ! ch @ [addr]]\<rparr>)"
| er_fails: "echo_run e \<Longrightarrow> ch < length (es_phase e) \<Longrightarrow> es_phase e ! ch = Serving \<Longrightarrow>
     takeEvent ch (es_mgr e) = Some (addr, m) \<Longrightarrow>
     echo_run (e\<lparr>es_mgr := dropSub ch m, es_phase := (es_phase e)[ch := Leaving]\<rparr>)"
| er_drained: "echo_run e \<Longrightarrow> ch < length (es_phase e) \<Longrightarrow> es_phase e ! ch = Serving \<Longrightarrow>
     takeEvent ch (es_mgr e) = None \<Longrightarrow> ch_closed (sm_chans (es_mgr e) ! ch) \<Longrightarrow>
     echo_run (e\<lparr>es_mgr := dropSub ch (es_mgr e), es_phase := (es_phase e)[ch := Leaving]\<rparr>)"
| er_close: "echo_run e \<Longrightarrow> ch < length (es_phase e) \<Longrightarrow> es_phase e ! ch = Leaving \<Longrightarrow>
     closeSub ch (es_mgr e) = Some m \<Longrightarrow>
     echo_run (e\<lparr>es_mgr := m, es_phase := (es_phase e)[ch := Left]\<rparr>)"

text \<open>The invariant, for the whole table and for one channel.\<close>

definition subscribed :: "subPhase \<Rightarrow> bool" where
  "subscribed ph \<longleftrightarrow> ph = Subscribed \<or> ph = Serving"

lemma subscribed_simps [simp]:
  "subscribed Subscribed" "subscribed Serving" "\<not> subscribed Leaving" "\<not> subscribed Left"
  by (simp_all add: subscribed_def)

definition chan_inv :: "bool \<Rightarrow> string chan \<Rightarrow> subPhase \<Rightarrow> string list \<Rightarrow> string list \<Rightarrow> bool" where
  "chan_inv listed q ph seen sent \<longleftrightarrow>
     ch_cap q = 1024 \<and> length (ch_buf q) \<le> 1024 \<and> (listed \<longleftrightarrow> subscribed ph) \<and> (ch_closed q \<longleftrightarrow> ph = Left) \<and>
     subseq (sent @ ch_buf q) seen \<and> (subscribed ph \<and> length seen \<le> 1024 \<longrightarrow> sent @ ch_buf q = seen)"

definition echo_inv :: "echoState \<Rightarrow> bool" where
  "echo_inv e \<longleftrightarrow>
     (let m = es_mgr e; n = length (sm_chans m)
      in length (es_phase e) = n \<and> length (es_seen e) = n \<and> length (es_sent e) = n \<and>
         distinct (sm_subs m) \<and> set (sm_subs m) \<subseteq> {..<n} \<and>
         (\<forall>ch < n. chan_inv (ch \<in> set (sm_subs m)) (sm_chans m ! ch) (es_phase e ! ch) (es_seen e ! ch) (es_sent e ! ch)))"

lemma echo_invI:
  assumes "echo_inv e" "length (sm_chans m) = length (sm_chans (es_mgr e))" "length ph = length (es_phase e)"
    "length seen = length (es_seen e)" "length sent = length (es_sent e)"
    "distinct (sm_subs m)" "set (sm_subs m) \<subseteq> set (sm_subs (es_mgr e))"
    "\<And>ch. ch < length (es_phase e) \<Longrightarrow> chan_inv (ch \<in> set (sm_subs (es_mgr e))) (sm_chans (es_mgr e) ! ch) (es_phase e ! ch) (es_seen e ! ch) (es_sent e ! ch) \<Longrightarrow>
       chan_inv (ch \<in> set (sm_subs m)) (sm_chans m ! ch) (ph ! ch) (seen ! ch) (sent ! ch)"
  shows "echo_inv \<lparr>es_mgr = m, es_phase = ph, es_seen = seen, es_sent = sent\<rparr>"
  using assms by (auto simp: echo_inv_def Let_def)

text \<open>Announcing an address to open channels succeeds and adds it where there is room.\<close>

lemma notifySubs_spec:
  assumes "distinct chs" "\<forall>ch \<in> set chs. ch < length (sm_chans s) \<and> \<not> ch_closed (sm_chans s ! ch)"
  shows "\<exists>qs. notifySubs addr chs s = Some (s\<lparr>sm_chans := qs\<rparr>) \<and> length qs = length (sm_chans s) \<and>
     (\<forall>ch < length qs. qs ! ch =
        (if ch \<in> set chs \<and> ch_room (sm_chans s ! ch) then ch_send addr (sm_chans s ! ch) else sm_chans s ! ch))"
  using assms
proof (induction chs arbitrary: s)
  case Nil
  then show ?case by (intro exI [of _ "sm_chans s"]) simp
next
  case (Cons c chs)
  let ?q = "sm_chans s ! c"
  define s1 where "s1 = (if ch_room ?q then s\<lparr>sm_chans := (sm_chans s)[c := ch_send addr ?q]\<rparr> else s)"
  have chans: "length (sm_chans s1) = length (sm_chans s)"
    "\<And>ch. ch \<noteq> c \<Longrightarrow> sm_chans s1 ! ch = sm_chans s ! ch"
    "sm_chans s1 ! c = (if ch_room ?q then ch_send addr ?q else ?q)"
    using Cons.prems by (auto simp: s1_def)
  have "notifySub addr c s = Some s1"
    using Cons.prems by (simp add: notifySub_def Let_def s1_def)
  moreover have "\<forall>ch \<in> set chs. ch < length (sm_chans s1) \<and> \<not> ch_closed (sm_chans s1 ! ch)"
    using Cons.prems chans(1,2) by (metis distinct.simps(2) list.set_intros(2))
  moreover have "s1\<lparr>sm_chans := qs\<rparr> = s\<lparr>sm_chans := qs\<rparr>" for qs
    by (simp add: s1_def)
  ultimately obtain qs where "notifySubs addr (c # chs) s = Some (s\<lparr>sm_chans := qs\<rparr>)"
    "length qs = length (sm_chans s)"
    "\<forall>ch < length qs. qs ! ch =
        (if ch \<in> set chs \<and> ch_room (sm_chans s1 ! ch) then ch_send addr (sm_chans s1 ! ch) else sm_chans s1 ! ch)"
    using Cons.IH [of s1] Cons.prems(1) chans(1) by auto
  moreover have "c \<notin> set chs" using Cons.prems(1) by simp
  moreover have "(if ch \<in> set chs \<and> ch_room (sm_chans s1 ! ch) then ch_send addr (sm_chans s1 ! ch) else sm_chans s1 ! ch) =
      (if ch \<in> set (c # chs) \<and> ch_room (sm_chans s ! ch) then ch_send addr (sm_chans s ! ch) else sm_chans s ! ch)" for ch
    using chans(2) [of ch] chans(3) \<open>c \<notin> set chs\<close> by (cases "ch = c") simp_all
  ultimately show ?case by (intro exI [of _ qs]) simp
qed

lemma chan_inv_announce:
  assumes "chan_inv listed q ph seen sent"
  shows "chan_inv listed (if listed \<and> ch_room q then ch_send addr q else q) ph
     (seen @ (if listed then [addr] else [])) sent"
  using assms
  by (auto simp: chan_inv_def ch_room_def ch_send_def list_emb_append_mono simp flip: append_assoc
        intro: list_emb_append2)

lemma echo_inv_open:
  "echo_inv e \<Longrightarrow> ch \<in> set (sm_subs (es_mgr e)) \<Longrightarrow>
   ch < length (sm_chans (es_mgr e)) \<and> \<not> ch_closed (sm_chans (es_mgr e) ! ch)"
  by (auto simp: echo_inv_def chan_inv_def Let_def)

lemma echo_inv_notify:
  assumes inv: "echo_inv e" and chs: "mset chs = mset (sm_subs (es_mgr e))"
  shows "\<exists>m. notifySubs addr chs (es_mgr e) = Some m \<and>
     echo_inv (e\<lparr>es_mgr := m,
       es_seen := map (\<lambda>ch. es_seen e ! ch @ (if ch \<in> set chs then [addr] else [])) [0..<length (es_seen e)]\<rparr>)"
proof -
  let ?m = "es_mgr e"
  have set_chs: "set chs = set (sm_subs ?m)" using chs by (rule mset_eq_setD)
  have "distinct chs" using inv chs by (metis echo_inv_def mset_eq_imp_distinct_iff)
  then obtain qs where run: "notifySubs addr chs ?m = Some (?m\<lparr>sm_chans := qs\<rparr>)"
    and qs: "length qs = length (sm_chans ?m)" "\<forall>ch < length qs. qs ! ch =
        (if ch \<in> set chs \<and> ch_room (sm_chans ?m ! ch) then ch_send addr (sm_chans ?m ! ch) else sm_chans ?m ! ch)"
    using notifySubs_spec [of chs ?m addr] echo_inv_open [OF inv] set_chs by blast
  have "chan_inv (ch \<in> set (sm_subs ?m)) (qs ! ch) (es_phase e ! ch)
      (es_seen e ! ch @ (if ch \<in> set (sm_subs ?m) then [addr] else [])) (es_sent e ! ch)"
    if "ch < length (sm_chans ?m)" for ch
    using chan_inv_announce [of "ch \<in> set (sm_subs ?m)" "sm_chans ?m ! ch" _ _ _ addr] inv that qs
    by (simp add: echo_inv_def Let_def set_chs)
  then have "echo_inv \<lparr>es_mgr = ?m\<lparr>sm_chans := qs\<rparr>, es_phase = es_phase e,
      es_seen = map (\<lambda>ch. es_seen e ! ch @ (if ch \<in> set chs then [addr] else [])) [0..<length (es_seen e)],
      es_sent = es_sent e\<rparr>"
    using inv qs(1) by (simp add: echo_inv_def Let_def set_chs)
  with run show ?thesis by (cases e) simp
qed

text \<open>Every channel but one keeps its part of the invariant when that one's channel, phase and log change.\<close>

lemma echo_inv_at:
  assumes inv: "echo_inv e" and ch: "ch < length (es_phase e)"
    and new: "chan_inv listed q ph (es_seen e ! ch) sent"
    and subs: "subs = (if listed then sm_subs (es_mgr e) else remove1 ch (sm_subs (es_mgr e)))"
    and listed: "listed \<Longrightarrow> ch \<in> set (sm_subs (es_mgr e))"
  shows "echo_inv \<lparr>es_mgr = (es_mgr e)\<lparr>sm_chans := (sm_chans (es_mgr e))[ch := q], sm_subs := subs\<rparr>,
     es_phase = (es_phase e)[ch := ph], es_seen = es_seen e, es_sent = (es_sent e)[ch := sent]\<rparr>"
proof -
  have "distinct (sm_subs (es_mgr e))" and len: "length (es_phase e) = length (sm_chans (es_mgr e))"
      "length (es_sent e) = length (sm_chans (es_mgr e))"
    using inv by (simp_all add: echo_inv_def Let_def)
  then have "distinct subs" "set subs = (if listed then set (sm_subs (es_mgr e)) else set (sm_subs (es_mgr e)) - {ch})"
    by (simp_all add: subs)
  then show ?thesis
    using inv by (intro echo_invI [of e]) (use ch new listed len in \<open>auto simp: nth_list_update split: if_splits\<close>)
qed

lemma echo_inv_chan:
  "echo_inv e \<Longrightarrow> ch < length (es_phase e) \<Longrightarrow>
   chan_inv (ch \<in> set (sm_subs (es_mgr e))) (sm_chans (es_mgr e) ! ch) (es_phase e ! ch) (es_seen e ! ch) (es_sent e ! ch)"
  by (simp add: echo_inv_def Let_def)

lemma echo_inv_subscribe:
  assumes inv: "echo_inv e"
  shows "echo_inv \<lparr>es_mgr = snd (Subscribe (es_mgr e)), es_phase = es_phase e @ [Subscribed],
     es_seen = es_seen e @ [[]], es_sent = es_sent e @ [[]]\<rparr>"
proof -
  have "length (sm_chans (es_mgr e)) \<notin> set (sm_subs (es_mgr e))"
    using inv by (auto simp: echo_inv_def Let_def)
  then show ?thesis
    using inv by (auto simp: echo_inv_def Subscribe_def Let_def nth_append chan_inv_def make_chan_def less_Suc_eq)
qed

text \<open>The task's steps, each a change at its own channel.\<close>

lemma echo_inv_take:
  assumes inv: "echo_inv e" and ch: "ch < length (es_phase e)" "es_phase e ! ch = Serving"
    and take: "takeEvent ch (es_mgr e) = Some (addr, m)"
  shows "echo_inv (e\<lparr>es_mgr := m, es_sent := (es_sent e)[ch := es_sent e ! ch @ [addr]]\<rparr>)"
    and "echo_inv (e\<lparr>es_mgr := dropSub ch m, es_phase := (es_phase e)[ch := Leaving]\<rparr>)"
proof -
  let ?q = "sm_chans (es_mgr e) ! ch"
  obtain rest where buf: "ch_buf ?q = addr # rest"
    and m: "m = (es_mgr e)\<lparr>sm_chans := (sm_chans (es_mgr e))[ch := ?q\<lparr>ch_buf := rest\<rparr>]\<rparr>"
    using take by (auto simp: takeEvent_def split: list.splits)
  have old: "chan_inv True ?q Serving (es_seen e ! ch) (es_sent e ! ch)" and l: "ch \<in> set (sm_subs (es_mgr e))"
    using echo_inv_chan [OF inv ch(1)] ch(2) by (auto simp: chan_inv_def)
  have same: "(es_phase e)[ch := Serving] = es_phase e" using ch(2) by (metis list_update_id)
  have "chan_inv True (?q\<lparr>ch_buf := rest\<rparr>) Serving (es_seen e ! ch) (es_sent e ! ch @ [addr])"
    using old by (simp add: chan_inv_def buf)
  from echo_inv_at [OF inv ch(1) this refl] l
  show "echo_inv (e\<lparr>es_mgr := m, es_sent := (es_sent e)[ch := es_sent e ! ch @ [addr]]\<rparr>)"
    by (simp add: m same echo_inv_def)
  have "subseq (es_sent e ! ch @ rest) (es_seen e ! ch)"
    using old by (auto simp: chan_inv_def buf intro: subseq_order.trans [OF list_emb_append_mono])
  then have "chan_inv False (?q\<lparr>ch_buf := rest\<rparr>) Leaving (es_seen e ! ch) (es_sent e ! ch)"
    using old by (simp add: chan_inv_def buf)
  from echo_inv_at [OF inv ch(1) this refl] ch
  show "echo_inv (e\<lparr>es_mgr := dropSub ch m, es_phase := (es_phase e)[ch := Leaving]\<rparr>)"
    by (simp add: m dropSub_def echo_inv_def Let_def)
qed

lemma echo_inv_phase:
  assumes inv: "echo_inv e" and ch: "ch < length (es_phase e)"
  shows "es_phase e ! ch = Subscribed \<Longrightarrow> echo_inv (e\<lparr>es_phase := (es_phase e)[ch := Serving]\<rparr>)"
    and "subscribed (es_phase e ! ch) \<Longrightarrow>
      echo_inv (e\<lparr>es_mgr := dropSub ch (es_mgr e), es_phase := (es_phase e)[ch := Leaving]\<rparr>)"
    and "es_phase e ! ch = Leaving \<Longrightarrow> closeSub ch (es_mgr e) = Some m \<Longrightarrow>
      echo_inv (e\<lparr>es_mgr := m, es_phase := (es_phase e)[ch := Left]\<rparr>)"
proof -
  let ?q = "sm_chans (es_mgr e) ! ch"
  note old = echo_inv_chan [OF inv ch]
  show "echo_inv (e\<lparr>es_phase := (es_phase e)[ch := Serving]\<rparr>)" if ph: "es_phase e ! ch = Subscribed"
  proof -
    have "chan_inv True ?q Serving (es_seen e ! ch) (es_sent e ! ch)" "ch \<in> set (sm_subs (es_mgr e))"
      using old ph by (simp_all add: chan_inv_def)
    from echo_inv_at [OF inv ch this(1) refl] this(2) show ?thesis by (simp add: echo_inv_def)
  qed
  show "echo_inv (e\<lparr>es_mgr := dropSub ch (es_mgr e), es_phase := (es_phase e)[ch := Leaving]\<rparr>)"
    if ph: "subscribed (es_phase e ! ch)"
  proof -
    have "chan_inv False ?q Leaving (es_seen e ! ch) (es_sent e ! ch)"
      using old ph by (auto simp: chan_inv_def)
    from echo_inv_at [OF inv ch this refl] show ?thesis by (simp add: dropSub_def echo_inv_def Let_def)
  qed
  show "echo_inv (e\<lparr>es_mgr := m, es_phase := (es_phase e)[ch := Left]\<rparr>)"
    if ph: "es_phase e ! ch = Leaving" and cl: "closeSub ch (es_mgr e) = Some m"
  proof -
    have "chan_inv False (ch_close ?q) Left (es_seen e ! ch) (es_sent e ! ch)" "ch \<notin> set (sm_subs (es_mgr e))"
      using old ph by (simp_all add: chan_inv_def ch_close_def)
    from echo_inv_at [OF inv ch this(1) refl] this(2) cl show ?thesis
      by (auto simp: closeSub_def remove1_idem echo_inv_def Let_def split: if_splits)
  qed
qed

lemma echo_inv_quiet [simp]:
  "echo_inv (e\<lparr>es_mgr := addClient addr (es_mgr e)\<rparr>) = echo_inv e"
  "echo_inv (e\<lparr>es_mgr := mgr_OnDisconnect addr (es_mgr e)\<rparr>) = echo_inv e"
  "echo_inv (e\<lparr>es_mgr := IncCounter (es_mgr e)\<rparr>) = echo_inv e"
  by (simp_all add: echo_inv_def Let_def addClient_def mgr_OnDisconnect_def IncCounter_def)

lemma echo_run_inv: "echo_run e \<Longrightarrow> echo_inv e"
proof (induction rule: echo_run.induct)
  case (er_notify e chs addr m)
  then show ?case using echo_inv_notify [of e chs addr] by auto
next
  case (er_subscribe e ch m)
  then show ?case using echo_inv_subscribe [of e] by simp
next
  case (er_drained e ch)
  then show ?case using echo_inv_phase(2) [of e ch] by simp
next
  case er_start
  show ?case by (simp add: echo_inv_def NewStatMgr_def)
qed (simp_all add: echo_inv_phase echo_inv_take)

text \<open>The subscribers of the echo server, however its goroutines interleave: announcing a client never
  panics, whatever order the channels are visited in, no channel is closed twice, and the task of a
  subscriber never finds its channel closed. What a client was sent, followed by what is waiting for it, is in
  the order of the announcements; at most 1024 addresses wait, and as long as no more than 1024 were announced to it
  the subscriber misses none.\<close>

theorem echo_subscribers_safe:
  assumes "echo_run e"
  shows "mset chs = mset (sm_subs (es_mgr e)) \<Longrightarrow> notifySubs addr chs (es_mgr e) \<noteq> None"
    and "ch < length (es_phase e) \<Longrightarrow> es_phase e ! ch = Leaving \<Longrightarrow> closeSub ch (es_mgr e) \<noteq> None"
    and "ch < length (es_phase e) \<Longrightarrow> es_phase e ! ch = Serving \<Longrightarrow> \<not> ch_closed (sm_chans (es_mgr e) ! ch)"
    and "ch < length (es_phase e) \<Longrightarrow>
       length (ch_buf (sm_chans (es_mgr e) ! ch)) \<le> 1024 \<and>
       subseq (es_sent e ! ch @ ch_buf (sm_chans (es_mgr e) ! ch)) (es_seen e ! ch)"
    and "ch < length (es_phase e) \<Longrightarrow> es_phase e ! ch = Serving \<Longrightarrow> length (es_seen e ! ch) \<le> 1024 \<Longrightarrow>
       es_sent e ! ch @ ch_buf (sm_chans (es_mgr e) ! ch) = es_seen e ! ch"
  using echo_run_inv [OF assms] echo_inv_notify [of e chs addr] echo_inv_chan [of e ch]
  by (auto simp: chan_inv_def closeSub_def)

theorem echo_subscribers_safe_witness:
  defines "m \<equiv> NewStatMgr\<lparr>sm_chans := [ch_send ''a:1'' (make_chan 1024)], sm_subs := [0]\<rparr>"
  defines "e \<equiv> \<lparr>es_mgr = m, es_phase = [Serving], es_seen = [[''a:1'']], es_sent = [[]]\<rparr>"
  shows "echo_run e \<and> notifySubs ''b:2'' [0] m \<noteq> None \<and> \<not> ch_closed (sm_chans m ! 0) \<and>
    es_sent e ! 0 @ ch_buf (sm_chans m ! 0) = es_seen e ! 0"
proof -
  have "echo_run \<lparr>es_mgr = snd (Subscribe NewStatMgr), es_phase = [Subscribed], es_seen = [[]], es_sent = [[]]\<rparr>"
    (is "echo_run ?e1") using er_subscribe [OF er_start] by (cases "Subscribe NewStatMgr") auto
  then have "echo_run (?e1\<lparr>es_phase := [Serving]\<rparr>)" (is "echo_run ?e2")
    using er_task [of ?e1 0] by simp
  moreover have "notifySubs ''a:1'' [0] (es_mgr ?e2) = Some m"
    by (simp add: m_def notifySub_def Subscribe_def NewStatMgr_def make_chan_def ch_room_def ch_send_def)
  moreover have "mset [0] = mset (sm_subs (es_mgr ?e2))"
    by (simp add: Subscribe_def NewStatMgr_def)
  ultimately have "echo_run e"
    using er_notify [of ?e2 "[0]" "''a:1''" m] by (simp add: e_def)
  moreover have "es_mgr e = m" "es_phase e = [Serving]" "es_seen e = [[''a:1'']]" "sm_subs m = [0]"
    by (simp_all add: e_def m_def)
  ultimately show ?thesis
    using echo_subscribers_safe(1) [of e "[0]" "''b:2''"] echo_subscribers_safe(3,5) [of e 0] by simp
qed

section \<open>The replies\<close>

text \<open>A handler of the echo server needs the state that \<^verbatim>\<open>OnNewStream\<close> sets; with it, a request counts once and is
  answered with its number plus one, which wraps.\<close>

lemma echo_reply:
  assumes "asMgr v = Some (Some p)"
  shows "MessageRequest_Handle asMgr (fst (main_onNewStream v st)) msg mgrs =
     (Inr \<lparr>mp_Msg = mr_Msg msg @ ''!'', mp_Num = mr_Num msg + 1, mp_Signature = ''yours echo.v1.0''\<rparr>,
      msg\<lparr>mr_Msg := mr_Msg msg @ ''!'', mr_Num := mr_Num msg + 1\<rparr>,
      mgrs(p := (mgrs p)\<lparr>sm_counter := Counter (mgrs p) + 1\<rparr>))"
  by (cases msg)
    (simp add: assms MessageRequest_Handle_def statFromContext_def State_def main_onNewStream_def SetState_def
      IncCounter_def Counter_def)

lemma echo_without_state:
  assumes "sc_state ctx = None"
  shows "fst (MessageRequest_Handle asMgr ctx msg mgrs) = Inl (OtherError ''missing stream context'')"
    "SubWhoElseEvent_Handle asMgr ctx mgrs = Some (Inl (OtherError ''missing stream context''), ctx, mgrs)"
    "WhoElse_Handle asMgr iter ctx mgrs = Inl (OtherError ''missing stream context'')"
  by (simp_all add: assms MessageRequest_Handle_def SubWhoElseEvent_Handle_def WhoElse_Handle_def
      statFromContext_def State_def)

text \<open>The client's check of the numbers never fails against this handler, and every round is counted.\<close>

lemma stream_demo_passes:
  fixes st :: "'v StreamContext \<times> 64 word"
  assumes "asMgr v = Some (Some p)"
  defines "call \<equiv> \<lambda>msg mgrs. (case MessageRequest_Handle asMgr (fst (main_onNewStream v st)) msg mgrs of
     (res, _, mgrs1) \<Rightarrow> (res, mgrs1))"
  shows "fst (streamDemo call k num mgrs) = None \<and>
     Counter (snd (streamDemo call k num mgrs) p) = Counter (mgrs p) + word_of_nat k"
  by (induction k arbitrary: num mgrs)
    (simp_all add: call_def echo_reply [of asMgr v p, OF assms(1)] Let_def Counter_def)

text \<open>The subscriber's loop ends exactly with the first error of \<^verbatim>\<open>Recv\<close>, having logged all events before it.\<close>

lemma receiveEvents_ends:
  assumes "\<And>i. i < length addrs \<Longrightarrow> recv (st i) = (Inr (addrs ! i), st (Suc i))"
    "recv (st (length addrs)) = (Inl err, s')"
  shows "receiveEvents recv events (st 0) = Some (events @ addrs, err, s')"
  using assms
proof (induction addrs arbitrary: events st)
  case Nil
  then show ?case by (simp add: receiveEvents.simps)
next
  case (Cons a addrs)
  have "receiveEvents recv (events @ [a]) (st (Suc 0)) = Some ((events @ [a]) @ addrs, err, s')"
    using Cons.IH [of "\<lambda>i. st (Suc i)" "events @ [a]"] Cons.prems(1) [of "Suc _"] Cons.prems(2) by simp
  with Cons.prems(1) [of 0] show ?case by (subst receiveEvents.simps) simp
qed

text \<open>A second subscription on a stream is refused, and its channel is closed again.\<close>

lemma second_subscription:
  assumes "statFromContext asMgr ctx = Inr p" "sc_handlerTaskActive ctx"
    "length (sm_chans (mgrs p)) \<notin> set (sm_subs (mgrs p))"
  shows "SubWhoElseEvent_Handle asMgr ctx mgrs =
     Some (Inl ErrHandlerTaskBusy, ctx,
       mgrs(p := (mgrs p)\<lparr>sm_chans := sm_chans (mgrs p) @ [ch_close (make_chan 1024)]\<rparr>))"
  using assms
  by (simp add: SubWhoElseEvent_Handle_def Subscribe_def NewTask_def Unsubscribe_def dropSub_def closeSub_def
      make_chan_def Let_def ch_close_def)

text \<open>Clients are told apart by their addresses only: of two peers without one, the first to leave takes both
  off the list.\<close>

lemma unnamed_clients_merge:
  assumes "clientName '''' \<notin> set (sm_clients m)"
  shows "sm_clients (mgr_OnDisconnect (clientName '''')
     (addClient (clientName '''') (addClient (clientName '''') m))) = sm_clients m"
  using assms by (simp add: mgr_OnDisconnect_def addClient_def)

text \<open>\<^verbatim>\<open>Contains\<close> is the search for a substring, and the hello server refuses exactly the questions that contain
  the word error, in any case of letters.\<close>

lemma Contains_iff: "Contains s sub \<longleftrightarrow> (\<exists>pre post. s = pre @ sub @ post)"
proof (induction s)
  case (Cons c cs)
  have "take (length sub) (c # cs) = sub \<longleftrightarrow> (\<exists>post. c # cs = sub @ post)"
    by (metis append_eq_conv_conj append_take_drop_id)
  with Cons.IH show ?case by (auto simp: Cons_eq_append_conv)
qed auto

lemma hello_refuses_error:
  "(\<exists>err. HelloRequest_Handle lower msg = Inl err) \<longleftrightarrow>
   (\<exists>pre post. ToLower lower (hr_Question msg) = pre @ ''error'' @ post)"
  unfolding Contains_iff [symmetric] by (simp add: HelloRequest_Handle_def Let_def)

end
