(* ===== verification/Spec2Isabelle.thy ===== *)
theory Spec2Isabelle
  imports Prelude Handshake Replay Writer_Progress End_To_End Plain_Loops Client_Reconnect Serve_Address Msgpack_Messages Msgpack_Map
    Debug_State Conn_Api Amgen_Run Amgen_Lib Amgen_Codec Echo_Example
begin

text \<open>
  A verification development of \<^verbatim>\<open>adaptivemsg-go\<close>, the Go runtime of the adaptivemsg wire protocol, and of
  its code generator \<^verbatim>\<open>amgen-go\<close>.

  \<^bold>\<open>The program.\<close> A client (\<^verbatim>\<open>src/client.go\<close>) dials a server (\<^verbatim>\<open>src/server.go\<close>); the two sides agree on
  protocol version, codec and frame limit in a handshake (\<^verbatim>\<open>src/protocol.go\<close>) and then exchange frames
  (\<^verbatim>\<open>src/frame.go\<close>) that carry messages of numbered streams (\<^verbatim>\<open>src/connection.go\<close>, \<^verbatim>\<open>src/stream.go\<close>). In
  protocol version 3 a connection survives the loss of its transport (\<^verbatim>\<open>src/recovery*.go\<close>,
  \<^verbatim>\<open>src/replay.go\<close>): data frames are numbered, kept until they are acknowledged and replayed on the next
  transport, to which the client attaches with the id and the secret of the connection. Messages are Go structs,
  found by their wire name in a registry (\<^verbatim>\<open>src/message.go\<close>, \<^verbatim>\<open>src/registry.go\<close>) and encoded by one of two
  MessagePack codecs (\<^verbatim>\<open>src/codec_msgpack.go\<close>). \<^verbatim>\<open>src/cmd/amgen-go/main.go\<close> generates Rust types for them.

  \<^bold>\<open>Conventions.\<close> A Go struct is a record, an error is a value of \<open>go_error\<close> (theory \<open>Errors\<close>), a function that
  may fail returns \<open>go_error + 'a\<close>, integers that wrap are words or \<open>int\<close> with \<open>wrap64\<close>. State is passed
  in and out. What a mutex protects is one step. A call that waits returns the list of the outcomes
  that are ready (\<open>outcomes\<close>); no outcome means that it goes on waiting. Where other goroutines act during a
  call, \<open>env\<close> is what they do to the state. A panic is the error \<open>ErrPanic\<close>. Endless loops are given by one round, or as a step function; loops that
  may not end are functions into \<open>option\<close>. The clock is an argument, in nanoseconds. Names are those of the
  source, with a prefix where two methods share one.

  \<^bold>\<open>Theories, their sources and what they show.\<close>

  \<^item> \<open>Prelude\<close>, \<open>Errors\<close>, \<open>Debug\<close>: machine types, big-endian integers, the errors of \<^verbatim>\<open>src/error.go\<close>, the counters and
    the failure record of \<^verbatim>\<open>src/debug.go\<close>. The locale \<open>draining\<close> of \<open>Prelude\<close> is the argument that steps which use up
    work come to an end; the replay of a session and the goroutines of a stopping server are its instances.
  \<^item> \<open>IO_Model\<close>, \<open>Wire_Format\<close>: byte connections, \<^verbatim>\<open>bufio.Writer\<close>, and the locales \<open>io_writer\<close> and
    \<open>wire_format\<close>, the contracts of a writer and of a message of fixed length.
  \<^item> \<open>Frame\<close>: headers, writing and reading of frames. A frame is read back unchanged; a read error is one of content
    exactly when a whole header was refused.
  \<^item> \<open>Codec_Registry\<close>, \<open>Handshake\<close>: the codec table and both sides of the handshake, which agree with each other; what
    the server accepts is within its own limits, whatever bytes arrive.
  \<^item> \<open>Replay\<close>: the replay buffer as slice, head index and byte count, with the locale \<open>replay_queue\<close> as its contract. A
    snapshot is a function of the history of calls; memory is bounded.
  \<^item> \<open>Recovery_Options\<close>, \<open>Recovery_Protocol\<close>, \<open>Recovery_State\<close>: options and their wire form, attach and control
    messages, acknowledgements (sent in increasing order, never forgotten, and within the ACK delay). Durations are
    whole milliseconds on the wire; \<open>negotiated_on_wire\<close> says what that does to each of them.
  \<^item> \<open>Conn_State\<close>, \<open>Streams\<close>, \<open>Transport\<close>, \<open>Conn_Frame\<close>: the connection, its stream table, attaching and closing
    transports, and what each operation leaves alone.
  \<^item> \<open>Stream_Ops\<close>, \<open>Dispatch\<close>, \<open>Plain_Loops\<close>: sending and receiving, decoding and handlers, and the two goroutines of a
    connection without recovery. Messages are delivered once, in order; a request gets its own reply; the locale
    \<open>send_observer\<close> is what a queue shows to its one sender. \<open>Conn_Api\<close>: the methods of a connection on its default
    stream, which is made once and has id 0.
  \<^item> \<open>Recovery_Writer\<close>, \<open>Recovery_Reader\<close>: the two goroutines of a recoverable connection, each with an abstract sender
    or receiver that it implements, down to the bytes on one side and the queues of the streams on the other.
    \<open>Stream_Queues\<close> says what the queue of a stream holds (\<open>inq\<close>) and what it means that a frame was put into its
    stream's queue and no other (\<open>feeds\<close>).
  \<^item> \<open>Delivery\<close>: the session of a sender and a receiver over transports that fail: exactly once, in order, nothing
    lost, and everything delivered by the replay after one more attach, however it goes. \<open>Writer_Loop\<close>: the writer goroutine
    \<^verbatim>\<open>recoveryWriterLoop\<close> as a whole, with every outcome of its waits and writes, is simulated by the session.
    \<open>Writer_Progress\<close>: on a transport that takes what is written it gets done with a replay, without waiting.
  \<^item> \<open>End_To_End\<close>: the writer goroutine of one end and the reader goroutine of the other, with the bytes of every
    transport between them (\<open>link_run\<close>). Transports may end at any byte, and what other goroutines do is an arbitrary step that
    leaves the parts of these two alone. Every run is one of the session of \<open>Delivery\<close>; a history of the reader's rounds
    (\<open>lk_rounds\<close>) shows that each round that counts a frame has put it into its stream's queue and that no other round has, so
    the code delivers exactly once and in order; and the reader never refuses what it reads. The frame limit is at least 9 bytes, the length of an
    acknowledgement.
  \<^item> \<open>Server\<close>, \<open>Server_Lifecycle\<close>, \<open>Server_Resume\<close>, \<open>Serve_Address\<close>: the server over a store of connections. Shutdown
    reaches every connection and completes by the server's own goroutines, without a connection that closes by itself; a connection is resumed only with its secret; server and
    client read addresses alike.
  \<^item> \<open>Client\<close>, \<open>Client_Connect\<close>, \<open>Attach_Agreement\<close>, \<open>Client_Reconnect\<close>: dialling over a network that is a parameter.
    Connecting leaks no transport, and ends when there is a connect timeout or no peer falls silent: a read from a
    silent peer returns when its deadline passes, and never without one (\<open>waitsForever\<close>). Client and server run against each
    other agree on the session and on what each replays; reconnecting succeeds once the server can be reached. The locale
    \<open>connect_attempt\<close> is what the retry loop relies on.
  \<^item> \<open>Go_Types\<close>, \<open>Messages\<close>: Go's types and values as \<^verbatim>\<open>reflect\<close> shows them, wire names and the registry. A message has
    one name however it is asked for; asking a nil pointer may panic.
  \<^item> \<open>Msgpack_Codec\<close>, \<open>Msgpack_Format\<close>, \<open>Msgpack_Roundtrip\<close>, \<open>Msgpack_Reference\<close>, \<open>Msgpack_Messages\<close>,
    \<open>Msgpack_Map\<close>: the codecs. The MessagePack library is a parameter; the locale
    \<open>msgpack_format\<close> is what they rely on of it, and \<open>refMsgpack\<close> is a library that satisfies it. The compact codec decodes
    what it encodes and reads exactly the envelopes of the format.
  \<^item> \<open>Debug_State\<close>: the snapshots of \<^verbatim>\<open>src/debug.go\<close>, which are consistent.
  \<^item> \<open>Amgen_Names\<close>, \<open>Amgen_Render\<close>, \<open>Amgen_Modules\<close>, \<open>Amgen_Lib\<close>, \<open>Amgen_Run\<close>, \<open>Amgen_Codec\<close>: the generator from syntax
    trees to text, the module tree of \<^verbatim>\<open>lib.rs\<close>, its text read back the way Rust reads it (\<open>readLib\<close>, the one
    function here that models Rust and not the program), a whole run over a file system, and the generated struct against the
    compact codec.
  \<^item> \<open>Echo_Example\<close>: the programs under \<^verbatim>\<open>src/examples\<close>, an echo service with subscriptions and its demo clients,
    and the hello service. No goroutine uses the channel of a subscriber after it is closed, and what a subscriber is sent
    is in the order of the announcements, without a gap while no more than 1024 were made to it.

  \<^bold>\<open>Bounds.\<close> The limit of a replay buffer is below \<open>2 ^ 62\<close> bytes and a payload below \<open>2 ^ 61\<close>, which memory does not
  exceed, so the byte count does not wrap. Times are such that adding an option to the clock stays within 64 bits
  (\<open>clock_ok\<close>, some centuries). Lengths in MessagePack are below \<open>2 ^ 32\<close>, as in the format. Decoding has fuel for the nesting of
  the payload: the depth of the value (\<open>vdepth\<close>) is enough, and running out is the panic of an exhausted stack. \<open>depth\<close> bounds the nesting of struct types by value, which Go
  requires to be finite (\<open>wf_decls\<close>). The number of frames of a connection may wrap around: the replay
  buffer then refuses to stage.

  \<^bold>\<open>Not modelled.\<close> The package documentation, and of the example programs their flags, logging and goroutine starts. Caches per type and the pools of encoders: they hold
  values of functions and reset objects. Methods of a stream that only pass their arguments on
  (\<^verbatim>\<open>Stream.Send\<close> is \<open>sendBoxed\<close>, and the like) and nil receivers. The network, the Go parser, the random source and the
  operating system, which are parameters. Cyclic Go values, which the codecs do not end on. Scheduling: every
  interleaving is allowed, so what depends on fairness is stated as the possibility to go on. Some steps are larger than
  in the program: the handshake of the server with the attach that follows (\<open>handleConn\<close>) is one step, although the server can stop
  between the two; the counters of opened and closed streams change in one step with the table, although they are atomics beside
  its mutex; and \<open>Writer_Progress\<close> reads the clock once for all rounds. A silent peer is modelled for the client; on the server, whose
  handshakes end with the handshake timeout or with \<^verbatim>\<open>Shutdown\<close>, it is a step that is not taken.
\<close>

end
